(* ===== verification/Hz_Prelude.thy ===== *)
theory Hz_Prelude
  imports Main "HOL-Library.Word"
begin

text \<open>
  Shared vocabulary of the development: the outcomes of fallible code, the composition of
  stateful fallible computations, fixed-width integers, decimal printing and the contract of a
  distributed map as its clients see it.
\<close>

section \<open>Outcomes and stateful computations\<close>

text \<open>
  A C++ exception, a failed assertion and an undefined memory access are values, so that every
  early exit of the sources is a branch of the model. \<open>RemoteException\<close> stands for any exception
  that the cluster answers with, \<open>LengthError\<close> for the standard library's exception on an oversized
  container, \<open>NonTermination\<close> for a loop that ran out of fuel.
\<close>

datatype hz_error =
    IllegalStateException
  | IllegalArgumentException
  | NullPointerException
  | NoSuchElementException
  | UnsupportedOperationException
  | HazelcastSerializationException
  | RemoteException nat
  | AssertionFailure
  | NullDereference
  | OutOfBounds
  | LengthError
  | DivisionByZero
  | NonTermination

type_synonym 'a res = "hz_error + 'a"

text \<open>
  A computation takes a state and returns an outcome together with the state it leaves behind:
  the effects made before an exception stay in place, as they do in the program.
\<close>

type_synonym ('s, 'a) comp = "'s \<Rightarrow> 'a res \<times> 's"

definition retM :: "'a \<Rightarrow> ('s, 'a) comp" where
  "retM a s = (Inr a, s)"

definition throwM :: "hz_error \<Rightarrow> ('s, 'a) comp" where
  "throwM e s = (Inl e, s)"

definition bindM :: "('s, 'a) comp \<Rightarrow> ('a \<Rightarrow> ('s, 'b) comp) \<Rightarrow> ('s, 'b) comp" where
  "bindM f g s = (case f s of (Inl e, s') \<Rightarrow> (Inl e, s') | (Inr a, s') \<Rightarrow> g a s')"

definition liftR :: "'a res \<Rightarrow> ('s, 'a) comp" where
  "liftR r s = (r, s)"

definition bindR :: "'a res \<Rightarrow> ('a \<Rightarrow> 'b res) \<Rightarrow> 'b res" where
  "bindR r f = (case r of Inl e \<Rightarrow> Inl e | Inr a \<Rightarrow> f a)"

text \<open>A try block whose handler runs \<open>h\<close> and rethrows.\<close>

definition rethrow_after :: "('s, 'a) comp \<Rightarrow> ('s \<Rightarrow> 's) \<Rightarrow> ('s, 'a) comp" where
  "rethrow_after f h s = (case f s of (Inl e, s') \<Rightarrow> (Inl e, h s') | (Inr a, s') \<Rightarrow> (Inr a, s'))"

definition is_ok :: "'a res \<Rightarrow> bool" where
  "is_ok r = (case r of Inl _ \<Rightarrow> False | Inr _ \<Rightarrow> True)"

named_theorems comp_simps \<open>unfolding of the computation combinators\<close>

lemma bindM_Inr: "f s = (Inr a, s') \<Longrightarrow> bindM f g s = g a s'"
  by (simp add: bindM_def)

lemma bindM_Inl: "f s = (Inl e, s') \<Longrightarrow> bindM f g s = (Inl e, s')"
  by (simp add: bindM_def)

lemma bindM_retM [simp]: "bindM (retM a) g = g a"
  by (simp add: bindM_def retM_def fun_eq_iff)

lemma bindM_throwM [simp]: "bindM (throwM e) g = throwM e"
  by (simp add: bindM_def throwM_def fun_eq_iff)

lemma bindM_assoc: "bindM (bindM f g) h = bindM f (\<lambda>a. bindM (g a) h)"
  by (simp add: bindM_def fun_eq_iff split: prod.splits sum.splits)

lemma bindM_InrE:
  assumes "bindM f g s = (Inr b, s'')"
  obtains a s' where "f s = (Inr a, s')" "g a s' = (Inr b, s'')"
  using assms by (auto simp: bindM_def split: prod.splits sum.splits)

lemma bindR_simps [simp]: "bindR (Inl e) f = Inl e" "bindR (Inr a) f = f a"
  by (simp_all add: bindR_def)

lemma bindR_InrE:
  assumes "bindR r f = Inr b"
  obtains a where "r = Inr a" "f a = Inr b"
  using assms by (cases r) auto

lemmas [comp_simps] = retM_def throwM_def liftR_def bindM_def rethrow_after_def

lemma is_ok_simps [simp]: "is_ok (Inr a)" "\<not> is_ok (Inl e)"
  by (simp_all add: is_ok_def)

section \<open>Fixed-width integers\<close>

type_synonym byte = "8 word"
type_synonym int32_t = "32 word"
type_synonym int64_t = "64 word"

definition u64 :: "nat \<Rightarrow> nat" where
  "u64 n = n mod 2 ^ 64"

definition u64_sub :: "nat \<Rightarrow> nat \<Rightarrow> nat" where
  "u64_sub a b = (a + 2 ^ 64 - b) mod 2 ^ 64"

text \<open>Conversion of a 64-bit unsigned value to the signed type of the same width, and back.\<close>

definition to_int64 :: "nat \<Rightarrow> int" where
  "to_int64 n = (if n < 2 ^ 63 then int n else int n - 2 ^ 64)"

definition to_uint64 :: "int \<Rightarrow> nat" where
  "to_uint64 i = nat (i mod 2 ^ 64)"

text \<open>Two's complement wrap-around at 32 bits.\<close>

definition wrap32 :: "int \<Rightarrow> int" where
  "wrap32 i = (i + 2 ^ 31) mod 2 ^ 32 - 2 ^ 31"

lemma u64_small [simp]: "n < 2 ^ 64 \<Longrightarrow> u64 n = n"
  by (simp add: u64_def)

lemma u64_less [simp]: "u64 n < 2 ^ 64"
  by (simp add: u64_def)

lemma u64_sub_le:
  assumes "b \<le> a" "a < 2 ^ 64"
  shows "u64_sub a b = a - b"
proof -
  have eq: "a + 2 ^ 64 - b = (a - b) + 2 ^ 64"
    using assms(1) by (rule diff_add_assoc2)
  have "a - b < 2 ^ 64"
    using assms(2) by (rule less_imp_diff_less)
  then show ?thesis
    unfolding u64_sub_def eq mod_add_self2 by (rule mod_less)
qed

lemma to_int64_inj: "a < 2 ^ 64 \<Longrightarrow> b < 2 ^ 64 \<Longrightarrow> to_int64 a = to_int64 b \<longleftrightarrow> a = b"
  by (auto simp: to_int64_def split: if_splits)

lemma to_uint64_to_int64: "n < 2 ^ 64 \<Longrightarrow> to_uint64 (to_int64 n) = n"
proof (cases "n < 2 ^ 63")
  case True
  then show ?thesis by (simp add: to_uint64_def to_int64_def)
next
  case False
  assume n: "n < 2 ^ 64"
  have "(int n - 2 ^ 64) mod 2 ^ 64 = int n mod 2 ^ 64"
    by (simp add: mod_diff_eq [symmetric])
  also have "\<dots> = int n" using n by simp
  finally show ?thesis using False by (simp add: to_uint64_def to_int64_def)
qed

lemma wrap32_id: "- (2 ^ 31) \<le> i \<Longrightarrow> i < 2 ^ 31 \<Longrightarrow> wrap32 i = i"
  by (simp add: wrap32_def)

section \<open>Decimal printing\<close>

text \<open>\<open>std::to_string\<close> on unsigned and signed integers.\<close>

definition digit_char :: "nat \<Rightarrow> char" where
  "digit_char d = char_of (48 + d)"

fun nat_to_string :: "nat \<Rightarrow> string" where
  "nat_to_string n =
     (if n < 10 then [digit_char n] else nat_to_string (n div 10) @ [digit_char (n mod 10)])"

declare nat_to_string.simps [simp del]

definition int_to_string :: "int \<Rightarrow> string" where
  "int_to_string i =
     (if i < 0 then CHR ''-'' # nat_to_string (nat (- i)) else nat_to_string (nat i))"

definition char_digit :: "char \<Rightarrow> nat" where
  "char_digit c = of_char c - 48"

definition string_to_nat :: "string \<Rightarrow> nat" where
  "string_to_nat s = foldl (\<lambda>n c. n * 10 + char_digit c) 0 s"

lemma char_digit_digit_char [simp]: "d < 10 \<Longrightarrow> char_digit (digit_char d) = d"
  by (simp add: char_digit_def digit_char_def of_char_of)

lemma string_to_nat_to_string [simp]: "string_to_nat (nat_to_string n) = n"
proof (induction n rule: nat_to_string.induct)
  case (1 n)
  show ?case
  proof (cases "n < 10")
    case True
    then show ?thesis by (simp add: nat_to_string.simps [of n] string_to_nat_def)
  next
    case False
    with 1 have "string_to_nat (nat_to_string (n div 10)) = n div 10" by simp
    with False show ?thesis
      by (simp add: nat_to_string.simps [of n] string_to_nat_def)
  qed
qed

lemma nat_to_string_inj [simp]: "nat_to_string a = nat_to_string b \<longleftrightarrow> a = b"
  by (metis string_to_nat_to_string)

lemma nat_to_string_nonempty [simp]: "nat_to_string n \<noteq> []"
  by (subst nat_to_string.simps) simp

lemma int_to_string_of_nat [simp]: "int_to_string (int n) = nat_to_string n"
  by (simp add: int_to_string_def)

section \<open>Blocks of a byte sequence\<close>

text \<open>The bytes that partition \<open>i\<close> of size \<open>P\<close> holds.\<close>

definition block :: "nat \<Rightarrow> nat \<Rightarrow> 'a list \<Rightarrow> 'a list" where
  "block P i xs = take P (drop (i * P) xs)"

lemma block_append_left: "Suc i * P \<le> length xs \<Longrightarrow> block P i (xs @ ys) = block P i xs"
  by (simp add: block_def)

lemma length_block_full: "Suc i * P \<le> length xs \<Longrightarrow> length (block P i xs) = P"
  by (simp add: block_def)

lemma length_block: "length (block P i xs) = min P (length xs - i * P)"
  by (simp add: block_def)

lemma take_add_block: "take (i * P) xs @ block P i xs = take (Suc i * P) xs"
  by (simp add: block_def take_add [symmetric] add.commute)

section \<open>The contract of a distributed map\<close>

text \<open>
  What a client of \<open>IMap\<close> relies on. \<open>abs\<close> reads the entries off the map's state, \<open>valid\<close> marks
  the values that can be stored, \<open>stored\<close> what such a value reads back as, \<open>ok\<close> the states in
  which the map answers.
\<close>

record ('m, 'k, 'v) imap_ops =
  imap_get :: "'k \<Rightarrow> ('m, 'v option) comp"
  imap_put :: "'k \<Rightarrow> 'v \<Rightarrow> ('m, unit) comp"
  imap_clear :: "('m, unit) comp"

locale imap =
  fixes ops :: "('m, 'k, 'v) imap_ops"
    and abs :: "'m \<Rightarrow> 'k \<rightharpoonup> 'v"
    and valid :: "'v \<Rightarrow> bool"
    and stored :: "'v \<Rightarrow> 'v"
    and ok :: "'m \<Rightarrow> bool"
  assumes get_law: "ok m \<Longrightarrow> \<exists>m'. imap_get ops k m = (Inr (abs m k), m') \<and> abs m' = abs m \<and> ok m'"
    and put_law: "ok m \<Longrightarrow> valid v \<Longrightarrow>
      \<exists>m'. imap_put ops k v m = (Inr (), m') \<and> abs m' = (abs m)(k \<mapsto> stored v) \<and> ok m'"
    and clear_law: "ok m \<Longrightarrow>
      \<exists>m'. imap_clear ops m = (Inr (), m') \<and> abs m' = Map.empty \<and> ok m'"
begin

lemma getE:
  assumes "ok m"
  obtains m' where "imap_get ops k m = (Inr (abs m k), m')" "abs m' = abs m" "ok m'"
  using get_law [OF assms] by blast

lemma putE:
  assumes "ok m" "valid v"
  obtains m' where "imap_put ops k v m = (Inr (), m')" "abs m' = (abs m)(k \<mapsto> stored v)" "ok m'"
  using put_law [OF assms] by blast

end

end
