(* ===== verification/Atomics.thy ===== *)
theory Atomics
  imports Hz_Prelude
begin

text \<open>
  The objects that threads of the client share under a mutex: \<open>util/Atomic.h\<close>, \<open>util/AtomicArray.h\<close> and
  \<open>util/ConcurrentSet.h\<close>. Every operation is what its body does to the guarded value; calls are interleaved step by
  step, the value being read and written in separate steps between taking and releasing the mutex of its cell. The
  mutex itself has no body in the sources: taking it waits until nobody holds it. Under every interleaving the calls
  answer as if they were made one after the other. The element type is any ordered ring: words wrap, unbounded integers
  stand for signed types as long as they do not overflow, which the language leaves undefined.
\<close>

section \<open>The operations\<close>

subsection \<open>Atomic\<close>

datatype 't answer_of = Num 't | Truth bool | Count nat | Elements "'t list" | Returned | IndexOutOfBounds nat

definition Atomic_postDecrement :: "'t::comm_ring_1 \<Rightarrow> 't answer_of \<times> 't" where
  "Atomic_postDecrement v = (Num v, v - 1)"

definition Atomic_minusAssign :: "'t::comm_ring_1 \<Rightarrow> 't \<Rightarrow> 't answer_of \<times> 't" where
  "Atomic_minusAssign delta v = (let v' = v - delta in (Num v', v'))"

definition Atomic_postIncrement :: "'t::comm_ring_1 \<Rightarrow> 't answer_of \<times> 't" where
  "Atomic_postIncrement v = (Num v, v + 1)"

definition Atomic_preIncrement :: "'t::comm_ring_1 \<Rightarrow> 't answer_of \<times> 't" where
  "Atomic_preIncrement v = (let v' = v + 1 in (Num v', v'))"

definition Atomic_plusAssign :: "'t::comm_ring_1 \<Rightarrow> 't \<Rightarrow> 't answer_of \<times> 't" where
  "Atomic_plusAssign delta v = (let v' = v + delta in (Num v', v'))"

definition Atomic_assign :: "'t \<Rightarrow> 't \<Rightarrow> 't answer_of \<times> 't" where
  "Atomic_assign i v = (Returned, i)"

definition Atomic_get :: "'t \<Rightarrow> 't answer_of \<times> 't" where
  "Atomic_get v = (Num v, v)"

definition Atomic_preDecrement :: "'t::comm_ring_1 \<Rightarrow> 't answer_of \<times> 't" where
  "Atomic_preDecrement v = (let v' = v - 1 in (Num v', v'))"

definition Atomic_lessEq :: "'t::linorder \<Rightarrow> 't \<Rightarrow> 't answer_of \<times> 't" where
  "Atomic_lessEq i v = (Truth (v \<le> i), v)"

definition Atomic_equal :: "'t \<Rightarrow> 't \<Rightarrow> 't answer_of \<times> 't" where
  "Atomic_equal i v = (Truth (i = v), v)"

definition Atomic_notEqual :: "'t \<Rightarrow> 't \<Rightarrow> 't answer_of \<times> 't" where
  "Atomic_notEqual i v = (Truth (i \<noteq> v), v)"

definition Atomic_compareAndSet :: "'t \<Rightarrow> 't \<Rightarrow> 't \<Rightarrow> 't answer_of \<times> 't" where
  "Atomic_compareAndSet compareValue setValue v = (if compareValue = v then (Truth True, setValue) else (Truth False, v))"

datatype 't atomic_op =
    PostDecrement | MinusAssign 't | PostIncrement | PreIncrement | PlusAssign 't | Assign 't | GetValue | PreDecrement
  | LessEq 't | EqualTo 't | NotEqualTo 't | CompareAndSet 't 't

fun atomic_do :: "'t::{comm_ring_1,linorder} atomic_op \<Rightarrow> 't \<Rightarrow> 't answer_of \<times> 't" where
  "atomic_do PostDecrement = Atomic_postDecrement"
| "atomic_do (MinusAssign d) = Atomic_minusAssign d"
| "atomic_do PostIncrement = Atomic_postIncrement"
| "atomic_do PreIncrement = Atomic_preIncrement"
| "atomic_do (PlusAssign d) = Atomic_plusAssign d"
| "atomic_do (Assign i) = Atomic_assign i"
| "atomic_do GetValue = Atomic_get"
| "atomic_do PreDecrement = Atomic_preDecrement"
| "atomic_do (LessEq i) = Atomic_lessEq i"
| "atomic_do (EqualTo i) = Atomic_equal i"
| "atomic_do (NotEqualTo i) = Atomic_notEqual i"
| "atomic_do (CompareAndSet c n) = Atomic_compareAndSet c n"

subsection \<open>AtomicArray\<close>

text \<open>Each element has a mutex of its own; the index is checked before it is taken.\<close>

definition AtomicArray_new :: "nat \<Rightarrow> 't::comm_ring_1 list" where
  "AtomicArray_new n = replicate n 0"

definition array_cells :: "'t::zero list \<Rightarrow> nat \<Rightarrow> 't" where
  "array_cells xs j = (if j < length xs then xs ! j else 0)"

definition checkIndexBound :: "nat \<Rightarrow> nat \<Rightarrow> 't answer_of option" where
  "checkIndexBound n i = (if i \<ge> n then Some (IndexOutOfBounds i) else None)"

definition AtomicArray_getAndAdd :: "'t::comm_ring_1 \<Rightarrow> 't \<Rightarrow> 't \<times> 't" where
  "AtomicArray_getAndAdd delta x = (let value = x in (value, value + delta))"

definition AtomicArray_incrementAndGet :: "'t::comm_ring_1 \<Rightarrow> 't \<times> 't" where
  "AtomicArray_incrementAndGet x = (let (value, x') = AtomicArray_getAndAdd 1 x in (value + 1, x'))"

datatype 't array_op = ArrayGet nat | GetAndAdd nat 't | IncrementAndGet nat

fun array_at :: "'t array_op \<Rightarrow> nat" where
  "array_at (ArrayGet i) = i"
| "array_at (GetAndAdd i d) = i"
| "array_at (IncrementAndGet i) = i"

fun array_do :: "'t::comm_ring_1 array_op \<Rightarrow> 't \<Rightarrow> 't answer_of \<times> 't" where
  "array_do (ArrayGet i) x = (Num x, x)"
| "array_do (GetAndAdd i d) x = (let (a, x') = AtomicArray_getAndAdd d x in (Num a, x'))"
| "array_do (IncrementAndGet i) x = (let (a, x') = AtomicArray_incrementAndGet x in (Num a, x'))"

subsection \<open>ConcurrentSet\<close>

text \<open>\<open>std::set\<close> as the list of its elements in order.\<close>

definition ConcurrentSet_add :: "'t::linorder \<Rightarrow> 't list \<Rightarrow> 't answer_of \<times> 't list" where
  "ConcurrentSet_add e xs = (if e \<in> set xs then (Truth False, xs) else (Truth True, insort e xs))"

definition ConcurrentSet_size :: "'t list \<Rightarrow> 't answer_of \<times> 't list" where
  "ConcurrentSet_size xs = (Count (length xs), xs)"

definition ConcurrentSet_isEmpty :: "'t list \<Rightarrow> 't answer_of \<times> 't list" where
  "ConcurrentSet_isEmpty xs = (Truth (xs = []), xs)"

definition ConcurrentSet_toArray :: "'t list \<Rightarrow> 't answer_of \<times> 't list" where
  "ConcurrentSet_toArray xs = (Elements (foldl (\<lambda>result value. result @ [value]) [] xs), xs)"

definition ConcurrentSet_clear :: "'t list \<Rightarrow> 't answer_of \<times> 't list" where
  "ConcurrentSet_clear xs = (Returned, [])"

datatype 't cset_op = AddElement 't | SizeOf | IsEmpty | ToArray | ClearAll

fun cset_do :: "'t::linorder cset_op \<Rightarrow> 't list \<Rightarrow> 't answer_of \<times> 't list" where
  "cset_do (AddElement e) = ConcurrentSet_add e"
| "cset_do SizeOf = ConcurrentSet_size"
| "cset_do IsEmpty = ConcurrentSet_isEmpty"
| "cset_do ToArray = ConcurrentSet_toArray"
| "cset_do ClearAll = ConcurrentSet_clear"

section \<open>Calls under a mutex\<close>

text \<open>
  A class of guarded objects: the cell an operation works on, what it answers without taking the mutex of the cell, and
  what it does to the cell.
\<close>

record ('op, 's, 'ans) guarded_class =
  gc_at :: "'op \<Rightarrow> nat"
  gc_check :: "'op \<Rightarrow> 'ans option"
  gc_do :: "'op \<Rightarrow> 's \<Rightarrow> 'ans \<times> 's"

definition Atomic_class :: "('t::{comm_ring_1,linorder} atomic_op, 't, 't answer_of) guarded_class" where
  "Atomic_class = \<lparr>gc_at = (\<lambda>_. 0), gc_check = (\<lambda>_. None), gc_do = atomic_do\<rparr>"

definition AtomicArray_class :: "nat \<Rightarrow> ('t::comm_ring_1 array_op, 't, 't answer_of) guarded_class" where
  "AtomicArray_class n = \<lparr>gc_at = array_at, gc_check = (\<lambda>op. checkIndexBound n (array_at op)), gc_do = array_do\<rparr>"

definition ConcurrentSet_class :: "('t::linorder cset_op, 't list, 't answer_of) guarded_class" where
  "ConcurrentSet_class = \<lparr>gc_at = (\<lambda>_. 0), gc_check = (\<lambda>_. None), gc_do = cset_do\<rparr>"

datatype ('op, 's, 'ans) call_phase = Not_Calling | Wants 'op | Holds 'op | Has_Read 'op 's | Has_Written 'op 'ans

record ('op, 's, 'ans) guarded_state =
  cells :: "nat \<Rightarrow> 's"
  holders :: "nat \<Rightarrow> nat option"
  phases :: "nat \<Rightarrow> ('op, 's, 'ans) call_phase"
  history :: "(nat \<times> 'op \<times> 'ans) list"

definition guarded_start :: "(nat \<Rightarrow> 's) \<Rightarrow> ('op, 's, 'ans) guarded_state" where
  "guarded_start mem = \<lparr>cells = mem, holders = (\<lambda>_. None), phases = (\<lambda>_. Not_Calling), history = []\<rparr>"

text \<open>A step of thread \<open>t\<close>. A call enters the history when it returns.\<close>

inductive guarded_step :: "('op, 's, 'ans) guarded_class \<Rightarrow> nat \<Rightarrow> ('op, 's, 'ans) guarded_state \<Rightarrow> ('op, 's, 'ans) guarded_state \<Rightarrow> bool"
  for cls t s where
  call: "phases s t = Not_Calling \<Longrightarrow> guarded_step cls t s (s\<lparr>phases := (phases s)(t := Wants op)\<rparr>)"
| refuse: "phases s t = Wants op \<Longrightarrow> gc_check cls op = Some a \<Longrightarrow>
    guarded_step cls t s (s\<lparr>phases := (phases s)(t := Not_Calling), history := history s @ [(t, op, a)]\<rparr>)"
| lock: "phases s t = Wants op \<Longrightarrow> gc_check cls op = None \<Longrightarrow> holders s (gc_at cls op) = None \<Longrightarrow>
    guarded_step cls t s (s\<lparr>phases := (phases s)(t := Holds op), holders := (holders s)(gc_at cls op := Some t)\<rparr>)"
| load: "phases s t = Holds op \<Longrightarrow>
    guarded_step cls t s (s\<lparr>phases := (phases s)(t := Has_Read op (cells s (gc_at cls op)))\<rparr>)"
| store: "phases s t = Has_Read op x \<Longrightarrow> gc_do cls op x = (a, x') \<Longrightarrow>
    guarded_step cls t s (s\<lparr>phases := (phases s)(t := Has_Written op a), cells := (cells s)(gc_at cls op := x')\<rparr>)"
| unlock: "phases s t = Has_Written op a \<Longrightarrow>
    guarded_step cls t s (s\<lparr>phases := (phases s)(t := Not_Calling), holders := (holders s)(gc_at cls op := None),
      history := history s @ [(t, op, a)]\<rparr>)"

inductive guarded_reach :: "('op, 's, 'ans) guarded_class \<Rightarrow> (nat \<Rightarrow> 's) \<Rightarrow> ('op, 's, 'ans) guarded_state \<Rightarrow> bool" for cls mem where
  start: "guarded_reach cls mem (guarded_start mem)"
| step: "guarded_reach cls mem s \<Longrightarrow> guarded_step cls t s s' \<Longrightarrow> guarded_reach cls mem s'"

subsection \<open>The same calls one after the other\<close>

definition seq_call :: "('op, 's, 'ans) guarded_class \<Rightarrow> 'op \<Rightarrow> (nat \<Rightarrow> 's) \<Rightarrow> 'ans \<times> (nat \<Rightarrow> 's)" where
  "seq_call cls op mem = (case gc_check cls op of Some a \<Rightarrow> (a, mem)
     | None \<Rightarrow> let (a, x) = gc_do cls op (mem (gc_at cls op)) in (a, mem(gc_at cls op := x)))"

fun seq_calls :: "('op, 's, 'ans) guarded_class \<Rightarrow> 'op list \<Rightarrow> (nat \<Rightarrow> 's) \<Rightarrow> 'ans list \<times> (nat \<Rightarrow> 's)" where
  "seq_calls cls [] mem = ([], mem)"
| "seq_calls cls (op # ops) mem = (let (a, mem1) = seq_call cls op mem; (as, mem2) = seq_calls cls ops mem1 in (a # as, mem2))"

lemma seq_calls_append:
  "seq_calls cls (xs @ ys) mem = (let (as, mem1) = seq_calls cls xs mem; (bs, mem2) = seq_calls cls ys mem1 in (as @ bs, mem2))"
  by (induction xs arbitrary: mem) (simp_all add: Let_def split: prod.split)

abbreviation called :: "('op, 's, 'ans) guarded_state \<Rightarrow> 'op list" where
  "called s \<equiv> map (\<lambda>(t, op, a). op) (history s)"

abbreviation answered :: "('op, 's, 'ans) guarded_state \<Rightarrow> 'ans list" where
  "answered s \<equiv> map (\<lambda>(t, op, a). a) (history s)"

section \<open>Every interleaving is a sequence of calls\<close>

fun cell_ok :: "('op, 's, 'ans) guarded_class \<Rightarrow> nat \<Rightarrow> 's \<Rightarrow> 's \<Rightarrow> ('op, 's, 'ans) call_phase \<Rightarrow> bool" where
  "cell_ok cls j m x (Holds op) \<longleftrightarrow> gc_at cls op = j \<and> gc_check cls op = None \<and> x = m"
| "cell_ok cls j m x (Has_Read op y) \<longleftrightarrow> gc_at cls op = j \<and> gc_check cls op = None \<and> x = m \<and> y = m"
| "cell_ok cls j m x (Has_Written op a) \<longleftrightarrow> gc_at cls op = j \<and> gc_check cls op = None \<and> gc_do cls op m = (a, x)"
| "cell_ok cls j m x _ \<longleftrightarrow> False"

fun inside_cell :: "('op, 's, 'ans) guarded_class \<Rightarrow> ('op, 's, 'ans) call_phase \<Rightarrow> nat option" where
  "inside_cell cls (Holds op) = Some (gc_at cls op)"
| "inside_cell cls (Has_Read op x) = Some (gc_at cls op)"
| "inside_cell cls (Has_Written op a) = Some (gc_at cls op)"
| "inside_cell cls _ = None"

definition guarded_inv :: "('op, 's, 'ans) guarded_class \<Rightarrow> (nat \<Rightarrow> 's) \<Rightarrow> (nat \<Rightarrow> 's) \<Rightarrow> ('op, 's, 'ans) guarded_state \<Rightarrow> bool" where
  "guarded_inv cls mem m s \<longleftrightarrow> seq_calls cls (called s) mem = (answered s, m)
     \<and> (\<forall>j. holders s j = None \<longrightarrow> cells s j = m j)
     \<and> (\<forall>j t. holders s j = Some t \<longrightarrow> cell_ok cls j (m j) (cells s j) (phases s t))
     \<and> (\<forall>t j. inside_cell cls (phases s t) = Some j \<longrightarrow> holders s j = Some t)"

lemma guarded_invI:
  assumes "seq_calls cls (called s) mem = (answered s, m)"
    and "\<And>j. holders s j = None \<Longrightarrow> cells s j = m j"
    and "\<And>j t. holders s j = Some t \<Longrightarrow> cell_ok cls j (m j) (cells s j) (phases s t)"
    and "\<And>t j. inside_cell cls (phases s t) = Some j \<Longrightarrow> holders s j = Some t"
  shows "guarded_inv cls mem m s"
  using assms by (simp add: guarded_inv_def)

lemma guarded_inv_step:
  assumes "guarded_step cls t s s'" "guarded_inv cls mem m s"
  shows "\<exists>m'. guarded_inv cls mem m' s'"
proof -
  from assms(2) have run: "seq_calls cls (called s) mem = (answered s, m)"
    and free: "\<And>j. holders s j = None \<Longrightarrow> cells s j = m j"
    and held: "\<And>j u. holders s j = Some u \<Longrightarrow> cell_ok cls j (m j) (cells s j) (phases s u)"
    and ins: "\<And>u j. inside_cell cls (phases s u) = Some j \<Longrightarrow> holders s j = Some u"
    by (simp_all add: guarded_inv_def)
  show ?thesis using assms(1)
  proof cases
    case (call op)
    have "u \<noteq> t" if "holders s j = Some u" for j u using held [OF that] call by auto
    then have "guarded_inv cls mem m s'"
      by (intro guarded_invI) (use run free held ins call in \<open>auto split: if_splits\<close>)
    then show ?thesis by blast
  next
    case (refuse op a)
    have "u \<noteq> t" if "holders s j = Some u" for j u using held [OF that] refuse by auto
    then have "guarded_inv cls mem m s'"
      by (intro guarded_invI) (use run free held ins refuse in \<open>auto simp: seq_calls_append seq_call_def split: if_splits\<close>)
    then show ?thesis by blast
  next
    case (lock op)
    have "u \<noteq> t" if "holders s j = Some u" for j u using held [OF that] lock by auto
    then have "guarded_inv cls mem m s'"
      by (intro guarded_invI) (use run free held ins lock in \<open>auto split: if_splits\<close>)
    then show ?thesis by blast
  next
    case (load op)
    have h: "holders s (gc_at cls op) = Some t" using ins [of t] load by simp
    have "holders s j = Some t \<longleftrightarrow> j = gc_at cls op" for j using held [of j t] h load by auto
    then have "guarded_inv cls mem m s'"
      by (intro guarded_invI) (use run free held held [OF h] ins h load in \<open>auto split: if_splits\<close>)
    then show ?thesis by blast
  next
    case (store op x a x')
    have h: "holders s (gc_at cls op) = Some t" using ins [of t] store by simp
    have "holders s j = Some t \<longleftrightarrow> j = gc_at cls op" for j using held [of j t] h store by auto
    then have "guarded_inv cls mem m s'"
      by (intro guarded_invI) (use run free held held [OF h] ins store in \<open>auto simp: h split: if_splits\<close>)
    then show ?thesis by blast
  next
    case (unlock op a)
    have h: "holders s (gc_at cls op) = Some t" using ins [of t] unlock by simp
    have "holders s j = Some t \<longleftrightarrow> j = gc_at cls op" for j using held [of j t] h unlock by auto
    moreover have "inside_cell cls (phases s u) \<noteq> Some (gc_at cls op)" if "u \<noteq> t" for u using ins [of u "gc_at cls op"] h that by auto
    ultimately have "guarded_inv cls mem (m(gc_at cls op := cells s (gc_at cls op))) s'"
      by (intro guarded_invI)
        (use run free held held [OF h] ins h unlock in \<open>auto simp: seq_calls_append seq_call_def split: if_splits\<close>)
    then show ?thesis by blast
  qed
qed

lemma guarded_reach_inv: "guarded_reach cls mem s \<Longrightarrow> \<exists>m. guarded_inv cls mem m s"
proof (induction rule: guarded_reach.induct)
  case start
  then show ?case by (auto simp: guarded_inv_def guarded_start_def)
next
  case (step s t s')
  then show ?case using guarded_inv_step by blast
qed

lemma guarded_sequential:
  assumes "guarded_reach cls mem s"
  shows "fst (seq_calls cls (called s) mem) = answered s"
    and "\<And>j. holders s j = None \<Longrightarrow> cells s j = snd (seq_calls cls (called s) mem) j"
  using guarded_reach_inv [OF assms] by (auto simp: guarded_inv_def)

text \<open>No deadlock: as long as a call has not returned, some call can go on.\<close>

lemma guarded_progress:
  assumes "guarded_reach cls mem s" "phases s t \<noteq> Not_Calling"
  shows "\<exists>u s'. phases s u \<noteq> Not_Calling \<and> guarded_step cls u s s'"
proof -
  have go: "\<exists>s'. guarded_step cls u s s'" if "phases s u \<noteq> Not_Calling" "\<And>op. phases s u \<noteq> Wants op" for u
  proof (cases "phases s u")
    case (Has_Read op x)
    then show ?thesis by (cases "gc_do cls op x") (blast intro: guarded_step.store)
  qed (use that in \<open>blast intro: guarded_step.intros\<close>)+
  show ?thesis
  proof (cases "\<exists>op. phases s t = Wants op")
    case True
    then obtain op where w: "phases s t = Wants op" by blast
    show ?thesis
    proof (cases "gc_check cls op = None \<and> holders s (gc_at cls op) \<noteq> None")
      case True
      then obtain u where "holders s (gc_at cls op) = Some u" by blast
      then obtain m where "cell_ok cls (gc_at cls op) (m (gc_at cls op)) (cells s (gc_at cls op)) (phases s u)"
        using guarded_reach_inv [OF assms(1)] by (auto simp: guarded_inv_def)
      then have "phases s u \<noteq> Not_Calling" "\<And>op. phases s u \<noteq> Wants op" by auto
      then show ?thesis using go by blast
    next
      case False
      then have "\<exists>s'. guarded_step cls t s s'"
        using guarded_step.refuse [OF w] guarded_step.lock [OF w] by (cases "gc_check cls op") (simp_all, blast+)
      then show ?thesis using assms(2) by (intro exI [of _ t] ex_simps(2) [THEN iffD2]) simp
    qed
  qed (use go assms(2) in blast)
qed

section \<open>What callers see\<close>

lemma class_parts [simp]:
  "gc_at Atomic_class op = 0" "gc_check Atomic_class op = None" "gc_do Atomic_class op = atomic_do op"
  "gc_at (AtomicArray_class n) op' = array_at op'" "gc_check (AtomicArray_class n) op' = checkIndexBound n (array_at op')"
  "gc_do (AtomicArray_class n) op' = array_do op'"
  "gc_at ConcurrentSet_class op'' = 0" "gc_check ConcurrentSet_class op'' = None" "gc_do ConcurrentSet_class op'' = cset_do op''"
  by (simp_all add: Atomic_class_def AtomicArray_class_def ConcurrentSet_class_def)

lemmas class_simps = seq_call_def checkIndexBound_def Let_def

lemma seq_calls_snoc:
  "seq_calls cls (xs @ [op]) mem = (fst (seq_calls cls xs mem) @ [fst (seq_call cls op (snd (seq_calls cls xs mem)))],
     snd (seq_call cls op (snd (seq_calls cls xs mem))))"
  by (simp add: seq_calls_append split: prod.split)

lemma length_seq_calls [simp]: "length (fst (seq_calls cls xs mem)) = length xs"
  by (induction xs rule: rev_induct) (simp_all add: seq_calls_snoc)

lemma post_increments:
  "seq_calls Atomic_class (replicate n PostIncrement) mem = (map (\<lambda>k. Num (mem 0 + of_nat k)) [0..<n], mem(0 := mem 0 + of_nat n))"
proof (induction n)
  case (Suc n)
  have r: "replicate (Suc n) PostIncrement = replicate n PostIncrement @ [PostIncrement]" by (simp add: replicate_append_same)
  show ?case unfolding r using Suc by (simp add: seq_calls_snoc class_simps Atomic_postIncrement_def algebra_simps fun_eq_iff)
qed simp

fun array_delta :: "nat \<Rightarrow> 't::comm_ring_1 array_op \<Rightarrow> 't" where
  "array_delta j (ArrayGet i) = 0"
| "array_delta j (GetAndAdd i d) = (if i = j then d else 0)"
| "array_delta j (IncrementAndGet i) = (if i = j then 1 else 0)"

lemma array_sums:
  "snd (seq_calls (AtomicArray_class n) ops mem) j = mem j + (if j < n then sum_list (map (array_delta j) ops) else 0)"
proof (induction ops rule: rev_induct)
  case (snoc op ops)
  show ?case
    by (cases op) (auto simp: seq_calls_snoc snoc class_simps AtomicArray_getAndAdd_def AtomicArray_incrementAndGet_def)
qed simp

lemma cells_of_new: "array_cells (AtomicArray_new n) = (\<lambda>_. 0)"
  by (simp add: fun_eq_iff array_cells_def AtomicArray_new_def)

lemma array_refusals:
  "i < length ops \<Longrightarrow> n \<le> array_at (ops ! i) \<Longrightarrow> fst (seq_calls (AtomicArray_class n) ops mem) ! i = IndexOutOfBounds (array_at (ops ! i))"
  by (induction ops rule: rev_induct) (auto simp: seq_calls_snoc class_simps nth_append less_Suc_eq)

lemma set_adds:
  assumes "mem 0 = []"
  shows "ClearAll \<notin> set ops \<Longrightarrow>
    (let (as, m) = seq_calls ConcurrentSet_class ops mem in
      sorted (m 0) \<and> distinct (m 0) \<and> set (m 0) = {e. AddElement e \<in> set ops}
      \<and> (\<forall>e. length (filter ((=) (AddElement e, Truth True)) (zip ops as)) = (if AddElement e \<in> set ops then 1 else 0)))"
proof (induction ops rule: rev_induct)
  case Nil
  then show ?case using assms by simp
next
  case (snoc op ops)
  obtain as m where r: "seq_calls ConcurrentSet_class ops mem = (as, m)" by fastforce
  have len: "length as = length ops" using length_seq_calls [of ConcurrentSet_class ops mem] r by simp
  from snoc r have ih: "sorted (m 0)" "distinct (m 0)" "set (m 0) = {e. AddElement e \<in> set ops}"
    "\<And>e. length (filter ((=) (AddElement e, Truth True)) (zip ops as)) = (if AddElement e \<in> set ops then 1 else 0)" by simp_all
  show ?case
    by (cases op) (use ih snoc.prems in \<open>auto simp: seq_calls_snoc r len class_simps ConcurrentSet_add_def ConcurrentSet_size_def
        ConcurrentSet_isEmpty_def ConcurrentSet_toArray_def sorted_insort distinct_insort set_insort_key\<close>)
qed


lemma zip_history: "zip (map (\<lambda>(t, op, a). op) h) (map (\<lambda>(t, op, a). a) h) = map snd h"
  by (induction h) auto

text \<open>Claim C28: Threads that share a counter by post-increments get consecutive tickets, whatever the interleaving. In an array of
  atomics no addition is lost: an element at rest holds the sum of what was added to it, and an index out of range is refused.
  Of all threads that add an element to a set that nobody clears, exactly one is told that it was new, and the set at rest has
  each added element once, in order.\<close>

theorem shared_counters_and_sets:
  assumes "guarded_reach Atomic_class (\<lambda>_. v0) a" "called a = replicate k PostIncrement"
    and "guarded_reach (AtomicArray_class n) (array_cells (AtomicArray_new n)) v" "holders v j = None" "j < n"
    and "guarded_reach ConcurrentSet_class (\<lambda>_. []) s" "ClearAll \<notin> set (called s)" "holders s 0 = None"
  shows "answered a = map (\<lambda>i. Num (v0 + of_nat i)) [0..<k]
    \<and> cells v j = sum_list (map (array_delta j) (called v))
    \<and> (i < length (history v) \<and> n \<le> array_at (called v ! i) \<longrightarrow> answered v ! i = IndexOutOfBounds (array_at (called v ! i)))
    \<and> length (filter (\<lambda>(t, op, r). op = AddElement e \<and> r = Truth True) (history s)) = (if AddElement e \<in> set (called s) then 1 else 0)
    \<and> sorted (cells s 0) \<and> distinct (cells s 0) \<and> set (cells s 0) = {x. AddElement x \<in> set (called s)}"
proof (intro conjI)
  show "answered a = map (\<lambda>i. Num (v0 + of_nat i)) [0..<k]"
    using guarded_sequential(1) [OF assms(1)] post_increments [of k "\<lambda>_. v0"] assms(2) by simp
  show "cells v j = sum_list (map (array_delta j) (called v))"
    using guarded_sequential(2) [OF assms(3,4)] array_sums [of n "called v" "\<lambda>_. 0" j] assms(5) by (simp add: cells_of_new)
  show "i < length (history v) \<and> n \<le> array_at (called v ! i) \<longrightarrow> answered v ! i = IndexOutOfBounds (array_at (called v ! i))"
    using guarded_sequential(1) [OF assms(3)] array_refusals [of i "called v" n "\<lambda>_. 0"] by (auto simp: cells_of_new)
  obtain m where m: "seq_calls ConcurrentSet_class (called s) (\<lambda>_. []) = (answered s, m)" "cells s 0 = m 0"
    using guarded_sequential [OF assms(6)] assms(8) by (metis prod.collapse)
  have z: "zip (called s) (answered s) = map snd (history s)" by (rule zip_history)
  have "length (filter ((=) (AddElement e, Truth True)) (map snd (history s))) = (if AddElement e \<in> set (called s) then 1 else 0)"
    using set_adds [of "\<lambda>_. []" "called s"] assms(7) m(1) z by simp
  then show "length (filter (\<lambda>(t, op, r). op = AddElement e \<and> r = Truth True) (history s)) = (if AddElement e \<in> set (called s) then 1 else 0)"
    by (simp add: filter_map comp_def case_prod_unfold prod_eq_iff eq_commute)
  show "sorted (cells s 0)" "distinct (cells s 0)" "set (cells s 0) = {x. AddElement x \<in> set (called s)}"
    using set_adds [of "\<lambda>_. []" "called s"] assms(7) m by simp_all
qed

section \<open>Two threads\<close>

lemma guarded_through:
  assumes "guarded_reach cls mem s" "phases s t = Wants op" "gc_check cls op = None" "holders s (gc_at cls op) = None"
    "gc_do cls op (cells s (gc_at cls op)) = (a, x)"
  shows "guarded_reach cls mem (s\<lparr>cells := (cells s)(gc_at cls op := x), phases := (phases s)(t := Not_Calling), history := history s @ [(t, op, a)]\<rparr>)"
proof -
  let ?s1 = "s\<lparr>phases := (phases s)(t := Holds op), holders := (holders s)(gc_at cls op := Some t)\<rparr>"
  let ?s2 = "?s1\<lparr>phases := (phases ?s1)(t := Has_Read op (cells s (gc_at cls op)))\<rparr>"
  let ?s3 = "?s2\<lparr>phases := (phases ?s2)(t := Has_Written op a), cells := (cells ?s2)(gc_at cls op := x)\<rparr>"
  have 1: "guarded_reach cls mem ?s1" by (rule guarded_reach.step [OF assms(1) guarded_step.lock [OF assms(2,3,4)]])
  have 2: "guarded_reach cls mem ?s2" using guarded_reach.step [OF 1 guarded_step.load [of _ t op cls]] by simp
  have 3: "guarded_reach cls mem ?s3" using guarded_reach.step [OF 2 guarded_step.store [of _ t op "cells s (gc_at cls op)" cls a x]] assms(5) by simp
  have "(holders s)(gc_at cls op := None) = holders s" using assms(4) by auto
  then show ?thesis using guarded_reach.step [OF 3 guarded_step.unlock [of _ t op a cls]] by simp
qed

text \<open>Both threads have called before the second, and then the first, gets the mutex.\<close>

definition two_callers :: "'op \<Rightarrow> 'op \<Rightarrow> (nat \<Rightarrow> 's) \<Rightarrow> ('op, 's, 'ans) guarded_state" where
  "two_callers op1 op2 mem = (guarded_start mem)\<lparr>phases := (\<lambda>_. Not_Calling)(1 := Wants op1, 2 := Wants op2)\<rparr>"

definition two_done :: "('op, 's, 'ans) guarded_class \<Rightarrow> 'op \<Rightarrow> 'op \<Rightarrow> (nat \<Rightarrow> 's) \<Rightarrow> ('op, 's, 'ans) guarded_state" where
  "two_done cls op1 op2 mem =
     (let (a2, x2) = gc_do cls op2 (mem (gc_at cls op2)); mem2 = mem(gc_at cls op2 := x2);
          (a1, x1) = gc_do cls op1 (mem2 (gc_at cls op1)) in
      \<lparr>cells = mem2(gc_at cls op1 := x1), holders = (\<lambda>_. None), phases = (\<lambda>_. Not_Calling), history = [(2, op2, a2), (1, op1, a1)]\<rparr>)"

lemma two_done_reach:
  assumes "gc_check cls op1 = None" "gc_check cls op2 = None"
  shows "guarded_reach cls mem (two_done cls op1 op2 mem)"
proof -
  obtain a2 x2 where 2: "gc_do cls op2 (mem (gc_at cls op2)) = (a2, x2)" by fastforce
  obtain a1 x1 where 1: "gc_do cls op1 ((mem(gc_at cls op2 := x2)) (gc_at cls op1)) = (a1, x1)" by fastforce
  have c1: "guarded_reach cls mem ((guarded_start mem)\<lparr>phases := (\<lambda>_. Not_Calling)(1 := Wants op1)\<rparr>)"
    using guarded_reach.step [OF guarded_reach.start guarded_step.call [of _ 1 cls op1]] by (simp add: guarded_start_def)
  have c2: "guarded_reach cls mem (two_callers op1 op2 mem)"
    using guarded_reach.step [OF c1 guarded_step.call [of _ 2 cls op2]] by (simp add: guarded_start_def two_callers_def)
  from guarded_through [OF c2 _ assms(2), of 2 a2 x2] 2
  have d: "guarded_reach cls mem \<lparr>cells = mem(gc_at cls op2 := x2), holders = (\<lambda>_. None), phases = (\<lambda>_. Not_Calling)(1 := Wants op1), history = [(2, op2, a2)]\<rparr>"
    by (simp add: two_callers_def guarded_start_def fun_upd_idem)
  from guarded_through [OF d _ assms(1), of 1 a1 x1] 1 2 show ?thesis by (simp add: two_done_def fun_upd_idem)
qed


theorem shared_counters_and_sets_witness:
  "answered (two_done Atomic_class PostIncrement PostIncrement (\<lambda>_. 41 :: int)) = [Num 41, Num 42]
   \<and> cells (two_done (AtomicArray_class 2) (IncrementAndGet 1) (GetAndAdd 1 4) (\<lambda>_. 0 :: int)) 1 = 5
   \<and> length (filter (\<lambda>(t, op, r). op = AddElement 7 \<and> r = Truth True)
        (history (two_done ConcurrentSet_class (AddElement (7 :: int)) (AddElement 7) (\<lambda>_. [])))) = 1
   \<and> set (cells (two_done ConcurrentSet_class (AddElement (7 :: int)) (AddElement 7) (\<lambda>_. [])) 0) = {7}"
proof -
  have c: "called (two_done cls op1 op2 mem) = [op2, op1]" "holders (two_done cls op1 op2 mem) j = None" for cls op1 op2 mem j
    by (simp_all add: two_done_def split: prod.split)
  show ?thesis
    using shared_counters_and_sets [OF two_done_reach [of Atomic_class PostIncrement PostIncrement "\<lambda>_. 41 :: int"] _
        two_done_reach [of "AtomicArray_class 2" "IncrementAndGet 1" "GetAndAdd 1 4" "\<lambda>_. 0 :: int", folded cells_of_new [of 2]] _ _
        two_done_reach [of ConcurrentSet_class "AddElement (7 :: int)" "AddElement 7" "\<lambda>_. []"], of 2 1 0 7]
    by (simp add: c cells_of_new checkIndexBound_def numeral_2_eq_2)
qed

end
