(* ===== verification/Near_Config.thy ===== *)
theory Near_Config
  imports Hz_Prelude
begin

text \<open>
  The configuration of a near cache: \<open>util/Preconditions.h\<close>, \<open>config/EvictionConfig.h\<close> and
  \<open>config/NearCacheConfig.h\<close>. A comparator supplied by the user is the parameter type \<open>'cmp\<close>.
\<close>

section \<open>Preconditions\<close>

definition checkPositive :: "int \<Rightarrow> int res" where
  "checkPositive v = (if v \<le> 0 then Inl IllegalArgumentException else Inr v)"

definition checkNotNull :: "'a option \<Rightarrow> 'a option res" where
  "checkNotNull argument = (if argument = None then Inl NullPointerException else Inr argument)"

definition checkNotEmpty :: "'a list \<Rightarrow> unit res" where
  "checkNotEmpty argument = (if length argument = 0 then Inl IllegalArgumentException else Inr ())"

definition isNotNull :: "'a option \<Rightarrow> 'a option res" where
  "isNotNull argument = (if argument = None then Inl IllegalArgumentException else Inr argument)"

definition checkNotNegative :: "int \<Rightarrow> int res" where
  "checkNotNegative v = (if v < 0 then Inl IllegalArgumentException else Inr v)"

definition checkMax :: "int \<Rightarrow> int \<Rightarrow> unit res" where
  "checkMax actualSize expectedMaximum =
     (if actualSize > expectedMaximum then Inl IllegalArgumentException else Inr ())"

section \<open>EvictionConfig\<close>

datatype MaxSizePolicy = ENTRY_COUNT

datatype EvictionPolicy = LRU | LFU | NO_EVICTION | RANDOM

datatype EvictionStrategyType = SAMPLING_BASED_EVICTION

definition INT32_MAX :: int where
  "INT32_MAX = 2147483647"

record 'cmp EvictionConfig =
  ec_size :: int
  maxSizePolicy :: MaxSizePolicy
  evictionPolicy :: EvictionPolicy
  ec_comparator :: "'cmp option"

definition EvictionConfig_default :: "'cmp EvictionConfig" where
  "EvictionConfig_default =
     \<lparr>ec_size = INT32_MAX, maxSizePolicy = ENTRY_COUNT, evictionPolicy = LRU, ec_comparator = None\<rparr>"

text \<open>This constructor does not set the policy, which stays whatever the memory held.\<close>

definition EvictionConfig_new :: "EvictionPolicy \<Rightarrow> int \<Rightarrow> MaxSizePolicy \<Rightarrow> 'cmp option \<Rightarrow> 'cmp EvictionConfig res" where
  "EvictionConfig_new junk sz policy cmp =
     bindR (checkPositive sz) (\<lambda>n.
     bindR (checkNotNull cmp) (\<lambda>c.
     Inr \<lparr>ec_size = n, maxSizePolicy = policy, evictionPolicy = junk, ec_comparator = c\<rparr>))"

definition ec_setSize :: "int \<Rightarrow> 'cmp EvictionConfig \<Rightarrow> 'cmp EvictionConfig res" where
  "ec_setSize sz cfg = bindR (checkPositive sz) (\<lambda>n. Inr (cfg\<lparr>ec_size := n\<rparr>))"

definition ec_setMaximumSizePolicy :: "MaxSizePolicy \<Rightarrow> 'cmp EvictionConfig \<Rightarrow> 'cmp EvictionConfig res" where
  "ec_setMaximumSizePolicy p cfg = Inr (cfg\<lparr>maxSizePolicy := p\<rparr>)"

definition ec_setEvictionPolicy :: "EvictionPolicy \<Rightarrow> 'cmp EvictionConfig \<Rightarrow> 'cmp EvictionConfig res" where
  "ec_setEvictionPolicy p cfg = Inr (cfg\<lparr>evictionPolicy := p\<rparr>)"

definition ec_setComparator :: "'cmp option \<Rightarrow> 'cmp EvictionConfig \<Rightarrow> 'cmp EvictionConfig res" where
  "ec_setComparator c cfg = Inr (cfg\<lparr>ec_comparator := c\<rparr>)"

definition getEvictionStrategyType :: "'cmp EvictionConfig \<Rightarrow> EvictionStrategyType" where
  "getEvictionStrategyType cfg = SAMPLING_BASED_EVICTION"

datatype EvictionPolicyType = LRU_TYPE | LFU_TYPE | RANDOM_TYPE | NONE_TYPE

definition getEvictionPolicyType :: "'cmp EvictionConfig \<Rightarrow> EvictionPolicyType" where
  "getEvictionPolicyType cfg =
     (if evictionPolicy cfg = LFU then LFU_TYPE
      else if evictionPolicy cfg = LRU then LRU_TYPE
      else if evictionPolicy cfg = RANDOM then RANDOM_TYPE
      else NONE_TYPE)"

section \<open>NearCacheConfig\<close>

datatype InMemoryFormat = BINARY | OBJECT

datatype LocalUpdatePolicy = INVALIDATE | CACHE

record 'cmp NearCacheConfig =
  nc_name :: string
  timeToLiveSeconds :: int
  maxIdleSeconds :: int
  inMemoryFormat :: InMemoryFormat
  localUpdatePolicy :: LocalUpdatePolicy
  cfg_invalidateOnChange :: bool
  cfg_cacheLocalEntries :: bool
  evictionConfig :: "'cmp EvictionConfig option"

definition DEFAULT_TTL_SECONDS :: int where "DEFAULT_TTL_SECONDS = 0"
definition DEFAULT_MAX_IDLE_SECONDS :: int where "DEFAULT_MAX_IDLE_SECONDS = 0"
definition DEFAULT_MEMORY_FORMAT :: InMemoryFormat where "DEFAULT_MEMORY_FORMAT = BINARY"

definition NearCacheConfig_named_format :: "string \<Rightarrow> InMemoryFormat \<Rightarrow> 'cmp NearCacheConfig" where
  "NearCacheConfig_named_format cacheName memoryFormat =
     \<lparr>nc_name = cacheName, timeToLiveSeconds = DEFAULT_TTL_SECONDS,
      maxIdleSeconds = DEFAULT_MAX_IDLE_SECONDS, inMemoryFormat = memoryFormat,
      localUpdatePolicy = INVALIDATE, cfg_invalidateOnChange = True, cfg_cacheLocalEntries = False,
      evictionConfig = Some EvictionConfig_default\<rparr>"

definition NearCacheConfig_named :: "string \<Rightarrow> 'cmp NearCacheConfig" where
  "NearCacheConfig_named cacheName =
     \<lparr>nc_name = cacheName, timeToLiveSeconds = DEFAULT_TTL_SECONDS,
      maxIdleSeconds = DEFAULT_MAX_IDLE_SECONDS, inMemoryFormat = DEFAULT_MEMORY_FORMAT,
      localUpdatePolicy = INVALIDATE, cfg_invalidateOnChange = True, cfg_cacheLocalEntries = False,
      evictionConfig = Some EvictionConfig_default\<rparr>"

definition NearCacheConfig_default :: "'cmp NearCacheConfig" where
  "NearCacheConfig_default =
     \<lparr>nc_name = ''default'', timeToLiveSeconds = DEFAULT_TTL_SECONDS,
      maxIdleSeconds = DEFAULT_MAX_IDLE_SECONDS, inMemoryFormat = DEFAULT_MEMORY_FORMAT,
      localUpdatePolicy = INVALIDATE, cfg_invalidateOnChange = True, cfg_cacheLocalEntries = False,
      evictionConfig = Some EvictionConfig_default\<rparr>"

text \<open>This constructor takes its arguments as they come, without the setters' checks.\<close>

definition NearCacheConfig_new :: "int \<Rightarrow> int \<Rightarrow> bool \<Rightarrow> InMemoryFormat \<Rightarrow> 'cmp EvictionConfig option \<Rightarrow>
    'cmp NearCacheConfig" where
  "NearCacheConfig_new ttl maxIdle inv_on_change format evictConfig =
     \<lparr>nc_name = [], timeToLiveSeconds = ttl, maxIdleSeconds = maxIdle, inMemoryFormat = format,
      localUpdatePolicy = INVALIDATE, cfg_invalidateOnChange = inv_on_change,
      cfg_cacheLocalEntries = False,
      evictionConfig = (if evictConfig \<noteq> None then evictConfig else Some EvictionConfig_default)\<rparr>"

definition NearCacheConfig_copy :: "'cmp NearCacheConfig \<Rightarrow> 'cmp NearCacheConfig" where
  "NearCacheConfig_copy config =
     \<lparr>nc_name = nc_name config, timeToLiveSeconds = timeToLiveSeconds config,
      maxIdleSeconds = maxIdleSeconds config, inMemoryFormat = inMemoryFormat config,
      localUpdatePolicy = localUpdatePolicy config,
      cfg_invalidateOnChange = cfg_invalidateOnChange config,
      cfg_cacheLocalEntries = cfg_cacheLocalEntries config,
      evictionConfig = (if evictionConfig config \<noteq> None then evictionConfig config else None)\<rparr>"

definition setName :: "string \<Rightarrow> 'cmp NearCacheConfig \<Rightarrow> 'cmp NearCacheConfig res" where
  "setName n cfg = Inr (cfg\<lparr>nc_name := n\<rparr>)"

definition setTimeToLiveSeconds :: "int \<Rightarrow> 'cmp NearCacheConfig \<Rightarrow> 'cmp NearCacheConfig res" where
  "setTimeToLiveSeconds t cfg = bindR (checkNotNegative t) (\<lambda>v. Inr (cfg\<lparr>timeToLiveSeconds := v\<rparr>))"

definition setMaxIdleSeconds :: "int \<Rightarrow> 'cmp NearCacheConfig \<Rightarrow> 'cmp NearCacheConfig res" where
  "setMaxIdleSeconds t cfg = bindR (checkNotNegative t) (\<lambda>v. Inr (cfg\<lparr>maxIdleSeconds := v\<rparr>))"

definition setInvalidateOnChange :: "bool \<Rightarrow> 'cmp NearCacheConfig \<Rightarrow> 'cmp NearCacheConfig res" where
  "setInvalidateOnChange b cfg = Inr (cfg\<lparr>cfg_invalidateOnChange := b\<rparr>)"

definition setInMemoryFormat :: "InMemoryFormat \<Rightarrow> 'cmp NearCacheConfig \<Rightarrow> 'cmp NearCacheConfig res" where
  "setInMemoryFormat f cfg = Inr (cfg\<lparr>inMemoryFormat := f\<rparr>)"

definition mixed_setInMemoryFormat :: "InMemoryFormat \<Rightarrow> 'cmp NearCacheConfig \<Rightarrow> 'cmp NearCacheConfig res" where
  "mixed_setInMemoryFormat f cfg =
     (if f = OBJECT then Inl IllegalArgumentException else setInMemoryFormat f cfg)"

definition setCacheLocalEntries :: "bool \<Rightarrow> 'cmp NearCacheConfig \<Rightarrow> 'cmp NearCacheConfig res" where
  "setCacheLocalEntries b cfg = Inr (cfg\<lparr>cfg_cacheLocalEntries := b\<rparr>)"

definition setLocalUpdatePolicy :: "LocalUpdatePolicy \<Rightarrow> 'cmp NearCacheConfig \<Rightarrow> 'cmp NearCacheConfig res" where
  "setLocalUpdatePolicy p cfg = Inr (cfg\<lparr>localUpdatePolicy := p\<rparr>)"

definition setEvictionConfig :: "'cmp EvictionConfig option \<Rightarrow> 'cmp NearCacheConfig \<Rightarrow> 'cmp NearCacheConfig res" where
  "setEvictionConfig e cfg = bindR (checkNotNull e) (\<lambda>v. Inr (cfg\<lparr>evictionConfig := v\<rparr>))"

definition calculateMaxSize :: "int \<Rightarrow> int res" where
  "calculateMaxSize maxSize = (if maxSize = 0 then Inr INT32_MAX else checkNotNegative maxSize)"

section \<open>Configurations the documentation allows\<close>

definition eviction_config_ok :: "'cmp EvictionConfig \<Rightarrow> bool" where
  "eviction_config_ok e = (0 < ec_size e)"

definition config_ok :: "'cmp NearCacheConfig \<Rightarrow> bool" where
  "config_ok c = (0 \<le> timeToLiveSeconds c \<and> 0 \<le> maxIdleSeconds c
     \<and> (case evictionConfig c of None \<Rightarrow> False | Some e \<Rightarrow> eviction_config_ok e))"

text \<open>The calls that build a configuration, the eviction settings being changed in place.\<close>

datatype 'cmp config_call =
    CSetName string
  | CSetTtl int
  | CSetMaxIdle int
  | CSetInvalidateOnChange bool
  | CSetFormat InMemoryFormat
  | CSetCacheLocal bool
  | CSetLocalUpdate LocalUpdatePolicy
  | CSetEviction "'cmp EvictionConfig option"
  | CCopy

fun config_step :: "'cmp config_call \<Rightarrow> 'cmp NearCacheConfig \<Rightarrow> 'cmp NearCacheConfig res" where
  "config_step (CSetName n) c = setName n c"
| "config_step (CSetTtl t) c = setTimeToLiveSeconds t c"
| "config_step (CSetMaxIdle t) c = setMaxIdleSeconds t c"
| "config_step (CSetInvalidateOnChange b) c = setInvalidateOnChange b c"
| "config_step (CSetFormat f) c = setInMemoryFormat f c"
| "config_step (CSetCacheLocal b) c = setCacheLocalEntries b c"
| "config_step (CSetLocalUpdate p) c = setLocalUpdatePolicy p c"
| "config_step (CSetEviction e) c = setEvictionConfig e c"
| "config_step CCopy c = Inr (NearCacheConfig_copy c)"

fun config_run :: "'cmp config_call list \<Rightarrow> 'cmp NearCacheConfig \<Rightarrow> 'cmp NearCacheConfig res" where
  "config_run [] c = Inr c"
| "config_run (x # xs) c = bindR (config_step x c) (config_run xs)"

definition call_ok :: "'cmp config_call \<Rightarrow> bool" where
  "call_ok x = (case x of CSetEviction (Some e) \<Rightarrow> eviction_config_ok e | _ \<Rightarrow> True)"

lemmas config_defs = setName_def setTimeToLiveSeconds_def setMaxIdleSeconds_def setInvalidateOnChange_def
  setInMemoryFormat_def setCacheLocalEntries_def setLocalUpdatePolicy_def setEvictionConfig_def
  NearCacheConfig_copy_def checkNotNegative_def checkNotNull_def

lemma config_step_ok:
  assumes "config_ok c" "call_ok x" "config_step x c = Inr c'"
  shows "config_ok c'"
  using assms
  by (cases x) (auto simp: config_ok_def call_ok_def config_defs split: if_splits option.splits)

lemma config_run_ok:
  "config_ok c \<Longrightarrow> \<forall>x \<in> set xs. call_ok x \<Longrightarrow> config_run xs c = Inr c' \<Longrightarrow> config_ok c'"
  by (induction xs arbitrary: c) (auto elim!: bindR_InrE dest: config_step_ok)

lemma EvictionConfig_default_ok [simp]: "eviction_config_ok EvictionConfig_default"
  by (simp add: eviction_config_ok_def EvictionConfig_default_def INT32_MAX_def)

text \<open>From any of the default constructors, whatever sequence of setters and copies succeeds,
  the configuration has non-negative time-to-live and max-idle times and a non-null eviction
  configuration with a positive size, provided the eviction configurations handed in are valid.\<close>

theorem config_setters_keep_bounds:
  assumes "c \<in> {NearCacheConfig_default, NearCacheConfig_named n, NearCacheConfig_named_format n f}"
    and "\<forall>x \<in> set xs. call_ok x" "config_run xs c = Inr c'"
  shows "config_ok c'"
proof -
  have "config_ok c"
    using assms(1) by (auto simp: config_ok_def NearCacheConfig_default_def NearCacheConfig_named_def
        NearCacheConfig_named_format_def DEFAULT_TTL_SECONDS_def DEFAULT_MAX_IDLE_SECONDS_def)
  then show ?thesis using assms(2,3) by (rule config_run_ok)
qed

theorem config_setters_keep_bounds_witness:
  "config_ok ((NearCacheConfig_default :: nat NearCacheConfig)\<lparr>timeToLiveSeconds := 5, nc_name := ''m''\<rparr>)"
  by (rule config_setters_keep_bounds [of "NearCacheConfig_default :: nat NearCacheConfig" "[]" BINARY "[CSetTtl 5, CSetName ''m'']"])
    (simp_all add: call_ok_def config_defs)

text \<open>The five-argument constructor keeps a negative time-to-live that the setter of the same
  field would reject.\<close>

theorem constructor_accepts_negative_ttl:
  assumes "ttl < 0"
  shows "\<not> config_ok (NearCacheConfig_new ttl idle b f e)
    \<and> timeToLiveSeconds (NearCacheConfig_new ttl idle b f e) = ttl
    \<and> setTimeToLiveSeconds ttl (NearCacheConfig_new ttl idle b f e) = Inl IllegalArgumentException"
  using assms by (simp add: config_ok_def NearCacheConfig_new_def setTimeToLiveSeconds_def checkNotNegative_def)

theorem constructor_accepts_negative_ttl_witness:
  "\<not> config_ok (NearCacheConfig_new (- 1) 0 True BINARY (None :: nat EvictionConfig option))"
  using constructor_accepts_negative_ttl [of "- 1" 0 True BINARY "None :: nat EvictionConfig option"] by simp

end
