(* ===== verification/Sync_Map.thy ===== *)
theory Sync_Map
  imports Hz_Prelude
begin

text \<open>
  The maps a near cache keeps its records in: \<open>util/SynchronizedMap.h\<close>, the sampling iterator of
  \<open>util/SampleableConcurrentHashMap.h\<close> and \<open>store/HeapNearCacheRecordMap.h\<close>. Every operation runs
  under the map's lock, so each is one atomic step on the entries, which \<open>std::map\<close> keeps in key
  order. A shared pointer is an option, the null pointer being \<open>None\<close>.
\<close>

section \<open>SynchronizedMap\<close>

type_synonym ('k, 'v) sync_map = "('k \<times> 'v option) list"

text \<open>\<open>internalMap[key] = value\<close> and \<open>internalMap[key]\<close> on a present key.\<close>

fun sm_assign :: "'k::linorder \<Rightarrow> 'v option \<Rightarrow> ('k, 'v) sync_map \<Rightarrow> ('k, 'v) sync_map" where
  "sm_assign k v [] = [(k, v)]"
| "sm_assign k v (e # m) =
     (if k < fst e then (k, v) # e # m
      else if k = fst e then (k, v) # m
      else e # sm_assign k v m)"

definition sm_at :: "'k::linorder \<Rightarrow> ('k, 'v) sync_map \<Rightarrow> 'v option" where
  "sm_at k m = (case map_of m k of None \<Rightarrow> None | Some v \<Rightarrow> v)"

definition sm_erase :: "'k::linorder \<Rightarrow> ('k, 'v) sync_map \<Rightarrow> ('k, 'v) sync_map" where
  "sm_erase k m = filter (\<lambda>e. fst e \<noteq> k) m"

definition sm_containsKey :: "'k::linorder \<Rightarrow> ('k, 'v) sync_map \<Rightarrow> bool" where
  "sm_containsKey k m = (map_of m k \<noteq> None)"

definition sm_putIfAbsent :: "'k::linorder \<Rightarrow> 'v option \<Rightarrow> ('k, 'v) sync_map \<Rightarrow> 'v option \<times> ('k, 'v) sync_map" where
  "sm_putIfAbsent k v m =
     (if sm_containsKey k m then (sm_at k m, m) else (None, sm_assign k v m))"

definition sm_put :: "'k::linorder \<Rightarrow> 'v option \<Rightarrow> ('k, 'v) sync_map \<Rightarrow> 'v option \<times> ('k, 'v) sync_map" where
  "sm_put k v m =
     (let returnValue = (if sm_containsKey k m then sm_at k m else None)
      in (returnValue, sm_assign k v m))"

definition sm_get :: "'k::linorder \<Rightarrow> ('k, 'v) sync_map \<Rightarrow> 'v option" where
  "sm_get k m = (if sm_containsKey k m then sm_at k m else None)"

definition sm_remove :: "'k::linorder \<Rightarrow> ('k, 'v) sync_map \<Rightarrow> 'v option \<times> ('k, 'v) sync_map" where
  "sm_remove k m = (if sm_containsKey k m then (sm_at k m, sm_erase k m) else (None, m))"

text \<open>
  Removal of a key's entry when its value is the given one. The iterator starts at the key and goes
  on to the end of the map, so the first later entry with that value is removed too.
\<close>

fun remove_from :: "'v option \<Rightarrow> ('k, 'v) sync_map \<Rightarrow> bool \<times> ('k, 'v) sync_map" where
  "remove_from v [] = (False, [])"
| "remove_from v (e # m) =
     (if snd e = v then (True, m)
      else case remove_from v m of (b, m') \<Rightarrow> (b, e # m'))"

fun sm_remove_value :: "'k::linorder \<Rightarrow> 'v option \<Rightarrow> ('k, 'v) sync_map \<Rightarrow> bool \<times> ('k, 'v) sync_map" where
  "sm_remove_value k v [] = (False, [])"
| "sm_remove_value k v (e # m) =
     (if fst e = k then remove_from v (e # m)
      else case sm_remove_value k v m of (b, m') \<Rightarrow> (b, e # m'))"

definition sm_entrySet :: "('k, 'v) sync_map \<Rightarrow> ('k \<times> 'v option) list" where
  "sm_entrySet m = m"

definition sm_clear :: "('k, 'v) sync_map \<Rightarrow> ('k \<times> 'v option) list \<times> ('k, 'v) sync_map" where
  "sm_clear m = (m, [])"

definition sm_values :: "('k, 'v) sync_map \<Rightarrow> 'v option list" where
  "sm_values m = map snd m"

definition sm_keys :: "('k, 'v) sync_map \<Rightarrow> 'k list" where
  "sm_keys m = map fst m"

definition sm_getOrPutIfAbsent :: "'v \<Rightarrow> 'k::linorder \<Rightarrow> ('k, 'v) sync_map \<Rightarrow> 'v option \<times> ('k, 'v) sync_map" where
  "sm_getOrPutIfAbsent new_V k m =
     (case sm_get k m of
        Some v \<Rightarrow> (Some v, m)
      | None \<Rightarrow>
          (case sm_putIfAbsent k (Some new_V) m of
             (current, m') \<Rightarrow> (if current = None then Some new_V else current, m')))"

definition sm_size :: "('k, 'v) sync_map \<Rightarrow> nat" where
  "sm_size m = length m"

definition sm_getEntry :: "nat \<Rightarrow> ('k, 'v) sync_map \<Rightarrow> ('k \<times> 'v option) option" where
  "sm_getEntry i m = (if i \<ge> length m then None else Some (m ! i))"

section \<open>The sampling iterator\<close>

record ('k, 'v) sampler =
  maxEntryCount :: int
  currentEntry :: "('k \<times> 'v option) option"
  returnedEntryCount :: int
  currentIndex :: int
  reachedToEnd :: bool
  currentSample :: "('k \<times> 'v) option"
  startIndex :: int

definition sampler_new :: "nat \<Rightarrow> int \<Rightarrow> ('k, 'v) sync_map \<Rightarrow> ('k, 'v) sampler" where
  "sampler_new randomNumber maxCount m =
     (let start = wrap32 (int (randomNumber mod sm_size m)) in
      \<lparr>maxEntryCount = maxCount, currentEntry = None, returnedEntryCount = 0, currentIndex = - 1,
       reachedToEnd = False, currentSample = None,
       startIndex = (if start < 0 then 0 else start)\<rparr>)"

text \<open>The null samples mean no iterable; an empty map has none.\<close>

definition getRandomSamples :: "nat \<Rightarrow> int \<Rightarrow> ('k, 'v) sync_map \<Rightarrow> ('k, 'v) sampler option res" where
  "getRandomSamples randomNumber sampleCount m =
     (if sampleCount < 0 then Inl IllegalArgumentException
      else if sampleCount = 0 \<or> sm_size m = 0 then Inr None
      else Inr (Some (sampler_new randomNumber sampleCount m)))"

text \<open>
  The inner loop of \<open>iterate\<close>, on fuel: it returns as soon as it sees a non-null value. It does not
  advance the index, so a null value that it meets twice would keep it there.
\<close>

fun sample_inner :: "nat \<Rightarrow> ('k, 'v) sync_map \<Rightarrow> ('k, 'v) sampler \<Rightarrow> (bool \<times> ('k, 'v) sampler) res" where
  "sample_inner fuel m s =
     (case currentEntry s of
        None \<Rightarrow> Inr (False, s)
      | Some (key, v) \<Rightarrow>
          (let s1 = s\<lparr>currentEntry := sm_getEntry (nat (currentIndex s)) m\<rparr> in
           case v of
             Some w \<Rightarrow> Inr (True, s1\<lparr>currentSample := Some (key, w),
                                        returnedEntryCount := returnedEntryCount s + 1\<rparr>)
           | None \<Rightarrow> (case fuel of 0 \<Rightarrow> Inl NonTermination | Suc f \<Rightarrow> sample_inner f m s1)))"

declare sample_inner.simps [simp del]

definition advance_index :: "('k, 'v) sync_map \<Rightarrow> ('k, 'v) sampler \<Rightarrow> ('k, 'v) sampler" where
  "advance_index m s =
     (let i = currentIndex s + 1 in s\<lparr>currentIndex := (if nat i \<ge> sm_size m then 0 else i)\<rparr>)"

fun sample_outer :: "nat \<Rightarrow> ('k, 'v) sync_map \<Rightarrow> ('k, 'v) sampler \<Rightarrow> ('k, 'v) sampler res" where
  "sample_outer 0 m s = Inl NonTermination"
| "sample_outer (Suc fuel) m s =
     (let s1 = advance_index m (s\<lparr>currentEntry := sm_getEntry (nat (currentIndex s)) m\<rparr>) in
      bindR (sample_inner fuel m s1) (\<lambda>(found, s2).
        if found then Inr s2
        else if currentIndex s2 \<noteq> startIndex s2 then sample_outer fuel m s2
        else Inr (s2\<lparr>reachedToEnd := True, currentSample := None\<rparr>)))"

definition iterate :: "nat \<Rightarrow> ('k, 'v) sync_map \<Rightarrow> ('k, 'v) sampler \<Rightarrow> ('k, 'v) sampler res" where
  "iterate fuel m s =
     (if returnedEntryCount s \<ge> maxEntryCount s \<or> reachedToEnd s then Inr (s\<lparr>currentSample := None\<rparr>)
      else
        let s1 = (if currentIndex s = - 1 then s\<lparr>currentIndex := startIndex s\<rparr> else s);
            s2 = (if currentEntry s1 = None
                  then s1\<lparr>currentEntry := sm_getEntry (nat (currentIndex s1)) m\<rparr> else s1)
        in sample_outer fuel m s2)"

definition hasNext :: "nat \<Rightarrow> ('k, 'v) sync_map \<Rightarrow> ('k, 'v) sampler \<Rightarrow> (bool \<times> ('k, 'v) sampler) res" where
  "hasNext fuel m s = bindR (iterate fuel m s) (\<lambda>s'. Inr (currentSample s' \<noteq> None, s'))"

definition next_sample :: "('k, 'v) sampler \<Rightarrow> ('k \<times> 'v) res" where
  "next_sample s = (case currentSample s of Some e \<Rightarrow> Inr e | None \<Rightarrow> Inl NoSuchElementException)"

definition remove_sample :: "'a res" where
  "remove_sample = Inl UnsupportedOperationException"

text \<open>All the samples an iterator gives, in order: the loop \<open>while (hasNext()) next()\<close>.\<close>

fun drain :: "nat \<Rightarrow> nat \<Rightarrow> ('k, 'v) sync_map \<Rightarrow> ('k, 'v) sampler \<Rightarrow> ('k \<times> 'v) list res" where
  "drain 0 fuel m s = Inl NonTermination"
| "drain (Suc n) fuel m s =
     bindR (hasNext fuel m s) (\<lambda>(more, s').
       if more then bindR (next_sample s') (\<lambda>e. bindR (drain n fuel m s') (\<lambda>es. Inr (e # es)))
       else Inr [])"

section \<open>Eviction from the record map\<close>

text \<open>
  \<open>HeapNearCacheRecordMap::evict\<close>: the candidates that are still present are removed and reported to
  the listener, if there is one.
\<close>

fun rm_evict :: "('k::linorder \<times> 'v) list option \<Rightarrow> ('k \<Rightarrow> 'v \<Rightarrow> bool \<Rightarrow> 's \<Rightarrow> 's) option \<Rightarrow>
    ('k, 'v) sync_map \<Rightarrow> 's \<Rightarrow> int \<times> ('k, 'v) sync_map \<times> 's" where
  "rm_evict None evictionListener m st = (0, m, st)"
| "rm_evict (Some []) evictionListener m st = (0, m, st)"
| "rm_evict (Some (c # cs)) evictionListener m st =
     (case sm_remove (fst c) m of
        (None, m') \<Rightarrow> rm_evict (Some cs) evictionListener m' st
      | (Some _, m') \<Rightarrow>
          (let st' = (case evictionListener of None \<Rightarrow> st | Some onEvict \<Rightarrow> onEvict (fst c) (snd c) False st)
           in case rm_evict (Some cs) evictionListener m' st' of (n, m'', st'') \<Rightarrow> (n + 1, m'', st'')))"

definition rm_sample :: "nat \<Rightarrow> int \<Rightarrow> ('k, 'v) sync_map \<Rightarrow> ('k, 'v) sampler option res" where
  "rm_sample randomNumber sampleCount m = getRandomSamples randomNumber sampleCount m"

section \<open>The map contract\<close>

definition sm_ok :: "('k::linorder, 'v) sync_map \<Rightarrow> bool" where
  "sm_ok m = sorted_wrt (<) (map fst m)"

text \<open>
  What the record stores rely on: \<open>abs\<close> is the association of a key with a non-null pointer.
\<close>

locale pointer_map =
  fixes abs :: "'m \<Rightarrow> 'k \<Rightarrow> 'v option"
    and ok :: "'m \<Rightarrow> bool"
    and get :: "'k \<Rightarrow> 'm \<Rightarrow> 'v option"
    and put :: "'k \<Rightarrow> 'v option \<Rightarrow> 'm \<Rightarrow> 'v option \<times> 'm"
    and putIfAbsent :: "'k \<Rightarrow> 'v option \<Rightarrow> 'm \<Rightarrow> 'v option \<times> 'm"
    and remove :: "'k \<Rightarrow> 'm \<Rightarrow> 'v option \<times> 'm"
    and msize :: "'m \<Rightarrow> nat"
    and full :: "'m \<Rightarrow> bool"
  assumes get_law: "ok m \<Longrightarrow> get k m = abs m k"
    and put_law: "ok m \<Longrightarrow> put k v m = (r, m') \<Longrightarrow> r = abs m k \<and> abs m' = (abs m)(k := v) \<and> ok m'"
    and putIfAbsent_law: "ok m \<Longrightarrow> full m \<Longrightarrow> putIfAbsent k v m = (r, m') \<Longrightarrow>
      r = abs m k \<and> abs m' = (if abs m k = None then (abs m)(k := v) else abs m) \<and> ok m'"
    and remove_law: "ok m \<Longrightarrow> remove k m = (r, m') \<Longrightarrow> r = abs m k \<and> abs m' = (abs m)(k := None) \<and> ok m'"
    and full_put: "full m \<Longrightarrow> ok m \<Longrightarrow> put k (Some w) m = (r, m') \<Longrightarrow> full m'"
    and full_remove: "full m \<Longrightarrow> ok m \<Longrightarrow> remove k m = (r, m') \<Longrightarrow> full m'"
    and size_law: "ok m \<Longrightarrow> full m \<Longrightarrow> msize m = card (dom (abs m)) \<and> finite (dom (abs m))"
begin

lemma put_get: "ok m \<Longrightarrow> get k (snd (put k v m)) = v"
  using put_law [of m k v "fst (put k v m)" "snd (put k v m)"] get_law by simp

lemma put_get_other: "ok m \<Longrightarrow> j \<noteq> k \<Longrightarrow> get j (snd (put k v m)) = get j m"
  using put_law [of m k v "fst (put k v m)" "snd (put k v m)"] get_law by simp

lemma remove_get: "ok m \<Longrightarrow> get k (snd (remove k m)) = None"
  using remove_law [of m k "fst (remove k m)" "snd (remove k m)"] get_law by simp

lemma put_size:
  assumes "ok m" "full m"
  shows "msize (snd (put k (Some w) m)) = (if get k m = None then msize m + 1 else msize m)"
proof -
  let ?m = "snd (put k (Some w) m)"
  have p: "abs ?m = (abs m)(k \<mapsto> w)" "ok ?m"
    using put_law [OF assms(1), of k "Some w" "fst (put k (Some w) m)" ?m] by simp_all
  have f: "full ?m" using full_put [OF assms(2,1), of k w "fst (put k (Some w) m)" ?m] by simp
  have s: "msize m = card (dom (abs m))" "finite (dom (abs m))" "msize ?m = card (dom (abs ?m))"
    using size_law assms p f by blast+
  show ?thesis
    using s p get_law [OF assms(1), of k] by (auto simp: card_insert_if domIff)
qed

lemma remove_size:
  assumes "ok m" "full m"
  shows "msize (snd (remove k m)) = (if get k m = None then msize m else msize m - 1)"
proof -
  let ?m = "snd (remove k m)"
  have p: "abs ?m = (abs m)(k := None)" "ok ?m"
    using remove_law [OF assms(1), of k "fst (remove k m)" ?m] by simp_all
  have f: "full ?m" using full_remove [OF assms(2,1), of k "fst (remove k m)" ?m] by simp
  have s: "msize m = card (dom (abs m))" "finite (dom (abs m))" "msize ?m = card (dom (abs ?m))"
    using size_law assms p f by blast+
  show ?thesis
    using s p get_law [OF assms(1), of k] by (auto simp: domIff)
qed

end

definition sm_full :: "('k::linorder, 'v) sync_map \<Rightarrow> bool" where
  "sm_full m = (\<forall>e \<in> set m. snd e \<noteq> None)"

definition sm_abs :: "('k::linorder, 'v) sync_map \<Rightarrow> 'k \<Rightarrow> 'v option" where
  "sm_abs m k = sm_at k m"

lemma fst_set_assign: "fst ` set (sm_assign k v m) = insert k (fst ` set m)"
  by (induction m) auto

lemma sm_ok_distinct: "sm_ok m \<Longrightarrow> distinct (map fst m)"
  unfolding sm_ok_def using strict_sorted_iff by blast

lemma sm_ok_Cons [simp]: "sm_ok (e # m) \<longleftrightarrow> (\<forall>x \<in> fst ` set m. fst e < x) \<and> sm_ok m"
  by (simp add: sm_ok_def)

lemma sm_ok_Nil [simp]: "sm_ok []"
  by (simp add: sm_ok_def)

lemma sm_ok_assign [simp]: "sm_ok m \<Longrightarrow> sm_ok (sm_assign k v m)"
  by (induction m) (auto simp: fst_set_assign)

lemma map_of_assign [simp]: "sm_ok m \<Longrightarrow> map_of (sm_assign k v m) = (map_of m)(k \<mapsto> v)"
  by (induction m) (auto simp: fun_eq_iff)

lemma sm_ok_filter: "sm_ok m \<Longrightarrow> sm_ok (filter P m)"
  by (induction m) auto

lemma sm_ok_erase [simp]: "sm_ok m \<Longrightarrow> sm_ok (sm_erase k m)"
  by (simp add: sm_erase_def sm_ok_filter)

lemma map_of_erase [simp]: "map_of (sm_erase k m) = (map_of m)(k := None)"
  by (induction m) (auto simp: sm_erase_def fun_eq_iff)

lemma sm_full_at: "sm_full m \<Longrightarrow> map_of m k = Some v \<Longrightarrow> v \<noteq> None"
  unfolding sm_full_def by (metis map_of_SomeD snd_conv)

lemma sm_full_assign: "sm_full m \<Longrightarrow> sm_full (sm_assign k (Some w) m)"
  by (induction m) (auto simp: sm_full_def)

lemma sm_full_erase: "sm_full m \<Longrightarrow> sm_full (sm_erase k m)"
  by (simp add: sm_full_def sm_erase_def)

lemma dom_sm_abs:
  assumes "sm_full m"
  shows "dom (sm_abs m) = fst ` set m"
proof -
  have "sm_abs m k \<noteq> None \<longleftrightarrow> map_of m k \<noteq> None" for k
    using sm_full_at [OF assms, of k] by (cases "map_of m k") (auto simp: sm_abs_def sm_at_def)
  then have "dom (sm_abs m) = dom (map_of m)" by (simp add: dom_def)
  then show ?thesis by (simp add: dom_map_of_conv_image_fst)
qed

interpretation sync: pointer_map sm_abs sm_ok sm_get sm_put sm_putIfAbsent sm_remove sm_size sm_full
proof unfold_locales
  fix m :: "('k::linorder, 'v) sync_map" and k v r m' w
  assume ok: "sm_ok m"
  show "sm_get k m = sm_abs m k"
    by (simp add: sm_get_def sm_abs_def sm_at_def sm_containsKey_def)
  show "sm_put k v m = (r, m') \<Longrightarrow> r = sm_abs m k \<and> sm_abs m' = (sm_abs m)(k := v) \<and> sm_ok m'"
    using ok by (auto simp: sm_put_def Let_def sm_abs_def sm_at_def sm_containsKey_def fun_eq_iff)
  show "sm_remove k m = (r, m') \<Longrightarrow> r = sm_abs m k \<and> sm_abs m' = (sm_abs m)(k := None) \<and> sm_ok m'"
    using ok by (auto simp: sm_remove_def sm_abs_def sm_at_def sm_containsKey_def fun_eq_iff split: if_splits)
  show "sm_full m \<Longrightarrow> sm_putIfAbsent k v m = (r, m') \<Longrightarrow> r = sm_abs m k \<and>
      sm_abs m' = (if sm_abs m k = None then (sm_abs m)(k := v) else sm_abs m) \<and> sm_ok m'"
    using ok by (auto simp: sm_putIfAbsent_def sm_abs_def sm_at_def sm_containsKey_def fun_eq_iff
        dest: sm_full_at split: if_splits)
  show "sm_full m \<Longrightarrow> sm_put k (Some w) m = (r, m') \<Longrightarrow> sm_full m'"
    by (auto simp: sm_put_def Let_def sm_full_assign)
  show "sm_full m \<Longrightarrow> sm_remove k m = (r, m') \<Longrightarrow> sm_full m'"
    by (auto simp: sm_remove_def sm_full_erase split: if_splits)
  show "sm_full m \<Longrightarrow> sm_size m = card (dom (sm_abs m)) \<and> finite (dom (sm_abs m))"
    using distinct_card [OF sm_ok_distinct [OF ok]] by (simp add: dom_sm_abs sm_size_def)
qed

section \<open>Sampling\<close>

text \<open>The entry at a position, as a sample.\<close>

definition sample_at :: "('k, 'v) sync_map \<Rightarrow> nat \<Rightarrow> 'k \<times> 'v" where
  "sample_at m i = (fst (m ! i), the (snd (m ! i)))"

text \<open>The iterator before its \<open>j\<close>-th sample.\<close>

definition sampling :: "nat \<Rightarrow> nat \<Rightarrow> int \<Rightarrow> nat \<Rightarrow> ('k, 'v) sampler \<Rightarrow> bool" where
  "sampling n start c j s \<longleftrightarrow>
     maxEntryCount s = c \<and> returnedEntryCount s = int j \<and> \<not> reachedToEnd s
     \<and> startIndex s = int start
     \<and> (currentIndex s = int ((start + j) mod n) \<or> j = 0 \<and> currentIndex s = - 1 \<and> start < n)"

lemma sampler_new_sampling:
  assumes "length m = n" "0 < n" "n < 2 ^ 31"
  shows "sampling n (r mod n) c 0 (sampler_new r c m)"
proof -
  have "r mod n < n" using assms(2) by simp
  then have "wrap32 (int (r mod n)) = int (r mod n)"
    using assms(3) by (intro wrap32_id) simp_all
  then show ?thesis
    using assms by (simp add: sampling_def sampler_new_def Let_def sm_size_def)
qed

lemma sample_outer_hit:
  assumes "currentIndex s = int i" "i < length m" "m ! i = (k, Some v)"
  shows "sample_outer (Suc fuel) m s = Inr (s\<lparr>currentEntry := sm_getEntry (Suc i mod length m) m,
    currentIndex := int (Suc i mod length m), currentSample := Some (k, v),
    returnedEntryCount := returnedEntryCount s + 1\<rparr>)"
proof -
  have "(if nat (int i + 1) \<ge> length m then 0 else int i + 1) = int (Suc i mod length m)"
    using assms(2) by (auto simp: nat_add_distrib le_Suc_eq)
  then show ?thesis
    using assms by (simp add: Let_def advance_index_def sample_inner.simps [of fuel] sm_getEntry_def sm_size_def)
qed

lemma iterate_sampling:
  assumes "sampling n start c j s" "int j < c"
  shows "\<exists>s2. iterate fuel m s = sample_outer fuel m s2 \<and> currentIndex s2 = int ((start + j) mod n)
    \<and> maxEntryCount s2 = c \<and> returnedEntryCount s2 = int j \<and> \<not> reachedToEnd s2 \<and> startIndex s2 = int start"
proof -
  let ?s1 = "if currentIndex s = - 1 then s\<lparr>currentIndex := startIndex s\<rparr> else s"
  let ?s2 = "if currentEntry ?s1 = None then ?s1\<lparr>currentEntry := sm_getEntry (nat (currentIndex ?s1)) m\<rparr> else ?s1"
  have "iterate fuel m s = sample_outer fuel m ?s2"
    using assms by (simp add: iterate_def sampling_def Let_def)
  then show ?thesis
    using assms by (intro exI [of _ ?s2]) (auto simp: sampling_def)
qed

lemma hasNext_sampling:
  assumes full: "sm_full m" and n: "length m = n" "0 < n" and s: "sampling n start c j s" and c: "int j < c"
  shows "\<exists>s'. hasNext (Suc fuel) m s = Inr (True, s') \<and> sampling n start c (Suc j) s'
    \<and> next_sample s' = Inr (sample_at m ((start + j) mod n))"
proof -
  let ?i = "(start + j) mod n"
  have i: "?i < length m" using n by simp
  obtain k v where e: "m ! ?i = (k, Some v)"
    using full nth_mem [OF i] unfolding sm_full_def by (metis not_None_eq prod.collapse)
  obtain s2 where s2: "iterate (Suc fuel) m s = sample_outer (Suc fuel) m s2" "currentIndex s2 = int ?i"
    "maxEntryCount s2 = c" "returnedEntryCount s2 = int j" "\<not> reachedToEnd s2" "startIndex s2 = int start"
    using iterate_sampling [OF s c] by blast
  have "Suc ?i mod n = (start + Suc j) mod n" by (simp add: mod_Suc_eq)
  then show ?thesis
    using sample_outer_hit [OF s2(2) i e, of fuel] s2 n e
    by (simp add: hasNext_def sampling_def next_sample_def sample_at_def)
qed

lemma drain_sampling:
  assumes "sm_full m" "length m = n" "0 < n"
  shows "sampling n start c j s \<Longrightarrow> c = int (j + t) \<Longrightarrow> t < rounds \<Longrightarrow>
    drain rounds (Suc fuel) m s = Inr (map (\<lambda>i. sample_at m ((start + j + i) mod n)) [0..<t])"
proof (induction t arbitrary: j s rounds)
  case 0
  then obtain r where "rounds = Suc r" by (cases rounds) auto
  with 0 show ?case by (simp add: hasNext_def iterate_def sampling_def)
next
  case (Suc t)
  then obtain r where r: "rounds = Suc r" by (cases rounds) auto
  obtain s' where s': "hasNext (Suc fuel) m s = Inr (True, s')" "sampling n start c (Suc j) s'"
    "next_sample s' = Inr (sample_at m ((start + j) mod n))"
    using hasNext_sampling [OF assms Suc.prems(1), of fuel] Suc.prems(2) by auto
  have "drain r (Suc fuel) m s' = Inr (map (\<lambda>i. sample_at m ((start + Suc j + i) mod n)) [0..<t])"
    using Suc.IH [OF s'(2)] Suc.prems r by simp
  moreover have "[0..<Suc t] = 0 # map Suc [0..<t]"
    by (simp add: upt_conv_Cons map_Suc_upt del: upt_Suc)
  ultimately show ?case
    using s' r by (simp add: comp_def del: upt_Suc)
qed

lemma samples_cyclic:
  assumes "sm_full m" "m \<noteq> []" "length m < 2 ^ 31" "0 < c"
  shows "\<exists>s. getRandomSamples r (int c) m = Inr (Some s)
    \<and> drain (Suc c) (Suc fuel) m s
      = Inr (map (\<lambda>i. sample_at m ((r mod length m + i) mod length m)) [0..<c])"
proof -
  have "sampling (length m) (r mod length m) (int c) 0 (sampler_new r (int c) m)"
    using assms by (intro sampler_new_sampling) auto
  then have "drain (Suc c) (Suc fuel) m (sampler_new r (int c) m)
      = Inr (map (\<lambda>i. sample_at m ((r mod length m + 0 + i) mod length m)) [0..<c])"
    using assms by (intro drain_sampling) auto
  then show ?thesis
    using assms by (simp add: getRandomSamples_def sm_size_def)
qed

text \<open>Sampling a non-empty record map always succeeds and gives exactly the number of
  samples asked for, walking the entries cyclically from the random start; a map smaller than the
  sample count is sampled again from its beginning, so samples repeat.\<close>

theorem samples_walk_the_map:
  assumes "sm_full m" "m \<noteq> []" "length m < 2 ^ 31" "0 < c"
  shows "\<exists>s es. getRandomSamples r (int c) m = Inr (Some s) \<and> drain (Suc c) (Suc fuel) m s = Inr es
    \<and> length es = c \<and> (\<forall>i < c. es ! i = sample_at m ((r + i) mod length m))"
  using samples_cyclic [OF assms, of r fuel] by (auto simp: mod_add_left_eq)

theorem samples_walk_the_map_witness:
  "\<exists>s es. getRandomSamples 4 (int 3) [(1 :: nat, Some CHR ''a''), (2, Some CHR ''b'')] = Inr (Some s)
    \<and> drain (Suc 3) (Suc 0) [(1, Some CHR ''a''), (2, Some CHR ''b'')] s = Inr es
    \<and> length es = 3 \<and> es ! 0 = (1, CHR ''a'') \<and> es ! 2 = (1, CHR ''a'')"
proof -
  let ?m = "[(1 :: nat, Some CHR ''a''), (2, Some CHR ''b'')]"
  have "sample_at ?m ((4 + 0) mod length ?m) = (1, CHR ''a'')" "sample_at ?m ((4 + 2) mod length ?m) = (1, CHR ''a'')"
    by code_simp+
  then show ?thesis
    using samples_walk_the_map [of ?m 3 4 0] by (auto simp: sm_full_def)
qed

section \<open>Eviction and conditional removal\<close>

lemma rm_evict_step:
  assumes "sm_ok m" "sm_full m" "sm_remove k m = (r, m')"
  shows "sm_ok m'" "sm_full m'" "sm_abs m' = (sm_abs m)(k := None)" "r = sm_abs m k"
    "sm_size m = sm_size m' + (if r = None then 0 else 1)"
proof -
  have l: "r = sm_abs m k \<and> sm_abs m' = (sm_abs m)(k := None) \<and> sm_ok m'"
    using sync.remove_law [OF assms(1,3)] .
  then show "sm_ok m'" "sm_abs m' = (sm_abs m)(k := None)" "r = sm_abs m k" by auto
  show "sm_full m'" using sync.full_remove [OF assms(2,1,3)] .
  have "sm_size m \<noteq> 0" if "r \<noteq> None"
    using that l by (auto simp: sm_size_def sm_abs_def sm_at_def)
  then show "sm_size m = sm_size m' + (if r = None then 0 else 1)"
    using sync.remove_size [OF assms(1,2), of k] assms(3) sync.get_law [OF assms(1), of k] l by auto
qed

text \<open>Eviction removes exactly the given candidates: the keys of the candidates are gone, every
  other record stays, and the reported count is the number of records that left the map.\<close>

theorem evict_removes_candidates:
  assumes "sm_ok m" "sm_full m" "rm_evict (Some cs) L m st = (n, m', st')"
  shows "sm_ok m' \<and> sm_full m' \<and> sm_abs m' = (\<lambda>k. if k \<in> fst ` set cs then None else sm_abs m k)
    \<and> 0 \<le> n \<and> sm_size m = sm_size m' + nat n"
  using assms
proof (induction cs arbitrary: m st n)
  case Nil
  then show ?case by (auto simp: fun_eq_iff)
next
  case (Cons c cs)
  obtain r m1 where rm: "sm_remove (fst c) m = (r, m1)" by fastforce
  note step = rm_evict_step [OF Cons.prems(1,2) rm]
  obtain st1 n1 where e: "rm_evict (Some cs) L m1 st1 = (n1, m', st')" "n = n1 + (if r = None then 0 else 1)"
    using Cons.prems(3) rm by (auto simp: Let_def split: option.splits prod.splits)
  show ?case
    using Cons.IH [OF step(1,2) e(1)] step e(2) by (auto simp: fun_eq_iff)
qed

theorem evict_removes_candidates_witness:
  "rm_evict (Some [(2, CHR ''b''), (5, CHR ''x''), (2, CHR ''b'')]) (None :: (nat \<Rightarrow> char \<Rightarrow> bool \<Rightarrow> unit \<Rightarrow> unit) option)
     [(1, Some CHR ''a''), (2, Some CHR ''b'')] () = (1, [(1, Some CHR ''a'')], ())
   \<and> sm_abs [(1 :: nat, Some CHR ''a'')] 2 = None"
proof -
  have e: "rm_evict (Some [(2, CHR ''b''), (5, CHR ''x''), (2, CHR ''b'')]) (None :: (nat \<Rightarrow> char \<Rightarrow> bool \<Rightarrow> unit \<Rightarrow> unit) option)
     [(1, Some CHR ''a''), (2, Some CHR ''b'')] () = (1, [(1, Some CHR ''a'')], ())"
    by (simp add: sm_remove_def sm_containsKey_def sm_erase_def sm_at_def)
  have "sm_ok [(1 :: nat, Some CHR ''a''), (2, Some CHR ''b'')] \<and> sm_full [(1 :: nat, Some CHR ''a''), (2, Some CHR ''b'')]"
    by (simp add: sm_full_def)
  then show ?thesis
    using evict_removes_candidates [OF _ _ e] e by simp
qed

lemma remove_from_hit:
  "v \<in> snd ` set m \<Longrightarrow> \<exists>m'. remove_from v m = (True, m') \<and> length m = Suc (length m')"
proof (induction m)
  case (Cons e m)
  show ?case
  proof (cases "snd e = v")
    case False
    with Cons obtain m' where "remove_from v m = (True, m')" "length m = Suc (length m')" by auto
    with False show ?thesis by simp
  qed simp
qed simp

text \<open>Conditional removal of a key can remove another key's entry: when the key holds a
  different value and a later key holds the given one, the call reports success, the key keeps its
  entry, and one entry of the map is gone.\<close>

theorem remove_value_hits_other_key:
  assumes "sm_ok m" "map_of m k = Some a" "a \<noteq> v" "k < j" "map_of m j = Some v"
  shows "\<exists>m'. sm_remove_value k v m = (True, m') \<and> map_of m' k = Some a \<and> length m = Suc (length m')"
  using assms
proof (induction m)
  case (Cons e m)
  show ?case
  proof (cases "fst e = k")
    case True
    have "map_of m j = Some v" using Cons.prems(4,5) True by (auto split: if_splits)
    then have "v \<in> snd ` set m" by (metis image_eqI map_of_SomeD snd_conv)
    then obtain m' where "remove_from v m = (True, m')" "length m = Suc (length m')"
      using remove_from_hit by blast
    with True Cons.prems show ?thesis by (auto split: if_splits)
  next
    case False
    have "map_of m k = Some a" using Cons.prems False by auto
    moreover from this have "k \<in> fst ` set m" by (metis image_eqI map_of_SomeD fst_conv)
    then have "fst e < k" using Cons.prems(1) by auto
    then have "map_of m j = Some v" using Cons.prems by (auto split: if_splits)
    ultimately obtain m' where "sm_remove_value k v m = (True, m')" "map_of m' k = Some a"
      "length m = Suc (length m')"
      using Cons by auto
    with False show ?thesis by auto
  qed
qed simp

theorem remove_value_hits_other_key_witness:
  "\<exists>m'. sm_remove_value 1 (Some CHR ''b'') [(1 :: nat, Some CHR ''a''), (2, Some CHR ''b'')] = (True, m')
     \<and> map_of m' 1 = Some (Some CHR ''a'') \<and> length m' = 1"
  using remove_value_hits_other_key [of "[(1 :: nat, Some CHR ''a''), (2, Some CHR ''b'')]" 1
      "Some CHR ''a''" "Some CHR ''b''" 2]
  by auto

end
