(* ===== verification/Near_Eviction.thy ===== *)
theory Near_Eviction
  imports Near_Config Sync_Map
begin

text \<open>
  Near cache records (\<open>record/AbstractNearCacheRecord.h\<close>) and the choice of a record to evict: the
  comparators, \<open>DefaultEvictionPolicyEvaluator.h\<close>, the strategies, their providers and the size
  checker.
\<close>

section \<open>Records\<close>

definition TIME_NOT_SET :: int where
  "TIME_NOT_SET = - 1"

record 'v near_record =
  rec_value :: "'v option"
  creationTime :: int
  rec_sequence :: int
  rec_uuid :: "nat option"
  expirationTime :: int
  accessTime :: int
  accessHit :: int

definition NearCacheRecord_new :: "'v option \<Rightarrow> int \<Rightarrow> int \<Rightarrow> 'v near_record" where
  "NearCacheRecord_new v createTime expiryTime =
     \<lparr>rec_value = v, creationTime = createTime, rec_sequence = 0, rec_uuid = None,
      expirationTime = expiryTime, accessTime = TIME_NOT_SET, accessHit = 0\<rparr>"

definition setValue :: "'v option \<Rightarrow> 'v near_record \<Rightarrow> 'v near_record" where
  "setValue v r = r\<lparr>rec_value := v\<rparr>"

definition setAccessTime :: "int \<Rightarrow> 'v near_record \<Rightarrow> 'v near_record" where
  "setAccessTime t r = r\<lparr>accessTime := t\<rparr>"

definition isExpiredAt :: "int \<Rightarrow> 'v near_record \<Rightarrow> bool" where
  "isExpiredAt now r = (let expiration = expirationTime r in expiration > TIME_NOT_SET \<and> expiration \<le> now)"

definition incrementAccessHit :: "'v near_record \<Rightarrow> 'v near_record" where
  "incrementAccessHit r = r\<lparr>accessHit := wrap32 (accessHit r + 1)\<rparr>"

definition resetAccessHit :: "'v near_record \<Rightarrow> 'v near_record" where
  "resetAccessHit r = r\<lparr>accessHit := 0\<rparr>"

definition isIdleAt :: "int \<Rightarrow> int \<Rightarrow> 'v near_record \<Rightarrow> bool" where
  "isIdleAt maxIdleMilliSeconds now r =
     (if maxIdleMilliSeconds > 0 then
        (if accessTime r > TIME_NOT_SET then accessTime r + maxIdleMilliSeconds < now
         else creationTime r + maxIdleMilliSeconds < now)
      else False)"

definition hasSameUuid :: "nat option \<Rightarrow> 'v near_record \<Rightarrow> bool" where
  "hasSameUuid thatUuid r =
     (case rec_uuid r of None \<Rightarrow> False | Some u \<Rightarrow>
       (case thatUuid of None \<Rightarrow> False | Some u' \<Rightarrow> u = u'))"

section \<open>Comparators\<close>

type_synonym ('k, 'v) candidate = "'k \<times> 'v near_record"
type_synonym ('k, 'v) comparator = "('k, 'v) candidate \<Rightarrow> ('k, 'v) candidate \<Rightarrow> int"

definition FIRST_HIGHER :: int where "FIRST_HIGHER = - 1"
definition SECOND_HIGHER :: int where "SECOND_HIGHER = 1"
definition BOTH_SAME :: int where "BOTH_SAME = 0"

definition compare_lru :: "('k, 'v) comparator" where
  "compare_lru e1 e2 =
     (let accessTime1 = accessTime (snd e1); accessTime2 = accessTime (snd e2) in
      if accessTime2 < accessTime1 then SECOND_HIGHER
      else if accessTime1 < accessTime2 then FIRST_HIGHER
      else let creationTime1 = creationTime (snd e1); creationTime2 = creationTime (snd e2) in
        if creationTime2 < creationTime1 then SECOND_HIGHER
        else if creationTime2 > creationTime1 then FIRST_HIGHER
        else BOTH_SAME)"

definition compare_lfu :: "('k, 'v) comparator" where
  "compare_lfu e1 e2 =
     (let hits1 = accessHit (snd e1); hits2 = accessHit (snd e2) in
      if hits2 < hits1 then SECOND_HIGHER
      else if hits1 < hits2 then FIRST_HIGHER
      else let creationTime1 = creationTime (snd e1); creationTime2 = creationTime (snd e2) in
        if creationTime2 < creationTime1 then SECOND_HIGHER
        else if creationTime2 > creationTime1 then FIRST_HIGHER
        else BOTH_SAME)"

definition compare_random :: "('k, 'v) comparator" where
  "compare_random e1 e2 = 0"

section \<open>The evaluator\<close>

text \<open>
  \<open>DefaultEvictionPolicyEvaluator::evaluate\<close> over the samples the iterator gives; a null comparator
  is dereferenced when a second sample has to be compared.
\<close>

definition returnEvictionCandidate :: "('k, 'v) candidate option \<Rightarrow> ('k, 'v) candidate list option" where
  "returnEvictionCandidate c = (case c of None \<Rightarrow> None | Some e \<Rightarrow> Some [e])"

fun evaluate :: "('k, 'v) comparator option \<Rightarrow> int \<Rightarrow> ('k, 'v) candidate option \<Rightarrow> ('k, 'v) candidate list \<Rightarrow>
    ('k, 'v) candidate list option res" where
  "evaluate cmp now selected [] = Inr (returnEvictionCandidate selected)"
| "evaluate cmp now None (current # rest) = evaluate cmp now (Some current) rest"
| "evaluate cmp now (Some sel) (current # rest) =
     (if isExpiredAt now (snd current) then Inr (returnEvictionCandidate (Some current))
      else case cmp of
        None \<Rightarrow> Inl NullDereference
      | Some f \<Rightarrow>
          evaluate cmp now (Some (if f sel current = SECOND_HIGHER then current else sel)) rest)"

section \<open>Strategies and providers\<close>

definition SAMPLE_COUNT :: int where
  "SAMPLE_COUNT = 15"

text \<open>
  \<open>SamplingBasedEvictionStrategy::evictInternal\<close>; a map without samples yields a null iterable,
  which is dereferenced. \<open>env_rand\<close> and \<open>env_now\<close> are the values of \<open>rand()\<close> and of the clock.
\<close>

record evict_env =
  env_rand :: nat
  env_now :: int

definition evictInternal :: "evict_env \<Rightarrow> ('k::linorder, 'v) comparator option \<Rightarrow>
    ('k \<Rightarrow> 'v near_record \<Rightarrow> bool \<Rightarrow> 's \<Rightarrow> 's) option \<Rightarrow>
    ('k, 'v near_record) sync_map \<Rightarrow> 's \<Rightarrow> (int \<times> ('k, 'v near_record) sync_map \<times> 's) res" where
  "evictInternal env cmp listener m st =
     bindR (rm_sample (env_rand env) SAMPLE_COUNT m) (\<lambda>samples.
       case samples of
         None \<Rightarrow> Inl NullDereference
       | Some it \<Rightarrow>
           bindR (drain (nat SAMPLE_COUNT + 1) (sm_size m + 1) m it) (\<lambda>cs.
           bindR (evaluate cmp (env_now env) None cs) (\<lambda>candidates.
           Inr (rm_evict candidates listener m st))))"

text \<open>\<open>AbstractEvictionStrategy::evict\<close>: a null checker means that eviction is always required.\<close>

definition strategy_evict :: "evict_env \<Rightarrow> ('k::linorder, 'v) comparator option \<Rightarrow> bool option \<Rightarrow>
    ('k \<Rightarrow> 'v near_record \<Rightarrow> bool \<Rightarrow> 's \<Rightarrow> 's) option \<Rightarrow>
    ('k, 'v near_record) sync_map \<Rightarrow> 's \<Rightarrow> (int \<times> ('k, 'v near_record) sync_map \<times> 's) res" where
  "strategy_evict env cmp required listener m st =
     (case required of
        Some b \<Rightarrow> if b then evictInternal env cmp listener m st else Inr (0, m, st)
      | None \<Rightarrow> evictInternal env cmp listener m st)"

definition createEvictionPolicyComparator :: "EvictionPolicyType \<Rightarrow> ('k, 'v) comparator option res" where
  "createEvictionPolicyComparator t =
     (case t of
        LRU_TYPE \<Rightarrow> Inr (Some compare_lru)
      | LFU_TYPE \<Rightarrow> Inr (Some compare_lfu)
      | RANDOM_TYPE \<Rightarrow> Inr (Some compare_random)
      | NONE_TYPE \<Rightarrow> Inr None)"

text \<open>The evaluator is its comparator; a null configuration gives a null evaluator.\<close>

definition getEvictionPolicyEvaluator :: "('k, 'v) comparator EvictionConfig option \<Rightarrow>
    ('k, 'v) comparator option option res" where
  "getEvictionPolicyEvaluator cfg =
     (case cfg of
        None \<Rightarrow> Inr None
      | Some c \<Rightarrow>
          bindR (case ec_comparator c of
                   Some f \<Rightarrow> Inr (Some f)
                 | None \<Rightarrow> createEvictionPolicyComparator (getEvictionPolicyType c))
            (\<lambda>cmp. Inr (Some cmp)))"

definition getEvictionStrategy :: "'cmp EvictionConfig option \<Rightarrow> EvictionStrategyType option" where
  "getEvictionStrategy cfg = (case cfg of None \<Rightarrow> None | Some c \<Rightarrow> Some (getEvictionStrategyType c))"

definition isReachedToMaxSize :: "int \<Rightarrow> ('k, 'v) sync_map \<Rightarrow> bool" where
  "isReachedToMaxSize maxSize m = (wrap32 (int (sm_size m)) \<ge> maxSize)"

section \<open>What evaluation selects\<close>

text \<open>The order in which a policy gives records up.\<close>

definition lru_rank :: "('k, 'v) candidate \<Rightarrow> int \<times> int" where
  "lru_rank c = (accessTime (snd c), creationTime (snd c))"

definition lfu_rank :: "('k, 'v) candidate \<Rightarrow> int \<times> int" where
  "lfu_rank c = (accessHit (snd c), creationTime (snd c))"

definition rank_le :: "int \<times> int \<Rightarrow> int \<times> int \<Rightarrow> bool" where
  "rank_le a b = (fst a < fst b \<or> fst a = fst b \<and> snd a \<le> snd b)"

locale ranking =
  fixes cmp :: "('k, 'v) comparator" and rank :: "('k, 'v) candidate \<Rightarrow> int \<times> int"
  assumes second_iff: "cmp a b = SECOND_HIGHER \<longleftrightarrow> \<not> rank_le (rank a) (rank b)"
begin

lemma evaluate_minimal:
  assumes "\<forall>c \<in> set cs. \<not> isExpiredAt now (snd c)"
  shows "\<exists>best. evaluate (Some cmp) now (Some sel) cs = Inr (Some [best]) \<and> best \<in> set (sel # cs)
    \<and> (\<forall>c \<in> set (sel # cs). rank_le (rank best) (rank c))"
  using assms
proof (induction cs arbitrary: sel)
  case Nil
  then show ?case by (simp add: returnEvictionCandidate_def rank_le_def)
next
  case (Cons c cs)
  let ?sel = "if cmp sel c = SECOND_HIGHER then c else sel"
  obtain best where b: "evaluate (Some cmp) now (Some ?sel) cs = Inr (Some [best])"
    "best \<in> set (?sel # cs)" "\<forall>x \<in> set (?sel # cs). rank_le (rank best) (rank x)"
    using Cons.IH [of ?sel] Cons.prems by (meson list.set_intros(2))
  have "rank_le (rank ?sel) (rank sel) \<and> rank_le (rank ?sel) (rank c)"
    using second_iff [of sel c] by (auto simp: rank_le_def)
  then have "rank_le (rank best) (rank sel) \<and> rank_le (rank best) (rank c)"
    using b(3) by (auto simp: rank_le_def split: if_splits)
  then show ?case
    using b Cons.prems by (intro exI [of _ best]) (auto split: if_splits)
qed

end

interpretation lru: ranking compare_lru lru_rank
  by unfold_locales
    (auto simp: compare_lru_def lru_rank_def rank_le_def Let_def SECOND_HIGHER_def FIRST_HIGHER_def BOTH_SAME_def)

interpretation lfu: ranking compare_lfu lfu_rank
  by unfold_locales
    (auto simp: compare_lfu_def lfu_rank_def rank_le_def Let_def SECOND_HIGHER_def FIRST_HIGHER_def BOTH_SAME_def)

lemma evaluate_some:
  assumes "cs \<noteq> [] \<or> sel \<noteq> None"
  shows "\<exists>best. evaluate (Some f) now sel cs = Inr (Some [best]) \<and> best \<in> set_option sel \<union> set cs"
  using assms
proof (induction "Some f" now sel cs rule: evaluate.induct)
  case (1 now selected)
  then show ?case by (auto simp: returnEvictionCandidate_def split: option.splits)
qed (auto simp: returnEvictionCandidate_def)

text \<open>When no sample is expired, the least recently used policy selects from any non-empty
  list of samples one with the smallest last access time, the oldest of these; the least frequently
  used policy one with the fewest hits, the oldest of these.\<close>

theorem evaluate_selects_minimum:
  assumes "cs \<noteq> []" "\<forall>c \<in> set cs. \<not> isExpiredAt now (snd c)"
  shows "(\<exists>best \<in> set cs. evaluate (Some compare_lru) now None cs = Inr (Some [best])
        \<and> (\<forall>c \<in> set cs. rank_le (lru_rank best) (lru_rank c)))
    \<and> (\<exists>best \<in> set cs. evaluate (Some compare_lfu) now None cs = Inr (Some [best])
        \<and> (\<forall>c \<in> set cs. rank_le (lfu_rank best) (lfu_rank c)))"
proof -
  obtain x xs where "cs = x # xs" using assms(1) by (cases cs) auto
  then show ?thesis
    using lru.evaluate_minimal [of xs now x] lfu.evaluate_minimal [of xs now x] assms(2)
    by (auto simp: Bex_def)
qed

theorem evaluate_selects_minimum_witness:
  "\<exists>best \<in> set [(1 :: nat, NearCacheRecord_new (Some True) 10 (- 1)), (2, NearCacheRecord_new (Some False) 7 (- 1))].
     evaluate (Some compare_lru) 100 None
       [(1, NearCacheRecord_new (Some True) 10 (- 1)), (2, NearCacheRecord_new (Some False) 7 (- 1))]
       = Inr (Some [best])"
proof -
  let ?cs = "[(1 :: nat, NearCacheRecord_new (Some True) 10 (- 1)), (2, NearCacheRecord_new (Some False) 7 (- 1))]"
  have e: "\<forall>c \<in> set ?cs. \<not> isExpiredAt 100 (snd c)"
    by (simp add: isExpiredAt_def NearCacheRecord_new_def TIME_NOT_SET_def)
  have "?cs \<noteq> []" by simp
  from conjunct1 [OF evaluate_selects_minimum [OF this e]] show ?thesis by blast
qed

text \<open>An expired sample is evicted at once only when it is not the first: with an expired
  sample first and a fresh, less recently used one second, the fresh record is the one selected.\<close>

theorem expired_first_sample_survives:
  assumes "isExpiredAt now (snd a)" "\<not> isExpiredAt now (snd b)" "accessTime (snd b) < accessTime (snd a)"
  shows "evaluate (Some compare_lru) now None [a, b] = Inr (Some [b])
    \<and> evaluate (Some compare_lru) now None [b, a] = Inr (Some [a])"
  using assms by (simp add: compare_lru_def Let_def returnEvictionCandidate_def)

theorem expired_first_sample_survives_witness:
  "evaluate (Some compare_lru) 50 None
     [(1 :: nat, (NearCacheRecord_new (Some True) 0 40)\<lparr>accessTime := 30\<rparr>), (2, NearCacheRecord_new (Some False) 0 60)]
   = Inr (Some [(2, NearCacheRecord_new (Some False) 0 60)])"
  using expired_first_sample_survives [of 50
      "(1 :: nat, (NearCacheRecord_new (Some True) 0 40)\<lparr>accessTime := 30\<rparr>)"
      "(2, NearCacheRecord_new (Some False) 0 60)"]
  by (simp add: isExpiredAt_def NearCacheRecord_new_def TIME_NOT_SET_def)

section \<open>One eviction\<close>

lemma evictInternal_one:
  assumes ok: "sm_ok m" "sm_full m" and m: "m \<noteq> []" "length m < 2 ^ 31"
  shows "\<exists>k r. (k, Some r) \<in> set m \<and> evictInternal env (Some f) L m st
    = Inr (1, sm_erase k m, case L of None \<Rightarrow> st | Some onEvict \<Rightarrow> onEvict k r False st)"
proof -
  let ?cs = "map (\<lambda>i. sample_at m ((env_rand env mod length m + i) mod length m)) [0..<15]"
  obtain s where s: "getRandomSamples (env_rand env) 15 m = Inr (Some s)"
    "drain (Suc 15) (Suc (sm_size m)) m s = Inr ?cs"
    using samples_cyclic [OF ok(2) m, of 15 "env_rand env" "sm_size m"] by auto
  have "?cs \<noteq> []" by simp
  then obtain best where b: "evaluate (Some f) (env_now env) None ?cs = Inr (Some [best])" "best \<in> set ?cs"
    using evaluate_some [of ?cs None f "env_now env"] by auto
  from b(2) obtain j where j: "best = sample_at m ((env_rand env mod length m + j) mod length m)" by auto
  define i where "i = (env_rand env mod length m + j) mod length m"
  have i: "i < length m" "best = sample_at m i" using m(1) j by (simp_all add: i_def)
  obtain k r where e: "m ! i = (k, Some r)"
    using ok(2) nth_mem [OF i(1)] unfolding sm_full_def by (metis not_None_eq prod.collapse)
  then have best: "best = (k, r)" using i by (simp add: sample_at_def)
  have mem: "(k, Some r) \<in> set m" using e i nth_mem by metis
  have "map_of m k = Some (Some r)"
    using mem sm_ok_distinct [OF ok(1)] by simp
  then have "rm_evict (Some [best]) L m st
      = (1, sm_erase k m, case L of None \<Rightarrow> st | Some onEvict \<Rightarrow> onEvict k r False st)"
    by (cases L) (simp_all add: best sm_remove_def sm_containsKey_def sm_at_def Let_def)
  then show ?thesis
    using mem s b(1)
    by (intro exI [of _ k] exI [of _ r])
      (simp add: evictInternal_def rm_sample_def SAMPLE_COUNT_def numeral_eq_Suc [of "num.One"])
qed

lemma evictInternal_empty: "evictInternal env cmp L [] st = Inl NullDereference"
  by (simp add: evictInternal_def rm_sample_def getRandomSamples_def SAMPLE_COUNT_def sm_size_def)

end
