(* ===== verification/Record_Store.thy ===== *)
theory Record_Store
  imports Near_Eviction
begin

text \<open>
  The record stores of a near cache: \<open>store/AbstractNearCacheRecordStore.h\<close>,
  \<open>store/BaseHeapNearCacheRecordStore.h\<close> and the two concrete stores
  \<open>store/NearCacheDataRecordStore.h\<close> and \<open>store/NearCacheObjectRecordStore.h\<close>. The methods the
  concrete stores override are the fields of \<open>store_kind\<close>. The counters of \<open>NearCacheStatsImpl\<close> have
  no body in the sources: the store keeps the calls it makes to them, in order. Readings of the
  clock are arguments.
\<close>

section \<open>Statistics\<close>

datatype stats_call =
    IncHits | IncMisses
  | IncOwnedEntryCount | DecOwnedEntryCount | SetOwnedEntryCount int
  | IncOwnedEntryMemoryCost int | DecOwnedEntryMemoryCost int | SetOwnedEntryMemoryCost int
  | IncEvictions | IncExpirations | IncInvalidations | IncInvalidationRequests

text \<open>What the calls add up to, as the names of the counters say.\<close>

fun count_step :: "int \<Rightarrow> stats_call \<Rightarrow> int" where
  "count_step n IncOwnedEntryCount = n + 1"
| "count_step n DecOwnedEntryCount = n - 1"
| "count_step n (SetOwnedEntryCount k) = k"
| "count_step n _ = n"

fun memory_step :: "int \<Rightarrow> stats_call \<Rightarrow> int" where
  "memory_step n (IncOwnedEntryMemoryCost k) = n + k"
| "memory_step n (DecOwnedEntryMemoryCost k) = n - k"
| "memory_step n (SetOwnedEntryMemoryCost k) = k"
| "memory_step n _ = n"

definition ownedEntryCount :: "stats_call list \<Rightarrow> int" where
  "ownedEntryCount log = foldl count_step 0 log"

definition ownedEntryMemoryCost :: "stats_call list \<Rightarrow> int" where
  "ownedEntryMemoryCost log = foldl memory_step 0 log"

section \<open>Store state\<close>

text \<open>What a near cache answers: no entry, the null marker, or a value.\<close>

datatype 'v cached = NotCached | NullObject | Cached 'v

record ('k, 'c) store =
  records :: "('k, 'c near_record) sync_map option"
  nearCacheStats :: "stats_call list"
  nearCacheConfig :: "('k, 'c) comparator NearCacheConfig"
  timeToLiveMillis :: int
  maxIdleMillis :: int
  evictionPolicyEvaluator :: "('k, 'c) comparator option option"
  maxSizeChecker :: "int option"
  evictionStrategy :: "EvictionStrategyType option"
  evictionPolicyType :: EvictionPolicyType

text \<open>The virtual methods of a concrete store.\<close>

record ('k, 'v, 'd, 'c) store_kind =
  getKeyStorageMemoryCost :: "'k \<Rightarrow> int"
  getRecordStorageMemoryCost :: "'c near_record \<Rightarrow> int"
  contentOfValue :: "'v option \<Rightarrow> 'c option res"
  contentOfData :: "'d option \<Rightarrow> 'c option res"
  recordToValue :: "'c near_record \<Rightarrow> stats_call list \<times> 'v cached res"

definition MILLI_SECONDS_IN_A_SECOND :: int where
  "MILLI_SECONDS_IN_A_SECOND = 1000"

text \<open>
  The constructor: the products are 32-bit, only their results are widened. \<open>junk\<close> is the policy
  field before it is set.
\<close>

definition RecordStore_new :: "EvictionPolicyType \<Rightarrow> ('k, 'c) comparator NearCacheConfig \<Rightarrow> ('k, 'c) store" where
  "RecordStore_new junk cacheConfig =
     \<lparr>records = None, nearCacheStats = [], nearCacheConfig = cacheConfig,
      timeToLiveMillis = wrap32 (timeToLiveSeconds cacheConfig * MILLI_SECONDS_IN_A_SECOND),
      maxIdleMillis = wrap32 (maxIdleSeconds cacheConfig * MILLI_SECONDS_IN_A_SECOND),
      evictionPolicyEvaluator = None, maxSizeChecker = None, evictionStrategy = None,
      evictionPolicyType = (case evictionConfig cacheConfig of
          None \<Rightarrow> junk | Some e \<Rightarrow> getEvictionPolicyType e)\<rparr>"

definition createNearCacheMaxSizeChecker :: "'cmp EvictionConfig option \<Rightarrow> int res" where
  "createNearCacheMaxSizeChecker cfg =
     (case cfg of
        None \<Rightarrow> Inl NullDereference
      | Some e \<Rightarrow> (case maxSizePolicy e of ENTRY_COUNT \<Rightarrow> Inr (ec_size e)))"

definition rs_initialize :: "(('k, 'c) store, unit) comp" where
  "rs_initialize st =
     (let cfg = evictionConfig (nearCacheConfig st);
          st1 = st\<lparr>records := Some []\<rparr>
      in case createNearCacheMaxSizeChecker cfg of
           Inl e \<Rightarrow> (Inl e, st1)
         | Inr maxSize \<Rightarrow>
             (let st2 = st1\<lparr>maxSizeChecker := Some maxSize\<rparr> in
              case getEvictionPolicyEvaluator cfg of
                Inl e \<Rightarrow> (Inl e, st2)
              | Inr ev \<Rightarrow>
                  (case cfg of
                     None \<Rightarrow> (Inl NullDereference, st2)
                   | Some e \<Rightarrow>
                       (Inr (), st2\<lparr>evictionPolicyEvaluator := ev, evictionStrategy := getEvictionStrategy cfg,
                                   evictionPolicyType := getEvictionPolicyType e\<rparr>))))"

definition isEvictionEnabled :: "('k, 'c) store \<Rightarrow> bool" where
  "isEvictionEnabled st =
     (evictionStrategy st \<noteq> None \<and> evictionPolicyEvaluator st \<noteq> None \<and> evictionPolicyType st \<noteq> NONE_TYPE)"

definition isEvictionRequired :: "('k, 'c) store \<Rightarrow> ('k, 'c near_record) sync_map \<Rightarrow> bool" where
  "isEvictionRequired st m =
     (case maxSizeChecker st of None \<Rightarrow> False | Some maxSize \<Rightarrow> isReachedToMaxSize maxSize m)"

text \<open>\<open>checkAvailable\<close>, with the record map it guards.\<close>

definition with_records :: "(('k, 'c near_record) sync_map \<Rightarrow> (('k, 'c) store, 'a) comp) \<Rightarrow> (('k, 'c) store, 'a) comp" where
  "with_records f st = (case records st of None \<Rightarrow> (Inl IllegalStateException, st) | Some m \<Rightarrow> f m st)"

definition log_stats :: "stats_call list \<Rightarrow> ('k, 'c) store \<Rightarrow> ('k, 'c) store" where
  "log_stats cs st = st\<lparr>nearCacheStats := nearCacheStats st @ cs\<rparr>"

definition getTotalStorageMemoryCost :: "('k, 'v, 'd, 'c) store_kind \<Rightarrow> 'k \<Rightarrow> 'c near_record \<Rightarrow> int" where
  "getTotalStorageMemoryCost kind key record = getKeyStorageMemoryCost kind key + getRecordStorageMemoryCost kind record"

definition isRecordExpired :: "int \<Rightarrow> ('k, 'c) store \<Rightarrow> 'c near_record \<Rightarrow> bool" where
  "isRecordExpired now st record = (if isExpiredAt now record then True else isIdleAt (maxIdleMillis st) now record)"

definition onRecordAccess :: "int \<Rightarrow> 'c near_record \<Rightarrow> 'c near_record" where
  "onRecordAccess now record = incrementAccessHit (setAccessTime now record)"

definition onRecordCreate :: "int \<Rightarrow> 'c near_record \<Rightarrow> 'c near_record" where
  "onRecordCreate now record = record\<lparr>creationTime := now\<rparr>"

text \<open>\<open>onEvict\<close> of the heap stores: the abstract store's counters, then the memory cost.\<close>

definition onEvict :: "('k, 'v, 'd, 'c) store_kind \<Rightarrow> 'k \<Rightarrow> 'c near_record \<Rightarrow> bool \<Rightarrow> stats_call list \<Rightarrow> stats_call list" where
  "onEvict kind key record wasExpired log =
     log @ [if wasExpired then IncExpirations else IncEvictions, DecOwnedEntryCount]
         @ [DecOwnedEntryMemoryCost (getTotalStorageMemoryCost kind key record)]"

section \<open>Operations\<close>

definition rs_invalidate :: "('k::linorder, 'v, 'd, 'c) store_kind \<Rightarrow> 'k \<Rightarrow> (('k, 'c) store, bool) comp" where
  "rs_invalidate kind key = with_records (\<lambda>m st.
     case sm_remove key m of
       (Some record, m') \<Rightarrow>
         (Inr True, log_stats
            [DecOwnedEntryCount, DecOwnedEntryMemoryCost (getTotalStorageMemoryCost kind key record),
             IncInvalidations, IncInvalidationRequests] (st\<lparr>records := Some m'\<rparr>))
     | (None, m') \<Rightarrow> (Inr False, log_stats [IncInvalidationRequests] (st\<lparr>records := Some m'\<rparr>)))"

definition onExpire :: "(('k, 'c) store, unit) comp" where
  "onExpire st = (Inr (), log_stats [IncExpirations] st)"

definition rs_get :: "('k::linorder, 'v, 'd, 'c) store_kind \<Rightarrow> int \<Rightarrow> int \<Rightarrow> 'k \<Rightarrow> (('k, 'c) store, 'v cached) comp" where
  "rs_get kind now1 now2 key = with_records (\<lambda>m st.
     case sm_get key m of
       Some record \<Rightarrow>
         if isRecordExpired now1 st record then
           bindM (rs_invalidate kind key) (\<lambda>_. bindM onExpire (\<lambda>_. retM NotCached)) st
         else
           (let record' = onRecordAccess now2 record;
                st1 = log_stats [IncHits] (st\<lparr>records := Some (sm_assign key (Some record') m)\<rparr>)
            in case recordToValue kind record' of (calls, r) \<Rightarrow> (r, log_stats calls st1))
     | None \<Rightarrow> (Inr NotCached, log_stats [IncMisses] st))"

text \<open>\<open>valueToRecordInternal\<close>, which the two concrete stores share word for word.\<close>

definition valueToRecordInternal :: "int \<Rightarrow> ('k, 'c) store \<Rightarrow> 'c option \<Rightarrow> 'c near_record" where
  "valueToRecordInternal now st content =
     (if timeToLiveMillis st > 0 then NearCacheRecord_new content now (now + timeToLiveMillis st)
      else NearCacheRecord_new content now TIME_NOT_SET)"

definition putRecord :: "('k::linorder, 'v, 'd, 'c) store_kind \<Rightarrow> 'k \<Rightarrow> 'c near_record \<Rightarrow>
    ('k, 'c near_record) sync_map \<Rightarrow> ('k, 'c) store \<Rightarrow> 'c near_record option \<times> ('k, 'c) store" where
  "putRecord kind key record m st =
     (case sm_put key (Some record) m of
        (oldRecord, m') \<Rightarrow>
          (oldRecord, log_stats
             (IncOwnedEntryMemoryCost (getTotalStorageMemoryCost kind key record) #
              (case oldRecord of
                 None \<Rightarrow> []
               | Some old \<Rightarrow> [DecOwnedEntryMemoryCost (getTotalStorageMemoryCost kind key old)]))
             (st\<lparr>records := Some m'\<rparr>)))"

definition rs_putInternal :: "('k::linorder, 'v, 'd, 'c) store_kind \<Rightarrow> int \<Rightarrow> int \<Rightarrow> 'k \<Rightarrow> 'c option res \<Rightarrow>
    (('k, 'c) store, unit) comp" where
  "rs_putInternal kind now1 now2 key content = with_records (\<lambda>m st.
     if \<not> isEvictionEnabled st \<and> isEvictionRequired st m \<and> \<not> sm_containsKey key m then (Inr (), st)
     else case content of
       Inl e \<Rightarrow> (Inl e, st)
     | Inr c \<Rightarrow>
         (let record = onRecordCreate now2 (valueToRecordInternal now1 st c) in
          case putRecord kind key record m st of
            (oldRecord, st1) \<Rightarrow>
              (Inr (), if oldRecord = None then log_stats [IncOwnedEntryCount] st1 else st1)))"

definition rs_put :: "('k::linorder, 'v, 'd, 'c) store_kind \<Rightarrow> int \<Rightarrow> int \<Rightarrow> 'k \<Rightarrow> 'v option \<Rightarrow>
    (('k, 'c) store, unit) comp" where
  "rs_put kind now1 now2 key v = rs_putInternal kind now1 now2 key (contentOfValue kind v)"

definition rs_put_data :: "('k::linorder, 'v, 'd, 'c) store_kind \<Rightarrow> int \<Rightarrow> int \<Rightarrow> 'k \<Rightarrow> 'd option \<Rightarrow>
    (('k, 'c) store, unit) comp" where
  "rs_put_data kind now1 now2 key d = rs_putInternal kind now1 now2 key (contentOfData kind d)"

definition rs_clear :: "(('k, 'c) store, unit) comp" where
  "rs_clear = with_records (\<lambda>m st.
     (Inr (), log_stats [SetOwnedEntryCount 0, SetOwnedEntryMemoryCost 0] (st\<lparr>records := Some (snd (sm_clear m))\<rparr>)))"

definition rs_destroy :: "(('k, 'c) store, unit) comp" where
  "rs_destroy = with_records (\<lambda>m st.
     (Inr (), log_stats [SetOwnedEntryCount 0, SetOwnedEntryMemoryCost 0] (st\<lparr>records := Some (snd (sm_clear m))\<rparr>)))"

definition rs_size :: "(('k, 'c) store, int) comp" where
  "rs_size = with_records (\<lambda>m st. (Inr (wrap32 (int (sm_size m))), st))"

text \<open>Eviction, with the store itself as the listener.\<close>

definition rs_evict :: "('k::linorder, 'v, 'd, 'c) store_kind \<Rightarrow> evict_env \<Rightarrow> (('k, 'c near_record) sync_map \<Rightarrow> bool option) \<Rightarrow>
    (('k, 'c) store, unit) comp" where
  "rs_evict kind env required = with_records (\<lambda>m st.
     if isEvictionEnabled st then
       (case evictionPolicyEvaluator st of
          None \<Rightarrow> (Inl NullDereference, st)
        | Some cmp \<Rightarrow>
            (case strategy_evict env cmp (required m) (Some (onEvict kind)) m (nearCacheStats st) of
               Inl e \<Rightarrow> (Inl e, st)
             | Inr (n, m', log) \<Rightarrow> (Inr (), st\<lparr>records := Some m', nearCacheStats := log\<rparr>)))
     else (Inr (), st))"

definition rs_doEvictionIfRequired :: "('k::linorder, 'v, 'd, 'c) store_kind \<Rightarrow> evict_env \<Rightarrow> (('k, 'c) store, unit) comp" where
  "rs_doEvictionIfRequired kind env = (\<lambda>st. rs_evict kind env (\<lambda>m. Some (isEvictionRequired st m)) st)"

definition rs_doEviction :: "('k::linorder, 'v, 'd, 'c) store_kind \<Rightarrow> evict_env \<Rightarrow> (('k, 'c) store, unit) comp" where
  "rs_doEviction kind env = rs_evict kind env (\<lambda>m. None)"

text \<open>
  \<open>doExpiration\<close> of the heap stores; \<open>clock key\<close> is the reading when that entry is examined. It
  dereferences the record map and the records without a check.
\<close>

fun expire_entries :: "('k::linorder, 'v, 'd, 'c) store_kind \<Rightarrow> ('k \<Rightarrow> int) \<Rightarrow> ('k \<times> 'c near_record option) list \<Rightarrow>
    (('k, 'c) store, unit) comp" where
  "expire_entries kind clock [] = retM ()"
| "expire_entries kind clock ((key, r) # entries) = (\<lambda>st.
     case r of
       None \<Rightarrow> (Inl NullDereference, st)
     | Some record \<Rightarrow>
         if isRecordExpired (clock key) st record then
           bindM (rs_invalidate kind key) (\<lambda>_. bindM onExpire (\<lambda>_. expire_entries kind clock entries)) st
         else expire_entries kind clock entries st)"

definition rs_doExpiration :: "('k::linorder, 'v, 'd, 'c) store_kind \<Rightarrow> ('k \<Rightarrow> int) \<Rightarrow> (('k, 'c) store, unit) comp" where
  "rs_doExpiration kind clock st =
     (case records st of
        None \<Rightarrow> (Inl NullDereference, st)
      | Some m \<Rightarrow> expire_entries kind clock (sm_entrySet m) st)"

section \<open>The two concrete stores\<close>

text \<open>
  Conversions to and from serialized values, and the sizes the costs are made of.
\<close>

record ('k, 'v, 'd) value_codec =
  vc_toData :: "'v \<Rightarrow> 'd res"
  vc_toObject :: "'d \<Rightarrow> 'v option res"
  vc_keySize :: "'k \<Rightarrow> int"
  vc_dataSize :: "'d \<Rightarrow> int"
  vc_referenceSize :: int
  vc_atomic64Size :: int
  vc_atomic32Size :: int

definition store_toData :: "('k, 'v, 'd) value_codec \<Rightarrow> 'v option \<Rightarrow> 'd option res" where
  "store_toData vc obj = (case obj of None \<Rightarrow> Inr None | Some v \<Rightarrow> bindR (vc_toData vc v) (\<lambda>d. Inr (Some d)))"

definition dataToValue :: "('k, 'v, 'd) value_codec \<Rightarrow> 'd option \<Rightarrow> 'v option res" where
  "dataToValue vc data = (case data of None \<Rightarrow> Inr None | Some d \<Rightarrow> vc_toObject vc d)"

definition store_toValue :: "('k, 'v, 'd) value_codec \<Rightarrow> 'd option \<Rightarrow> 'v option res" where
  "store_toValue vc obj = (case obj of None \<Rightarrow> Inr None | Some d \<Rightarrow> dataToValue vc (Some d))"

definition cached_of :: "'v option \<Rightarrow> 'v cached" where
  "cached_of v = (case v of None \<Rightarrow> NotCached | Some x \<Rightarrow> Cached x)"

definition data_key_cost :: "('k, 'v, 'd) value_codec \<Rightarrow> 'k \<Rightarrow> int" where
  "data_key_cost vc key = vc_referenceSize vc + vc_keySize vc key"

definition data_record_cost :: "('k, 'v, 'd) value_codec \<Rightarrow> 'd near_record \<Rightarrow> int" where
  "data_record_cost vc record =
     vc_referenceSize vc + vc_referenceSize vc
     + (case rec_value record of None \<Rightarrow> 0 | Some d \<Rightarrow> vc_dataSize vc d)
     + 3 * vc_atomic64Size vc + vc_referenceSize vc + vc_atomic32Size vc"

definition data_recordToValue :: "('k, 'v, 'd) value_codec \<Rightarrow> 'd near_record \<Rightarrow> stats_call list \<times> 'v cached res" where
  "data_recordToValue vc record =
     (case rec_value record of
        None \<Rightarrow> ([IncMisses], Inr NullObject)
      | Some d \<Rightarrow> ([], bindR (dataToValue vc (Some d)) (\<lambda>v. Inr (cached_of v))))"

definition data_store :: "('k, 'v, 'd) value_codec \<Rightarrow> ('k, 'v, 'd, 'd) store_kind" where
  "data_store vc =
     \<lparr>getKeyStorageMemoryCost = data_key_cost vc, getRecordStorageMemoryCost = data_record_cost vc,
      contentOfValue = store_toData vc, contentOfData = Inr, recordToValue = data_recordToValue vc\<rparr>"

definition object_recordToValue :: "'v near_record \<Rightarrow> stats_call list \<times> 'v cached res" where
  "object_recordToValue record = ([], Inr (case rec_value record of None \<Rightarrow> NullObject | Some v \<Rightarrow> Cached v))"

definition object_store :: "('k, 'v, 'd) value_codec \<Rightarrow> ('k, 'v, 'd, 'v) store_kind" where
  "object_store vc =
     \<lparr>getKeyStorageMemoryCost = (\<lambda>_. 0), getRecordStorageMemoryCost = (\<lambda>_. 0),
      contentOfValue = Inr, contentOfData = store_toValue vc, recordToValue = object_recordToValue\<rparr>"

section \<open>The store invariant\<close>

definition entry_cost :: "('k, 'v, 'd, 'c) store_kind \<Rightarrow> 'k \<times> 'c near_record option \<Rightarrow> int" where
  "entry_cost kind e = (case snd e of None \<Rightarrow> 0 | Some r \<Rightarrow> getTotalStorageMemoryCost kind (fst e) r)"

definition total_cost :: "('k, 'v, 'd, 'c) store_kind \<Rightarrow> ('k, 'c near_record) sync_map \<Rightarrow> int" where
  "total_cost kind m = (\<Sum>e\<leftarrow>m. entry_cost kind e)"

text \<open>
  The record map is a map of non-null records, and the owned-entry counters are the number of
  records and the sum of their costs.
\<close>

definition stats_agree :: "('k::linorder, 'v, 'd, 'c) store_kind \<Rightarrow> ('k, 'c near_record) sync_map \<Rightarrow> stats_call list \<Rightarrow> bool" where
  "stats_agree kind m log = (sm_ok m \<and> sm_full m
     \<and> ownedEntryCount log = int (sm_size m) \<and> ownedEntryMemoryCost log = total_cost kind m)"

definition store_inv :: "('k::linorder, 'v, 'd, 'c) store_kind \<Rightarrow> ('k, 'c) store \<Rightarrow> bool" where
  "store_inv kind st = (case records st of None \<Rightarrow> False | Some m \<Rightarrow> stats_agree kind m (nearCacheStats st))"

definition st_map :: "('k, 'c) store \<Rightarrow> ('k, 'c near_record) sync_map" where
  "st_map st = (case records st of None \<Rightarrow> [] | Some m \<Rightarrow> m)"

definition store_abs :: "('k::linorder, 'c) store \<Rightarrow> 'k \<Rightarrow> 'c near_record option" where
  "store_abs st key = sm_get key (st_map st)"

definition same_settings :: "('k, 'c) store \<Rightarrow> ('k, 'c) store \<Rightarrow> bool" where
  "same_settings st st' \<longleftrightarrow> st' = st\<lparr>records := records st', nearCacheStats := nearCacheStats st'\<rparr>"

lemma same_settings_refl [simp]: "same_settings st st"
  by (simp add: same_settings_def)

lemma same_settings_trans: "same_settings a b \<Longrightarrow> same_settings b c \<Longrightarrow> same_settings a c"
  unfolding same_settings_def
  by (metis (no_types, lifting) store.surjective store.update_convs(1,2))

lemma same_settings_fields:
  assumes "same_settings st st'"
  shows "isEvictionEnabled st' = isEvictionEnabled st" "isEvictionRequired st' = isEvictionRequired st"
    "maxSizeChecker st' = maxSizeChecker st" "maxIdleMillis st' = maxIdleMillis st"
    "timeToLiveMillis st' = timeToLiveMillis st" "evictionPolicyEvaluator st' = evictionPolicyEvaluator st"
    "nearCacheConfig st' = nearCacheConfig st"
  using assms unfolding same_settings_def isEvictionEnabled_def isEvictionRequired_def [abs_def]
  by (metis store.select_convs store.surjective store.update_convs(1,2))+

lemma stats_append [simp]:
  "ownedEntryCount (log @ cs) = foldl count_step (ownedEntryCount log) cs"
  "ownedEntryMemoryCost (log @ cs) = foldl memory_step (ownedEntryMemoryCost log) cs"
  by (simp_all add: ownedEntryCount_def ownedEntryMemoryCost_def)

lemma total_cost_simps [simp]:
  "total_cost kind [] = 0" "total_cost kind (e # m) = entry_cost kind e + total_cost kind m"
  by (simp_all add: total_cost_def)

lemma entry_cost_simps [simp]:
  "entry_cost kind (k, None) = 0" "entry_cost kind (k, Some r) = getTotalStorageMemoryCost kind k r"
  by (simp_all add: entry_cost_def)

lemma total_cost_assign:
  "sm_ok m \<Longrightarrow> total_cost kind (sm_assign k v m)
     = total_cost kind m + entry_cost kind (k, v) - entry_cost kind (k, sm_at k m)"
  by (induction m) (auto simp: sm_at_def entry_cost_def dest!: map_of_SomeD split: option.splits)

lemma total_cost_erase:
  "sm_ok m \<Longrightarrow> total_cost kind (sm_erase k m) = total_cost kind m - entry_cost kind (k, sm_at k m)"
proof (induction m)
  case (Cons e m)
  show ?case
  proof (cases "fst e = k")
    case True
    then have "k \<notin> fst ` set m" using Cons.prems by auto
    then have "sm_erase k m = m" by (auto simp: sm_erase_def filter_id_conv)
    then show ?thesis using True by (cases e) (simp add: sm_erase_def sm_at_def)
  next
    case False
    then show ?thesis using Cons by (simp add: sm_erase_def sm_at_def)
  qed
qed (simp add: sm_erase_def sm_at_def entry_cost_def)

lemma sm_size_assign:
  assumes "sm_ok m" "sm_full m"
  shows "int (sm_size (sm_assign k (Some r) m)) = int (sm_size m) + (if sm_get k m = None then 1 else 0)"
  using sync.put_size [OF assms, of k r] by (simp add: sm_put_def Let_def)

lemma store_invE:
  assumes "store_inv kind st"
  obtains m where "records st = Some m" "stats_agree kind m (nearCacheStats st)" "st_map st = m"
  using assms by (auto simp: store_inv_def st_map_def split: option.splits)

lemma invalidate_ok:
  assumes "store_inv kind st"
  shows "\<exists>st'. rs_invalidate kind key st = (Inr (store_abs st key \<noteq> None), st') \<and> store_inv kind st'
    \<and> same_settings st st' \<and> store_abs st' = (store_abs st)(key := None) \<and> sm_size (st_map st') \<le> sm_size (st_map st)"
proof -
  obtain m where m: "records st = Some m" "stats_agree kind m (nearCacheStats st)" "st_map st = m"
    using assms by (rule store_invE)
  obtain r m' where rm: "sm_remove key m = (r, m')" by fastforce
  have ok: "sm_ok m" "sm_full m" using m by (auto simp: stats_agree_def)
  note step = rm_evict_step [OF ok rm]
  have get: "sm_get key m = r" "sm_get j m' = (if j = key then None else sm_get j m)" for j
    using ok step by (simp_all add: sync.get_law)
  have m': "m' = (if r = None then m' else sm_erase key m)" "r = None \<Longrightarrow> m' = m \<or> m' = sm_erase key m"
    using rm by (auto simp: sm_remove_def split: if_splits)
  have at: "sm_at key m = r" using step(4) by (simp add: sm_abs_def)
  have c: "total_cost kind m' = total_cost kind m - entry_cost kind (key, r)"
  proof (cases r)
    case None
    then have "m' = m \<or> m' = sm_erase key m" by (rule m'(2))
    then show ?thesis using None total_cost_erase [OF ok(1), of kind key] at by auto
  next
    case (Some a)
    then have "m' = sm_erase key m" using m'(1) by simp
    then show ?thesis using total_cost_erase [OF ok(1), of kind key] at by simp
  qed
  show ?thesis
    using m step(1,2,5) get rm c
    by (cases r)
      (simp_all add: rs_invalidate_def with_records_def log_stats_def store_inv_def stats_agree_def
        same_settings_def store_abs_def [abs_def] st_map_def fun_eq_iff)
qed

lemma clear_ok:
  assumes "store_inv kind st"
  shows "\<exists>st'. rs_clear st = (Inr (), st') \<and> store_inv kind st' \<and> same_settings st st'
    \<and> store_abs st' = (\<lambda>_. None) \<and> st_map st' = []"
proof -
  obtain m where "records st = Some m" using assms by (rule store_invE)
  then show ?thesis
    by (simp add: rs_clear_def with_records_def sm_clear_def log_stats_def store_inv_def stats_agree_def
        same_settings_def store_abs_def [abs_def] st_map_def sm_full_def sm_size_def sm_get_def
        sm_containsKey_def ownedEntryCount_def ownedEntryMemoryCost_def)
qed

lemma putInternal_ok:
  assumes inv: "store_inv kind st"
    and room: "isEvictionEnabled st \<or> \<not> isEvictionRequired st (st_map st) \<or> store_abs st key \<noteq> None"
  shows "\<exists>st'. rs_putInternal kind now1 now2 key (Inr c) st = (Inr (), st') \<and> store_inv kind st'
    \<and> same_settings st st'
    \<and> store_abs st' = (store_abs st)(key \<mapsto> onRecordCreate now2 (valueToRecordInternal now1 st c))
    \<and> sm_size (st_map st') = (if store_abs st key = None then sm_size (st_map st) + 1 else sm_size (st_map st))"
proof -
  let ?r = "onRecordCreate now2 (valueToRecordInternal now1 st c)"
  obtain m where m: "records st = Some m" "stats_agree kind m (nearCacheStats st)" "st_map st = m"
    using inv by (rule store_invE)
  have ok: "sm_ok m" "sm_full m" using m by (auto simp: stats_agree_def)
  let ?m = "sm_assign key (Some ?r) m"
  have put: "sm_put key (Some ?r) m = (sm_get key m, ?m)"
    by (simp add: sm_put_def sm_get_def)
  have get: "sm_get j ?m = (if j = key then Some ?r else sm_get j m)" for j
    using sync.put_get [OF ok(1), of key "Some ?r"] sync.put_get_other [OF ok(1), of j key "Some ?r"] put by simp
  have at: "sm_at key m = sm_get key m"
    by (simp add: sm_get_def sm_at_def sm_containsKey_def)
  have agree: "sm_ok ?m" "sm_full ?m" using ok by (simp_all add: sm_full_assign)
  have room': "(\<not> isEvictionEnabled st \<and> isEvictionRequired st m \<and> \<not> sm_containsKey key m) = False"
    using room m(3) by (auto simp: store_abs_def sm_get_def)
  have size: "sm_size ?m = (if sm_get key m = None then sm_size m + 1 else sm_size m)"
    using sync.put_size [OF ok, of key ?r] put by simp
  have cost: "total_cost kind ?m = total_cost kind m + entry_cost kind (key, Some ?r) - entry_cost kind (key, sm_get key m)"
    using at by (simp add: total_cost_assign [OF ok(1)])
  show ?thesis
    using m put get agree size cost
    by (cases "sm_get key m")
      (simp_all only: rs_putInternal_def with_records_def option.case room' if_False,
       simp_all add: putRecord_def Let_def log_stats_def store_inv_def
        stats_agree_def same_settings_def store_abs_def [abs_def] st_map_def fun_eq_iff)
qed

lemma putInternal_skip:
  assumes "store_inv kind st" "\<not> isEvictionEnabled st" "isEvictionRequired st (st_map st)" "store_abs st key = None"
  shows "rs_putInternal kind now1 now2 key c st = (Inr (), st)"
proof -
  obtain m where m: "records st = Some m" "stats_agree kind m (nearCacheStats st)" "st_map st = m"
    using assms(1) by (rule store_invE)
  have "\<not> sm_containsKey key m"
    using m assms(4) sm_full_at [of m key] by (auto simp: store_abs_def sm_get_def sm_at_def sm_containsKey_def stats_agree_def split: if_splits option.splits)
  then show ?thesis
    using m assms by (simp add: rs_putInternal_def with_records_def)
qed

lemma evict_log: "onEvict kind k r False log = log @ [IncEvictions, DecOwnedEntryCount,
    DecOwnedEntryMemoryCost (getTotalStorageMemoryCost kind k r)]"
  by (simp add: onEvict_def)

lemma evict_ok:
  assumes inv: "store_inv kind st" and en: "isEvictionEnabled st" "evictionPolicyEvaluator st = Some (Some f)"
    and m: "st_map st \<noteq> []" "sm_size (st_map st) < 2 ^ 31" and req: "required (st_map st) \<in> {None, Some True}"
  shows "\<exists>st' k r. rs_evict kind env required st = (Inr (), st') \<and> store_inv kind st' \<and> same_settings st st'
    \<and> store_abs st k = Some r \<and> store_abs st' = (store_abs st)(k := None)
    \<and> sm_size (st_map st) = sm_size (st_map st') + 1"
proof -
  obtain m where mm: "records st = Some m" "stats_agree kind m (nearCacheStats st)" "st_map st = m"
    using inv by (rule store_invE)
  have ok: "sm_ok m" "sm_full m" using mm by (auto simp: stats_agree_def)
  obtain k r where e: "(k, Some r) \<in> set m"
    "evictInternal env (Some f) (Some (onEvict kind)) m (nearCacheStats st)
      = Inr (1, sm_erase k m, onEvict kind k r False (nearCacheStats st))"
    using evictInternal_one [OF ok, of env f "Some (onEvict kind)" "nearCacheStats st"] m mm(3)
    by (auto simp: sm_size_def)
  have at: "map_of m k = Some (Some r)" using e(1) sm_ok_distinct [OF ok(1)] by simp
  have rm: "sm_remove k m = (Some r, sm_erase k m)"
    using at by (simp add: sm_remove_def sm_containsKey_def sm_at_def)
  note step = rm_evict_step [OF ok rm]
  have c: "total_cost kind (sm_erase k m) = total_cost kind m - entry_cost kind (k, Some r)"
    using total_cost_erase [OF ok(1), of kind k] at by (simp add: sm_at_def)
  let ?st = "st\<lparr>records := Some (sm_erase k m), nearCacheStats := onEvict kind k r False (nearCacheStats st)\<rparr>"
  have "rs_evict kind env required st = (Inr (), ?st)"
    using mm en e(2) req by (auto simp: rs_evict_def with_records_def strategy_evict_def)
  moreover have "store_inv kind ?st"
    using mm(2) step(1,2,5) c by (simp add: store_inv_def stats_agree_def evict_log)
  moreover have "store_abs st k = Some r" "store_abs ?st = (store_abs st)(k := None)"
    using mm step(1,3) ok step(4) [symmetric]
    by (simp_all add: sync.get_law store_abs_def [abs_def] st_map_def fun_eq_iff)
  moreover have "sm_size (st_map st) = sm_size (st_map ?st) + 1" using step(5) mm by (simp add: st_map_def)
  moreover have "same_settings st ?st" by (simp add: same_settings_def)
  ultimately show ?thesis by blast
qed

section \<open>Reads and expiration\<close>

text \<open>
  What the abstract store needs of the overridden methods: touching a record does not change its
  cost, and turning it into a value leaves the owned-entry counters alone.
\<close>

locale record_kind =
  fixes kind :: "('k::linorder, 'v, 'd, 'c) store_kind"
  assumes cost_access: "getRecordStorageMemoryCost kind (onRecordAccess now r) = getRecordStorageMemoryCost kind r"
    and count_neutral: "foldl count_step n (fst (recordToValue kind r)) = n"
    and memory_neutral: "foldl memory_step n (fst (recordToValue kind r)) = n"
begin

lemma get_hit:
  assumes inv: "store_inv kind st" and r: "store_abs st key = Some r" and live: "\<not> isRecordExpired now1 st r"
  shows "\<exists>st'. rs_get kind now1 now2 key st = (snd (recordToValue kind (onRecordAccess now2 r)), st')
    \<and> store_inv kind st' \<and> same_settings st st' \<and> store_abs st' = (store_abs st)(key \<mapsto> onRecordAccess now2 r)
    \<and> sm_size (st_map st') = sm_size (st_map st)"
proof -
  let ?r = "onRecordAccess now2 r"
  obtain m where m: "records st = Some m" "stats_agree kind m (nearCacheStats st)" "st_map st = m"
    using inv by (rule store_invE)
  have ok: "sm_ok m" "sm_full m" using m by (auto simp: stats_agree_def)
  have get: "sm_get key m = Some r" using r m by (simp add: store_abs_def)
  let ?m = "sm_assign key (Some ?r) m"
  have put: "sm_put key (Some ?r) m = (sm_get key m, ?m)" by (simp add: sm_put_def sm_get_def)
  have get': "sm_get j ?m = (if j = key then Some ?r else sm_get j m)" for j
    using sync.put_get [OF ok(1), of key "Some ?r"] sync.put_get_other [OF ok(1), of j key "Some ?r"] put by simp
  have at: "sm_at key m = Some r" using get by (simp add: sm_get_def split: if_splits)
  have "total_cost kind ?m = total_cost kind m"
    by (simp add: total_cost_assign [OF ok(1)] at getTotalStorageMemoryCost_def cost_access)
  moreover have "sm_size ?m = sm_size m" using sync.put_size [OF ok, of key ?r] put get by simp
  moreover have "sm_ok ?m" "sm_full ?m" using ok by (simp_all add: sm_full_assign)
  ultimately have agree: "stats_agree kind ?m (nearCacheStats st @ [IncHits] @ fst (recordToValue kind ?r))"
    using m(2) by (simp add: stats_agree_def count_neutral memory_neutral)
  have "rs_get kind now1 now2 key st = (snd (recordToValue kind ?r),
      st\<lparr>records := Some ?m, nearCacheStats := nearCacheStats st @ [IncHits] @ fst (recordToValue kind ?r)\<rparr>)"
    using m(1) get live by (simp add: rs_get_def with_records_def Let_def log_stats_def split: prod.split)
  then show ?thesis
    using agree get' m(3) \<open>sm_size ?m = sm_size m\<close>
    by (simp add: store_inv_def same_settings_def store_abs_def [abs_def] st_map_def fun_eq_iff)
qed

end

lemma get_miss:
  assumes inv: "store_inv kind st" and r: "store_abs st key = None"
  shows "\<exists>st'. rs_get kind now1 now2 key st = (Inr NotCached, st') \<and> store_inv kind st' \<and> same_settings st st'
    \<and> store_abs st' = store_abs st \<and> sm_size (st_map st') = sm_size (st_map st)"
proof -
  obtain m where m: "records st = Some m" "stats_agree kind m (nearCacheStats st)" "st_map st = m"
    using inv by (rule store_invE)
  have "sm_get key m = None" using r m by (simp add: store_abs_def)
  then show ?thesis
    using m by (simp add: rs_get_def with_records_def log_stats_def store_inv_def stats_agree_def
        same_settings_def store_abs_def [abs_def] st_map_def)
qed

lemma log_expire:
  assumes "store_inv kind st"
  shows "store_inv kind (log_stats [IncExpirations] st)" "same_settings st (log_stats [IncExpirations] st)"
    "store_abs (log_stats [IncExpirations] st) = store_abs st" "st_map (log_stats [IncExpirations] st) = st_map st"
  using assms
  by (auto simp: store_inv_def stats_agree_def log_stats_def same_settings_def store_abs_def [abs_def]
      st_map_def split: option.splits)

lemma expire_one:
  assumes "store_inv kind st"
  shows "\<exists>st'. bindM (rs_invalidate kind key) (\<lambda>_. bindM onExpire (\<lambda>_. f)) st = f st' \<and> store_inv kind st'
    \<and> same_settings st st' \<and> store_abs st' = (store_abs st)(key := None)
    \<and> sm_size (st_map st') \<le> sm_size (st_map st)"
proof -
  obtain st1 where s: "rs_invalidate kind key st = (Inr (store_abs st key \<noteq> None), st1)" "store_inv kind st1"
    "same_settings st st1" "store_abs st1 = (store_abs st)(key := None)" "sm_size (st_map st1) \<le> sm_size (st_map st)"
    using invalidate_ok [OF assms] by blast
  then show ?thesis
    using log_expire [OF s(2)] same_settings_trans [OF s(3)]
    by (intro exI [of _ "log_stats [IncExpirations] st1"]) (simp add: bindM_def onExpire_def)
qed

lemma get_expired:
  assumes inv: "store_inv kind st" and r: "store_abs st key = Some r" and ex: "isRecordExpired now1 st r"
  shows "\<exists>st'. rs_get kind now1 now2 key st = (Inr NotCached, st') \<and> store_inv kind st' \<and> same_settings st st'
    \<and> store_abs st' = (store_abs st)(key := None) \<and> sm_size (st_map st') \<le> sm_size (st_map st)"
proof -
  obtain m where m: "records st = Some m" "st_map st = m" using inv by (rule store_invE)
  have "sm_get key m = Some r" using r m by (simp add: store_abs_def)
  then have "rs_get kind now1 now2 key st
      = bindM (rs_invalidate kind key) (\<lambda>_. bindM onExpire (\<lambda>_. retM NotCached)) st"
    using m ex by (simp add: rs_get_def with_records_def)
  then show ?thesis
    using expire_one [OF inv, of key "retM NotCached"] by (auto simp: retM_def)
qed

definition live_part :: "('k::linorder \<Rightarrow> int) \<Rightarrow> ('k, 'c) store \<Rightarrow> 'k \<Rightarrow> 'c near_record option" where
  "live_part clock st k =
     (case store_abs st k of None \<Rightarrow> None | Some r \<Rightarrow> if isRecordExpired (clock k) st r then None else Some r)"

lemma expire_entries_ok:
  assumes "store_inv kind st" "\<forall>(k, r) \<in> set es. r \<noteq> None \<and> store_abs st k = r" "distinct (map fst es)"
  shows "\<exists>st'. expire_entries kind clock es st = (Inr (), st') \<and> store_inv kind st' \<and> same_settings st st'
    \<and> store_abs st' = (\<lambda>k. if k \<in> fst ` set es then live_part clock st k else store_abs st k)
    \<and> sm_size (st_map st') \<le> sm_size (st_map st)"
  using assms
proof (induction es arbitrary: st)
  case Nil
  then show ?case by (simp add: retM_def)
next
  case (Cons e es)
  obtain k r where e: "e = (k, Some r)" "store_abs st k = Some r" using Cons.prems(2) by (cases e) auto
  have k: "k \<notin> fst ` set es" using Cons.prems(3) e by simp
  show ?case
  proof (cases "isRecordExpired (clock k) st r")
    case True
    obtain st1 where s: "expire_entries kind clock (e # es) st = expire_entries kind clock es st1"
      "store_inv kind st1" "same_settings st st1" "store_abs st1 = (store_abs st)(k := None)"
      "sm_size (st_map st1) \<le> sm_size (st_map st)"
      using expire_one [OF Cons.prems(1), of k "expire_entries kind clock es"] e True by auto
    have "\<forall>(j, x) \<in> set es. x \<noteq> None \<and> store_abs st1 j = x"
      using Cons.prems(2) s(4) k by force
    then obtain st2 where s2: "expire_entries kind clock es st1 = (Inr (), st2)" "store_inv kind st2"
      "same_settings st1 st2" "store_abs st2 = (\<lambda>j. if j \<in> fst ` set es then live_part clock st1 j else store_abs st1 j)"
      "sm_size (st_map st2) \<le> sm_size (st_map st1)"
      using Cons.IH [OF s(2)] Cons.prems(3) by auto
    have "live_part clock st1 j = live_part clock st j" if "j \<noteq> k" for j
      using that s(4) same_settings_fields(4) [OF s(3)] by (simp add: live_part_def isRecordExpired_def split: option.split)
    then have "store_abs st2 = (\<lambda>j. if j \<in> fst ` set (e # es) then live_part clock st j else store_abs st j)"
      using s2(4) s(4) e k True by (auto simp: fun_eq_iff live_part_def)
    then show ?thesis
      using s s2 same_settings_trans [OF s(3) s2(3)] by (intro exI [of _ st2]) simp
  next
    case False
    have "\<exists>st'. expire_entries kind clock es st = (Inr (), st') \<and> store_inv kind st' \<and> same_settings st st'
        \<and> store_abs st' = (\<lambda>k. if k \<in> fst ` set es then live_part clock st k else store_abs st k)
        \<and> sm_size (st_map st') \<le> sm_size (st_map st)"
      by (rule Cons.IH) (use Cons.prems in auto)
    moreover have "live_part clock st k = store_abs st k" using e False by (simp add: live_part_def)
    ultimately show ?thesis using e False k by (auto simp: fun_eq_iff)
  qed
qed

lemma doExpiration_ok:
  assumes inv: "store_inv kind st"
  shows "\<exists>st'. rs_doExpiration kind clock st = (Inr (), st') \<and> store_inv kind st' \<and> same_settings st st'
    \<and> store_abs st' = live_part clock st \<and> sm_size (st_map st') \<le> sm_size (st_map st)"
proof -
  obtain m where m: "records st = Some m" "stats_agree kind m (nearCacheStats st)" "st_map st = m"
    using inv by (rule store_invE)
  have ok: "sm_ok m" "sm_full m" using m by (auto simp: stats_agree_def)
  have "store_abs st k = r" "r \<noteq> None" if "(k, r) \<in> set m" for k r
    using that m(3) ok sm_ok_distinct [OF ok(1)]
    by (auto simp: store_abs_def sm_get_def sm_containsKey_def sm_at_def sm_full_def)
  then have all: "\<forall>(k, r) \<in> set m. r \<noteq> None \<and> store_abs st k = r" by blast
  obtain st' where st': "expire_entries kind clock m st = (Inr (), st')" "store_inv kind st'" "same_settings st st'"
    "store_abs st' = (\<lambda>k. if k \<in> fst ` set m then live_part clock st k else store_abs st k)"
    "sm_size (st_map st') \<le> sm_size (st_map st)"
    using expire_entries_ok [OF inv all sm_ok_distinct [OF ok(1)]] by blast
  have "store_abs st k = None" if "k \<notin> fst ` set m" for k
    using that m(3) by (auto simp: store_abs_def sm_get_def sm_containsKey_def map_of_eq_None_iff)
  then have "store_abs st' = live_part clock st"
    using st'(4) by (auto simp: fun_eq_iff live_part_def)
  then show ?thesis
    using st' m(1) by (simp add: rs_doExpiration_def sm_entrySet_def)
qed

interpretation data_kind: record_kind "data_store vc" for vc :: "('k::linorder, 'v, 'd) value_codec"
  by unfold_locales
    (auto simp: data_store_def data_record_cost_def onRecordAccess_def incrementAccessHit_def setAccessTime_def
      data_recordToValue_def split: option.splits)

interpretation object_kind: record_kind "object_store vc" for vc :: "('k::linorder, 'v, 'd) value_codec"
  by unfold_locales (auto simp: object_store_def object_recordToValue_def)

end
