(* ===== verification/Near_Cache.thy ===== *)
theory Near_Cache
  imports Record_Store
begin

text \<open>
  The near cache: \<open>nearcache/impl/DefaultNearCache.h\<close> with its expiration task, the wrapper that
  tells the key-state marker about invalidations (\<open>map/impl/nearcache/InvalidationAwareWrapper.h\<close>) and
  \<open>NearCacheManager.h\<close>. Keys arrive as shared pointers, a null one is \<open>None\<close>.
\<close>

section \<open>DefaultNearCache\<close>

record expiration_task =
  expirationInProgress :: bool
  cancelled :: bool

record ('k, 'c) near_cache =
  nearCacheRecordStore :: "('k, 'c) store option"
  ncConfig :: "('k, 'c) comparator NearCacheConfig"
  expirationTaskFuture :: "expiration_task option"

definition DefaultNearCache :: "('k, 'c) comparator NearCacheConfig \<Rightarrow> ('k, 'c) near_cache" where
  "DefaultNearCache config =
     \<lparr>nearCacheRecordStore = None, ncConfig = config, expirationTaskFuture = None\<rparr>"

text \<open>The in-memory format chooses the concrete store.\<close>

definition createNearCacheRecordStore :: "('k, 'v, 'd) value_codec \<Rightarrow> InMemoryFormat \<Rightarrow>
    ('k, 'v, 'd, 'd) store_kind + ('k, 'v, 'd, 'v) store_kind" where
  "createNearCacheRecordStore vc format =
     (case format of BINARY \<Rightarrow> Inl (data_store vc) | OBJECT \<Rightarrow> Inr (object_store vc))"

definition ExpirationTask_new :: expiration_task where
  "ExpirationTask_new = \<lparr>expirationInProgress = False, cancelled = False\<rparr>"

text \<open>\<open>schedule\<close> starts a thread on a new task object; its own flag is only set back.\<close>

definition schedule :: "expiration_task \<Rightarrow> expiration_task \<times> expiration_task" where
  "schedule this = (this\<lparr>cancelled := False\<rparr>, ExpirationTask_new)"

definition cancel :: "expiration_task \<Rightarrow> bool \<times> expiration_task" where
  "cancel this = (if cancelled this then (False, this) else (True, this\<lparr>cancelled := True\<rparr>))"

definition createAndScheduleExpirationTask :: "('k, 'c) near_cache \<Rightarrow> (expiration_task \<times> expiration_task) option" where
  "createAndScheduleExpirationTask nc =
     (if maxIdleSeconds (ncConfig nc) > 0 \<or> timeToLiveSeconds (ncConfig nc) > 0
      then Some (schedule ExpirationTask_new) else None)"

definition on_store :: "(('k, 'c) store, 'a) comp \<Rightarrow> (('k, 'c) near_cache, 'a) comp" where
  "on_store f nc =
     (case nearCacheRecordStore nc of
        None \<Rightarrow> (Inl NullDereference, nc)
      | Some st \<Rightarrow> (case f st of (r, st') \<Rightarrow> (r, nc\<lparr>nearCacheRecordStore := Some st'\<rparr>)))"

definition nc_initialize :: "EvictionPolicyType \<Rightarrow> (('k, 'c) near_cache, unit) comp" where
  "nc_initialize junk nc =
     (let nc1 = (if nearCacheRecordStore nc = None
                 then nc\<lparr>nearCacheRecordStore := Some (RecordStore_new junk (ncConfig nc))\<rparr> else nc)
      in bindM (on_store rs_initialize)
           (\<lambda>_ nc2. (Inr (), nc2\<lparr>expirationTaskFuture := map_option fst (createAndScheduleExpirationTask nc2)\<rparr>)) nc1)"

definition checked :: "'k option \<Rightarrow> ('k \<Rightarrow> ('s, 'a) comp) \<Rightarrow> ('s, 'a) comp" where
  "checked key f = (case checkNotNull key of Inl e \<Rightarrow> throwM e | Inr k \<Rightarrow>
     (case k of None \<Rightarrow> throwM NullPointerException | Some x \<Rightarrow> f x))"

definition nc_get :: "('k::linorder, 'v, 'd, 'c) store_kind \<Rightarrow> int \<Rightarrow> int \<Rightarrow> 'k option \<Rightarrow>
    (('k, 'c) near_cache, 'v cached) comp" where
  "nc_get kind now1 now2 key = checked key (\<lambda>k. on_store (rs_get kind now1 now2 k))"

definition nc_put :: "('k::linorder, 'v, 'd, 'c) store_kind \<Rightarrow> evict_env \<Rightarrow> int \<Rightarrow> int \<Rightarrow> 'k option \<Rightarrow> 'v option \<Rightarrow>
    (('k, 'c) near_cache, unit) comp" where
  "nc_put kind env now1 now2 key v = checked key (\<lambda>k.
     bindM (on_store (rs_doEvictionIfRequired kind env)) (\<lambda>_. on_store (rs_put kind now1 now2 k v)))"

definition nc_put_data :: "('k::linorder, 'v, 'd, 'c) store_kind \<Rightarrow> evict_env \<Rightarrow> int \<Rightarrow> int \<Rightarrow> 'k option \<Rightarrow> 'd option \<Rightarrow>
    (('k, 'c) near_cache, unit) comp" where
  "nc_put_data kind env now1 now2 key d = checked key (\<lambda>k.
     bindM (on_store (rs_doEvictionIfRequired kind env)) (\<lambda>_. on_store (rs_put_data kind now1 now2 k d)))"

definition nc_invalidate :: "('k::linorder, 'v, 'd, 'c) store_kind \<Rightarrow> 'k option \<Rightarrow> (('k, 'c) near_cache, bool) comp" where
  "nc_invalidate kind key = checked key (\<lambda>k. on_store (rs_invalidate kind k))"

definition nc_isInvalidatedOnChange :: "('k, 'c) near_cache \<Rightarrow> bool" where
  "nc_isInvalidatedOnChange nc = cfg_invalidateOnChange (ncConfig nc)"

definition nc_clear :: "(('k, 'c) near_cache, unit) comp" where
  "nc_clear = on_store rs_clear"

definition nc_destroy :: "(('k, 'c) near_cache, unit) comp" where
  "nc_destroy nc =
     on_store rs_destroy (nc\<lparr>expirationTaskFuture := map_option (snd \<circ> cancel) (expirationTaskFuture nc)\<rparr>)"

definition nc_size :: "(('k, 'c) near_cache, int) comp" where
  "nc_size = on_store rs_size"

text \<open>
  One turn of the expiration thread's loop: the flag guards the call and is cleared only when the
  call throws.
\<close>

definition task_turn :: "('k::linorder, 'v, 'd, 'c) store_kind \<Rightarrow> ('k \<Rightarrow> int) \<Rightarrow>
    expiration_task \<times> ('k, 'c) store \<Rightarrow> expiration_task \<times> ('k, 'c) store" where
  "task_turn kind clock s =
     (case s of (task, st) \<Rightarrow>
       if cancelled task then (task, st)
       else if expirationInProgress task then (task, st)
       else (case rs_doExpiration kind clock st of
               (Inr _, st') \<Rightarrow> (task\<lparr>expirationInProgress := True\<rparr>, st')
             | (Inl _, st') \<Rightarrow> (task\<lparr>expirationInProgress := False\<rparr>, st')))"

fun task_run :: "('k::linorder, 'v, 'd, 'c) store_kind \<Rightarrow> ('k \<Rightarrow> int) list \<Rightarrow>
    expiration_task \<times> ('k, 'c) store \<Rightarrow> expiration_task \<times> ('k, 'c) store" where
  "task_run kind [] s = s"
| "task_run kind (clock # clocks) s = task_run kind clocks (task_turn kind clock s)"

section \<open>The invalidation-aware wrapper\<close>

text \<open>
  \<open>KeyStateMarker\<close> is an interface whose implementation the sources declare but do not define: its
  operations are the fields of \<open>marker_ops\<close>.
\<close>

datatype key_state = UNMARKED | MARKED | REMOVED

record ('mk, 'k) marker_ops =
  tryMark :: "'k \<Rightarrow> 'mk \<Rightarrow> bool \<times> 'mk"
  tryUnmark :: "'k \<Rightarrow> 'mk \<Rightarrow> bool \<times> 'mk"
  tryRemove :: "'k \<Rightarrow> 'mk \<Rightarrow> bool \<times> 'mk"
  forceUnmark :: "'k \<Rightarrow> 'mk \<Rightarrow> 'mk"
  marker_init :: "'mk \<Rightarrow> 'mk"

record ('k, 'c, 'mk) aware_cache =
  wrapped :: "('k, 'c) near_cache"
  keyStateMarker :: 'mk

definition asInvalidationAware :: "(nat \<Rightarrow> 'mk) \<Rightarrow> nat \<Rightarrow> ('k, 'c) near_cache \<Rightarrow> ('k, 'c, 'mk) aware_cache" where
  "asInvalidationAware new_marker partitionCount nc = \<lparr>wrapped = nc, keyStateMarker = new_marker partitionCount\<rparr>"

definition on_wrapped :: "(('k, 'c) near_cache, 'a) comp \<Rightarrow> (('k, 'c, 'mk) aware_cache, 'a) comp" where
  "on_wrapped f a = (case f (wrapped a) of (r, nc) \<Rightarrow> (r, a\<lparr>wrapped := nc\<rparr>))"

definition aw_get :: "('k::linorder, 'v, 'd, 'c) store_kind \<Rightarrow> int \<Rightarrow> int \<Rightarrow> 'k option \<Rightarrow>
    (('k, 'c, 'mk) aware_cache, 'v cached) comp" where
  "aw_get kind now1 now2 key = on_wrapped (nc_get kind now1 now2 key)"

definition aw_put :: "('k::linorder, 'v, 'd, 'c) store_kind \<Rightarrow> evict_env \<Rightarrow> int \<Rightarrow> int \<Rightarrow> 'k option \<Rightarrow> 'v option \<Rightarrow>
    (('k, 'c, 'mk) aware_cache, unit) comp" where
  "aw_put kind env now1 now2 key v = on_wrapped (nc_put kind env now1 now2 key v)"

definition aw_put_data :: "('k::linorder, 'v, 'd, 'c) store_kind \<Rightarrow> evict_env \<Rightarrow> int \<Rightarrow> int \<Rightarrow> 'k option \<Rightarrow> 'd option \<Rightarrow>
    (('k, 'c, 'mk) aware_cache, unit) comp" where
  "aw_put_data kind env now1 now2 key d = on_wrapped (nc_put_data kind env now1 now2 key d)"

definition aw_invalidate :: "('k::linorder, 'v, 'd, 'c) store_kind \<Rightarrow> ('mk, 'k) marker_ops \<Rightarrow> 'k \<Rightarrow>
    (('k, 'c, 'mk) aware_cache, bool) comp" where
  "aw_invalidate kind mk key a =
     on_wrapped (nc_invalidate kind (Some key)) (a\<lparr>keyStateMarker := snd (tryRemove mk key (keyStateMarker a))\<rparr>)"

definition aw_clear :: "('mk, 'k) marker_ops \<Rightarrow> (('k, 'c, 'mk) aware_cache, unit) comp" where
  "aw_clear mk a = on_wrapped nc_clear (a\<lparr>keyStateMarker := marker_init mk (keyStateMarker a)\<rparr>)"

definition aw_destroy :: "('mk, 'k) marker_ops \<Rightarrow> (('k, 'c, 'mk) aware_cache, unit) comp" where
  "aw_destroy mk a = on_wrapped nc_destroy (a\<lparr>keyStateMarker := marker_init mk (keyStateMarker a)\<rparr>)"

definition aw_size :: "(('k, 'c, 'mk) aware_cache, int) comp" where
  "aw_size = on_wrapped nc_size"

section \<open>NearCacheManager\<close>

text \<open>Near caches are looked up by name; any ordered type serves as the names.\<close>

type_synonym ('n, 'k, 'c) nc_manager = "('n, ('k, 'c) near_cache) sync_map"

definition getNearCache :: "'n::linorder \<Rightarrow> ('n, 'k, 'c) nc_manager \<Rightarrow> ('k, 'c) near_cache option" where
  "getNearCache name mgr = sm_get name mgr"

definition createNearCache :: "('k, 'c) comparator NearCacheConfig \<Rightarrow> ('k, 'c) near_cache" where
  "createNearCache config = DefaultNearCache config"

definition getOrCreateNearCache :: "EvictionPolicyType \<Rightarrow> 'n::linorder \<Rightarrow> ('k, 'c) comparator NearCacheConfig \<Rightarrow>
    (('n, 'k, 'c) nc_manager, ('k, 'c) near_cache) comp" where
  "getOrCreateNearCache junk name config mgr =
     (case sm_get name mgr of
        Some nc \<Rightarrow> (Inr nc, mgr)
      | None \<Rightarrow>
          (case sm_get name mgr of
             Some nc \<Rightarrow> (Inr nc, mgr)
           | None \<Rightarrow>
               (case nc_initialize junk (createNearCache config) of
                  (Inl e, _) \<Rightarrow> (Inl e, mgr)
                | (Inr _, nc) \<Rightarrow> (Inr nc, snd (sm_put name (Some nc) mgr)))))"

section \<open>Capacity\<close>

definition cap_ok :: "int \<Rightarrow> ('k, 'c) store \<Rightarrow> bool" where
  "cap_ok mx st = (maxSizeChecker st = Some mx \<and> 0 < mx \<and> mx \<le> INT32_MAX \<and> int (sm_size (st_map st)) \<le> mx
     \<and> (isEvictionEnabled st \<longrightarrow> (\<exists>f. evictionPolicyEvaluator st = Some (Some f))))"

lemma isReachedToMaxSize_iff:
  assumes "int (sm_size m) \<le> maxSize" "maxSize \<le> INT32_MAX"
  shows "isReachedToMaxSize maxSize m \<longleftrightarrow> int (sm_size m) = maxSize"
proof -
  have "wrap32 (int (sm_size m)) = int (sm_size m)"
    using assms by (intro wrap32_id) (simp_all add: INT32_MAX_def)
  then show ?thesis using assms(1) by (auto simp: isReachedToMaxSize_def)
qed

lemma cap_ok_settings:
  assumes "same_settings st st'" "cap_ok mx st" "sm_size (st_map st') \<le> sm_size (st_map st)"
  shows "cap_ok mx st'"
  using assms same_settings_fields [OF assms(1)]
  by (auto simp: cap_ok_def split: option.splits)

text \<open>
  Eviction before a put makes room: if the store was full and eviction is enabled one record goes,
  otherwise nothing changes.
\<close>

lemma doEvictionIfRequired_ok:
  assumes inv: "store_inv kind st" and cap: "cap_ok mx st"
  shows "\<exists>st'. rs_doEvictionIfRequired kind env st = (Inr (), st') \<and> store_inv kind st' \<and> same_settings st st'
    \<and> cap_ok mx st' \<and> (\<forall>k. store_abs st' k \<noteq> None \<longrightarrow> store_abs st' k = store_abs st k)
    \<and> (isEvictionEnabled st \<longrightarrow> \<not> isEvictionRequired st' (st_map st'))
    \<and> (\<not> isEvictionEnabled st \<longrightarrow> st' = st)"
proof -
  obtain m where m: "records st = Some m" "st_map st = m" using inv by (rule store_invE)
  have mx: "maxSizeChecker st = Some mx" "0 < mx" "mx \<le> INT32_MAX"
    "int (sm_size m) \<le> mx" "isEvictionEnabled st \<Longrightarrow> \<exists>f. evictionPolicyEvaluator st = Some (Some f)"
    using cap m by (auto simp: cap_ok_def split: option.splits)
  have req: "isEvictionRequired st m \<longleftrightarrow> int (sm_size m) = mx"
    using isReachedToMaxSize_iff mx by (simp add: isEvictionRequired_def)
  consider "\<not> isEvictionEnabled st" | "isEvictionEnabled st" "\<not> isEvictionRequired st m"
    | "isEvictionEnabled st" "isEvictionRequired st m" by blast
  then show ?thesis
  proof cases
    case 1
    then show ?thesis using inv cap m by (simp add: rs_doEvictionIfRequired_def rs_evict_def with_records_def)
  next
    case 2
    have "st\<lparr>records := Some m, nearCacheStats := nearCacheStats st\<rparr> = st" using m(1) by simp
    then have "rs_doEvictionIfRequired kind env st = (Inr (), st)"
      using 2 m(1) mx(5)
      by (auto simp: rs_doEvictionIfRequired_def rs_evict_def with_records_def strategy_evict_def)
    then show ?thesis using 2 inv cap m(2) by simp
  next
    case 3
    obtain f where f: "evictionPolicyEvaluator st = Some (Some f)" using mx(5) 3 by blast
    have "sm_size m \<noteq> 0" "sm_size m < 2 ^ 31" using req 3 mx by (auto simp: INT32_MAX_def)
    then obtain st' k r where e: "rs_evict kind env (\<lambda>m. Some (isEvictionRequired st m)) st = (Inr (), st')"
      "store_inv kind st'" "same_settings st st'" "store_abs st' = (store_abs st)(k := None)"
      "sm_size (st_map st) = sm_size (st_map st') + 1"
      using evict_ok [OF inv 3(1) f, of "\<lambda>m. Some (isEvictionRequired st m)" env] 3(2) m(2)
      by (auto simp: sm_size_def)
    have "cap_ok mx st'" using cap_ok_settings [OF e(3) cap] e(5) by simp
    moreover have "\<not> isEvictionRequired st' (st_map st')"
      using isReachedToMaxSize_iff [of "st_map st'" mx] mx e(5) m(2) same_settings_fields(3) [OF e(3)]
      by (simp add: isEvictionRequired_def)
    ultimately show ?thesis
      using e 3 by (auto simp: rs_doEvictionIfRequired_def split: if_splits)
  qed
qed

section \<open>Every operation keeps the cache bounded and its counters right\<close>

definition nc_inv :: "('k::linorder, 'v, 'd, 'c) store_kind \<Rightarrow> int \<Rightarrow> ('k, 'c) near_cache \<Rightarrow> bool" where
  "nc_inv kind mx nc = (case nearCacheRecordStore nc of None \<Rightarrow> False | Some st \<Rightarrow> store_inv kind st \<and> cap_ok mx st)"

definition nc_abs :: "('k::linorder, 'c) near_cache \<Rightarrow> 'k \<Rightarrow> 'c near_record option" where
  "nc_abs nc = (case nearCacheRecordStore nc of None \<Rightarrow> (\<lambda>_. None) | Some st \<Rightarrow> store_abs st)"

lemma putInternal_cap:
  assumes inv: "store_inv kind st" and cap: "cap_ok mx st"
    and room: "isEvictionEnabled st \<Longrightarrow> \<not> isEvictionRequired st (st_map st)"
  shows "\<exists>r st'. rs_putInternal kind now1 now2 key content st = (r, st') \<and> store_inv kind st'
    \<and> same_settings st st' \<and> cap_ok mx st' \<and> (is_ok content \<longrightarrow> r = Inr ())"
proof (cases "\<not> isEvictionEnabled st \<and> isEvictionRequired st (st_map st) \<and> store_abs st key = None")
  case True
  then show ?thesis using putInternal_skip [OF inv] inv cap by auto
next
  case False
  obtain m where m: "records st = Some m" "st_map st = m" using inv by (rule store_invE)
  show ?thesis
  proof (cases content)
    case (Inl e)
    then have "rs_putInternal kind now1 now2 key content st \<in> {(Inr (), st), (Inl e, st)}"
      using m by (simp add: rs_putInternal_def with_records_def)
    then show ?thesis using Inl inv cap by auto
  next
    case (Inr c)
    have "isEvictionEnabled st \<or> \<not> isEvictionRequired st (st_map st) \<or> store_abs st key \<noteq> None"
      using False by (cases "isEvictionEnabled st") simp_all
    then obtain st' where p: "rs_putInternal kind now1 now2 key (Inr c) st = (Inr (), st')" "store_inv kind st'"
      "same_settings st st'"
      "sm_size (st_map st') = (if store_abs st key = None then sm_size (st_map st) + 1 else sm_size (st_map st))"
      using putInternal_ok [OF inv, of key now1 now2 c] by blast
    have "cap_ok mx st'"
    proof (cases "store_abs st key = None")
      case True
      then have "\<not> isEvictionRequired st m" using False room m by auto
      then have "int (sm_size m) + 1 \<le> mx"
        using cap m isReachedToMaxSize_iff [of m mx]
        by (auto simp: cap_ok_def isEvictionRequired_def split: option.splits)
      then show ?thesis
        using cap p(4) True m same_settings_fields [OF p(3)] by (auto simp: cap_ok_def split: option.splits)
    next
      case False
      then show ?thesis using cap_ok_settings [OF p(3) cap] p(4) by simp
    qed
    then show ?thesis using p Inr by auto
  qed
qed

lemma evict_then_put:
  assumes "nc_inv kind mx nc"
  shows "\<exists>r nc'. bindM (on_store (rs_doEvictionIfRequired kind env))
      (\<lambda>_. on_store (rs_putInternal kind now1 now2 key content)) nc = (r, nc') \<and> nc_inv kind mx nc'
    \<and> (is_ok content \<longrightarrow> r = Inr ())"
proof -
  obtain st where st: "nearCacheRecordStore nc = Some st" "store_inv kind st" "cap_ok mx st"
    using assms by (auto simp: nc_inv_def split: option.splits)
  obtain st1 where e: "rs_doEvictionIfRequired kind env st = (Inr (), st1)" "store_inv kind st1"
    "same_settings st st1" "cap_ok mx st1" "isEvictionEnabled st \<Longrightarrow> \<not> isEvictionRequired st1 (st_map st1)"
    using doEvictionIfRequired_ok [OF st(2,3)] by blast
  obtain r st2 where p: "rs_putInternal kind now1 now2 key content st1 = (r, st2)" "store_inv kind st2"
    "cap_ok mx st2" "is_ok content \<longrightarrow> r = Inr ()"
    using putInternal_cap [OF e(2,4)] e(5) same_settings_fields(1) [OF e(3)] by blast
  show ?thesis
    using st e p by (simp add: bindM_def on_store_def nc_inv_def)
qed

text \<open>The calls a client and the expiration thread make, in any order.\<close>

datatype ('k, 'v, 'd) nc_op =
    NGet int int "'k option"
  | NPut evict_env int int "'k option" "'v option"
  | NPutData evict_env int int "'k option" "'d option"
  | NInvalidate "'k option"
  | NClear
  | NDestroy
  | NSize
  | NExpire "'k \<Rightarrow> int"

fun nc_step :: "('k::linorder, 'v, 'd, 'c) store_kind \<Rightarrow> ('k, 'v, 'd) nc_op \<Rightarrow> ('k, 'c) near_cache \<Rightarrow> ('k, 'c) near_cache" where
  "nc_step kind (NGet now1 now2 key) nc = snd (nc_get kind now1 now2 key nc)"
| "nc_step kind (NPut env now1 now2 key v) nc = snd (nc_put kind env now1 now2 key v nc)"
| "nc_step kind (NPutData env now1 now2 key d) nc = snd (nc_put_data kind env now1 now2 key d nc)"
| "nc_step kind (NInvalidate key) nc = snd (nc_invalidate kind key nc)"
| "nc_step kind NClear nc = snd (nc_clear nc)"
| "nc_step kind NDestroy nc = snd (nc_destroy nc)"
| "nc_step kind NSize nc = snd (nc_size nc)"
| "nc_step kind (NExpire clock) nc = snd (on_store (rs_doExpiration kind clock) nc)"

definition nc_run :: "('k::linorder, 'v, 'd, 'c) store_kind \<Rightarrow> ('k, 'v, 'd) nc_op list \<Rightarrow> ('k, 'c) near_cache \<Rightarrow> ('k, 'c) near_cache" where
  "nc_run kind ops nc = fold (nc_step kind) ops nc"

lemma checked_Some [simp]: "checked (Some k) f = f k"
  by (simp add: checked_def checkNotNull_def)

lemma checked_None [simp]: "checked None f = throwM NullPointerException"
  by (simp add: checked_def checkNotNull_def)

lemma on_store_inv:
  assumes "nc_inv kind mx nc"
    and "\<And>st. store_inv kind st \<Longrightarrow> cap_ok mx st \<Longrightarrow> \<exists>r st'. f st = (r, st') \<and> store_inv kind st' \<and> cap_ok mx st'"
  shows "nc_inv kind mx (snd (on_store f nc))"
  using assms by (force simp: nc_inv_def on_store_def split: option.splits prod.splits)

lemma shrinking_op:
  assumes "\<exists>r st'. f st = (r, st') \<and> store_inv kind st' \<and> same_settings st st' \<and> sm_size (st_map st') \<le> sm_size (st_map st)"
    and "cap_ok mx st"
  shows "\<exists>r st'. f st = (r, st') \<and> store_inv kind st' \<and> cap_ok mx st'"
  using assms cap_ok_settings by blast

context record_kind
begin

lemma get_shrinks:
  assumes "store_inv kind st"
  shows "\<exists>r st'. rs_get kind now1 now2 key st = (r, st') \<and> store_inv kind st' \<and> same_settings st st'
    \<and> sm_size (st_map st') \<le> sm_size (st_map st)"
proof (cases "store_abs st key")
  case None
  then show ?thesis using get_miss [OF assms None, of now1 now2] by fastforce
next
  case (Some r)
  then show ?thesis
    using get_expired [OF assms Some, of now1 now2] get_hit [OF assms Some, of now1 now2]
    by (cases "isRecordExpired now1 st r") fastforce+
qed

lemma nc_step_inv:
  assumes inv: "nc_inv kind mx nc"
  shows "nc_inv kind mx (nc_step kind op nc)"
proof (cases op)
  case (NGet now1 now2 key)
  have "nc_inv kind mx (snd (on_store (rs_get kind now1 now2 k) nc))" for k
    by (rule on_store_inv [OF inv]) (rule shrinking_op [OF get_shrinks])
  then show ?thesis using NGet inv by (cases key) (simp_all add: nc_get_def throwM_def)
next
  case (NPut env now1 now2 key v)
  then show ?thesis
    using evict_then_put [OF inv, of env now1 now2 "the key" "contentOfValue kind v"] inv
    by (cases key) (auto simp: nc_put_def rs_put_def throwM_def)
next
  case (NPutData env now1 now2 key d)
  then show ?thesis
    using evict_then_put [OF inv, of env now1 now2 "the key" "contentOfData kind d"] inv
    by (cases key) (auto simp: nc_put_data_def rs_put_data_def throwM_def)
next
  case (NInvalidate key)
  have "nc_inv kind mx (snd (on_store (rs_invalidate kind k) nc))" for k
    by (rule on_store_inv [OF inv], rule shrinking_op) (use invalidate_ok in blast)+
  then show ?thesis using NInvalidate inv by (cases key) (simp_all add: nc_invalidate_def throwM_def)
next
  case NClear
  have "\<exists>r st'. rs_clear st = (r, st') \<and> store_inv kind st' \<and> cap_ok mx st'" if "store_inv kind st" "cap_ok mx st" for st
    using clear_ok [OF that(1)] cap_ok_settings [OF _ that(2)] by (fastforce simp: sm_size_def)
  then show ?thesis using NClear on_store_inv [OF inv, of rs_clear] by (simp add: nc_clear_def)
next
  case NDestroy
  have "\<exists>r st'. rs_destroy st = (r, st') \<and> store_inv kind st' \<and> cap_ok mx st'" if "store_inv kind st" "cap_ok mx st" for st
    using clear_ok [OF that(1)] cap_ok_settings [OF _ that(2)]
    by (fastforce simp: rs_destroy_def rs_clear_def sm_size_def)
  moreover have "nc_inv kind mx (nc\<lparr>expirationTaskFuture := t\<rparr>)" for t using inv by (simp add: nc_inv_def)
  ultimately show ?thesis using NDestroy on_store_inv [of kind mx _ rs_destroy] by (simp add: nc_destroy_def)
next
  case NSize
  then show ?thesis
    using on_store_inv [OF inv, of rs_size]
    by (auto simp: nc_size_def rs_size_def with_records_def split: option.splits)
next
  case (NExpire clock)
  have "nc_inv kind mx (snd (on_store (rs_doExpiration kind clock) nc))"
    by (rule on_store_inv [OF inv], rule shrinking_op) (use doExpiration_ok in blast)+
  then show ?thesis using NExpire by simp
qed

lemma nc_run_inv: "nc_inv kind mx nc \<Longrightarrow> nc_inv kind mx (nc_run kind ops nc)"
  by (induction ops arbitrary: nc) (simp_all add: nc_run_def nc_step_inv)

end

section \<open>A cache from its configuration\<close>

lemma evaluator_present:
  assumes "getEvictionPolicyEvaluator (Some e) = Inr ev" "getEvictionPolicyType e \<noteq> NONE_TYPE"
  shows "\<exists>f. ev = Some (Some f)"
  using assms
  by (auto simp: getEvictionPolicyEvaluator_def createEvictionPolicyComparator_def getEvictionPolicyType_def
      split: option.splits if_splits)

lemma evaluator_exists: "\<exists>ev. getEvictionPolicyEvaluator (Some e) = Inr ev"
  by (auto simp: getEvictionPolicyEvaluator_def createEvictionPolicyComparator_def getEvictionPolicyType_def
      split: option.splits if_splits)

lemma nc_initialize_ok:
  assumes "config_ok cfg" "evictionConfig cfg = Some e" "ec_size e \<le> INT32_MAX"
  shows "\<exists>nc. nc_initialize junk (DefaultNearCache cfg) = (Inr (), nc) \<and> nc_inv kind (ec_size e) nc
    \<and> nc_abs nc = (\<lambda>_. None)"
proof -
  obtain ev where ev: "getEvictionPolicyEvaluator (Some e) = Inr ev" using evaluator_exists by blast
  let ?st = "(RecordStore_new junk cfg)\<lparr>records := Some [], maxSizeChecker := Some (ec_size e),
      evictionPolicyEvaluator := ev, evictionStrategy := getEvictionStrategy (Some e),
      evictionPolicyType := getEvictionPolicyType e\<rparr>"
  have init: "rs_initialize (RecordStore_new junk cfg) = (Inr (), ?st)"
    using assms(2) ev
    by (simp add: rs_initialize_def Let_def RecordStore_new_def createNearCacheMaxSizeChecker_def
        split: MaxSizePolicy.split)
  have "store_inv kind ?st" "cap_ok (ec_size e) ?st" "store_abs ?st = (\<lambda>_. None)"
    using assms evaluator_present [OF ev]
    by (auto simp: store_inv_def stats_agree_def RecordStore_new_def sm_full_def sm_size_def cap_ok_def st_map_def
        ownedEntryCount_def ownedEntryMemoryCost_def isEvictionEnabled_def config_ok_def eviction_config_ok_def
        store_abs_def [abs_def] sm_get_def sm_containsKey_def)
  then show ?thesis
    using init by (simp add: nc_initialize_def Let_def DefaultNearCache_def on_store_def bindM_def nc_inv_def nc_abs_def)
qed

lemma nc_inv_bounds:
  assumes "nc_inv kind mx nc"
  shows "\<exists>st m. nearCacheRecordStore nc = Some st \<and> records st = Some m \<and> distinct (map fst m)
    \<and> int (length m) \<le> mx \<and> ownedEntryCount (nearCacheStats st) = int (length m)
    \<and> ownedEntryMemoryCost (nearCacheStats st) = total_cost kind m"
  using assms
  by (auto simp: nc_inv_def store_inv_def stats_agree_def cap_ok_def st_map_def sm_size_def
      dest: sm_ok_distinct split: option.splits)

text \<open>
  What a bounded, correctly counted cache is, for a sequence of calls on a fresh cache.
\<close>

definition stays_bounded :: "('k::linorder, 'v, 'd, 'c) store_kind \<Rightarrow> EvictionPolicyType \<Rightarrow> ('k, 'c) comparator NearCacheConfig \<Rightarrow>
    ('k, 'v, 'd) nc_op list \<Rightarrow> int \<Rightarrow> bool" where
  "stays_bounded kind junk cfg ops mx =
     (case nc_initialize junk (DefaultNearCache cfg) of
        (Inl e, _) \<Rightarrow> False
      | (Inr _, nc) \<Rightarrow>
          (case nearCacheRecordStore (nc_run kind ops nc) of
             None \<Rightarrow> False
           | Some st \<Rightarrow>
               (case records st of
                  None \<Rightarrow> False
                | Some m \<Rightarrow> distinct (map fst m) \<and> int (length m) \<le> mx
                    \<and> ownedEntryCount (nearCacheStats st) = int (length m)
                    \<and> ownedEntryMemoryCost (nearCacheStats st) = total_cost kind m)))"

lemma stays_boundedI:
  assumes "config_ok cfg" "evictionConfig cfg = Some e" "ec_size e \<le> INT32_MAX"
    and "\<And>nc. nc_inv kind (ec_size e) nc \<Longrightarrow> nc_inv kind (ec_size e) (nc_run kind ops nc)"
  shows "stays_bounded kind junk cfg ops (ec_size e)"
proof -
  obtain nc where nc: "nc_initialize junk (DefaultNearCache cfg) = (Inr (), nc)" "nc_inv kind (ec_size e) nc"
    using nc_initialize_ok [OF assms(1-3)] by blast
  show ?thesis using nc_inv_bounds [OF assms(4) [OF nc(2)]] nc(1) by (auto simp: stays_bounded_def)
qed

text \<open>Claim C32: with a valid configuration a near cache of either format initializes, and after any sequence of
  gets, puts, invalidations, clears, expiration runs and destroys, with any clock readings and any random
  numbers, it holds at most the configured number of records under distinct keys, its owned-entry
  count is the number of records and its owned memory cost the sum of their costs.\<close>

theorem near_cache_stays_bounded:
  assumes "config_ok cfg" "config_ok cfg'" "evictionConfig cfg = Some e" "evictionConfig cfg' = Some e'"
    and "ec_size e \<le> INT32_MAX" "ec_size e' \<le> INT32_MAX"
  shows "stays_bounded (data_store vc) junk cfg ops (ec_size e) \<and> stays_bounded (object_store vc) junk cfg' ops (ec_size e')"
  using stays_boundedI [OF assms(1,3,5) data_kind.nc_run_inv] stays_boundedI [OF assms(2,4,6) object_kind.nc_run_inv]
  by blast

abbreviation (input) nat_codec :: "(nat, nat, nat) value_codec" where
  "nat_codec \<equiv> \<lparr>vc_toData = Inr, vc_toObject = (\<lambda>d. Inr (Some d)), vc_keySize = int, vc_dataSize = int,
     vc_referenceSize = 8, vc_atomic64Size = 8, vc_atomic32Size = 4\<rparr>"

abbreviation (input) cfg_with :: "int \<Rightarrow> int \<Rightarrow> EvictionPolicy \<Rightarrow> (nat, nat) comparator NearCacheConfig" where
  "cfg_with n ttl policy \<equiv> NearCacheConfig_default\<lparr>timeToLiveSeconds := ttl,
     evictionConfig := Some (EvictionConfig_default\<lparr>ec_size := n, evictionPolicy := policy\<rparr>)\<rparr>"

lemma cfg_with_ok:
  assumes "0 < n" "0 \<le> ttl"
  shows "config_ok (cfg_with n ttl policy)"
  using assms by (simp add: config_ok_def NearCacheConfig_default_def DEFAULT_MAX_IDLE_SECONDS_def eviction_config_ok_def)

theorem near_cache_stays_bounded_witness:
  "\<exists>cfg. config_ok cfg \<and> stays_bounded (data_store nat_codec) NONE_TYPE cfg
     [NPut \<lparr>env_rand = 0, env_now = 5\<rparr> 1 1 (Some (7::nat)) (Some (9::nat)),
      NPut \<lparr>env_rand = 3, env_now = 6\<rparr> 2 2 (Some 8) (Some 9), NGet 3 3 (Some 8), NClear] 1"
proof -
  let ?e = "EvictionConfig_default\<lparr>ec_size := 1, evictionPolicy := LRU\<rparr> :: (nat, nat) comparator EvictionConfig"
  let ?cfg = "cfg_with 1 0 LRU"
  have ok: "config_ok ?cfg" by (rule cfg_with_ok) simp_all
  show ?thesis
    using near_cache_stays_bounded [OF ok ok, of ?e ?e nat_codec NONE_TYPE "[NPut \<lparr>env_rand = 0, env_now = 5\<rparr> 1 1 (Some 7) (Some 9),
        NPut \<lparr>env_rand = 3, env_now = 6\<rparr> 2 2 (Some 8) (Some 9), NGet 3 3 (Some 8), NClear]"] ok
    by (intro exI [of _ ?cfg]) (simp add: INT32_MAX_def)
qed

section \<open>Put, then get\<close>

context record_kind
begin

lemma put_get:
  fixes content :: "'c option"
  assumes inv: "nc_inv kind mx nc" and st: "nearCacheRecordStore nc = Some st"
    and room: "isEvictionEnabled st \<or> int (sm_size (st_map st)) < mx \<or> store_abs st k \<noteq> None"
    and r_def: "r = onRecordCreate t2 (valueToRecordInternal t1 st content)"
  shows "\<exists>nc1 nc2. bindM (on_store (rs_doEvictionIfRequired kind env))
      (\<lambda>_. on_store (rs_putInternal kind t1 t2 k (Inr content))) nc = (Inr (), nc1)
    \<and> (\<forall>j. j \<noteq> k \<longrightarrow> nc_abs nc1 j \<noteq> None \<longrightarrow> nc_abs nc1 j = nc_abs nc j)
    \<and> on_store (rs_get kind t3 t4 k) nc1
        = (if isRecordExpired t3 st r then Inr NotCached else snd (recordToValue kind (onRecordAccess t4 r)), nc2)"
proof -
  have ok: "store_inv kind st" "cap_ok mx st" using inv st by (simp_all add: nc_inv_def)
  obtain st1 where e: "rs_doEvictionIfRequired kind env st = (Inr (), st1)" "store_inv kind st1"
    "same_settings st st1" "cap_ok mx st1" "\<forall>j. store_abs st1 j \<noteq> None \<longrightarrow> store_abs st1 j = store_abs st j"
    "isEvictionEnabled st \<longrightarrow> \<not> isEvictionRequired st1 (st_map st1)" "\<not> isEvictionEnabled st \<longrightarrow> st1 = st"
    using doEvictionIfRequired_ok [OF ok] by blast
  note f = same_settings_fields [OF e(3)]
  have "\<not> isEvictionRequired st1 (st_map st1) \<or> store_abs st1 k \<noteq> None"
  proof (cases "isEvictionEnabled st")
    case False
    then show ?thesis
      using room e(7) ok(2) isReachedToMaxSize_iff [of "st_map st" mx] by (auto simp: cap_ok_def isEvictionRequired_def)
  qed (use e(6) in blast)
  then obtain st2 where p: "rs_putInternal kind t1 t2 k (Inr content) st1 = (Inr (), st2)" "store_inv kind st2"
    "same_settings st1 st2"
    "store_abs st2 = (store_abs st1)(k \<mapsto> onRecordCreate t2 (valueToRecordInternal t1 st1 content))"
    using putInternal_ok [OF e(2), of k t1 t2 content] by blast
  have r: "store_abs st2 k = Some r"
    using p(4) f(5) by (simp add: r_def valueToRecordInternal_def)
  have ex: "isRecordExpired t3 st2 r = isRecordExpired t3 st r"
    using f(4) same_settings_fields(4) [OF p(3)] by (simp add: isRecordExpired_def)
  obtain st3 where g: "rs_get kind t3 t4 k st2
      = (if isRecordExpired t3 st r then Inr NotCached else snd (recordToValue kind (onRecordAccess t4 r)), st3)"
    using get_hit [OF p(2) r, of t3 t4] get_expired [OF p(2) r, of t3 t4] ex by (cases "isRecordExpired t3 st r") auto
  show ?thesis
    using st e(1,5) p(1,4) g by (simp add: on_store_def bindM_def nc_abs_def)
qed

end

lemma fresh_record_expired:
  assumes "0 \<le> t1"
  shows "isRecordExpired t3 st (onRecordCreate t2 (valueToRecordInternal t1 st c))
    \<longleftrightarrow> (0 < timeToLiveMillis st \<and> t1 + timeToLiveMillis st \<le> t3) \<or> (0 < maxIdleMillis st \<and> t2 + maxIdleMillis st < t3)"
  using assms
  by (auto simp: isRecordExpired_def isExpiredAt_def isIdleAt_def onRecordCreate_def valueToRecordInternal_def
      NearCacheRecord_new_def TIME_NOT_SET_def)

lemma record_content [simp]:
  "rec_value (onRecordAccess t (onRecordCreate t2 (valueToRecordInternal t1 st c))) = c"
  by (simp add: onRecordAccess_def incrementAccessHit_def setAccessTime_def onRecordCreate_def
      valueToRecordInternal_def NearCacheRecord_new_def)

text \<open>Claim C33: in a near cache that keeps serialized values (BINARY) and meets its invariant, a put for which there
  is room (a free place, an old record of the key, or an eviction policy) succeeds whatever record eviction
  chooses, changes no other record except by evicting it, and a get of the same key returns the value put
  until its time to live or its idle time is over, and nothing afterwards.\<close>

theorem put_then_get_until_expiry:
  assumes "nc_inv (data_store vc) mx nc" "nearCacheRecordStore nc = Some st"
    and "isEvictionEnabled st \<or> int (sm_size (st_map st)) < mx \<or> store_abs st k \<noteq> None"
    and "vc_toData vc v = Inr d" "vc_toObject vc d = Inr (Some v)" "0 \<le> t1"
  shows "\<exists>nc1 nc2. nc_put (data_store vc) env t1 t2 (Some k) (Some v) nc = (Inr (), nc1)
    \<and> (\<forall>j. j \<noteq> k \<longrightarrow> nc_abs nc1 j \<noteq> None \<longrightarrow> nc_abs nc1 j = nc_abs nc j)
    \<and> nc_get (data_store vc) t3 t4 (Some k) nc1
        = (Inr (if (0 < timeToLiveMillis st \<and> t1 + timeToLiveMillis st \<le> t3)
                 \<or> (0 < maxIdleMillis st \<and> t2 + maxIdleMillis st < t3) then NotCached else Cached v), nc2)"
proof -
  have c: "contentOfValue (data_store vc) (Some v) = Inr (Some d)"
    using assms(4) by (simp add: data_store_def store_toData_def)
  have g: "snd (recordToValue (data_store vc) r) = Inr (Cached v)" if "rec_value r = Some d" for r
    using that assms(5) by (simp add: data_store_def data_recordToValue_def dataToValue_def cached_of_def)
  show ?thesis
    using data_kind.put_get [OF assms(1-3) refl, of env t1 t2 "Some d" t3 t4]
    by (simp add: nc_put_def nc_get_def rs_put_def c g fresh_record_expired [OF assms(6)] if_distrib cong: if_cong)
qed

theorem put_then_get_until_expiry_witness:
  "\<exists>nc1 nc2 nc3. nc_put (data_store nat_codec) \<lparr>env_rand = 0, env_now = 10\<rparr> 10 11 (Some 7) (Some 9)
       (snd (nc_initialize NONE_TYPE (DefaultNearCache (cfg_with 1 2 LRU)))) = (Inr (), nc1)
     \<and> nc_get (data_store nat_codec) 2009 2009 (Some 7) nc1 = (Inr (Cached 9), nc2)
     \<and> nc_get (data_store nat_codec) 2010 2010 (Some 7) nc1 = (Inr NotCached, nc3)"
proof -
  let ?nc = "snd (nc_initialize NONE_TYPE (DefaultNearCache (cfg_with 1 2 LRU)))"
  have "config_ok (cfg_with 1 2 LRU)" by (rule cfg_with_ok) simp_all
  then have inv: "nc_inv (data_store nat_codec) 1 ?nc"
    using nc_initialize_ok [of "cfg_with 1 2 LRU" "EvictionConfig_default\<lparr>ec_size := 1, evictionPolicy := LRU\<rparr>" NONE_TYPE "data_store nat_codec"]
    by (auto simp: INT32_MAX_def)
  obtain st where st: "nearCacheRecordStore ?nc = Some st" "timeToLiveMillis st = 2000" "maxIdleMillis st = 0"
    "sm_size (st_map st) = 0"
    by (simp add: nc_initialize_def Let_def DefaultNearCache_def on_store_def bindM_def rs_initialize_def
        RecordStore_new_def createNearCacheMaxSizeChecker_def EvictionConfig_default_def NearCacheConfig_default_def
        getEvictionPolicyEvaluator_def createEvictionPolicyComparator_def getEvictionPolicyType_def
        MILLI_SECONDS_IN_A_SECOND_def DEFAULT_MAX_IDLE_SECONDS_def wrap32_id st_map_def sm_size_def)
  have room: "isEvictionEnabled st \<or> int (sm_size (st_map st)) < 1 \<or> store_abs st 7 \<noteq> None" using st(4) by simp
  note main = put_then_get_until_expiry [OF inv st(1) room, of 9 9 10 "\<lparr>env_rand = 0, env_now = 10\<rparr>" 11]
  show ?thesis using main [of 2009 2009] main [of 2010 2010] st(2,3) by auto
qed

section \<open>Behaviours that differ from the documentation\<close>

lemma wrap32_neg:
  assumes "2147483 < n" "n \<le> 4294967"
  shows "wrap32 (n * 1000) \<le> 0"
proof -
  have "(n * 1000 + 2 ^ 31) mod 2 ^ 32 = (n * 1000 + 2 ^ 31 - 2 ^ 32) mod 2 ^ 32"
    by (rule minus_mod_self2 [symmetric])
  also have "\<dots> = n * 1000 + 2 ^ 31 - 2 ^ 32"
    using assms by (intro mod_pos_pos_trivial) simp_all
  finally show ?thesis using assms by (simp add: wrap32_def)
qed

lemma fresh_store:
  assumes "config_ok cfg" "evictionConfig cfg = Some e" "ec_size e \<le> INT32_MAX"
  shows "\<exists>nc st. nc_initialize junk (DefaultNearCache cfg) = (Inr (), nc) \<and> nc_inv kind (ec_size e) nc
    \<and> nearCacheRecordStore nc = Some st \<and> st_map st = []
    \<and> timeToLiveMillis st = wrap32 (timeToLiveSeconds cfg * 1000) \<and> maxIdleMillis st = wrap32 (maxIdleSeconds cfg * 1000)"
proof -
  obtain nc where nc: "nc_initialize junk (DefaultNearCache cfg) = (Inr (), nc)" "nc_inv kind (ec_size e) nc"
    using nc_initialize_ok [OF assms] by blast
  obtain ev where ev: "getEvictionPolicyEvaluator (Some e) = Inr ev" using evaluator_exists by blast
  show ?thesis
    using nc assms(2) ev
    by (auto simp: nc_initialize_def Let_def DefaultNearCache_def on_store_def bindM_def rs_initialize_def
        RecordStore_new_def createNearCacheMaxSizeChecker_def MILLI_SECONDS_IN_A_SECOND_def st_map_def
        split: MaxSizePolicy.splits)
qed

text \<open>A time to live that the setter accepts but whose milliseconds exceed 32 bits gives a cache whose
  records never expire when the product wraps to a non-positive number: a value put is still returned at any later time.\<close>

theorem long_ttl_never_expires:
  assumes "config_ok cfg" "evictionConfig cfg = Some e" "ec_size e \<le> INT32_MAX" "maxIdleSeconds cfg = 0"
    and "2147483 < timeToLiveSeconds cfg" "timeToLiveSeconds cfg \<le> 4294967" "0 \<le> t1"
    and "vc_toData vc v = Inr d" "vc_toObject vc d = Inr (Some v)"
  shows "\<exists>nc nc1 nc2. nc_initialize junk (DefaultNearCache cfg) = (Inr (), nc)
    \<and> nc_put (data_store vc) env t1 t2 (Some k) (Some v) nc = (Inr (), nc1)
    \<and> nc_get (data_store vc) t3 t4 (Some k) nc1 = (Inr (Cached v), nc2)"
proof -
  obtain nc st where nc: "nc_initialize junk (DefaultNearCache cfg) = (Inr (), nc)" "nc_inv (data_store vc) (ec_size e) nc"
    "nearCacheRecordStore nc = Some st" "st_map st = []"
    "timeToLiveMillis st = wrap32 (timeToLiveSeconds cfg * 1000)" "maxIdleMillis st = wrap32 (maxIdleSeconds cfg * 1000)"
    using fresh_store [OF assms(1-3), of junk "data_store vc"] by blast
  have "timeToLiveMillis st \<le> 0" using nc(5) assms(5,6) by (simp add: wrap32_neg)
  moreover have "maxIdleMillis st = 0" using nc(6) assms(4) by (simp add: wrap32_id)
  moreover have "int (sm_size (st_map st)) < ec_size e"
    using nc(4) assms(1,2) by (simp add: sm_size_def config_ok_def eviction_config_ok_def)
  ultimately show ?thesis
    using put_then_get_until_expiry [OF nc(2,3) _ assms(8,9,7), of k env t2 t3 t4] nc(1) by auto
qed

theorem long_ttl_never_expires_witness:
  "\<exists>nc nc1 nc2. nc_initialize NONE_TYPE (DefaultNearCache (cfg_with 1 2592000 LRU)) = (Inr (), nc)
    \<and> nc_put (data_store nat_codec) \<lparr>env_rand = 0, env_now = 1\<rparr> 1 1 (Some 7) (Some 9) nc = (Inr (), nc1)
    \<and> nc_get (data_store nat_codec) (2592000 * 1000 * 1000) 5 (Some 7) nc1 = (Inr (Cached 9), nc2)"
proof -
  have "config_ok (cfg_with 1 2592000 LRU)" by (rule cfg_with_ok) simp_all
  then show ?thesis
    by (rule long_ttl_never_expires [where e = "EvictionConfig_default\<lparr>ec_size := 1, evictionPolicy := LRU\<rparr>"])
      (simp_all add: INT32_MAX_def NearCacheConfig_default_def DEFAULT_MAX_IDLE_SECONDS_def)
qed

lemma task_run_idle: "expirationInProgress t \<Longrightarrow> task_run kind clocks (t, st) = (t, st)"
  by (induction clocks) (simp_all add: task_turn_def)

text \<open>The expiration thread removes exactly the expired records on its first turn, and then never
  again: the in-progress flag stays set after a run that succeeds, so however many periods pass and
  whatever the clock shows, the store is the one the first turn left.\<close>

theorem expiration_runs_once:
  assumes "store_inv kind st"
  shows "\<exists>t st'. task_run kind (clock # clocks) (ExpirationTask_new, st) = (t, st')
    \<and> store_abs st' = live_part clock st \<and> store_inv kind st'
    \<and> task_run kind [clock] (ExpirationTask_new, st) = (t, st')"
proof -
  obtain st' where d: "rs_doExpiration kind clock st = (Inr (), st')" "store_inv kind st'"
    "store_abs st' = live_part clock st"
    using doExpiration_ok [OF assms] by blast
  have "task_turn kind clock (ExpirationTask_new, st) = (ExpirationTask_new\<lparr>expirationInProgress := True\<rparr>, st')"
    using d(1) by (simp add: task_turn_def ExpirationTask_new_def)
  then show ?thesis using d(2,3) by (simp add: task_run_idle)
qed

text \<open>A store holding one record, for examples.\<close>

definition one_record :: "'c near_record \<Rightarrow> (nat, 'c) store" where
  "one_record r = (RecordStore_new NONE_TYPE NearCacheConfig_default)\<lparr>records := Some [(7, Some r)], timeToLiveMillis := 1000\<rparr>"

theorem expiration_runs_once_witness:
  "\<exists>t st'. task_run (object_store nat_codec) [\<lambda>_. 5, \<lambda>_. 2000, \<lambda>_. 3000]
       (ExpirationTask_new, (one_record (NearCacheRecord_new (Some 9) 0 1000))\<lparr>nearCacheStats := [IncOwnedEntryCount]\<rparr>) = (t, st')
     \<and> store_abs st' 7 = Some (NearCacheRecord_new (Some 9) 0 1000)"
proof -
  let ?st = "(one_record (NearCacheRecord_new (Some 9) 0 1000))\<lparr>nearCacheStats := [IncOwnedEntryCount]\<rparr>"
  have "store_inv (object_store nat_codec) ?st"
    by (simp add: store_inv_def one_record_def stats_agree_def sm_full_def sm_size_def ownedEntryCount_def
        ownedEntryMemoryCost_def getTotalStorageMemoryCost_def object_store_def)
  then obtain t st' where run: "task_run (object_store nat_codec) [\<lambda>_. 5, \<lambda>_. 2000, \<lambda>_. 3000] (ExpirationTask_new, ?st) = (t, st')"
    "store_abs st' = live_part (\<lambda>_. 5) ?st"
    using expiration_runs_once [of "object_store nat_codec" ?st "\<lambda>_. 5" "[\<lambda>_. 2000, \<lambda>_. 3000]"] by blast
  have "live_part (\<lambda>_. 5) ?st 7 = Some (NearCacheRecord_new (Some 9) 0 1000)"
    by (simp add: live_part_def store_abs_def st_map_def one_record_def sm_get_def sm_at_def sm_containsKey_def
        isRecordExpired_def isExpiredAt_def isIdleAt_def NearCacheRecord_new_def TIME_NOT_SET_def RecordStore_new_def
        NearCacheConfig_default_def DEFAULT_MAX_IDLE_SECONDS_def MILLI_SECONDS_IN_A_SECOND_def wrap32_id)
  then show ?thesis using run by simp
qed

text \<open>In the store of serialized values, reading a live record that caches a null is answered with the
  null marker and counted as a hit and as a miss by the same call; the store of objects counts
  the same read as a hit only.\<close>

theorem cached_null_counts_twice:
  assumes "records st = Some m" "sm_get k m = Some r" "rec_value r = None" "\<not> isRecordExpired t1 st r"
    and "records st' = Some m'" "sm_get k m' = Some r'" "rec_value r' = None" "\<not> isRecordExpired t1 st' r'"
  shows "\<exists>s s'. rs_get (data_store vc) t1 t2 k st = (Inr NullObject, s) \<and> nearCacheStats s = nearCacheStats st @ [IncHits, IncMisses]
    \<and> rs_get (object_store vc) t1 t2 k st' = (Inr NullObject, s') \<and> nearCacheStats s' = nearCacheStats st' @ [IncHits]"
  using assms
  by (simp add: rs_get_def with_records_def Let_def data_store_def data_recordToValue_def object_store_def
      object_recordToValue_def onRecordAccess_def incrementAccessHit_def setAccessTime_def log_stats_def)

theorem cached_null_counts_twice_witness:
  "\<exists>s. rs_get (data_store nat_codec) 1 1 7 (one_record (NearCacheRecord_new None 0 TIME_NOT_SET)) = (Inr NullObject, s)
     \<and> nearCacheStats s = [IncHits, IncMisses]"
  using cached_null_counts_twice
      [of "one_record (NearCacheRecord_new None 0 TIME_NOT_SET)" _ 7 "NearCacheRecord_new None 0 TIME_NOT_SET" 1
        "one_record (NearCacheRecord_new None 0 TIME_NOT_SET)" _ "NearCacheRecord_new None 0 TIME_NOT_SET" nat_codec 1]
  by (auto simp: one_record_def sm_get_def sm_at_def sm_containsKey_def isRecordExpired_def isExpiredAt_def
      isIdleAt_def NearCacheRecord_new_def TIME_NOT_SET_def RecordStore_new_def NearCacheConfig_default_def
      DEFAULT_MAX_IDLE_SECONDS_def MILLI_SECONDS_IN_A_SECOND_def wrap32_id)

text \<open>Evicting without a size check from an initialized but empty cache dereferences a null iterator:
  with any eviction policy set, \<open>doEviction\<close> right after \<open>initialize\<close> or after \<open>clear\<close> fails.\<close>

theorem doEviction_empty_dereferences_null:
  assumes "isEvictionEnabled st" "records st = Some m"
  shows "fst (bindM rs_clear (\<lambda>_. rs_doEviction kind env) st) = Inl NullDereference"
  using assms
  by (auto simp: bindM_def rs_clear_def rs_doEviction_def rs_evict_def with_records_def strategy_evict_def
      sm_clear_def log_stats_def isEvictionEnabled_def evictInternal_empty split: option.split)

theorem doEviction_empty_dereferences_null_witness:
  "fst (bindM rs_clear (\<lambda>_. rs_doEviction (data_store nat_codec) \<lparr>env_rand = 0, env_now = 1\<rparr>)
      (snd (rs_initialize (RecordStore_new NONE_TYPE (cfg_with 1 0 LRU))))) = Inl NullDereference"
  by (rule doEviction_empty_dereferences_null)
    (simp_all add: isEvictionEnabled_def rs_initialize_def RecordStore_new_def createNearCacheMaxSizeChecker_def
      EvictionConfig_default_def NearCacheConfig_default_def getEvictionPolicyEvaluator_def
      createEvictionPolicyComparator_def getEvictionPolicyType_def getEvictionStrategy_def)

end
