(* ===== verification/Map_Proxy.thy ===== *)
theory Map_Proxy
  imports Near_Cache
begin

text \<open>
  The typed map proxies: \<open>map/ClientMapProxy.h\<close>, \<open>map/NearCachedClientMapProxy.h\<close> and
  \<open>map/impl/ClientMapProxyFactory.h\<close>. The untyped operations of \<open>proxy/IMapImpl.h\<close>, which send a
  message to the cluster and have no body in the sources, are the fields of \<open>IMapImpl\<close>; the
  conversions are the fields of \<open>map_codec\<close>. The virtual methods that the near cached proxy overrides
  are the fields of \<open>map_vt\<close>, with one instance per class.
\<close>

section \<open>The cluster and the conversions\<close>

datatype TimeUnit = NANOSECONDS | MICROSECONDS | MILLISECONDS | SECONDS | MINUTES | HOURS | DAYS

record ('s, 'd, 'q, 'f) IMapImpl =
  im_containsKey :: "'d \<Rightarrow> ('s, bool) comp"
  im_containsValue :: "'d \<Rightarrow> ('s, bool) comp"
  im_getData :: "'d \<Rightarrow> ('s, 'd option) comp"
  im_putData :: "'d \<Rightarrow> 'd \<Rightarrow> int \<Rightarrow> ('s, 'd option) comp"
  im_removeData :: "'d \<Rightarrow> ('s, 'd option) comp"
  im_remove :: "'d \<Rightarrow> 'd \<Rightarrow> ('s, bool) comp"
  im_removeAll :: "'d \<Rightarrow> ('s, unit) comp"
  im_deleteEntry :: "'d \<Rightarrow> ('s, unit) comp"
  im_flush :: "('s, unit) comp"
  im_tryRemove :: "'d \<Rightarrow> int \<Rightarrow> ('s, bool) comp"
  im_tryPut :: "'d \<Rightarrow> 'd \<Rightarrow> int \<Rightarrow> ('s, bool) comp"
  im_putTransient :: "'d \<Rightarrow> 'd \<Rightarrow> int \<Rightarrow> ('s, unit) comp"
  im_putIfAbsentData :: "'d \<Rightarrow> 'd \<Rightarrow> int \<Rightarrow> ('s, 'd option) comp"
  im_replace :: "'d \<Rightarrow> 'd \<Rightarrow> 'd \<Rightarrow> ('s, bool) comp"
  im_replaceData :: "'d \<Rightarrow> 'd \<Rightarrow> ('s, 'd option) comp"
  im_set :: "'d \<Rightarrow> 'd \<Rightarrow> int \<Rightarrow> ('s, unit) comp"
  im_lock :: "'d \<Rightarrow> int \<Rightarrow> ('s, unit) comp"
  im_isLocked :: "'d \<Rightarrow> ('s, bool) comp"
  im_tryLock :: "'d \<Rightarrow> int \<Rightarrow> ('s, bool) comp"
  im_unlock :: "'d \<Rightarrow> ('s, unit) comp"
  im_forceUnlock :: "'d \<Rightarrow> ('s, unit) comp"
  im_evict :: "'d \<Rightarrow> ('s, bool) comp"
  im_evictAll :: "('s, unit) comp"
  im_getAllData :: "(int \<times> 'd list) list \<Rightarrow> ('s, ('d \<times> 'd) list) comp"
  im_keySetData :: "'q option \<Rightarrow> ('s, 'd list) comp"
  im_valuesData :: "'q option \<Rightarrow> ('s, 'd list) comp"
  im_entrySetData :: "'q option \<Rightarrow> ('s, ('d \<times> 'd) list) comp"
  im_addIndex :: "string \<Rightarrow> bool \<Rightarrow> ('s, unit) comp"
  im_size :: "('s, int) comp"
  im_isEmpty :: "('s, bool) comp"
  im_putAllData :: "(int \<times> ('d \<times> 'd) list) list \<Rightarrow> ('s, unit) comp"
  im_clear :: "('s, unit) comp"
  im_executeOnKeyData :: "'d \<Rightarrow> 'd \<Rightarrow> ('s, 'd option) comp"
  im_executeOnKeysData :: "'d list \<Rightarrow> 'd \<Rightarrow> ('s, ('d \<times> 'd) list) comp"
  im_executeOnEntriesData :: "'d \<Rightarrow> 'q option \<Rightarrow> ('s, ('d \<times> 'd) list) comp"
  im_invokeGet :: "'d \<Rightarrow> ('s, 'f) comp"
  im_invokeRemove :: "'d \<Rightarrow> ('s, 'f) comp"
  im_putAsyncData :: "int \<Rightarrow> TimeUnit \<Rightarrow> int option \<Rightarrow> TimeUnit \<Rightarrow> 'd \<Rightarrow> 'd \<Rightarrow> ('s, 'f) comp"
  im_setAsyncData :: "int \<Rightarrow> TimeUnit \<Rightarrow> int option \<Rightarrow> TimeUnit \<Rightarrow> 'd \<Rightarrow> 'd \<Rightarrow> ('s, 'f) comp"
  im_getPartitionId :: "'d \<Rightarrow> int"

record ('k, 'v, 'd, 'q, 'e, 'r) map_codec =
  k_toData :: "'k \<Rightarrow> 'd res"
  v_toData :: "'v \<Rightarrow> 'd res"
  q_toData :: "'q \<Rightarrow> 'd res"
  e_toData :: "'e \<Rightarrow> 'd res"
  k_toObject :: "'d \<Rightarrow> 'k option res"
  v_toObject :: "'d \<Rightarrow> 'v option res"
  r_toObject :: "'d \<Rightarrow> 'r option res"

text \<open>\<open>toObject\<close> on an owning pointer: a null pointer stays null.\<close>

definition toObject_auto :: "('d \<Rightarrow> 'v option res) \<Rightarrow> 'd option \<Rightarrow> 'v option res" where
  "toObject_auto f data = (case data of None \<Rightarrow> Inr None | Some d \<Rightarrow> f d)"

text \<open>The value of a pointer that the code dereferences without a check.\<close>

definition deref_ptr :: "'a option \<Rightarrow> 'a res" where
  "deref_ptr p = (case p of None \<Rightarrow> Inl NullDereference | Some a \<Rightarrow> Inr a)"

section \<open>Exceptions\<close>

text \<open>What a \<open>catch (exception::IException \&)\<close> catches: not the crashes.\<close>

definition caught :: "hz_error \<Rightarrow> bool" where
  "caught e = (case e of AssertionFailure \<Rightarrow> False | NullDereference \<Rightarrow> False | OutOfBounds \<Rightarrow> False
     | LengthError \<Rightarrow> False | DivisionByZero \<Rightarrow> False | NonTermination \<Rightarrow> False | _ \<Rightarrow> True)"

text \<open>A handler that runs \<open>h\<close> and rethrows; an exception in the handler replaces the first.\<close>

definition catchM :: "('s, 'a) comp \<Rightarrow> ('s, unit) comp \<Rightarrow> ('s, 'a) comp" where
  "catchM f h s =
     (case f s of
        (Inr a, s') \<Rightarrow> (Inr a, s')
      | (Inl e, s') \<Rightarrow>
          if caught e then (case h s' of (Inl e', s'') \<Rightarrow> (Inl e', s'') | (Inr _, s'') \<Rightarrow> (Inl e, s''))
          else (Inl e, s'))"

fun mapR :: "('a \<Rightarrow> 'b res) \<Rightarrow> 'a list \<Rightarrow> 'b list res" where
  "mapR f [] = Inr []"
| "mapR f (x # xs) = bindR (f x) (\<lambda>y. bindR (mapR f xs) (\<lambda>ys. Inr (y # ys)))"

fun forM :: "('a \<Rightarrow> ('s, unit) comp) \<Rightarrow> 'a list \<Rightarrow> ('s, unit) comp" where
  "forM f [] = retM ()"
| "forM f (x # xs) = bindM (f x) (\<lambda>_. forM f xs)"

section \<open>Proxy state and virtual methods\<close>

text \<open>
  A proxy sees the cluster's map and, when it is near cached, its wrapped near cache. Clock readings
  and random numbers that the near cache consumes during one call are given with the call.
\<close>

record ('d, 'c, 'mk, 's) map_proxy =
  pr_server :: 's
  pr_nearCache :: "('d, 'c, 'mk) aware_cache option"
  pr_invalidateOnChange :: bool
  pr_listenerId :: string

record near_env =
  ne_get1 :: int
  ne_get2 :: int
  ne_put1 :: int
  ne_put2 :: int
  ne_evict :: evict_env

text \<open>What \<open>getAsync\<close> gives: a completed future, or a pending one, with or without the near cache's callback.\<close>

datatype ('v, 'f) async = Completed "'v option" | Pending 'f bool

record ('d, 'k, 'v, 'f, 'p) map_vt =
  vt_containsKeyInternal :: "near_env \<Rightarrow> 'd \<Rightarrow> ('p, bool) comp"
  vt_getInternal :: "near_env \<Rightarrow> 'd \<Rightarrow> ('p, 'v option) comp"
  vt_removeInternal :: "'d \<Rightarrow> ('p, 'd option) comp"
  vt_removeInternal_value :: "'d \<Rightarrow> 'd \<Rightarrow> ('p, bool) comp"
  vt_removeAllInternal :: "'d \<Rightarrow> ('p, unit) comp"
  vt_deleteInternal :: "'d \<Rightarrow> ('p, unit) comp"
  vt_tryRemoveInternal :: "'d \<Rightarrow> int \<Rightarrow> ('p, bool) comp"
  vt_tryPutInternal :: "'d \<Rightarrow> 'd \<Rightarrow> int \<Rightarrow> ('p, bool) comp"
  vt_putInternal :: "'d \<Rightarrow> 'd \<Rightarrow> int \<Rightarrow> ('p, 'd option) comp"
  vt_tryPutTransientInternal :: "'d \<Rightarrow> 'd \<Rightarrow> int \<Rightarrow> ('p, unit) comp"
  vt_putIfAbsentInternal :: "'d \<Rightarrow> 'd \<Rightarrow> int \<Rightarrow> ('p, 'd option) comp"
  vt_replaceIfSameInternal :: "'d \<Rightarrow> 'd \<Rightarrow> 'd \<Rightarrow> ('p, bool) comp"
  vt_replaceInternal :: "'d \<Rightarrow> 'd \<Rightarrow> ('p, 'd option) comp"
  vt_setInternal :: "'d \<Rightarrow> 'd \<Rightarrow> int \<Rightarrow> ('p, unit) comp"
  vt_evictInternal :: "'d \<Rightarrow> ('p, bool) comp"
  vt_getAllInternal :: "('d \<Rightarrow> near_env) \<Rightarrow> (int \<times> ('k \<times> 'd) list) list \<Rightarrow> ('k \<rightharpoonup> 'v) \<Rightarrow>
      ('p, ('d \<times> 'd) list \<times> ('k \<rightharpoonup> 'v)) comp"
  vt_executeOnKeyInternal :: "'d \<Rightarrow> 'd \<Rightarrow> ('p, 'd option) comp"
  vt_putAllInternal :: "(int \<times> ('d \<times> 'd) list) list \<Rightarrow> ('p, unit) comp"
  vt_removeAsyncInternal :: "'d \<Rightarrow> ('p, 'f) comp"
  vt_putAsyncInternal :: "int \<Rightarrow> TimeUnit \<Rightarrow> int option \<Rightarrow> TimeUnit \<Rightarrow> 'd \<Rightarrow> 'v \<Rightarrow> ('p, 'f) comp"
  vt_getAsync :: "near_env \<Rightarrow> 'k \<Rightarrow> ('p, ('v, 'f) async) comp"
  vt_setAsyncInternal :: "int \<Rightarrow> TimeUnit \<Rightarrow> int option \<Rightarrow> TimeUnit \<Rightarrow> 'd \<Rightarrow> 'v \<Rightarrow> ('p, 'f) comp"

definition on_server :: "('s, 'a) comp \<Rightarrow> (('d, 'c, 'mk, 's) map_proxy, 'a) comp" where
  "on_server f p = (case f (pr_server p) of (r, s) \<Rightarrow> (r, p\<lparr>pr_server := s\<rparr>))"

definition on_near :: "(('d, 'c, 'mk) aware_cache, 'a) comp \<Rightarrow> (('d, 'c, 'mk, 's) map_proxy, 'a) comp" where
  "on_near f p =
     (case pr_nearCache p of
        None \<Rightarrow> (Inl NullDereference, p)
      | Some a \<Rightarrow> (case f a of (r, a') \<Rightarrow> (r, p\<lparr>pr_nearCache := Some a'\<rparr>)))"

type_synonym ('d, 'c, 'mk, 's, 'a) pcomp = "(('d, 'c, 'mk, 's) map_proxy, 'a) comp"

section \<open>ClientMapProxy: the methods that can be overridden\<close>

definition base_getInternal :: "('s, 'd, 'q, 'f) IMapImpl \<Rightarrow> ('k, 'v, 'd, 'q, 'e, 'r) map_codec \<Rightarrow> 'd \<Rightarrow> ('d, 'c, 'mk, 's, 'v option) pcomp" where
  "base_getInternal impl cd key = bindM (on_server (im_getData impl key)) (\<lambda>d. liftR (toObject_auto (v_toObject cd) d))"

definition base_containsKeyInternal :: "('s, 'd, 'q, 'f) IMapImpl \<Rightarrow> 'd \<Rightarrow> ('d, 'c, 'mk, 's, bool) pcomp" where
  "base_containsKeyInternal impl key = on_server (im_containsKey impl key)"

definition base_removeInternal :: "('s, 'd, 'q, 'f) IMapImpl \<Rightarrow> 'd \<Rightarrow> ('d, 'c, 'mk, 's, 'd option) pcomp" where
  "base_removeInternal impl key = on_server (im_removeData impl key)"

definition base_removeInternal_value :: "('s, 'd, 'q, 'f) IMapImpl \<Rightarrow> 'd \<Rightarrow> 'd \<Rightarrow> ('d, 'c, 'mk, 's, bool) pcomp" where
  "base_removeInternal_value impl key v = on_server (im_remove impl key v)"

definition base_removeAllInternal :: "('s, 'd, 'q, 'f) IMapImpl \<Rightarrow> 'd \<Rightarrow> ('d, 'c, 'mk, 's, unit) pcomp" where
  "base_removeAllInternal impl predicateData = on_server (im_removeAll impl predicateData)"

definition base_deleteInternal :: "('s, 'd, 'q, 'f) IMapImpl \<Rightarrow> 'd \<Rightarrow> ('d, 'c, 'mk, 's, unit) pcomp" where
  "base_deleteInternal impl key = on_server (im_deleteEntry impl key)"

definition base_tryRemoveInternal :: "('s, 'd, 'q, 'f) IMapImpl \<Rightarrow> 'd \<Rightarrow> int \<Rightarrow> ('d, 'c, 'mk, 's, bool) pcomp" where
  "base_tryRemoveInternal impl key timeoutInMillis = on_server (im_tryRemove impl key timeoutInMillis)"

definition base_tryPutInternal :: "('s, 'd, 'q, 'f) IMapImpl \<Rightarrow> 'd \<Rightarrow> 'd \<Rightarrow> int \<Rightarrow> ('d, 'c, 'mk, 's, bool) pcomp" where
  "base_tryPutInternal impl key v timeoutInMillis = on_server (im_tryPut impl key v timeoutInMillis)"

definition base_putInternal :: "('s, 'd, 'q, 'f) IMapImpl \<Rightarrow> 'd \<Rightarrow> 'd \<Rightarrow> int \<Rightarrow> ('d, 'c, 'mk, 's, 'd option) pcomp" where
  "base_putInternal impl key v timeoutInMillis = on_server (im_putData impl key v timeoutInMillis)"

definition base_tryPutTransientInternal :: "('s, 'd, 'q, 'f) IMapImpl \<Rightarrow> 'd \<Rightarrow> 'd \<Rightarrow> int \<Rightarrow> ('d, 'c, 'mk, 's, unit) pcomp" where
  "base_tryPutTransientInternal impl key v ttlInMillis = on_server (im_putTransient impl key v ttlInMillis)"

definition base_putIfAbsentInternal :: "('s, 'd, 'q, 'f) IMapImpl \<Rightarrow> 'd \<Rightarrow> 'd \<Rightarrow> int \<Rightarrow> ('d, 'c, 'mk, 's, 'd option) pcomp" where
  "base_putIfAbsentInternal impl key v ttlInMillis = on_server (im_putIfAbsentData impl key v ttlInMillis)"

definition base_replaceIfSameInternal :: "('s, 'd, 'q, 'f) IMapImpl \<Rightarrow> 'd \<Rightarrow> 'd \<Rightarrow> 'd \<Rightarrow> ('d, 'c, 'mk, 's, bool) pcomp" where
  "base_replaceIfSameInternal impl key v newValueData = on_server (im_replace impl key v newValueData)"

definition base_replaceInternal :: "('s, 'd, 'q, 'f) IMapImpl \<Rightarrow> 'd \<Rightarrow> 'd \<Rightarrow> ('d, 'c, 'mk, 's, 'd option) pcomp" where
  "base_replaceInternal impl key v = on_server (im_replaceData impl key v)"

definition base_setInternal :: "('s, 'd, 'q, 'f) IMapImpl \<Rightarrow> 'd \<Rightarrow> 'd \<Rightarrow> int \<Rightarrow> ('d, 'c, 'mk, 's, unit) pcomp" where
  "base_setInternal impl key v ttlInMillis = on_server (im_set impl key v ttlInMillis)"

definition base_evictInternal :: "('s, 'd, 'q, 'f) IMapImpl \<Rightarrow> 'd \<Rightarrow> ('d, 'c, 'mk, 's, bool) pcomp" where
  "base_evictInternal impl key = on_server (im_evict impl key)"

definition base_executeOnKeyInternal :: "('s, 'd, 'q, 'f) IMapImpl \<Rightarrow> 'd \<Rightarrow> 'd \<Rightarrow> ('d, 'c, 'mk, 's, 'd option) pcomp" where
  "base_executeOnKeyInternal impl key processor = on_server (im_executeOnKeyData impl key processor)"

definition base_putAllInternal :: "('s, 'd, 'q, 'f) IMapImpl \<Rightarrow> (int \<times> ('d \<times> 'd) list) list \<Rightarrow> ('d, 'c, 'mk, 's, unit) pcomp" where
  "base_putAllInternal impl entries = on_server (im_putAllData impl entries)"

definition base_removeAsyncInternal :: "('s, 'd, 'q, 'f) IMapImpl \<Rightarrow> 'd \<Rightarrow> ('d, 'c, 'mk, 's, 'f) pcomp" where
  "base_removeAsyncInternal impl key = on_server (im_invokeRemove impl key)"

definition base_getAsyncInternal :: "('s, 'd, 'q, 'f) IMapImpl \<Rightarrow> 'd \<Rightarrow> ('d, 'c, 'mk, 's, 'f) pcomp" where
  "base_getAsyncInternal impl key = on_server (im_invokeGet impl key)"

definition base_putAsyncInternal :: "('s, 'd, 'q, 'f) IMapImpl \<Rightarrow> ('k, 'v, 'd, 'q, 'e, 'r) map_codec \<Rightarrow> int \<Rightarrow> TimeUnit \<Rightarrow> int option \<Rightarrow> TimeUnit \<Rightarrow> 'd \<Rightarrow> 'v \<Rightarrow>
    ('d, 'c, 'mk, 's, 'f) pcomp" where
  "base_putAsyncInternal impl cd ttl ttlUnit maxIdle maxIdleUnit key v =
     bindM (liftR (v_toData cd v)) (\<lambda>d. on_server (im_putAsyncData impl ttl ttlUnit maxIdle maxIdleUnit key d))"

definition base_setAsyncInternal :: "('s, 'd, 'q, 'f) IMapImpl \<Rightarrow> ('k, 'v, 'd, 'q, 'e, 'r) map_codec \<Rightarrow> int \<Rightarrow> TimeUnit \<Rightarrow> int option \<Rightarrow> TimeUnit \<Rightarrow> 'd \<Rightarrow> 'v \<Rightarrow>
    ('d, 'c, 'mk, 's, 'f) pcomp" where
  "base_setAsyncInternal impl cd ttl ttlUnit maxIdle maxIdleUnit key v =
     bindM (liftR (v_toData cd v)) (\<lambda>d. on_server (im_setAsyncData impl ttl ttlUnit maxIdle maxIdleUnit key d))"

definition base_getAsync :: "('s, 'd, 'q, 'f) IMapImpl \<Rightarrow> ('k, 'v, 'd, 'q, 'e, 'r) map_codec \<Rightarrow> 'k \<Rightarrow>
    ('d, 'c, 'mk, 's, ('v, 'f) async) pcomp" where
  "base_getAsync impl cd key =
     bindM (liftR (k_toData cd key)) (\<lambda>d. bindM (base_getAsyncInternal impl d) (\<lambda>f. retM (Pending f False)))"

text \<open>
  \<open>getAllInternal\<close>: the keys per partition, the map from serialized keys back to keys, and the loop
  over the answers. \<open>insert\<close> on a \<open>std::map\<close> keeps a value that is already there.
\<close>

definition map_insert :: "'k \<Rightarrow> 'v \<Rightarrow> ('k \<rightharpoonup> 'v) \<Rightarrow> ('k \<rightharpoonup> 'v)" where
  "map_insert k v m = (if m k = None then m(k \<mapsto> v) else m)"

definition partition_keys :: "(int \<times> ('k \<times> 'd) list) list \<Rightarrow> (int \<times> 'd list) list" where
  "partition_keys parts = [(pid, map snd kds). (pid, kds) \<leftarrow> parts, kds \<noteq> []]"

definition data_key_pairs :: "(int \<times> ('k \<times> 'd) list) list \<Rightarrow> ('d \<rightharpoonup> 'k)" where
  "data_key_pairs parts = map_of (rev [(d, k). (pid, kds) \<leftarrow> parts, (k, d) \<leftarrow> kds])"

fun collect_entries :: "('k, 'v, 'd, 'q, 'e, 'r) map_codec \<Rightarrow> ('d \<rightharpoonup> 'k) \<Rightarrow> ('d \<times> 'd) list \<Rightarrow> ('k \<rightharpoonup> 'v) \<Rightarrow>
    (('d \<times> 'd) list \<times> ('k \<rightharpoonup> 'v)) res" where
  "collect_entries cd keys [] result = Inr ([], result)"
| "collect_entries cd keys ((kd, vd) # es) result =
     bindR (v_toObject cd vd) (\<lambda>v.
       case keys kd of
         None \<Rightarrow> Inl AssertionFailure
       | Some k \<Rightarrow>
           bindR (deref_ptr v) (\<lambda>x.
           bindR (collect_entries cd keys es (map_insert k x result)) (\<lambda>(responses, result').
             Inr ((kd, vd) # responses, result'))))"

definition base_getAllInternal :: "('s, 'd, 'q, 'f) IMapImpl \<Rightarrow> ('k, 'v, 'd, 'q, 'e, 'r) map_codec \<Rightarrow>
    (int \<times> ('k \<times> 'd) list) list \<Rightarrow> ('k \<rightharpoonup> 'v) \<Rightarrow> ('d, 'c, 'mk, 's, ('d \<times> 'd) list \<times> ('k \<rightharpoonup> 'v)) pcomp" where
  "base_getAllInternal impl cd parts result =
     bindM (on_server (im_getAllData impl (partition_keys parts))) (\<lambda>allData.
       liftR (collect_entries cd (data_key_pairs parts) allData result))"

definition ClientMapProxy_vt :: "('s, 'd, 'q, 'f) IMapImpl \<Rightarrow> ('k, 'v, 'd, 'q, 'e, 'r) map_codec \<Rightarrow>
    ('d, 'k, 'v, 'f, ('d, 'c, 'mk, 's) map_proxy) map_vt" where
  "ClientMapProxy_vt impl cd =
     \<lparr>vt_containsKeyInternal = (\<lambda>_. base_containsKeyInternal impl),
      vt_getInternal = (\<lambda>_. base_getInternal impl cd),
      vt_removeInternal = base_removeInternal impl,
      vt_removeInternal_value = base_removeInternal_value impl,
      vt_removeAllInternal = base_removeAllInternal impl,
      vt_deleteInternal = base_deleteInternal impl,
      vt_tryRemoveInternal = base_tryRemoveInternal impl,
      vt_tryPutInternal = base_tryPutInternal impl,
      vt_putInternal = base_putInternal impl,
      vt_tryPutTransientInternal = base_tryPutTransientInternal impl,
      vt_putIfAbsentInternal = base_putIfAbsentInternal impl,
      vt_replaceIfSameInternal = base_replaceIfSameInternal impl,
      vt_replaceInternal = base_replaceInternal impl,
      vt_setInternal = base_setInternal impl,
      vt_evictInternal = base_evictInternal impl,
      vt_getAllInternal = (\<lambda>_. base_getAllInternal impl cd),
      vt_executeOnKeyInternal = base_executeOnKeyInternal impl,
      vt_putAllInternal = base_putAllInternal impl,
      vt_removeAsyncInternal = base_removeAsyncInternal impl,
      vt_putAsyncInternal = base_putAsyncInternal impl cd,
      vt_getAsync = (\<lambda>_. base_getAsync impl cd),
      vt_setAsyncInternal = base_setAsyncInternal impl cd\<rparr>"

section \<open>NearCachedClientMapProxy\<close>

text \<open>The concrete store behind the near cache and the marker.\<close>

record ('d, 'v, 'c, 'mk) near_ops =
  no_kind :: "('d, 'v, 'd, 'c) store_kind"
  no_marker :: "('mk, 'd) marker_ops"

definition invalidateNearCache :: "('d::linorder, 'v, 'c, 'mk) near_ops \<Rightarrow> 'd \<Rightarrow> ('d, 'c, 'mk, 's, unit) pcomp" where
  "invalidateNearCache no key = bindM (on_near (aw_invalidate (no_kind no) (no_marker no) key)) (\<lambda>_. retM ())"

definition near_clear :: "('d, 'v, 'c, 'mk) near_ops \<Rightarrow> ('d, 'c, 'mk, 's, unit) pcomp" where
  "near_clear no = on_near (aw_clear (no_marker no))"

definition pr_tryMark :: "('d, 'v, 'c, 'mk) near_ops \<Rightarrow> 'd \<Rightarrow> ('d, 'c, 'mk, 's, bool) pcomp" where
  "pr_tryMark no key = on_near (\<lambda>a. case tryMark (no_marker no) key (keyStateMarker a) of
     (b, m) \<Rightarrow> (Inr b, a\<lparr>keyStateMarker := m\<rparr>))"

definition pr_tryUnmark :: "('d, 'v, 'c, 'mk) near_ops \<Rightarrow> 'd \<Rightarrow> ('d, 'c, 'mk, 's, bool) pcomp" where
  "pr_tryUnmark no key = on_near (\<lambda>a. case tryUnmark (no_marker no) key (keyStateMarker a) of
     (b, m) \<Rightarrow> (Inr b, a\<lparr>keyStateMarker := m\<rparr>))"

definition pr_forceUnmark :: "('d, 'v, 'c, 'mk) near_ops \<Rightarrow> 'd \<Rightarrow> ('d, 'c, 'mk, 's, unit) pcomp" where
  "pr_forceUnmark no key = on_near (\<lambda>a. (Inr (), a\<lparr>keyStateMarker := forceUnmark (no_marker no) key (keyStateMarker a)\<rparr>))"

definition resetToUnmarkedState :: "('d::linorder, 'v, 'c, 'mk) near_ops \<Rightarrow> 'd \<Rightarrow> ('d, 'c, 'mk, 's, unit) pcomp" where
  "resetToUnmarkedState no key =
     bindM (pr_tryUnmark no key) (\<lambda>unmarked.
       if unmarked then retM ()
       else bindM (invalidateNearCache no key) (\<lambda>_. pr_forceUnmark no key))"

definition tryToPutNearCache :: "('d::linorder, 'v, 'c, 'mk) near_ops \<Rightarrow> near_env \<Rightarrow> 'd \<Rightarrow> 'v option \<Rightarrow>
    ('d, 'c, 'mk, 's, unit) pcomp" where
  "tryToPutNearCache no env key response =
     catchM (bindM (on_near (aw_put (no_kind no) (ne_evict env) (ne_put1 env) (ne_put2 env) (Some key) response))
               (\<lambda>_. resetToUnmarkedState no key))
       (resetToUnmarkedState no key)"

definition tryToPutNearCache_data :: "('d::linorder, 'v, 'c, 'mk) near_ops \<Rightarrow> near_env \<Rightarrow> 'd \<Rightarrow> 'd option \<Rightarrow>
    ('d, 'c, 'mk, 's, unit) pcomp" where
  "tryToPutNearCache_data no env key response =
     catchM (bindM (on_near (aw_put_data (no_kind no) (ne_evict env) (ne_put1 env) (ne_put2 env) (Some key) response))
               (\<lambda>_. resetToUnmarkedState no key))
       (resetToUnmarkedState no key)"

definition near_get :: "('d::linorder, 'v, 'c, 'mk) near_ops \<Rightarrow> near_env \<Rightarrow> 'd \<Rightarrow> ('d, 'c, 'mk, 's, 'v cached) pcomp" where
  "near_get no env key = on_near (aw_get (no_kind no) (ne_get1 env) (ne_get2 env) (Some key))"

definition near_containsKeyInternal :: "('s, 'd, 'q, 'f) IMapImpl \<Rightarrow> ('d::linorder, 'v, 'c, 'mk) near_ops \<Rightarrow> near_env \<Rightarrow> 'd \<Rightarrow>
    ('d, 'c, 'mk, 's, bool) pcomp" where
  "near_containsKeyInternal impl no env key =
     bindM (near_get no env key) (\<lambda>cached.
       case cached of
         NotCached \<Rightarrow> base_containsKeyInternal impl key
       | NullObject \<Rightarrow> retM False
       | Cached v \<Rightarrow> retM True)"

definition near_getInternal :: "('s, 'd, 'q, 'f) IMapImpl \<Rightarrow> ('k, 'v, 'd, 'q, 'e, 'r) map_codec \<Rightarrow>
    ('d::linorder, 'v, 'c, 'mk) near_ops \<Rightarrow> near_env \<Rightarrow> 'd \<Rightarrow> ('d, 'c, 'mk, 's, 'v option) pcomp" where
  "near_getInternal impl cd no env key =
     bindM (near_get no env key) (\<lambda>cached.
       case cached of
         Cached v \<Rightarrow> retM (Some v)
       | NullObject \<Rightarrow> retM None
       | NotCached \<Rightarrow>
           bindM (pr_tryMark no key) (\<lambda>marked.
             catchM
               (bindM (base_getInternal impl cd key) (\<lambda>v.
                bindM (if marked then tryToPutNearCache no env key v else retM ()) (\<lambda>_.
                retM v)))
               (resetToUnmarkedState no key)))"

text \<open>The pattern of the overridden writes: invalidate on success and on an exception.\<close>

definition invalidating :: "('d::linorder, 'v, 'c, 'mk) near_ops \<Rightarrow> 'd \<Rightarrow> ('d, 'c, 'mk, 's, 'a) pcomp \<Rightarrow>
    ('d, 'c, 'mk, 's, 'a) pcomp" where
  "invalidating no key f =
     catchM (bindM f (\<lambda>r. bindM (invalidateNearCache no key) (\<lambda>_. retM r))) (invalidateNearCache no key)"

definition near_removeInternal :: "('s, 'd, 'q, 'f) IMapImpl \<Rightarrow> ('d::linorder, 'v, 'c, 'mk) near_ops \<Rightarrow> 'd \<Rightarrow> 
    ('d, 'c, 'mk, 's, 'd option) pcomp" where
  "near_removeInternal impl no key = invalidating no key (base_removeInternal impl key)"

definition near_removeInternal_value :: "('s, 'd, 'q, 'f) IMapImpl \<Rightarrow> ('d::linorder, 'v, 'c, 'mk) near_ops \<Rightarrow> 'd \<Rightarrow> 'd \<Rightarrow> 
    ('d, 'c, 'mk, 's, bool) pcomp" where
  "near_removeInternal_value impl no key v = invalidating no key (base_removeInternal_value impl key v)"

definition near_deleteInternal :: "('s, 'd, 'q, 'f) IMapImpl \<Rightarrow> ('d::linorder, 'v, 'c, 'mk) near_ops \<Rightarrow> 'd \<Rightarrow> 
    ('d, 'c, 'mk, 's, unit) pcomp" where
  "near_deleteInternal impl no key = invalidating no key (base_deleteInternal impl key)"

definition near_tryRemoveInternal :: "('s, 'd, 'q, 'f) IMapImpl \<Rightarrow> ('d::linorder, 'v, 'c, 'mk) near_ops \<Rightarrow> 'd \<Rightarrow> int \<Rightarrow> 
    ('d, 'c, 'mk, 's, bool) pcomp" where
  "near_tryRemoveInternal impl no key timeoutInMillis = invalidating no key (base_tryRemoveInternal impl key timeoutInMillis)"

definition near_tryPutInternal :: "('s, 'd, 'q, 'f) IMapImpl \<Rightarrow> ('d::linorder, 'v, 'c, 'mk) near_ops \<Rightarrow> 'd \<Rightarrow> 'd \<Rightarrow> int \<Rightarrow> 
    ('d, 'c, 'mk, 's, bool) pcomp" where
  "near_tryPutInternal impl no key v timeoutInMillis = invalidating no key (base_tryPutInternal impl key v timeoutInMillis)"

definition near_putInternal :: "('s, 'd, 'q, 'f) IMapImpl \<Rightarrow> ('d::linorder, 'v, 'c, 'mk) near_ops \<Rightarrow> 'd \<Rightarrow> 'd \<Rightarrow> int \<Rightarrow> 
    ('d, 'c, 'mk, 's, 'd option) pcomp" where
  "near_putInternal impl no key v timeoutInMillis = invalidating no key (base_putInternal impl key v timeoutInMillis)"

definition near_tryPutTransientInternal :: "('s, 'd, 'q, 'f) IMapImpl \<Rightarrow> ('d::linorder, 'v, 'c, 'mk) near_ops \<Rightarrow> 'd \<Rightarrow> 'd \<Rightarrow> int \<Rightarrow> 
    ('d, 'c, 'mk, 's, unit) pcomp" where
  "near_tryPutTransientInternal impl no key v ttlInMillis = invalidating no key (base_tryPutTransientInternal impl key v ttlInMillis)"

definition near_putIfAbsentInternal :: "('s, 'd, 'q, 'f) IMapImpl \<Rightarrow> ('d::linorder, 'v, 'c, 'mk) near_ops \<Rightarrow> 'd \<Rightarrow> 'd \<Rightarrow> int \<Rightarrow> 
    ('d, 'c, 'mk, 's, 'd option) pcomp" where
  "near_putIfAbsentInternal impl no key v ttlInMillis = invalidating no key (base_putIfAbsentInternal impl key v ttlInMillis)"

definition near_replaceIfSameInternal :: "('s, 'd, 'q, 'f) IMapImpl \<Rightarrow> ('d::linorder, 'v, 'c, 'mk) near_ops \<Rightarrow> 'd \<Rightarrow> 'd \<Rightarrow> 'd \<Rightarrow> 
    ('d, 'c, 'mk, 's, bool) pcomp" where
  "near_replaceIfSameInternal impl no key v newValueData = invalidating no key (base_replaceIfSameInternal impl key v newValueData)"

definition near_setInternal :: "('s, 'd, 'q, 'f) IMapImpl \<Rightarrow> ('d::linorder, 'v, 'c, 'mk) near_ops \<Rightarrow> 'd \<Rightarrow> 'd \<Rightarrow> int \<Rightarrow> 
    ('d, 'c, 'mk, 's, unit) pcomp" where
  "near_setInternal impl no key v ttlInMillis = invalidating no key (base_setInternal impl key v ttlInMillis)"

definition near_evictInternal :: "('s, 'd, 'q, 'f) IMapImpl \<Rightarrow> ('d::linorder, 'v, 'c, 'mk) near_ops \<Rightarrow> 'd \<Rightarrow> 
    ('d, 'c, 'mk, 's, bool) pcomp" where
  "near_evictInternal impl no key = invalidating no key (base_evictInternal impl key)"

definition near_executeOnKeyInternal :: "('s, 'd, 'q, 'f) IMapImpl \<Rightarrow> ('d::linorder, 'v, 'c, 'mk) near_ops \<Rightarrow> 'd \<Rightarrow> 'd \<Rightarrow> 
    ('d, 'c, 'mk, 's, 'd option) pcomp" where
  "near_executeOnKeyInternal impl no key processor = invalidating no key (base_executeOnKeyInternal impl key processor)"

definition near_removeAsyncInternal :: "('s, 'd, 'q, 'f) IMapImpl \<Rightarrow> ('d::linorder, 'v, 'c, 'mk) near_ops \<Rightarrow> 'd \<Rightarrow> 
    ('d, 'c, 'mk, 's, 'f) pcomp" where
  "near_removeAsyncInternal impl no key = invalidating no key (base_removeAsyncInternal impl key)"

definition near_putAsyncInternal :: "('s, 'd, 'q, 'f) IMapImpl \<Rightarrow> ('k, 'v, 'd, 'q, 'e, 'r) map_codec \<Rightarrow> ('d::linorder, 'v, 'c, 'mk) near_ops \<Rightarrow> int \<Rightarrow> TimeUnit \<Rightarrow>
    int option \<Rightarrow> TimeUnit \<Rightarrow> 'd \<Rightarrow> 'v \<Rightarrow> ('d, 'c, 'mk, 's, 'f) pcomp" where
  "near_putAsyncInternal impl cd no ttl ttlUnit maxIdle maxIdleUnit key v =
     invalidating no key (base_putAsyncInternal impl cd ttl ttlUnit maxIdle maxIdleUnit key v)"

definition near_setAsyncInternal :: "('s, 'd, 'q, 'f) IMapImpl \<Rightarrow> ('k, 'v, 'd, 'q, 'e, 'r) map_codec \<Rightarrow> ('d::linorder, 'v, 'c, 'mk) near_ops \<Rightarrow> int \<Rightarrow> TimeUnit \<Rightarrow>
    int option \<Rightarrow> TimeUnit \<Rightarrow> 'd \<Rightarrow> 'v \<Rightarrow> ('d, 'c, 'mk, 's, 'f) pcomp" where
  "near_setAsyncInternal impl cd no ttl ttlUnit maxIdle maxIdleUnit key v =
     invalidating no key (base_setAsyncInternal impl cd ttl ttlUnit maxIdle maxIdleUnit key v)"

definition near_removeAllInternal :: "('s, 'd, 'q, 'f) IMapImpl \<Rightarrow> ('d::linorder, 'v, 'c, 'mk) near_ops \<Rightarrow> 'd \<Rightarrow>
    ('d, 'c, 'mk, 's, unit) pcomp" where
  "near_removeAllInternal impl no predicateData =
     catchM (bindM (base_removeAllInternal impl predicateData) (\<lambda>_. near_clear no)) (near_clear no)"

text \<open>\<open>replaceInternal\<close> has no handler.\<close>

definition near_replaceInternal :: "('s, 'd, 'q, 'f) IMapImpl \<Rightarrow> ('d::linorder, 'v, 'c, 'mk) near_ops \<Rightarrow> 'd \<Rightarrow> 'd \<Rightarrow>
    ('d, 'c, 'mk, 's, 'd option) pcomp" where
  "near_replaceInternal impl no key v =
     bindM (base_replaceInternal impl key v) (\<lambda>r. bindM (invalidateNearCache no key) (\<lambda>_. retM r))"

definition invalidateEntries :: "('d::linorder, 'v, 'c, 'mk) near_ops \<Rightarrow> (int \<times> ('d \<times> 'd) list) list \<Rightarrow>
    ('d, 'c, 'mk, 's, unit) pcomp" where
  "invalidateEntries no entries = forM (\<lambda>(pid, es). forM (\<lambda>e. invalidateNearCache no (fst e)) es) entries"

definition near_putAllInternal :: "('s, 'd, 'q, 'f) IMapImpl \<Rightarrow> ('d::linorder, 'v, 'c, 'mk) near_ops \<Rightarrow>
    (int \<times> ('d \<times> 'd) list) list \<Rightarrow> ('d, 'c, 'mk, 's, unit) pcomp" where
  "near_putAllInternal impl no entries =
     catchM (bindM (base_putAllInternal impl entries) (\<lambda>_. invalidateEntries no entries)) (invalidateEntries no entries)"

text \<open>
  \<open>getAllInternal\<close> keeps the marks it made in a local map, which its handler needs: the loops run on
  the proxy together with that map.
\<close>

type_synonym ('d, 'c, 'mk, 's, 'a) mcomp = "(('d, 'c, 'mk, 's) map_proxy \<times> ('d, bool) sync_map, 'a) comp"

definition on_proxy :: "('d, 'c, 'mk, 's, 'a) pcomp \<Rightarrow> ('d, 'c, 'mk, 's, 'a) mcomp" where
  "on_proxy f pm = (case f (fst pm) of (r, p) \<Rightarrow> (r, (p, snd pm)))"

definition set_mark :: "'d::linorder \<Rightarrow> bool \<Rightarrow> ('d, 'c, 'mk, 's, unit) mcomp" where
  "set_mark key b pm = (Inr (), (fst pm, sm_assign key (Some b) (snd pm)))"

definition take_mark :: "'d::linorder \<Rightarrow> ('d, 'c, 'mk, 's, bool) mcomp" where
  "take_mark key pm =
     (if sm_containsKey key (snd pm) then (Inr (sm_at key (snd pm) = Some True), (fst pm, sm_erase key (snd pm)))
      else (Inr False, pm))"

fun unmarkRemainingMarkedKeys :: "('d, 'v, 'c, 'mk) near_ops \<Rightarrow> ('d \<times> bool option) list \<Rightarrow> ('d, 'c, 'mk, 's, unit) pcomp" where
  "unmarkRemainingMarkedKeys no [] = retM ()"
| "unmarkRemainingMarkedKeys no ((key, marked) # ms) =
     bindM (if marked = Some True then pr_forceUnmark no key else retM ()) (\<lambda>_. unmarkRemainingMarkedKeys no ms)"

fun mark_keys :: "('k, 'v, 'd, 'q, 'e, 'r) map_codec \<Rightarrow> ('d::linorder, 'v, 'c, 'mk) near_ops \<Rightarrow> ('d \<Rightarrow> near_env) \<Rightarrow>
    ('k \<times> 'd) list \<Rightarrow> ('k \<rightharpoonup> 'v) \<Rightarrow> ('d, 'c, 'mk, 's, 'k \<rightharpoonup> 'v) mcomp" where
  "mark_keys cd no envs [] result = retM result"
| "mark_keys cd no envs ((k, d) # kds) result =
     bindM (on_proxy (near_get no (envs d) d)) (\<lambda>cached.
       case cached of
         Cached v \<Rightarrow>
           bindM (liftR (bindR (k_toObject cd d) deref_ptr)) (\<lambda>key. mark_keys cd no envs kds (map_insert key v result))
       | _ \<Rightarrow> (\<lambda>pm.
           if pr_invalidateOnChange (fst pm) then
             bindM (on_proxy (pr_tryMark no d)) (\<lambda>b.
             bindM (set_mark d b) (\<lambda>_. mark_keys cd no envs kds result)) pm
           else mark_keys cd no envs kds result pm))"

fun put_responses :: "('d::linorder, 'v, 'c, 'mk) near_ops \<Rightarrow> ('d \<Rightarrow> near_env) \<Rightarrow> ('d \<times> 'd) list \<Rightarrow>
    ('d, 'c, 'mk, 's, unit) mcomp" where
  "put_responses no envs [] = retM ()"
| "put_responses no envs ((key, v) # es) =
     bindM (take_mark key) (\<lambda>marked.
     bindM (on_proxy
              (if marked then tryToPutNearCache_data no (envs key) key (Some v)
               else on_near (aw_put_data (no_kind no) (ne_evict (envs key)) (ne_put1 (envs key)) (ne_put2 (envs key))
                      (Some key) (Some v)))) (\<lambda>_.
     put_responses no envs es))"

definition near_getAllInternal :: "('s, 'd, 'q, 'f) IMapImpl \<Rightarrow> ('k, 'v, 'd, 'q, 'e, 'r) map_codec \<Rightarrow>
    ('d::linorder, 'v, 'c, 'mk) near_ops \<Rightarrow> ('d \<Rightarrow> near_env) \<Rightarrow> (int \<times> ('k \<times> 'd) list) list \<Rightarrow> ('k \<rightharpoonup> 'v) \<Rightarrow>
    ('d, 'c, 'mk, 's, ('d \<times> 'd) list \<times> ('k \<rightharpoonup> 'v)) pcomp" where
  "near_getAllInternal impl cd no envs parts result p =
     (case bindM (mark_keys cd no envs (concat (map snd parts)) result) (\<lambda>result1.
           bindM (on_proxy (base_getAllInternal impl cd parts result1)) (\<lambda>(responses, result2).
           bindM (put_responses no envs responses) (\<lambda>_.
           (\<lambda>pm. bindM (on_proxy (unmarkRemainingMarkedKeys no (snd pm))) (\<lambda>_. retM (responses, result2)) pm)))) (p, []) of
        (Inr x, (p', _)) \<Rightarrow> (Inr x, p')
      | (Inl e, (p', markers)) \<Rightarrow>
          if caught e then
            (case unmarkRemainingMarkedKeys no markers p' of (Inl e', p'') \<Rightarrow> (Inl e', p'') | (Inr _, p'') \<Rightarrow> (Inl e, p''))
          else (Inl e, p'))"

definition near_getAsync :: "('s, 'd, 'q, 'f) IMapImpl \<Rightarrow> ('k, 'v, 'd, 'q, 'e, 'r) map_codec \<Rightarrow>
    ('d::linorder, 'v, 'c, 'mk) near_ops \<Rightarrow> near_env \<Rightarrow> 'k \<Rightarrow> ('d, 'c, 'mk, 's, ('v, 'f) async) pcomp" where
  "near_getAsync impl cd no env key =
     bindM (liftR (k_toData cd key)) (\<lambda>ncKey.
     bindM (near_get no env ncKey) (\<lambda>cached.
       case cached of
         NullObject \<Rightarrow> retM (Completed None)
       | Cached v \<Rightarrow> retM (Completed (Some v))
       | NotCached \<Rightarrow>
           bindM (pr_tryMark no ncKey) (\<lambda>marked.
             catchM (bindM (base_getAsyncInternal impl ncKey) (\<lambda>f. retM (Pending f marked)))
               (resetToUnmarkedState no ncKey))))"

definition getAsync_onResponse :: "('d::linorder, 'v, 'c, 'mk) near_ops \<Rightarrow> near_env \<Rightarrow> 'd \<Rightarrow> 'v option \<Rightarrow>
    ('d, 'c, 'mk, 's, unit) pcomp" where
  "getAsync_onResponse no env ncKey v = tryToPutNearCache no env ncKey v"

definition getAsync_onFailure :: "('d::linorder, 'v, 'c, 'mk) near_ops \<Rightarrow> 'd \<Rightarrow> ('d, 'c, 'mk, 's, unit) pcomp" where
  "getAsync_onFailure no ncKey = resetToUnmarkedState no ncKey"

text \<open>Invalidation events from the cluster; a null key clears the near cache.\<close>

definition beforeListenerRegister :: "('d, 'v, 'c, 'mk) near_ops \<Rightarrow> ('d, 'c, 'mk, 's, unit) pcomp" where
  "beforeListenerRegister no = near_clear no"

definition onListenerRegister :: "('d, 'v, 'c, 'mk) near_ops \<Rightarrow> ('d, 'c, 'mk, 's, unit) pcomp" where
  "onListenerRegister no = near_clear no"

definition handleIMapInvalidationEvent :: "('d::linorder, 'v, 'c, 'mk) near_ops \<Rightarrow> 'd option \<Rightarrow>
    ('d, 'c, 'mk, 's, unit) pcomp" where
  "handleIMapInvalidationEvent no key =
     (case key of None \<Rightarrow> near_clear no | Some k \<Rightarrow> invalidateNearCache no k)"

definition handleIMapBatchInvalidationEvent :: "('d::linorder, 'v, 'c, 'mk) near_ops \<Rightarrow> 'd list \<Rightarrow>
    ('d, 'c, 'mk, 's, unit) pcomp" where
  "handleIMapBatchInvalidationEvent no keys = forM (invalidateNearCache no) keys"

text \<open>A failure to register the invalidation listener is logged and swallowed.\<close>

definition addNearCacheInvalidateListener :: "('d, 'c, 'mk, 's, string) pcomp \<Rightarrow> ('d, 'c, 'mk, 's, unit) pcomp" where
  "addNearCacheInvalidateListener registerListener p =
     (case registerListener p of
        (Inr registration, p') \<Rightarrow> (Inr (), p'\<lparr>pr_listenerId := registration\<rparr>)
      | (Inl e, p') \<Rightarrow> if caught e then (Inr (), p') else (Inl e, p'))"

definition removeNearCacheInvalidationListener :: "(string \<Rightarrow> ('d, 'c, 'mk, 's, unit) pcomp) \<Rightarrow> ('d, 'c, 'mk, 's, unit) pcomp" where
  "removeNearCacheInvalidationListener deregisterListener p =
     (if pr_listenerId p = [] then (Inr (), p) else deregisterListener (pr_listenerId p) p)"

definition near_onInitialize :: "EvictionPolicyType \<Rightarrow> (nat \<Rightarrow> 'mk) \<Rightarrow> nat \<Rightarrow> 'n::linorder \<Rightarrow>
    ('d, 'c) comparator NearCacheConfig \<Rightarrow> ('d, 'c, 'mk, 's, string) pcomp \<Rightarrow>
    (('n, 'd, 'c) nc_manager \<times> ('d, 'c, 'mk, 's) map_proxy, unit) comp" where
  "near_onInitialize junk new_marker partitionCount name config registerListener mp =
     (case getOrCreateNearCache junk name config (fst mp) of
        (Inl e, mgr) \<Rightarrow> (Inl e, (mgr, snd mp))
      | (Inr nc, mgr) \<Rightarrow>
          (let p = (snd mp)\<lparr>pr_nearCache := Some (asInvalidationAware new_marker partitionCount nc),
                            pr_invalidateOnChange := nc_isInvalidatedOnChange nc\<rparr>
           in if pr_invalidateOnChange p
              then (case addNearCacheInvalidateListener registerListener p of (r, p') \<Rightarrow> (r, (mgr, p')))
              else (Inr (), (mgr, p))))"

definition NearCachedClientMapProxy_vt :: "('s, 'd, 'q, 'f) IMapImpl \<Rightarrow> ('k, 'v, 'd, 'q, 'e, 'r) map_codec \<Rightarrow>
    ('d::linorder, 'v, 'c, 'mk) near_ops \<Rightarrow> ('d, 'k, 'v, 'f, ('d, 'c, 'mk, 's) map_proxy) map_vt" where
  "NearCachedClientMapProxy_vt impl cd no =
     \<lparr>vt_containsKeyInternal = near_containsKeyInternal impl no,
      vt_getInternal = near_getInternal impl cd no,
      vt_removeInternal = near_removeInternal impl no,
      vt_removeInternal_value = near_removeInternal_value impl no,
      vt_removeAllInternal = near_removeAllInternal impl no,
      vt_deleteInternal = near_deleteInternal impl no,
      vt_tryRemoveInternal = near_tryRemoveInternal impl no,
      vt_tryPutInternal = near_tryPutInternal impl no,
      vt_putInternal = near_putInternal impl no,
      vt_tryPutTransientInternal = near_tryPutTransientInternal impl no,
      vt_putIfAbsentInternal = near_putIfAbsentInternal impl no,
      vt_replaceIfSameInternal = near_replaceIfSameInternal impl no,
      vt_replaceInternal = near_replaceInternal impl no,
      vt_setInternal = near_setInternal impl no,
      vt_evictInternal = near_evictInternal impl no,
      vt_getAllInternal = near_getAllInternal impl cd no,
      vt_executeOnKeyInternal = near_executeOnKeyInternal impl no,
      vt_putAllInternal = near_putAllInternal impl no,
      vt_removeAsyncInternal = near_removeAsyncInternal impl no,
      vt_putAsyncInternal = near_putAsyncInternal impl cd no,
      vt_getAsync = near_getAsync impl cd no,
      vt_setAsyncInternal = near_setAsyncInternal impl cd no\<rparr>"

text \<open>\<open>ClientMapProxyFactory::create\<close>: a near cache configuration for the map's name decides the class.\<close>

definition ClientMapProxyFactory_create :: "('s, 'd, 'q, 'f) IMapImpl \<Rightarrow> ('k, 'v, 'd, 'q, 'e, 'r) map_codec \<Rightarrow>
    ('d::linorder, 'v, 'c, 'mk) near_ops \<Rightarrow> (string \<Rightarrow> ('d, 'c) comparator NearCacheConfig option) \<Rightarrow> string \<Rightarrow>
    ('d, 'k, 'v, 'f, ('d, 'c, 'mk, 's) map_proxy) map_vt" where
  "ClientMapProxyFactory_create impl cd no getNearCacheConfig name =
     (if getNearCacheConfig name \<noteq> None then NearCachedClientMapProxy_vt impl cd no else ClientMapProxy_vt impl cd)"

section \<open>ClientMapProxy: the public operations\<close>

definition mp_containsKey :: "('d, 'k, 'v, 'f, ('d, 'c, 'mk, 's) map_proxy) map_vt \<Rightarrow> ('k, 'v, 'd, 'q, 'e, 'r) map_codec \<Rightarrow> near_env \<Rightarrow> 'k \<Rightarrow> 
    ('d, 'c, 'mk, 's, bool) pcomp" where
  "mp_containsKey vt cd env key =
     bindM (liftR (k_toData cd key)) (\<lambda>keyData. vt_containsKeyInternal vt env keyData)"

definition mp_containsValue :: "('s, 'd, 'q, 'f) IMapImpl \<Rightarrow> ('k, 'v, 'd, 'q, 'e, 'r) map_codec \<Rightarrow> 'v \<Rightarrow> ('d, 'c, 'mk, 's, bool) pcomp" where
  "mp_containsValue impl cd v = bindM (liftR (v_toData cd v)) (\<lambda>d. on_server (im_containsValue impl d))"

definition mp_get :: "('d, 'k, 'v, 'f, ('d, 'c, 'mk, 's) map_proxy) map_vt \<Rightarrow> ('k, 'v, 'd, 'q, 'e, 'r) map_codec \<Rightarrow> near_env \<Rightarrow> 'k \<Rightarrow> 
    ('d, 'c, 'mk, 's, 'v option) pcomp" where
  "mp_get vt cd env key =
     bindM (liftR (k_toData cd key)) (\<lambda>keyData. vt_getInternal vt env keyData)"

definition mp_put_ttl :: "('d, 'k, 'v, 'f, ('d, 'c, 'mk, 's) map_proxy) map_vt \<Rightarrow> ('k, 'v, 'd, 'q, 'e, 'r) map_codec \<Rightarrow> 'k \<Rightarrow> 'v \<Rightarrow> int \<Rightarrow> 
    ('d, 'c, 'mk, 's, 'v option) pcomp" where
  "mp_put_ttl vt cd key v ttlInMillis =
     bindM (liftR (k_toData cd key)) (\<lambda>keyData. 
     bindM (liftR (v_toData cd v)) (\<lambda>valueData. 
     bindM (vt_putInternal vt keyData valueData ttlInMillis) (\<lambda>d. liftR (toObject_auto (v_toObject cd) d))))"

definition mp_put :: "('d, 'k, 'v, 'f, ('d, 'c, 'mk, 's) map_proxy) map_vt \<Rightarrow> ('k, 'v, 'd, 'q, 'e, 'r) map_codec \<Rightarrow> 'k \<Rightarrow> 'v \<Rightarrow> ('d, 'c, 'mk, 's, 'v option) pcomp" where
  "mp_put vt cd key v = mp_put_ttl vt cd key v (- 1)"

definition mp_remove :: "('d, 'k, 'v, 'f, ('d, 'c, 'mk, 's) map_proxy) map_vt \<Rightarrow> ('k, 'v, 'd, 'q, 'e, 'r) map_codec \<Rightarrow> 'k \<Rightarrow> 
    ('d, 'c, 'mk, 's, 'v option) pcomp" where
  "mp_remove vt cd key =
     bindM (liftR (k_toData cd key)) (\<lambda>keyData. 
     bindM (vt_removeInternal vt keyData) (\<lambda>d. liftR (toObject_auto (v_toObject cd) d)))"

definition mp_remove_value :: "('d, 'k, 'v, 'f, ('d, 'c, 'mk, 's) map_proxy) map_vt \<Rightarrow> ('k, 'v, 'd, 'q, 'e, 'r) map_codec \<Rightarrow> 'k \<Rightarrow> 'v \<Rightarrow> 
    ('d, 'c, 'mk, 's, bool) pcomp" where
  "mp_remove_value vt cd key v =
     bindM (liftR (k_toData cd key)) (\<lambda>keyData. 
     bindM (liftR (v_toData cd v)) (\<lambda>valueData. vt_removeInternal_value vt keyData valueData))"

definition mp_removeAll :: "('d, 'k, 'v, 'f, ('d, 'c, 'mk, 's) map_proxy) map_vt \<Rightarrow> ('k, 'v, 'd, 'q, 'e, 'r) map_codec \<Rightarrow> 'q \<Rightarrow> ('d, 'c, 'mk, 's, unit) pcomp" where
  "mp_removeAll vt cd predicate = bindM (liftR (q_toData cd predicate)) (\<lambda>d. vt_removeAllInternal vt d)"

definition mp_deleteEntry :: "('d, 'k, 'v, 'f, ('d, 'c, 'mk, 's) map_proxy) map_vt \<Rightarrow> ('k, 'v, 'd, 'q, 'e, 'r) map_codec \<Rightarrow> 'k \<Rightarrow> 
    ('d, 'c, 'mk, 's, unit) pcomp" where
  "mp_deleteEntry vt cd key =
     bindM (liftR (k_toData cd key)) (\<lambda>keyData. vt_deleteInternal vt keyData)"

definition mp_flush :: "('s, 'd, 'q, 'f) IMapImpl \<Rightarrow> ('d, 'c, 'mk, 's, unit) pcomp" where
  "mp_flush impl = on_server (im_flush impl)"

definition mp_tryRemove :: "('d, 'k, 'v, 'f, ('d, 'c, 'mk, 's) map_proxy) map_vt \<Rightarrow> ('k, 'v, 'd, 'q, 'e, 'r) map_codec \<Rightarrow> 'k \<Rightarrow> int \<Rightarrow> 
    ('d, 'c, 'mk, 's, bool) pcomp" where
  "mp_tryRemove vt cd key timeoutInMillis =
     bindM (liftR (k_toData cd key)) (\<lambda>keyData. vt_tryRemoveInternal vt keyData timeoutInMillis)"

definition mp_tryPut :: "('d, 'k, 'v, 'f, ('d, 'c, 'mk, 's) map_proxy) map_vt \<Rightarrow> ('k, 'v, 'd, 'q, 'e, 'r) map_codec \<Rightarrow> 'k \<Rightarrow> 'v \<Rightarrow> int \<Rightarrow> 
    ('d, 'c, 'mk, 's, bool) pcomp" where
  "mp_tryPut vt cd key v timeoutInMillis =
     bindM (liftR (k_toData cd key)) (\<lambda>keyData. 
     bindM (liftR (v_toData cd v)) (\<lambda>valueData. vt_tryPutInternal vt keyData valueData timeoutInMillis))"

definition mp_putTransient :: "('d, 'k, 'v, 'f, ('d, 'c, 'mk, 's) map_proxy) map_vt \<Rightarrow> ('k, 'v, 'd, 'q, 'e, 'r) map_codec \<Rightarrow> 'k \<Rightarrow> 'v \<Rightarrow> int \<Rightarrow> 
    ('d, 'c, 'mk, 's, unit) pcomp" where
  "mp_putTransient vt cd key v ttlInMillis =
     bindM (liftR (k_toData cd key)) (\<lambda>keyData. 
     bindM (liftR (v_toData cd v)) (\<lambda>valueData. vt_tryPutTransientInternal vt keyData valueData ttlInMillis))"

definition mp_putIfAbsent_ttl :: "('d, 'k, 'v, 'f, ('d, 'c, 'mk, 's) map_proxy) map_vt \<Rightarrow> ('k, 'v, 'd, 'q, 'e, 'r) map_codec \<Rightarrow> 'k \<Rightarrow> 'v \<Rightarrow> int \<Rightarrow> 
    ('d, 'c, 'mk, 's, 'v option) pcomp" where
  "mp_putIfAbsent_ttl vt cd key v ttlInMillis =
     bindM (liftR (k_toData cd key)) (\<lambda>keyData. 
     bindM (liftR (v_toData cd v)) (\<lambda>valueData. 
     bindM (vt_putIfAbsentInternal vt keyData valueData ttlInMillis) (\<lambda>d. liftR (toObject_auto (v_toObject cd) d))))"

definition mp_putIfAbsent :: "('d, 'k, 'v, 'f, ('d, 'c, 'mk, 's) map_proxy) map_vt \<Rightarrow> ('k, 'v, 'd, 'q, 'e, 'r) map_codec \<Rightarrow> 'k \<Rightarrow> 'v \<Rightarrow> ('d, 'c, 'mk, 's, 'v option) pcomp" where
  "mp_putIfAbsent vt cd key v = mp_putIfAbsent_ttl vt cd key v (- 1)"

definition mp_replace_same :: "('d, 'k, 'v, 'f, ('d, 'c, 'mk, 's) map_proxy) map_vt \<Rightarrow> ('k, 'v, 'd, 'q, 'e, 'r) map_codec \<Rightarrow> 'k \<Rightarrow> 'v \<Rightarrow> 'v \<Rightarrow> 
    ('d, 'c, 'mk, 's, bool) pcomp" where
  "mp_replace_same vt cd key oldValue newValue =
     bindM (liftR (k_toData cd key)) (\<lambda>keyData. 
     bindM (liftR (v_toData cd oldValue)) (\<lambda>oldValueData.
     bindM (liftR (v_toData cd newValue)) (\<lambda>newValueData.
     vt_replaceIfSameInternal vt keyData oldValueData newValueData)))"

definition mp_replace :: "('d, 'k, 'v, 'f, ('d, 'c, 'mk, 's) map_proxy) map_vt \<Rightarrow> ('k, 'v, 'd, 'q, 'e, 'r) map_codec \<Rightarrow> 'k \<Rightarrow> 'v \<Rightarrow> 
    ('d, 'c, 'mk, 's, 'v option) pcomp" where
  "mp_replace vt cd key v =
     bindM (liftR (k_toData cd key)) (\<lambda>keyData. 
     bindM (liftR (v_toData cd v)) (\<lambda>valueData. 
     bindM (vt_replaceInternal vt keyData valueData) (\<lambda>d. liftR (toObject_auto (v_toObject cd) d))))"

definition mp_set_ttl :: "('d, 'k, 'v, 'f, ('d, 'c, 'mk, 's) map_proxy) map_vt \<Rightarrow> ('k, 'v, 'd, 'q, 'e, 'r) map_codec \<Rightarrow> 'k \<Rightarrow> 'v \<Rightarrow> int \<Rightarrow> 
    ('d, 'c, 'mk, 's, unit) pcomp" where
  "mp_set_ttl vt cd key v ttl =
     bindM (liftR (k_toData cd key)) (\<lambda>keyData. 
     bindM (liftR (v_toData cd v)) (\<lambda>valueData. vt_setInternal vt keyData valueData ttl))"

definition mp_set :: "('d, 'k, 'v, 'f, ('d, 'c, 'mk, 's) map_proxy) map_vt \<Rightarrow> ('k, 'v, 'd, 'q, 'e, 'r) map_codec \<Rightarrow> 'k \<Rightarrow> 'v \<Rightarrow> ('d, 'c, 'mk, 's, unit) pcomp" where
  "mp_set vt cd key v = mp_set_ttl vt cd key v (- 1)"

text \<open>\<open>lock\<close> converts the key twice.\<close>

definition mp_lock_lease :: "('s, 'd, 'q, 'f) IMapImpl \<Rightarrow> ('k, 'v, 'd, 'q, 'e, 'r) map_codec \<Rightarrow> 'k \<Rightarrow> int \<Rightarrow> 
    ('d, 'c, 'mk, 's, unit) pcomp" where
  "mp_lock_lease impl cd key leaseTime =
     bindM (liftR (k_toData cd key)) (\<lambda>keyData. 
     bindM (liftR (k_toData cd key)) (\<lambda>keyData2. on_server (im_lock impl keyData2 leaseTime)))"

definition mp_lock :: "('s, 'd, 'q, 'f) IMapImpl \<Rightarrow> ('k, 'v, 'd, 'q, 'e, 'r) map_codec \<Rightarrow> 'k \<Rightarrow> ('d, 'c, 'mk, 's, unit) pcomp" where
  "mp_lock impl cd key = mp_lock_lease impl cd key (- 1)"

definition mp_isLocked :: "('s, 'd, 'q, 'f) IMapImpl \<Rightarrow> ('k, 'v, 'd, 'q, 'e, 'r) map_codec \<Rightarrow> 'k \<Rightarrow> 
    ('d, 'c, 'mk, 's, bool) pcomp" where
  "mp_isLocked impl cd key =
     bindM (liftR (k_toData cd key)) (\<lambda>keyData. on_server (im_isLocked impl keyData))"

definition mp_unlock :: "('s, 'd, 'q, 'f) IMapImpl \<Rightarrow> ('k, 'v, 'd, 'q, 'e, 'r) map_codec \<Rightarrow> 'k \<Rightarrow> 
    ('d, 'c, 'mk, 's, unit) pcomp" where
  "mp_unlock impl cd key =
     bindM (liftR (k_toData cd key)) (\<lambda>keyData. on_server (im_unlock impl keyData))"

definition mp_forceUnlock :: "('s, 'd, 'q, 'f) IMapImpl \<Rightarrow> ('k, 'v, 'd, 'q, 'e, 'r) map_codec \<Rightarrow> 'k \<Rightarrow> 
    ('d, 'c, 'mk, 's, unit) pcomp" where
  "mp_forceUnlock impl cd key =
     bindM (liftR (k_toData cd key)) (\<lambda>keyData. on_server (im_forceUnlock impl keyData))"

definition mp_tryLock_time :: "('s, 'd, 'q, 'f) IMapImpl \<Rightarrow> ('k, 'v, 'd, 'q, 'e, 'r) map_codec \<Rightarrow> 'k \<Rightarrow> int \<Rightarrow> 
    ('d, 'c, 'mk, 's, bool) pcomp" where
  "mp_tryLock_time impl cd key timeInMillis =
     bindM (liftR (k_toData cd key)) (\<lambda>keyData. on_server (im_tryLock impl keyData timeInMillis))"

definition mp_tryLock :: "('s, 'd, 'q, 'f) IMapImpl \<Rightarrow> ('k, 'v, 'd, 'q, 'e, 'r) map_codec \<Rightarrow> 'k \<Rightarrow> ('d, 'c, 'mk, 's, bool) pcomp" where
  "mp_tryLock impl cd key = mp_tryLock_time impl cd key 0"

definition mp_evict :: "('d, 'k, 'v, 'f, ('d, 'c, 'mk, 's) map_proxy) map_vt \<Rightarrow> ('k, 'v, 'd, 'q, 'e, 'r) map_codec \<Rightarrow> 'k \<Rightarrow> 
    ('d, 'c, 'mk, 's, bool) pcomp" where
  "mp_evict vt cd key =
     bindM (liftR (k_toData cd key)) (\<lambda>keyData. vt_evictInternal vt keyData)"

definition mp_evictAll :: "('s, 'd, 'q, 'f) IMapImpl \<Rightarrow> ('d, 'c, 'mk, 's, unit) pcomp" where
  "mp_evictAll impl = on_server (im_evictAll impl)"

text \<open>\<open>m[p].push_back(x)\<close> on a \<open>std::map\<close> of vectors.\<close>

fun group_push :: "int \<Rightarrow> 'a \<Rightarrow> (int \<times> 'a list) list \<Rightarrow> (int \<times> 'a list) list" where
  "group_push p x [] = [(p, [x])]"
| "group_push p x ((q, xs) # g) =
     (if p < q then (p, [x]) # (q, xs) # g else if p = q then (q, xs @ [x]) # g else (q, xs) # group_push p x g)"

fun group_keys :: "('s, 'd, 'q, 'f) IMapImpl \<Rightarrow> ('k, 'v, 'd, 'q, 'e, 'r) map_codec \<Rightarrow> 'k list \<Rightarrow>
    (int \<times> ('k \<times> 'd) list) list \<Rightarrow> (int \<times> ('k \<times> 'd) list) list res" where
  "group_keys impl cd [] g = Inr g"
| "group_keys impl cd (k # ks) g =
     bindR (k_toData cd k) (\<lambda>d. group_keys impl cd ks (group_push (im_getPartitionId impl d) (k, d) g))"

definition mp_getAll :: "('s, 'd, 'q, 'f) IMapImpl \<Rightarrow> ('d, 'k, 'v, 'f, ('d, 'c, 'mk, 's) map_proxy) map_vt \<Rightarrow>
    ('k, 'v, 'd, 'q, 'e, 'r) map_codec \<Rightarrow> ('d \<Rightarrow> near_env) \<Rightarrow> 'k list \<Rightarrow> ('d, 'c, 'mk, 's, 'k \<rightharpoonup> 'v) pcomp" where
  "mp_getAll impl vt cd envs keys =
     (if keys = [] then retM Map.empty
      else bindM (liftR (group_keys impl cd keys [])) (\<lambda>parts.
           bindM (vt_getAllInternal vt envs parts Map.empty) (\<lambda>(responses, result). retM result)))"

definition mp_keySet :: "('s, 'd, 'q, 'f) IMapImpl \<Rightarrow> ('k, 'v, 'd, 'q, 'e, 'r) map_codec \<Rightarrow> 'q option \<Rightarrow>
    ('d, 'c, 'mk, 's, 'k list) pcomp" where
  "mp_keySet impl cd predicate =
     bindM (on_server (im_keySetData impl predicate)) (\<lambda>ds. liftR (mapR (\<lambda>d. bindR (k_toObject cd d) deref_ptr) ds))"

definition mp_values :: "('s, 'd, 'q, 'f) IMapImpl \<Rightarrow> ('k, 'v, 'd, 'q, 'e, 'r) map_codec \<Rightarrow> 'q option \<Rightarrow>
    ('d, 'c, 'mk, 's, 'v list) pcomp" where
  "mp_values impl cd predicate =
     bindM (on_server (im_valuesData impl predicate)) (\<lambda>ds. liftR (mapR (\<lambda>d. bindR (v_toObject cd d) deref_ptr) ds))"

definition entry_toObject :: "('d \<Rightarrow> 'a option res) \<Rightarrow> ('d \<Rightarrow> 'b option res) \<Rightarrow> 'd \<times> 'd \<Rightarrow> ('a \<times> 'b) res" where
  "entry_toObject f g e =
     bindR (f (fst e)) (\<lambda>k. bindR (g (snd e)) (\<lambda>v. bindR (deref_ptr k) (\<lambda>k'. bindR (deref_ptr v) (\<lambda>v'. Inr (k', v')))))"

definition mp_entrySet :: "('s, 'd, 'q, 'f) IMapImpl \<Rightarrow> ('k, 'v, 'd, 'q, 'e, 'r) map_codec \<Rightarrow> 'q option \<Rightarrow>
    ('d, 'c, 'mk, 's, ('k \<times> 'v) list) pcomp" where
  "mp_entrySet impl cd predicate =
     bindM (on_server (im_entrySetData impl predicate)) (\<lambda>es. liftR (mapR (entry_toObject (k_toObject cd) (v_toObject cd)) es))"

definition mp_addIndex :: "('s, 'd, 'q, 'f) IMapImpl \<Rightarrow> string \<Rightarrow> bool \<Rightarrow> ('d, 'c, 'mk, 's, unit) pcomp" where
  "mp_addIndex impl attribute ordered = on_server (im_addIndex impl attribute ordered)"

definition mp_executeOnKey :: "('d, 'k, 'v, 'f, ('d, 'c, 'mk, 's) map_proxy) map_vt \<Rightarrow> ('k, 'v, 'd, 'q, 'e, 'r) map_codec \<Rightarrow>
    'k \<Rightarrow> 'e \<Rightarrow> ('d, 'c, 'mk, 's, 'r option) pcomp" where
  "mp_executeOnKey vt cd key entryProcessor =
     bindM (liftR (k_toData cd key)) (\<lambda>keyData.
     bindM (liftR (e_toData cd entryProcessor)) (\<lambda>processorData.
     bindM (vt_executeOnKeyInternal vt keyData processorData) (\<lambda>response.
     liftR (toObject_auto (r_toObject cd) response))))"

text \<open>The result maps of the entry processor calls: a later answer replaces an earlier one, a null one is kept.\<close>

fun collect_results :: "('k, 'v, 'd, 'q, 'e, 'r) map_codec \<Rightarrow> ('d \<times> 'd) list \<Rightarrow> ('k \<rightharpoonup> 'r option) \<Rightarrow> ('k \<rightharpoonup> 'r option) res" where
  "collect_results cd [] result = Inr result"
| "collect_results cd ((kd, vd) # es) result =
     bindR (k_toObject cd kd) (\<lambda>k. bindR (r_toObject cd vd) (\<lambda>r. bindR (deref_ptr k) (\<lambda>key.
       collect_results cd es (result(key \<mapsto> r)))))"

definition executeOnKeysInternal :: "('s, 'd, 'q, 'f) IMapImpl \<Rightarrow> ('k, 'v, 'd, 'q, 'e, 'r) map_codec \<Rightarrow> 'k list \<Rightarrow> 'e \<Rightarrow>
    ('d, 'c, 'mk, 's, ('d \<times> 'd) list) pcomp" where
  "executeOnKeysInternal impl cd keys entryProcessor =
     (if keys = [] then retM []
      else bindM (liftR (mapR (k_toData cd) keys)) (\<lambda>keysData.
           bindM (liftR (e_toData cd entryProcessor)) (\<lambda>processorData.
           on_server (im_executeOnKeysData impl keysData processorData))))"

definition mp_executeOnKeys :: "('s, 'd, 'q, 'f) IMapImpl \<Rightarrow> ('k, 'v, 'd, 'q, 'e, 'r) map_codec \<Rightarrow> 'k list \<Rightarrow> 'e \<Rightarrow>
    ('d, 'c, 'mk, 's, 'k \<rightharpoonup> 'r option) pcomp" where
  "mp_executeOnKeys impl cd keys entryProcessor =
     bindM (executeOnKeysInternal impl cd keys entryProcessor) (\<lambda>es. liftR (collect_results cd es Map.empty))"

definition mp_executeOnEntries :: "('s, 'd, 'q, 'f) IMapImpl \<Rightarrow> ('k, 'v, 'd, 'q, 'e, 'r) map_codec \<Rightarrow> 'e \<Rightarrow> 'q option \<Rightarrow>
    ('d, 'c, 'mk, 's, 'k \<rightharpoonup> 'r option) pcomp" where
  "mp_executeOnEntries impl cd entryProcessor predicate =
     bindM (liftR (e_toData cd entryProcessor)) (\<lambda>processorData.
     bindM (on_server (im_executeOnEntriesData impl processorData predicate)) (\<lambda>es.
     liftR (collect_results cd es Map.empty)))"

definition mp_size :: "('s, 'd, 'q, 'f) IMapImpl \<Rightarrow> ('d, 'c, 'mk, 's, int) pcomp" where
  "mp_size impl = on_server (im_size impl)"

definition mp_isEmpty :: "('s, 'd, 'q, 'f) IMapImpl \<Rightarrow> ('d, 'c, 'mk, 's, bool) pcomp" where
  "mp_isEmpty impl = on_server (im_isEmpty impl)"

fun group_entries :: "('s, 'd, 'q, 'f) IMapImpl \<Rightarrow> ('k, 'v, 'd, 'q, 'e, 'r) map_codec \<Rightarrow> ('k \<times> 'v) list \<Rightarrow>
    (int \<times> ('d \<times> 'd) list) list \<Rightarrow> (int \<times> ('d \<times> 'd) list) list res" where
  "group_entries impl cd [] g = Inr g"
| "group_entries impl cd ((k, v) # es) g =
     bindR (k_toData cd k) (\<lambda>kd. bindR (v_toData cd v) (\<lambda>vd.
       group_entries impl cd es (group_push (im_getPartitionId impl kd) (kd, vd) g)))"

definition mp_putAll :: "('s, 'd, 'q, 'f) IMapImpl \<Rightarrow> ('d, 'k, 'v, 'f, ('d, 'c, 'mk, 's) map_proxy) map_vt \<Rightarrow>
    ('k, 'v, 'd, 'q, 'e, 'r) map_codec \<Rightarrow> ('k \<times> 'v) list \<Rightarrow> ('d, 'c, 'mk, 's, unit) pcomp" where
  "mp_putAll impl vt cd entries =
     bindM (liftR (group_entries impl cd entries [])) (\<lambda>entryMap. vt_putAllInternal vt entryMap)"

definition mp_clear :: "('s, 'd, 'q, 'f) IMapImpl \<Rightarrow> ('d, 'c, 'mk, 's, unit) pcomp" where
  "mp_clear impl = on_server (im_clear impl)"

definition mp_getAsync :: "('d, 'k, 'v, 'f, ('d, 'c, 'mk, 's) map_proxy) map_vt \<Rightarrow> near_env \<Rightarrow> 'k \<Rightarrow>
    ('d, 'c, 'mk, 's, ('v, 'f) async) pcomp" where
  "mp_getAsync vt env key = vt_getAsync vt env key"

definition DEFAULT_TTL :: int where
  "DEFAULT_TTL = - 1"

definition mp_putAsync_idle :: "('d, 'k, 'v, 'f, ('d, 'c, 'mk, 's) map_proxy) map_vt \<Rightarrow> ('k, 'v, 'd, 'q, 'e, 'r) map_codec \<Rightarrow> 'k \<Rightarrow> 'v \<Rightarrow> int \<Rightarrow> TimeUnit \<Rightarrow> int \<Rightarrow> TimeUnit \<Rightarrow> 
    ('d, 'c, 'mk, 's, 'f) pcomp" where
  "mp_putAsync_idle vt cd key v ttl ttlUnit maxIdle maxIdleUnit =
     bindM (liftR (k_toData cd key)) (\<lambda>keyData. vt_putAsyncInternal vt ttl ttlUnit (Some maxIdle) maxIdleUnit keyData v)"

definition mp_putAsync_ttl :: "('d, 'k, 'v, 'f, ('d, 'c, 'mk, 's) map_proxy) map_vt \<Rightarrow> ('k, 'v, 'd, 'q, 'e, 'r) map_codec \<Rightarrow> 'k \<Rightarrow> 'v \<Rightarrow> int \<Rightarrow> TimeUnit \<Rightarrow> 
    ('d, 'c, 'mk, 's, 'f) pcomp" where
  "mp_putAsync_ttl vt cd key v ttl ttlUnit =
     bindM (liftR (k_toData cd key)) (\<lambda>keyData. vt_putAsyncInternal vt ttl ttlUnit None ttlUnit keyData v)"

definition mp_putAsync :: "('d, 'k, 'v, 'f, ('d, 'c, 'mk, 's) map_proxy) map_vt \<Rightarrow> ('k, 'v, 'd, 'q, 'e, 'r) map_codec \<Rightarrow> 'k \<Rightarrow> 'v \<Rightarrow> ('d, 'c, 'mk, 's, 'f) pcomp" where
  "mp_putAsync vt cd key v = mp_putAsync_ttl vt cd key v DEFAULT_TTL MILLISECONDS"

definition mp_setAsync_idle :: "('d, 'k, 'v, 'f, ('d, 'c, 'mk, 's) map_proxy) map_vt \<Rightarrow> ('k, 'v, 'd, 'q, 'e, 'r) map_codec \<Rightarrow> 'k \<Rightarrow> 'v \<Rightarrow> int \<Rightarrow> TimeUnit \<Rightarrow> int \<Rightarrow> TimeUnit \<Rightarrow> 
    ('d, 'c, 'mk, 's, 'f) pcomp" where
  "mp_setAsync_idle vt cd key v ttl ttlUnit maxIdle maxIdleUnit =
     bindM (liftR (k_toData cd key)) (\<lambda>keyData. vt_setAsyncInternal vt ttl ttlUnit (Some maxIdle) maxIdleUnit keyData v)"

definition mp_setAsync_ttl :: "('d, 'k, 'v, 'f, ('d, 'c, 'mk, 's) map_proxy) map_vt \<Rightarrow> ('k, 'v, 'd, 'q, 'e, 'r) map_codec \<Rightarrow> 'k \<Rightarrow> 'v \<Rightarrow> int \<Rightarrow> TimeUnit \<Rightarrow> 
    ('d, 'c, 'mk, 's, 'f) pcomp" where
  "mp_setAsync_ttl vt cd key v ttl ttlUnit =
     bindM (liftR (k_toData cd key)) (\<lambda>keyData. vt_setAsyncInternal vt ttl ttlUnit None ttlUnit keyData v)"

definition mp_setAsync :: "('d, 'k, 'v, 'f, ('d, 'c, 'mk, 's) map_proxy) map_vt \<Rightarrow> ('k, 'v, 'd, 'q, 'e, 'r) map_codec \<Rightarrow> 'k \<Rightarrow> 'v \<Rightarrow> ('d, 'c, 'mk, 's, 'f) pcomp" where
  "mp_setAsync vt cd key v = mp_setAsync_ttl vt cd key v DEFAULT_TTL MILLISECONDS"

definition mp_removeAsync :: "('d, 'k, 'v, 'f, ('d, 'c, 'mk, 's) map_proxy) map_vt \<Rightarrow> ('k, 'v, 'd, 'q, 'e, 'r) map_codec \<Rightarrow> 'k \<Rightarrow> 
    ('d, 'c, 'mk, 's, 'f) pcomp" where
  "mp_removeAsync vt cd key =
     bindM (liftR (k_toData cd key)) (\<lambda>keyData. vt_removeAsyncInternal vt keyData)"

end
