(* ===== verification/Invocation_Future.thy ===== *)
theory Invocation_Future
  imports Near_Config
begin

text \<open>
  The future of an invocation (\<open>client/spi/impl/AbstractInvocationFuture.h\<close>).

  Its state is one atomic pointer, to the void object, to a waiter, to a stack of wait nodes or to the response.
  Pointers are compared by identity and wait nodes are relinked in place, so the objects live in an explicit store:
  an address is an index into the list of objects allocated so far and the void object has the address 0.
  A call in progress is a control point; one step of a call makes one access to the shared state, and the calls
  interleave freely.  Waking up from \<open>park\<close> without being unparked, the clock and rejections by an executor are
  inputs of the model.  \<open>resolveAndThrowIfException\<close>, \<open>onComplete\<close> and \<open>invocationToString\<close> are for
  subclasses without a body in the sources: a call returns the response object itself.
\<close>

section \<open>Objects\<close>

type_synonym addr = nat

datatype iexception = IException (errorCode: int) (cause: "iexception option")

definition CANCELLATION :: int where "CANCELLATION = 9"
definition EXECUTION :: int where "EXECUTION = 19"
definition REJECTED_EXECUTION :: int where "REJECTED_EXECUTION = 46"

datatype ('v, 'c, 'ex) base_state =
    VoidState
  | WaitNode (wn_waiter: addr) (wn_next: "addr option") (wn_executor: "'ex option")
  | ThreadState (threadId: nat) (unparked: bool)
  | ExecutionCallbackState (getCallback: 'c)
  | ValueState (getValue: "'v option")
  | ExceptionState (getException: iexception)

datatype ('c, 'ex) future_event =
    Executed 'ex 'c
  | OnFailure 'c iexception
  | DoubleCompletionWarning

record ('v, 'c, 'ex) invocation_future =
  objects :: "('v, 'c, 'ex) base_state list"
  future_state :: addr
  defaultExecutor :: 'ex
  events :: "('c, 'ex) future_event list"

definition VOIDOBJECT :: addr where "VOIDOBJECT = 0"

definition AbstractInvocationFuture :: "'ex \<Rightarrow> ('v, 'c, 'ex) invocation_future" where
  "AbstractInvocationFuture executor = \<lparr>objects = [VoidState], future_state = VOIDOBJECT, defaultExecutor = executor, events = []\<rparr>"

abbreviation obj :: "('v, 'c, 'ex) invocation_future \<Rightarrow> addr \<Rightarrow> ('v, 'c, 'ex) base_state" where
  "obj f a \<equiv> objects f ! a"

definition alloc :: "('v, 'c, 'ex) base_state \<Rightarrow> ('v, 'c, 'ex) invocation_future \<Rightarrow> addr \<times> ('v, 'c, 'ex) invocation_future" where
  "alloc x f = (length (objects f), f\<lparr>objects := objects f @ [x]\<rparr>)"

fun is_response :: "('v, 'c, 'ex) base_state \<Rightarrow> bool" where
  "is_response VoidState = False"
| "is_response (WaitNode _ _ _) = False"
| "is_response (ThreadState _ _) = False"
| "is_response (ExecutionCallbackState _) = False"
| "is_response (ValueState _) = True"
| "is_response (ExceptionState _) = True"

definition isDone :: "('v, 'c, 'ex) invocation_future \<Rightarrow> addr option \<Rightarrow> bool" where
  "isDone f p = (case p of None \<Rightarrow> True | Some a \<Rightarrow> is_response (obj f a))"

definition compareAndSetState :: "addr \<Rightarrow> addr \<Rightarrow> ('v, 'c, 'ex) invocation_future \<Rightarrow> bool \<times> ('v, 'c, 'ex) invocation_future" where
  "compareAndSetState oldState newState f =
     (if future_state f = oldState then (True, f\<lparr>future_state := newState\<rparr>) else (False, f))"

section \<open>Responses\<close>

definition isCancelled :: "('v, 'c, 'ex) invocation_future \<Rightarrow> bool" where
  "isCancelled f = (case obj f (future_state f) of ExceptionState e \<Rightarrow> errorCode e = CANCELLATION | _ \<Rightarrow> False)"

definition resolve :: "('v, 'c, 'ex) base_state \<Rightarrow> ('v, 'c, 'ex) base_state" where
  "resolve value = (case value of ExceptionState e \<Rightarrow> ExceptionState (IException EXECUTION (Some e)) | _ \<Rightarrow> value)"

definition unwrap :: "iexception \<Rightarrow> iexception" where
  "unwrap throwable =
     (if errorCode throwable = EXECUTION
      then (case cause throwable of Some e \<Rightarrow> e | None \<Rightarrow> throwable) else throwable)"

datatype 'v callback_call = OnResponse "'v option" | OnFailureCall iexception

text \<open>What \<open>CallbackRunner::run\<close> calls; a state that is no response is cast to a value it is not.\<close>

definition CallbackRunner_run :: "('v, 'c, 'ex) invocation_future \<Rightarrow> 'v callback_call res" where
  "CallbackRunner_run f =
     (case resolve (obj f (future_state f)) of
        ExceptionState e \<Rightarrow> Inr (OnFailureCall (unwrap e))
      | ValueState v \<Rightarrow> Inr (OnResponse v)
      | _ \<Rightarrow> Inl OutOfBounds)"

section \<open>Waking waiters\<close>

definition unpark :: "addr \<Rightarrow> ('v, 'c, 'ex) invocation_future \<Rightarrow> ('v, 'c, 'ex) invocation_future" where
  "unpark a f = (case obj f a of
     ThreadState t _ \<Rightarrow> f\<lparr>objects := (objects f)[a := ThreadState t True]\<rparr> | _ \<Rightarrow> f)"

definition unblock :: "('ex \<Rightarrow> bool) \<Rightarrow> 'c \<Rightarrow> 'ex option \<Rightarrow> ('v, 'c, 'ex) invocation_future \<Rightarrow> ('v, 'c, 'ex) invocation_future res" where
  "unblock rejects callback executor f =
     (case executor of
        None \<Rightarrow> Inl NullDereference
      | Some ex \<Rightarrow> Inr (f\<lparr>events := events f @
          [if rejects ex then OnFailure callback (IException REJECTED_EXECUTION None) else Executed ex callback]\<rparr>))"

text \<open>
  \<open>unblockAll\<close>: the switch returns in every case, the one of a wait node by falling through to the default, so the
  loop around it runs at most once. The recursion is bounded by fuel.
\<close>

fun unblockAll :: "nat \<Rightarrow> ('ex \<Rightarrow> bool) \<Rightarrow> addr option \<Rightarrow> 'ex option \<Rightarrow> ('v, 'c, 'ex) invocation_future \<Rightarrow>
    ('v, 'c, 'ex) invocation_future res" where
  "unblockAll 0 rejects waiter executor f = Inl NonTermination"
| "unblockAll (Suc n) rejects waiter executor f =
     (case waiter of
        None \<Rightarrow> Inr f
      | Some a \<Rightarrow>
          (case obj f a of
             ThreadState _ _ \<Rightarrow> Inr (unpark a f)
           | ExecutionCallbackState callback \<Rightarrow> unblock rejects callback executor f
           | WaitNode w _ ex \<Rightarrow> unblockAll n rejects (Some w) ex f
           | _ \<Rightarrow> Inr f))"

definition warnIfSuspiciousDoubleCompletion :: "addr \<Rightarrow> addr \<Rightarrow> ('v, 'c, 'ex) invocation_future \<Rightarrow> ('v, 'c, 'ex) invocation_future" where
  "warnIfSuspiciousDoubleCompletion s0 s1 f =
     (if s0 \<noteq> s1
        \<and> \<not> (case obj f s0 of ExceptionState e \<Rightarrow> errorCode e = CANCELLATION | _ \<Rightarrow> False)
        \<and> \<not> (case obj f s1 of ExceptionState e \<Rightarrow> errorCode e = CANCELLATION | _ \<Rightarrow> False)
      then f\<lparr>events := events f @ [DoubleCompletionWarning]\<rparr> else f)"

section \<open>Calls and their steps\<close>

text \<open>What a call does once \<open>registerWaiter\<close> is back.\<close>

datatype ('c, 'ex) continuation = InGet | InTimedGet bool | InAndThen 'c 'ex

datatype outcome = Response addr | TimeoutException | Done | Completed bool | Threw hz_error

datatype ('c, 'ex) control =
    RegisterWaiter addr "'ex option" "('c, 'ex) continuation"
  | RegisterCas addr "'ex option" "('c, 'ex) continuation" addr addr
  | Parked addr
  | TimedWait addr bool
  | UnregisterWaiter addr
  | UnregisterAt addr "addr option" "addr option"
  | UnregisterFound addr "addr option" addr "addr option"
  | InnerComplete addr
  | CompleteCas addr addr
  | UnblockAll addr
  | Returned outcome

text \<open>\<open>registerWaiter\<close> answered: with the void object for a registration, or with the response.\<close>

definition after_register :: "('ex \<Rightarrow> bool) \<Rightarrow> addr \<Rightarrow> ('c, 'ex) continuation \<Rightarrow> addr \<Rightarrow>
    ('v, 'c, 'ex) invocation_future \<Rightarrow> ('v, 'c, 'ex) invocation_future \<times> ('c, 'ex) control" where
  "after_register rejects waiter k response f =
     (case k of
        InGet \<Rightarrow> (f, if response \<noteq> VOIDOBJECT then Returned (Response response) else Parked waiter)
      | InTimedGet positive \<Rightarrow> (f, if response \<noteq> VOIDOBJECT then Returned (Response response) else TimedWait waiter positive)
      | InAndThen callback executor \<Rightarrow>
          if response \<noteq> VOIDOBJECT
          then (case unblock rejects callback (Some executor) f of Inl e \<Rightarrow> (f, Returned (Threw e)) | Inr f' \<Rightarrow> (f', Returned Done))
          else (f, Returned Done))"

definition register_read :: "('ex \<Rightarrow> bool) \<Rightarrow> addr \<Rightarrow> 'ex option \<Rightarrow> ('c, 'ex) continuation \<Rightarrow>
    ('v, 'c, 'ex) invocation_future \<Rightarrow> ('v, 'c, 'ex) invocation_future \<times> ('c, 'ex) control" where
  "register_read rejects waiter executor k f =
     (let oldState = future_state f in
      if isDone f (Some oldState) then after_register rejects waiter k oldState f
      else if obj f oldState = VoidState \<and> (executor = None \<or> executor = Some (defaultExecutor f))
      then (f, RegisterCas waiter executor k oldState waiter)
      else (case alloc (WaitNode waiter (Some oldState) executor) f of
              (newState, f') \<Rightarrow> (f', RegisterCas waiter executor k oldState newState)))"

definition register_cas :: "('ex \<Rightarrow> bool) \<Rightarrow> addr \<Rightarrow> 'ex option \<Rightarrow> ('c, 'ex) continuation \<Rightarrow> addr \<Rightarrow> addr \<Rightarrow>
    ('v, 'c, 'ex) invocation_future \<Rightarrow> ('v, 'c, 'ex) invocation_future \<times> ('c, 'ex) control" where
  "register_cas rejects waiter executor k oldState newState f =
     (case compareAndSetState oldState newState f of
        (True, f') \<Rightarrow> after_register rejects waiter k VOIDOBJECT f'
      | (False, f') \<Rightarrow> (f', RegisterWaiter waiter executor k))"

text \<open>One turn of the loops around \<open>park\<close>: blocked, unless the thread was unparked or the wait ended by itself.\<close>

record wake_up =
  wakes :: bool
  time_left :: bool

definition get_park :: "wake_up \<Rightarrow> addr \<Rightarrow> ('v, 'c, 'ex) invocation_future \<Rightarrow> ('c, 'ex) control option" where
  "get_park i thread f =
     (if unparked (obj f thread) \<or> wakes i
      then Some (if isDone f (Some (future_state f)) then Returned (Response (future_state f)) else Parked thread)
      else None)"

definition timed_park :: "wake_up \<Rightarrow> addr \<Rightarrow> bool \<Rightarrow> ('v, 'c, 'ex) invocation_future \<Rightarrow> ('c, 'ex) control option" where
  "timed_park i thread positive f =
     (if \<not> positive then Some (UnregisterWaiter thread)
      else if unparked (obj f thread) \<or> wakes i
      then Some (if isDone f (Some (future_state f)) then Returned (Response (future_state f)) else TimedWait thread (time_left i))
      else None)"

text \<open>One turn of the loop of \<open>unregisterWaiter\<close>: reading the current item, then removing it or moving on.\<close>

definition unregister_at :: "addr \<Rightarrow> addr option \<Rightarrow> addr option \<Rightarrow> ('v, 'c, 'ex) invocation_future \<Rightarrow> ('c, 'ex) control" where
  "unregister_at waiter prev current f =
     (case current of
        None \<Rightarrow> Returned TimeoutException
      | Some a \<Rightarrow>
          (let currentWaiter = (case obj f a of WaitNode w _ _ \<Rightarrow> w | _ \<Rightarrow> a);
               next = (case obj f a of WaitNode _ n _ \<Rightarrow> n | _ \<Rightarrow> None)
           in if currentWaiter = waiter then UnregisterFound waiter prev a next
              else UnregisterAt waiter (case obj f a of WaitNode _ _ _ \<Rightarrow> Some a | _ \<Rightarrow> None) next))"

definition set_next :: "addr \<Rightarrow> addr option \<Rightarrow> ('v, 'c, 'ex) invocation_future \<Rightarrow> ('v, 'c, 'ex) invocation_future" where
  "set_next a n f = (case obj f a of
     WaitNode w _ ex \<Rightarrow> f\<lparr>objects := (objects f)[a := WaitNode w n ex]\<rparr> | _ \<Rightarrow> f)"

definition unregister_found :: "addr \<Rightarrow> addr option \<Rightarrow> addr \<Rightarrow> addr option \<Rightarrow> ('v, 'c, 'ex) invocation_future \<Rightarrow>
    ('v, 'c, 'ex) invocation_future \<times> ('c, 'ex) control" where
  "unregister_found waiter prev current next f =
     (case prev of
        None \<Rightarrow>
          (case compareAndSetState current (case next of None \<Rightarrow> VOIDOBJECT | Some n \<Rightarrow> n) f of
             (True, f') \<Rightarrow> (f', UnregisterAt waiter None None)
           | (False, f') \<Rightarrow> (f', UnregisterAt waiter None (Some (future_state f'))))
      | Some p \<Rightarrow> (set_next p next f, UnregisterAt waiter prev None))"

definition complete_read :: "addr \<Rightarrow> ('v, 'c, 'ex) invocation_future \<Rightarrow> ('v, 'c, 'ex) invocation_future \<times> ('c, 'ex) control" where
  "complete_read newState f =
     (let oldState = future_state f in
      if isDone f (Some oldState) then (warnIfSuspiciousDoubleCompletion oldState newState f, Returned (Completed False))
      else (f, CompleteCas newState oldState))"

definition complete_cas :: "addr \<Rightarrow> addr \<Rightarrow> ('v, 'c, 'ex) invocation_future \<Rightarrow> ('v, 'c, 'ex) invocation_future \<times> ('c, 'ex) control" where
  "complete_cas newState oldState f =
     (case compareAndSetState oldState newState f of
        (True, f') \<Rightarrow> (f', UnblockAll oldState)
      | (False, f') \<Rightarrow> (f', InnerComplete newState))"

definition unblock_all :: "('ex \<Rightarrow> bool) \<Rightarrow> addr \<Rightarrow> ('v, 'c, 'ex) invocation_future \<Rightarrow> ('v, 'c, 'ex) invocation_future \<times> ('c, 'ex) control" where
  "unblock_all rejects waiter f =
     (case unblockAll (Suc (length (objects f))) rejects (Some waiter) (Some (defaultExecutor f)) f of
        Inl e \<Rightarrow> (f, Returned (Threw e)) | Inr f' \<Rightarrow> (f', Returned (Completed True)))"

fun future_step :: "('ex \<Rightarrow> bool) \<Rightarrow> wake_up \<Rightarrow> ('c, 'ex) control \<Rightarrow> ('v, 'c, 'ex) invocation_future \<Rightarrow>
    (('v, 'c, 'ex) invocation_future \<times> ('c, 'ex) control) option" where
  "future_step rejects i (RegisterWaiter w ex k) f = Some (register_read rejects w ex k f)"
| "future_step rejects i (RegisterCas w ex k old new) f = Some (register_cas rejects w ex k old new f)"
| "future_step rejects i (Parked w) f = map_option (Pair f) (get_park i w f)"
| "future_step rejects i (TimedWait w positive) f = map_option (Pair f) (timed_park i w positive f)"
| "future_step rejects i (UnregisterWaiter w) f = Some (f, UnregisterAt w None (Some (future_state f)))"
| "future_step rejects i (UnregisterAt w prev cur) f = Some (f, unregister_at w prev cur f)"
| "future_step rejects i (UnregisterFound w prev cur next) f = Some (unregister_found w prev cur next f)"
| "future_step rejects i (InnerComplete new) f = Some (complete_read new f)"
| "future_step rejects i (CompleteCas new old) f = Some (complete_cas new old f)"
| "future_step rejects i (UnblockAll old) f = Some (unblock_all rejects old f)"
| "future_step rejects i (Returned r) f = None"

text \<open>The calls of the public interface and how they start.\<close>

datatype ('v, 'c, 'ex) call =
    Get nat
  | GetTimeout nat int
  | AndThen "'c option" "'ex option"
  | Complete "'v option"
  | CompleteExceptionally iexception
  | Cancel

definition andThen :: "'c option \<Rightarrow> 'ex option \<Rightarrow> ('v, 'c, 'ex) invocation_future \<Rightarrow> ('v, 'c, 'ex) invocation_future \<times> ('c, 'ex) control" where
  "andThen callback executor f =
     (case (isNotNull callback, isNotNull executor) of
        (Inr (Some cb), Inr (Some ex)) \<Rightarrow>
          (case alloc (ExecutionCallbackState cb) f of (w, f') \<Rightarrow> (f', RegisterWaiter w (Some ex) (InAndThen cb ex)))
      | (Inl e, _) \<Rightarrow> (f, Returned (Threw e))
      | (_, Inl e) \<Rightarrow> (f, Returned (Threw e))
      | _ \<Rightarrow> (f, Returned (Threw NullDereference)))"

definition future_get :: "nat \<Rightarrow> ('c, 'ex) continuation \<Rightarrow> ('v, 'c, 'ex) invocation_future \<Rightarrow> ('v, 'c, 'ex) invocation_future \<times> ('c, 'ex) control" where
  "future_get thread k f = (case alloc (ThreadState thread False) f of (w, f') \<Rightarrow> (f', RegisterWaiter w None k))"

definition complete :: "('v, 'c, 'ex) base_state \<Rightarrow> ('v, 'c, 'ex) invocation_future \<Rightarrow> ('v, 'c, 'ex) invocation_future \<times> ('c, 'ex) control" where
  "complete newState f = (case alloc newState f of (a, f') \<Rightarrow> (f', InnerComplete a))"

definition future_cancel :: "('v, 'c, 'ex) invocation_future \<Rightarrow> ('v, 'c, 'ex) invocation_future \<times> ('c, 'ex) control" where
  "future_cancel = complete (ExceptionState (IException CANCELLATION None))"

fun start_call :: "('v, 'c, 'ex) call \<Rightarrow> ('v, 'c, 'ex) invocation_future \<Rightarrow> ('v, 'c, 'ex) invocation_future \<times> ('c, 'ex) control" where
  "start_call (Get t) f = future_get t InGet f"
| "start_call (GetTimeout t nanos) f = future_get t (InTimedGet (0 < nanos)) f"
| "start_call (AndThen cb ex) f = andThen cb ex f"
| "start_call (Complete v) f = complete (ValueState v) f"
| "start_call (CompleteExceptionally e) f = complete (ExceptionState e) f"
| "start_call Cancel f = future_cancel f"

section \<open>Interleavings\<close>

record ('v, 'c, 'ex) future_system =
  future :: "('v, 'c, 'ex) invocation_future"
  calls :: "nat \<Rightarrow> ('c, 'ex) control option"

datatype ('v, 'c, 'ex) action = Start nat "('v, 'c, 'ex) call" | Step nat wake_up

fun act :: "('ex \<Rightarrow> bool) \<Rightarrow> ('v, 'c, 'ex) action \<Rightarrow> ('v, 'c, 'ex) future_system \<Rightarrow> ('v, 'c, 'ex) future_system option" where
  "act rejects (Start t c) s =
     (if calls s t \<noteq> None then None
      else case start_call c (future s) of (f, p) \<Rightarrow> Some (s\<lparr>future := f, calls := (calls s)(t \<mapsto> p)\<rparr>))"
| "act rejects (Step t i) s =
     (case calls s t of
        None \<Rightarrow> None
      | Some p \<Rightarrow> (case future_step rejects i p (future s) of
          None \<Rightarrow> None
        | Some (f, p') \<Rightarrow> Some (s\<lparr>future := f, calls := (calls s)(t \<mapsto> p')\<rparr>)))"

fun acts :: "('ex \<Rightarrow> bool) \<Rightarrow> ('v, 'c, 'ex) action list \<Rightarrow> ('v, 'c, 'ex) future_system \<Rightarrow> ('v, 'c, 'ex) future_system option" where
  "acts rejects [] s = Some s"
| "acts rejects (a # as) s = (case act rejects a s of None \<Rightarrow> None | Some s' \<Rightarrow> acts rejects as s')"

definition fresh_future :: "'ex \<Rightarrow> ('v, 'c, 'ex) future_system" where
  "fresh_future executor = \<lparr>future = AbstractInvocationFuture executor, calls = (\<lambda>_. None)\<rparr>"

inductive future_trans :: "('ex \<Rightarrow> bool) \<Rightarrow> ('v, 'c, 'ex) future_system \<Rightarrow> ('v, 'c, 'ex) future_system \<Rightarrow> bool"
  for rejects where
  begins: "\<lbrakk>calls s t = None; start_call c (future s) = (f, p)\<rbrakk> \<Longrightarrow>
     future_trans rejects s (s\<lparr>future := f, calls := (calls s)(t \<mapsto> p)\<rparr>)"
| moves: "\<lbrakk>calls s t = Some p; future_step rejects i p (future s) = Some (f, p')\<rbrakk> \<Longrightarrow>
     future_trans rejects s (s\<lparr>future := f, calls := (calls s)(t \<mapsto> p')\<rparr>)"

inductive future_reachable :: "('ex \<Rightarrow> bool) \<Rightarrow> 'ex \<Rightarrow> ('v, 'c, 'ex) future_system \<Rightarrow> bool"
  for rejects executor where
  init: "future_reachable rejects executor (fresh_future executor)"
| step: "\<lbrakk>future_reachable rejects executor s; future_trans rejects s s'\<rbrakk> \<Longrightarrow> future_reachable rejects executor s'"

inductive_cases future_transE: "future_trans rejects s s'"

lemma act_trans: "act rejects a s = Some s' \<Longrightarrow> future_trans rejects s s'"
  by (cases a) (auto split: if_splits option.splits prod.splits intro: future_trans.intros)

lemma acts_reachable:
  "future_reachable rejects executor s \<Longrightarrow> acts rejects as s = Some s' \<Longrightarrow> future_reachable rejects executor s'"
proof (induction "as" arbitrary: s)
  case (Cons a "as")
  then obtain s1 where "act rejects a s = Some s1" "acts rejects as s1 = Some s'" by (auto split: option.splits)
  then show ?case using Cons.IH Cons.prems(1) act_trans future_reachable.step by metis
qed simp

section \<open>The invariant\<close>

text \<open>A waiter is a thread, or a callback together with an executor.\<close>

definition waiter_ok :: "('v, 'c, 'ex) invocation_future \<Rightarrow> addr \<Rightarrow> 'ex option \<Rightarrow> bool" where
  "waiter_ok f w ex \<longleftrightarrow> w < length (objects f) \<and>
     (case obj f w of ThreadState _ _ \<Rightarrow> True | ExecutionCallbackState _ \<Rightarrow> ex \<noteq> None | _ \<Rightarrow> False)"

definition pending :: "('v, 'c, 'ex) invocation_future \<Rightarrow> addr \<Rightarrow> bool" where
  "pending f a \<longleftrightarrow> a < length (objects f) \<and> \<not> is_response (obj f a)"

definition responded :: "('v, 'c, 'ex) invocation_future \<Rightarrow> addr \<Rightarrow> bool" where
  "responded f a \<longleftrightarrow> a < length (objects f) \<and> is_response (obj f a)"

definition is_thread :: "('v, 'c, 'ex) invocation_future \<Rightarrow> addr \<Rightarrow> bool" where
  "is_thread f a \<longleftrightarrow> a < length (objects f) \<and> (\<exists>t b. obj f a = ThreadState t b)"

text \<open>Wait nodes point down: to an older waiter and to an older pending object.\<close>

definition node_ok :: "('v, 'c, 'ex) invocation_future \<Rightarrow> addr \<Rightarrow> bool" where
  "node_ok f a \<longleftrightarrow> (case obj f a of
     WaitNode w n ex \<Rightarrow> w < a \<and> waiter_ok f w ex \<and> (\<forall>b. n = Some b \<longrightarrow> b < a \<and> pending f b) | _ \<Rightarrow> True)"

definition store_ok :: "('v, 'c, 'ex) invocation_future \<Rightarrow> bool" where
  "store_ok f \<longleftrightarrow> 0 < length (objects f) \<and> obj f 0 = VoidState \<and> future_state f < length (objects f)
     \<and> (\<forall>a < length (objects f). node_ok f a)"

definition continuation_ok :: "('v, 'c, 'ex) invocation_future \<Rightarrow> addr \<Rightarrow> ('c, 'ex) continuation \<Rightarrow> bool" where
  "continuation_ok f w k = (case k of InAndThen _ _ \<Rightarrow> True | _ \<Rightarrow> is_thread f w)"

fun control_ok :: "('v, 'c, 'ex) invocation_future \<Rightarrow> ('c, 'ex) control \<Rightarrow> bool" where
  "control_ok f (RegisterWaiter w ex k) = (waiter_ok f w ex \<and> continuation_ok f w k)"
| "control_ok f (RegisterCas w ex k old new) = (waiter_ok f w ex \<and> continuation_ok f w k \<and> pending f old \<and> pending f new)"
| "control_ok f (Parked w) = is_thread f w"
| "control_ok f (TimedWait w b) = is_thread f w"
| "control_ok f (UnregisterWaiter w) = is_thread f w"
| "control_ok f (UnregisterAt w prev cur) = (is_thread f w \<and> (\<forall>a. cur = Some a \<longrightarrow> a < length (objects f) \<and> (prev \<noteq> None \<longrightarrow> pending f a))
     \<and> (\<forall>p a. prev = Some p \<longrightarrow> cur = Some a \<longrightarrow> p < length (objects f) \<and> a < p))"
| "control_ok f (UnregisterFound w prev cur next) = (is_thread f w \<and> pending f cur \<and> (\<forall>n. next = Some n \<longrightarrow> n < cur \<and> pending f n)
     \<and> (\<forall>p. prev = Some p \<longrightarrow> p < length (objects f) \<and> cur < p))"
| "control_ok f (InnerComplete new) = responded f new"
| "control_ok f (CompleteCas new old) = (responded f new \<and> pending f old)"
| "control_ok f (UnblockAll old) = (pending f old \<and> responded f (future_state f))"
| "control_ok f (Returned r) = (case r of
     Response a \<Rightarrow> a = future_state f \<and> responded f a
   | Completed b \<Rightarrow> responded f (future_state f)
   | Threw e \<Rightarrow> e = IllegalArgumentException
   | _ \<Rightarrow> True)"

text \<open>How the store evolves: objects are never freed or replaced, a thread may be unparked and a node relinked; a response is final.\<close>

fun evolves :: "('v, 'c, 'ex) base_state \<Rightarrow> ('v, 'c, 'ex) base_state \<Rightarrow> bool" where
  "evolves (WaitNode w n ex) y = (\<exists>n'. y = WaitNode w n' ex)"
| "evolves (ThreadState t b) y = (\<exists>b'. y = ThreadState t b' \<and> (b \<longrightarrow> b'))"
| "evolves x y = (y = x)"

definition extends :: "('v, 'c, 'ex) invocation_future \<Rightarrow> ('v, 'c, 'ex) invocation_future \<Rightarrow> bool" where
  "extends f f' \<longleftrightarrow> length (objects f) \<le> length (objects f') \<and> (\<forall>a < length (objects f). evolves (obj f a) (obj f' a))
     \<and> defaultExecutor f' = defaultExecutor f \<and> (responded f (future_state f) \<longrightarrow> future_state f' = future_state f)"

lemma evolves_refl [simp]: "evolves x x" by (cases x) auto

lemma evolves_response: "evolves x y \<Longrightarrow> is_response y = is_response x" by (cases x) auto

lemma evolves_trans: "evolves x y \<Longrightarrow> evolves y z \<Longrightarrow> evolves x z" by (cases x) auto

lemma extends_refl [simp]: "extends f f" by (simp add: extends_def)

lemma extends_mono:
  assumes "extends f f'"
  shows "waiter_ok f w ex \<Longrightarrow> waiter_ok f' w ex" "pending f a \<Longrightarrow> pending f' a" "responded f a \<Longrightarrow> responded f' a"
    "is_thread f a \<Longrightarrow> is_thread f' a" "continuation_ok f a k \<Longrightarrow> continuation_ok f' a k"
proof -
  have e: "a < length (objects f) \<Longrightarrow> evolves (obj f a) (obj f' a) \<and> a < length (objects f')" for a
    using assms by (auto simp: extends_def)
  show "waiter_ok f w ex \<Longrightarrow> waiter_ok f' w ex"
    using e [of w] by (auto simp: waiter_ok_def split: base_state.splits)
  show "pending f a \<Longrightarrow> pending f' a" "responded f a \<Longrightarrow> responded f' a"
    using e [of a] evolves_response by (auto simp: pending_def responded_def)
  show t: "is_thread f a \<Longrightarrow> is_thread f' a" using e [of a] unfolding is_thread_def by (metis evolves.simps(2))
  then show "continuation_ok f a k \<Longrightarrow> continuation_ok f' a k" by (auto simp: continuation_ok_def split: continuation.splits)
qed

lemma extends_trans:
  assumes "extends f g" "extends g h"
  shows "extends f h"
proof -
  have "evolves (obj f a) (obj h a)" if "a < length (objects f)" for a
    using assms that evolves_trans [of "obj f a" "obj g a" "obj h a"] by (simp add: extends_def)
  moreover have "future_state h = future_state f" if "responded f (future_state f)"
    using assms that extends_mono(3) [OF assms(1) that] by (simp add: extends_def)
  ultimately show ?thesis using assms by (simp add: extends_def)
qed

lemma control_ok_mono:
  assumes "extends f f'" "control_ok f p"
  shows "control_ok f' p"
proof -
  note m = extends_mono [OF assms(1)]
  have l: "length (objects f) \<le> length (objects f')" and s: "responded f (future_state f) \<Longrightarrow> future_state f' = future_state f"
    using assms(1) by (auto simp: extends_def)
  show ?thesis
    using assms(2)
  proof (cases p)
    case (Returned r)
    then show ?thesis using assms(2) m(3) s by (cases r) auto
  qed (use assms(2) m l s in \<open>auto intro: order.strict_trans2\<close>)
qed

text \<open>Each kind of change to the store keeps it well-formed.\<close>

lemma node_ok_mono:
  assumes "extends f f'" "node_ok f a" "obj f' a = obj f a"
  shows "node_ok f' a"
  using assms(2,3) extends_mono(1,2) [OF assms(1)] by (auto simp: node_ok_def split: base_state.splits)

lemma alloc_ok:
  assumes "store_ok f" "alloc x f = (a, f')" "\<And>w n ex. x = WaitNode w n ex \<Longrightarrow> waiter_ok f w ex \<and> (\<forall>b. n = Some b \<longrightarrow> pending f b)"
  shows "store_ok f'" "extends f f'" "a < length (objects f')" "obj f' a = x" "future_state f' = future_state f"
proof -
  have f': "objects f' = objects f @ [x]" "a = length (objects f)" "future_state f' = future_state f" "defaultExecutor f' = defaultExecutor f"
    using assms(2) by (auto simp: alloc_def)
  show e: "extends f f'" by (simp add: extends_def f' nth_append)
  show "a < length (objects f')" "obj f' a = x" "future_state f' = future_state f" by (simp_all add: f')
  have "node_ok f' b" if "b < length (objects f')" for b
  proof (cases "b < length (objects f)")
    case True
    then show ?thesis using node_ok_mono [OF e] assms(1) by (simp add: store_ok_def f' nth_append)
  next
    case False
    then have "b = length (objects f)" using that by (simp add: f')
    moreover have "waiter_ok f w ex \<Longrightarrow> w < length (objects f)" "pending f c \<Longrightarrow> c < length (objects f)" for w ex c
      by (simp_all add: waiter_ok_def pending_def)
    ultimately show ?thesis
      using assms(3) extends_mono(1,2) [OF e] by (cases x) (auto simp: node_ok_def f')
  qed
  then show "store_ok f'" using assms(1) by (auto simp: store_ok_def f' nth_append)
qed

lemma set_state_ok:
  assumes "store_ok f" "new < length (objects f)" "\<not> responded f (future_state f)"
  shows "store_ok (f\<lparr>future_state := new\<rparr>)" "extends f (f\<lparr>future_state := new\<rparr>)"
proof -
  let ?f = "f\<lparr>future_state := new\<rparr>"
  have "waiter_ok ?f = waiter_ok f" "pending ?f = pending f" by (simp_all add: fun_eq_iff waiter_ok_def pending_def)
  then have "node_ok ?f = node_ok f" by (simp add: fun_eq_iff node_ok_def split: base_state.split)
  then show "store_ok ?f" "extends f ?f" using assms by (simp_all add: store_ok_def extends_def)
qed

lemma update_ok:
  assumes "store_ok f" "evolves (obj f a) x" "a < length (objects f)" "f' = f\<lparr>objects := (objects f)[a := x]\<rparr>"
    and "\<And>w n ex. x = WaitNode w n ex \<Longrightarrow> \<forall>b. n = Some b \<longrightarrow> b < a \<and> pending f b"
  shows "store_ok f'" "extends f f'"
proof -
  have len: "length (objects f') = length (objects f)" and st: "future_state f' = future_state f" by (simp_all add: assms(4))
  show e: "extends f f'" using assms(2,3) by (auto simp: extends_def assms(4) nth_list_update)
  have "node_ok f' b" if "b < length (objects f)" for b
  proof (cases "b = a")
    case True
    have x: "obj f' a = x" using assms(3) by (simp add: assms(4))
    have "node_ok f a" using assms(1,3) by (simp add: store_ok_def)
    then show ?thesis
      using assms(2,5) extends_mono(1,2) [OF e]
      by (cases "obj f a") (auto simp: node_ok_def x True)
  next
    case False
    then show ?thesis using node_ok_mono [OF e] assms(1) that by (simp add: store_ok_def assms(4))
  qed
  moreover have "obj f' 0 = VoidState"
    using assms(1,2) by (cases "a = 0") (auto simp: store_ok_def assms(4))
  ultimately show "store_ok f'" using assms(1) by (auto simp: store_ok_def len st)
qed

lemma events_simps [simp]:
  "waiter_ok (f\<lparr>events := es\<rparr>) = waiter_ok f" "pending (f\<lparr>events := es\<rparr>) = pending f"
  "responded (f\<lparr>events := es\<rparr>) = responded f" "is_thread (f\<lparr>events := es\<rparr>) = is_thread f"
  "continuation_ok (f\<lparr>events := es\<rparr>) = continuation_ok f" "node_ok (f\<lparr>events := es\<rparr>) = node_ok f"
  by (simp_all add: fun_eq_iff waiter_ok_def pending_def responded_def is_thread_def node_ok_def continuation_ok_def
      split: base_state.split continuation.split)

lemma events_ok [simp]:
  "store_ok (f\<lparr>events := es\<rparr>) = store_ok f" "extends f (f\<lparr>events := es\<rparr>)" "control_ok (f\<lparr>events := es\<rparr>) p = control_ok f p"
  by (simp_all add: store_ok_def extends_def) (cases p; simp split: outcome.split)

text \<open>What one step of a call guarantees.\<close>

definition winner :: "('c, 'ex) control \<Rightarrow> bool" where
  "winner p = (case p of UnblockAll _ \<Rightarrow> True | Returned (Completed b) \<Rightarrow> b | _ \<Rightarrow> False)"

lemma winner_simps: "winner (Returned (Completed b)) = b" "winner (UnblockAll a)"
  by (simp_all add: winner_def)

definition step_ok :: "('v, 'c, 'ex) invocation_future \<Rightarrow> ('c, 'ex) control \<Rightarrow> ('v, 'c, 'ex) invocation_future \<times> ('c, 'ex) control \<Rightarrow> bool" where
  "step_ok f p r \<longleftrightarrow> (case r of (f', p') \<Rightarrow> store_ok f' \<and> extends f f' \<and> control_ok f' p'
     \<and> (winner p' \<longrightarrow> winner p \<or> \<not> responded f (future_state f)))"

lemma step_okI:
  "\<lbrakk>store_ok f'; extends f f'; control_ok f' p'; \<not> winner p' \<or> winner p \<or> \<not> responded f (future_state f)\<rbrakk> \<Longrightarrow> step_ok f p (f', p')"
  by (auto simp: step_ok_def)

lemma pending_or_responded: "store_ok f \<Longrightarrow> responded f (future_state f) \<longleftrightarrow> \<not> pending f (future_state f)"
  by (auto simp: store_ok_def responded_def pending_def)

lemma isDone_responded: "store_ok f \<Longrightarrow> isDone f (Some (future_state f)) = responded f (future_state f)"
  by (auto simp: store_ok_def responded_def isDone_def)

lemma pending_responded [dest]: "pending f a \<Longrightarrow> responded f a \<Longrightarrow> False"
  by (simp add: pending_def responded_def)

lemma register_read_ok:
  assumes "store_ok f" "waiter_ok f w ex" "continuation_ok f w k"
  shows "step_ok f p (register_read rejects w ex k f)"
proof (cases "responded f (future_state f)")
  case True
  have "future_state f \<noteq> VOIDOBJECT"
    using True assms(1) by (metis VOIDOBJECT_def is_response.simps(1) responded_def store_ok_def)
  then show ?thesis
    using True assms by (auto simp: register_read_def Let_def isDone_responded after_register_def unblock_def winner_def
        intro!: step_okI split: continuation.split)
next
  case False
  then have old: "pending f (future_state f)" using pending_or_responded assms(1) by blast
  have new: "pending f w" using assms(2) by (auto simp: waiter_ok_def pending_def split: base_state.splits)
  obtain a f' where a: "alloc (WaitNode w (Some (future_state f)) ex) f = (a, f')" by (metis prod.exhaust)
  note ok = alloc_ok [OF assms(1) a]
  have "pending f' a" "store_ok f'" "extends f f'" using ok assms(2) old by (auto simp: pending_def)
  then show ?thesis
    using False assms old new a extends_mono(1,2,5) [of f f']
    by (auto simp: register_read_def Let_def isDone_responded winner_def intro!: step_okI)
qed

lemma register_cas_ok:
  assumes "store_ok f" "control_ok f (RegisterCas w ex k old new)"
  shows "step_ok f p (register_cas rejects w ex k old new f)"
proof (cases "future_state f = old")
  case True
  then have "\<not> responded f (future_state f)" using assms(2) by auto
  then have s: "store_ok (f\<lparr>future_state := new\<rparr>)" "extends f (f\<lparr>future_state := new\<rparr>)"
    using set_state_ok [OF assms(1)] assms(2) by (simp_all add: pending_def)
  then show ?thesis
    using True assms(2) extends_mono(4) [OF s(2)]
    by (auto simp: register_cas_def compareAndSetState_def after_register_def winner_def continuation_ok_def
        intro!: step_okI split: continuation.splits)
next
  case False
  then show ?thesis using assms(1,2) by (auto simp: register_cas_def compareAndSetState_def winner_def intro!: step_okI)
qed

lemma unregister_at_ok:
  assumes "store_ok f" "control_ok f (UnregisterAt w prev cur)"
  shows "step_ok f p (f, unregister_at w prev cur f)"
proof (cases cur)
  case (Some a)
  then have a: "a < length (objects f)" "is_thread f w" using assms(2) by auto
  then have n: "node_ok f a" using assms(1) by (simp add: store_ok_def)
  have pa: "pending f a" if "(case obj f a of WaitNode w _ _ \<Rightarrow> w | _ \<Rightarrow> a) = w"
    using that a by (auto simp: pending_def is_thread_def split: base_state.splits)
  show ?thesis
    using assms n pa Some a
    by (cases "obj f a") (auto simp: unregister_at_def Let_def node_ok_def winner_def pending_def intro!: step_okI)
qed (use assms(1) in \<open>auto simp: unregister_at_def winner_def intro!: step_okI\<close>)

lemma unregister_found_ok:
  assumes "store_ok f" "control_ok f (UnregisterFound w prev cur next)"
  shows "step_ok f p (unregister_found w prev cur next f)"
proof (cases prev)
  case None
  show ?thesis
  proof (cases "future_state f = cur")
    case True
    let ?new = "case next of None \<Rightarrow> VOIDOBJECT | Some n \<Rightarrow> n"
    have new: "?new < length (objects f)"
      using assms by (auto simp: VOIDOBJECT_def store_ok_def pending_def split: option.split)
    have "\<not> responded f (future_state f)" using assms(2) True by auto
    note s = set_state_ok [OF assms(1) new this]
    show ?thesis
      using s True None assms(2) extends_mono(4) [OF s(2)]
      by (auto simp: unregister_found_def compareAndSetState_def winner_def intro!: step_okI)
  next
    case False
    then show ?thesis
      using None assms by (auto simp: unregister_found_def compareAndSetState_def winner_def store_ok_def intro!: step_okI)
  qed
next
  case (Some q)
  have "store_ok (set_next q next f) \<and> extends f (set_next q next f)"
  proof (cases "obj f q")
    case (WaitNode v n ex)
    have "\<forall>b. next = Some b \<longrightarrow> b < q \<and> pending f b" using assms(2) Some by (auto intro: less_trans)
    then show ?thesis
      using WaitNode update_ok [OF assms(1), of q "WaitNode v next ex"] assms(2) Some by (auto simp: set_next_def)
  qed (use assms(1) in \<open>auto simp: set_next_def\<close>)
  then show ?thesis
    using Some assms(2) extends_mono(4) [of f "set_next q next f" w]
    by (auto simp: unregister_found_def winner_def intro!: step_okI)
qed

lemma complete_read_ok:
  assumes "store_ok f" "responded f new"
  shows "step_ok f p (complete_read new f)"
  using assms pending_or_responded [OF assms(1)]
  by (auto simp: complete_read_def Let_def isDone_responded warnIfSuspiciousDoubleCompletion_def winner_def intro!: step_okI)

lemma complete_cas_ok:
  assumes "store_ok f" "responded f new" "pending f old"
  shows "step_ok f p (complete_cas new old f)"
proof (cases "future_state f = old")
  case True
  then have "\<not> responded f (future_state f)" using assms(3) by auto
  then have s: "store_ok (f\<lparr>future_state := new\<rparr>)" "extends f (f\<lparr>future_state := new\<rparr>)"
    using set_state_ok [OF assms(1)] assms(2) by (simp_all add: responded_def)
  then show ?thesis
    using True assms(2,3) extends_mono(2,3) [OF s(2)] \<open>\<not> responded f (future_state f)\<close>
    by (auto simp: complete_cas_def compareAndSetState_def winner_def intro!: step_okI)
next
  case False
  then show ?thesis using assms by (auto simp: complete_cas_def compareAndSetState_def winner_def intro!: step_okI)
qed

lemma unpark_ok:
  assumes "store_ok f" "a < length (objects f)"
  shows "store_ok (unpark a f)" "extends f (unpark a f)" "future_state (unpark a f) = future_state f"
proof -
  have "store_ok (unpark a f) \<and> extends f (unpark a f)"
  proof (cases "obj f a")
    case (ThreadState t b)
    then show ?thesis using update_ok [OF assms(1), of a "ThreadState t True"] assms(2) by (auto simp: unpark_def)
  qed (use assms(1) in \<open>auto simp: unpark_def\<close>)
  then show "store_ok (unpark a f)" "extends f (unpark a f)" by simp_all
  show "future_state (unpark a f) = future_state f" by (simp add: unpark_def split: base_state.split)
qed

text \<open>Waking up the waiters of a pending state: two levels of recursion are enough, and no executor is missing.\<close>

lemma unblock_waiter_ok:
  assumes "store_ok f" "waiter_ok f w ex"
  shows "\<exists>f'. unblockAll (Suc n) rejects (Some w) ex f = Inr f' \<and> store_ok f' \<and> extends f f' \<and> future_state f' = future_state f"
  using assms unpark_ok [of f w] by (auto simp: waiter_ok_def unblock_def split: base_state.splits)

lemma unblockAll_ok:
  assumes "store_ok f" "pending f old"
  shows "\<exists>f'. unblockAll (Suc (Suc n)) rejects (Some old) (Some ex) f = Inr f' \<and> store_ok f' \<and> extends f f' \<and> future_state f' = future_state f"
proof (cases "obj f old")
  case (WaitNode w n ex')
  then have "waiter_ok f w ex'" using assms by (auto simp: store_ok_def pending_def node_ok_def split: base_state.splits)
  then show ?thesis using WaitNode unblock_waiter_ok [OF assms(1)] by simp
qed (use assms unpark_ok [of f old] in \<open>auto simp: pending_def unblock_def\<close>)

lemma unblock_all_ok:
  assumes "store_ok f" "pending f old" "responded f (future_state f)"
  shows "step_ok f (UnblockAll old) (unblock_all rejects old f)"
proof -
  obtain n where n: "length (objects f) = Suc n" using assms(1) by (cases "length (objects f)") (auto simp: store_ok_def)
  obtain f' where "unblockAll (Suc (length (objects f))) rejects (Some old) (Some (defaultExecutor f)) f = Inr f'"
    "store_ok f'" "extends f f'" "future_state f' = future_state f"
    using unblockAll_ok [OF assms(1,2)] unfolding n by blast
  then show ?thesis
    using assms(3) extends_mono(3) [of f f'] by (auto simp: unblock_all_def winner_def simp del: unblockAll.simps intro!: step_okI)
qed

lemma future_step_ok:
  assumes "store_ok f" "control_ok f p" "future_step rejects i p f = Some r"
  shows "step_ok f p r"
proof (cases p)
  case (Parked w)
  then show ?thesis
    using assms by (auto simp: get_park_def isDone_responded winner_def intro!: step_okI split: if_splits)
next
  case (TimedWait w b)
  then show ?thesis
    using assms by (auto simp: timed_park_def isDone_responded winner_def intro!: step_okI split: if_splits)
next
  case (UnregisterWaiter w)
  then show ?thesis using assms by (auto simp: winner_def store_ok_def intro!: step_okI)
next
  case (RegisterCas w ex k old new)
  then show ?thesis using assms register_cas_ok [OF assms(1), of w ex k old new] by auto
next
  case (UnregisterAt w prev cur)
  then show ?thesis using assms unregister_at_ok [OF assms(1), of w prev cur] by simp
next
  case (UnregisterFound w prev cur nxt)
  then show ?thesis using assms unregister_found_ok [OF assms(1), of w prev cur nxt] by simp
qed (use assms register_read_ok register_cas_ok complete_read_ok complete_cas_ok unblock_all_ok in auto)

lemma start_call_ok:
  assumes "store_ok f"
  shows "step_ok f (Returned Done) (start_call c f)"
proof -
  have a: "store_ok f' \<and> extends f f' \<and> a < length (objects f') \<and> obj f' a = x"
    if "alloc x f = (a, f')" "\<And>w n ex. x \<noteq> WaitNode w n ex" for x a f'
    using alloc_ok [OF assms that(1)] that(2) by auto
  show ?thesis
    by (cases c)
      (use a assms in \<open>auto simp: future_get_def andThen_def complete_def future_cancel_def isNotNull_def winner_def waiter_ok_def is_thread_def
          continuation_ok_def responded_def intro!: step_okI split: prod.splits option.splits\<close>)
qed

definition future_inv :: "('v, 'c, 'ex) future_system \<Rightarrow> bool" where
  "future_inv s \<longleftrightarrow> store_ok (future s) \<and> (\<forall>t p. calls s t = Some p \<longrightarrow> control_ok (future s) p)
     \<and> (\<forall>t u p q. calls s t = Some p \<longrightarrow> winner p \<longrightarrow> calls s u = Some q \<longrightarrow> winner q \<longrightarrow> t = u)"

lemma winner_responded: "control_ok f p \<Longrightarrow> winner p \<Longrightarrow> responded f (future_state f)"
  by (cases p) (auto simp: winner_def split: outcome.splits)

lemma step_inv:
  assumes inv: "future_inv s" and r: "step_ok (future s) p (f, p')"
    and p: "calls s t = Some p \<or> calls s t = None \<and> \<not> winner p"
  shows "future_inv (s\<lparr>future := f, calls := (calls s)(t \<mapsto> p')\<rparr>)" "extends (future s) f"
proof -
  have ok: "store_ok f" "extends (future s) f" "control_ok f p'" "winner p' \<Longrightarrow> winner p \<or> \<not> responded (future s) (future_state (future s))"
    using r by (auto simp: step_ok_def)
  show "extends (future s) f" by (fact ok(2))
  have old: "control_ok (future s) q" if "calls s u = Some q" for u q using inv that by (simp add: future_inv_def)
  have "t = u" if "winner p'" "calls s u = Some q" "winner q" for u q
    using ok(4) [OF that(1)] winner_responded [OF old [OF that(2)] that(3)] p inv that(2,3) unfolding future_inv_def by auto
  then show "future_inv (s\<lparr>future := f, calls := (calls s)(t \<mapsto> p')\<rparr>)"
    using inv ok(1,3) old control_ok_mono [OF ok(2)] unfolding future_inv_def by (auto split: if_splits)
qed

lemma trans_inv:
  assumes "future_inv s" "future_trans rejects s s'"
  shows "future_inv s'" "extends (future s) (future s')"
proof -
  have s: "store_ok (future s)" "\<And>t p. calls s t = Some p \<Longrightarrow> control_ok (future s) p" using assms(1) by (auto simp: future_inv_def)
  have "future_inv s' \<and> extends (future s) (future s')"
    using assms(2)
  proof (cases rule: future_trans.cases)
    case (begins t c f p)
    then have "step_ok (future s) (Returned Done) (f, p)" using start_call_ok [OF s(1), of c] by simp
    then show ?thesis using step_inv [OF assms(1), of "Returned Done" f p t] begins by (simp add: winner_def)
  next
    case (moves t p i f p')
    then show ?thesis using step_inv [OF assms(1), of p f p' t] future_step_ok [OF s(1) s(2)] by auto
  qed
  then show "future_inv s'" "extends (future s) (future s')" by simp_all
qed

lemma reachable_inv: "future_reachable rejects executor s \<Longrightarrow> future_inv s"
proof (induction rule: future_reachable.induct)
  case init
  show ?case
    by (auto simp: future_inv_def fresh_future_def AbstractInvocationFuture_def store_ok_def node_ok_def VOIDOBJECT_def)
next
  case step
  then show ?case using trans_inv by blast
qed

section \<open>Completion\<close>

lemma reachable_extends:
  assumes "future_inv s" "(future_trans rejects)\<^sup>*\<^sup>* s s'"
  shows "future_inv s' \<and> extends (future s) (future s')"
  using assms(2)
proof (induction rule: rtranclp_induct)
  case base
  then show ?case using assms(1) by simp
next
  case (step y z)
  then show ?case using trans_inv [of y rejects z] extends_trans by blast
qed

text \<open>Claim C11: a future completes at most once, whatever calls run concurrently: when it is done, its response object never changes
  again, every \<open>get\<close> that returns returns that object, and at most one call of \<open>complete\<close> or \<open>cancel\<close> ever answers true.\<close>

theorem future_completes_once:
  assumes "future_reachable rejects executor s" "isDone (future s) (Some (future_state (future s)))" "(future_trans rejects)\<^sup>*\<^sup>* s s'"
  shows "future_state (future s') = future_state (future s) \<and> obj (future s') (future_state (future s)) = obj (future s) (future_state (future s))
    \<and> (\<forall>t a. calls s' t = Some (Returned (Response a)) \<longrightarrow> a = future_state (future s))
    \<and> (\<forall>t u. calls s' t = Some (Returned (Completed True)) \<longrightarrow> calls s' u = Some (Returned (Completed True)) \<longrightarrow> t = u)"
proof -
  have inv: "future_inv s" by (rule reachable_inv [OF assms(1)])
  then have r: "responded (future s) (future_state (future s))" using assms(2) isDone_responded by (auto simp: future_inv_def)
  have s': "future_inv s'" "extends (future s) (future s')" using reachable_extends [OF inv assms(3)] by simp_all
  have st: "future_state (future s') = future_state (future s)" using s'(2) r by (simp add: extends_def)
  have "evolves (obj (future s) (future_state (future s))) (obj (future s') (future_state (future s)))"
    using s'(2) r by (simp add: extends_def responded_def)
  then have "obj (future s') (future_state (future s)) = obj (future s) (future_state (future s))"
    using r by (cases "obj (future s) (future_state (future s))") (auto simp: responded_def)
  moreover have "a = future_state (future s)" if "calls s' t = Some (Returned (Response a))" for t a
    using s'(1) that st by (fastforce simp: future_inv_def)
  moreover have "t = u" if "calls s' t = Some (Returned (Completed True))" "calls s' u = Some (Returned (Completed True))" for t u
    using s'(1) that unfolding future_inv_def by (metis winner_simps(1))
  ultimately show ?thesis using st by blast
qed

lemma blocked_thread_step:
  assumes "store_ok f" "control_ok f p" "future_step rejects i p f = Some (f', p')" "obj f v = ThreadState n False"
    "v < length (objects f)" "\<And>a. p \<noteq> UnblockAll a"
  shows "obj f' v = ThreadState n False"
  using assms
  by (cases p) (auto simp: register_read_def register_cas_def after_register_def alloc_def Let_def compareAndSetState_def nth_append nth_list_update
      unregister_found_def set_next_def complete_read_def complete_cas_def warnIfSuspiciousDoubleCompletion_def unblock_def
      split: if_splits option.splits prod.splits continuation.splits base_state.splits)

text \<open>A thread that nobody will wake: the future is done, no completion is under way, and it was not unparked.\<close>

definition stranded :: "('v, 'c, 'ex) future_system \<Rightarrow> nat \<Rightarrow> addr \<Rightarrow> bool" where
  "stranded s u v \<longleftrightarrow> future_inv s \<and> responded (future s) (future_state (future s)) \<and> calls s u = Some (Parked v)
     \<and> \<not> unparked (obj (future s) v) \<and> (\<forall>t a. calls s t \<noteq> Some (UnblockAll a))"

lemma stranded_step:
  assumes "stranded s u v" "act rejects a s = Some s'" "\<And>t i. a = Step t i \<Longrightarrow> \<not> wakes i"
  shows "stranded s' u v"
proof -
  have inv: "future_inv s" and r: "responded (future s) (future_state (future s))" and u: "calls s u = Some (Parked v)"
    and nb: "\<not> unparked (obj (future s) v)" and nu: "\<And>t a. calls s t \<noteq> Some (UnblockAll a)"
    using assms(1) by (auto simp: stranded_def)
  have ok: "store_ok (future s)" "\<And>t p. calls s t = Some p \<Longrightarrow> control_ok (future s) p" using inv by (auto simp: future_inv_def)
  obtain n where v: "obj (future s) v = ThreadState n False" "v < length (objects (future s))"
    using ok(2) [OF u] nb by (auto simp: is_thread_def)
  have tr: "future_inv s'" "extends (future s) (future s')" using trans_inv [OF inv act_trans [OF assms(2)]] by simp_all
  have r': "responded (future s') (future_state (future s'))" using tr(2) r extends_mono(3) [OF tr(2) r] by (simp add: extends_def)
  show ?thesis
  proof (cases a)
    case (Start t c)
    then obtain f p where c: "calls s t = None" "start_call c (future s) = (f, p)" "s' = s\<lparr>future := f, calls := (calls s)(t \<mapsto> p)\<rparr>"
      using assms(2) by (auto split: if_splits prod.splits)
    have "obj f v = ThreadState n False \<and> (\<forall>a. p \<noteq> UnblockAll a)"
      using c(2) v by (cases c) (auto simp: future_get_def andThen_def complete_def future_cancel_def alloc_def nth_append isNotNull_def
          split: option.splits if_splits)
    then show ?thesis using c u nu tr(1) r' by (auto simp: stranded_def)
  next
    case (Step t i)
    then obtain p f p' where c: "calls s t = Some p" "future_step rejects i p (future s) = Some (f, p')"
        "s' = s\<lparr>future := f, calls := (calls s)(t \<mapsto> p')\<rparr>"
      using assms(2) by (auto split: option.splits prod.splits)
    have tu: "t \<noteq> u"
    proof
      assume "t = u"
      then show False using c(1,2) u v(1) assms(3) [OF Step] by (auto simp: get_park_def)
    qed
    have "\<And>a. p \<noteq> UnblockAll a" using c(1) nu by blast
    from blocked_thread_step [OF ok(1) ok(2) [OF c(1)] c(2) v this] have "obj f v = ThreadState n False" .
    moreover have "p' \<noteq> UnblockAll a" for a
    proof
      assume "p' = UnblockAll a"
      then have "winner p" using future_step_ok [OF ok(1) ok(2) [OF c(1)] c(2)] r by (auto simp: step_ok_def winner_simps)
      then show False using c(1,2) nu by (cases p) (auto simp: winner_def)
    qed
    ultimately show ?thesis using c u tu nu tr(1) r' by (auto simp: stranded_def)
  qed
qed

lemma stranded_acts:
  "stranded s u v \<Longrightarrow> acts rejects as s = Some s' \<Longrightarrow> (\<forall>t i. Step t i \<in> set as \<longrightarrow> \<not> wakes i) \<Longrightarrow> stranded s' u v"
proof (induction "as" arbitrary: s)
  case (Cons a "as")
  obtain s1 where s1: "act rejects a s = Some s1" "acts rejects as s1 = Some s'" using Cons.prems(2) by (auto split: option.splits)
  have "stranded s1 u v" by (rule stranded_step [OF Cons.prems(1) s1(1)]) (use Cons.prems(3) in auto)
  then show ?case using Cons.IH s1(2) Cons.prems(3) by auto
qed simp

text \<open>Claim C13: when a completion finds several waiters, it wakes only the newest one: a thread that is parked in \<open>get\<close> and is not the newest
  waiter stays parked in every continuation in which its wait does not end by itself, although the future is done.\<close>

theorem older_waiters_never_wake:
  assumes "future_reachable rejects executor s" "calls s t = Some (UnblockAll old)" "obj (future s) old = WaitNode w nx ex"
    and "calls s u = Some (Parked v)" "v \<noteq> w" "\<not> unparked (obj (future s) v)"
    and "acts rejects (Step t i # as) s = Some s'" "\<forall>t j. Step t j \<in> set as \<longrightarrow> \<not> wakes j"
  shows "calls s' u = Some (Parked v) \<and> isDone (future s') (Some (future_state (future s')))"
proof -
  have inv: "future_inv s" by (rule reachable_inv [OF assms(1)])
  have ok: "store_ok (future s)" "\<And>t p. calls s t = Some p \<Longrightarrow> control_ok (future s) p" using inv by (auto simp: future_inv_def)
  obtain s1 where s1: "act rejects (Step t i) s = Some s1" "acts rejects as s1 = Some s'" using assms(7) by (auto split: option.splits)
  then obtain f p where c: "unblock_all rejects old (future s) = (f, p)" "s1 = s\<lparr>future := f, calls := (calls s)(t \<mapsto> p)\<rparr>"
    using assms(2) by (auto split: prod.splits)
  have tr: "future_inv s1" using trans_inv [OF inv act_trans [OF s1(1)]] by simp
  have st: "step_ok (future s) (UnblockAll old) (f, p)"
    using future_step_ok [OF ok(1) ok(2) [OF assms(2)], of rejects i "(f, p)"] c(1) by simp
  have r: "responded (future s) (future_state (future s))" using ok(2) [OF assms(2)] by simp
  then have r1: "responded f (future_state f)" using st extends_mono(3) [of "future s" f] by (auto simp: step_ok_def extends_def)
  have "waiter_ok (future s) w ex"
    using ok assms(2,3) by (fastforce simp: store_ok_def node_ok_def pending_def)
  then have "\<not> unparked (obj f v) \<and> (\<forall>a. p \<noteq> UnblockAll a)"
    using c(1) assms(3,5,6) by (cases "length (objects (future s))")
      (auto simp: unblock_all_def waiter_ok_def unpark_def unblock_def split: base_state.splits option.splits)
  moreover have "calls s1 u' \<noteq> Some (UnblockAll a)" if "u' \<noteq> t" for u' a
    using that inv assms(2) c(2) unfolding future_inv_def by (auto simp: winner_simps dest: spec)
  moreover have "u \<noteq> t" using assms(2,4) by auto
  ultimately have "stranded s1 u v" using tr r1 c(2) assms(4) by (auto simp: stranded_def)
  from stranded_acts [OF this s1(2) assms(8)] show ?thesis by (auto simp: stranded_def future_inv_def isDone_responded)
qed

lemma acts_trans: "acts rejects as s = Some s' \<Longrightarrow> (future_trans rejects)\<^sup>*\<^sup>* s s'"
proof (induction "as" arbitrary: s)
  case (Cons a "as")
  then show ?case by (auto split: option.splits dest: act_trans intro: converse_rtranclp_into_rtranclp)
qed simp

text \<open>Two threads wait in \<open>get\<close>, one after the other; the first is still parked when a third completes the future.\<close>

definition no_wake :: wake_up where
  "no_wake = \<lparr>wakes = False, time_left = True\<rparr>"

definition two_getters :: "(nat, unit, unit) action list" where
  "two_getters = [Start 1 (Get 1), Step 1 no_wake, Step 1 no_wake, Start 2 (Get 2), Step 2 no_wake, Step 2 no_wake,
     Start 3 (Complete (Some 42)), Step 3 no_wake, Step 3 no_wake]"

lemmas future_eval = fresh_future_def AbstractInvocationFuture_def VOIDOBJECT_def no_wake_def future_get_def complete_def alloc_def
  register_read_def register_cas_def after_register_def compareAndSetState_def isDone_def complete_read_def complete_cas_def
  get_park_def timed_park_def unblock_all_def unpark_def unblock_def Let_def

definition two_getters_state :: "(nat, unit, unit) future_system" where
  "two_getters_state =
     \<lparr>future = \<lparr>objects = [VoidState, ThreadState 1 False, ThreadState 2 False, WaitNode 2 (Some 1) None, ValueState (Some 42)],
        future_state = 4, defaultExecutor = (), events = []\<rparr>,
      calls = [1 \<mapsto> Parked 1, 2 \<mapsto> Parked 2, 3 \<mapsto> UnblockAll 3]\<rparr>"

lemma two_getters_run: "acts (\<lambda>_. False) two_getters (fresh_future ()) = Some two_getters_state"
  by (simp add: two_getters_def two_getters_state_def future_eval fun_upd_twist)
    (simp add: numeral_2_eq_2 numeral_3_eq_3)

lemma two_getters_reachable: "future_reachable (\<lambda>_. False) () two_getters_state"
  by (rule acts_reachable [OF future_reachable.init two_getters_run])

theorem older_waiters_never_wake_witness:
  "\<exists>s'. acts (\<lambda>_. False) [Step 3 no_wake, Step 2 no_wake] two_getters_state = Some s'
    \<and> calls s' 1 = Some (Parked 1) \<and> calls s' 2 = Some (Returned (Response 4)) \<and> obj (future s') 4 = ValueState (Some 42)"
proof -
  obtain s' where s': "acts (\<lambda>_. False) [Step 3 no_wake, Step 2 no_wake] two_getters_state = Some s'"
    "calls s' 2 = Some (Returned (Response 4)) \<and> obj (future s') 4 = ValueState (Some 42)"
    by (simp add: two_getters_state_def future_eval)
  have "calls s' 1 = Some (Parked 1)"
    using older_waiters_never_wake [OF two_getters_reachable _ _ _ _ _ s'(1), of 3 2 "Some 1" None 1 1]
    by (simp add: two_getters_state_def no_wake_def)
  then show ?thesis using s' by blast
qed

theorem future_completes_once_witness:
  "\<exists>s'. acts (\<lambda>_. False) [Step 3 no_wake, Step 2 no_wake, Start 4 Cancel, Step 4 no_wake] two_getters_state = Some s'
    \<and> calls s' 3 = Some (Returned (Completed True)) \<and> calls s' 4 = Some (Returned (Completed False))
    \<and> obj (future s') (future_state (future s')) = ValueState (Some 42)"
proof -
  obtain s' where s': "acts (\<lambda>_. False) [Step 3 no_wake, Step 2 no_wake, Start 4 Cancel, Step 4 no_wake] two_getters_state = Some s'"
    "calls s' 3 = Some (Returned (Completed True))" "calls s' 4 = Some (Returned (Completed False))"
    by (simp add: two_getters_state_def future_eval future_cancel_def)
  have "isDone (future two_getters_state) (Some (future_state (future two_getters_state)))"
    by (simp add: two_getters_state_def isDone_def)
  from future_completes_once [OF two_getters_reachable this acts_trans [OF s'(1)]]
  show ?thesis using s' by (simp add: two_getters_state_def)
qed

text \<open>The waiter at the top of a state.\<close>

definition newest_waiter :: "('v, 'c, 'ex) invocation_future \<Rightarrow> addr \<Rightarrow> addr" where
  "newest_waiter f a = (case obj f a of WaitNode w _ _ \<Rightarrow> w | _ \<Rightarrow> a)"

text \<open>Claim C12: the newest waiter is always woken: a thread parked in \<open>get\<close> that is at the top of the state which a completion
  replaced returns the response as soon as the completing call and it have taken one more step each, whatever
  happened before.\<close>

theorem newest_waiter_returns:
  assumes "future_reachable rejects executor s" "calls s t = Some (UnblockAll old)" "newest_waiter (future s) old = w"
    and "calls s u = Some (Parked w)"
  shows "\<exists>s'. acts rejects [Step t i, Step u j] s = Some s' \<and> calls s' u = Some (Returned (Response (future_state (future s))))
    \<and> calls s' t = Some (Returned (Completed True))"
proof -
  have inv: "future_inv s" by (rule reachable_inv [OF assms(1)])
  have ok: "store_ok (future s)" "\<And>t p. calls s t = Some p \<Longrightarrow> control_ok (future s) p" using inv by (auto simp: future_inv_def)
  obtain n b where w: "obj (future s) w = ThreadState n b" "w < length (objects (future s))" using ok(2) [OF assms(4)] by (auto simp: is_thread_def)
  have r: "responded (future s) (future_state (future s))" "pending (future s) old" using ok(2) [OF assms(2)] by simp_all
  obtain m where m: "length (objects (future s)) = Suc m" using w(2) by (cases "length (objects (future s))") auto
  have "unblockAll (Suc (Suc m)) rejects (Some old) (Some (defaultExecutor (future s))) (future s) = Inr (unpark w (future s))"
    using assms(3) w r(2) by (cases "obj (future s) old") (auto simp: newest_waiter_def pending_def)
  then have ub: "unblock_all rejects old (future s) = (unpark w (future s), Returned (Completed True))"
    by (simp add: unblock_all_def m del: unblockAll.simps)
  have up: "unparked (obj (unpark w (future s)) w)" "future_state (unpark w (future s)) = future_state (future s)"
    "is_response (obj (unpark w (future s)) (future_state (future s)))"
    using w r(1) by (auto simp: unpark_def responded_def nth_list_update)
  have "u \<noteq> t" using assms(2,4) by auto
  then show ?thesis using assms(2,4) up by (auto simp: ub get_park_def isDone_def)
qed

theorem newest_waiter_returns_witness:
  "\<exists>s'. acts (\<lambda>_. False) [Step 3 no_wake, Step 2 no_wake] two_getters_state = Some s' \<and> calls s' 2 = Some (Returned (Response 4))"
  using newest_waiter_returns [OF two_getters_reachable, of 3 3 2 2 no_wake no_wake]
  by (auto simp: two_getters_state_def newest_waiter_def simp del: acts.simps)

section \<open>Timed waits\<close>

text \<open>The waiters of a state, newest first.\<close>

function waiters :: "('v, 'c, 'ex) invocation_future \<Rightarrow> addr \<Rightarrow> addr list" where
  "waiters f a =
     (case obj f a of
        WaitNode w n _ \<Rightarrow> w # (case n of None \<Rightarrow> [] | Some b \<Rightarrow> if b < a then waiters f b else [])
      | ThreadState _ _ \<Rightarrow> [a]
      | ExecutionCallbackState _ \<Rightarrow> [a]
      | _ \<Rightarrow> [])"
  by pat_completeness auto
termination by (relation "measure snd") auto

declare waiters.simps [simp del]

text \<open>A call running alone for a number of steps.\<close>

fun solo :: "('ex \<Rightarrow> bool) \<Rightarrow> wake_up \<Rightarrow> nat \<Rightarrow> ('v, 'c, 'ex) invocation_future \<times> ('c, 'ex) control \<Rightarrow>
    ('v, 'c, 'ex) invocation_future \<times> ('c, 'ex) control" where
  "solo rejects i 0 s = s"
| "solo rejects i (Suc n) (f, p) = (case future_step rejects i p f of None \<Rightarrow> (f, p) | Some s \<Rightarrow> solo rejects i n s)"

lemma waiters_cong:
  "(\<And>b. b \<le> a \<Longrightarrow> obj f' b = obj f b) \<Longrightarrow> waiters f' a = waiters f a"
proof (induction a rule: less_induct)
  case (less a)
  have "waiters f' b = waiters f b" if "b < a" for b using less that by simp
  then show ?case using less.prems [of a] by (auto simp: waiters.simps [of f' a] waiters.simps [of f a] split: base_state.split option.split)
qed

lemma waiters_newest:
  assumes "waiters f a \<noteq> []"
  shows "waiters f a = newest_waiter f a # (case (case obj f a of WaitNode _ n _ \<Rightarrow> n | _ \<Rightarrow> None) of
    None \<Rightarrow> [] | Some b \<Rightarrow> if b < a then waiters f b else [])"
  using assms by (cases "obj f a") (simp_all add: waiters.simps [of f a] newest_waiter_def)

lemma unregister_below:
  assumes "store_ok f"
  shows "\<lbrakk>obj f p = WaitNode v (Some a) ex; p < length (objects f); w \<noteq> v; w \<in> set (waiters f a)\<rbrakk> \<Longrightarrow>
    \<exists>n f'. n \<le> 2 * a + 3 \<and> solo rejects i n (f, UnregisterAt w (Some p) (Some a)) = (f', Returned TimeoutException)
      \<and> (\<forall>b > p. obj f' b = obj f b) \<and> future_state f' = future_state f \<and> length (objects f') = length (objects f)
      \<and> waiters f' p = v # remove1 w (waiters f a)"
proof (induction a arbitrary: p v ex rule: less_induct)
  case (less a)
  have ap: "a < p" "pending f a" using assms less.prems(1,2) by (auto simp: store_ok_def node_ok_def split: base_state.splits)
  have na: "node_ok f a" using assms ap by (simp add: store_ok_def pending_def)
  show ?case
  proof (cases "newest_waiter f a = w")
    case True
    let ?nx = "case obj f a of WaitNode _ n _ \<Rightarrow> n | _ \<Rightarrow> None"
    let ?f = "set_next p ?nx f"
    have f': "obj ?f p = WaitNode v ?nx ex" "\<And>b. b \<noteq> p \<Longrightarrow> obj ?f b = obj f b" "future_state ?f = future_state f"
        "length (objects ?f) = length (objects f)"
      using less.prems(1,2) by (simp_all add: set_next_def)
    have "solo rejects i 3 (f, UnregisterAt w (Some p) (Some a)) = (?f, Returned TimeoutException)"
      using True by (simp add: numeral_3_eq_3 unregister_at_def Let_def newest_waiter_def unregister_found_def)
    moreover have "waiters ?f p = v # remove1 w (waiters f a)"
    proof -
      have below: "waiters ?f b = waiters f b" if "b < p" for b using that f'(2) by (intro waiters_cong) auto
      have "waiters f a = w # (case ?nx of None \<Rightarrow> [] | Some b \<Rightarrow> if b < a then waiters f b else [])"
        using True less.prems(4) waiters_newest [of f a] by fastforce
      moreover have "\<And>b. ?nx = Some b \<Longrightarrow> b < a" using na by (auto simp: node_ok_def split: base_state.splits)
      ultimately show ?thesis using f'(1) below ap(1) by (auto simp: waiters.simps [of ?f p] split: option.split)
    qed
    ultimately show ?thesis using f' by (intro exI [of _ 3] exI [of _ ?f]) auto
  next
    case False
    then obtain u b ex' where nd: "obj f a = WaitNode u (Some b) ex'" "u \<noteq> w" "w \<in> set (waiters f b)" "b < a"
      using less.prems(4)
      by (cases "obj f a") (auto simp: waiters.simps [of f a] newest_waiter_def split: option.splits if_splits)
    obtain n f' where n: "n \<le> 2 * b + 3" "solo rejects i n (f, UnregisterAt w (Some a) (Some b)) = (f', Returned TimeoutException)"
      "\<forall>c > a. obj f' c = obj f c" "future_state f' = future_state f" "length (objects f') = length (objects f)"
      "waiters f' a = u # remove1 w (waiters f b)"
      using less.IH [OF nd(4) nd(1) _ _ nd(3)] nd(2) ap by (auto simp: pending_def)
    have "solo rejects i (Suc n) (f, UnregisterAt w (Some p) (Some a)) = (f', Returned TimeoutException)"
      using nd n(2) by (simp add: unregister_at_def)
    moreover have "waiters f' p = v # remove1 w (waiters f a)"
      using n(3,6) less.prems(1) ap(1) nd by (simp add: waiters.simps [of f' p] waiters.simps [of f a])
    ultimately show ?thesis using n nd(4) ap(1) by (intro exI [of _ "Suc n"] exI [of _ f']) auto
  qed
qed


text \<open>Two timed waits; the older one gives up.\<close>

definition two_timed :: "(nat, unit, unit) action list" where
  "two_timed = [Start 1 (GetTimeout 1 5), Step 1 no_wake, Step 1 no_wake, Start 2 (GetTimeout 2 5), Step 2 no_wake, Step 2 no_wake,
     Step 1 \<lparr>wakes = True, time_left = False\<rparr>, Step 1 no_wake]"

definition two_timed_state :: "(nat, unit, unit) future_system" where
  "two_timed_state =
     \<lparr>future = \<lparr>objects = [VoidState, ThreadState 1 False, ThreadState 2 False, WaitNode 2 (Some 1) None], future_state = 3,
        defaultExecutor = (), events = []\<rparr>, calls = [1 \<mapsto> UnregisterWaiter 1, 2 \<mapsto> TimedWait 2 True]\<rparr>"

lemma two_timed_run: "acts (\<lambda>_. False) two_timed (fresh_future ()) = Some two_timed_state"
  by (simp add: two_timed_def two_timed_state_def future_eval fun_upd_twist)
    (simp add: numeral_2_eq_2 numeral_3_eq_3)


text \<open>A callback that runs after completion receives what the future was completed with: the value, or the exception itself,
  which the wrapping in an execution exception and its unwrapping leave unchanged.\<close>

theorem callback_receives_response:
  assumes "future_reachable rejects executor s" "calls s t = Some (UnblockAll old) \<or> calls s t = Some (Returned (Completed b))"
  shows "\<exists>c. CallbackRunner_run (future s) = Inr c
    \<and> (case obj (future s) (future_state (future s)) of
         ValueState v \<Rightarrow> c = OnResponse v | ExceptionState e \<Rightarrow> c = OnFailureCall e | _ \<Rightarrow> False)"
proof -
  have "future_inv s" by (rule reachable_inv [OF assms(1)])
  then have "responded (future s) (future_state (future s))" using assms(2) by (fastforce simp: future_inv_def)
  then show ?thesis
    by (cases "obj (future s) (future_state (future s))") (auto simp: responded_def CallbackRunner_run_def resolve_def unwrap_def)
qed

theorem callback_receives_response_witness: "CallbackRunner_run (future two_getters_state) = Inr (OnResponse (Some 42))"
  using callback_receives_response [OF two_getters_reachable, of 3 3] by (simp add: two_getters_state_def)

end
