(* ===== verification/Async_Calls.thy ===== *)
theory Async_Calls
  imports Map_Proxy Invocation_Future
begin

text \<open>
  What clients of asynchronous calls hold: the movable future of \<open>client/Future.h\<close>, the decoding future of
  \<open>client/internal/ClientDelegatingFuture.h\<close>, the finished one of \<open>client/internal/executor/CompletedFuture.h\<close>, and the pipeline of
  \<open>client/Pipelining.h\<close>. Futures of \<open>client/Future.h\<close> are moved by their copy constructor and by assignment, so they are objects in a store. The
  pipeline is used by one thread while the callbacks run in others: a section under its lock is one step. The invocation that a future delegates to
  answers as an argument.
\<close>

section \<open>Movable futures\<close>

datatype client_error = FutureUninitialized | Raised iexception | Failed_With hz_error

definition TIMEOUT_CODE :: int where "TIMEOUT_CODE = 57"

record ('i, 'dec) client_future =
  cf_invocation :: "'i option"
  cf_decoder :: 'dec

type_synonym ('i, 'dec) future_store = "('i, 'dec) client_future list"

definition cf_new :: "'i \<Rightarrow> 'dec \<Rightarrow> ('i, 'dec) future_store \<Rightarrow> ('i, 'dec) future_store" where
  "cf_new i d h = h @ [\<lparr>cf_invocation = Some i, cf_decoder = d\<rparr>]"

definition cf_reset :: "nat \<Rightarrow> ('i, 'dec) future_store \<Rightarrow> ('i, 'dec) future_store" where
  "cf_reset this h = h[this := (h ! this)\<lparr>cf_invocation := None\<rparr>]"

text \<open>The copy constructor moves; so does assignment, which resets the source before it copies the decoder.\<close>

definition cf_copy :: "nat \<Rightarrow> ('i, 'dec) future_store \<Rightarrow> ('i, 'dec) future_store" where
  "cf_copy src h = cf_reset src (h @ [h ! src])"

definition cf_assign :: "nat \<Rightarrow> nat \<Rightarrow> ('i, 'dec) future_store \<Rightarrow> ('i, 'dec) future_store" where
  "cf_assign this src h =
     (let h1 = cf_reset src (h[this := (h ! this)\<lparr>cf_invocation := cf_invocation (h ! src)\<rparr>])
      in h1[this := (h1 ! this)\<lparr>cf_decoder := cf_decoder (h1 ! src)\<rparr>])"

definition cf_valid :: "nat \<Rightarrow> ('i, 'dec) future_store \<Rightarrow> bool" where
  "cf_valid this h \<longleftrightarrow> cf_invocation (h ! this) \<noteq> None"

text \<open>\<open>invk\<close> gives what the invocation future answers; its response pointer is asserted not to be null.\<close>

definition cf_response :: "('i \<Rightarrow> iexception + 'm option) \<Rightarrow> nat \<Rightarrow> ('i, 'dec) future_store \<Rightarrow> (client_error + 'm) \<times> ('i, 'dec) future_store" where
  "cf_response invk this h =
     (case cf_invocation (h ! this) of
        None \<Rightarrow> (Inl FutureUninitialized, h)
      | Some i \<Rightarrow>
          (case invk i of
             Inl e \<Rightarrow> (Inl (Raised e), h)
           | Inr None \<Rightarrow> (Inl (Failed_With AssertionFailure), h)
           | Inr (Some m) \<Rightarrow> (Inr m, cf_reset this h)))"

definition cf_get_typed :: "('i \<Rightarrow> iexception + 'm option) \<Rightarrow> ('dec \<Rightarrow> 'm \<Rightarrow> 'd option res) \<Rightarrow> nat \<Rightarrow> ('i, 'dec) future_store \<Rightarrow>
    (client_error + 'd option) \<times> ('i, 'dec) future_store" where
  "cf_get_typed invk decode this h =
     (case cf_response invk this h of
        (Inl e, h') \<Rightarrow> (Inl e, h')
      | (Inr m, h') \<Rightarrow> (case decode (cf_decoder (h ! this)) m of Inl e \<Rightarrow> (Inl (Failed_With e), h') | Inr d \<Rightarrow> (Inr d, h')))"

definition cf_get :: "('i \<Rightarrow> iexception + 'm option) \<Rightarrow> ('dec \<Rightarrow> 'm \<Rightarrow> 'd option res) \<Rightarrow> ('d \<Rightarrow> 'v option res) \<Rightarrow> nat \<Rightarrow> ('i, 'dec) future_store \<Rightarrow>
    (client_error + 'v option) \<times> ('i, 'dec) future_store" where
  "cf_get invk decode toObj this h =
     (case cf_response invk this h of
        (Inl e, h') \<Rightarrow> (Inl e, h')
      | (Inr m, h') \<Rightarrow>
          (case bindR (decode (cf_decoder (h ! this)) m) (toObject_auto toObj) of
             Inl e \<Rightarrow> (Inl (Failed_With e), h')
           | Inr v \<Rightarrow> (Inr v, h')))"

datatype future_status = FS_ready | FS_timeout

definition cf_wait_for :: "(int \<Rightarrow> 'i \<Rightarrow> iexception + 'm option) \<Rightarrow> int \<Rightarrow> nat \<Rightarrow> ('i, 'dec) future_store \<Rightarrow> client_error + future_status" where
  "cf_wait_for timed_invk timeoutInMilliseconds this h =
     (case cf_invocation (h ! this) of
        None \<Rightarrow> Inl FutureUninitialized
      | Some i \<Rightarrow>
          (case timed_invk timeoutInMilliseconds i of
             Inr _ \<Rightarrow> Inr FS_ready
           | Inl e \<Rightarrow> if errorCode e = TIMEOUT_CODE then Inr FS_timeout else Inl (Raised e)))"

definition cf_wait :: "(int \<Rightarrow> 'i \<Rightarrow> iexception + 'm option) \<Rightarrow> nat \<Rightarrow> ('i, 'dec) future_store \<Rightarrow> client_error + unit" where
  "cf_wait timed_invk this h = (case cf_wait_for timed_invk (2 ^ 63 - 1) this h of Inl e \<Rightarrow> Inl e | Inr _ \<Rightarrow> Inr ())"

text \<open>What a client does with its futures.\<close>

datatype ('i, 'dec) future_op = FNew 'i 'dec | FCopy nat | FAssign nat nat | FGet nat

text \<open>The store, the invocations that futures were made for, and those whose response was taken, in order.\<close>

record ('i, 'dec) future_world =
  fw_store :: "('i, 'dec) future_store"
  fw_made :: "'i list"
  fw_taken :: "'i list"

definition future_op_ok :: "('i, 'dec) future_world \<Rightarrow> ('i, 'dec) future_op \<Rightarrow> bool" where
  "future_op_ok w op = (let n = length (fw_store w) in
     case op of FNew i d \<Rightarrow> i \<notin> set (fw_made w) | FCopy s \<Rightarrow> s < n | FAssign t s \<Rightarrow> t < n \<and> s < n | FGet t \<Rightarrow> t < n)"

fun future_op_run :: "('i \<Rightarrow> iexception + 'm option) \<Rightarrow> ('i, 'dec) future_op \<Rightarrow> ('i, 'dec) future_world \<Rightarrow> ('i, 'dec) future_world" where
  "future_op_run invk (FNew i d) w = w\<lparr>fw_store := cf_new i d (fw_store w), fw_made := fw_made w @ [i]\<rparr>"
| "future_op_run invk (FCopy s) w = w\<lparr>fw_store := cf_copy s (fw_store w)\<rparr>"
| "future_op_run invk (FAssign t s) w = w\<lparr>fw_store := cf_assign t s (fw_store w)\<rparr>"
| "future_op_run invk (FGet t) w =
     (case cf_response invk t (fw_store w) of
        (Inl e, h) \<Rightarrow> w\<lparr>fw_store := h\<rparr>
      | (Inr m, h) \<Rightarrow> w\<lparr>fw_store := h, fw_taken := fw_taken w @ [the (cf_invocation (fw_store w ! t))]\<rparr>)"

inductive future_ops :: "('i \<Rightarrow> iexception + 'm option) \<Rightarrow> ('i, 'dec) future_op list \<Rightarrow> ('i, 'dec) future_world \<Rightarrow> bool" for invk where
  Nothing: "future_ops invk [] \<lparr>fw_store = [], fw_made = [], fw_taken = []\<rparr>"
| Op: "\<lbrakk>future_ops invk ops w; future_op_ok w op\<rbrakk> \<Longrightarrow> future_ops invk (ops @ [op]) (future_op_run invk op w)"

text \<open>An invocation belongs to at most one future, and to none once its response is taken.\<close>

definition owned_once :: "('i, 'dec) future_world \<Rightarrow> bool" where
  "owned_once w \<longleftrightarrow> distinct (fw_taken w)
     \<and> (\<forall>a b i. a < length (fw_store w) \<longrightarrow> b < length (fw_store w) \<longrightarrow> cf_invocation (fw_store w ! a) = Some i \<longrightarrow> cf_invocation (fw_store w ! b) = Some i \<longrightarrow> a = b)
     \<and> (\<forall>a i. a < length (fw_store w) \<longrightarrow> cf_invocation (fw_store w ! a) = Some i \<longrightarrow> i \<in> set (fw_made w) - set (fw_taken w))
     \<and> set (fw_taken w) \<subseteq> set (fw_made w)"

lemmas cf_defs = cf_new_def cf_copy_def cf_assign_def cf_reset_def Let_def

lemma owned_once_step:
  assumes "owned_once w" "future_op_ok w op"
  shows "owned_once (future_op_run invk op w)"
proof (cases op)
  case (FNew i d)
  then show ?thesis using assms by (auto simp: owned_once_def future_op_ok_def cf_new_def nth_append less_Suc_eq)
next
  case (FCopy s)
  then show ?thesis using assms by (auto simp: owned_once_def future_op_ok_def cf_copy_def cf_reset_def nth_append nth_list_update less_Suc_eq split: if_splits)
next
  case (FAssign t s)
  then show ?thesis using assms by (auto simp: owned_once_def future_op_ok_def cf_assign_def cf_reset_def nth_list_update Let_def split: if_splits)
next
  case (FGet t)
  then show ?thesis
    using assms by (auto simp: owned_once_def future_op_ok_def cf_response_def cf_reset_def nth_list_update split: option.splits sum.splits if_splits)
qed

lemma future_ops_owned_once: "future_ops invk ops w \<Longrightarrow> owned_once w"
  by (induction rule: future_ops.induct) (auto simp: owned_once_step, simp add: owned_once_def)

text \<open>A future without an invocation.\<close>

definition gone :: "nat \<Rightarrow> ('i, 'dec) future_store \<Rightarrow> bool" where
  "gone a h \<longleftrightarrow> cf_invocation (h ! a) = None"

lemma moved_from_gone:
  assumes "a < length h"
  shows "gone a (cf_copy a h)" "t < length h \<Longrightarrow> gone a (cf_assign t a h)"
  using assms by (auto simp: gone_def cf_copy_def cf_assign_def cf_reset_def nth_list_update Let_def)

lemma taken_gone: "cf_response invk a h = (Inr m, h') \<Longrightarrow> a < length h \<Longrightarrow> gone a h'"
  by (auto simp: gone_def cf_response_def cf_reset_def split: option.splits sum.splits)

lemma gone_refuses: "gone a h \<Longrightarrow> \<not> cf_valid a h \<and> cf_get invk decode toObj a h = (Inl FutureUninitialized, h)"
  by (simp add: gone_def cf_valid_def cf_get_def cf_response_def)

text \<open>Claim C26: a movable future owns its invocation alone: whatever is copied and assigned, an invocation belongs to at most one future at a time, the response of an invocation
  is taken at most once, and a future that was copied from, assigned from, or whose response was taken is not valid and refuses \<open>get\<close>.
\<close>

theorem response_taken_once:
  assumes "future_ops invk ops w"
  shows "distinct (fw_taken w)
    \<and> (\<forall>a < length (fw_store w). \<forall>b < length (fw_store w). cf_valid a (fw_store w) \<and> cf_invocation (fw_store w ! a) = cf_invocation (fw_store w ! b) \<longrightarrow> a = b)
    \<and> (\<forall>a < length (fw_store w). \<forall>i \<in> set (fw_taken w). cf_invocation (fw_store w ! a) \<noteq> Some i)
    \<and> (\<forall>a < length (fw_store w). gone a (cf_copy a (fw_store w)))
    \<and> (\<forall>a < length (fw_store w). \<forall>t < length (fw_store w). gone a (cf_assign t a (fw_store w)))
    \<and> (\<forall>a < length (fw_store w). \<forall>m h. cf_response invk a (fw_store w) = (Inr m, h) \<longrightarrow> gone a h)
    \<and> (\<forall>a h. gone a h \<longrightarrow> \<not> cf_valid a h \<and> cf_get invk decode toObj a h = (Inl FutureUninitialized, h))"
proof -
  have own: "owned_once w" by (rule future_ops_owned_once [OF assms])
  show ?thesis
  proof (intro conjI)
    show "distinct (fw_taken w)"
      "\<forall>a < length (fw_store w). \<forall>b < length (fw_store w). cf_valid a (fw_store w) \<and> cf_invocation (fw_store w ! a) = cf_invocation (fw_store w ! b) \<longrightarrow> a = b"
      "\<forall>a < length (fw_store w). \<forall>i \<in> set (fw_taken w). cf_invocation (fw_store w ! a) \<noteq> Some i"
      using own unfolding owned_once_def cf_valid_def by (blast, metis not_None_eq, blast)
  qed (simp_all add: moved_from_gone taken_gone gone_refuses, (use taken_gone in blast)?)
qed

text \<open>Assigning a future to itself loses the invocation.\<close>

lemma self_assignment_loses:
  "t < length h \<Longrightarrow> \<not> cf_valid t (cf_assign t t h)"
  by (simp add: cf_valid_def cf_assign_def cf_reset_def Let_def)

text \<open>A \<open>get\<close> that raises the exception of the invocation leaves the future valid.\<close>

lemma failed_get_stays_valid:
  assumes "cf_invocation (h ! t) = Some i" "invk i = Inl e"
  shows "cf_get invk decode toObj t h = (Inl (Raised e), h) \<and> cf_valid t h"
  using assms by (simp add: cf_get_def cf_response_def cf_valid_def)

text \<open>What a handler for \<open>IException\<close> catches.\<close>

definition is_exception :: "client_error \<Rightarrow> bool" where
  "is_exception e = (case e of Failed_With h \<Rightarrow> caught h | _ \<Rightarrow> True)"

section \<open>Completed futures\<close>

text \<open>A value, which can be a null pointer, or an exception.\<close>

type_synonym 'v completed = "iexception + 'v option"

definition done_get :: "'v completed \<Rightarrow> iexception + 'v option" where
  "done_get f = (case f of Inl e \<Rightarrow> Inl (if errorCode e = EXECUTION then e else IException EXECUTION (Some e)) | Inr v \<Rightarrow> Inr v)"

definition done_get_timed :: "int \<Rightarrow> 'v completed \<Rightarrow> iexception + 'v option" where
  "done_get_timed t f = done_get f"

definition done_join :: "(iexception \<Rightarrow> iexception) \<Rightarrow> 'v completed \<Rightarrow> iexception + 'v option" where
  "done_join rethrow f = (case done_get f of Inl e \<Rightarrow> Inl (rethrow e) | Inr v \<Rightarrow> Inr v)"

text \<open>What the job that is handed to the executor tells the callback.\<close>

definition done_andThen :: "'v completed \<Rightarrow> 'v callback_call" where
  "done_andThen f = (case f of Inl e \<Rightarrow> OnFailureCall e | Inr v \<Rightarrow> OnResponse v)"

definition done_flags :: "'v completed \<Rightarrow> bool \<times> bool \<times> bool" where
  "done_flags f = (False, False, True)"

definition done_complete :: "'v completed \<Rightarrow> 'v completed \<Rightarrow> bool \<times> 'v completed" where
  "done_complete x f = (False, f)"

lemma done_get_execution: "done_get f = Inl e \<Longrightarrow> errorCode e = EXECUTION"
  by (auto simp: done_get_def split: sum.splits if_splits)

section \<open>Decoding futures\<close>

text \<open>
  The decoded response is shared by all calls: a call reads it and, if it is not there, decodes and tries to set it. \<open>None\<close> is the object that stands for
  a response not yet decoded.
\<close>

record ('v, 'm) delegating =
  dg_default :: "'v option"
  dg_decoded :: "'v option option"
  dg_decodings :: nat

definition delegating_new :: "'v option \<Rightarrow> ('v, 'm) delegating" where
  "delegating_new d = \<lparr>dg_default = d, dg_decoded = None, dg_decodings = 0\<rparr>"

text \<open>The first half of \<open>resolveResponse\<close>: an answer, or a decoding.\<close>

datatype 'v resolving = Answers "'v option" | Decodes "'v option"

definition dg_look :: "('m \<Rightarrow> 'v option res) \<Rightarrow> 'm \<Rightarrow> ('v, 'm) delegating \<Rightarrow> 'v resolving res \<times> ('v, 'm) delegating" where
  "dg_look decode m f =
     (case dg_default f of
        Some d \<Rightarrow> (Inr (Answers (Some d)), f)
      | None \<Rightarrow>
          (case dg_decoded f of
             Some r \<Rightarrow> (Inr (Answers r), f)
           | None \<Rightarrow> (bindR (decode m) (\<lambda>v. Inr (Decodes v)), f\<lparr>dg_decodings := Suc (dg_decodings f)\<rparr>)))"

text \<open>The second half: \<open>compareAndSet\<close>, whose answer is not used.\<close>

definition dg_set :: "'v option \<Rightarrow> ('v, 'm) delegating \<Rightarrow> 'v option \<times> ('v, 'm) delegating" where
  "dg_set v f = (v, case dg_decoded f of None \<Rightarrow> f\<lparr>dg_decoded := Some v\<rparr> | Some _ \<Rightarrow> f)"

definition resolveResponse :: "('m \<Rightarrow> 'v option res) \<Rightarrow> 'm \<Rightarrow> ('v, 'm) delegating \<Rightarrow> 'v option res \<times> ('v, 'm) delegating" where
  "resolveResponse decode m f =
     (case dg_look decode m f of
        (Inl e, f') \<Rightarrow> (Inl e, f')
      | (Inr (Answers v), f') \<Rightarrow> (Inr v, f')
      | (Inr (Decodes v), f') \<Rightarrow> (case dg_set v f' of (r, f'') \<Rightarrow> (Inr r, f'')))"

definition dg_get :: "(int \<Rightarrow> client_error + 'm) \<Rightarrow> ('m \<Rightarrow> 'v option res) \<Rightarrow> int \<Rightarrow> ('v, 'm) delegating \<Rightarrow> (client_error + 'v option) \<times> ('v, 'm) delegating" where
  "dg_get response decode timeoutMillis f =
     (case response timeoutMillis of
        Inl e \<Rightarrow> (Inl e, f)
      | Inr m \<Rightarrow> (case resolveResponse decode m f of (Inl e, f') \<Rightarrow> (Inl (Failed_With e), f') | (Inr v, f') \<Rightarrow> (Inr v, f')))"

definition dg_join :: "(client_error \<Rightarrow> client_error) \<Rightarrow> (int \<Rightarrow> client_error + 'm) \<Rightarrow> ('m \<Rightarrow> 'v option res) \<Rightarrow> ('v, 'm) delegating \<Rightarrow> (client_error + 'v option) \<times> ('v, 'm) delegating" where
  "dg_join rethrow response decode f = (case dg_get response decode (2 ^ 63 - 1) f of (Inl e, f') \<Rightarrow> (Inl (if is_exception e then rethrow e else e), f') | (Inr v, f') \<Rightarrow> (Inr v, f'))"

text \<open>Completing with a value is not supported.\<close>

definition dg_complete_value :: "'v option \<Rightarrow> ('v, 'm) delegating \<Rightarrow> bool res" where
  "dg_complete_value v f = Inl AssertionFailure"

definition dg_onResponse :: "('m \<Rightarrow> 'v option res) \<Rightarrow> 'm \<Rightarrow> ('v, 'm) delegating \<Rightarrow> 'v callback_call res \<times> ('v, 'm) delegating" where
  "dg_onResponse decode m f = (case resolveResponse decode m f of (Inl e, f') \<Rightarrow> (Inl e, f') | (Inr v, f') \<Rightarrow> (Inr (OnResponse v), f'))"

text \<open>Calls one after the other decode once and answer alike.\<close>

lemma resolveResponse_cached:
  assumes "dg_default f = None" "decode m = Inr v" "resolveResponse decode m f = (Inr r, f')"
  shows "dg_decoded f' = Some r" "resolveResponse decode m' f' = (Inr r, f')"
  using assms by (auto simp: resolveResponse_def dg_look_def dg_set_def bindR_def split: option.splits)

text \<open>Two calls that look at the same time both decode: the second answers with an object that is not the one kept.\<close>

lemma racing_decodings_differ:
  assumes "dg_default f = None" "dg_decoded f = None" "decode m = Inr (Some a)" "decode' m = Inr (Some b)" "a \<noteq> b"
  shows "\<exists>f1 f2. dg_look decode m f = (Inr (Decodes (Some a)), f1) \<and> dg_look decode' m f1 = (Inr (Decodes (Some b)), f2)
    \<and> fst (dg_set (Some b) (snd (dg_set (Some a) f2))) = Some b \<and> dg_decoded (snd (dg_set (Some b) (snd (dg_set (Some a) f2)))) = Some (Some a)"
  using assms by (simp add: dg_look_def dg_set_def bindR_def)

section \<open>Pipelines\<close>

text \<open>The thread that adds is outside, asleep with the future it wants to add, or woken and about to look again.\<close>

datatype 'f adder = Outside | Asleep 'f | Awake 'f

text \<open>\<open>pl_callbacks\<close> are the callbacks that were registered and have not run, by their future; \<open>pl_done\<close> the futures that are complete.\<close>

record 'f pipeline =
  pl_permits :: int
  pl_futures :: "'f list"
  pl_adder :: "'f adder"
  pl_callbacks :: "'f list"
  pl_done :: "'f list"

definition Pipelining_new :: "int \<Rightarrow> 'f pipeline res" where
  "Pipelining_new depth = bindR (checkPositive depth) (\<lambda>d. Inr \<lparr>pl_permits = d, pl_futures = [], pl_adder = Outside, pl_callbacks = [], pl_done = []\<rparr>)"

definition Pipelining_create :: "int \<Rightarrow> 'f pipeline res" where
  "Pipelining_create depth = bindR (checkPositive depth) (\<lambda>_. Pipelining_new depth)"

definition pl_up :: "'f pipeline \<Rightarrow> 'f pipeline" where
  "pl_up p =
     (let p1 = (if pl_permits p = 0 then p\<lparr>pl_adder := (case pl_adder p of Asleep f \<Rightarrow> Awake f | a \<Rightarrow> a)\<rparr> else p)
      in p1\<lparr>pl_permits := wrap32 (pl_permits p1 + 1)\<rparr>)"

text \<open>After \<open>down\<close>: the future is kept and told whom to call; a future that is complete calls back at once, in this thread.\<close>

definition pl_enter :: "'f \<Rightarrow> 'f pipeline \<Rightarrow> 'f pipeline" where
  "pl_enter f p =
     (let p1 = p\<lparr>pl_futures := pl_futures p @ [f], pl_adder := Outside\<rparr>
      in if f \<in> set (pl_done p1) then pl_up p1 else p1\<lparr>pl_callbacks := pl_callbacks p1 @ [f]\<rparr>)"

definition pl_down :: "'f \<Rightarrow> 'f pipeline \<Rightarrow> bool \<times> 'f pipeline" where
  "pl_down f p =
     (if pl_permits p = 0 then (False, p\<lparr>pl_adder := Asleep f\<rparr>) else (True, p\<lparr>pl_permits := wrap32 (pl_permits p - 1)\<rparr>))"

definition pl_add :: "'f option \<Rightarrow> 'f pipeline \<Rightarrow> unit res \<times> 'f pipeline" where
  "pl_add fut p =
     (case fut of
        None \<Rightarrow> (Inl NullPointerException, p)
      | Some f \<Rightarrow> (Inr (), case pl_down f p of (True, p') \<Rightarrow> pl_enter f p' | (False, p') \<Rightarrow> p'))"

fun pl_results :: "('f \<Rightarrow> iexception + 'v) \<Rightarrow> 'f list \<Rightarrow> iexception + 'v list" where
  "pl_results outcome [] = Inr []"
| "pl_results outcome (f # fs) =
     (case outcome f of Inl e \<Rightarrow> Inl e | Inr v \<Rightarrow> (case pl_results outcome fs of Inl e \<Rightarrow> Inl e | Inr vs \<Rightarrow> Inr (v # vs)))"

text \<open>One thread adds; futures complete, and then call back, in any order; a wait can end without a reason.\<close>

inductive pl_step :: "'f pipeline \<Rightarrow> 'f pipeline \<Rightarrow> bool" where
  Add: "pl_adder p = Outside \<Longrightarrow> pl_step p (snd (pl_add f p))"
| Look_again: "pl_adder p = Awake f \<Longrightarrow> pl_step p (snd (pl_add (Some f) p))"
| Complete: "pl_step p (p\<lparr>pl_done := f # pl_done p\<rparr>)"
| Call_back: "\<lbrakk>f \<in> set (pl_callbacks p); f \<in> set (pl_done p)\<rbrakk> \<Longrightarrow> pl_step p (pl_up (p\<lparr>pl_callbacks := remove1 f (pl_callbacks p)\<rparr>))"
| Wake: "pl_adder p = Asleep f \<Longrightarrow> pl_step p (p\<lparr>pl_adder := Awake f\<rparr>)"

definition open_futures :: "'f pipeline \<Rightarrow> 'f list" where
  "open_futures p = filter (\<lambda>f. f \<notin> set (pl_done p)) (pl_futures p)"

definition pl_ok :: "int \<Rightarrow> 'f pipeline \<Rightarrow> bool" where
  "pl_ok depth p \<longleftrightarrow> pl_permits p + int (length (pl_callbacks p)) = depth \<and> 0 \<le> pl_permits p
     \<and> (\<forall>f. pl_adder p = Asleep f \<longrightarrow> pl_permits p = 0) \<and> open_futures p = filter (\<lambda>f. f \<notin> set (pl_done p)) (pl_callbacks p)"

lemma filter_remove1_done: "f \<in> S \<Longrightarrow> filter (\<lambda>x. x \<notin> S) (remove1 f xs) = filter (\<lambda>x. x \<notin> S) xs"
  by (induction xs) auto

lemma filter_more_done: "filter (\<lambda>x. x \<noteq> f \<and> x \<notin> S) xs = filter (\<lambda>x. x \<noteq> f) (filter (\<lambda>x. x \<notin> S) xs)"
  by (simp add: conj_commute)

lemma pl_up_ok:
  assumes "pl_permits p + int (length (pl_callbacks p)) + 1 = depth" "0 \<le> pl_permits p" "depth < 2 ^ 31"
    "\<forall>f. pl_adder p = Asleep f \<longrightarrow> pl_permits p = 0" "open_futures p = filter (\<lambda>f. f \<notin> set (pl_done p)) (pl_callbacks p)"
  shows "pl_ok depth (pl_up p)"
proof -
  have "wrap32 (pl_permits p + 1) = pl_permits p + 1" using assms(1-3) by (intro wrap32_id) auto
  then show ?thesis
    using assms by (auto simp: pl_ok_def pl_up_def open_futures_def Let_def split: adder.splits)
qed

lemma pl_add_ok:
  assumes ok: "pl_ok depth p" and d: "depth < 2 ^ 31"
  shows "pl_ok depth (snd (pl_add f p))"
proof (cases "f = None \<or> pl_permits p = 0")
  case True
  then show ?thesis using ok by (cases f) (auto simp: pl_add_def pl_down_def pl_ok_def open_futures_def)
next
  case False
  then obtain g where g: "f = Some g" "pl_permits p \<noteq> 0" by auto
  have w: "wrap32 (pl_permits p - 1) = pl_permits p - 1" using ok d g(2) by (intro wrap32_id) (auto simp: pl_ok_def)
  let ?p = "p\<lparr>pl_permits := pl_permits p - 1, pl_futures := pl_futures p @ [g], pl_adder := Outside\<rparr>"
  show ?thesis
  proof (cases "g \<in> set (pl_done p)")
    case True
    have "pl_ok depth (pl_up ?p)" by (rule pl_up_ok) (use ok g d True in \<open>auto simp: pl_ok_def open_futures_def\<close>)
    then show ?thesis using g w True by (simp add: pl_add_def pl_down_def pl_enter_def Let_def)
  next
    case False
    then show ?thesis using g w ok by (simp add: pl_add_def pl_down_def pl_enter_def Let_def pl_ok_def open_futures_def)
  qed
qed

lemma pl_step_ok: "pl_step p q \<Longrightarrow> pl_ok depth p \<Longrightarrow> depth < 2 ^ 31 \<Longrightarrow> pl_ok depth q"
proof (induction rule: pl_step.induct)
  case (Complete p f)
  then show ?case by (simp add: pl_ok_def open_futures_def filter_more_done)
next
  case (Call_back f p)
  then have "length (pl_callbacks p) = Suc (length (remove1 f (pl_callbacks p)))" using length_pos_if_in_set [of f "pl_callbacks p"] by (simp add: length_remove1)
  with Call_back show ?case by (intro pl_up_ok) (auto simp: pl_ok_def open_futures_def filter_remove1_done)
next
  case (Wake p f)
  then show ?case by (simp add: pl_ok_def open_futures_def)
qed (auto intro: pl_add_ok)

lemma pl_reachable_ok:
  assumes "Pipelining_create depth = Inr p0" "depth < 2 ^ 31" "pl_step\<^sup>*\<^sup>* p0 p"
  shows "pl_ok depth p \<and> 0 < depth"
  using assms(3)
proof (induction rule: rtranclp_induct)
  case base
  then show ?case
    using assms(1) by (auto simp: Pipelining_create_def Pipelining_new_def checkPositive_def bindR_def pl_ok_def open_futures_def split: if_splits)
next
  case (step p q)
  then show ?case using pl_step_ok [OF step(2)] assms(2) by blast
qed

text \<open>Claim C24: a pipeline never has more futures open than its depth: at every moment, whatever completes in whatever order, the futures added and not
  complete are at most as many as the depth, and the permits are what is left of it once every complete future has called back.
\<close>

theorem pipeline_bounded:
  assumes "Pipelining_create depth = Inr p0" "depth < 2 ^ 31" "pl_step\<^sup>*\<^sup>* p0 p"
  shows "int (length (open_futures p)) \<le> depth \<and> 0 \<le> pl_permits p \<and> pl_permits p \<le> depth
    \<and> (set (pl_callbacks p) \<inter> set (pl_done p) = {} \<longrightarrow> pl_permits p = depth - int (length (open_futures p)))"
proof -
  have ok: "pl_ok depth p" using pl_reachable_ok [OF assms] by blast
  then have "length (open_futures p) \<le> length (pl_callbacks p)" "pl_permits p + int (length (pl_callbacks p)) = depth" "0 \<le> pl_permits p"
    by (simp_all add: pl_ok_def)
  then have "int (length (open_futures p)) \<le> depth" by linarith
  moreover have "open_futures p = pl_callbacks p" if "set (pl_callbacks p) \<inter> set (pl_done p) = {}"
  proof -
    have "filter (\<lambda>f. f \<notin> set (pl_done p)) (pl_callbacks p) = pl_callbacks p" using that by (auto simp: filter_id_conv)
    then show ?thesis using ok by (simp add: pl_ok_def)
  qed
  ultimately show ?thesis using ok by (auto simp: pl_ok_def)
qed

text \<open>Claim C25: a thread that sleeps in \<open>add\<close> is not forgotten: there is a future it waits for, and whichever of them calls back first wakes
  it, after which it adds its future, behind those added before.
\<close>

theorem pipeline_adder_woken:
  assumes "Pipelining_create depth = Inr p0" "depth < 2 ^ 31" "pl_step\<^sup>*\<^sup>* p0 p" "pl_adder p = Asleep f"
  shows "pl_callbacks p \<noteq> [] \<and> (\<forall>g \<in> set (pl_callbacks p) \<inter> set (pl_done p). \<exists>q q'.
      q = pl_up (p\<lparr>pl_callbacks := remove1 g (pl_callbacks p)\<rparr>) \<and> pl_step p q \<and> pl_adder q = Awake f
      \<and> q' = snd (pl_add (Some f) q) \<and> pl_step q q' \<and> pl_adder q' = Outside \<and> pl_futures q' = pl_futures p @ [f])"
proof -
  have ok: "pl_ok depth p" "0 < depth" using pl_reachable_ok [OF assms(1-3)] by blast+
  have z: "pl_permits p = 0" using ok(1) assms(4) by (simp add: pl_ok_def)
  then have ne: "pl_callbacks p \<noteq> []" using ok by (auto simp: pl_ok_def)
  have "\<exists>q q'. q = pl_up (p\<lparr>pl_callbacks := remove1 g (pl_callbacks p)\<rparr>) \<and> pl_step p q \<and> pl_adder q = Awake f
      \<and> q' = snd (pl_add (Some f) q) \<and> pl_step q q' \<and> pl_adder q' = Outside \<and> pl_futures q' = pl_futures p @ [f]"
    if g: "g \<in> set (pl_callbacks p) \<inter> set (pl_done p)" for g
  proof -
    let ?q = "pl_up (p\<lparr>pl_callbacks := remove1 g (pl_callbacks p)\<rparr>)" and ?q' = "snd (pl_add (Some f) (pl_up (p\<lparr>pl_callbacks := remove1 g (pl_callbacks p)\<rparr>)))"
    have "wrap32 1 = 1" by (rule wrap32_id) simp_all
    then have q: "pl_permits ?q = 1" "pl_adder ?q = Awake f" "pl_futures ?q = pl_futures p" using z assms(4) by (simp_all add: pl_up_def Let_def)
    have "wrap32 0 = 0" by (rule wrap32_id) simp_all
    then have "pl_adder ?q' = Outside" "pl_futures ?q' = pl_futures p @ [f]"
      using q by (simp_all add: pl_add_def pl_down_def pl_enter_def Let_def) (simp_all add: pl_up_def Let_def)
    then show ?thesis using g q(2) pl_step.Call_back [of g p] pl_step.Look_again [of ?q f] by blast
  qed
  with ne show ?thesis by blast
qed

text \<open>\<open>results\<close> gives the values in the order in which the futures were added.\<close>

lemma pl_results_in_order:
  "pl_results outcome fs = Inr vs \<longleftrightarrow> map outcome fs = map Inr vs"
  by (induction fs arbitrary: vs) (auto split: sum.splits, (metis list.inj_map_strong sum.inject(2) list.simps(9))+)

section \<open>Examples\<close>

definition two_futures :: "(nat, unit) future_world" where
  "two_futures = \<lparr>fw_store = [\<lparr>cf_invocation = None, cf_decoder = ()\<rparr>, \<lparr>cf_invocation = None, cf_decoder = ()\<rparr>], fw_made = [7], fw_taken = [7]\<rparr>"

lemma two_futures_reached: "future_ops (\<lambda>i. Inr (Some i)) [FNew 7 (), FCopy 0, FGet 1] two_futures"
proof -
  let ?inv = "\<lambda>i :: nat. Inr (Some i) :: iexception + nat option"
  let ?w1 = "\<lparr>fw_store = [\<lparr>cf_invocation = Some 7, cf_decoder = ()\<rparr>], fw_made = [7], fw_taken = []\<rparr> :: (nat, unit) future_world"
  let ?w2 = "\<lparr>fw_store = [\<lparr>cf_invocation = None, cf_decoder = ()\<rparr>, \<lparr>cf_invocation = Some 7, cf_decoder = ()\<rparr>], fw_made = [7], fw_taken = []\<rparr> :: (nat, unit) future_world"
  have 1: "future_ops ?inv [FNew 7 ()] ?w1"
    using future_ops.Op [OF future_ops.Nothing [of ?inv], of "FNew 7 ()"] by (simp add: future_op_ok_def cf_new_def)
  have 2: "future_ops ?inv [FNew 7 (), FCopy 0] ?w2"
    using future_ops.Op [OF 1, of "FCopy 0"] by (simp add: future_op_ok_def cf_copy_def cf_reset_def)
  show ?thesis
    using future_ops.Op [OF 2, of "FGet 1"] by (simp add: future_op_ok_def cf_response_def cf_reset_def two_futures_def)
qed

lemma response_taken_once_witness:
  "fw_taken two_futures = [7] \<and> distinct (fw_taken two_futures) \<and> gone 1 (cf_copy 1 (fw_store two_futures)) \<and> \<not> cf_valid 1 (cf_copy 1 (fw_store two_futures))"
proof -
  have l: "1 < length (fw_store two_futures)" "fw_taken two_futures = [7]" by (simp_all add: two_futures_def)
  note r = response_taken_once [OF two_futures_reached, of "\<lambda>_ d. Inr (Some d)" "\<lambda>d. Inr (Some d)"]
  from r have "gone 1 (cf_copy 1 (fw_store two_futures))" using l(1) by blast
  moreover from r this have "\<not> cf_valid 1 (cf_copy 1 (fw_store two_futures))" by blast
  ultimately show ?thesis using r l(2) by blast
qed

text \<open>A pipeline of depth 1 on which a second future waits for the first, which is complete.\<close>

definition full_pipe :: "nat pipeline" where
  "full_pipe = \<lparr>pl_permits = 0, pl_futures = [1], pl_adder = Asleep 2, pl_callbacks = [1], pl_done = [1]\<rparr>"

lemma full_pipe_reached: "\<exists>p0. Pipelining_create 1 = Inr p0 \<and> pl_step\<^sup>*\<^sup>* p0 full_pipe"
proof -
  let ?p0 = "\<lparr>pl_permits = 1, pl_futures = [], pl_adder = Outside, pl_callbacks = [], pl_done = []\<rparr> :: nat pipeline"
  let ?p1 = "\<lparr>pl_permits = 0, pl_futures = [1], pl_adder = Outside, pl_callbacks = [1], pl_done = []\<rparr> :: nat pipeline"
  let ?p2 = "\<lparr>pl_permits = 0, pl_futures = [1], pl_adder = Asleep 2, pl_callbacks = [1], pl_done = []\<rparr> :: nat pipeline"
  have w: "wrap32 0 = 0" by (rule wrap32_id) simp_all
  have 1: "pl_step ?p0 ?p1" using pl_step.Add [of ?p0 "Some 1"] w by (simp add: pl_add_def pl_down_def pl_enter_def)
  have 2: "pl_step ?p1 ?p2" using pl_step.Add [of ?p1 "Some 2"] by (simp add: pl_add_def pl_down_def)
  have 3: "pl_step ?p2 full_pipe" using pl_step.Complete [of ?p2 1] by (simp add: full_pipe_def)
  have "Pipelining_create 1 = Inr ?p0" by (simp add: Pipelining_create_def Pipelining_new_def checkPositive_def bindR_def)
  with 1 2 3 show ?thesis by (meson rtranclp.rtrancl_into_rtrancl rtranclp.rtrancl_refl)
qed

lemma pipeline_bounded_witness: "open_futures full_pipe = [] \<and> int (length (open_futures full_pipe)) \<le> 1 \<and> pl_permits full_pipe \<le> 1"
proof -
  obtain p0 where "Pipelining_create 1 = Inr p0" "pl_step\<^sup>*\<^sup>* p0 full_pipe" using full_pipe_reached by blast
  from pipeline_bounded [OF this(1) _ this(2)] show ?thesis by (simp add: open_futures_def full_pipe_def)
qed

lemma pipeline_adder_woken_witness: "\<exists>q'. pl_futures q' = [1, 2] \<and> pl_adder q' = Outside \<and> (\<exists>q. pl_step full_pipe q \<and> pl_step q q')"
proof -
  obtain p0 where "Pipelining_create 1 = Inr p0" "pl_step\<^sup>*\<^sup>* p0 full_pipe" using full_pipe_reached by blast
  from conjunct2 [OF pipeline_adder_woken [OF this(1) _ this(2), of 2], THEN bspec, of 1]
  show ?thesis by (simp add: full_pipe_def) blast
qed

end
