(* ===== verification/Executor_Service.thy ===== *)
theory Executor_Service
  imports Async_Calls Sync_Map
begin

text \<open>
  The distributed executor of \<open>client/IExecutorService.h\<close>, with the future of \<open>client/proxy/IExecutorDelegatingFuture.h\<close> that can cancel a task. A submission is a
  request to the owner of a partition or to a member; the state keeps the requests that were sent and the callbacks that were registered on their
  invocations. The answers of several members to one callback run in several threads: each section under a lock, and each change of the
  atomic counter, is one step. Messages, the cluster service, partition ids, uuids and \<open>rand\<close> are arguments.
\<close>

section \<open>The callback for several members\<close>

text \<open>The calls on the callback of the user.\<close>

datatype ('mem, 't) multi_call =
    Multi_onResponse 'mem "'t option"
  | Multi_onFailure 'mem iexception
  | Multi_onComplete "('mem, 't) sync_map" "('mem, iexception) sync_map"

record ('mem, 't) multi_wrapper =
  mw_values :: "('mem, 't) sync_map"
  mw_exceptions :: "('mem, iexception) sync_map"
  mw_members :: int
  mw_calls :: "('mem, 't) multi_call list"

definition mw_new :: "int \<Rightarrow> ('mem, 't) multi_wrapper" where
  "mw_new memberSize = \<lparr>mw_values = [], mw_exceptions = [], mw_members = memberSize, mw_calls = []\<rparr>"

text \<open>The three parts of \<open>onResponse\<close> and \<open>onFailure\<close> of the wrapper, which \<open>ExecutionCallbackWrapper\<close> calls with its member.\<close>

definition mw_tell :: "'mem \<Rightarrow> 't callback_call \<Rightarrow> ('mem, 't) multi_wrapper \<Rightarrow> ('mem, 't) multi_wrapper" where
  "mw_tell m r w = w\<lparr>mw_calls := mw_calls w @ [case r of OnResponse v \<Rightarrow> Multi_onResponse m v | OnFailureCall e \<Rightarrow> Multi_onFailure m e]\<rparr>"

definition mw_store :: "'mem::linorder \<Rightarrow> 't callback_call \<Rightarrow> ('mem, 't) multi_wrapper \<Rightarrow> ('mem, 't) multi_wrapper" where
  "mw_store m r w =
     (case r of
        OnResponse v \<Rightarrow> w\<lparr>mw_values := snd (sm_put m v (mw_values w))\<rparr>
      | OnFailureCall e \<Rightarrow> w\<lparr>mw_exceptions := snd (sm_put m (Some e) (mw_exceptions w))\<rparr>)"

definition mw_count :: "('mem, 't) multi_wrapper \<Rightarrow> int \<times> ('mem, 't) multi_wrapper" where
  "mw_count w = (let waitingResponse = wrap32 (mw_members w - 1) in (waitingResponse, w\<lparr>mw_members := waitingResponse\<rparr>))"

text \<open>\<open>complete\<close> copies both maps, one after the other.\<close>

definition completed_map :: "('mem::linorder \<times> 'x option) list \<Rightarrow> ('mem, 'x) sync_map" where
  "completed_map entries = foldl (\<lambda>m e. sm_assign (fst e) (snd e) m) [] entries"

definition mw_onComplete :: "('mem, 't) sync_map \<Rightarrow> ('mem, iexception) sync_map \<Rightarrow> ('mem, 't) multi_wrapper \<Rightarrow> ('mem, 't) multi_wrapper" where
  "mw_onComplete vs es w = w\<lparr>mw_calls := mw_calls w @ [Multi_onComplete vs es]\<rparr>"

definition mw_complete :: "('mem::linorder, 't) multi_wrapper \<Rightarrow> ('mem, 't) multi_wrapper" where
  "mw_complete w = mw_onComplete (completed_map (sm_entrySet (mw_values w))) (completed_map (sm_entrySet (mw_exceptions w))) w"

text \<open>The whole handler, when no other runs at the same time.\<close>

definition mw_answer :: "'mem::linorder \<Rightarrow> 't callback_call \<Rightarrow> ('mem, 't) multi_wrapper \<Rightarrow> ('mem, 't) multi_wrapper" where
  "mw_answer m r w =
     (case mw_count (mw_store m r (mw_tell m r w)) of
        (waitingResponse, w') \<Rightarrow> if waitingResponse = 0 then mw_complete w' else w')"

text \<open>Where the handler of an answer is; the answer is kept for reference.\<close>

datatype ('mem, 't) phase =
    Waiting
  | Thrown "'t callback_call"
  | Told "'t callback_call"
  | Stored "'t callback_call"
  | Completing "'t callback_call"
  | Gathered "'t callback_call" "('mem, 't) sync_map"
  | Answered "'t callback_call"

fun mw_step :: "'mem::linorder \<Rightarrow> ('mem, 't) phase \<Rightarrow> ('mem, 't) multi_wrapper \<Rightarrow> ('mem, 't) phase \<times> ('mem, 't) multi_wrapper" where
  "mw_step m (Told r) w = (Stored r, mw_store m r w)"
| "mw_step m (Stored r) w = (case mw_count w of (n, w') \<Rightarrow> (if n = 0 then Completing r else Answered r, w'))"
| "mw_step m (Completing r) w = (Gathered r (completed_map (sm_entrySet (mw_values w))), w)"
| "mw_step m (Gathered r vs) w = (Answered r, mw_onComplete vs (completed_map (sm_entrySet (mw_exceptions w))) w)"
| "mw_step m p w = (p, w)"

definition moving :: "('mem, 't) phase \<Rightarrow> bool" where
  "moving p = (case p of Waiting \<Rightarrow> False | Thrown _ \<Rightarrow> False | Answered _ \<Rightarrow> False | _ \<Rightarrow> True)"

lemma mw_answer_steps:
  "mw_answer m r w = (case mw_step m (Told r) (mw_tell m r w) of (p1, w1) \<Rightarrow> case mw_step m p1 w1 of (p2, w2) \<Rightarrow> case mw_step m p2 w2 of (p3, w3) \<Rightarrow> snd (mw_step m p3 w3))"
  by (simp add: mw_answer_def mw_complete_def split: prod.splits)

record ('mem, 't) multi_run =
  mr_phases :: "('mem, 't) phase list"
  mr_wrapper :: "('mem, 't) multi_wrapper"

definition multi_start :: "'mem list \<Rightarrow> ('mem, 't) multi_run" where
  "multi_start ms = \<lparr>mr_phases = replicate (length ms) Waiting, mr_wrapper = mw_new (wrap32 (int (length ms)))\<rparr>"

definition advance_answer :: "'mem::linorder list \<Rightarrow> nat \<Rightarrow> ('mem, 't) multi_run \<Rightarrow> ('mem, 't) multi_run" where
  "advance_answer ms i R = (case mw_step (ms ! i) (mr_phases R ! i) (mr_wrapper R) of (p, w) \<Rightarrow> \<lparr>mr_phases = (mr_phases R)[i := p], mr_wrapper = w\<rparr>)"

inductive multi_step :: "'mem::linorder list \<Rightarrow> ('mem, 't) multi_run \<Rightarrow> ('mem, 't) multi_run \<Rightarrow> bool" for ms where
  Answer: "\<lbrakk>i < length ms; mr_phases R ! i = Waiting\<rbrakk> \<Longrightarrow>
    multi_step ms R \<lparr>mr_phases = (mr_phases R)[i := Told r], mr_wrapper = mw_tell (ms ! i) r (mr_wrapper R)\<rparr>"
| Throws: "\<lbrakk>i < length ms; mr_phases R ! i = Waiting\<rbrakk> \<Longrightarrow>
    multi_step ms R \<lparr>mr_phases = (mr_phases R)[i := Thrown r], mr_wrapper = mw_tell (ms ! i) r (mr_wrapper R)\<rparr>"
| Go_on: "\<lbrakk>i < length ms; moving (mr_phases R ! i)\<rbrakk> \<Longrightarrow> multi_step ms R (advance_answer ms i R)"

text \<open>The answer that a handler has put into its map, whether it has counted, and whether it completes.\<close>

definition stored :: "('mem, 't) phase \<Rightarrow> 't callback_call option" where
  "stored p = (case p of Stored r \<Rightarrow> Some r | Completing r \<Rightarrow> Some r | Gathered r _ \<Rightarrow> Some r | Answered r \<Rightarrow> Some r | _ \<Rightarrow> None)"

definition counted :: "('mem, 't) phase \<Rightarrow> bool" where
  "counted p = (case p of Completing _ \<Rightarrow> True | Gathered _ _ \<Rightarrow> True | Answered _ \<Rightarrow> True | _ \<Rightarrow> False)"

definition completing :: "('mem, 't) phase \<Rightarrow> bool" where
  "completing p = (case p of Completing _ \<Rightarrow> True | Gathered _ _ \<Rightarrow> True | _ \<Rightarrow> False)"

definition is_onComplete :: "('mem, 't) multi_call \<Rightarrow> bool" where
  "is_onComplete c = (case c of Multi_onComplete _ _ \<Rightarrow> True | _ \<Rightarrow> False)"

lemmas phase_defs = stored_def counted_def completing_def moving_def is_onComplete_def

lemma completing_simps [simp]:
  "completing (Completing r)" "completing (Gathered r vs)" "\<not> completing (Answered r)" "\<not> completing Waiting"
  by (simp_all add: completing_def)

text \<open>A map holds exactly the answers that were put into it.\<close>

definition picked_value :: "'t callback_call option \<Rightarrow> 't option option" where
  "picked_value a = (case a of Some (OnResponse v) \<Rightarrow> Some v | _ \<Rightarrow> None)"

definition picked_exception :: "'t callback_call option \<Rightarrow> iexception option option" where
  "picked_exception a = (case a of Some (OnFailureCall e) \<Rightarrow> Some (Some e) | _ \<Rightarrow> None)"

definition holds_answers :: "'mem::linorder list \<Rightarrow> (nat \<Rightarrow> 'x option option) \<Rightarrow> ('mem, 'x) sync_map \<Rightarrow> bool" where
  "holds_answers ms A m \<longleftrightarrow> sm_ok m \<and> (\<forall>k v. map_of m k = Some v \<longleftrightarrow> (\<exists>i < length ms. ms ! i = k \<and> A i = Some v))"

definition maps_ok :: "'mem::linorder list \<Rightarrow> ('mem, 't) multi_run \<Rightarrow> bool" where
  "maps_ok ms R \<longleftrightarrow> holds_answers ms (\<lambda>i. picked_value (stored (mr_phases R ! i))) (mw_values (mr_wrapper R))
     \<and> holds_answers ms (\<lambda>i. picked_exception (stored (mr_phases R ! i))) (mw_exceptions (mr_wrapper R))"

text \<open>Who completes: nobody before all have counted, then one handler, and then nobody any more.\<close>

definition all_counted :: "('mem, 't) multi_run \<Rightarrow> bool" where
  "all_counted R \<longleftrightarrow> (\<forall>p \<in> set (mr_phases R). counted p)"

definition before_completion :: "('mem, 't) multi_run \<Rightarrow> bool" where
  "before_completion R \<longleftrightarrow> \<not> all_counted R \<and> (\<forall>p \<in> set (mr_phases R). \<not> completing p) \<and> (\<forall>c \<in> set (mw_calls (mr_wrapper R)). \<not> is_onComplete c)"

definition in_completion :: "('mem::linorder, 't) multi_run \<Rightarrow> bool" where
  "in_completion R \<longleftrightarrow> all_counted R \<and> (\<forall>c \<in> set (mw_calls (mr_wrapper R)). \<not> is_onComplete c)
     \<and> (\<exists>i < length (mr_phases R). completing (mr_phases R ! i) \<and> (\<forall>j < length (mr_phases R). completing (mr_phases R ! j) \<longrightarrow> j = i)
          \<and> (\<forall>r vs. mr_phases R ! i = Gathered r vs \<longrightarrow> vs = completed_map (mw_values (mr_wrapper R))))"

definition after_completion :: "('mem::linorder, 't) multi_run \<Rightarrow> bool" where
  "after_completion R \<longleftrightarrow> all_counted R \<and> (\<forall>p \<in> set (mr_phases R). \<not> completing p)
     \<and> (\<exists>tells. mw_calls (mr_wrapper R) = tells @ [Multi_onComplete (completed_map (mw_values (mr_wrapper R))) (completed_map (mw_exceptions (mr_wrapper R)))]
          \<and> (\<forall>c \<in> set tells. \<not> is_onComplete c))"

definition completion_ok :: "('mem::linorder, 't) multi_run \<Rightarrow> bool" where
  "completion_ok R \<longleftrightarrow> before_completion R \<or> in_completion R \<or> after_completion R"

definition multi_ok :: "'mem::linorder list \<Rightarrow> ('mem, 't) multi_run \<Rightarrow> bool" where
  "multi_ok ms R \<longleftrightarrow> length (mr_phases R) = length ms
     \<and> mw_members (mr_wrapper R) = int (length ms) - int (length (filter counted (mr_phases R)))
     \<and> maps_ok ms R \<and> completion_ok R"

lemma filter_update_more:
  assumes "i < length ps" "\<not> P (ps ! i)" "P p"
  shows "length (filter P (ps[i := p])) = Suc (length (filter P ps))"
  using assms by (induction ps arbitrary: i) (auto split: nat.splits simp: nth_Cons')

lemma filter_update_same:
  assumes "i < length ps" "P (ps ! i) = P p"
  shows "length (filter P (ps[i := p])) = length (filter P ps)"
  using assms by (induction ps arbitrary: i) (auto split: nat.splits simp: nth_Cons')

lemma completed_map_of:
  assumes "sm_ok m"
  shows "map_of (completed_map m) = map_of m"
proof -
  have "sm_ok acc \<Longrightarrow> map_of (foldl (\<lambda>m e. sm_assign (fst e) (snd e) m) acc es) = map_of acc ++ map_of (rev es)" for acc es :: "('a \<times> 'b option) list"
    by (induction es arbitrary: acc) (simp_all add: map_add_def fun_eq_iff split: option.splits)
  from this [of "[]" m] have "map_of (completed_map m) = map_of (rev m)" by (simp add: completed_map_def)
  also have "\<dots> = map_of m" using sm_ok_distinct [OF assms] by (subst map_of_inject_set) (simp_all add: rev_map [symmetric])
  finally show ?thesis .
qed


lemma all_counted_count: "all_counted R \<longleftrightarrow> length (filter counted (mr_phases R)) = length (mr_phases R)"
proof
  assume "length (filter counted (mr_phases R)) = length (mr_phases R)"
  then show "all_counted R" unfolding all_counted_def by (metis length_filter_less less_irrefl)
qed (simp add: all_counted_def)

lemma all_counted_nth: "all_counted R \<longleftrightarrow> (\<forall>i < length (mr_phases R). counted (mr_phases R ! i))"
  by (simp add: all_counted_def all_set_conv_all_nth)

lemma holds_answers_keep:
  assumes "\<forall>i < length ms. A i = B i"
  shows "holds_answers ms A m = holds_answers ms B m"
  using assms unfolding holds_answers_def by (metis (no_types, lifting))

lemma holds_answers_put:
  assumes h: "holds_answers ms A m" and i: "i < length ms" "A i = None" and d: "distinct ms"
    and B: "B i = Some v" "\<forall>j < length ms. j \<noteq> i \<longrightarrow> B j = A j"
  shows "holds_answers ms B (snd (sm_put (ms ! i) v m))"
proof -
  have ok: "sm_ok m" and eq: "map_of m k = Some x \<longleftrightarrow> (\<exists>j < length ms. ms ! j = k \<and> A j = Some x)" for k x
    using h unfolding holds_answers_def by blast+
  have inj: "j = i" if "j < length ms" "ms ! j = ms ! i" for j using that d i(1) by (simp add: nth_eq_iff_index_eq)
  have "((map_of m)(ms ! i \<mapsto> v)) k = Some x \<longleftrightarrow> (\<exists>j < length ms. ms ! j = k \<and> B j = Some x)" for k x
  proof (cases "k = ms ! i")
    case True
    have "(\<exists>j < length ms. ms ! j = k \<and> B j = Some x) \<longleftrightarrow> v = x" using True inj i(1) B(1) by (metis option.inject)
    then show ?thesis using True by simp
  next
    case False
    then have "(\<exists>j < length ms. ms ! j = k \<and> B j = Some x) \<longleftrightarrow> (\<exists>j < length ms. ms ! j = k \<and> A j = Some x)" using B(2) by metis
    then show ?thesis using False eq by simp
  qed
  then show ?thesis using ok unfolding holds_answers_def by (simp add: sm_put_def Let_def)
qed

text \<open>A phase that keeps what is stored keeps the maps right, and so does storing.\<close>

lemma maps_ok_keep:
  assumes "maps_ok ms R" "length (mr_phases R) = length ms" "stored p = stored (mr_phases R ! i)"
    "mw_values w = mw_values (mr_wrapper R)" "mw_exceptions w = mw_exceptions (mr_wrapper R)"
  shows "maps_ok ms \<lparr>mr_phases = (mr_phases R)[i := p], mr_wrapper = w\<rparr>"
proof -
  have "stored ((mr_phases R)[i := p] ! j) = stored (mr_phases R ! j)" for j
    using assms(3) by (cases "j = i") (cases "i < length (mr_phases R)", simp_all add: list_update_beyond)
  then show ?thesis using assms(1,4,5) unfolding maps_ok_def by simp
qed

lemma maps_ok_store:
  assumes ok: "maps_ok ms R" and n: "length (mr_phases R) = length ms" "i < length ms" "mr_phases R ! i = Told r" and d: "distinct ms"
  shows "maps_ok ms \<lparr>mr_phases = (mr_phases R)[i := Stored r], mr_wrapper = mw_store (ms ! i) r (mr_wrapper R)\<rparr>"
proof -
  let ?ps = "mr_phases R" and ?w = "mr_wrapper R"
  have new: "stored (?ps[i := Stored r] ! i) = Some r" "stored (?ps ! i) = None" using n by (simp_all add: stored_def)
  have old: "\<forall>j < length ms. j \<noteq> i \<longrightarrow> stored (?ps[i := Stored r] ! j) = stored (?ps ! j)" by simp
  have V: "holds_answers ms (\<lambda>i. picked_value (stored (?ps ! i))) (mw_values ?w)" "holds_answers ms (\<lambda>i. picked_exception (stored (?ps ! i))) (mw_exceptions ?w)"
    using ok by (simp_all add: maps_ok_def)
  show ?thesis
  proof (cases r)
    case (OnResponse v)
    have "holds_answers ms (\<lambda>j. picked_value (stored (?ps[i := Stored r] ! j))) (snd (sm_put (ms ! i) v (mw_values ?w)))"
      by (rule holds_answers_put [OF V(1) n(2) _ d]) (use OnResponse new old in \<open>simp_all add: picked_value_def\<close>)
    moreover have "holds_answers ms (\<lambda>j. picked_exception (stored (?ps[i := Stored r] ! j))) (mw_exceptions ?w)"
    proof -
      have "picked_exception (stored (?ps[i := Stored r] ! j)) = picked_exception (stored (?ps ! j))" for j
        by (cases "j = i") (use OnResponse new in \<open>simp_all add: picked_exception_def\<close>)
      then show ?thesis using V(2) by simp
    qed
    ultimately show ?thesis using OnResponse by (simp add: maps_ok_def mw_store_def)
  next
    case (OnFailureCall e)
    have "holds_answers ms (\<lambda>j. picked_exception (stored (?ps[i := Stored r] ! j))) (snd (sm_put (ms ! i) (Some e) (mw_exceptions ?w)))"
      by (rule holds_answers_put [OF V(2) n(2) _ d]) (use OnFailureCall new old in \<open>simp_all add: picked_exception_def\<close>)
    moreover have "holds_answers ms (\<lambda>j. picked_value (stored (?ps[i := Stored r] ! j))) (mw_values ?w)"
    proof -
      have "picked_value (stored (?ps[i := Stored r] ! j)) = picked_value (stored (?ps ! j))" for j
        by (cases "j = i") (use OnFailureCall new in \<open>simp_all add: picked_value_def\<close>)
      then show ?thesis using V(1) by simp
    qed
    ultimately show ?thesis using OnFailureCall by (simp add: maps_ok_def mw_store_def)
  qed
qed


text \<open>The handlers preserve the invariant.\<close>

lemma completion_ok_before: "\<not> all_counted R \<Longrightarrow> completion_ok R \<longleftrightarrow> before_completion R"
  by (simp add: completion_ok_def in_completion_def after_completion_def)

lemma set_updateD: "p \<in> set (xs[i := x]) \<Longrightarrow> p = x \<or> p \<in> set xs"
  using set_update_subset_insert by fastforce

lemma before_completion_keep:
  assumes "before_completion R" "\<not> counted p" "i < length (mr_phases R)"
    "\<forall>c \<in> set (mw_calls w). is_onComplete c \<longrightarrow> c \<in> set (mw_calls (mr_wrapper R))"
  shows "before_completion \<lparr>mr_phases = (mr_phases R)[i := p], mr_wrapper = w\<rparr>"
proof -
  have "\<not> completing p" using assms(2) by (auto simp: phase_defs split: phase.splits)
  then have "\<forall>q \<in> set ((mr_phases R)[i := p]). \<not> completing q" using assms(1) unfolding before_completion_def by (metis set_updateD)
  moreover have "\<not> all_counted \<lparr>mr_phases = (mr_phases R)[i := p], mr_wrapper = w\<rparr>" using assms(2,3) by (auto simp: all_counted_nth)
  moreover have "\<forall>c \<in> set (mw_calls w). \<not> is_onComplete c" using assms(1,4) unfolding before_completion_def by blast
  ultimately show ?thesis unfolding before_completion_def by simp
qed

lemma multi_ok_early:
  assumes ok: "multi_ok ms R" and i: "i < length ms" "\<not> counted (mr_phases R ! i)" and p: "\<not> counted p"
    and m: "maps_ok ms \<lparr>mr_phases = (mr_phases R)[i := p], mr_wrapper = w\<rparr>" and w: "mw_members w = mw_members (mr_wrapper R)"
    and c: "\<forall>c \<in> set (mw_calls w). is_onComplete c \<longrightarrow> c \<in> set (mw_calls (mr_wrapper R))"
  shows "multi_ok ms \<lparr>mr_phases = (mr_phases R)[i := p], mr_wrapper = w\<rparr>"
proof -
  have n: "length (mr_phases R) = length ms" using ok by (simp add: multi_ok_def)
  have "\<not> all_counted R" using i n by (auto simp: all_counted_nth)
  then have "before_completion R" using ok completion_ok_before by (auto simp: multi_ok_def)
  then have "completion_ok \<lparr>mr_phases = (mr_phases R)[i := p], mr_wrapper = w\<rparr>"
    unfolding completion_ok_def using before_completion_keep [OF _ p _ c, of i] i n by simp
  then show ?thesis using ok n i p m w by (simp add: multi_ok_def filter_update_same)
qed

lemma multi_ok_tell:
  assumes ok: "multi_ok ms R" and i: "i < length ms" "mr_phases R ! i = Waiting" and p: "p = Told r \<or> p = Thrown r"
  shows "multi_ok ms \<lparr>mr_phases = (mr_phases R)[i := p], mr_wrapper = mw_tell (ms ! i) r (mr_wrapper R)\<rparr>"
proof (rule multi_ok_early [OF ok i(1)])
  show "maps_ok ms \<lparr>mr_phases = (mr_phases R)[i := p], mr_wrapper = mw_tell (ms ! i) r (mr_wrapper R)\<rparr>"
    using ok i p by (intro maps_ok_keep) (auto simp: multi_ok_def stored_def mw_tell_def)
qed (use i p in \<open>auto simp: mw_tell_def phase_defs split: callback_call.splits\<close>)

lemma multi_ok_store:
  assumes ok: "multi_ok ms R" and i: "i < length ms" "mr_phases R ! i = Told r" and d: "distinct ms"
  shows "multi_ok ms \<lparr>mr_phases = (mr_phases R)[i := Stored r], mr_wrapper = mw_store (ms ! i) r (mr_wrapper R)\<rparr>"
proof (rule multi_ok_early [OF ok i(1)])
  show "maps_ok ms \<lparr>mr_phases = (mr_phases R)[i := Stored r], mr_wrapper = mw_store (ms ! i) r (mr_wrapper R)\<rparr>"
    using ok i d by (intro maps_ok_store) (auto simp: multi_ok_def)
qed (use i in \<open>auto simp: mw_store_def counted_def split: callback_call.splits\<close>)

lemma multi_ok_count:
  assumes ok: "multi_ok ms R" and i: "i < length ms" "mr_phases R ! i = Stored r" and n: "length ms < 2 ^ 31"
    and c: "mw_count (mr_wrapper R) = (k, w)" and p: "p = (if k = 0 then Completing r else Answered r)"
  shows "multi_ok ms \<lparr>mr_phases = (mr_phases R)[i := p], mr_wrapper = w\<rparr>"
proof -
  let ?R = "\<lparr>mr_phases = (mr_phases R)[i := p], mr_wrapper = w\<rparr>" and ?k = "length (filter counted (mr_phases R))"
  have len: "length (mr_phases R) = length ms" using ok by (simp add: multi_ok_def)
  have nc: "\<not> counted (mr_phases R ! i)" "counted p" using i(2) p by (simp_all add: counted_def)
  have more: "length (filter counted ((mr_phases R)[i := p])) = Suc ?k" using nc i(1) len by (intro filter_update_more) simp_all
  then have le: "Suc ?k \<le> length ms" using length_filter_le [of counted "(mr_phases R)[i := p]"] len by simp
  have mem: "mw_members (mr_wrapper R) = int (length ms) - int ?k" using ok by (simp add: multi_ok_def)
  have "wrap32 (mw_members (mr_wrapper R) - 1) = int (length ms) - int (Suc ?k)" using mem le n by (subst wrap32_id) auto
  then have k: "k = int (length ms) - int (Suc ?k)" and w: "w = (mr_wrapper R)\<lparr>mw_members := k\<rparr>" using c by (auto simp: mw_count_def Let_def)
  have "\<not> all_counted R" using i(1) nc(1) len by (auto simp: all_counted_nth)
  then have b: "before_completion R" using ok completion_ok_before by (auto simp: multi_ok_def)
  have all: "all_counted ?R \<longleftrightarrow> k = 0" using more k len by (auto simp: all_counted_count)
  have q: "\<not> completing (mr_phases R ! j)" if "j < length ms" for j using b that len by (simp add: before_completion_def)
  have calls: "\<forall>c \<in> set (mw_calls w). \<not> is_onComplete c" using b w by (simp add: before_completion_def)
  have "completion_ok ?R"
  proof (cases "k = 0")
    case True
    then have "in_completion ?R"
      unfolding in_completion_def using all calls p i(1) len q by (auto simp: nth_list_update completing_def split: if_splits)
    then show ?thesis by (simp add: completion_ok_def)
  next
    case False
    then have "\<forall>x \<in> set ((mr_phases R)[i := p]). \<not> completing x"
      using b p unfolding before_completion_def by (auto simp: completing_def dest!: set_updateD)
    then have "before_completion ?R" unfolding before_completion_def using all False calls by simp
    then show ?thesis by (simp add: completion_ok_def)
  qed
  moreover have "maps_ok ms ?R" using ok i p w len by (intro maps_ok_keep) (auto simp: multi_ok_def stored_def)
  ultimately show ?thesis using more k w len by (simp add: multi_ok_def)
qed


lemma completing_in_completion: "completion_ok R \<Longrightarrow> i < length (mr_phases R) \<Longrightarrow> completing (mr_phases R ! i) \<Longrightarrow> in_completion R"
  by (auto simp: completion_ok_def before_completion_def after_completion_def)

lemma in_completion_only:
  assumes "in_completion R" "i < length (mr_phases R)" "completing (mr_phases R ! i)"
  shows "(\<forall>j < length (mr_phases R). completing (mr_phases R ! j) \<longrightarrow> j = i)
    \<and> (\<forall>r vs. mr_phases R ! i = Gathered r vs \<longrightarrow> vs = completed_map (mw_values (mr_wrapper R)))"
  using assms unfolding in_completion_def by metis

lemma all_counted_keep: "all_counted R \<Longrightarrow> counted p \<Longrightarrow> all_counted \<lparr>mr_phases = (mr_phases R)[i := p], mr_wrapper = w\<rparr>"
  unfolding all_counted_def by (auto dest!: set_updateD)

lemma multi_ok_gather:
  assumes ok: "multi_ok ms R" and i: "i < length ms" "mr_phases R ! i = Completing r"
  shows "multi_ok ms \<lparr>mr_phases = (mr_phases R)[i := Gathered r (completed_map (mw_values (mr_wrapper R)))], mr_wrapper = mr_wrapper R\<rparr>"
proof -
  let ?p = "Gathered r (completed_map (mw_values (mr_wrapper R)))"
  let ?R = "\<lparr>mr_phases = (mr_phases R)[i := ?p], mr_wrapper = mr_wrapper R\<rparr>"
  have len: "length (mr_phases R) = length ms" using ok by (simp add: multi_ok_def)
  have c: "in_completion R" using ok i len by (intro completing_in_completion [of _ i]) (auto simp: multi_ok_def completing_def)
  have only: "\<forall>j < length ms. completing (mr_phases R ! j) \<longrightarrow> j = i" using in_completion_only [OF c, of i] i len by (simp add: completing_def)
  have "all_counted ?R" using c unfolding in_completion_def by (intro all_counted_keep) (auto simp: counted_def)
  moreover have "\<forall>j < length ms. completing ((mr_phases R)[i := ?p] ! j) \<longrightarrow> j = i" using only by (metis nth_list_update_neq)
  ultimately have "in_completion ?R" unfolding in_completion_def
    using c i(1) len by (intro conjI exI [of _ i]) (simp_all add: in_completion_def)
  moreover have "maps_ok ms ?R" using ok i len by (intro maps_ok_keep) (auto simp: multi_ok_def stored_def)
  ultimately show ?thesis using ok i len by (simp add: multi_ok_def completion_ok_def filter_update_same counted_def)
qed

lemma multi_ok_complete:
  assumes ok: "multi_ok ms R" and i: "i < length ms" "mr_phases R ! i = Gathered r vs"
  shows "multi_ok ms \<lparr>mr_phases = (mr_phases R)[i := Answered r], mr_wrapper = mw_onComplete vs (completed_map (mw_exceptions (mr_wrapper R))) (mr_wrapper R)\<rparr>"
proof -
  let ?R = "\<lparr>mr_phases = (mr_phases R)[i := Answered r], mr_wrapper = mw_onComplete vs (completed_map (mw_exceptions (mr_wrapper R))) (mr_wrapper R)\<rparr>"
  have len: "length (mr_phases R) = length ms" using ok by (simp add: multi_ok_def)
  have c: "in_completion R" using ok i len by (intro completing_in_completion [of _ i]) (auto simp: multi_ok_def completing_def)
  have only: "\<forall>j < length ms. completing (mr_phases R ! j) \<longrightarrow> j = i" and vs: "vs = completed_map (mw_values (mr_wrapper R))"
    using in_completion_only [OF c, of i] i len by (simp_all add: completing_def)
  have "all_counted ?R" using c unfolding in_completion_def by (intro all_counted_keep) (auto simp: counted_def)
  moreover have "\<not> completing ((mr_phases R)[i := Answered r] ! j)" if "j < length ms" for j
    using that only i(1) len by (cases "j = i") (simp, metis nth_list_update_neq)
  then have "\<forall>p \<in> set ((mr_phases R)[i := Answered r]). \<not> completing p" using len by (metis in_set_conv_nth length_list_update)
  ultimately have "after_completion ?R" unfolding after_completion_def
    using c vs by (auto simp: in_completion_def mw_onComplete_def)
  moreover have "maps_ok ms ?R" using ok i len by (intro maps_ok_keep) (auto simp: multi_ok_def stored_def mw_onComplete_def)
  ultimately show ?thesis using ok i len by (simp add: multi_ok_def completion_ok_def filter_update_same counted_def mw_onComplete_def)
qed

lemma multi_step_ok:
  assumes "multi_step ms R R'" "multi_ok ms R" "distinct ms" "length ms < 2 ^ 31"
  shows "multi_ok ms R'"
  using assms(1)
proof cases
  case (Go_on i)
  note i = Go_on(2) and R' = Go_on(1)
  show ?thesis
  proof (cases "mr_phases R ! i")
    case (Stored r)
    obtain k w where c: "mw_count (mr_wrapper R) = (k, w)" by force
    from multi_ok_count [OF assms(2) i Stored assms(4) c refl] show ?thesis using R' Stored c by (simp add: advance_answer_def)
  qed (use multi_ok_store [OF assms(2) i _ assms(3)] multi_ok_gather [OF assms(2) i] multi_ok_complete [OF assms(2) i] R' Go_on(3)
      in \<open>auto simp: advance_answer_def sm_entrySet_def moving_def\<close>)
qed (use assms(2) in \<open>auto intro: multi_ok_tell\<close>)

lemma multi_start_ok:
  fixes ms :: "'mem::linorder list"
  assumes ms: "ms \<noteq> []" "length ms < 2 ^ 31"
  shows "multi_ok ms (multi_start ms :: ('mem, 't) multi_run)"
proof -
  let ?R = "multi_start ms :: ('mem, 't) multi_run"
  have w: "wrap32 (int (length ms)) = int (length ms)" using ms(2) by (intro wrap32_id) auto
  have "before_completion ?R" using ms(1) by (auto simp: before_completion_def multi_start_def all_counted_def mw_new_def phase_defs)
  moreover have "maps_ok ms ?R" by (auto simp: maps_ok_def holds_answers_def multi_start_def mw_new_def stored_def picked_value_def picked_exception_def)
  moreover have "filter counted (mr_phases ?R) = []" by (simp add: multi_start_def filter_empty_conv counted_def)
  ultimately show ?thesis using w by (simp add: multi_ok_def completion_ok_def) (simp add: multi_start_def mw_new_def)
qed

lemma multi_reachable_ok:
  assumes "(multi_step ms)\<^sup>*\<^sup>* (multi_start ms) R" "ms \<noteq> []" "distinct ms" "length ms < 2 ^ 31"
  shows "multi_ok ms R"
  using assms(1) by (induction rule: rtranclp_induct) (use multi_start_ok multi_step_ok assms(2-4) in blast)+

text \<open>Claim C31: the callback of a task that goes to several members is completed exactly once: whatever the order and the interleaving of the answers,
  \<open>onComplete\<close> is called at most once and after all calls for single members; it is called when every handler has run to its end; and its
  maps hold, for every member, the value or the exception this member answered with and nothing else.
\<close>

theorem multi_callback_completes_once:
  assumes "(multi_step ms)\<^sup>*\<^sup>* (multi_start ms) R" "ms \<noteq> []" "distinct ms" "length ms < 2 ^ 31"
  shows "(\<forall>c \<in> set (butlast (mw_calls (mr_wrapper R))). \<not> is_onComplete c)
    \<and> ((\<forall>p \<in> set (mr_phases R). \<exists>r. p = Answered r) \<longrightarrow> (\<exists>vs es. last (mw_calls (mr_wrapper R)) = Multi_onComplete vs es \<and> mw_calls (mr_wrapper R) \<noteq> []))
    \<and> (\<forall>vs es. Multi_onComplete vs es \<in> set (mw_calls (mr_wrapper R)) \<longrightarrow>
        (\<forall>p \<in> set (mr_phases R). \<exists>r. p = Answered r)
        \<and> (\<forall>m v. map_of vs m = Some v \<longleftrightarrow> (\<exists>i < length ms. ms ! i = m \<and> mr_phases R ! i = Answered (OnResponse v)))
        \<and> (\<forall>m x. map_of es m = Some x \<longleftrightarrow> (\<exists>i < length ms. \<exists>e. ms ! i = m \<and> x = Some e \<and> mr_phases R ! i = Answered (OnFailureCall e))))"
proof -
  have ok: "multi_ok ms R" by (rule multi_reachable_ok [OF assms])
  then have len: "length (mr_phases R) = length ms" and maps: "maps_ok ms R" and comp: "completion_ok R" by (simp_all add: multi_ok_def)
  let ?calls = "mw_calls (mr_wrapper R)" and ?vs = "completed_map (mw_values (mr_wrapper R))" and ?es = "completed_map (mw_exceptions (mr_wrapper R))"
  show ?thesis
  proof (cases "after_completion R")
    case True
    then obtain tells where t: "?calls = tells @ [Multi_onComplete ?vs ?es]" "\<forall>c \<in> set tells. \<not> is_onComplete c" unfolding after_completion_def by blast
    have ans: "\<exists>r. p = Answered r" if "p \<in> set (mr_phases R)" for p
      using True that unfolding after_completion_def all_counted_def by (cases p) (fastforce simp: phase_defs)+
    have pv: "picked_value (stored (mr_phases R ! i)) = Some v \<longleftrightarrow> mr_phases R ! i = Answered (OnResponse v)" if "i < length ms" for i v
      using ans [of "mr_phases R ! i"] that len by (auto simp: picked_value_def stored_def split: callback_call.splits)
    have pe: "picked_exception (stored (mr_phases R ! i)) = Some x \<longleftrightarrow> (\<exists>e. x = Some e \<and> mr_phases R ! i = Answered (OnFailureCall e))" if "i < length ms" for i x
      using ans [of "mr_phases R ! i"] that len by (auto simp: picked_exception_def stored_def split: callback_call.splits)
    have "map_of ?vs = map_of (mw_values (mr_wrapper R))" "map_of ?es = map_of (mw_exceptions (mr_wrapper R))"
      using maps by (auto simp: maps_ok_def holds_answers_def intro: completed_map_of)
    then have m: "map_of ?vs k = Some v \<longleftrightarrow> (\<exists>i < length ms. ms ! i = k \<and> mr_phases R ! i = Answered (OnResponse v))"
      "map_of ?es k = Some x \<longleftrightarrow> (\<exists>i < length ms. \<exists>e. ms ! i = k \<and> x = Some e \<and> mr_phases R ! i = Answered (OnFailureCall e))" for k v x
      using maps pv pe unfolding maps_ok_def holds_answers_def by (metis (no_types, lifting))+
    have u: "Multi_onComplete vs es \<in> set ?calls \<Longrightarrow> vs = ?vs \<and> es = ?es" for vs es using t by (auto simp: is_onComplete_def)
    show ?thesis
    proof (intro conjI allI impI)
      show "\<forall>c \<in> set (butlast ?calls). \<not> is_onComplete c" "\<exists>vs es. last ?calls = Multi_onComplete vs es \<and> ?calls \<noteq> []" using t by simp_all
    qed (use u m ans in blast)+
  next
    case False
    then have no: "\<forall>c \<in> set ?calls. \<not> is_onComplete c" using comp unfolding completion_ok_def before_completion_def in_completion_def by blast
    have "\<not> (\<forall>p \<in> set (mr_phases R). \<exists>r. p = Answered r)"
    proof
      assume all: "\<forall>p \<in> set (mr_phases R). \<exists>r. p = Answered r"
      then have "all_counted R" by (auto simp: all_counted_def counted_def)
      then have "in_completion R" using False comp by (simp add: completion_ok_def before_completion_def)
      then show False using all unfolding in_completion_def by (metis completing_simps(3) nth_mem)
    qed
    then show ?thesis using no by (auto simp: is_onComplete_def dest: in_set_butlastD)
  qed
qed


text \<open>A callback of the user that throws for one member is never completed, and neither is one for no members.\<close>

lemma throwing_callback_never_completes:
  assumes "(multi_step ms)\<^sup>*\<^sup>* (multi_start ms) R" "ms \<noteq> []" "distinct ms" "length ms < 2 ^ 31" "Thrown r \<in> set (mr_phases R)"
  shows "\<forall>c \<in> set (mw_calls (mr_wrapper R)). \<not> is_onComplete c"
proof -
  have ok: "multi_ok ms R" by (rule multi_reachable_ok [OF assms(1-4)])
  have "\<not> all_counted R" using assms(5) by (auto simp: all_counted_def counted_def intro!: bexI [of _ "Thrown r"])
  then show ?thesis using ok completion_ok_before by (auto simp: multi_ok_def before_completion_def)
qed

lemma no_members_never_completes:
  assumes "(multi_step [])\<^sup>*\<^sup>* (multi_start []) R"
  shows "mw_calls (mr_wrapper R) = []"
  using assms by (induction rule: rtranclp_induct) (auto simp: multi_start_def mw_new_def elim: multi_step.cases)

section \<open>Submissions\<close>

datatype 'a target = To_Partition int | To_Address 'a

datatype ('d, 'a) exec_request =
    SubmitToPartition string string 'd int
  | SubmitToAddress string string 'd 'a
  | CancelOnPartition string int bool
  | CancelOnAddress string 'a bool

text \<open>What has no body in the sources; \<open>el_response\<close> is the wait for the answer of an invocation.\<close>

record ('s, 'd, 'mem, 'a, 'sel, 'i, 'msg) exec_lib =
  el_name :: string
  el_getPartitionId :: "'d \<Rightarrow> ('s, int) comp"
  el_randomPartitionId :: "('s, int) comp"
  el_hasPartitionHash :: "'d \<Rightarrow> bool"
  el_newUuid :: "('s, string) comp"
  el_memberList :: "('s, 'mem list) comp"
  el_selectMembers :: "'sel \<Rightarrow> ('s, 'mem list) comp"
  el_memberAddress :: "'mem \<Rightarrow> ('s, 'a) comp"
  el_rand :: "('s, nat) comp"
  el_invoke :: "('d, 'a) exec_request \<Rightarrow> 'a target \<Rightarrow> ('s, 'i) comp"
  el_isSync :: "bool \<Rightarrow> ('s, bool) comp"
  el_response :: "'i \<Rightarrow> 's \<Rightarrow> (iexception + 'msg) \<times> 's"
  el_waitSent :: "'i \<Rightarrow> 's \<Rightarrow> (iexception + unit) \<times> 's"
  el_isDone :: "'i \<Rightarrow> 's \<Rightarrow> bool"
  el_complete :: "'i \<Rightarrow> iexception \<Rightarrow> 's \<Rightarrow> 's"

text \<open>A callback of the user for one answer, or the wrapper with this index for a member.\<close>

datatype ('cb, 'mem) exec_callback = User_Callback 'cb | Member_Callback nat 'mem

record ('s, 'd, 'mem, 'a, 'i, 'cb, 'mcb, 't) exec_state =
  es_lib :: 's
  es_sent :: "('d, 'a) exec_request list"
  es_callbacks :: "('i \<times> ('cb, 'mem) exec_callback) list"
  es_wrappers :: "('mcb \<times> ('mem, 't) multi_wrapper) list"

definition lib :: "('s, 'x) comp \<Rightarrow> (('s, 'd, 'mem, 'a, 'i, 'cb, 'mcb, 't) exec_state, 'x) comp" where
  "lib f s = (case f (es_lib s) of (r, l) \<Rightarrow> (r, s\<lparr>es_lib := l\<rparr>))"

text \<open>A future that is finished, or that waits for an invocation and knows how to cancel it.\<close>

datatype ('i, 'a, 't) exec_future = Finished "'t completed" | Pending 'i string "'t option" "'a target"

definition send :: "('s, 'd, 'mem, 'a, 'sel, 'i, 'msg) exec_lib \<Rightarrow> ('d, 'a) exec_request \<Rightarrow> 'a target \<Rightarrow> (('s, 'd, 'mem, 'a, 'i, 'cb, 'mcb, 't) exec_state, 'i) comp" where
  "send L q t s = (case el_invoke L q t (es_lib s) of
      (Inl e, l) \<Rightarrow> (Inl e, s\<lparr>es_lib := l\<rparr>) | (Inr i, l) \<Rightarrow> (Inr i, s\<lparr>es_lib := l, es_sent := es_sent s @ [q]\<rparr>))"

definition invokeOnPartitionInternal :: "('s, 'd, 'mem, 'a, 'sel, 'i, 'msg) exec_lib \<Rightarrow> 'd \<Rightarrow> int \<Rightarrow> string \<Rightarrow>
    (('s, 'd, 'mem, 'a, 'i, 'cb, 'mcb, 't) exec_state, 'i) comp" where
  "invokeOnPartitionInternal L taskData partitionId uuid = send L (SubmitToPartition (el_name L) uuid taskData partitionId) (To_Partition partitionId)"

definition invokeOnAddressInternal :: "('s, 'd, 'mem, 'a, 'sel, 'i, 'msg) exec_lib \<Rightarrow> ('task \<Rightarrow> 'd res) \<Rightarrow> 'task \<Rightarrow> 'a \<Rightarrow> string \<Rightarrow>
    (('s, 'd, 'mem, 'a, 'i, 'cb, 'mcb, 't) exec_state, 'i) comp" where
  "invokeOnAddressInternal L toData task address uuid =
     bindM (liftR (toData task)) (\<lambda>d. send L (SubmitToAddress (el_name L) uuid d address) (To_Address address))"

text \<open>\<open>decode\<close> is the message decoder followed by \<open>toObject\<close>.\<close>

definition retrieveResultSync :: "('s, 'd, 'mem, 'a, 'sel, 'i, 'msg) exec_lib \<Rightarrow> ('msg \<Rightarrow> 't completed) \<Rightarrow> 'i \<Rightarrow>
    (('s, 'd, 'mem, 'a, 'i, 'cb, 'mcb, 't) exec_state, ('i, 'a, 't) exec_future) comp" where
  "retrieveResultSync L decode f s =
     (case el_response L f (es_lib s) of
        (Inl e, l) \<Rightarrow> (Inr (Finished (Inl e)), s\<lparr>es_lib := l\<rparr>)
      | (Inr m, l) \<Rightarrow> (Inr (Finished (decode m)), s\<lparr>es_lib := l\<rparr>))"

definition checkSync :: "('s, 'd, 'mem, 'a, 'sel, 'i, 'msg) exec_lib \<Rightarrow> ('msg \<Rightarrow> 't completed) \<Rightarrow> 'i \<Rightarrow> string \<Rightarrow> 'a target \<Rightarrow> bool \<Rightarrow> 't option \<Rightarrow>
    (('s, 'd, 'mem, 'a, 'i, 'cb, 'mcb, 't) exec_state, ('i, 'a, 't) exec_future) comp" where
  "checkSync L decode f uuid target preventSync defaultValue =
     bindM (lib (el_isSync L preventSync)) (\<lambda>sync.
       if sync then retrieveResultSync L decode f else retM (Pending f uuid defaultValue target))"

definition submitToPartitionInternal :: "('s, 'd, 'mem, 'a, 'sel, 'i, 'msg) exec_lib \<Rightarrow> ('msg \<Rightarrow> 't completed) \<Rightarrow> 'd \<Rightarrow> 't option \<Rightarrow> bool \<Rightarrow> int \<Rightarrow>
    (('s, 'd, 'mem, 'a, 'i, 'cb, 'mcb, 't) exec_state, ('i, 'a, 't) exec_future) comp" where
  "submitToPartitionInternal L decode taskData defaultValue preventSync partitionId =
     bindM (lib (el_newUuid L)) (\<lambda>uuid.
     bindM (invokeOnPartitionInternal L taskData partitionId uuid) (\<lambda>f.
       checkSync L decode f uuid (To_Partition partitionId) preventSync defaultValue))"

definition andThen_exec :: "'i \<Rightarrow> ('cb, 'mem) exec_callback \<Rightarrow> (('s, 'd, 'mem, 'a, 'i, 'cb, 'mcb, 't) exec_state, unit) comp" where
  "andThen_exec f cb s = (Inr (), s\<lparr>es_callbacks := es_callbacks s @ [(f, cb)]\<rparr>)"

definition submitToPartitionInternal_cb :: "('s, 'd, 'mem, 'a, 'sel, 'i, 'msg) exec_lib \<Rightarrow> 'd \<Rightarrow> int \<Rightarrow> ('cb, 'mem) exec_callback \<Rightarrow>
    (('s, 'd, 'mem, 'a, 'i, 'cb, 'mcb, 't) exec_state, unit) comp" where
  "submitToPartitionInternal_cb L taskData partitionId callback =
     bindM (lib (el_newUuid L)) (\<lambda>uuid.
     bindM (invokeOnPartitionInternal L taskData partitionId uuid) (\<lambda>f. andThen_exec f callback))"

definition submitToTargetInternal :: "('s, 'd, 'mem, 'a, 'sel, 'i, 'msg) exec_lib \<Rightarrow> ('task \<Rightarrow> 'd res) \<Rightarrow> ('msg \<Rightarrow> 't completed) \<Rightarrow> 'task \<Rightarrow> 'a \<Rightarrow> 't option \<Rightarrow> bool \<Rightarrow>
    (('s, 'd, 'mem, 'a, 'i, 'cb, 'mcb, 't) exec_state, ('i, 'a, 't) exec_future) comp" where
  "submitToTargetInternal L toData decode task address defaultValue preventSync =
     bindM (lib (el_newUuid L)) (\<lambda>uuid.
     bindM (invokeOnAddressInternal L toData task address uuid) (\<lambda>f.
       checkSync L decode f uuid (To_Address address) preventSync defaultValue))"

definition submitToTargetInternal_cb :: "('s, 'd, 'mem, 'a, 'sel, 'i, 'msg) exec_lib \<Rightarrow> ('task \<Rightarrow> 'd res) \<Rightarrow> 'task \<Rightarrow> 'a \<Rightarrow> ('cb, 'mem) exec_callback \<Rightarrow>
    (('s, 'd, 'mem, 'a, 'i, 'cb, 'mcb, 't) exec_state, unit) comp" where
  "submitToTargetInternal_cb L toData task address callback =
     bindM (lib (el_newUuid L)) (\<lambda>uuid.
     bindM (invokeOnAddressInternal L toData task address uuid) (\<lambda>f. andThen_exec f callback))"


definition submitToKeyOwnerInternal :: "('s, 'd, 'mem, 'a, 'sel, 'i, 'msg) exec_lib \<Rightarrow> ('task \<Rightarrow> 'd res) \<Rightarrow> ('key \<Rightarrow> 'd res) \<Rightarrow> ('msg \<Rightarrow> 't completed) \<Rightarrow> 'task \<Rightarrow> 'key \<Rightarrow> 't option \<Rightarrow> bool \<Rightarrow> (('s, 'd, 'mem, 'a, 'i, 'cb, 'mcb, 't) exec_state, ('i, 'a, 't) exec_future) comp" where
  "submitToKeyOwnerInternal L toData keyData decode task key defaultValue preventSync =
     bindM (liftR (keyData key)) (\<lambda>dataKey.
     bindM (lib (el_getPartitionId L dataKey)) (\<lambda>partitionId.
     bindM (liftR (toData task)) (\<lambda>d. submitToPartitionInternal L decode d defaultValue preventSync partitionId)))"

definition submitToKeyOwnerInternal_cb :: "('s, 'd, 'mem, 'a, 'sel, 'i, 'msg) exec_lib \<Rightarrow> ('task \<Rightarrow> 'd res) \<Rightarrow> ('key \<Rightarrow> 'd res) \<Rightarrow> 'task \<Rightarrow> 'key \<Rightarrow> ('cb, 'mem) exec_callback \<Rightarrow> (('s, 'd, 'mem, 'a, 'i, 'cb, 'mcb, 't) exec_state, unit) comp" where
  "submitToKeyOwnerInternal_cb L toData keyData task key callback =
     bindM (liftR (keyData key)) (\<lambda>dataKey.
     bindM (lib (el_getPartitionId L dataKey)) (\<lambda>partitionId.
     bindM (liftR (toData task)) (\<lambda>d. submitToPartitionInternal_cb L d partitionId callback)))"

definition submitToRandomInternal :: "('s, 'd, 'mem, 'a, 'sel, 'i, 'msg) exec_lib \<Rightarrow> ('msg \<Rightarrow> 't completed) \<Rightarrow> 'd \<Rightarrow> 't option \<Rightarrow> bool \<Rightarrow> (('s, 'd, 'mem, 'a, 'i, 'cb, 'mcb, 't) exec_state, ('i, 'a, 't) exec_future) comp" where
  "submitToRandomInternal L decode taskData defaultValue preventSync =
     bindM (lib (el_randomPartitionId L)) (submitToPartitionInternal L decode taskData defaultValue preventSync)"

definition submitToRandomInternal_cb :: "('s, 'd, 'mem, 'a, 'sel, 'i, 'msg) exec_lib \<Rightarrow> 'd \<Rightarrow> ('cb, 'mem) exec_callback \<Rightarrow> (('s, 'd, 'mem, 'a, 'i, 'cb, 'mcb, 't) exec_state, unit) comp" where
  "submitToRandomInternal_cb L taskData callback =
     bindM (lib (el_randomPartitionId L)) (\<lambda>partitionId. submitToPartitionInternal_cb L taskData partitionId callback)"

definition submitToKeyOwner :: "('s, 'd, 'mem, 'a, 'sel, 'i, 'msg) exec_lib \<Rightarrow> ('task \<Rightarrow> 'd res) \<Rightarrow> ('key \<Rightarrow> 'd res) \<Rightarrow> ('msg \<Rightarrow> 't completed) \<Rightarrow> 'task \<Rightarrow> 'key \<Rightarrow> (('s, 'd, 'mem, 'a, 'i, 'cb, 'mcb, 't) exec_state, ('i, 'a, 't) exec_future) comp" where
  "submitToKeyOwner L toData keyData decode task key = submitToKeyOwnerInternal L toData keyData decode task key None False"

definition submitToMember :: "('s, 'd, 'mem, 'a, 'sel, 'i, 'msg) exec_lib \<Rightarrow> ('task \<Rightarrow> 'd res) \<Rightarrow> ('msg \<Rightarrow> 't completed) \<Rightarrow> 'task \<Rightarrow> 'mem \<Rightarrow> (('s, 'd, 'mem, 'a, 'i, 'cb, 'mcb, 't) exec_state, ('i, 'a, 't) exec_future) comp" where
  "submitToMember L toData decode task member =
     bindM (lib (el_memberAddress L member)) (\<lambda>memberAddress. submitToTargetInternal L toData decode task memberAddress None False)"

text \<open>One submission for each member, in the map \<open>std::map\<close> of futures; the answer is never awaited.\<close>

fun submit_each :: "('s, 'd, 'mem::linorder, 'a, 'sel, 'i, 'msg) exec_lib \<Rightarrow> ('task \<Rightarrow> 'd res) \<Rightarrow> ('msg \<Rightarrow> 't completed) \<Rightarrow> 'task \<Rightarrow> 'mem list \<Rightarrow> ('mem, ('i, 'a, 't) exec_future) sync_map \<Rightarrow> (('s, 'd, 'mem, 'a, 'i, 'cb, 'mcb, 't) exec_state, ('mem, ('i, 'a, 't) exec_future) sync_map) comp" where
  "submit_each L toData decode task [] futureMap = retM futureMap"
| "submit_each L toData decode task (m # ms) futureMap =
     bindM (lib (el_memberAddress L m)) (\<lambda>memberAddress.
     bindM (submitToTargetInternal L toData decode task memberAddress None True) (\<lambda>f.
       submit_each L toData decode task ms (sm_assign m (Some f) futureMap)))"

definition submitToMembers :: "('s, 'd, 'mem::linorder, 'a, 'sel, 'i, 'msg) exec_lib \<Rightarrow> ('task \<Rightarrow> 'd res) \<Rightarrow> ('msg \<Rightarrow> 't completed) \<Rightarrow> 'task \<Rightarrow> 'mem list \<Rightarrow> (('s, 'd, 'mem, 'a, 'i, 'cb, 'mcb, 't) exec_state, ('mem, ('i, 'a, 't) exec_future) sync_map) comp" where
  "submitToMembers L toData decode task members = submit_each L toData decode task members []"

definition submitToMembers_selected :: "('s, 'd, 'mem::linorder, 'a, 'sel, 'i, 'msg) exec_lib \<Rightarrow> ('task \<Rightarrow> 'd res) \<Rightarrow> ('msg \<Rightarrow> 't completed) \<Rightarrow> 'task \<Rightarrow> 'sel \<Rightarrow> (('s, 'd, 'mem, 'a, 'i, 'cb, 'mcb, 't) exec_state, ('mem, ('i, 'a, 't) exec_future) sync_map) comp" where
  "submitToMembers_selected L toData decode task sel = bindM (lib (el_selectMembers L sel)) (submitToMembers L toData decode task)"

definition submitToAllMembers :: "('s, 'd, 'mem::linorder, 'a, 'sel, 'i, 'msg) exec_lib \<Rightarrow> ('task \<Rightarrow> 'd res) \<Rightarrow> ('msg \<Rightarrow> 't completed) \<Rightarrow> 'task \<Rightarrow> (('s, 'd, 'mem, 'a, 'i, 'cb, 'mcb, 't) exec_state, ('mem, ('i, 'a, 't) exec_future) sync_map) comp" where
  "submitToAllMembers L toData decode task = bindM (lib (el_memberList L)) (\<lambda>members. submit_each L toData decode task members [])"

definition submit_result :: "('s, 'd, 'mem, 'a, 'sel, 'i, 'msg) exec_lib \<Rightarrow> ('task \<Rightarrow> 'd res) \<Rightarrow> ('msg \<Rightarrow> 't completed) \<Rightarrow> 'task \<Rightarrow> 't option \<Rightarrow> (('s, 'd, 'mem, 'a, 'i, 'cb, 'mcb, 't) exec_state, ('i, 'a, 't) exec_future) comp" where
  "submit_result L toData decode task result =
     bindM (liftR (toData task)) (\<lambda>taskData.
       if el_hasPartitionHash L taskData
       then bindM (lib (el_getPartitionId L taskData)) (submitToPartitionInternal L decode taskData result False)
       else submitToRandomInternal L decode taskData result False)"

definition es_submit :: "('s, 'd, 'mem, 'a, 'sel, 'i, 'msg) exec_lib \<Rightarrow> ('task \<Rightarrow> 'd res) \<Rightarrow> ('msg \<Rightarrow> 't completed) \<Rightarrow> 'task \<Rightarrow> (('s, 'd, 'mem, 'a, 'i, 'cb, 'mcb, 't) exec_state, ('i, 'a, 't) exec_future) comp" where
  "es_submit L toData decode task = submit_result L toData decode task None"

definition submit_callback :: "('s, 'd, 'mem, 'a, 'sel, 'i, 'msg) exec_lib \<Rightarrow> ('task \<Rightarrow> 'd res) \<Rightarrow> 'task \<Rightarrow> 'cb \<Rightarrow> (('s, 'd, 'mem, 'a, 'i, 'cb, 'mcb, 't) exec_state, unit) comp" where
  "submit_callback L toData task callback =
     bindM (liftR (toData task)) (\<lambda>taskData.
       if el_hasPartitionHash L taskData
       then bindM (lib (el_getPartitionId L taskData)) (\<lambda>partitionId. submitToPartitionInternal_cb L taskData partitionId (User_Callback callback))
       else submitToRandomInternal_cb L taskData (User_Callback callback))"

text \<open>\<open>members[rand() % (int) members.size()]\<close>\<close>

definition random_member :: "('s, 'd, 'mem, 'a, 'sel, 'i, 'msg) exec_lib \<Rightarrow> 'mem list \<Rightarrow> (('s, 'd, 'mem, 'a, 'i, 'cb, 'mcb, 't) exec_state, 'mem) comp" where
  "random_member L members =
     bindM (lib (el_rand L)) (\<lambda>r.
       let n = wrap32 (int (length members)); k = nat (int r mod \<bar>n\<bar>)
       in if n = 0 then throwM DivisionByZero else if k < length members then retM (members ! k) else throwM OutOfBounds)"

definition submit_selected :: "('s, 'd, 'mem, 'a, 'sel, 'i, 'msg) exec_lib \<Rightarrow> ('task \<Rightarrow> 'd res) \<Rightarrow> ('msg \<Rightarrow> 't completed) \<Rightarrow> 'task \<Rightarrow> 'sel \<Rightarrow> (('s, 'd, 'mem, 'a, 'i, 'cb, 'mcb, 't) exec_state, ('i, 'a, 't) exec_future) comp" where
  "submit_selected L toData decode task sel =
     bindM (lib (el_selectMembers L sel)) (\<lambda>members. bindM (random_member L members) (submitToMember L toData decode task))"

definition submitToMember_callback :: "('s, 'd, 'mem, 'a, 'sel, 'i, 'msg) exec_lib \<Rightarrow> ('task \<Rightarrow> 'd res) \<Rightarrow> 'task \<Rightarrow> 'mem \<Rightarrow> ('cb, 'mem) exec_callback \<Rightarrow> (('s, 'd, 'mem, 'a, 'i, 'cb, 'mcb, 't) exec_state, unit) comp" where
  "submitToMember_callback L toData task member callback =
     bindM (lib (el_memberAddress L member)) (\<lambda>memberAddress. submitToTargetInternal_cb L toData task memberAddress callback)"

definition submit_selected_callback :: "('s, 'd, 'mem, 'a, 'sel, 'i, 'msg) exec_lib \<Rightarrow> ('task \<Rightarrow> 'd res) \<Rightarrow> 'task \<Rightarrow> 'sel \<Rightarrow> 'cb \<Rightarrow> (('s, 'd, 'mem, 'a, 'i, 'cb, 'mcb, 't) exec_state, unit) comp" where
  "submit_selected_callback L toData task sel callback =
     bindM (lib (el_selectMembers L sel)) (\<lambda>members.
     bindM (random_member L members) (\<lambda>m. submitToMember_callback L toData task m (User_Callback callback)))"

definition submitToKeyOwner_callback :: "('s, 'd, 'mem, 'a, 'sel, 'i, 'msg) exec_lib \<Rightarrow> ('task \<Rightarrow> 'd res) \<Rightarrow> ('key \<Rightarrow> 'd res) \<Rightarrow> 'task \<Rightarrow> 'key \<Rightarrow> 'cb \<Rightarrow> (('s, 'd, 'mem, 'a, 'i, 'cb, 'mcb, 't) exec_state, unit) comp" where
  "submitToKeyOwner_callback L toData keyData task key callback = submitToKeyOwnerInternal_cb L toData keyData task key (User_Callback callback)"

text \<open>The loop of the submissions with a callback for several members: each member answers to the wrapper \<open>k\<close>.\<close>

fun submit_each_callback :: "('s, 'd, 'mem, 'a, 'sel, 'i, 'msg) exec_lib \<Rightarrow> ('task \<Rightarrow> 'd res) \<Rightarrow> 'task \<Rightarrow> nat \<Rightarrow> 'mem list \<Rightarrow> (('s, 'd, 'mem, 'a, 'i, 'cb, 'mcb, 't) exec_state, unit) comp" where
  "submit_each_callback L toData task k [] = retM ()"
| "submit_each_callback L toData task k (m # ms) =
     bindM (submitToMember_callback L toData task m (Member_Callback k m)) (\<lambda>_. submit_each_callback L toData task k ms)"

definition new_wrapper :: "'mcb \<Rightarrow> nat \<Rightarrow> (('s, 'd, 'mem, 'a, 'i, 'cb, 'mcb, 't) exec_state, nat) comp" where
  "new_wrapper callback memberSize s = (Inr (length (es_wrappers s)), s\<lparr>es_wrappers := es_wrappers s @ [(callback, mw_new (wrap32 (int memberSize)))]\<rparr>)"

definition submitToMembers_callback :: "('s, 'd, 'mem, 'a, 'sel, 'i, 'msg) exec_lib \<Rightarrow> ('task \<Rightarrow> 'd res) \<Rightarrow> 'task \<Rightarrow> 'mem list \<Rightarrow> 'mcb \<Rightarrow> (('s, 'd, 'mem, 'a, 'i, 'cb, 'mcb, 't) exec_state, unit) comp" where
  "submitToMembers_callback L toData task members callback =
     bindM (new_wrapper callback (length members)) (\<lambda>k. submit_each_callback L toData task k members)"

definition submitToMembers_selected_callback :: "('s, 'd, 'mem, 'a, 'sel, 'i, 'msg) exec_lib \<Rightarrow> ('task \<Rightarrow> 'd res) \<Rightarrow> 'task \<Rightarrow> 'sel \<Rightarrow> 'mcb \<Rightarrow> (('s, 'd, 'mem, 'a, 'i, 'cb, 'mcb, 't) exec_state, unit) comp" where
  "submitToMembers_selected_callback L toData task sel callback =
     bindM (lib (el_selectMembers L sel)) (\<lambda>members. submitToMembers_callback L toData task members callback)"

definition submitToAllMembers_callback :: "('s, 'd, 'mem, 'a, 'sel, 'i, 'msg) exec_lib \<Rightarrow> ('task \<Rightarrow> 'd res) \<Rightarrow> 'task \<Rightarrow> 'mcb \<Rightarrow> (('s, 'd, 'mem, 'a, 'i, 'cb, 'mcb, 't) exec_state, unit) comp" where
  "submitToAllMembers_callback L toData task callback =
     bindM (lib (el_memberList L)) (\<lambda>memberList.
     bindM (submitToMembers_callback L toData task memberList callback) (\<lambda>_.
     bindM (new_wrapper callback (length memberList)) (\<lambda>k. submit_each_callback L toData task k memberList)))"

section \<open>Executions\<close>

text \<open>A future that nobody keeps.\<close>

definition ignoring :: "(('s, 'd, 'mem, 'a, 'i, 'cb, 'mcb, 't) exec_state, 'x) comp \<Rightarrow> (('s, 'd, 'mem, 'a, 'i, 'cb, 'mcb, 't) exec_state, unit) comp" where
  "ignoring f = bindM f (\<lambda>_. retM ())"

definition execute :: "('s, 'd, 'mem, 'a, 'sel, 'i, 'msg) exec_lib \<Rightarrow> ('task \<Rightarrow> 'd res) \<Rightarrow> ('msg \<Rightarrow> 't completed) \<Rightarrow> 'task \<Rightarrow> (('s, 'd, 'mem, 'a, 'i, 'cb, 'mcb, 't) exec_state, unit) comp" where
  "execute L toData decode command = ignoring (es_submit L toData decode command)"

definition executeOnMember :: "('s, 'd, 'mem, 'a, 'sel, 'i, 'msg) exec_lib \<Rightarrow> ('task \<Rightarrow> 'd res) \<Rightarrow> ('msg \<Rightarrow> 't completed) \<Rightarrow> 'task \<Rightarrow> 'mem \<Rightarrow> (('s, 'd, 'mem, 'a, 'i, 'cb, 'mcb, 't) exec_state, unit) comp" where
  "executeOnMember L toData decode command member = ignoring (submitToMember L toData decode command member)"

definition execute_selected :: "('s, 'd, 'mem, 'a, 'sel, 'i, 'msg) exec_lib \<Rightarrow> ('task \<Rightarrow> 'd res) \<Rightarrow> ('msg \<Rightarrow> 't completed) \<Rightarrow> 'task \<Rightarrow> 'sel \<Rightarrow> (('s, 'd, 'mem, 'a, 'i, 'cb, 'mcb, 't) exec_state, unit) comp" where
  "execute_selected L toData decode command sel =
     bindM (lib (el_selectMembers L sel)) (\<lambda>members. bindM (random_member L members) (executeOnMember L toData decode command))"

definition executeOnKeyOwner :: "('s, 'd, 'mem, 'a, 'sel, 'i, 'msg) exec_lib \<Rightarrow> ('task \<Rightarrow> 'd res) \<Rightarrow> ('key \<Rightarrow> 'd res) \<Rightarrow> ('msg \<Rightarrow> 't completed) \<Rightarrow> 'task \<Rightarrow> 'key \<Rightarrow> (('s, 'd, 'mem, 'a, 'i, 'cb, 'mcb, 't) exec_state, unit) comp" where
  "executeOnKeyOwner L toData keyData decode command key = ignoring (submitToKeyOwner L toData keyData decode command key)"

fun executeOnMembers :: "('s, 'd, 'mem, 'a, 'sel, 'i, 'msg) exec_lib \<Rightarrow> ('task \<Rightarrow> 'd res) \<Rightarrow> ('msg \<Rightarrow> 't completed) \<Rightarrow> 'task \<Rightarrow> 'mem list \<Rightarrow> (('s, 'd, 'mem, 'a, 'i, 'cb, 'mcb, 't) exec_state, unit) comp" where
  "executeOnMembers L toData decode command [] = retM ()"
| "executeOnMembers L toData decode command (m # ms) =
     bindM (ignoring (submitToMember L toData decode command m)) (\<lambda>_. executeOnMembers L toData decode command ms)"

definition executeOnMembers_selected :: "('s, 'd, 'mem, 'a, 'sel, 'i, 'msg) exec_lib \<Rightarrow> ('task \<Rightarrow> 'd res) \<Rightarrow> ('msg \<Rightarrow> 't completed) \<Rightarrow> 'task \<Rightarrow> 'sel \<Rightarrow> (('s, 'd, 'mem, 'a, 'i, 'cb, 'mcb, 't) exec_state, unit) comp" where
  "executeOnMembers_selected L toData decode command sel = bindM (lib (el_selectMembers L sel)) (executeOnMembers L toData decode command)"

definition executeOnAllMembers :: "('s, 'd, 'mem, 'a, 'sel, 'i, 'msg) exec_lib \<Rightarrow> ('task \<Rightarrow> 'd res) \<Rightarrow> ('msg \<Rightarrow> 't completed) \<Rightarrow> 'task \<Rightarrow> (('s, 'd, 'mem, 'a, 'i, 'cb, 'mcb, 't) exec_state, unit) comp" where
  "executeOnAllMembers L toData decode command = bindM (lib (el_memberList L)) (executeOnMembers L toData decode command)"

section \<open>Cancelling\<close>

text \<open>A future for a partition has no address.\<close>

definition cancel_request :: "string \<Rightarrow> 'a target \<Rightarrow> bool \<Rightarrow> ('d, 'a) exec_request res" where
  "cancel_request uuid target mayInterruptIfRunning =
     (case target of
        To_Partition partitionId \<Rightarrow>
          if partitionId > - 1 then Inr (CancelOnPartition uuid partitionId mayInterruptIfRunning) else Inl NullDereference
      | To_Address address \<Rightarrow> Inr (CancelOnAddress uuid address mayInterruptIfRunning))"

definition invokeCancelRequest :: "('s, 'd, 'mem, 'a, 'sel, 'i, 'msg) exec_lib \<Rightarrow> ('msg \<Rightarrow> iexception + bool) \<Rightarrow> 'i \<Rightarrow> string \<Rightarrow> 'a target \<Rightarrow> bool \<Rightarrow> ('s, 'd, 'mem, 'a, 'i, 'cb, 'mcb, 't) exec_state \<Rightarrow> (client_error + bool) \<times> ('s, 'd, 'mem, 'a, 'i, 'cb, 'mcb, 't) exec_state" where
  "invokeCancelRequest L decode f uuid target mayInterruptIfRunning s =
     (case el_waitSent L f (es_lib s) of
        (Inl e, l) \<Rightarrow> (Inl (Raised e), s\<lparr>es_lib := l\<rparr>)
      | (Inr _, l) \<Rightarrow>
          (case bindM (liftR (cancel_request uuid target mayInterruptIfRunning)) (\<lambda>q. send L q target) (s\<lparr>es_lib := l\<rparr>) of
             (Inl e, s') \<Rightarrow> (Inl (Failed_With e), s')
           | (Inr g, s') \<Rightarrow>
               (case el_response L g (es_lib s') of
                  (Inl e, l') \<Rightarrow> (Inl (Raised e), s'\<lparr>es_lib := l'\<rparr>)
                | (Inr m, l') \<Rightarrow> (case decode m of Inl e \<Rightarrow> Inl (Raised e) | Inr b \<Rightarrow> Inr b, s'\<lparr>es_lib := l'\<rparr>))))"

text \<open>A request that fails leaves the future as it is.\<close>

definition exec_cancel :: "('s, 'd, 'mem, 'a, 'sel, 'i, 'msg) exec_lib \<Rightarrow> ('msg \<Rightarrow> iexception + bool) \<Rightarrow> (client_error \<Rightarrow> client_error) \<Rightarrow> 'i \<Rightarrow> string \<Rightarrow> 'a target \<Rightarrow> bool \<Rightarrow> ('s, 'd, 'mem, 'a, 'i, 'cb, 'mcb, 't) exec_state \<Rightarrow> (client_error + bool) \<times> ('s, 'd, 'mem, 'a, 'i, 'cb, 'mcb, 't) exec_state" where
  "exec_cancel L decode rethrow f uuid target mayInterruptIfRunning s =
     (if el_isDone L f (es_lib s) then (Inr False, s)
      else
        (case invokeCancelRequest L decode f uuid target mayInterruptIfRunning s of
           (Inl e, s') \<Rightarrow> (Inl (if is_exception e then rethrow e else e), s')
         | (Inr b, s') \<Rightarrow> (Inr b, s'\<lparr>es_lib := el_complete L f (IException CANCELLATION None) (es_lib s')\<rparr>)))"


section \<open>Who is asked\<close>

lemma send_sent: "send L q t s = (Inr i, s') \<Longrightarrow> es_sent s' = es_sent s @ [q]"
  by (auto simp: send_def split: prod.splits sum.splits)

lemma lib_sent: "lib f s = (r, s') \<Longrightarrow> es_sent s' = es_sent s"
  by (auto simp: lib_def split: prod.splits)

lemma checkSync_sent:
  assumes "checkSync L decode f uuid target preventSync v s = (Inr r, s')"
  shows "es_sent s' = es_sent s \<and> ((\<exists>x. r = Finished x) \<or> r = Pending f uuid v target)"
  using assms by (auto simp: checkSync_def retrieveResultSync_def retM_def dest!: lib_sent elim!: bindM_InrE split: if_splits prod.splits sum.splits)

lemma partition_submission:
  assumes "submitToPartitionInternal L decode d v b partitionId s = (Inr r, s')"
  shows "\<exists>uuid. es_sent s' = es_sent s @ [SubmitToPartition (el_name L) uuid d partitionId]
    \<and> ((\<exists>x. r = Finished x) \<or> (\<exists>f. r = Pending f uuid v (To_Partition partitionId)))"
  using assms by (fastforce simp: submitToPartitionInternal_def invokeOnPartitionInternal_def dest: lib_sent send_sent checkSync_sent elim!: bindM_InrE)

lemma target_submission:
  assumes "submitToTargetInternal L toData decode task a v b s = (Inr r, s')"
  shows "\<exists>uuid d. toData task = Inr d \<and> es_sent s' = es_sent s @ [SubmitToAddress (el_name L) uuid d a]
    \<and> ((\<exists>x. r = Finished x) \<or> (\<exists>f. r = Pending f uuid v (To_Address a)))"
  using assms
  by (fastforce simp: submitToTargetInternal_def invokeOnAddressInternal_def liftR_def dest: lib_sent send_sent checkSync_sent elim!: bindM_InrE)

lemma submit_submission:
  assumes "submit_result L toData decode task v s = (Inr r, s')"
  shows "\<exists>uuid d partitionId. toData task = Inr d \<and> es_sent s' = es_sent s @ [SubmitToPartition (el_name L) uuid d partitionId]
    \<and> ((\<exists>x. r = Finished x) \<or> (\<exists>f. r = Pending f uuid v (To_Partition partitionId)))"
  using assms
  by (fastforce simp: submit_result_def submitToRandomInternal_def liftR_def dest: lib_sent partition_submission elim!: bindM_InrE split: if_splits)

lemma member_submission:
  assumes "submitToMember L toData decode task m s = (Inr r, s')"
  shows "\<exists>uuid d a. toData task = Inr d \<and> es_sent s' = es_sent s @ [SubmitToAddress (el_name L) uuid d a]
    \<and> ((\<exists>x. r = Finished x) \<or> (\<exists>f. r = Pending f uuid None (To_Address a)))"
  using assms by (fastforce simp: submitToMember_def dest: lib_sent target_submission elim!: bindM_InrE)

lemma cancel_sends:
  assumes "exec_cancel L decode rethrow f uuid target b s = (Inr c, s')" "\<not> el_isDone L f (es_lib s)"
  shows "\<exists>q. cancel_request uuid target b = Inr q \<and> es_sent s' = es_sent s @ [q]"
proof -
  obtain s1 where 1: "invokeCancelRequest L decode f uuid target b s = (Inr c, s1)" "es_sent s' = es_sent s1"
    using assms by (auto simp: exec_cancel_def split: prod.splits sum.splits)
  then obtain l g s2 where 2: "bindM (liftR (cancel_request uuid target b)) (\<lambda>q. send L q target) (s\<lparr>es_lib := l\<rparr>) = (Inr g, s2)" "es_sent s1 = es_sent s2"
    by (auto simp: invokeCancelRequest_def split: prod.splits sum.splits)
  from 2(1) show ?thesis
    by (rule bindM_InrE) (use 1(2) 2(2) in \<open>auto simp: liftR_def dest!: send_sent\<close>)
qed

text \<open>A submission sends one request, and its future cancels that one: a task that is submitted is sent exactly once, to a partition or to the address of
  the member, under a new uuid; if the future is not finished at once, cancelling it later sends exactly one request, with
  the uuid and to the place of the submission, unless the task is done, when nothing is sent.
\<close>

theorem cancel_names_submission:
  assumes c: "exec_cancel L dc rethrow f u t b s2 = (Inr r, s3)"
    and sub: "submit_result L toData decode task v s = (Inr (Pending f u w t), s1) \<or> submitToMember L toData decode task m s = (Inr (Pending f u w t), s1)"
  shows "\<exists>d. toData task = Inr d
    \<and> ((\<exists>p. t = To_Partition p \<and> es_sent s1 = es_sent s @ [SubmitToPartition (el_name L) u d p]) \<or> (\<exists>a. t = To_Address a \<and> es_sent s1 = es_sent s @ [SubmitToAddress (el_name L) u d a]))
    \<and> es_sent s3 = es_sent s2 @ (if el_isDone L f (es_lib s2) then []
        else [case t of To_Partition p \<Rightarrow> CancelOnPartition u p b | To_Address a \<Rightarrow> CancelOnAddress u a b])"
proof -
  have "es_sent s3 = es_sent s2 @ (if el_isDone L f (es_lib s2) then [] else [case t of To_Partition p \<Rightarrow> CancelOnPartition u p b | To_Address a \<Rightarrow> CancelOnAddress u a b])"
  proof (cases "el_isDone L f (es_lib s2)")
    case True
    then show ?thesis using c by (simp add: exec_cancel_def)
  next
    case False
    from cancel_sends [OF c False] show ?thesis using False by (auto simp: cancel_request_def split: target.splits if_splits)
  qed
  with sub show ?thesis by (fastforce dest: submit_submission member_submission)
qed

text \<open>A submission that the executor runs synchronously answers with the response, not with the result that was given for it.\<close>

lemma sync_submission_ignores_result:
  assumes "checkSync L decode f uuid target b (Some result) s = (Inr r, s')" "el_isSync L b (es_lib s) = (Inr True, l)" "el_response L f l = (Inr m, l')"
  shows "r = Finished (decode m)"
  using assms by (simp add: checkSync_def retrieveResultSync_def lib_def bindM_def)

text \<open>Choosing among no members divides by zero.\<close>

lemma no_selected_member:
  assumes "el_selectMembers L sel (es_lib s) = (Inr [], l)" "el_rand L l = (Inr k, l')"
  shows "fst (submit_selected L toData decode task sel s) = Inl DivisionByZero" "fst (execute_selected L toData decode task sel s) = Inl DivisionByZero"
  using assms by (simp_all add: submit_selected_def execute_selected_def random_member_def lib_def bindM_def throwM_def wrap32_def)

section \<open>Several members\<close>

text \<open>The tasks that were sent to addresses, and where.\<close>

definition submitted :: "('d, 'a) exec_request list \<Rightarrow> ('d \<times> 'a) list" where
  "submitted qs = List.map_filter (\<lambda>q. case q of SubmitToAddress _ _ d a \<Rightarrow> Some (d, a) | _ \<Rightarrow> None) qs"

lemma submitted_append: "submitted (xs @ ys) = submitted xs @ submitted ys"
  by (simp add: submitted_def map_filter_def)

text \<open>A client that runs and whose members can be reached.\<close>

locale exec_cluster =
  fixes L :: "('s, 'd, 'mem, 'a, 'sel, 'i, 'msg) exec_lib" and ok :: "'s \<Rightarrow> bool" and members :: "'s \<Rightarrow> 'mem list" and addr :: "'mem \<Rightarrow> 'a"
  assumes list_law: "ok l \<Longrightarrow> \<exists>l'. el_memberList L l = (Inr (members l), l') \<and> ok l' \<and> members l' = members l"
    and address_law: "ok l \<Longrightarrow> m \<in> set (members l) \<Longrightarrow> \<exists>l'. el_memberAddress L m l = (Inr (addr m), l') \<and> ok l' \<and> members l' = members l"
    and uuid_law: "ok l \<Longrightarrow> \<exists>u l'. el_newUuid L l = (Inr u, l') \<and> ok l' \<and> members l' = members l"
    and invoke_law: "ok l \<Longrightarrow> m \<in> set (members l) \<Longrightarrow> \<exists>i l'. el_invoke L q (To_Address (addr m)) l = (Inr i, l') \<and> ok l' \<and> members l' = members l"
begin

lemma submitToMember_callback_sends:
  assumes "ok (es_lib s)" "m \<in> set (members (es_lib s))" "toData task = Inr d"
  shows "\<exists>s'. submitToMember_callback L toData task m cb s = (Inr (), s') \<and> ok (es_lib s') \<and> members (es_lib s') = members (es_lib s)
    \<and> es_wrappers s' = es_wrappers s \<and> submitted (es_sent s') = submitted (es_sent s) @ [(d, addr m)] \<and> map snd (es_callbacks s') = map snd (es_callbacks s) @ [cb]"
proof -
  obtain l1 where 1: "el_memberAddress L m (es_lib s) = (Inr (addr m), l1)" "ok l1" "members l1 = members (es_lib s)" using address_law assms(1,2) by blast
  obtain u l2 where 2: "el_newUuid L l1 = (Inr u, l2)" "ok l2" "members l2 = members l1" using uuid_law 1(2) by blast
  obtain i l3 where 3: "el_invoke L (SubmitToAddress (el_name L) u d (addr m)) (To_Address (addr m)) l2 = (Inr i, l3)" "ok l3" "members l3 = members l2"
    using invoke_law 2(2,3) 1(3) assms(2) by metis
  show ?thesis
    using 1 2 3 assms(3)
    by (simp add: submitToMember_callback_def submitToTargetInternal_cb_def invokeOnAddressInternal_def bindM_def lib_def liftR_def send_def andThen_exec_def
        submitted_append) (simp add: submitted_def map_filter_def)
qed

lemma submit_each_callback_sends:
  assumes "ok (es_lib s)" "set ms \<subseteq> set (members (es_lib s))" "toData task = Inr d"
  shows "\<exists>s'. submit_each_callback L toData task k ms s = (Inr (), s') \<and> ok (es_lib s') \<and> members (es_lib s') = members (es_lib s) \<and> es_wrappers s' = es_wrappers s
    \<and> submitted (es_sent s') = submitted (es_sent s) @ map (\<lambda>m. (d, addr m)) ms \<and> map snd (es_callbacks s') = map snd (es_callbacks s) @ map (Member_Callback k) ms"
  using assms(1,2)
proof (induction ms arbitrary: s)
  case (Cons m ms)
  obtain s1 where 1: "submitToMember_callback L toData task m (Member_Callback k m) s = (Inr (), s1)" "ok (es_lib s1)" "members (es_lib s1) = members (es_lib s)"
      "es_wrappers s1 = es_wrappers s" "submitted (es_sent s1) = submitted (es_sent s) @ [(d, addr m)]" "map snd (es_callbacks s1) = map snd (es_callbacks s) @ [Member_Callback k m]"
    using submitToMember_callback_sends [where toData = toData and task = task and m = m and cb = "Member_Callback k m", OF Cons.prems(1) _ assms(3)] Cons.prems(2) by auto
  with Cons.IH [of s1] Cons.prems(2) show ?case by (auto simp: bindM_def)
qed (simp add: retM_def)

lemma submitToMembers_callback_sends:
  assumes "ok (es_lib s)" "set ms \<subseteq> set (members (es_lib s))" "toData task = Inr d"
  shows "\<exists>s'. submitToMembers_callback L toData task ms callback s = (Inr (), s') \<and> ok (es_lib s') \<and> members (es_lib s') = members (es_lib s)
    \<and> es_wrappers s' = es_wrappers s @ [(callback, mr_wrapper (multi_start ms))]
    \<and> submitted (es_sent s') = submitted (es_sent s) @ map (\<lambda>m. (d, addr m)) ms
    \<and> map snd (es_callbacks s') = map snd (es_callbacks s) @ map (Member_Callback (length (es_wrappers s))) ms"
  using submit_each_callback_sends [of "s\<lparr>es_wrappers := es_wrappers s @ [(callback, mr_wrapper (multi_start ms))]\<rparr>" ms toData task d "length (es_wrappers s)"] assms
  by (simp add: submitToMembers_callback_def bindM_def new_wrapper_def multi_start_def)

end

text \<open>With a callback, a task for chosen members goes to each of them once, and to all members twice: \<open>submitToMembers\<close> sends one request to each member and
  makes one wrapper that waits for all of them, while \<open>submitToAllMembers\<close> sends the task twice to every member of the cluster, with two wrappers around
  the callback of the user, each of which completes it.
\<close>

theorem all_members_submitted_twice:
  assumes "exec_cluster L ok members addr" "ok (es_lib s)" "toData task = Inr d"
  shows "(\<forall>ms. set ms \<subseteq> set (members (es_lib s)) \<longrightarrow> (\<exists>s'. submitToMembers_callback L toData task ms callback s = (Inr (), s')
        \<and> submitted (es_sent s') = submitted (es_sent s) @ map (\<lambda>m. (d, addr m)) ms
        \<and> es_wrappers s' = es_wrappers s @ [(callback, mr_wrapper (multi_start ms))]))
    \<and> (\<exists>s'. submitToAllMembers_callback L toData task callback s = (Inr (), s')
        \<and> submitted (es_sent s') = submitted (es_sent s) @ map (\<lambda>m. (d, addr m)) (members (es_lib s)) @ map (\<lambda>m. (d, addr m)) (members (es_lib s))
        \<and> es_wrappers s' = es_wrappers s @ replicate 2 (callback, mr_wrapper (multi_start (members (es_lib s)))))"
proof (rule conjI)
  show "\<forall>ms. set ms \<subseteq> set (members (es_lib s)) \<longrightarrow> (\<exists>s'. submitToMembers_callback L toData task ms callback s = (Inr (), s')
        \<and> submitted (es_sent s') = submitted (es_sent s) @ map (\<lambda>m. (d, addr m)) ms \<and> es_wrappers s' = es_wrappers s @ [(callback, mr_wrapper (multi_start ms))])"
    using exec_cluster.submitToMembers_callback_sends [where toData = toData and task = task and callback = callback, OF assms(1,2) _ assms(3)] by blast
  let ?ms = "members (es_lib s)" and ?w = "(callback, mr_wrapper (multi_start (members (es_lib s))))"
  obtain l where l: "el_memberList L (es_lib s) = (Inr ?ms, l)" "ok l" "members l = ?ms" using exec_cluster.list_law [OF assms(1,2)] by blast
  obtain s1 where 1: "submitToMembers_callback L toData task ?ms callback (s\<lparr>es_lib := l\<rparr>) = (Inr (), s1)" "ok (es_lib s1)" "members (es_lib s1) = ?ms"
      "es_wrappers s1 = es_wrappers s @ [?w]" "submitted (es_sent s1) = submitted (es_sent s) @ map (\<lambda>m. (d, addr m)) ?ms"
    using exec_cluster.submitToMembers_callback_sends [where toData = toData and task = task and callback = callback and s = "s\<lparr>es_lib := l\<rparr>" and ms = ?ms, OF assms(1) _ _ assms(3)] l by auto
  obtain s2 where 2: "submitToMembers_callback L toData task ?ms callback s1 = (Inr (), s2)"
      "es_wrappers s2 = es_wrappers s1 @ [?w]" "submitted (es_sent s2) = submitted (es_sent s1) @ map (\<lambda>m. (d, addr m)) ?ms"
    using exec_cluster.submitToMembers_callback_sends [where toData = toData and task = task and callback = callback and ms = ?ms, OF assms(1) 1(2) _ assms(3)] 1(3) by auto
  have "submitToAllMembers_callback L toData task callback s = submitToMembers_callback L toData task ?ms callback s1"
    using l 1(1) unfolding submitToAllMembers_callback_def by (simp add: bindM_def lib_def) (simp add: submitToMembers_callback_def bindM_def)
  then show "\<exists>s'. submitToAllMembers_callback L toData task callback s = (Inr (), s')
        \<and> submitted (es_sent s') = submitted (es_sent s) @ map (\<lambda>m. (d, addr m)) ?ms @ map (\<lambda>m. (d, addr m)) ?ms \<and> es_wrappers s' = es_wrappers s @ replicate 2 ?w"
    using 1(4,5) 2 by (simp add: numeral_2_eq_2)
qed

section \<open>Examples\<close>

text \<open>A run by a list of moves: the answer of a member, or the next step of a handler.\<close>

fun multi_script :: "'mem::linorder list \<Rightarrow> (nat \<times> 't callback_call option) list \<Rightarrow> ('mem, 't) multi_run \<Rightarrow> ('mem, 't) multi_run option" where
  "multi_script ms [] R = Some R"
| "multi_script ms ((i, Some r) # moves) R =
     (if i < length ms \<and> mr_phases R ! i = Waiting
      then multi_script ms moves \<lparr>mr_phases = (mr_phases R)[i := Told r], mr_wrapper = mw_tell (ms ! i) r (mr_wrapper R)\<rparr> else None)"
| "multi_script ms ((i, None) # moves) R = (if i < length ms \<and> moving (mr_phases R ! i) then multi_script ms moves (advance_answer ms i R) else None)"

lemma multi_script_reaches: "multi_script ms moves R = Some R' \<Longrightarrow> (multi_step ms)\<^sup>*\<^sup>* R R'"
  by (induction ms moves R rule: multi_script.induct) (auto split: if_splits intro: multi_step.intros converse_rtranclp_into_rtranclp)

definition two_answers :: "(nat, nat) multi_run" where
  "two_answers = \<lparr>mr_phases = [Answered (OnResponse (Some 5)), Answered (OnFailureCall (IException EXECUTION None))],
     mr_wrapper = \<lparr>mw_values = [(1, Some 5)], mw_exceptions = [(2, Some (IException EXECUTION None))], mw_members = 0,
       mw_calls = [Multi_onFailure 2 (IException EXECUTION None), Multi_onResponse 1 (Some 5),
         Multi_onComplete [(1, Some 5)] [(2, Some (IException EXECUTION None))]]\<rparr>\<rparr>"

lemma two_answers_reached: "(multi_step [1, 2])\<^sup>*\<^sup>* (multi_start [1, 2]) two_answers"
proof (rule multi_script_reaches)
  show "multi_script [1, 2] [(1, Some (OnFailureCall (IException EXECUTION None))), (0, Some (OnResponse (Some 5))), (1, None), (0, None), (1, None),
      (0, None), (0, None), (0, None)] (multi_start [1, 2]) = Some two_answers"
    by (simp add: multi_start_def mw_new_def mw_tell_def mw_store_def mw_count_def mw_onComplete_def advance_answer_def moving_def wrap32_def sm_put_def sm_entrySet_def
        completed_map_def two_answers_def Let_def)
qed

lemma multi_callback_completes_once_witness:
  "last (mw_calls (mr_wrapper two_answers)) = Multi_onComplete [(1, Some 5)] [(2, Some (IException EXECUTION None))]
    \<and> filter is_onComplete (butlast (mw_calls (mr_wrapper two_answers))) = []"
proof (rule conjI)
  show "last (mw_calls (mr_wrapper two_answers)) = Multi_onComplete [(1, Some 5)] [(2, Some (IException EXECUTION None))]" by (simp add: two_answers_def)
  have "\<forall>c \<in> set (butlast (mw_calls (mr_wrapper two_answers))). \<not> is_onComplete c" using multi_callback_completes_once [OF two_answers_reached] by simp
  then show "filter is_onComplete (butlast (mw_calls (mr_wrapper two_answers))) = []" by (simp only: filter_empty_conv)
qed

text \<open>A client of a cluster of two members; the state counts uuids and invocations.\<close>

definition plain_exec :: "(nat, nat, nat, nat, unit, nat, nat) exec_lib" where
  "plain_exec = \<lparr>el_name = ''e'', el_getPartitionId = (\<lambda>_ l. (Inr 3, l)), el_randomPartitionId = (\<lambda>l. (Inr 5, l)), el_hasPartitionHash = (\<lambda>_. True),
     el_newUuid = (\<lambda>l. (Inr (replicate l (CHR ''u'')), Suc l)), el_memberList = (\<lambda>l. (Inr [1, 2], l)), el_selectMembers = (\<lambda>_ l. (Inr [2], l)),
     el_memberAddress = (\<lambda>m l. (Inr (m + 100), l)), el_rand = (\<lambda>l. (Inr 0, l)), el_invoke = (\<lambda>_ _ l. (Inr l, Suc l)), el_isSync = (\<lambda>_ l. (Inr False, l)),
     el_response = (\<lambda>i l. (Inr i, l)), el_waitSent = (\<lambda>_ l. (Inr (), l)), el_isDone = (\<lambda>_ _. False), el_complete = (\<lambda>_ _ l. l)\<rparr>"

interpretation two_members: exec_cluster plain_exec "\<lambda>_. True" "\<lambda>_. [1, 2]" "\<lambda>m. m + 100"
  by unfold_locales (simp_all add: plain_exec_def)

definition idle_exec :: "(nat, nat, nat, nat, nat, unit, string, nat) exec_state" where
  "idle_exec = \<lparr>es_lib = 0, es_sent = [], es_callbacks = [], es_wrappers = []\<rparr>"

lemma all_members_submitted_twice_witness:
  "\<exists>s'. submitToAllMembers_callback plain_exec Inr 7 ''all'' idle_exec = (Inr (), s') \<and> submitted (es_sent s') = [(7, 101), (7, 102), (7, 101), (7, 102)]"
  using all_members_submitted_twice [where s = idle_exec and toData = Inr and task = 7 and d = 7 and callback = "''all''", OF two_members.exec_cluster_axioms]
  by (auto simp: idle_exec_def submitted_def map_filter_def)

lemma cancel_names_submission_witness:
  "\<exists>f u s1 s3 r. submit_result plain_exec Inr (\<lambda>m. Inr (Some m)) 7 (Some 1) idle_exec = (Inr (Pending f u (Some 1) (To_Partition 3)), s1)
    \<and> exec_cancel plain_exec (\<lambda>_. Inr True) (\<lambda>e. e) f u (To_Partition 3) True s1 = (Inr r, s3)
    \<and> es_sent s1 = [SubmitToPartition ''e'' u 7 3] \<and> es_sent s3 = [SubmitToPartition ''e'' u 7 3, CancelOnPartition u 3 True]"
proof -
  obtain s1 where 1: "submit_result plain_exec Inr (\<lambda>m. Inr (Some m)) 7 (Some 1) idle_exec = (Inr (Pending 1 [] (Some 1) (To_Partition 3)), s1)"
      "es_sent s1 = [SubmitToPartition ''e'' [] 7 3]" "es_lib s1 = 2"
    by (simp add: submit_result_def submitToPartitionInternal_def invokeOnPartitionInternal_def checkSync_def send_def lib_def bindM_def liftR_def retM_def plain_exec_def idle_exec_def)
  obtain r s3 where 3: "exec_cancel plain_exec (\<lambda>_. Inr True) (\<lambda>e. e) 1 [] (To_Partition 3) True s1 = (Inr r, s3)"
    by (simp add: exec_cancel_def invokeCancelRequest_def cancel_request_def send_def bindM_def liftR_def plain_exec_def)
  from cancel_names_submission [OF 3 disjI1 [OF 1(1)]] have "es_sent s3 = [SubmitToPartition ''e'' [] 7 3, CancelOnPartition [] 3 True]"
    using 1(2) by (simp add: plain_exec_def)
  then show ?thesis using 1 3 by blast
qed

end
