(* ===== verification/Map_Laws.thy ===== *)
theory Map_Laws
  imports Map_Proxy
begin

text \<open>
  What the typed map proxies promise: overridden writes invalidate the near cache, the plain proxy is
  a distributed map over any cluster that behaves as documented, and the near cached proxy answers
  every sequence of operations as the plain one does.
\<close>

section \<open>The near cache, as the proxy uses it\<close>

lemma nc_put_abs:
  assumes inv: "nc_inv kind mx nc"
  shows "\<exists>nc'. bindM (on_store (rs_doEvictionIfRequired kind env))
      (\<lambda>_. on_store (rs_putInternal kind t1 t2 k (Inr content))) nc = (Inr (), nc') \<and> nc_inv kind mx nc'
    \<and> (\<forall>j r. nc_abs nc' j = Some r \<longrightarrow> nc_abs nc j = Some r \<or> (j = k \<and> rec_value r = content))"
proof -
  obtain st where st: "nearCacheRecordStore nc = Some st" "store_inv kind st" "cap_ok mx st"
    using inv by (auto simp: nc_inv_def split: option.splits)
  obtain st1 where e: "rs_doEvictionIfRequired kind env st = (Inr (), st1)" "store_inv kind st1"
    "same_settings st st1" "cap_ok mx st1" "\<forall>j. store_abs st1 j \<noteq> None \<longrightarrow> store_abs st1 j = store_abs st j"
    "isEvictionEnabled st \<longrightarrow> \<not> isEvictionRequired st1 (st_map st1)"
    using doEvictionIfRequired_ok [OF st(2,3)] by blast
  obtain r2 st2 where p: "rs_putInternal kind t1 t2 k (Inr content) st1 = (r2, st2)" "store_inv kind st2" "cap_ok mx st2"
    "is_ok (Inr content) \<longrightarrow> r2 = Inr ()"
    using putInternal_cap [OF e(2,4)] e(6) same_settings_fields(1) [OF e(3)] by blast
  have abs: "store_abs st1 j = Some r \<or> (j = k \<and> rec_value r = content)" if "store_abs st2 j = Some r" for j r
  proof (cases "isEvictionEnabled st1 \<or> \<not> isEvictionRequired st1 (st_map st1) \<or> store_abs st1 k \<noteq> None")
    case True
    then have "store_abs st2 = (store_abs st1)(k \<mapsto> onRecordCreate t2 (valueToRecordInternal t1 st1 content))"
      using putInternal_ok [OF e(2), of k t1 t2 content] p(1) by auto
    then show ?thesis
      using that by (auto simp: onRecordCreate_def valueToRecordInternal_def NearCacheRecord_new_def split: if_splits)
  next
    case False
    then show ?thesis using putInternal_skip [OF e(2)] p(1) that by auto
  qed
  have abs': "store_abs st j = Some r \<or> (j = k \<and> rec_value r = content)" if "store_abs st2 j = Some r" for j r
    using abs [OF that] e(5) by (metis option.distinct(1))
  show ?thesis
    using st e(1) p abs' by (simp add: on_store_def bindM_def nc_abs_def nc_inv_def)
qed

context record_kind
begin

lemma nc_get_abs:
  assumes inv: "nc_inv kind mx nc"
  shows "\<exists>res nc'. nc_get kind t1 t2 (Some k) nc = (res, nc') \<and> nc_inv kind mx nc'
    \<and> (\<forall>j r. nc_abs nc' j = Some r \<longrightarrow> (\<exists>r0. nc_abs nc j = Some r0 \<and> rec_value r = rec_value r0))
    \<and> (res = Inr NotCached \<or> (\<exists>r. nc_abs nc k = Some r \<and> res = snd (recordToValue kind (onRecordAccess t2 r))))"
proof -
  obtain st where st: "nearCacheRecordStore nc = Some st" "store_inv kind st" "cap_ok mx st"
    using inv by (auto simp: nc_inv_def split: option.splits)
  have "\<exists>res st'. rs_get kind t1 t2 k st = (res, st') \<and> store_inv kind st' \<and> same_settings st st'
    \<and> sm_size (st_map st') \<le> sm_size (st_map st)
    \<and> (\<forall>j r. store_abs st' j = Some r \<longrightarrow> (\<exists>r0. store_abs st j = Some r0 \<and> rec_value r = rec_value r0))
    \<and> (res = Inr NotCached \<or> (\<exists>r. store_abs st k = Some r \<and> res = snd (recordToValue kind (onRecordAccess t2 r))))"
  proof (cases "store_abs st k")
    case None
    show ?thesis using get_miss [OF st(2) None, of t1 t2] by (elim exE conjE) auto
  next
    case (Some r)
    have v: "rec_value (onRecordAccess t2 r) = rec_value r"
      by (simp add: onRecordAccess_def incrementAccessHit_def setAccessTime_def)
    show ?thesis
    proof (cases "isRecordExpired t1 st r")
      case True
      show ?thesis using get_expired [OF st(2) Some True, of t2] by (elim exE conjE) (auto split: if_splits)
    next
      case False
      show ?thesis using get_hit [OF st(2) Some False, of t2] Some v by (elim exE conjE) (auto split: if_splits)
    qed
  qed
  then obtain res st' where g: "rs_get kind t1 t2 k st = (res, st')" "store_inv kind st'" "same_settings st st'"
    "sm_size (st_map st') \<le> sm_size (st_map st)"
    "\<forall>j r. store_abs st' j = Some r \<longrightarrow> (\<exists>r0. store_abs st j = Some r0 \<and> rec_value r = rec_value r0)"
    "res = Inr NotCached \<or> (\<exists>r. store_abs st k = Some r \<and> res = snd (recordToValue kind (onRecordAccess t2 r)))"
    by blast
  have "cap_ok mx st'" using cap_ok_settings [OF g(3) st(3) g(4)] .
  then show ?thesis
    using st(1) g by (auto simp: nc_get_def on_store_def nc_abs_def nc_inv_def)
qed

end

lemma nc_invalidate_abs:
  assumes inv: "nc_inv kind mx nc"
  shows "\<exists>b nc'. nc_invalidate kind (Some k) nc = (Inr b, nc') \<and> nc_inv kind mx nc' \<and> nc_abs nc' = (nc_abs nc)(k := None)"
proof -
  obtain st where st: "nearCacheRecordStore nc = Some st" "store_inv kind st" "cap_ok mx st"
    using inv by (auto simp: nc_inv_def split: option.splits)
  obtain st' where i: "rs_invalidate kind k st = (Inr (store_abs st k \<noteq> None), st')" "store_inv kind st'"
    "same_settings st st'" "store_abs st' = (store_abs st)(k := None)" "sm_size (st_map st') \<le> sm_size (st_map st)"
    using invalidate_ok [OF st(2)] by blast
  have "cap_ok mx st'" using cap_ok_settings [OF i(3) st(3) i(5)] .
  then show ?thesis using st(1) i by (simp add: nc_invalidate_def on_store_def nc_abs_def nc_inv_def)
qed

lemma nc_clear_abs:
  assumes inv: "nc_inv kind mx nc"
  shows "\<exists>nc'. nc_clear nc = (Inr (), nc') \<and> nc_inv kind mx nc' \<and> nc_abs nc' = (\<lambda>_. None)"
proof -
  obtain st where st: "nearCacheRecordStore nc = Some st" "store_inv kind st" "cap_ok mx st"
    using inv by (auto simp: nc_inv_def split: option.splits)
  obtain st' where c: "rs_clear st = (Inr (), st')" "store_inv kind st'" "same_settings st st'"
    "store_abs st' = (\<lambda>_. None)" "st_map st' = []"
    using clear_ok [OF st(2)] by blast
  have "cap_ok mx st'" using cap_ok_settings [OF c(3) st(3)] c(5) by (simp add: sm_size_def)
  then show ?thesis using st(1) c by (simp add: nc_clear_def on_store_def nc_abs_def nc_inv_def)
qed

section \<open>The proxy's view of its near cache\<close>

definition near_ok :: "('d::linorder, 'v, 'c, 'mk) near_ops \<Rightarrow> int \<Rightarrow> ('d, 'c, 'mk, 's) map_proxy \<Rightarrow> bool" where
  "near_ok no mx p = (case pr_nearCache p of None \<Rightarrow> False | Some a \<Rightarrow> nc_inv (no_kind no) mx (wrapped a))"

definition cached_records :: "('d::linorder, 'c, 'mk, 's) map_proxy \<Rightarrow> 'd \<Rightarrow> 'c near_record option" where
  "cached_records p = (case pr_nearCache p of None \<Rightarrow> (\<lambda>_. None) | Some a \<Rightarrow> nc_abs (wrapped a))"

definition same_server :: "('d, 'c, 'mk, 's) map_proxy \<Rightarrow> ('d, 'c, 'mk, 's) map_proxy \<Rightarrow> bool" where
  "same_server p p' \<longleftrightarrow> pr_server p' = pr_server p \<and> pr_invalidateOnChange p' = pr_invalidateOnChange p
     \<and> pr_listenerId p' = pr_listenerId p"

lemma same_server_refl [simp]: "same_server p p"
  by (simp add: same_server_def)

lemma same_server_trans: "same_server p q \<Longrightarrow> same_server q r \<Longrightarrow> same_server p r"
  by (simp add: same_server_def)

lemma near_okE:
  assumes "near_ok no mx p"
  obtains a where "pr_nearCache p = Some a" "nc_inv (no_kind no) mx (wrapped a)" "cached_records p = nc_abs (wrapped a)"
  using assms by (auto simp: near_ok_def cached_records_def split: option.splits)

lemma invalidateNearCache_ok:
  assumes "near_ok no mx p"
  shows "\<exists>p'. invalidateNearCache no key p = (Inr (), p') \<and> near_ok no mx p' \<and> same_server p p'
    \<and> cached_records p' = (cached_records p)(key := None)"
proof -
  obtain a where a: "pr_nearCache p = Some a" "nc_inv (no_kind no) mx (wrapped a)" "cached_records p = nc_abs (wrapped a)"
    using assms by (rule near_okE)
  obtain b nc' where i: "nc_invalidate (no_kind no) (Some key) (wrapped a) = (Inr b, nc')" "nc_inv (no_kind no) mx nc'"
    "nc_abs nc' = (nc_abs (wrapped a))(key := None)"
    using nc_invalidate_abs [OF a(2)] by blast
  show ?thesis
    using a i by (simp add: invalidateNearCache_def on_near_def aw_invalidate_def on_wrapped_def bindM_def retM_def
        near_ok_def same_server_def cached_records_def)
qed

lemma near_clear_ok:
  assumes "near_ok no mx p"
  shows "\<exists>p'. near_clear no p = (Inr (), p') \<and> near_ok no mx p' \<and> same_server p p' \<and> cached_records p' = (\<lambda>_. None)"
proof -
  obtain a where a: "pr_nearCache p = Some a" "nc_inv (no_kind no) mx (wrapped a)"
    using assms by (rule near_okE)
  obtain nc' where "nc_clear (wrapped a) = (Inr (), nc')" "nc_inv (no_kind no) mx nc'" "nc_abs nc' = (\<lambda>_. None)"
    using nc_clear_abs [OF a(2)] by blast
  then show ?thesis
    using a by (simp add: near_clear_def on_near_def aw_clear_def on_wrapped_def near_ok_def same_server_def cached_records_def)
qed

lemma on_server_near:
  assumes "on_server f p = (r, p')"
  shows "pr_nearCache p' = pr_nearCache p" "cached_records p' = cached_records p" "near_ok no mx p' = near_ok no mx p"
  using assms by (auto simp: on_server_def cached_records_def near_ok_def split: prod.splits)

section \<open>Overridden writes\<close>

lemma invalidating_ok:
  assumes ok: "near_ok no mx p" and f: "on_server g p = (r, q)" and r: "\<forall>e. r = Inl e \<longrightarrow> caught e"
  shows "\<exists>p'. invalidating no key (on_server g) p = (r, p') \<and> near_ok no mx p' \<and> same_server q p'
    \<and> cached_records p' = (cached_records p)(key := None)"
proof -
  have q: "near_ok no mx q" "cached_records q = cached_records p" using on_server_near(2) [OF f] on_server_near(3) [OF f, of no mx] ok by simp_all
  obtain p' where i: "invalidateNearCache no key q = (Inr (), p')" "near_ok no mx p'" "same_server q p'"
    "cached_records p' = (cached_records q)(key := None)"
    using invalidateNearCache_ok [OF q(1)] by blast
  show ?thesis
    using f r i q by (cases r) (simp_all add: invalidating_def catchM_def bindM_def retM_def)
qed

text \<open>The write operations on one key.\<close>

datatype 'd key_write =
    WRemove 'd | WRemoveValue 'd 'd | WDelete 'd | WTryRemove 'd int | WTryPut 'd 'd int | WPut 'd 'd int
  | WPutTransient 'd 'd int | WPutIfAbsent 'd 'd int | WReplaceSame 'd 'd 'd | WSet 'd 'd int | WEvict 'd | WExecute 'd 'd

fun write_key :: "'d key_write \<Rightarrow> 'd" where
  "write_key (WRemove k) = k"
| "write_key (WRemoveValue k v) = k"
| "write_key (WDelete k) = k"
| "write_key (WTryRemove k t) = k"
| "write_key (WTryPut k v t) = k"
| "write_key (WPut k v t) = k"
| "write_key (WPutTransient k v t) = k"
| "write_key (WPutIfAbsent k v t) = k"
| "write_key (WReplaceSame k v w) = k"
| "write_key (WSet k v t) = k"
| "write_key (WEvict k) = k"
| "write_key (WExecute k e) = k"

datatype 'd answer = AData "'d option" | ABool bool | AUnit

definition answering :: "('a \<Rightarrow> 'd answer) \<Rightarrow> ('p, 'a) comp \<Rightarrow> ('p, 'd answer) comp" where
  "answering f c = bindM c (\<lambda>a. retM (f a))"

fun run_write :: "('d, 'k, 'v, 'f, 'p) map_vt \<Rightarrow> 'd key_write \<Rightarrow> ('p, 'd answer) comp" where
  "run_write vt (WRemove k) = answering AData (vt_removeInternal vt k)"
| "run_write vt (WRemoveValue k v) = answering ABool (vt_removeInternal_value vt k v)"
| "run_write vt (WDelete k) = answering (\<lambda>_. AUnit) (vt_deleteInternal vt k)"
| "run_write vt (WTryRemove k t) = answering ABool (vt_tryRemoveInternal vt k t)"
| "run_write vt (WTryPut k v t) = answering ABool (vt_tryPutInternal vt k v t)"
| "run_write vt (WPut k v t) = answering AData (vt_putInternal vt k v t)"
| "run_write vt (WPutTransient k v t) = answering (\<lambda>_. AUnit) (vt_tryPutTransientInternal vt k v t)"
| "run_write vt (WPutIfAbsent k v t) = answering AData (vt_putIfAbsentInternal vt k v t)"
| "run_write vt (WReplaceSame k v w) = answering ABool (vt_replaceIfSameInternal vt k v w)"
| "run_write vt (WSet k v t) = answering (\<lambda>_. AUnit) (vt_setInternal vt k v t)"
| "run_write vt (WEvict k) = answering ABool (vt_evictInternal vt k)"
| "run_write vt (WExecute k e) = answering AData (vt_executeOnKeyInternal vt k e)"

lemma answering_invalidating:
  assumes ok: "near_ok no mx p" and f: "answering h (on_server g) p = (r, q)" and r: "\<forall>e. r = Inl e \<longrightarrow> caught e"
  shows "\<exists>p'. answering h (invalidating no key (on_server g)) p = (r, p') \<and> near_ok no mx p' \<and> same_server q p'
    \<and> cached_records p' = (cached_records p)(key := None)"
proof -
  obtain r0 q0 where g: "on_server g p = (r0, q0)" by fastforce
  have r0: "\<forall>e. r0 = Inl e \<longrightarrow> caught e" and q: "q0 = q"
    using f g r by (auto simp: answering_def bindM_def retM_def split: sum.splits)
  show ?thesis
    using invalidating_ok [OF ok g r0, of key] f g q
    by (auto simp: answering_def bindM_def retM_def split: sum.splits)
qed

lemmas base_methods = base_removeInternal_def base_removeInternal_value_def base_deleteInternal_def
  base_tryRemoveInternal_def base_tryPutInternal_def base_putInternal_def base_tryPutTransientInternal_def
  base_putIfAbsentInternal_def base_replaceIfSameInternal_def base_setInternal_def base_evictInternal_def
  base_executeOnKeyInternal_def

lemmas near_methods = near_removeInternal_def near_removeInternal_value_def near_deleteInternal_def
  near_tryRemoveInternal_def near_tryPutInternal_def near_putInternal_def near_tryPutTransientInternal_def
  near_putIfAbsentInternal_def near_replaceIfSameInternal_def near_setInternal_def near_evictInternal_def
  near_executeOnKeyInternal_def

section \<open>What the cluster promises\<close>

text \<open>
  The documented behaviour of the map operations on serialized keys and values, without expiry.
\<close>

locale imap_server =
  fixes impl :: "('s, 'd, 'q, 'f) IMapImpl" and sabs :: "'s \<Rightarrow> 'd \<rightharpoonup> 'd" and sok :: "'s \<Rightarrow> bool"
  assumes getData_law: "sok s \<Longrightarrow> \<exists>s'. im_getData impl k s = (Inr (sabs s k), s') \<and> sabs s' = sabs s \<and> sok s'"
    and containsKey_law: "sok s \<Longrightarrow> \<exists>s'. im_containsKey impl k s = (Inr (sabs s k \<noteq> None), s') \<and> sabs s' = sabs s \<and> sok s'"
    and putData_law: "sok s \<Longrightarrow> \<exists>s'. im_putData impl k v (- 1) s = (Inr (sabs s k), s') \<and> sabs s' = (sabs s)(k \<mapsto> v) \<and> sok s'"
    and set_law: "sok s \<Longrightarrow> \<exists>s'. im_set impl k v (- 1) s = (Inr (), s') \<and> sabs s' = (sabs s)(k \<mapsto> v) \<and> sok s'"
    and removeData_law: "sok s \<Longrightarrow> \<exists>s'. im_removeData impl k s = (Inr (sabs s k), s') \<and> sabs s' = (sabs s)(k := None) \<and> sok s'"
    and clear_law: "sok s \<Longrightarrow> \<exists>s'. im_clear impl s = (Inr (), s') \<and> sabs s' = Map.empty \<and> sok s'"

text \<open>
  A typed map over it: keys have distinct serialized forms and a valid value reads back as \<open>stored\<close>
  of itself.
\<close>

definition proxy_ops :: "('s, 'd, 'q, 'f) IMapImpl \<Rightarrow> ('d, 'k, 'v, 'f, ('d, 'c, 'mk, 's) map_proxy) map_vt \<Rightarrow>
    ('k, 'v, 'd, 'q, 'e, 'r) map_codec \<Rightarrow> near_env \<Rightarrow> (('d, 'c, 'mk, 's) map_proxy, 'k, 'v) imap_ops" where
  "proxy_ops impl vt cd env =
     \<lparr>imap_get = mp_get vt cd env, imap_put = (\<lambda>k v. bindM (mp_put vt cd k v) (\<lambda>_. retM ())), imap_clear = mp_clear impl\<rparr>"

definition decodable :: "('k, 'v, 'd, 'q, 'e, 'r) map_codec \<Rightarrow> ('d \<rightharpoonup> 'd) \<Rightarrow> bool" where
  "decodable cd m \<longleftrightarrow> (\<forall>d \<in> ran m. \<exists>v. v_toObject cd d = Inr (Some v))"

definition decoded :: "('k, 'v, 'd, 'q, 'e, 'r) map_codec \<Rightarrow> 'd option \<Rightarrow> 'v option" where
  "decoded cd d = (case toObject_auto (v_toObject cd) d of Inr x \<Rightarrow> x | Inl _ \<Rightarrow> None)"

lemma decodable_upd: "decodable cd m \<Longrightarrow> v_toObject cd d = Inr (Some v) \<Longrightarrow> decodable cd (m(k \<mapsto> d))"
  by (auto simp: decodable_def ran_def)

lemma decodable_del: "decodable cd m \<Longrightarrow> decodable cd (m(k := None))"
  by (auto simp: decodable_def ran_def)

lemma decodable_decode: "decodable cd m \<Longrightarrow> toObject_auto (v_toObject cd) (m k) = Inr (decoded cd (m k))"
  by (cases "m k") (auto simp: decodable_def ran_def decoded_def toObject_auto_def)

lemma decodable_None: "decodable cd m \<Longrightarrow> decoded cd (m k) = None \<longleftrightarrow> m k = None"
  by (cases "m k") (auto simp: decodable_def ran_def decoded_def toObject_auto_def)

text \<open>The cluster answers and every value decodes; the entries as the typed map shows them.\<close>

definition server_decodable :: "('s \<Rightarrow> 'd \<rightharpoonup> 'd) \<Rightarrow> ('s \<Rightarrow> bool) \<Rightarrow> ('k, 'v, 'd, 'q, 'e, 'r) map_codec \<Rightarrow> 's \<Rightarrow> bool" where
  "server_decodable sabs sok cd s \<longleftrightarrow> sok s \<and> decodable cd (sabs s)"

definition decoded_entries :: "('s \<Rightarrow> 'd \<rightharpoonup> 'd) \<Rightarrow> ('k, 'v, 'd, 'q, 'e, 'r) map_codec \<Rightarrow> ('k \<Rightarrow> 'd) \<Rightarrow> 's \<Rightarrow> 'k \<rightharpoonup> 'v" where
  "decoded_entries sabs cd kd s k = decoded cd (sabs s (kd k))"

locale typed_map = imap_server impl sabs sok
  for impl :: "('s, 'd, 'q, 'f) IMapImpl" and sabs :: "'s \<Rightarrow> 'd \<rightharpoonup> 'd" and sok :: "'s \<Rightarrow> bool" +
  fixes cd :: "('k, 'v, 'd, 'q, 'e, 'r) map_codec" and kd :: "'k \<Rightarrow> 'd" and valid :: "'v \<Rightarrow> bool" and stored :: "'v \<Rightarrow> 'v"
  assumes key_data: "k_toData cd k = Inr (kd k)" and key_inj: "inj kd"
    and value_data: "valid v \<Longrightarrow> \<exists>d. v_toData cd v = Inr d \<and> v_toObject cd d = Inr (Some (stored v))"
begin

abbreviation "server_ok \<equiv> server_decodable sabs sok cd"
abbreviation "entries \<equiv> decoded_entries sabs cd kd"

lemma base_get_ok:
  assumes "server_ok (pr_server p)"
  shows "\<exists>s'. base_getInternal impl cd key p = (Inr (decoded cd (sabs (pr_server p) key)), p\<lparr>pr_server := s'\<rparr>)
    \<and> sabs s' = sabs (pr_server p) \<and> server_ok s'"
proof -
  obtain s' where "im_getData impl key (pr_server p) = (Inr (sabs (pr_server p) key), s')" "sabs s' = sabs (pr_server p)" "sok s'"
    using assms getData_law [of "pr_server p" key] by (auto simp: server_decodable_def)
  then show ?thesis
    using assms decodable_decode [of cd "sabs (pr_server p)" key]
    by (intro exI [of _ s']) (simp add: base_getInternal_def bindM_def on_server_def liftR_def server_decodable_def)
qed

lemma base_put_ok:
  assumes "server_ok (pr_server p)" "v_toObject cd d = Inr (Some v)"
  shows "\<exists>s'. base_putInternal impl key d (- 1) p = (Inr (sabs (pr_server p) key), p\<lparr>pr_server := s'\<rparr>)
    \<and> sabs s' = (sabs (pr_server p))(key \<mapsto> d) \<and> server_ok s'"
proof -
  obtain s' where "im_putData impl key d (- 1) (pr_server p) = (Inr (sabs (pr_server p) key), s')"
    "sabs s' = (sabs (pr_server p))(key \<mapsto> d)" "sok s'"
    using assms putData_law [of "pr_server p" key d] by (auto simp: server_decodable_def)
  then show ?thesis
    using assms decodable_upd [OF _ assms(2), of "sabs (pr_server p)" key] by (intro exI [of _ s']) (simp add: base_putInternal_def on_server_def server_decodable_def)
qed

lemma entries_upd:
  assumes "sabs s' = (sabs s)(kd k \<mapsto> d)" "v_toObject cd d = Inr (Some v)"
  shows "entries s' = (entries s)(k \<mapsto> v)"
  using assms key_inj by (auto simp: decoded_entries_def fun_eq_iff decoded_def toObject_auto_def dest: injD)

lemma mp_get_ok:
  assumes "server_ok (pr_server p)"
  shows "\<exists>p'. mp_get (ClientMapProxy_vt impl cd) cd env k p = (Inr (entries (pr_server p) k), p')
    \<and> entries (pr_server p') = entries (pr_server p) \<and> server_ok (pr_server p')"
  using base_get_ok [OF assms, of "kd k"]
  by (auto simp: mp_get_def key_data bindM_def liftR_def ClientMapProxy_vt_def decoded_entries_def fun_eq_iff)

lemma mp_put_ok:
  assumes ok: "server_ok (pr_server p)" and v: "valid v"
  shows "\<exists>p'. mp_put (ClientMapProxy_vt impl cd) cd k v p = (Inr (entries (pr_server p) k), p')
    \<and> entries (pr_server p') = (entries (pr_server p))(k \<mapsto> stored v) \<and> server_ok (pr_server p')"
proof -
  obtain d where d: "v_toData cd v = Inr d" "v_toObject cd d = Inr (Some (stored v))" using value_data [OF v] by blast
  obtain s' where s': "base_putInternal impl (kd k) d (- 1) p = (Inr (sabs (pr_server p) (kd k)), p\<lparr>pr_server := s'\<rparr>)"
    "sabs s' = (sabs (pr_server p))(kd k \<mapsto> d)" "server_ok s'"
    using base_put_ok [OF ok d(2)] by blast
  have "decodable cd (sabs (pr_server p))" using ok by (simp add: server_decodable_def)
  then show ?thesis
    using d s' entries_upd [OF s'(2) d(2)] decodable_decode [of cd "sabs (pr_server p)" "kd k"]
    by (simp add: mp_put_def mp_put_ttl_def key_data bindM_def liftR_def ClientMapProxy_vt_def decoded_entries_def)
qed

lemma mp_clear_ok:
  assumes "server_ok (pr_server p)"
  shows "\<exists>p'. mp_clear impl p = (Inr (), p') \<and> entries (pr_server p') = Map.empty \<and> server_ok (pr_server p')"
proof -
  obtain s' where "im_clear impl (pr_server p) = (Inr (), s')" "sabs s' = Map.empty" "sok s'"
    using assms clear_law by (auto simp: server_decodable_def)
  then show ?thesis
    by (simp add: mp_clear_def on_server_def decoded_entries_def [abs_def] server_decodable_def decodable_def decoded_def toObject_auto_def)
qed

end

text \<open>The plain proxy is a distributed map as the HTTP cache expects it.\<close>

sublocale typed_map \<subseteq> base: imap "proxy_ops impl (ClientMapProxy_vt impl cd) cd env" "\<lambda>p :: ('d, 'c, 'mk, 's) map_proxy. entries (pr_server p)"
  valid stored "\<lambda>p. server_ok (pr_server p)" for env
proof unfold_locales
  fix p :: "('d, 'c, 'mk, 's) map_proxy" and k
  assume "server_ok (pr_server p)"
  then show "\<exists>p'. imap_get (proxy_ops impl (ClientMapProxy_vt impl cd) cd env) k p = (Inr (entries (pr_server p) k), p')
      \<and> entries (pr_server p') = entries (pr_server p) \<and> server_ok (pr_server p')"
    using mp_get_ok by (simp add: proxy_ops_def)
next
  fix p :: "('d, 'c, 'mk, 's) map_proxy" and k and v
  assume "server_ok (pr_server p)" "valid v"
  then show "\<exists>p'. imap_put (proxy_ops impl (ClientMapProxy_vt impl cd) cd env) k v p = (Inr (), p')
      \<and> entries (pr_server p') = (entries (pr_server p))(k \<mapsto> stored v) \<and> server_ok (pr_server p')"
    using mp_put_ok [of p v k] by (auto simp: proxy_ops_def bindM_def retM_def)
next
  fix p :: "('d, 'c, 'mk, 's) map_proxy" 
  assume "server_ok (pr_server p)"
  then show "\<exists>p'. imap_clear (proxy_ops impl (ClientMapProxy_vt impl cd) cd env) p = (Inr (), p')
      \<and> entries (pr_server p') = Map.empty \<and> server_ok (pr_server p')"
    using mp_clear_ok by (simp add: proxy_ops_def)
qed

context typed_map
begin

lemma plain_proxy_imap:
  "imap (proxy_ops impl (ClientMapProxy_vt impl cd) cd env) (\<lambda>p. entries (pr_server p)) valid stored (\<lambda>p. server_ok (pr_server p))"
  by unfold_locales

end

section \<open>The near cached proxy is transparent\<close>

text \<open>
  A near cached proxy in BINARY format whose conversions are the map's. Every cached record decodes
  to what the cluster holds for its key.
\<close>

locale near_map = typed_map impl sabs sok cd kd valid stored
  for impl :: "('s, 'd::linorder, 'q, 'f) IMapImpl" and sabs :: "'s \<Rightarrow> 'd \<rightharpoonup> 'd" and sok :: "'s \<Rightarrow> bool"
    and cd :: "('k, 'v, 'd, 'q, 'e, 'r) map_codec" and kd :: "'k \<Rightarrow> 'd" and valid :: "'v \<Rightarrow> bool" and stored :: "'v \<Rightarrow> 'v" +
  fixes vc :: "('d, 'v, 'd) value_codec" and mk :: "('mk, 'd) marker_ops"
  assumes vc_codec: "vc_toData vc = v_toData cd" "vc_toObject vc = v_toObject cd"
    and recode: "v_toObject cd d = Inr (Some v) \<Longrightarrow> \<exists>d'. v_toData cd v = Inr d' \<and> v_toObject cd d' = Inr (Some v)"
begin

definition near :: "('d, 'v, 'd, 'mk) near_ops" where
  "near = \<lparr>no_kind = data_store vc, no_marker = mk\<rparr>"

lemma near_fields [simp]: "no_kind near = data_store vc" "no_marker near = mk"
  by (simp_all add: near_def)

definition agrees :: "'d option \<Rightarrow> 'd option \<Rightarrow> bool" where
  "agrees c d \<longleftrightarrow> toObject_auto (v_toObject cd) c = toObject_auto (v_toObject cd) d"

definition coherent :: "('d, 'd, 'mk, 's) map_proxy \<Rightarrow> bool" where
  "coherent p \<longleftrightarrow> (\<forall>k r. cached_records p k = Some r \<longrightarrow> agrees (rec_value r) (sabs (pr_server p) k))"

definition sim :: "int \<Rightarrow> ('d, 'd, 'mk, 's) map_proxy \<Rightarrow> ('d, 'd, 'mk, 's) map_proxy \<Rightarrow> bool" where
  "sim mx p q \<longleftrightarrow> near_ok near mx p \<and> coherent p \<and> server_ok (pr_server p) \<and> server_ok (pr_server q)
     \<and> sabs (pr_server p) = sabs (pr_server q)"

lemma sim_cong:
  assumes "sim mx p q" "cached_records p' = cached_records p" "near_ok near mx p'"
    "sabs (pr_server p') = sabs (pr_server p)" "server_ok (pr_server p')"
  shows "sim mx p' q"
  using assms unfolding sim_def coherent_def by metis

lemma sim_shrink:
  assumes "sim mx p q" "near_ok near mx p'" "sabs (pr_server p') = sabs (pr_server p)" "server_ok (pr_server p')"
    and "\<And>k r. cached_records p' k = Some r \<Longrightarrow> \<exists>r0. cached_records p k = Some r0 \<and> rec_value r = rec_value r0"
  shows "sim mx p' q"
  using assms by (fastforce simp: sim_def coherent_def)

lemma near_get_ok:
  assumes sim: "sim mx p q"
  shows "\<exists>c p'. near_get near env key p = (Inr c, p') \<and> sim mx p' q \<and> same_server p p'
    \<and> (c = NotCached \<or> c = (case decoded cd (sabs (pr_server q) key) of None \<Rightarrow> NullObject | Some v \<Rightarrow> Cached v))"
proof -
  have ok: "near_ok near mx p" "coherent p" and rd: "decodable cd (sabs (pr_server q))"
    and eq: "sabs (pr_server p) = sabs (pr_server q)"
    using sim by (auto simp: sim_def server_decodable_def)
  obtain a where a: "pr_nearCache p = Some a" "nc_inv (data_store vc) mx (wrapped a)" "cached_records p = nc_abs (wrapped a)"
    using ok(1) by (rule near_okE) simp
  obtain res nc' where g: "nc_get (data_store vc) (ne_get1 env) (ne_get2 env) (Some key) (wrapped a) = (res, nc')"
    "nc_inv (data_store vc) mx nc'"
    "\<forall>j r. nc_abs nc' j = Some r \<longrightarrow> (\<exists>r0. nc_abs (wrapped a) j = Some r0 \<and> rec_value r = rec_value r0)"
    "res = Inr NotCached \<or> (\<exists>r. nc_abs (wrapped a) key = Some r \<and> res = snd (recordToValue (data_store vc) (onRecordAccess (ne_get2 env) r)))"
    using data_kind.nc_get_abs [OF a(2), of "ne_get1 env" "ne_get2 env" key] by blast
  let ?p = "p\<lparr>pr_nearCache := Some (a\<lparr>wrapped := nc'\<rparr>)\<rparr>"
  have run: "near_get near env key p = (res, ?p)"
    using a(1) g(1) by (simp add: near_get_def on_near_def aw_get_def on_wrapped_def)
  have "sim mx ?p q"
    by (rule sim_shrink [OF sim]) (use sim g(2,3) a in \<open>auto simp: near_ok_def cached_records_def sim_def\<close>)
  moreover have "\<exists>c. res = Inr c \<and> (c = NotCached \<or> c = (case decoded cd (sabs (pr_server q) key) of None \<Rightarrow> NullObject | Some v \<Rightarrow> Cached v))"
    using g(4)
  proof (elim disjE exE conjE)
    fix r
    assume r: "nc_abs (wrapped a) key = Some r" and res: "res = snd (recordToValue (data_store vc) (onRecordAccess (ne_get2 env) r))"
    have v: "rec_value (onRecordAccess (ne_get2 env) r) = rec_value r"
      by (simp add: onRecordAccess_def incrementAccessHit_def setAccessTime_def)
    have ag: "toObject_auto (v_toObject cd) (rec_value r) = Inr (decoded cd (sabs (pr_server q) key))"
      using ok(2) a(3) r eq decodable_decode [OF rd] by (simp add: coherent_def agrees_def)
    show ?thesis
      using ag res v vc_codec(2)
      by (cases "rec_value r"; cases "decoded cd (sabs (pr_server q) key)")
        (simp_all add: toObject_auto_def data_store_def data_recordToValue_def dataToValue_def cached_of_def)
  qed simp
  ultimately show ?thesis using run a by (auto simp: same_server_def)
qed

text \<open>Putting what the cluster answered, and releasing the mark.\<close>

lemma near_marks:
  assumes "sim mx p q"
  shows "\<exists>b p'. pr_tryMark near key p = (Inr b, p') \<and> sim mx p' q \<and> pr_server p' = pr_server p"
    "\<exists>b p'. pr_tryUnmark near key p = (Inr b, p') \<and> sim mx p' q \<and> pr_server p' = pr_server p"
    "\<exists>p'. pr_forceUnmark near key p = (Inr (), p') \<and> sim mx p' q \<and> pr_server p' = pr_server p"
proof -
  obtain a where a: "pr_nearCache p = Some a" using assms by (auto simp: sim_def elim: near_okE)
  have s: "sim mx (p\<lparr>pr_nearCache := Some (a\<lparr>keyStateMarker := m\<rparr>)\<rparr>) q" for m
    by (rule sim_cong [OF assms]) (use assms a in \<open>simp_all add: sim_def near_ok_def cached_records_def\<close>)
  show "\<exists>b p'. pr_tryMark near key p = (Inr b, p') \<and> sim mx p' q \<and> pr_server p' = pr_server p"
    "\<exists>b p'. pr_tryUnmark near key p = (Inr b, p') \<and> sim mx p' q \<and> pr_server p' = pr_server p"
    "\<exists>p'. pr_forceUnmark near key p = (Inr (), p') \<and> sim mx p' q \<and> pr_server p' = pr_server p"
    using a s by (auto simp: pr_tryMark_def pr_tryUnmark_def pr_forceUnmark_def on_near_def split: prod.splits)
qed

lemma near_invalidate_ok:
  assumes "sim mx p q"
  shows "\<exists>p'. invalidateNearCache near key p = (Inr (), p') \<and> sim mx p' q \<and> pr_server p' = pr_server p"
proof -
  obtain p' where i: "invalidateNearCache near key p = (Inr (), p')" "near_ok near mx p'" "same_server p p'"
    "cached_records p' = (cached_records p)(key := None)"
    using assms invalidateNearCache_ok [of near mx p key] by (auto simp: sim_def)
  have "sim mx p' q"
    by (rule sim_shrink [OF assms]) (use assms i in \<open>auto simp: same_server_def sim_def split: if_splits\<close>)
  then show ?thesis using i by (auto simp: same_server_def)
qed

lemma reset_ok:
  assumes "sim mx p q"
  shows "\<exists>p'. resetToUnmarkedState near key p = (Inr (), p') \<and> sim mx p' q \<and> pr_server p' = pr_server p"
proof -
  obtain b p1 where u: "pr_tryUnmark near key p = (Inr b, p1)" "sim mx p1 q" "pr_server p1 = pr_server p"
    using near_marks(2) [OF assms] by blast
  obtain p2 where i: "invalidateNearCache near key p1 = (Inr (), p2)" "sim mx p2 q" "pr_server p2 = pr_server p1"
    using near_invalidate_ok [OF u(2)] by blast
  obtain p3 where f: "pr_forceUnmark near key p2 = (Inr (), p3)" "sim mx p3 q" "pr_server p3 = pr_server p2"
    using near_marks(3) [OF i(2)] by blast
  show ?thesis using u i f by (cases b) (auto simp: resetToUnmarkedState_def bindM_def retM_def)
qed

lemma try_put_ok:
  assumes sim: "sim mx p q" and v: "v = decoded cd (sabs (pr_server q) key)"
  shows "\<exists>p'. tryToPutNearCache near env key v p = (Inr (), p') \<and> sim mx p' q \<and> pr_server p' = pr_server p"
proof -
  have rd: "decodable cd (sabs (pr_server q))" and eq: "sabs (pr_server p) = sabs (pr_server q)"
    using sim by (auto simp: sim_def server_decodable_def)
  obtain a where a: "pr_nearCache p = Some a" "nc_inv (data_store vc) mx (wrapped a)" "cached_records p = nc_abs (wrapped a)"
    using sim by (auto simp: sim_def elim: near_okE)
  obtain c where c: "store_toData vc v = Inr c" "agrees c (sabs (pr_server q) key)"
  proof (cases v)
    case None
    then show thesis using that v rd decodable_None [OF rd, of key]
      by (auto simp: store_toData_def agrees_def)
  next
    case (Some x)
    then have dec: "toObject_auto (v_toObject cd) (sabs (pr_server q) key) = Inr (Some x)"
      using v decodable_decode [OF rd, of key] by simp
    then obtain d where "sabs (pr_server q) key = Some d" "v_toObject cd d = Inr (Some x)"
      by (auto simp: toObject_auto_def split: option.splits)
    then obtain d' where d': "v_toData cd x = Inr d'" "v_toObject cd d' = Inr (Some x)" using recode by blast
    show thesis
      by (rule that [of "Some d'"])
        (use d' dec Some vc_codec in \<open>simp_all add: store_toData_def agrees_def toObject_auto_def\<close>)
  qed
  obtain nc' where put: "nc_put (data_store vc) (ne_evict env) (ne_put1 env) (ne_put2 env) (Some key) v (wrapped a) = (Inr (), nc')"
    "nc_inv (data_store vc) mx nc'"
    "\<forall>j r. nc_abs nc' j = Some r \<longrightarrow> nc_abs (wrapped a) j = Some r \<or> (j = key \<and> rec_value r = c)"
    using nc_put_abs [OF a(2), of "ne_evict env" "ne_put1 env" "ne_put2 env" key c] c(1)
    by (auto simp: nc_put_def rs_put_def data_store_def)
  let ?p = "p\<lparr>pr_nearCache := Some (a\<lparr>wrapped := nc'\<rparr>)\<rparr>"
  have "coherent ?p"
    using sim put(3) a(3) c(2) eq by (force simp: coherent_def sim_def cached_records_def)
  then have s1: "sim mx ?p q"
    using sim put(2) by (simp add: sim_def near_ok_def)
  obtain p' where r: "resetToUnmarkedState near key ?p = (Inr (), p')" "sim mx p' q" "pr_server p' = pr_server ?p"
    using reset_ok [OF s1] by blast
  show ?thesis
    using a(1) put(1) r by (simp add: tryToPutNearCache_def catchM_def bindM_def on_near_def aw_put_def on_wrapped_def)
qed

lemma sim_server:
  assumes "sim mx p q" "sabs s = sabs (pr_server p)" "server_ok s"
  shows "sim mx (p\<lparr>pr_server := s\<rparr>) q"
  by (rule sim_cong [OF assms(1)]) (use assms in \<open>simp_all add: sim_def near_ok_def cached_records_def\<close>)

lemma near_getInternal_ok:
  assumes sim: "sim mx p q"
  shows "\<exists>p'. near_getInternal impl cd near env key p = (Inr (decoded cd (sabs (pr_server q) key)), p') \<and> sim mx p' q"
proof -
  let ?v = "decoded cd (sabs (pr_server q) key)"
  obtain c p1 where g: "near_get near env key p = (Inr c, p1)" "sim mx p1 q"
    "c = NotCached \<or> c = (case ?v of None \<Rightarrow> NullObject | Some v \<Rightarrow> Cached v)"
    using near_get_ok [OF sim] by blast
  show ?thesis
  proof (cases "c = NotCached")
    case False
    then show ?thesis using g by (auto simp: near_getInternal_def bindM_def retM_def split: option.splits)
  next
    case True
    obtain b p2 where m: "pr_tryMark near key p1 = (Inr b, p2)" "sim mx p2 q" using near_marks(1) [OF g(2)] by blast
    have ok2: "server_ok (pr_server p2)" and eq: "sabs (pr_server p2) = sabs (pr_server q)" using m(2) by (simp_all add: sim_def)
    obtain s where s: "base_getInternal impl cd key p2 = (Inr ?v, p2\<lparr>pr_server := s\<rparr>)" "sabs s = sabs (pr_server p2)" "server_ok s"
      using base_get_ok [OF ok2, of key] eq by auto
    have s3: "sim mx (p2\<lparr>pr_server := s\<rparr>) q" using sim_server [OF m(2) s(2,3)] .
    obtain p4 where "tryToPutNearCache near env key ?v (p2\<lparr>pr_server := s\<rparr>) = (Inr (), p4)" "sim mx p4 q"
      using try_put_ok [OF s3 refl] by blast
    then show ?thesis
      using g(1) True m(1) s(1) s3 by (cases b) (simp_all add: near_getInternal_def bindM_def retM_def catchM_def)
  qed
qed

lemma write_sim:
  assumes sim: "sim mx p q" and p1: "on_server g p = (Inr x, p1)" "sabs (pr_server p1) = (sabs (pr_server p))(key := w)"
    "server_ok (pr_server p1)" and q1: "server_ok (pr_server q1)" "sabs (pr_server q1) = sabs (pr_server p1)"
  shows "\<exists>p'. invalidating near key (on_server g) p = (Inr x, p') \<and> sim mx p' q1"
proof -
  have ok: "near_ok near mx p" and co: "coherent p" using sim by (simp_all add: sim_def)
  obtain p' where p': "invalidating near key (on_server g) p = (Inr x, p')" "near_ok near mx p'" "same_server p1 p'"
    "cached_records p' = (cached_records p)(key := None)"
    using invalidating_ok [OF ok p1(1)] by blast
  have "coherent p'"
    using co p'(3,4) p1(2) by (auto simp: coherent_def same_server_def)
  then have "sim mx p' q1" using p' p1 q1 by (simp add: sim_def same_server_def)
  then show ?thesis using p'(1) by blast
qed

lemma near_put_sim:
  assumes sim: "sim mx p q" and d: "v_toObject cd d = Inr (Some v)"
  shows "\<exists>x p' q'. near_putInternal impl near key d (- 1) p = (Inr x, p') \<and> base_putInternal impl key d (- 1) q = (Inr x, q')
    \<and> toObject_auto (v_toObject cd) x = Inr (decoded cd (sabs (pr_server q) key)) \<and> sim mx p' q'"
proof -
  have ok: "server_ok (pr_server p)" "server_ok (pr_server q)" "sabs (pr_server p) = sabs (pr_server q)"
    using sim by (simp_all add: sim_def)
  obtain s1 where s1: "base_putInternal impl key d (- 1) p = (Inr (sabs (pr_server p) key), p\<lparr>pr_server := s1\<rparr>)"
    "sabs s1 = (sabs (pr_server p))(key \<mapsto> d)" "server_ok s1"
    using base_put_ok [OF ok(1) d] by blast
  obtain s2 where s2: "base_putInternal impl key d (- 1) q = (Inr (sabs (pr_server q) key), q\<lparr>pr_server := s2\<rparr>)"
    "sabs s2 = (sabs (pr_server q))(key \<mapsto> d)" "server_ok s2"
    using base_put_ok [OF ok(2) d] by blast
  have "\<exists>p'. invalidating near key (on_server (im_putData impl key d (- 1))) p = (Inr (sabs (pr_server p) key), p')
      \<and> sim mx p' (q\<lparr>pr_server := s2\<rparr>)"
    by (rule write_sim [OF sim s1(1) [unfolded base_putInternal_def]]) (use s1 s2 ok in simp_all)
  moreover have "decodable cd (sabs (pr_server q))" using ok by (simp add: server_decodable_def)
  ultimately show ?thesis
    using s2(1) ok(3) by (auto simp: near_putInternal_def base_putInternal_def decodable_decode)
qed

lemma near_remove_sim:
  assumes sim: "sim mx p q"
  shows "\<exists>x p' q'. near_removeInternal impl near key p = (Inr x, p') \<and> base_removeInternal impl key q = (Inr x, q')
    \<and> toObject_auto (v_toObject cd) x = Inr (decoded cd (sabs (pr_server q) key)) \<and> sim mx p' q'"
proof -
  have ok: "server_ok (pr_server p)" "server_ok (pr_server q)" "sabs (pr_server p) = sabs (pr_server q)"
    using sim by (simp_all add: sim_def)
  have base: "\<exists>s'. on_server (im_removeData impl key) u = (Inr (sabs (pr_server u) key), u\<lparr>pr_server := s'\<rparr>)
      \<and> sabs s' = (sabs (pr_server u))(key := None) \<and> server_ok s'" if "server_ok (pr_server u)" for u :: "('d, 'd, 'mk, 's) map_proxy"
    using removeData_law [of "pr_server u" key] that decodable_del
    by (force simp: on_server_def server_decodable_def)
  obtain s1 where s1: "on_server (im_removeData impl key) p = (Inr (sabs (pr_server p) key), p\<lparr>pr_server := s1\<rparr>)"
    "sabs s1 = (sabs (pr_server p))(key := None)" "server_ok s1"
    using base [OF ok(1)] by blast
  obtain s2 where s2: "on_server (im_removeData impl key) q = (Inr (sabs (pr_server q) key), q\<lparr>pr_server := s2\<rparr>)"
    "sabs s2 = (sabs (pr_server q))(key := None)" "server_ok s2"
    using base [OF ok(2)] by blast
  have "\<exists>p'. invalidating near key (on_server (im_removeData impl key)) p = (Inr (sabs (pr_server p) key), p')
      \<and> sim mx p' (q\<lparr>pr_server := s2\<rparr>)"
    by (rule write_sim [OF sim s1(1)]) (use s1 s2 ok in simp_all)
  moreover have "decodable cd (sabs (pr_server q))" using ok by (simp add: server_decodable_def)
  ultimately show ?thesis
    using s2(1) ok(3) by (auto simp: near_removeInternal_def base_removeInternal_def decodable_decode)
qed

lemma near_set_sim:
  assumes sim: "sim mx p q" and d: "v_toObject cd d = Inr (Some v)"
  shows "\<exists>p' q'. near_setInternal impl near key d (- 1) p = (Inr (), p') \<and> base_setInternal impl key d (- 1) q = (Inr (), q')
    \<and> sim mx p' q'"
proof -
  have ok: "server_ok (pr_server p)" "server_ok (pr_server q)" "sabs (pr_server p) = sabs (pr_server q)"
    using sim by (simp_all add: sim_def)
  have base: "\<exists>s'. on_server (im_set impl key d (- 1)) u = (Inr (), u\<lparr>pr_server := s'\<rparr>)
      \<and> sabs s' = (sabs (pr_server u))(key \<mapsto> d) \<and> server_ok s'" if "server_ok (pr_server u)" for u :: "('d, 'd, 'mk, 's) map_proxy"
    using set_law [of "pr_server u" key d] that decodable_upd [OF _ d]
    by (force simp: on_server_def server_decodable_def)
  obtain s1 where s1: "on_server (im_set impl key d (- 1)) p = (Inr (), p\<lparr>pr_server := s1\<rparr>)"
    "sabs s1 = (sabs (pr_server p))(key \<mapsto> d)" "server_ok s1"
    using base [OF ok(1)] by blast
  obtain s2 where s2: "on_server (im_set impl key d (- 1)) q = (Inr (), q\<lparr>pr_server := s2\<rparr>)"
    "sabs s2 = (sabs (pr_server q))(key \<mapsto> d)" "server_ok s2"
    using base [OF ok(2)] by blast
  have "\<exists>p'. invalidating near key (on_server (im_set impl key d (- 1))) p = (Inr (), p') \<and> sim mx p' (q\<lparr>pr_server := s2\<rparr>)"
    by (rule write_sim [OF sim s1(1)]) (use s1 s2 ok in simp_all)
  then show ?thesis
    using s2(1) by (auto simp: near_setInternal_def base_setInternal_def)
qed

lemma near_containsKey_sim:
  assumes sim: "sim mx p q"
  shows "\<exists>b p' q'. near_containsKeyInternal impl near env key p = (Inr b, p') \<and> base_containsKeyInternal impl key q = (Inr b, q')
    \<and> sim mx p' q'"
proof -
  have oq: "server_ok (pr_server q)" and rd: "decodable cd (sabs (pr_server q))" using sim by (simp_all add: sim_def server_decodable_def)
  have base: "\<exists>s'. on_server (im_containsKey impl key) u = (Inr (sabs (pr_server u) key \<noteq> None), u\<lparr>pr_server := s'\<rparr>)
      \<and> sabs s' = sabs (pr_server u) \<and> server_ok s'" if "server_ok (pr_server u)" for u :: "('d, 'd, 'mk, 's) map_proxy"
    using containsKey_law [of "pr_server u" key] that by (force simp: on_server_def server_decodable_def)
  obtain s2 where s2: "on_server (im_containsKey impl key) q = (Inr (sabs (pr_server q) key \<noteq> None), q\<lparr>pr_server := s2\<rparr>)"
    "sabs s2 = sabs (pr_server q)" "server_ok s2"
    using base [OF oq] by blast
  obtain c p1 where g: "near_get near env key p = (Inr c, p1)" "sim mx p1 q"
    "c = NotCached \<or> c = (case decoded cd (sabs (pr_server q) key) of None \<Rightarrow> NullObject | Some v \<Rightarrow> Cached v)"
    using near_get_ok [OF sim] by blast
  have right: "sim mx u (q\<lparr>pr_server := s2\<rparr>)" if "sim mx u q" for u using that s2 by (simp add: sim_def)
  show ?thesis
  proof (cases "c = NotCached")
    case True
    have "server_ok (pr_server p1)" and eq: "sabs (pr_server p1) = sabs (pr_server q)" using g(2) by (simp_all add: sim_def)
    then obtain s1 where s1: "on_server (im_containsKey impl key) p1 = (Inr (sabs (pr_server q) key \<noteq> None), p1\<lparr>pr_server := s1\<rparr>)"
      "sabs s1 = sabs (pr_server p1)" "server_ok s1"
      using base [of p1] by auto
    then show ?thesis
      using g(1) True s2(1) right [OF sim_server [OF g(2) s1(2,3)]]
      by (auto simp: near_containsKeyInternal_def base_containsKeyInternal_def bindM_def)
  next
    case False
    then have "near_containsKeyInternal impl near env key p = (Inr (sabs (pr_server q) key \<noteq> None), p1)"
      using g(1,3) decodable_None [OF rd, of key]
      by (auto simp: near_containsKeyInternal_def bindM_def retM_def split: option.splits)
    then show ?thesis using s2(1) right [OF g(2)] by (auto simp: base_containsKeyInternal_def)
  qed
qed

end

section \<open>Sequences of typed operations\<close>

datatype ('k, 'v) map_op =
    MGet near_env 'k | MContainsKey near_env 'k | MPut 'k 'v | MSet 'k 'v | MRemove 'k

datatype 'v map_answer = MValue "'v option" | MBool bool | MUnit

fun run_op :: "('d, 'k, 'v, 'f, ('d, 'c, 'mk, 's) map_proxy) map_vt \<Rightarrow> ('k, 'v, 'd, 'q, 'e, 'r) map_codec \<Rightarrow>
    ('k, 'v) map_op \<Rightarrow> ('d, 'c, 'mk, 's, 'v map_answer) pcomp" where
  "run_op vt cd (MGet env k) = bindM (mp_get vt cd env k) (\<lambda>v. retM (MValue v))"
| "run_op vt cd (MContainsKey env k) = bindM (mp_containsKey vt cd env k) (\<lambda>b. retM (MBool b))"
| "run_op vt cd (MPut k v) = bindM (mp_put vt cd k v) (\<lambda>v. retM (MValue v))"
| "run_op vt cd (MSet k v) = bindM (mp_set vt cd k v) (\<lambda>_. retM MUnit)"
| "run_op vt cd (MRemove k) = bindM (mp_remove vt cd k) (\<lambda>v. retM (MValue v))"

fun run_ops :: "('d, 'k, 'v, 'f, ('d, 'c, 'mk, 's) map_proxy) map_vt \<Rightarrow> ('k, 'v, 'd, 'q, 'e, 'r) map_codec \<Rightarrow>
    ('k, 'v) map_op list \<Rightarrow> ('d, 'c, 'mk, 's) map_proxy \<Rightarrow> 'v map_answer res list" where
  "run_ops vt cd [] p = []"
| "run_ops vt cd (x # xs) p = (case run_op vt cd x p of (r, p') \<Rightarrow> r # run_ops vt cd xs p')"

fun op_ok :: "('v \<Rightarrow> bool) \<Rightarrow> ('k, 'v) map_op \<Rightarrow> bool" where
  "op_ok valid (MPut k v) = valid v"
| "op_ok valid (MSet k v) = valid v"
| "op_ok valid _ = True"

context near_map
begin

lemma run_op_sim:
  assumes sim: "sim mx p q" and v: "op_ok valid x"
  shows "\<exists>a p' q'. run_op (NearCachedClientMapProxy_vt impl cd near) cd x p = (Inr a, p')
    \<and> run_op (ClientMapProxy_vt impl cd) cd x q = (Inr a, q') \<and> sim mx p' q'"
proof (cases x)
  case (MGet env k)
  have ok: "server_ok (pr_server q)" using sim by (simp add: sim_def)
  obtain s2 where s2: "base_getInternal impl cd (kd k) q = (Inr (decoded cd (sabs (pr_server q) (kd k))), q\<lparr>pr_server := s2\<rparr>)"
    "sabs s2 = sabs (pr_server q)" "server_ok s2"
    using base_get_ok [OF ok] by blast
  obtain p' where "near_getInternal impl cd near env (kd k) p = (Inr (decoded cd (sabs (pr_server q) (kd k))), p')" "sim mx p' q"
    using near_getInternal_ok [OF sim] by blast
  moreover from this(2) have "sim mx p' (q\<lparr>pr_server := s2\<rparr>)" using s2 by (simp add: sim_def)
  ultimately show ?thesis
    using MGet s2(1) by (simp add: mp_get_def key_data bindM_def liftR_def retM_def ClientMapProxy_vt_def NearCachedClientMapProxy_vt_def)
next
  case (MContainsKey env k)
  then show ?thesis
    using near_containsKey_sim [OF sim, of env "kd k"]
    by (auto simp: mp_containsKey_def key_data bindM_def liftR_def retM_def ClientMapProxy_vt_def NearCachedClientMapProxy_vt_def)
next
  case (MPut k u)
  then obtain d where d: "v_toData cd u = Inr d" "v_toObject cd d = Inr (Some (stored u))" using v value_data by auto
  show ?thesis
    using MPut d near_put_sim [OF sim d(2), of "kd k"]
    by (auto simp: mp_put_def mp_put_ttl_def key_data bindM_def liftR_def retM_def ClientMapProxy_vt_def NearCachedClientMapProxy_vt_def)
next
  case (MSet k u)
  then obtain d where d: "v_toData cd u = Inr d" "v_toObject cd d = Inr (Some (stored u))" using v value_data by auto
  show ?thesis
    using MSet d near_set_sim [OF sim d(2), of "kd k"]
    by (auto simp: mp_set_def mp_set_ttl_def key_data bindM_def liftR_def retM_def ClientMapProxy_vt_def NearCachedClientMapProxy_vt_def)
next
  case (MRemove k)
  then show ?thesis
    using near_remove_sim [OF sim, of "kd k"]
    by (auto simp: mp_remove_def key_data bindM_def liftR_def retM_def ClientMapProxy_vt_def NearCachedClientMapProxy_vt_def)
qed

lemma run_ops_sim:
  assumes "sim mx p q" "\<forall>x \<in> set xs. op_ok valid x"
  shows "run_ops (NearCachedClientMapProxy_vt impl cd near) cd xs p = run_ops (ClientMapProxy_vt impl cd) cd xs q
    \<and> (\<forall>r \<in> set (run_ops (ClientMapProxy_vt impl cd) cd xs q). is_ok r)"
  using assms
proof (induction xs arbitrary: p q)
  case (Cons x xs)
  obtain a p' q' where "run_op (NearCachedClientMapProxy_vt impl cd near) cd x p = (Inr a, p')"
    "run_op (ClientMapProxy_vt impl cd) cd x q = (Inr a, q')" "sim mx p' q'"
    using run_op_sim [OF Cons.prems(1), of x] Cons.prems(2) by auto
  then show ?case using Cons.IH [of p' q'] Cons.prems(2) by simp
qed simp

end

section \<open>A reference cluster\<close>

text \<open>
  A single-threaded map of serialized entries that answers as the documentation of \<open>IMap\<close> says, used
  to instantiate the contract. Predicates are functions on entries; entry processors and
  asynchronous calls, which run on other machines, are refused.
\<close>

definition answer_with :: "('s \<Rightarrow> 'a \<times> 's) \<Rightarrow> ('s, 'a) comp" where
  "answer_with f s = (case f s of (a, s') \<Rightarrow> (Inr a, s'))"

definition ref_entries :: "(('d \<times> 'd) \<Rightarrow> bool) option \<Rightarrow> ('d, 'd) sync_map \<Rightarrow> ('d \<times> 'd) list" where
  "ref_entries q m = [(k, v). (k, Some v) \<leftarrow> m, case q of None \<Rightarrow> True | Some f \<Rightarrow> f (k, v)]"

definition ref_put :: "'d::linorder \<Rightarrow> 'd \<Rightarrow> ('d, 'd) sync_map \<Rightarrow> 'd option \<times> ('d, 'd) sync_map" where
  "ref_put k v m = sm_put k (Some v) m"

definition reference_cluster :: "('d \<Rightarrow> int) \<Rightarrow> (('d::linorder, 'd) sync_map, 'd, ('d \<times> 'd) \<Rightarrow> bool, 'f) IMapImpl" where
  "reference_cluster partitionOf =
     \<lparr>im_containsKey = (\<lambda>k. answer_with (\<lambda>m. (sm_containsKey k m, m))),
      im_containsValue = (\<lambda>v. answer_with (\<lambda>m. (Some v \<in> set (sm_values m), m))),
      im_getData = (\<lambda>k. answer_with (\<lambda>m. (sm_get k m, m))),
      im_putData = (\<lambda>k v t. answer_with (ref_put k v)),
      im_removeData = (\<lambda>k. answer_with (sm_remove k)),
      im_remove = (\<lambda>k v. answer_with (\<lambda>m. if sm_get k m = Some v then (True, snd (sm_remove k m)) else (False, m))),
      im_removeAll = (\<lambda>q. throwM UnsupportedOperationException),
      im_deleteEntry = (\<lambda>k. answer_with (\<lambda>m. ((), snd (sm_remove k m)))),
      im_flush = retM (),
      im_tryRemove = (\<lambda>k t. answer_with (\<lambda>m. (True, snd (sm_remove k m)))),
      im_tryPut = (\<lambda>k v t. answer_with (\<lambda>m. (True, snd (ref_put k v m)))),
      im_putTransient = (\<lambda>k v t. answer_with (\<lambda>m. ((), snd (ref_put k v m)))),
      im_putIfAbsentData = (\<lambda>k v t. answer_with (\<lambda>m. if sm_containsKey k m then (sm_get k m, m) else ref_put k v m)),
      im_replace = (\<lambda>k v w. answer_with (\<lambda>m. if sm_get k m = Some v then (True, snd (ref_put k w m)) else (False, m))),
      im_replaceData = (\<lambda>k v. answer_with (\<lambda>m. if sm_containsKey k m then ref_put k v m else (None, m))),
      im_set = (\<lambda>k v t. answer_with (\<lambda>m. ((), snd (ref_put k v m)))),
      im_lock = (\<lambda>k t. retM ()), im_isLocked = (\<lambda>k. retM False), im_tryLock = (\<lambda>k t. retM True),
      im_unlock = (\<lambda>k. retM ()), im_forceUnlock = (\<lambda>k. retM ()),
      im_evict = (\<lambda>k. answer_with (\<lambda>m. (sm_containsKey k m, snd (sm_remove k m)))),
      im_evictAll = answer_with (\<lambda>m. ((), [])),
      im_getAllData = (\<lambda>parts. answer_with (\<lambda>m.
         ([(k, v). (pid, ks) \<leftarrow> parts, k \<leftarrow> ks, v \<leftarrow> (case sm_get k m of None \<Rightarrow> [] | Some v \<Rightarrow> [v])], m))),
      im_keySetData = (\<lambda>q. answer_with (\<lambda>m. (map fst (ref_entries q m), m))),
      im_valuesData = (\<lambda>q. answer_with (\<lambda>m. (map snd (ref_entries q m), m))),
      im_entrySetData = (\<lambda>q. answer_with (\<lambda>m. (ref_entries q m, m))),
      im_addIndex = (\<lambda>a b. retM ()),
      im_size = answer_with (\<lambda>m. (int (sm_size m), m)),
      im_isEmpty = answer_with (\<lambda>m. (sm_size m = 0, m)),
      im_putAllData = (\<lambda>parts. answer_with (\<lambda>m. ((), fold (\<lambda>(k, v) m. snd (ref_put k v m)) (concat (map snd parts)) m))),
      im_clear = answer_with (\<lambda>m. ((), snd (sm_clear m))),
      im_executeOnKeyData = (\<lambda>k e. throwM UnsupportedOperationException),
      im_executeOnKeysData = (\<lambda>ks e. throwM UnsupportedOperationException),
      im_executeOnEntriesData = (\<lambda>e q. throwM UnsupportedOperationException),
      im_invokeGet = (\<lambda>k. throwM UnsupportedOperationException),
      im_invokeRemove = (\<lambda>k. throwM UnsupportedOperationException),
      im_putAsyncData = (\<lambda>ttl u mi mu k v. throwM UnsupportedOperationException),
      im_setAsyncData = (\<lambda>ttl u mi mu k v. throwM UnsupportedOperationException),
      im_getPartitionId = partitionOf\<rparr>"

definition ref_ok :: "('d::linorder, 'd) sync_map \<Rightarrow> bool" where
  "ref_ok m = (sm_ok m \<and> sm_full m)"

lemma ref_remove:
  assumes "ref_ok m"
  shows "\<exists>m'. sm_remove k m = (sm_abs m k, m') \<and> ref_ok m' \<and> sm_abs m' = (sm_abs m)(k := None)"
proof -
  obtain r m' where rm: "sm_remove k m = (r, m')" by fastforce
  have ok: "sm_ok m" "sm_full m" using assms by (simp_all add: ref_ok_def)
  show ?thesis using rm_evict_step [OF ok rm] rm by (auto simp: ref_ok_def fun_eq_iff)
qed

lemma ref_put_step:
  assumes "ref_ok m"
  shows "\<exists>m'. ref_put k v m = (sm_abs m k, m') \<and> ref_ok m' \<and> sm_abs m' = (sm_abs m)(k \<mapsto> v)"
proof -
  have ok: "sm_ok m" "sm_full m" using assms by (simp_all add: ref_ok_def)
  have "sm_put k (Some v) m = (sm_get k m, sm_assign k (Some v) m)" by (simp add: sm_put_def sm_get_def)
  then show ?thesis
    using ok by (auto simp: ref_put_def ref_ok_def sync.get_law sm_full_assign sm_abs_def fun_eq_iff sm_at_def)
qed

interpretation ref: imap_server "reference_cluster partitionOf" sm_abs ref_ok for partitionOf :: "'d::linorder \<Rightarrow> int"
proof unfold_locales
  fix m :: "('d, 'd) sync_map" and k v :: 'd
  assume ok: "ref_ok m"
  note impl = reference_cluster_def answer_with_def
  have "sm_get k m = sm_abs m k" using ok by (simp add: sync.get_law ref_ok_def)
  then show "\<exists>s'. im_getData (reference_cluster partitionOf) k m = (Inr (sm_abs m k), s') \<and> sm_abs s' = sm_abs m \<and> ref_ok s'"
    using ok by (simp add: impl)
  have "sm_containsKey k m \<longleftrightarrow> sm_abs m k \<noteq> None"
    using ok sm_full_at [of m k] by (auto simp: ref_ok_def sm_abs_def sm_at_def sm_containsKey_def split: option.splits)
  then show "\<exists>s'. im_containsKey (reference_cluster partitionOf) k m = (Inr (sm_abs m k \<noteq> None), s') \<and> sm_abs s' = sm_abs m \<and> ref_ok s'"
    using ok by (simp add: impl)
  show "\<exists>s'. im_putData (reference_cluster partitionOf) k v (- 1) m = (Inr (sm_abs m k), s') \<and> sm_abs s' = (sm_abs m)(k \<mapsto> v) \<and> ref_ok s'"
    "\<exists>s'. im_set (reference_cluster partitionOf) k v (- 1) m = (Inr (), s') \<and> sm_abs s' = (sm_abs m)(k \<mapsto> v) \<and> ref_ok s'"
    using ref_put_step [OF ok, of k v] by (auto simp: impl)
  show "\<exists>s'. im_removeData (reference_cluster partitionOf) k m = (Inr (sm_abs m k), s') \<and> sm_abs s' = (sm_abs m)(k := None) \<and> ref_ok s'"
    using ref_remove [OF ok, of k] by (auto simp: impl)
  show "\<exists>s'. im_clear (reference_cluster partitionOf) m = (Inr (), s') \<and> sm_abs s' = Map.empty \<and> ref_ok s'"
    by (simp add: impl sm_clear_def ref_ok_def sm_full_def sm_abs_def [abs_def] sm_at_def)
qed

section \<open>Properties of the near cached proxy\<close>

text \<open>Serialized forms that are the values themselves, for examples.\<close>

definition plain_codec :: "('a, 'a, 'a, ('a \<times> 'a) \<Rightarrow> bool, 'a, 'a) map_codec" where
  "plain_codec = \<lparr>k_toData = Inr, v_toData = Inr, q_toData = (\<lambda>_. Inl UnsupportedOperationException), e_toData = Inr,
     k_toObject = (\<lambda>d. Inr (Some d)), v_toObject = (\<lambda>d. Inr (Some d)), r_toObject = (\<lambda>d. Inr (Some d))\<rparr>"

definition plain_values :: "('a, 'a, 'a) value_codec" where
  "plain_values = \<lparr>vc_toData = Inr, vc_toObject = (\<lambda>d. Inr (Some d)), vc_keySize = (\<lambda>_. 1), vc_dataSize = (\<lambda>_. 1),
     vc_referenceSize = 8, vc_atomic64Size = 8, vc_atomic32Size = 4\<rparr>"

text \<open>A marker with one slot per key, as \<open>KeyStateMarker.h\<close> names the states.\<close>

definition slot_marker :: "('k \<Rightarrow> key_state, 'k) marker_ops" where
  "slot_marker =
     \<lparr>tryMark = (\<lambda>k m. if m k = UNMARKED then (True, m(k := MARKED)) else (False, m)),
      tryUnmark = (\<lambda>k m. if m k = MARKED then (True, m(k := UNMARKED)) else (False, m)),
      tryRemove = (\<lambda>k m. if m k = MARKED then (True, m(k := REMOVED)) else (False, m)),
      forceUnmark = (\<lambda>k m. m(k := UNMARKED)),
      marker_init = (\<lambda>m k. UNMARKED)\<rparr>"

interpretation plain: near_map "reference_cluster partitionOf" sm_abs ref_ok plain_codec id "\<lambda>_. True" id plain_values slot_marker
  for partitionOf :: "'d::linorder \<Rightarrow> int"
  by unfold_locales (auto simp: plain_codec_def plain_values_def)

text \<open>An environment whose clock stands at 5.\<close>

definition quiet_env :: near_env where
  "quiet_env = \<lparr>ne_get1 = 5, ne_get2 = 5, ne_put1 = 5, ne_put2 = 5, ne_evict = \<lparr>env_rand = 0, env_now = 5\<rparr>\<rparr>"

text \<open>A proxy over a fresh near cache.\<close>

definition fresh_proxy :: "('d, 'c, 'mk) aware_cache \<Rightarrow> 's \<Rightarrow> ('d, 'c, 'mk, 's) map_proxy" where
  "fresh_proxy a s = \<lparr>pr_server = s, pr_nearCache = Some a, pr_invalidateOnChange = True, pr_listenerId = []\<rparr>"

lemma fresh_proxy_ok:
  assumes "nc_inv (no_kind no) mx nc" "nc_abs nc = (\<lambda>_. None)"
  shows "near_ok no mx (fresh_proxy \<lparr>wrapped = nc, keyStateMarker = m\<rparr> s)"
    "cached_records (fresh_proxy \<lparr>wrapped = nc, keyStateMarker = m\<rparr> s) = (\<lambda>_. None)"
  using assms by (simp_all add: fresh_proxy_def near_ok_def cached_records_def)



text \<open>A proxy whose near cache holds the value 9 for the key 7, for examples.\<close>

definition warm_proxy :: "(nat, nat, nat \<Rightarrow> key_state, (nat, nat) sync_map) map_proxy" where
  "warm_proxy = fresh_proxy \<lparr>wrapped = (DefaultNearCache NearCacheConfig_default)\<lparr>nearCacheRecordStore :=
       Some ((one_record (NearCacheRecord_new (Some 9) 0 TIME_NOT_SET))\<lparr>maxSizeChecker := Some 5, nearCacheStats := [IncOwnedEntryCount]\<rparr>)\<rparr>,
     keyStateMarker = (\<lambda>_. UNMARKED)\<rparr> [(7, Some 9)]"

abbreviation (input) object_ops :: "(nat, nat, nat, nat \<Rightarrow> key_state) near_ops" where
  "object_ops \<equiv> \<lparr>no_kind = object_store plain_values, no_marker = slot_marker\<rparr>"

lemma warm_proxy_ok: "near_ok object_ops 5 warm_proxy"
  by (simp add: warm_proxy_def fresh_proxy_def near_ok_def nc_inv_def store_inv_def one_record_def stats_agree_def sm_full_def
      sm_size_def ownedEntryCount_def ownedEntryMemoryCost_def getTotalStorageMemoryCost_def object_store_def cap_ok_def
      INT32_MAX_def st_map_def isEvictionEnabled_def RecordStore_new_def)

lemma warm_proxy_get: "\<exists>p1. near_get object_ops env 7 warm_proxy = (Inr (Cached 9), p1)"
  by (simp add: warm_proxy_def fresh_proxy_def near_get_def on_near_def aw_get_def on_wrapped_def nc_get_def on_store_def rs_get_def
      with_records_def one_record_def sm_get_def sm_at_def sm_containsKey_def isRecordExpired_def isExpiredAt_def
      isIdleAt_def NearCacheRecord_new_def TIME_NOT_SET_def RecordStore_new_def NearCacheConfig_default_def
      DEFAULT_MAX_IDLE_SECONDS_def MILLI_SECONDS_IN_A_SECOND_def wrap32_id Let_def object_store_def object_recordToValue_def
      onRecordAccess_def incrementAccessHit_def setAccessTime_def)

text \<open>A cluster that performs a \<open>replace\<close> and then answers with an exception.\<close>

definition failing_replace :: "((nat, nat) sync_map, nat, nat \<times> nat \<Rightarrow> bool, unit) IMapImpl" where
  "failing_replace = (reference_cluster (\<lambda>_. 0))\<lparr>im_replaceData := (\<lambda>k v m. (Inl (RemoteException 1), snd (ref_put k v m)))\<rparr>"

text \<open>When the cluster answers a \<open>replace\<close> with an exception, the record that the near cache holds for the key stays, unlike
  after every other failed write: a later read is still answered from it.\<close>

theorem failed_replace_keeps_record:
  assumes "im_replaceData impl key v (pr_server p) = (Inl e, s')"
  shows "near_replaceInternal impl no key v p = (Inl e, p\<lparr>pr_server := s'\<rparr>)
    \<and> cached_records (p\<lparr>pr_server := s'\<rparr>) = cached_records p"
  using assms by (simp add: near_replaceInternal_def base_replaceInternal_def bindM_def on_server_def cached_records_def)

theorem failed_replace_keeps_record_witness:
  "\<exists>p. near_replaceInternal failing_replace object_ops 7 6 warm_proxy = (Inl (RemoteException 1), p)
     \<and> pr_server p = [(7, Some 6)] \<and> cached_records p = cached_records warm_proxy"
proof -
  have "im_replaceData failing_replace 7 6 (pr_server warm_proxy) = (Inl (RemoteException 1), [(7, Some 6)])"
    by (simp add: failing_replace_def warm_proxy_def fresh_proxy_def ref_put_def sm_put_def sm_at_def)
  from failed_replace_keeps_record [OF this, of object_ops] show ?thesis by auto
qed

text \<open>\<open>clear\<close> and \<open>evictAll\<close> of a near cached map do not touch the near cache: whatever it would have answered before the
  cluster's map was emptied, it answers afterwards.\<close>

theorem clear_keeps_near_cache_answers:
  assumes "near_get no env (kd k) p = (Inr (Cached v), p1)" "k_toData cd k = Inr (kd k)"
    and "op \<in> {mp_clear impl, mp_evictAll impl}" "op p = (Inr (), p')"
  shows "fst (mp_get (NearCachedClientMapProxy_vt impl cd no) cd env k p') = Inr (Some v)"
proof -
  have "pr_nearCache p' = pr_nearCache p"
    using assms(3,4) by (auto simp: mp_clear_def mp_evictAll_def on_server_def split: prod.splits)
  then have "fst (near_get no env (kd k) p') = Inr (Cached v)"
    using assms(1) by (auto simp: near_get_def on_near_def split: option.splits prod.splits)
  then show ?thesis
    using assms(2)
    by (auto simp: mp_get_def NearCachedClientMapProxy_vt_def near_getInternal_def bindM_def liftR_def retM_def
        split: prod.splits)
qed

theorem clear_keeps_near_cache_answers_witness:
  "fst (mp_get (NearCachedClientMapProxy_vt (reference_cluster (\<lambda>_. 0)) plain_codec object_ops) plain_codec quiet_env 7
      (snd (mp_clear (reference_cluster (\<lambda>_. 0)) warm_proxy))) = Inr (Some 9)"
proof -
  obtain p1 where p1: "near_get object_ops quiet_env 7 warm_proxy = (Inr (Cached 9), p1)" using warm_proxy_get by blast
  show ?thesis
    by (rule clear_keeps_near_cache_answers [where kd = id and p = warm_proxy and op = "mp_clear (reference_cluster (\<lambda>_. 0))"])
      (use p1 in \<open>simp_all add: plain_codec_def mp_clear_def reference_cluster_def answer_with_def on_server_def\<close>)
qed



end
