(* ===== verification/Hz_Wire.thy ===== *)
theory Hz_Wire
  imports Hz_Prelude
begin

text \<open>
  The byte layer of the client library: byte-order conversion (\<open>util/Bits.h\<close>), the cursor over a
  little-endian message buffer (\<open>util/LittleEndianBufferWrapper.h\<close>) and the generic element,
  nullable, pair and array encodings of \<open>protocol/ClientMessage.h\<close>. The flag \<open>be\<close> is the platform's
  \<open>HZ_BIG_ENDIAN\<close>.
\<close>

section \<open>Memory and byte order (Bits.h)\<close>

fun le_val :: "byte list \<Rightarrow> nat" where
  "le_val [] = 0"
| "le_val (b # bs) = unat b + 256 * le_val bs"

fun le_bytes :: "nat \<Rightarrow> nat \<Rightarrow> byte list" where
  "le_bytes 0 v = []"
| "le_bytes (Suc n) v = word_of_nat v # le_bytes n (v div 256)"

text \<open>Reading and writing an unsigned integer in the platform's own order.\<close>

definition mem_load :: "bool \<Rightarrow> byte list \<Rightarrow> nat" where
  "mem_load be bs = le_val (if be then rev bs else bs)"

definition mem_store :: "bool \<Rightarrow> nat \<Rightarrow> nat \<Rightarrow> byte list" where
  "mem_store be n v = (if be then rev (le_bytes n v) else le_bytes n v)"

definition bswap :: "nat \<Rightarrow> nat \<Rightarrow> nat" where
  "bswap n v = le_val (rev (le_bytes n v))"

text \<open>The swaps and conversions; each reads the source bytes and yields the target bytes.\<close>

definition swap_2 :: "bool \<Rightarrow> byte list \<Rightarrow> byte list" where
  "swap_2 be orig = mem_store be 2 (bswap 2 (mem_load be orig))"

definition swap_4 :: "bool \<Rightarrow> byte list \<Rightarrow> byte list" where
  "swap_4 be orig = mem_store be 4 (bswap 4 (mem_load be orig))"

definition swap_8 :: "bool \<Rightarrow> byte list \<Rightarrow> byte list" where
  "swap_8 be orig = mem_store be 8 (bswap 8 (mem_load be orig))"

definition swapInplace4 :: "bool \<Rightarrow> byte list \<Rightarrow> byte list" where
  "swapInplace4 be orig = (let value = mem_load be orig in swap_4 be (mem_store be 4 value))"

definition littleEndianToNative2 :: "bool \<Rightarrow> byte list \<Rightarrow> byte list" where
  "littleEndianToNative2 be source =
     (if be then swap_2 be source else mem_store be 2 (mem_load be source))"

definition littleEndianToNative4 :: "bool \<Rightarrow> byte list \<Rightarrow> byte list" where
  "littleEndianToNative4 be source =
     (if be then swap_4 be source else mem_store be 4 (mem_load be source))"

definition littleEndianToNative8 :: "bool \<Rightarrow> byte list \<Rightarrow> byte list" where
  "littleEndianToNative8 be source =
     (if be then swap_8 be source else mem_store be 8 (mem_load be source))"

definition nativeToLittleEndian2 :: "bool \<Rightarrow> byte list \<Rightarrow> byte list" where
  "nativeToLittleEndian2 be source =
     (if be then swap_2 be source else mem_store be 2 (mem_load be source))"

definition nativeToLittleEndian4 :: "bool \<Rightarrow> byte list \<Rightarrow> byte list" where
  "nativeToLittleEndian4 be source =
     (if be then swap_4 be source else mem_store be 4 (mem_load be source))"

definition nativeToLittleEndian8 :: "bool \<Rightarrow> byte list \<Rightarrow> byte list" where
  "nativeToLittleEndian8 be source =
     (if be then swap_8 be source else mem_store be 8 (mem_load be source))"

definition bigEndianToNative2 :: "bool \<Rightarrow> byte list \<Rightarrow> byte list" where
  "bigEndianToNative2 be source =
     (if be then mem_store be 2 (mem_load be source) else swap_2 be source)"

definition bigEndianToNative4 :: "bool \<Rightarrow> byte list \<Rightarrow> byte list" where
  "bigEndianToNative4 be source =
     (if be then mem_store be 4 (mem_load be source) else swap_4 be source)"

definition bigEndianToNative8 :: "bool \<Rightarrow> byte list \<Rightarrow> byte list" where
  "bigEndianToNative8 be source =
     (if be then mem_store be 8 (mem_load be source) else swap_8 be source)"

definition nativeToBigEndian2 :: "bool \<Rightarrow> byte list \<Rightarrow> byte list" where
  "nativeToBigEndian2 be source =
     (if be then mem_store be 2 (mem_load be source) else swap_2 be source)"

definition nativeToBigEndian4 :: "bool \<Rightarrow> byte list \<Rightarrow> byte list" where
  "nativeToBigEndian4 be source =
     (if be then mem_store be 4 (mem_load be source) else swap_4 be source)"

definition nativeToBigEndian8 :: "bool \<Rightarrow> byte list \<Rightarrow> byte list" where
  "nativeToBigEndian8 be source =
     (if be then mem_store be 8 (mem_load be source) else swap_8 be source)"

fun littleEndianToNativeArray4 :: "bool \<Rightarrow> nat \<Rightarrow> byte list \<Rightarrow> byte list" where
  "littleEndianToNativeArray4 be 0 buf = buf"
| "littleEndianToNativeArray4 be (Suc len) buf =
     (if be then swapInplace4 be (take 4 buf) @ littleEndianToNativeArray4 be len (drop 4 buf)
      else buf)"

definition readIntB :: "bool \<Rightarrow> byte list \<Rightarrow> nat \<Rightarrow> int32_t res" where
  "readIntB be buffer pos =
     (if pos + 4 \<le> length buffer then
        (let source = take 4 (drop pos buffer)
         in Inr (word_of_nat (mem_load be (if be then source else swap_4 be source))))
      else Inl OutOfBounds)"

section \<open>The message buffer (LittleEndianBufferWrapper.h)\<close>

record le_buffer =
  buffer :: "byte list"
  capacity :: int
  index :: int
  readOnly :: bool

definition LittleEndianBufferWrapper :: "int \<Rightarrow> le_buffer" where
  "LittleEndianBufferWrapper sz =
     \<lparr>buffer = replicate (nat sz) 0, capacity = -1, index = -1, readOnly = True\<rparr>"

definition wrapForWrite :: "int \<Rightarrow> int \<Rightarrow> le_buffer \<Rightarrow> le_buffer" where
  "wrapForWrite sz offset s = s\<lparr>capacity := sz, index := offset, readOnly := False\<rparr>"

definition wrapForRead :: "int \<Rightarrow> int \<Rightarrow> le_buffer \<Rightarrow> le_buffer" where
  "wrapForRead sz offset s = s\<lparr>capacity := sz, index := offset, readOnly := True\<rparr>"

definition checkAvailable_buf :: "int \<Rightarrow> le_buffer \<Rightarrow> bool" where
  "checkAvailable_buf requestedBytes s = (wrap32 (index s + requestedBytes) \<le> capacity s)"

definition checkReadAvailable :: "int \<Rightarrow> le_buffer \<Rightarrow> bool" where
  "checkReadAvailable requestedBytes s =
     (if \<not> readOnly s then False else checkAvailable_buf requestedBytes s)"

definition checkWriteAvailable :: "int \<Rightarrow> le_buffer \<Rightarrow> bool" where
  "checkWriteAvailable requestedBytes s =
     (if readOnly s then False else checkAvailable_buf requestedBytes s)"

definition assertM :: "('s \<Rightarrow> bool) \<Rightarrow> ('s, unit) comp" where
  "assertM p s = (if p s then (Inr (), s) else (Inl AssertionFailure, s))"

text \<open>Access through \<open>ix()\<close>: outside the vector it is undefined.\<close>

definition ix_read :: "nat \<Rightarrow> (le_buffer, byte list) comp" where
  "ix_read n s =
     (if 0 \<le> index s \<and> nat (index s) + n \<le> length (buffer s)
      then (Inr (take n (drop (nat (index s)) (buffer s))), s) else (Inl OutOfBounds, s))"

definition ix_write :: "byte list \<Rightarrow> (le_buffer, unit) comp" where
  "ix_write bs s =
     (if 0 \<le> index s \<and> nat (index s) + length bs \<le> length (buffer s)
      then (Inr (), s\<lparr>buffer := take (nat (index s)) (buffer s) @ bs
                       @ drop (nat (index s) + length bs) (buffer s)\<rparr>)
      else (Inl OutOfBounds, s))"

definition advance :: "int \<Rightarrow> (le_buffer, unit) comp" where
  "advance n s = (Inr (), s\<lparr>index := wrap32 (index s + n)\<rparr>)"

subsection \<open>Getters\<close>

definition getUint8 :: "(le_buffer, byte) comp" where
  "getUint8 = bindM (assertM (checkReadAvailable 1)) (\<lambda>_.
     bindM (ix_read 1) (\<lambda>bs. bindM (advance 1) (\<lambda>_. retM (hd bs))))"

definition getInt8 :: "(le_buffer, byte) comp" where
  "getInt8 = bindM (assertM (checkReadAvailable 1)) (\<lambda>_.
     bindM (ix_read 1) (\<lambda>bs. bindM (advance 1) (\<lambda>_. retM (hd bs))))"

definition getBoolean :: "(le_buffer, bool) comp" where
  "getBoolean = bindM getUint8 (\<lambda>b. retM (0 \<noteq> b))"

definition getUint16 :: "bool \<Rightarrow> (le_buffer, 16 word) comp" where
  "getUint16 be = bindM (assertM (checkReadAvailable 2)) (\<lambda>_.
     bindM (ix_read 2) (\<lambda>bs. bindM (advance 2) (\<lambda>_.
       retM (word_of_nat (mem_load be (littleEndianToNative2 be bs))))))"

definition getInt16 :: "bool \<Rightarrow> (le_buffer, 16 word) comp" where
  "getInt16 be = bindM (assertM (checkReadAvailable 2)) (\<lambda>_.
     bindM (ix_read 2) (\<lambda>bs. bindM (advance 2) (\<lambda>_.
       retM (word_of_nat (mem_load be (littleEndianToNative2 be bs))))))"

definition getUint32 :: "bool \<Rightarrow> (le_buffer, 32 word) comp" where
  "getUint32 be = bindM (assertM (checkReadAvailable 4)) (\<lambda>_.
     bindM (ix_read 4) (\<lambda>bs. bindM (advance 4) (\<lambda>_.
       retM (word_of_nat (mem_load be (littleEndianToNative4 be bs))))))"

definition getInt32 :: "bool \<Rightarrow> (le_buffer, int32_t) comp" where
  "getInt32 be = bindM (assertM (checkReadAvailable 4)) (\<lambda>_.
     bindM (ix_read 4) (\<lambda>bs. bindM (advance 4) (\<lambda>_.
       retM (word_of_nat (mem_load be (littleEndianToNative4 be bs))))))"

definition getUint64 :: "bool \<Rightarrow> (le_buffer, 64 word) comp" where
  "getUint64 be = bindM (assertM (checkReadAvailable 8)) (\<lambda>_.
     bindM (ix_read 8) (\<lambda>bs. bindM (advance 8) (\<lambda>_.
       retM (word_of_nat (mem_load be (littleEndianToNative8 be bs))))))"

definition getInt64 :: "bool \<Rightarrow> (le_buffer, int64_t) comp" where
  "getInt64 be = bindM (assertM (checkReadAvailable 8)) (\<lambda>_.
     bindM (ix_read 8) (\<lambda>bs. bindM (advance 8) (\<lambda>_.
       retM (word_of_nat (mem_load be (littleEndianToNative8 be bs))))))"

text \<open>\<open>getBytes\<close> returns a pointer into the buffer: its offset.\<close>

definition getBytes :: "int \<Rightarrow> (le_buffer, int) comp" where
  "getBytes len = bindM (assertM (checkReadAvailable len)) (\<lambda>_ s.
     let result = index s in bindM (advance len) (\<lambda>_. retM result) s)"

text \<open>
  The string is copied after the cursor has moved; \<open>std::string(start, len)\<close> with a negative
  length, converted to a huge \<open>size_t\<close>, throws \<open>std::length_error\<close>.
\<close>

definition getStringUtf8 :: "bool \<Rightarrow> (le_buffer, byte list) comp" where
  "getStringUtf8 be = bindM (getInt32 be) (\<lambda>w. let len = sint w in
     bindM (assertM (checkReadAvailable len)) (\<lambda>_ s.
       let start = index s in
       bindM (advance len) (\<lambda>_ s'.
         if len < 0 then (Inl LengthError, s')
         else (fst (ix_read (nat len) (s'\<lparr>index := start\<rparr>)), s')) s))"

subsection \<open>Setters\<close>

definition set_uint8 :: "byte \<Rightarrow> (le_buffer, unit) comp" where
  "set_uint8 value = bindM (assertM (checkWriteAvailable 1)) (\<lambda>_.
     bindM (ix_write [value]) (\<lambda>_. advance 1))"

definition set_int8 :: "byte \<Rightarrow> (le_buffer, unit) comp" where
  "set_int8 value = bindM (assertM (checkWriteAvailable 1)) (\<lambda>_.
     bindM (ix_write [value]) (\<lambda>_. advance 1))"

definition set_bool :: "bool \<Rightarrow> (le_buffer, unit) comp" where
  "set_bool value = bindM (assertM (checkWriteAvailable 1)) (\<lambda>_.
     if value then set_uint8 1 else set_uint8 0)"

definition set_char :: "byte \<Rightarrow> (le_buffer, unit) comp" where
  "set_char value = set_int8 value"

definition set_uint16 :: "bool \<Rightarrow> 16 word \<Rightarrow> (le_buffer, unit) comp" where
  "set_uint16 be value = bindM (assertM (checkWriteAvailable 2)) (\<lambda>_.
     bindM (ix_write (nativeToLittleEndian2 be (mem_store be 2 (unat value)))) (\<lambda>_. advance 2))"

definition set_int16 :: "bool \<Rightarrow> 16 word \<Rightarrow> (le_buffer, unit) comp" where
  "set_int16 be value = bindM (assertM (checkWriteAvailable 2)) (\<lambda>_.
     bindM (ix_write (nativeToLittleEndian2 be (mem_store be 2 (unat value)))) (\<lambda>_. advance 2))"

definition set_uint32 :: "bool \<Rightarrow> 32 word \<Rightarrow> (le_buffer, unit) comp" where
  "set_uint32 be value = bindM (assertM (checkWriteAvailable 4)) (\<lambda>_.
     bindM (ix_write (nativeToLittleEndian4 be (mem_store be 4 (unat value)))) (\<lambda>_. advance 4))"

definition set_int32 :: "bool \<Rightarrow> int32_t \<Rightarrow> (le_buffer, unit) comp" where
  "set_int32 be value = bindM (assertM (checkWriteAvailable 4)) (\<lambda>_.
     bindM (ix_write (nativeToLittleEndian4 be (mem_store be 4 (unat value)))) (\<lambda>_. advance 4))"

definition set_uint64 :: "bool \<Rightarrow> 64 word \<Rightarrow> (le_buffer, unit) comp" where
  "set_uint64 be value = bindM (assertM (checkWriteAvailable 8)) (\<lambda>_.
     bindM (ix_write (nativeToLittleEndian8 be (mem_store be 8 (unat value)))) (\<lambda>_. advance 8))"

definition set_int64 :: "bool \<Rightarrow> int64_t \<Rightarrow> (le_buffer, unit) comp" where
  "set_int64 be value = bindM (assertM (checkWriteAvailable 8)) (\<lambda>_.
     bindM (ix_write (nativeToLittleEndian8 be (mem_store be 8 (unat value)))) (\<lambda>_. advance 8))"

text \<open>\<open>memcpy\<close> of \<open>len\<close> bytes out of \<open>value\<close>, which must hold that many.\<close>

definition setBytes :: "byte list \<Rightarrow> int \<Rightarrow> (le_buffer, unit) comp" where
  "setBytes value len = bindM (assertM (checkWriteAvailable len)) (\<lambda>_.
     bindM (if to_uint64 len \<le> length value then ix_write (take (to_uint64 len) value)
            else throwM OutOfBounds) (\<lambda>_. advance len))"

definition set_string :: "bool \<Rightarrow> byte list \<Rightarrow> (le_buffer, unit) comp" where
  "set_string be value = (let len = word_of_nat (length value) :: int32_t in
     bindM (set_int32 be len) (\<lambda>_. setBytes value (sint len)))"

section \<open>Generic encodings (ClientMessage.h)\<close>

definition setNullable :: "('a \<Rightarrow> (le_buffer, unit) comp) \<Rightarrow> 'a option \<Rightarrow> (le_buffer, unit) comp" where
  "setNullable setT value = bindM (set_bool (value = None)) (\<lambda>_.
     case value of None \<Rightarrow> retM () | Some v \<Rightarrow> setT v)"

definition set_pair :: "('a \<Rightarrow> (le_buffer, unit) comp) \<Rightarrow> ('b \<Rightarrow> (le_buffer, unit) comp) \<Rightarrow>
    'a \<times> 'b \<Rightarrow> (le_buffer, unit) comp" where
  "set_pair setK setV entry = bindM (setK (fst entry)) (\<lambda>_. setV (snd entry))"

fun set_each :: "('a \<Rightarrow> (le_buffer, unit) comp) \<Rightarrow> 'a list \<Rightarrow> (le_buffer, unit) comp" where
  "set_each setT [] = retM ()"
| "set_each setT (v # vs) = bindM (setT v) (\<lambda>_. set_each setT vs)"

definition setArray :: "bool \<Rightarrow> ('a \<Rightarrow> (le_buffer, unit) comp) \<Rightarrow> 'a list \<Rightarrow> (le_buffer, unit) comp" where
  "setArray be setT values = (let len = word_of_nat (length values) :: int32_t in
     bindM (set_int32 be len) (\<lambda>_. if 0 < sint len then set_each setT values else retM ()))"

definition setArray_ptr :: "bool \<Rightarrow> ('a \<Rightarrow> (le_buffer, unit) comp) \<Rightarrow> 'a list option \<Rightarrow> (le_buffer, unit) comp" where
  "setArray_ptr be setT value = bindM (set_bool (value = None)) (\<lambda>_.
     case value of None \<Rightarrow> retM () | Some vs \<Rightarrow> setArray be setT vs)"

definition getEntry_msg :: "(le_buffer, 'a) comp \<Rightarrow> (le_buffer, 'b) comp \<Rightarrow> (le_buffer, 'a \<times> 'b) comp" where
  "getEntry_msg getK getV = bindM getK (\<lambda>key. bindM getV (\<lambda>val. retM (key, val)))"

definition getNullable :: "(le_buffer, 'a) comp \<Rightarrow> (le_buffer, 'a option) comp" where
  "getNullable get = bindM getBoolean (\<lambda>isNull.
     if isNull then retM None else bindM get (\<lambda>v. retM (Some v)))"

fun get_times :: "(le_buffer, 'a) comp \<Rightarrow> nat \<Rightarrow> (le_buffer, 'a list) comp" where
  "get_times get 0 = retM []"
| "get_times get (Suc n) = bindM get (\<lambda>v. bindM (get_times get n) (\<lambda>vs. retM (v # vs)))"

text \<open>\<open>std::vector<T> result(len)\<close> with a negative length throws before anything is read.\<close>

definition getArray :: "bool \<Rightarrow> (le_buffer, 'a) comp \<Rightarrow> (le_buffer, 'a list) comp" where
  "getArray be get = bindM (getInt32 be) (\<lambda>len.
     if sint len < 0 then throwM LengthError else get_times get (nat (sint len)))"

definition getNullableArray :: "bool \<Rightarrow> (le_buffer, 'a) comp \<Rightarrow> (le_buffer, 'a list option) comp" where
  "getNullableArray be get = bindM getBoolean (\<lambda>isNull.
     if isNull then retM None else bindM (getArray be get) (\<lambda>vs. retM (Some vs)))"

definition getEntryArray :: "bool \<Rightarrow> (le_buffer, 'a) comp \<Rightarrow> (le_buffer, 'b) comp \<Rightarrow>
    (le_buffer, ('a \<times> 'b) list) comp" where
  "getEntryArray be getK getV = bindM (getInt32 be) (\<lambda>len.
     if sint len < 0 then throwM LengthError
     else get_times (getEntry_msg getK getV) (nat (sint len)))"

definition getNullableEntryArray :: "bool \<Rightarrow> (le_buffer, 'a) comp \<Rightarrow> (le_buffer, 'b) comp \<Rightarrow>
    (le_buffer, ('a \<times> 'b) list option) comp" where
  "getNullableEntryArray be getK getV = bindM getBoolean (\<lambda>isNull.
     if isNull then retM None else bindM (getEntryArray be getK getV) (\<lambda>vs. retM (Some vs)))"

text \<open>Sizes are 32-bit integers and wrap around as such.\<close>

definition calculateDataSizeNullable :: "('a \<Rightarrow> int) \<Rightarrow> 'a option \<Rightarrow> int" where
  "calculateDataSizeNullable sz param =
     (let n = 1 in case param of None \<Rightarrow> n | Some v \<Rightarrow> wrap32 (n + sz v))"

definition calculateDataSize_pair :: "('a \<Rightarrow> int) \<Rightarrow> ('b \<Rightarrow> int) \<Rightarrow> 'a \<times> 'b \<Rightarrow> int" where
  "calculateDataSize_pair szK szV param = wrap32 (szK (fst param) + szV (snd param))"

definition calculateDataSize_vector :: "('a \<Rightarrow> int) \<Rightarrow> 'a list \<Rightarrow> int" where
  "calculateDataSize_vector sz param = foldl (\<lambda>dataSize v. wrap32 (dataSize + sz v)) 4 param"

definition calculateDataSize_vector_ptr :: "('a \<Rightarrow> int) \<Rightarrow> 'a list option \<Rightarrow> int" where
  "calculateDataSize_vector_ptr sz param =
     (let n = 1 in case param of None \<Rightarrow> n | Some vs \<Rightarrow> wrap32 (n + calculateDataSize_vector sz vs))"

definition calculateDataSize_entries :: "('a \<Rightarrow> int) \<Rightarrow> ('b \<Rightarrow> int) \<Rightarrow> ('a \<times> 'b) list \<Rightarrow> int" where
  "calculateDataSize_entries szK szV param =
     foldl (\<lambda>n e. wrap32 (n + calculateDataSize_pair szK szV e)) 4 param"

definition calculateDataSize_entries_ptr :: "('a \<Rightarrow> int) \<Rightarrow> ('b \<Rightarrow> int) \<Rightarrow> ('a \<times> 'b) list option \<Rightarrow> int" where
  "calculateDataSize_entries_ptr szK szV param =
     (let n = 1 in case param of None \<Rightarrow> n
      | Some es \<Rightarrow> wrap32 (n + calculateDataSize_entries szK szV es))"

section \<open>Byte-order lemmas\<close>

lemma length_le_bytes [simp]: "length (le_bytes n v) = n"
  by (induction n arbitrary: v) auto

lemma le_val_le_bytes [simp]: "le_val (le_bytes n v) = v mod 256 ^ n"
proof (induction n arbitrary: v)
  case (Suc n)
  have "le_val (le_bytes (Suc n) v) = v mod 256 + 256 * ((v div 256) mod 256 ^ n)"
    using Suc by (simp add: unat_of_nat)
  then show ?case by (simp add: mod_mult2_eq add.commute)
qed simp

lemma le_bytes_le_val [simp]: "length bs = n \<Longrightarrow> le_bytes n (le_val bs) = bs"
proof (induction bs arbitrary: n)
  case (Cons b bs)
  have "unat b < 256" using unsigned_less [of b] by simp
  moreover have "256 * y = 0" for y :: byte
  proof -
    have "(256 :: byte) = 0" by simp
    then show ?thesis by (simp only: mult_zero_left)
  qed
  ultimately show ?case using Cons by auto
qed simp

lemma le_bytes_mod: "le_bytes n (v mod 256 ^ n) = le_bytes n v"
  using le_bytes_le_val [of "le_bytes n v" n] by simp

lemma le_bytes_mods [simp]:
  "le_bytes 2 (v mod 65536) = le_bytes 2 v"
  "le_bytes 4 (v mod 4294967296) = le_bytes 4 v"
  "le_bytes 8 (v mod 18446744073709551616) = le_bytes 8 v"
  using le_bytes_mod [of 2 v] le_bytes_mod [of 4 v] le_bytes_mod [of 8 v] by simp_all

lemma le_val_less: "le_val bs < 256 ^ length bs"
proof (induction bs)
  case (Cons b bs)
  have "unat b < 256" using unsigned_less [of b] by simp
  then show ?case using Cons by simp
qed simp

lemma length_mem_store [simp]: "length (mem_store be n v) = n"
  by (simp add: mem_store_def)

lemma mem_load_store [simp]: "mem_load be (mem_store be n v) = v mod 256 ^ n"
  by (simp add: mem_load_def mem_store_def)

lemma mem_store_load [simp]: "length bs = n \<Longrightarrow> mem_store be n (mem_load be bs) = bs"
  by (simp add: mem_load_def mem_store_def)

lemma mem_store_bswap: "length bs = n \<Longrightarrow> mem_store be n (bswap n (mem_load be bs)) = rev bs"
  by (cases be) (simp_all add: mem_store_def mem_load_def bswap_def)

lemma swaps [simp]:
  "length bs = 2 \<Longrightarrow> swap_2 be bs = rev bs"
  "length bs = 4 \<Longrightarrow> swap_4 be bs = rev bs"
  "length bs = 8 \<Longrightarrow> swap_8 be bs = rev bs"
  by (simp_all add: swap_2_def swap_4_def swap_8_def mem_store_bswap)

lemma swapInplace4_rev [simp]: "length bs = 4 \<Longrightarrow> swapInplace4 be bs = rev bs"
  by (simp add: swapInplace4_def)

lemmas bits_defs = littleEndianToNative2_def littleEndianToNative4_def littleEndianToNative8_def
  nativeToLittleEndian2_def nativeToLittleEndian4_def nativeToLittleEndian8_def
  bigEndianToNative2_def bigEndianToNative4_def bigEndianToNative8_def
  nativeToBigEndian2_def nativeToBigEndian4_def nativeToBigEndian8_def

text \<open>The conversions do not depend on the platform: they fix the order on the wire.\<close>

lemma littleEndianToNative_load [simp]:
  "length bs = 2 \<Longrightarrow> mem_load be (littleEndianToNative2 be bs) = le_val bs"
  "length bs = 4 \<Longrightarrow> mem_load be (littleEndianToNative4 be bs) = le_val bs"
  "length bs = 8 \<Longrightarrow> mem_load be (littleEndianToNative8 be bs) = le_val bs"
  by (simp_all add: bits_defs mem_load_def mem_store_def)

lemma nativeToLittleEndian_store [simp]:
  "nativeToLittleEndian2 be (mem_store be 2 v) = le_bytes 2 v"
  "nativeToLittleEndian4 be (mem_store be 4 v) = le_bytes 4 v"
  "nativeToLittleEndian8 be (mem_store be 8 v) = le_bytes 8 v"
  by (simp_all add: bits_defs mem_store_def mem_load_def)

lemma bigEndianToNative_load [simp]:
  "length bs = 2 \<Longrightarrow> mem_load be (bigEndianToNative2 be bs) = le_val (rev bs)"
  "length bs = 4 \<Longrightarrow> mem_load be (bigEndianToNative4 be bs) = le_val (rev bs)"
  "length bs = 8 \<Longrightarrow> mem_load be (bigEndianToNative8 be bs) = le_val (rev bs)"
  by (simp_all add: bits_defs mem_load_def mem_store_def)

lemma nativeToBigEndian_store [simp]:
  "nativeToBigEndian2 be (mem_store be 2 v) = rev (le_bytes 2 v)"
  "nativeToBigEndian4 be (mem_store be 4 v) = rev (le_bytes 4 v)"
  "nativeToBigEndian8 be (mem_store be 8 v) = rev (le_bytes 8 v)"
  by (simp_all add: bits_defs mem_store_def mem_load_def)

lemma littleEndianToNativeArray4_concat:
  assumes "\<forall>w \<in> set ws. length w = 4"
  shows "littleEndianToNativeArray4 be (length ws) (concat ws)
       = concat (map (if be then rev else id) ws)"
  using assms by (induction ws) auto

lemma word_of_nat_mod [simp]:
  "word_of_nat (unat (v :: 16 word) mod 65536) = v"
  "word_of_nat (unat (w :: 32 word) mod 4294967296) = w"
  "word_of_nat (unat (x :: 64 word) mod 18446744073709551616) = x"
proof -
  have "unat v < 2 ^ LENGTH(16)" "unat w < 2 ^ LENGTH(32)" "unat x < 2 ^ LENGTH(64)"
    by (rule unsigned_less)+
  then show "word_of_nat (unat (v :: 16 word) mod 65536) = v"
    "word_of_nat (unat (w :: 32 word) mod 4294967296) = w"
    "word_of_nat (unat (x :: 64 word) mod 18446744073709551616) = x"
    by simp_all
qed

section \<open>Cursor lemmas\<close>

text \<open>Enough room for \<open>n\<close> bytes to be written, or \<open>n\<close> bytes to be read, at the cursor.\<close>

definition in_bounds :: "nat \<Rightarrow> le_buffer \<Rightarrow> bool" where
  "in_bounds n s \<longleftrightarrow> 0 \<le> index s \<and> index s + int n \<le> capacity s
     \<and> capacity s \<le> int (length (buffer s)) \<and> capacity s < 2 ^ 31"

definition writable :: "nat \<Rightarrow> le_buffer \<Rightarrow> bool" where
  "writable n s \<longleftrightarrow> \<not> readOnly s \<and> in_bounds n s"

definition readable :: "byte list \<Rightarrow> le_buffer \<Rightarrow> bool" where
  "readable bs s \<longleftrightarrow> readOnly s \<and> in_bounds (length bs) s
     \<and> take (length bs) (drop (nat (index s)) (buffer s)) = bs"

definition emitted :: "byte list \<Rightarrow> le_buffer \<Rightarrow> le_buffer" where
  "emitted bs s = s\<lparr>buffer := take (nat (index s)) (buffer s) @ bs
       @ drop (nat (index s) + length bs) (buffer s), index := index s + int (length bs)\<rparr>"

definition skipped :: "nat \<Rightarrow> le_buffer \<Rightarrow> le_buffer" where
  "skipped n s = s\<lparr>index := index s + int n\<rparr>"

lemmas cursor_defs = writable_def readable_def in_bounds_def emitted_def skipped_def

lemma wrap32_in_bounds [simp]: "in_bounds n s \<Longrightarrow> wrap32 (index s + int n) = index s + int n"
  by (rule wrap32_id) (auto simp: in_bounds_def)

lemma wrap32_in_bounds_numeral [simp]:
  "in_bounds (numeral k) s \<Longrightarrow> wrap32 (index s + numeral k) = index s + numeral k"
  using wrap32_in_bounds [of "numeral k" s] by simp

lemma wrap32_in_bounds_1 [simp]: "in_bounds (Suc 0) s \<Longrightarrow> wrap32 (index s + 1) = index s + 1"
  using wrap32_in_bounds [of "Suc 0" s] by simp

lemma check_in_bounds:
  "in_bounds n s \<Longrightarrow> checkReadAvailable (int n) s = readOnly s"
  "in_bounds n s \<Longrightarrow> checkWriteAvailable (int n) s = (\<not> readOnly s)"
  by (auto simp: checkReadAvailable_def checkWriteAvailable_def checkAvailable_buf_def)
     (auto simp: in_bounds_def)

lemma ix_read_readable:
  "readable bs s \<Longrightarrow> n = length bs \<Longrightarrow> ix_read n s = (Inr bs, s)"
  by (auto simp: ix_read_def cursor_defs)

lemma ix_write_writable:
  "writable (length bs) s \<Longrightarrow> ix_write bs s =
     (Inr (), s\<lparr>buffer := take (nat (index s)) (buffer s) @ bs
                 @ drop (nat (index s) + length bs) (buffer s)\<rparr>)"
  by (auto simp: ix_write_def cursor_defs)

text \<open>The three steps that every fixed-size accessor is made of.\<close>

lemma write_steps:
  assumes "writable (length bs) s" "n = int (length bs)"
  shows "bindM (assertM (checkWriteAvailable n)) (\<lambda>_. bindM (ix_write bs) (\<lambda>_. advance n)) s
       = (Inr (), emitted bs s)"
proof -
  have b: "in_bounds (length bs) s" and "\<not> readOnly s" using assms(1) by (auto simp: writable_def)
  moreover have "wrap32 (index s + int (length bs)) = index s + int (length bs)"
    using b by (rule wrap32_in_bounds)
  ultimately show ?thesis using assms
    by (simp add: bindM_def assertM_def check_in_bounds ix_write_writable advance_def emitted_def)
qed

lemma read_steps:
  assumes "readable bs s" "m = length bs" "n = int (length bs)"
  shows "bindM (assertM (checkReadAvailable n)) (\<lambda>_. bindM (ix_read m)
           (\<lambda>bs. bindM (advance n) (\<lambda>_. retM (f bs)))) s = (Inr (f bs), skipped (length bs) s)"
proof -
  have b: "in_bounds (length bs) s" and "readOnly s" using assms(1) by (auto simp: readable_def)
  moreover have "wrap32 (index s + int (length bs)) = index s + int (length bs)"
    using b by (rule wrap32_in_bounds)
  ultimately show ?thesis using assms
    by (simp add: bindM_def assertM_def check_in_bounds ix_read_readable advance_def skipped_def
        retM_def)
qed

lemma writable_append: "writable (length (as @ bs)) s \<Longrightarrow>
    writable (length as) s \<and> writable (length bs) (emitted as s)"
  by (auto simp: cursor_defs)

lemma emitted_append:
  assumes "writable (length (as @ bs)) s"
  shows "emitted bs (emitted as s) = emitted (as @ bs) s"
proof -
  define i where "i = nat (index s)"
  have i: "index s = int i" "i + length as + length bs \<le> length (buffer s)"
    using assms by (auto simp: cursor_defs i_def)
  have "nat (int i + int (length as)) = i + length as" by simp
  moreover have "min (length (buffer s)) i = i" using i by simp
  ultimately show ?thesis using i
    by (simp add: emitted_def add.assoc add.commute [of "length bs"])
qed

lemma emitted_Nil [simp]: "emitted [] s = s"
  by (simp add: emitted_def)

lemma skipped_0 [simp]: "skipped 0 s = s"
  by (simp add: skipped_def)

lemma readable_append: "readable (as @ bs) s \<Longrightarrow>
    readable as s \<and> readable bs (skipped (length as) s)"
proof -
  assume r: "readable (as @ bs) s"
  let ?d = "drop (nat (index s)) (buffer s)"
  have t: "take (length as + length bs) ?d = as @ bs"
    using r by (simp add: readable_def)
  have "take (length as) ?d = as"
    using arg_cong [OF t, of "take (length as)"] by simp
  moreover have "take (length bs) (drop (length as) ?d) = bs"
    using arg_cong [OF t, of "drop (length as)"] by (simp add: drop_take)
  moreover have "nat (index s + int (length as)) = nat (index s) + length as"
    using r by (simp add: readable_def in_bounds_def nat_add_distrib)
  ultimately show ?thesis using r
    by (auto simp: readable_def in_bounds_def skipped_def add.commute)
qed

lemma skipped_skipped [simp]: "skipped m (skipped n s) = skipped (n + m) s"
  by (simp add: skipped_def)

section \<open>Codecs\<close>

text \<open>
  What a setter and a getter of one element type promise each other: the setter emits the
  encoding of the value when there is room for it, the getter reads it back and moves past it.
\<close>

locale wire_codec =
  fixes enc :: "'a \<Rightarrow> byte list"
    and setT :: "'a \<Rightarrow> (le_buffer, unit) comp"
    and getT :: "(le_buffer, 'a) comp"
    and good :: "'a \<Rightarrow> bool"
  assumes set_law: "good v \<Longrightarrow> writable (length (enc v)) s \<Longrightarrow> setT v s = (Inr (), emitted (enc v) s)"
    and get_law: "good v \<Longrightarrow> readable (enc v) s \<Longrightarrow> getT s = (Inr v, skipped (length (enc v)) s)"
begin

lemma set_each_law:
  "(\<forall>v \<in> set vs. good v) \<Longrightarrow> writable (length (concat (map enc vs))) s \<Longrightarrow>
   set_each setT vs s = (Inr (), emitted (concat (map enc vs)) s)"
proof (induction vs arbitrary: s)
  case Nil
  then show ?case by (simp add: retM_def)
next
  case (Cons v vs)
  then have w: "writable (length (enc v)) s" "writable (length (concat (map enc vs))) (emitted (enc v) s)"
    using writable_append [of "enc v" "concat (map enc vs)" s] by auto
  have "set_each setT (v # vs) s = (Inr (), emitted (concat (map enc vs)) (emitted (enc v) s))"
    using Cons w by (simp add: bindM_Inr [OF set_law])
  then show ?case
    using Cons.prems emitted_append [of "enc v" "concat (map enc vs)" s] by simp
qed

lemma get_times_law:
  "(\<forall>v \<in> set vs. good v) \<Longrightarrow> readable (concat (map enc vs)) s \<Longrightarrow>
   get_times getT (length vs) s = (Inr vs, skipped (length (concat (map enc vs))) s)"
proof (induction vs arbitrary: s)
  case Nil
  then show ?case by (simp add: retM_def)
next
  case (Cons v vs)
  then have r: "readable (enc v) s" "readable (concat (map enc vs)) (skipped (length (enc v)) s)"
    using readable_append [of "enc v" "concat (map enc vs)" s] by auto
  have "getT s = (Inr v, skipped (length (enc v)) s)"
    using Cons.prems r by (simp add: get_law)
  then show ?case using Cons r
    by (simp add: bindM_def retM_def)
qed

end

lemma codec_pair:
  assumes "wire_codec encK setK getK goodK" "wire_codec encV setV getV goodV"
  shows "wire_codec (\<lambda>e. encK (fst e) @ encV (snd e)) (set_pair setK setV) (getEntry_msg getK getV)
           (\<lambda>e. goodK (fst e) \<and> goodV (snd e))"
proof
  fix v :: "'a \<times> 'b" and s
  assume g: "goodK (fst v) \<and> goodV (snd v)"
  assume w: "writable (length (encK (fst v) @ encV (snd v))) s"
  note w2 = writable_append [OF w]
  show "set_pair setK setV v s = (Inr (), emitted (encK (fst v) @ encV (snd v)) s)"
    using g w2 wire_codec.set_law [OF assms(1)] wire_codec.set_law [OF assms(2)]
    by (simp add: set_pair_def bindM_def emitted_append [OF w])
next
  fix v :: "'a \<times> 'b" and s
  assume g: "goodK (fst v) \<and> goodV (snd v)"
  assume r: "readable (encK (fst v) @ encV (snd v)) s"
  note r2 = readable_append [OF r]
  show "getEntry_msg getK getV s = (Inr v, skipped (length (encK (fst v) @ encV (snd v))) s)"
    using g r2 wire_codec.get_law [OF assms(1), of "fst v" s]
      wire_codec.get_law [OF assms(2), of "snd v" "skipped (length (encK (fst v))) s"]
    by (simp add: getEntry_msg_def bindM_def retM_def)
qed

text \<open>The scalar accessors are codecs.\<close>

interpretation int8_codec: wire_codec "\<lambda>v. [v]" set_int8 getInt8 "\<lambda>_. True"
  by unfold_locales
     (simp add: set_int8_def write_steps, simp add: getInt8_def read_steps)

interpretation uint8_codec: wire_codec "\<lambda>v. [v]" set_uint8 getUint8 "\<lambda>_. True"
  by unfold_locales
     (simp add: set_uint8_def write_steps, simp add: getUint8_def read_steps)

interpretation uint16_codec: wire_codec "\<lambda>v. le_bytes 2 (unat v)" "set_uint16 be" "getUint16 be" "\<lambda>_. True" for be
  by unfold_locales
     (simp add: set_uint16_def write_steps, simp add: getUint16_def read_steps [of "le_bytes 2 _"])

interpretation int16_codec: wire_codec "\<lambda>v. le_bytes 2 (unat v)" "set_int16 be" "getInt16 be" "\<lambda>_. True" for be
  by unfold_locales
     (simp add: set_int16_def write_steps, simp add: getInt16_def read_steps [of "le_bytes 2 _"])

interpretation uint32_codec: wire_codec "\<lambda>v. le_bytes 4 (unat v)" "set_uint32 be" "getUint32 be" "\<lambda>_. True" for be
  by unfold_locales
     (simp add: set_uint32_def write_steps, simp add: getUint32_def read_steps [of "le_bytes 4 _"])

interpretation int32_codec: wire_codec "\<lambda>v. le_bytes 4 (unat v)" "set_int32 be" "getInt32 be" "\<lambda>_. True" for be
  by unfold_locales
     (simp add: set_int32_def write_steps, simp add: getInt32_def read_steps [of "le_bytes 4 _"])

interpretation uint64_codec: wire_codec "\<lambda>v. le_bytes 8 (unat v)" "set_uint64 be" "getUint64 be" "\<lambda>_. True" for be
  by unfold_locales
     (simp add: set_uint64_def write_steps, simp add: getUint64_def read_steps [of "le_bytes 8 _"])

interpretation int64_codec: wire_codec "\<lambda>v. le_bytes 8 (unat v)" "set_int64 be" "getInt64 be" "\<lambda>_. True" for be
  by unfold_locales
     (simp add: set_int64_def write_steps, simp add: getInt64_def read_steps [of "le_bytes 8 _"])

interpretation bool_codec: wire_codec "\<lambda>v. [if v then 1 else 0]" set_bool getBoolean "\<lambda>_. True"
proof
  fix v s
  assume w: "writable (length [if v then 1 else 0 :: byte]) s"
  then have "checkWriteAvailable 1 s"
    using check_in_bounds(2) [of 1 s] by (simp add: writable_def)
  with w show "set_bool v s = (Inr (), emitted [if v then 1 else 0] s)"
    by (simp add: set_bool_def bindM_def assertM_def uint8_codec.set_law)
next
  fix v s
  assume r: "readable [if v then 1 else 0 :: byte] s"
  from uint8_codec.get_law [OF _ r]
  show "getBoolean s = (Inr v, skipped (length [if v then 1 else 0 :: byte]) s)"
    by (simp add: getBoolean_def bindM_def retM_def)
qed

lemma sint_word_of_nat32: "n < 2 ^ 31 \<Longrightarrow> sint (word_of_nat n :: int32_t) = int n"
  by (simp add: signed_of_nat signed_take_bit_int_eq_self)

lemma unat_word_of_nat32: "n < 2 ^ 31 \<Longrightarrow> unat (word_of_nat n :: int32_t) = n"
  by (simp add: unat_of_nat)

lemma to_uint64_of_nat [simp]: "n < 2 ^ 64 \<Longrightarrow> to_uint64 (int n) = n"
  by (simp add: to_uint64_def)

definition enc_string :: "byte list \<Rightarrow> byte list" where
  "enc_string v = le_bytes 4 (length v) @ v"

interpretation string_codec: wire_codec enc_string "set_string be" "getStringUtf8 be"
    "\<lambda>v. length v < 2 ^ 31" for be
proof
  fix v s
  assume l: "length v < 2 ^ 31" and w: "writable (length (enc_string v)) s"
  let ?n = "word_of_nat (length v) :: int32_t" and ?s = "emitted (le_bytes 4 (length v)) s"
  have u: "unat ?n = length v" "sint ?n = int (length v)"
    using l by (simp_all add: unat_word_of_nat32 sint_word_of_nat32)
  have w2: "writable 4 s" "writable (length v) ?s"
    using writable_append [OF w [unfolded enc_string_def]] by simp_all
  have 1: "set_int32 be ?n s = (Inr (), ?s)"
    using int32_codec.set_law [of ?n s be] w2 by (simp add: u)
  have 2: "setBytes v (sint ?n) ?s = (Inr (), emitted v ?s)"
    using w2(2) l by (simp add: setBytes_def u write_steps)
  show "set_string be v s = (Inr (), emitted (enc_string v) s)"
    using emitted_append [OF w [unfolded enc_string_def]] 1 2
    by (simp add: set_string_def bindM_def Let_def enc_string_def)
next
  fix v s
  assume l: "length v < 2 ^ 31" and r: "readable (enc_string v) s"
  let ?n = "word_of_nat (length v) :: int32_t" and ?s = "skipped 4 s"
  have u: "unat ?n = length v" "sint ?n = int (length v)"
    using l by (simp_all add: unat_word_of_nat32 sint_word_of_nat32)
  have r2: "readable (le_bytes 4 (length v)) s" "readable v ?s"
    using readable_append [OF r [unfolded enc_string_def]] by simp_all
  have 1: "getInt32 be s = (Inr ?n, ?s)"
    using int32_codec.get_law [of ?n s be] r2 by (simp add: u)
  have b: "in_bounds (length v) ?s" "readOnly ?s" using r2(2) by (auto simp: readable_def)
  have 2: "checkReadAvailable (int (length v)) ?s" using check_in_bounds(1) [OF b(1)] b(2) by simp
  have 3: "ix_read (length v) ?s = (Inr v, ?s)" using r2(2) by (simp add: ix_read_readable)
  have 4: "advance (int (length v)) ?s = (Inr (), skipped (length v) ?s)"
    using b(1) by (simp only: advance_def wrap32_in_bounds) (simp add: skipped_def)
  have 5: "(skipped (length v) ?s)\<lparr>index := index ?s\<rparr> = ?s" by (simp add: skipped_def)
  show "getStringUtf8 be s = (Inr v, skipped (length (enc_string v)) s)"
    using 1 2 3 4 5
    by (simp add: getStringUtf8_def Let_def u bindM_def assertM_def retM_def enc_string_def)
qed

section \<open>Arrays and nullable values\<close>

definition enc_array :: "('a \<Rightarrow> byte list) \<Rightarrow> 'a list \<Rightarrow> byte list" where
  "enc_array enc vs = le_bytes 4 (length vs) @ concat (map enc vs)"

definition enc_nullable :: "('a \<Rightarrow> byte list) \<Rightarrow> 'a option \<Rightarrow> byte list" where
  "enc_nullable enc v = (case v of None \<Rightarrow> [1] | Some x \<Rightarrow> 0 # enc x)"

lemma codec_array:
  assumes c: "wire_codec enc setT getT good"
  shows "wire_codec (enc_array enc) (setArray be setT) (getArray be getT)
           (\<lambda>vs. length vs < 2 ^ 31 \<and> (\<forall>v \<in> set vs. good v))"
proof
  fix vs :: "'a list" and s
  assume g: "length vs < 2 ^ 31 \<and> (\<forall>v \<in> set vs. good v)"
  assume w: "writable (length (enc_array enc vs)) s"
  let ?n = "word_of_nat (length vs) :: int32_t" and ?s = "emitted (le_bytes 4 (length vs)) s"
  have u: "unat ?n = length vs" "sint ?n = int (length vs)"
    using g by (simp_all add: unat_word_of_nat32 sint_word_of_nat32)
  note w2 = writable_append [OF w [unfolded enc_array_def]]
  have 1: "set_int32 be ?n s = (Inr (), ?s)"
    using int32_codec.set_law [of ?n s be] w2 by (simp add: u)
  have 2: "set_each setT vs ?s = (Inr (), emitted (concat (map enc vs)) ?s)"
    using wire_codec.set_each_law [OF c] g w2 by blast
  show "setArray be setT vs s = (Inr (), emitted (enc_array enc vs) s)"
    using emitted_append [OF w [unfolded enc_array_def]] 1 2
    by (cases "vs = []") (simp_all add: setArray_def bindM_def Let_def u enc_array_def retM_def)
next
  fix vs :: "'a list" and s
  assume g: "length vs < 2 ^ 31 \<and> (\<forall>v \<in> set vs. good v)"
  assume r: "readable (enc_array enc vs) s"
  let ?n = "word_of_nat (length vs) :: int32_t"
  have u: "unat ?n = length vs" "sint ?n = int (length vs)"
    using g by (simp_all add: unat_word_of_nat32 sint_word_of_nat32)
  have r2: "readable (le_bytes 4 (length vs)) s" "readable (concat (map enc vs)) (skipped 4 s)"
    using readable_append [OF r [unfolded enc_array_def]] by simp_all
  have 1: "getInt32 be s = (Inr ?n, skipped 4 s)"
    using int32_codec.get_law [of ?n s be] r2 by (simp add: u)
  show "getArray be getT s = (Inr vs, skipped (length (enc_array enc vs)) s)"
    using wire_codec.get_times_law [OF c _ r2(2)] g 1
    by (simp add: getArray_def bindM_def u enc_array_def)
qed

lemma codec_nullable:
  assumes c: "wire_codec enc setT getT good"
  shows "wire_codec (enc_nullable enc) (setNullable setT) (getNullable getT)
           (\<lambda>v. \<forall>x. v = Some x \<longrightarrow> good x)"
proof
  fix v :: "'a option" and s
  assume g: "\<forall>x. v = Some x \<longrightarrow> good x" and w: "writable (length (enc_nullable enc v)) s"
  show "setNullable setT v s = (Inr (), emitted (enc_nullable enc v) s)"
  proof (cases v)
    case None
    then show ?thesis using w bool_codec.set_law [of True s]
      by (simp add: setNullable_def enc_nullable_def bindM_def retM_def)
  next
    case (Some x)
    have w2: "writable (length ([0] @ enc x)) s" using w Some by (simp add: enc_nullable_def)
    show ?thesis
      using Some g writable_append [OF w2] emitted_append [OF w2] bool_codec.set_law [of False s]
        wire_codec.set_law [OF c]
      by (simp add: setNullable_def enc_nullable_def bindM_def)
  qed
next
  fix v :: "'a option" and s
  assume g: "\<forall>x. v = Some x \<longrightarrow> good x" and r: "readable (enc_nullable enc v) s"
  show "getNullable getT s = (Inr v, skipped (length (enc_nullable enc v)) s)"
  proof (cases v)
    case None
    then show ?thesis using r bool_codec.get_law [of True s]
      by (simp add: getNullable_def enc_nullable_def bindM_def retM_def)
  next
    case (Some x)
    have r2: "readable ([0] @ enc x) s" using r Some by (simp add: enc_nullable_def)
    show ?thesis
      using Some g readable_append [OF r2] bool_codec.get_law [of False s]
        wire_codec.get_law [OF c, of x "skipped 1 s"]
      by (simp add: getNullable_def enc_nullable_def bindM_def retM_def)
  qed
qed

lemma getEntryArray_eq: "getEntryArray be getK getV = getArray be (getEntry_msg getK getV)"
  by (simp add: getEntryArray_def getArray_def)

lemma readable_after_write:
  assumes "writable (length bs) s"
  shows "readable bs (wrapForRead (capacity s) (index s) (emitted bs s))"
  using assms by (auto simp: cursor_defs wrapForRead_def)

section \<open>Bounds\<close>

definition wf_buffer :: "le_buffer \<Rightarrow> bool" where
  "wf_buffer s \<longleftrightarrow> 0 \<le> index s \<and> index s \<le> capacity s
     \<and> capacity s \<le> int (length (buffer s)) \<and> capacity s + 8 < 2 ^ 31"

text \<open>The scalar accessor calls a codec is made of.\<close>

datatype accessor =
    Get8 | GetBool | Get16 | Get32 | Get64
  | Set8 byte | SetBool bool | Set16 "16 word" | Set32 int32_t | Set64 int64_t

fun run_accessor :: "bool \<Rightarrow> accessor \<Rightarrow> (le_buffer, unit) comp" where
  "run_accessor be Get8 = bindM getInt8 (\<lambda>_. retM ())"
| "run_accessor be GetBool = bindM getBoolean (\<lambda>_. retM ())"
| "run_accessor be Get16 = bindM (getInt16 be) (\<lambda>_. retM ())"
| "run_accessor be Get32 = bindM (getInt32 be) (\<lambda>_. retM ())"
| "run_accessor be Get64 = bindM (getInt64 be) (\<lambda>_. retM ())"
| "run_accessor be (Set8 v) = set_int8 v"
| "run_accessor be (SetBool v) = set_bool v"
| "run_accessor be (Set16 v) = set_int16 be v"
| "run_accessor be (Set32 v) = set_int32 be v"
| "run_accessor be (Set64 v) = set_int64 be v"

fun run_accessors :: "bool \<Rightarrow> accessor list \<Rightarrow> (le_buffer, unit) comp" where
  "run_accessors be [] = retM ()"
| "run_accessors be (a # as) = bindM (run_accessor be a) (\<lambda>_. run_accessors be as)"

text \<open>On a well-formed buffer an access succeeds within it or fails its assertion untouched.\<close>

definition safe_on :: "(le_buffer, 'a) comp \<Rightarrow> bool" where
  "safe_on f \<longleftrightarrow> (\<forall>s. wf_buffer s \<longrightarrow>
     (\<exists>r. fst (f s) = Inr r \<and> wf_buffer (snd (f s))) \<or> f s = (Inl AssertionFailure, s))"

lemma available_in_bounds:
  assumes "wf_buffer s" "n \<le> 8"
  shows "checkAvailable_buf (int n) s \<longleftrightarrow> in_bounds n s"
proof -
  have "wrap32 (index s + int n) = index s + int n"
    using assms by (intro wrap32_id) (auto simp: wf_buffer_def)
  then show ?thesis using assms
    by (auto simp: checkAvailable_buf_def in_bounds_def wf_buffer_def)
qed

lemma safe_read_steps:
  assumes "n \<le> 8" "m = n" "i = int n"
  shows "safe_on (bindM (assertM (checkReadAvailable i)) (\<lambda>_. bindM (ix_read m)
           (\<lambda>bs. bindM (advance i) (\<lambda>_. retM (f bs)))))"
  unfolding safe_on_def
proof (intro allI impI)
  fix s assume wf: "wf_buffer s"
  let ?f = "bindM (assertM (checkReadAvailable i)) (\<lambda>_. bindM (ix_read m)
           (\<lambda>bs. bindM (advance i) (\<lambda>_. retM (f bs))))"
  show "(\<exists>r. fst (?f s) = Inr r \<and> wf_buffer (snd (?f s))) \<or> ?f s = (Inl AssertionFailure, s)"
  proof (cases "checkReadAvailable i s")
    case True
    then have b: "in_bounds n s" "readOnly s"
      using available_in_bounds [OF wf assms(1)] assms
      by (auto simp: checkReadAvailable_def split: if_splits)
    define bs where "bs = take n (drop (nat (index s)) (buffer s))"
    have "length bs = n" "readable bs s"
      using b by (auto simp: bs_def readable_def in_bounds_def)
    then have "?f s = (Inr (f bs), skipped n s)"
      using read_steps [of bs s m i f] assms by simp
    moreover have "wf_buffer (skipped n s)"
      using wf b by (simp add: wf_buffer_def in_bounds_def skipped_def)
    ultimately show ?thesis by simp
  qed (simp add: bindM_def assertM_def)
qed

lemma safe_write_steps:
  assumes "length bs \<le> 8" "i = int (length bs)"
  shows "safe_on (bindM (assertM (checkWriteAvailable i)) (\<lambda>_. bindM (ix_write bs) (\<lambda>_. advance i)))"
  unfolding safe_on_def
proof (intro allI impI)
  fix s assume wf: "wf_buffer s"
  let ?f = "bindM (assertM (checkWriteAvailable i)) (\<lambda>_. bindM (ix_write bs) (\<lambda>_. advance i))"
  show "(\<exists>r. fst (?f s) = Inr r \<and> wf_buffer (snd (?f s))) \<or> ?f s = (Inl AssertionFailure, s)"
  proof (cases "checkWriteAvailable i s")
    case True
    then have b: "writable (length bs) s"
      using available_in_bounds [OF wf assms(1)] assms
      by (auto simp: checkWriteAvailable_def writable_def split: if_splits)
    then have "?f s = (Inr (), emitted bs s)"
      using write_steps assms(2) by blast
    moreover have "wf_buffer (emitted bs s)"
      using wf b by (auto simp: wf_buffer_def writable_def in_bounds_def emitted_def)
    ultimately show ?thesis by simp
  qed (simp add: bindM_def assertM_def)
qed

lemma safe_then_ret: "safe_on f \<Longrightarrow> safe_on (bindM f (\<lambda>x. retM (g x)))"
  unfolding safe_on_def
  by (auto simp: bindM_def retM_def split: prod.splits sum.splits)

lemma set_bool_alt: "set_bool v = set_uint8 (if v then 1 else 0)"
  by (auto simp: set_bool_def set_uint8_def fun_eq_iff bindM_def assertM_def)

lemma safe_accessor: "safe_on (run_accessor be a)"
proof (cases a)
  case Get8
  then show ?thesis by (auto simp: getInt8_def intro!: safe_then_ret safe_read_steps [of 1])
next
  case GetBool
  then show ?thesis
    by (auto simp: getBoolean_def getUint8_def intro!: safe_then_ret safe_read_steps [of 1])
next
  case Get16
  then show ?thesis by (auto simp: getInt16_def intro!: safe_then_ret safe_read_steps [of 2])
next
  case Get32
  then show ?thesis by (auto simp: getInt32_def intro!: safe_then_ret safe_read_steps [of 4])
next
  case Get64
  then show ?thesis by (auto simp: getInt64_def intro!: safe_then_ret safe_read_steps [of 8])
qed (simp_all add: set_int8_def set_bool_alt set_uint8_def set_int16_def set_int32_def
       set_int64_def safe_write_steps)

lemma run_accessors_safe:
  "wf_buffer s \<Longrightarrow> run_accessors be as s = (r, s') \<Longrightarrow>
   wf_buffer s' \<and> (r = Inr () \<or> r = Inl AssertionFailure)"
proof (induction as arbitrary: s)
  case Nil
  then show ?case by (auto simp: retM_def)
next
  case (Cons a as)
  have "(\<exists>u. fst (run_accessor be a s) = Inr u \<and> wf_buffer (snd (run_accessor be a s)))
      \<or> run_accessor be a s = (Inl AssertionFailure, s)"
    using safe_accessor Cons.prems(1) by (auto simp: safe_on_def)
  then show ?case
  proof
    assume "\<exists>u. fst (run_accessor be a s) = Inr u \<and> wf_buffer (snd (run_accessor be a s))"
    then show ?case using Cons by (auto simp: bindM_def split: prod.splits)
  next
    assume "run_accessor be a s = (Inl AssertionFailure, s)"
    then show ?case using Cons.prems by (auto simp: bindM_def)
  qed
qed

section \<open>Properties\<close>

lemma wrap32_add_wrap32 [simp]: "wrap32 (a + wrap32 b) = wrap32 (a + b)"
proof -
  have "(a + ((b + m) mod n - m) + m) mod n = (a + b + m) mod n" for m n :: int
    using mod_add_right_eq [of a "b + m" n] by (simp add: add.assoc)
  then show ?thesis by (simp only: wrap32_def)
qed

lemma foldl_wrap32_sum:
  "foldl (\<lambda>n v. wrap32 (n + f v)) (wrap32 a) vs = wrap32 (a + (\<Sum>v\<leftarrow>vs. f v))"
proof (induction vs arbitrary: a)
  case (Cons v vs)
  have "wrap32 (wrap32 a + f v) = wrap32 (a + f v)"
    using wrap32_add_wrap32 [of "f v" a] by (simp add: add.commute)
  with Cons [of "a + f v"] show ?case by (simp add: add.assoc)
qed simp

lemma sum_wrap32: "wrap32 (a + (\<Sum>v\<leftarrow>vs. wrap32 (f v))) = wrap32 (a + (\<Sum>v\<leftarrow>vs. f v))"
proof (induction vs arbitrary: a)
  case (Cons v vs)
  have "wrap32 (a + (wrap32 (f v) + (\<Sum>v\<leftarrow>vs. wrap32 (f v))))
      = wrap32 ((a + (\<Sum>v\<leftarrow>vs. wrap32 (f v))) + f v)"
    using wrap32_add_wrap32 [of "a + (\<Sum>v\<leftarrow>vs. wrap32 (f v))" "f v"] by (simp add: ac_simps)
  also have "\<dots> = wrap32 ((a + f v) + (\<Sum>v\<leftarrow>vs. f v))"
    using Cons [of "a + f v"] by (simp add: ac_simps)
  finally show ?case by (simp add: ac_simps)
qed simp

lemma length_enc_array:
  "int (length (enc_array enc vs)) = 4 + (\<Sum>v\<leftarrow>vs. int (length (enc v)))"
  by (induction vs) (simp_all add: enc_array_def)

lemma entries_codec:
  "wire_codec (enc_array (\<lambda>e. enc_string (fst e) @ le_bytes 8 (unat (snd e))))
     (setArray be (set_pair (set_string be) (set_int64 be)))
     (getEntryArray be (getStringUtf8 be) (getInt64 be))
     (\<lambda>es. length es < 2 ^ 31 \<and> (\<forall>e \<in> set es. length (fst e) < 2 ^ 31 \<and> True))"
  unfolding getEntryArray_eq
  by (intro codec_array codec_pair string_codec.wire_codec_axioms int64_codec.wire_codec_axioms)

text \<open>Claim C38: an array of (string, long) entries that fits its buffer is written without a failure
  on a platform of either byte order, and a reader of either byte order that starts where the
  writer started reads back the same entries and stops right behind them.\<close>

theorem entry_array_roundtrip:
  assumes "length es < 2 ^ 31" "\<forall>e \<in> set es. length (fst e) < 2 ^ 31"
    and "bs = enc_array (\<lambda>e. enc_string (fst e) @ le_bytes 8 (unat (snd e))) es"
    and "writable (length bs) s"
  shows "\<exists>s'. setArray be (set_pair (set_string be) (set_int64 be)) es s = (Inr (), s')
    \<and> getEntryArray be' (getStringUtf8 be') (getInt64 be') (wrapForRead (capacity s) (index s) s')
      = (Inr es, (wrapForRead (capacity s) (index s) s')\<lparr>index := index s + int (length bs)\<rparr>)"
proof -
  have "setArray be (set_pair (set_string be) (set_int64 be)) es s = (Inr (), emitted bs s)"
    using assms wire_codec.set_law [OF entries_codec] by simp
  moreover have "getEntryArray be' (getStringUtf8 be') (getInt64 be')
      (wrapForRead (capacity s) (index s) (emitted bs s))
    = (Inr es, skipped (length bs) (wrapForRead (capacity s) (index s) (emitted bs s)))"
    using assms readable_after_write [OF assms(4)] wire_codec.get_law [OF entries_codec, of es _ be']
    by simp
  ultimately show ?thesis by (simp add: skipped_def wrapForRead_def)
qed

theorem entry_array_roundtrip_witness:
  "\<exists>s'. setArray True (set_pair (set_string True) (set_int64 True)) [([104, 105], 7)]
       (wrapForWrite 32 0 (LittleEndianBufferWrapper 32)) = (Inr (), s')
    \<and> getEntryArray False (getStringUtf8 False) (getInt64 False) (wrapForRead 32 0 s')
      = (Inr [([104, 105], 7)], (wrapForRead 32 0 s')\<lparr>index := 18\<rparr>)"
  using entry_array_roundtrip [of "[([104, 105], 7)]" _ "wrapForWrite 32 0 (LittleEndianBufferWrapper 32)" True False]
  by (simp add: enc_array_def enc_string_def writable_def in_bounds_def wrapForWrite_def
      LittleEndianBufferWrapper_def)

text \<open>The size that \<open>calculateDataSize\<close> announces for a list of entries is the number of
  bytes the writer emits for it, computed at 32 bits, whenever the element sizes are right; for an
  encoding below two gigabytes it is exact, so a message sized by it has room for the entries, and
  the nullable form counts one byte more.\<close>

theorem calculateDataSize_entries_exact:
  assumes "\<forall>e \<in> set es. szK (fst e) = int (length (encK (fst e))) \<and> szV (snd e) = int (length (encV (snd e)))"
    and "1 + length (enc_array (\<lambda>e. encK (fst e) @ encV (snd e)) es) < 2 ^ 31"
  shows "calculateDataSize_entries szK szV es
       = int (length (enc_array (\<lambda>e. encK (fst e) @ encV (snd e)) es))
    \<and> calculateDataSize_entries_ptr szK szV (Some es)
       = 1 + int (length (enc_array (\<lambda>e. encK (fst e) @ encV (snd e)) es))"
proof -
  let ?n = "length (enc_array (\<lambda>e. encK (fst e) @ encV (snd e)) es)"
  have "(\<Sum>e\<leftarrow>es. szK (fst e) + szV (snd e)) = (\<Sum>e\<leftarrow>es. int (length (encK (fst e) @ encV (snd e))))"
    using assms(1) by (intro arg_cong [where f = sum_list] map_cong) auto
  then have sum: "4 + (\<Sum>e\<leftarrow>es. szK (fst e) + szV (snd e)) = int ?n"
    by (simp only: length_enc_array)
  have "calculateDataSize_entries szK szV es = wrap32 (int ?n)"
    unfolding calculateDataSize_entries_def calculateDataSize_pair_def
    using foldl_wrap32_sum [of "\<lambda>e. wrap32 (szK (fst e) + szV (snd e))" 4 es]
    by (simp add: sum_wrap32 sum wrap32_id)
  then have "calculateDataSize_entries szK szV es = int ?n"
    using assms(2) by (simp add: wrap32_id)
  then show ?thesis
    using assms(2) by (simp add: calculateDataSize_entries_ptr_def wrap32_id)
qed

theorem calculateDataSize_entries_exact_witness:
  "calculateDataSize_entries (\<lambda>_ :: int32_t. 4) (\<lambda>_ :: byte. 1) [(5, 6), (7, 8)] = 14"
  using calculateDataSize_entries_exact
    [of "[(5, 6), (7, 8)]" "\<lambda>_. 4" "\<lambda>v :: int32_t. le_bytes 4 (unat v)" "\<lambda>_. 1" "\<lambda>v :: byte. [v]"]
  by (simp add: enc_array_def)



lemma le_bytes_4: "le_bytes 4 v = [word_of_nat v, word_of_nat (v div 256),
    word_of_nat (v div 256 div 256), word_of_nat (v div 256 div 256 div 256)]"
proof -
  have "(4::nat) = Suc (Suc (Suc (Suc 0)))" by simp
  then show ?thesis by (simp only: le_bytes.simps)
qed

text \<open>A string whose length field is negative passes the bounds assertion; the cursor moves
  backwards and the construction of the string throws, so a malformed frame is not reported by the
  buffer's own check.\<close>

theorem negative_string_length_passes_check:
  assumes "readable (le_bytes 4 (unat w)) s" "sint (w :: int32_t) < 0" "0 \<le> index s + 4 + sint w"
  shows "checkReadAvailable (sint w) (s\<lparr>index := index s + 4\<rparr>)
    \<and> getStringUtf8 be s = (Inl LengthError, s\<lparr>index := index s + 4 + sint w\<rparr>)"
proof -
  let ?s = "s\<lparr>index := index s + 4\<rparr>"
  have 1: "getInt32 be s = (Inr w, ?s)"
    using int32_codec.get_law [of w s be] assms(1) by (simp add: skipped_def)
  have w: "wrap32 (index s + 4 + sint w) = index s + 4 + sint w"
    using assms by (intro wrap32_id) (auto simp: readable_def in_bounds_def)
  have 2: "checkReadAvailable (sint w) ?s"
    using assms w by (auto simp: checkReadAvailable_def checkAvailable_buf_def readable_def in_bounds_def)
  show ?thesis
    using 1 2 w assms(2)
    by (simp add: getStringUtf8_def bindM_def Let_def assertM_def advance_def)
qed

theorem negative_string_length_passes_check_witness:
  "getStringUtf8 False (wrapForRead 8 0 (LittleEndianBufferWrapper 8)\<lparr>buffer := [254, 255, 255, 255, 0, 0, 0, 0]\<rparr>)
     = (Inl LengthError,
        wrapForRead 8 2 (LittleEndianBufferWrapper 8)\<lparr>buffer := [254, 255, 255, 255, 0, 0, 0, 0]\<rparr>)"
proof -
  let ?s = "wrapForRead 8 0 (LittleEndianBufferWrapper 8)\<lparr>buffer := [254, 255, 255, 255, 0, 0, 0, 0]\<rparr>"
  have "unat (4294967294 :: int32_t) = 4294967294" by simp
  then have "le_bytes 4 (unat (4294967294 :: int32_t)) = [254, 255, 255, 255]"
    by (simp only:) (simp add: le_bytes_4)
  then have "readable (le_bytes 4 (unat (4294967294 :: int32_t))) ?s"
    by (simp add: readable_def in_bounds_def wrapForRead_def)
  then show ?thesis
    using negative_string_length_passes_check [of 4294967294 ?s False]
    by (simp add: wrapForRead_def)
qed

end
