(* ===== verification/Hz_Serial.thy ===== *)
theory Hz_Serial
  imports Hz_Wire
begin

text \<open>
  Object serialization of the client library: the array templates of \<open>DataOutput.h\<close> and
  \<open>DataInput.h\<close>, the object templates of \<open>ObjectDataOutput.h\<close>, \<open>ObjectDataInput.h\<close>,
  \<open>DataSerializer.h\<close> and \<open>PortableSerializer.h\<close>, and \<open>SerializationService::toData/toObject\<close>.
  The bodies of the primitive reads and writes are not part of the sources; they are the fields of
  \<open>data_io\<close>, and \<open>object_data_io\<close> states what their clients rely on. An output stream is the bytes
  it holds, an input stream the bytes not yet read.
\<close>

section \<open>Streams\<close>

type_synonym 'a reader = "(byte list, 'a) comp"

record data_io =
  writeInt :: "int \<Rightarrow> byte list"
  readInt :: "int reader"
  writeLong :: "int \<Rightarrow> byte list"
  readLong :: "int reader"
  writeByteArray :: "byte list option \<Rightarrow> byte list"
  readByteArray :: "byte list option reader"
  writeCharArray :: "byte list option \<Rightarrow> byte list"
  readCharArray :: "byte list option reader"

definition NULL_ARRAY :: int where
  "NULL_ARRAY = - 1"

definition writeArray :: "(int \<Rightarrow> byte list) \<Rightarrow> ('a \<Rightarrow> byte list) \<Rightarrow> 'a list option \<Rightarrow> byte list" where
  "writeArray wInt write data =
     (let len = (case data of None \<Rightarrow> NULL_ARRAY | Some xs \<Rightarrow> wrap32 (int (length xs)))
      in wInt len @
         (if len > 0 then
            (case data of None \<Rightarrow> [] | Some xs \<Rightarrow> concat (map write (take (nat len) xs)))
          else []))"

fun read_each :: "'a reader \<Rightarrow> nat \<Rightarrow> 'a list reader" where
  "read_each rd 0 = retM []"
| "read_each rd (Suc n) = bindM rd (\<lambda>x. bindM (read_each rd n) (\<lambda>xs. retM (x # xs)))"

definition readArray :: "int reader \<Rightarrow> 'a reader \<Rightarrow> 'a list option reader" where
  "readArray rInt read = bindM rInt (\<lambda>len.
     if NULL_ARRAY = len then retM None
     else if len = 0 then retM (Some [])
     else if len < 0 then throwM HazelcastSerializationException
     else bindM (read_each read (nat len)) (\<lambda>values. retM (Some values)))"

section \<open>Object serialization\<close>

text \<open>The constants of \<open>SerializationConstants::Types\<close> the templates branch on.\<close>

definition CONSTANT_TYPE_NULL :: int where "CONSTANT_TYPE_NULL = 0"
definition CONSTANT_TYPE_PORTABLE :: int where "CONSTANT_TYPE_PORTABLE = - 1"
definition CONSTANT_TYPE_DATA :: int where "CONSTANT_TYPE_DATA = - 2"

text \<open>
  An \<open>IdentifiedDataSerializable\<close> class \<open>T\<close>: its default constructor and its virtual methods.
\<close>

record 'a ids_class =
  new_T :: 'a
  getFactoryId :: "'a \<Rightarrow> int"
  getClassId :: "'a \<Rightarrow> int"
  writeData :: "'a \<Rightarrow> byte list res"
  readData :: "'a \<Rightarrow> 'a reader"

text \<open>
  A registered serializer: its type id and its entry points \<open>DataSerializer::write\<close>,
  \<open>PortableSerializer::write\<close>, \<open>StreamSerializer::write\<close>, \<open>StreamSerializer::read\<close>, and the
  private helpers of the data and portable serializers whose bodies the sources do not have.
\<close>

record 'a serializer =
  ser_typeId :: int
  write_data :: "'a \<Rightarrow> byte list res"
  write_portable :: "'a \<Rightarrow> byte list res"
  write_stream :: "'a \<Rightarrow> byte list res"
  read_stream :: "'a option reader"
  checkIfIdentifiedDataSerializable :: "unit reader"
  ser_readInt :: "int reader"
  createNewPortableInstance :: "int \<Rightarrow> int \<Rightarrow> 'a option"
  read_portable :: "'a \<Rightarrow> int \<Rightarrow> int \<Rightarrow> 'a reader"

definition writeInternal :: "'a serializer \<Rightarrow> 'a \<Rightarrow> byte list res" where
  "writeInternal ser obj =
     (let typeId = ser_typeId ser in
      if typeId = CONSTANT_TYPE_DATA then write_data ser obj
      else if typeId = CONSTANT_TYPE_PORTABLE then write_portable ser obj
      else write_stream ser obj)"

definition writeObject :: "data_io \<Rightarrow> ('a \<Rightarrow> int) \<Rightarrow> (int \<Rightarrow> 'a serializer option) \<Rightarrow> bool \<Rightarrow>
    'a option \<Rightarrow> byte list res" where
  "writeObject io getHazelcastTypeId serializerFor isEmpty object =
     (if isEmpty then Inr []
      else case object of
        None \<Rightarrow> Inr (writeInt io CONSTANT_TYPE_NULL)
      | Some obj \<Rightarrow>
          (case serializerFor (getHazelcastTypeId obj) of
             None \<Rightarrow> Inl HazelcastSerializationException
           | Some ser \<Rightarrow>
               bindR (writeInternal ser obj) (\<lambda>bs. Inr (writeInt io (ser_typeId ser) @ bs))))"

type_synonym 'a data_factories = "int \<rightharpoonup> (int \<Rightarrow> 'a option)"

definition DataSerializer_readObject ::
    "'a ids_class \<Rightarrow> 'a serializer \<Rightarrow> 'a data_factories \<Rightarrow> 'a reader" where
  "DataSerializer_readObject cls ser dataSerializableFactories =
     bindM (checkIfIdentifiedDataSerializable ser) (\<lambda>_.
     bindM (ser_readInt ser) (\<lambda>factoryId.
     bindM (ser_readInt ser) (\<lambda>classId.
       case dataSerializableFactories factoryId of
         Some create \<Rightarrow>
           (case create classId of
              None \<Rightarrow> throwM NullDereference
            | Some object \<Rightarrow> readData cls object)
       | None \<Rightarrow> readData cls (new_T cls))))"

definition PortableSerializer_read :: "'a ids_class \<Rightarrow> 'a serializer \<Rightarrow> int \<Rightarrow> int \<Rightarrow> 'a reader" where
  "PortableSerializer_read cls ser factoryId classId =
     (let portableInstance = (case createNewPortableInstance ser factoryId classId of
          None \<Rightarrow> new_T cls | Some p \<Rightarrow> p)
      in read_portable ser portableInstance factoryId classId)"

definition PortableSerializer_readObject :: "'a ids_class \<Rightarrow> 'a serializer \<Rightarrow> 'a reader" where
  "PortableSerializer_readObject cls ser =
     bindM (ser_readInt ser) (\<lambda>factoryId.
     bindM (ser_readInt ser) (\<lambda>classId. PortableSerializer_read cls ser factoryId classId))"

definition readObjectInternal :: "'a ids_class \<Rightarrow> 'a data_factories \<Rightarrow> int \<Rightarrow> 'a serializer \<Rightarrow>
    'a option reader" where
  "readObjectInternal cls factories typeId ser =
     (if typeId = CONSTANT_TYPE_DATA then
        bindM (DataSerializer_readObject cls ser factories) (\<lambda>v. retM (Some v))
      else if typeId = CONSTANT_TYPE_PORTABLE then
        bindM (PortableSerializer_readObject cls ser) (\<lambda>v. retM (Some v))
      else read_stream ser)"

definition readObject_typed :: "'a ids_class \<Rightarrow> 'a data_factories \<Rightarrow> (int \<Rightarrow> 'a serializer option) \<Rightarrow>
    int \<Rightarrow> 'a option reader" where
  "readObject_typed cls factories serializerFor typeId =
     (case serializerFor typeId of
        None \<Rightarrow> throwM HazelcastSerializationException
      | Some ser \<Rightarrow> readObjectInternal cls factories typeId ser)"

definition readObject :: "data_io \<Rightarrow> 'a ids_class \<Rightarrow> 'a data_factories \<Rightarrow>
    (int \<Rightarrow> 'a serializer option) \<Rightarrow> 'a option reader" where
  "readObject io cls factories serializerFor =
     bindM (readInt io) (\<lambda>typeId. readObject_typed cls factories serializerFor typeId)"

section \<open>The serialization service\<close>

text \<open>
  \<open>getType\<close> and \<open>isNullData\<close> of \<open>Data\<close> have no body in the sources. \<open>partition_key\<close> tells the two
  overloads of \<open>writeHash\<close> apart: \<open>None\<close> for a class that is not \<open>PartitionAware\<close>,
  \<open>Some pk\<close> with the (nullable) partition hash of the key otherwise.
\<close>

record 'a ser_service =
  svc_io :: data_io
  svc_class :: "'a ids_class"
  getHazelcastTypeId :: "'a \<Rightarrow> int"
  serializerFor :: "int \<Rightarrow> 'a serializer option"
  factories :: "'a data_factories"
  getType :: "byte list \<Rightarrow> int"
  isNullData :: "byte list \<Rightarrow> bool"

definition writeHash :: "data_io \<Rightarrow> int option option \<Rightarrow> byte list" where
  "writeHash io partition_key =
     (case partition_key of
        None \<Rightarrow> writeInt io 0
      | Some None \<Rightarrow> []
      | Some (Some h) \<Rightarrow> writeInt io h)"

definition toData :: "'a ser_service \<Rightarrow> ('a option \<Rightarrow> int option option) \<Rightarrow> 'a option \<Rightarrow> byte list res" where
  "toData svc pkey object =
     (let out = writeHash (svc_io svc) (pkey object) in
      bindR (writeObject (svc_io svc) (getHazelcastTypeId svc) (serializerFor svc) False object)
        (\<lambda>bs. Inr (out @ bs)))"

definition toSharedData :: "'a ser_service \<Rightarrow> ('a option \<Rightarrow> int option option) \<Rightarrow> 'a option \<Rightarrow>
    byte list option res" where
  "toSharedData svc pkey object =
     (case object of
        None \<Rightarrow> Inr None
      | Some _ \<Rightarrow> bindR (toData svc pkey object) (\<lambda>d. Inr (Some d)))"

definition toObject :: "'a ser_service \<Rightarrow> byte list \<Rightarrow> 'a option res" where
  "toObject svc data =
     (if isNullData svc data then Inr None
      else let typeId = getType svc data in
        fst (readObject_typed (svc_class svc) (factories svc) (serializerFor svc) typeId (drop 8 data)))"

definition toObject_ptr :: "'a ser_service \<Rightarrow> byte list option \<Rightarrow> 'a option res" where
  "toObject_ptr svc data = (case data of None \<Rightarrow> Inr None | Some d \<Rightarrow> toObject svc d)"

definition toSharedObject :: "'a ser_service \<Rightarrow> byte list option \<Rightarrow> 'a option res" where
  "toSharedObject svc data = toObject_ptr svc data"

section \<open>What clients of the streams rely on\<close>

definition int32_range :: "int \<Rightarrow> bool" where
  "int32_range i = (- (2 ^ 31) \<le> i \<and> i < 2 ^ 31)"

definition int64_range :: "int \<Rightarrow> bool" where
  "int64_range i = (- (2 ^ 63) \<le> i \<and> i < 2 ^ 63)"

lemma wrap32_range [simp]: "int32_range i \<Longrightarrow> wrap32 i = i"
  by (simp add: int32_range_def wrap32_id)

lemma int32_range_wrap32 [simp]: "int32_range (wrap32 i)"
  by (simp add: int32_range_def wrap32_def)

lemma int32_range_length [simp]: "n < 2 ^ 31 \<Longrightarrow> int32_range (int n)"
  by (simp add: int32_range_def)

lemma int64_range_to_int64 [simp]: "n < 2 ^ 64 \<Longrightarrow> int64_range (to_int64 n)"
  by (simp add: int64_range_def to_int64_def)

text \<open>An element codec: what was written is what is read, and nothing more is consumed.\<close>

definition reads_back :: "('a \<Rightarrow> byte list) \<Rightarrow> 'a reader \<Rightarrow> 'a \<Rightarrow> bool" where
  "reads_back wr rd x \<longleftrightarrow> (\<forall>rest. rd (wr x @ rest) = (Inr x, rest))"

lemma reads_backD: "reads_back wr rd x \<Longrightarrow> rd (wr x @ rest) = (Inr x, rest)"
  by (simp add: reads_back_def)

lemma read_each_concat:
  "\<forall>x \<in> set xs. reads_back wr rd x \<Longrightarrow>
   read_each rd (length xs) (concat (map wr xs) @ rest) = (Inr xs, rest)"
  by (induction xs) (simp_all add: comp_simps reads_backD)

lemma readArray_writeArray:
  assumes int: "\<And>i. int32_range i \<Longrightarrow> reads_back wInt rInt i"
    and elem: "\<forall>x \<in> set xs. reads_back wr rd x"
    and len: "length xs < 2 ^ 31"
  shows "reads_back (writeArray wInt wr) (readArray rInt rd) (Some xs)"
  unfolding reads_back_def
proof
  fix rest
  have r: "int32_range (int (length xs))" using len by simp
  show "readArray rInt rd (writeArray wInt wr (Some xs) @ rest) = (Inr (Some xs), rest)"
    using reads_backD [OF int [OF r]] read_each_concat [OF elem] r
    by (auto simp: writeArray_def readArray_def Let_def comp_simps NULL_ARRAY_def)
qed

lemma readArray_writeArray_null:
  assumes "\<And>i. int32_range i \<Longrightarrow> reads_back wInt rInt i"
  shows "reads_back (writeArray wInt wr) (readArray rInt rd) None"
  using reads_backD [OF assms [of "- 1"]]
  by (simp add: reads_back_def writeArray_def readArray_def Let_def comp_simps NULL_ARRAY_def
      int32_range_def)

locale object_data_io =
  fixes io :: data_io
  assumes int_law: "int32_range i \<Longrightarrow> reads_back (writeInt io) (readInt io) i"
    and long_law: "int64_range i \<Longrightarrow> reads_back (writeLong io) (readLong io) i"
    and byte_array_law: "length xs < 2 ^ 31 \<Longrightarrow>
      reads_back (writeByteArray io) (readByteArray io) (Some xs)"
    and char_array_law: "length xs < 2 ^ 31 \<Longrightarrow>
      reads_back (writeCharArray io) (readCharArray io) (Some xs)"
begin

lemmas io_laws = reads_backD [OF int_law] reads_backD [OF long_law]
  reads_backD [OF byte_array_law] reads_backD [OF char_array_law]

end

section \<open>The big-endian stream\<close>

text \<open>
  The stream the library uses: integers in network order through the conversions of \<open>Bits.h\<close>,
  arrays through the two templates above.
\<close>

definition be_writeInt :: "bool \<Rightarrow> int \<Rightarrow> byte list" where
  "be_writeInt be i = nativeToBigEndian4 be (mem_store be 4 (nat (i mod 2 ^ 32)))"

definition be_readInt :: "bool \<Rightarrow> int reader" where
  "be_readInt be bs =
     (if length bs < 4 then (Inl HazelcastSerializationException, bs)
      else (Inr (sint (word_of_nat (mem_load be (bigEndianToNative4 be (take 4 bs))) :: int32_t)),
            drop 4 bs))"

definition be_writeLong :: "bool \<Rightarrow> int \<Rightarrow> byte list" where
  "be_writeLong be i = nativeToBigEndian8 be (mem_store be 8 (nat (i mod 2 ^ 64)))"

definition be_readLong :: "bool \<Rightarrow> int reader" where
  "be_readLong be bs =
     (if length bs < 8 then (Inl HazelcastSerializationException, bs)
      else (Inr (sint (word_of_nat (mem_load be (bigEndianToNative8 be (take 8 bs))) :: int64_t)),
            drop 8 bs))"

definition be_readByte :: "byte reader" where
  "be_readByte bs =
     (case bs of [] \<Rightarrow> (Inl HazelcastSerializationException, bs) | b # rest \<Rightarrow> (Inr b, rest))"

definition be_io :: "bool \<Rightarrow> data_io" where
  "be_io be =
     \<lparr>writeInt = be_writeInt be, readInt = be_readInt be,
      writeLong = be_writeLong be, readLong = be_readLong be,
      writeByteArray = writeArray (be_writeInt be) (\<lambda>b. [b]),
      readByteArray = readArray (be_readInt be) be_readByte,
      writeCharArray = writeArray (be_writeInt be) (\<lambda>b. [b]),
      readCharArray = readArray (be_readInt be) be_readByte\<rparr>"

lemma be_int_reads_back: "int32_range i \<Longrightarrow> reads_back (be_writeInt be) (be_readInt be) i"
proof -
  assume r: "int32_range i"
  have "(word_of_nat (nat (i mod 2 ^ 32)) :: int32_t) = word_of_int i"
    by (simp add: word_of_int_eq_iff word_of_nat_eq_iff take_bit_eq_mod)
  moreover have "sint (word_of_int i :: int32_t) = i"
    using r by (simp add: int32_range_def sint_sbintrunc' signed_take_bit_int_eq_self)
  moreover have "nat (i mod 2 ^ 32) mod 256 ^ 4 = nat (i mod 2 ^ 32)"
    by (simp add: nat_less_iff)
  ultimately show ?thesis
    by (simp add: reads_back_def be_writeInt_def be_readInt_def)
qed

lemma be_long_reads_back: "int64_range i \<Longrightarrow> reads_back (be_writeLong be) (be_readLong be) i"
proof -
  assume r: "int64_range i"
  have "(word_of_nat (nat (i mod 2 ^ 64)) :: int64_t) = word_of_int i"
    by (simp add: word_of_int_eq_iff word_of_nat_eq_iff take_bit_eq_mod)
  moreover have "sint (word_of_int i :: int64_t) = i"
    using r by (simp add: int64_range_def sint_sbintrunc' signed_take_bit_int_eq_self)
  moreover have "nat (i mod 2 ^ 64) mod 256 ^ 8 = nat (i mod 2 ^ 64)"
    by (simp add: nat_less_iff)
  ultimately show ?thesis
    by (simp add: reads_back_def be_writeLong_def be_readLong_def)
qed

lemma be_byte_reads_back: "reads_back (\<lambda>b. [b]) be_readByte b"
  by (simp add: reads_back_def be_readByte_def)

interpretation be_stream: object_data_io "be_io be" for be
  by unfold_locales
    (simp_all add: be_io_def be_int_reads_back be_long_reads_back readArray_writeArray
      be_byte_reads_back)

section \<open>Identified objects survive the service\<close>

text \<open>
  The documented wire format of an \<open>IdentifiedDataSerializable\<close> object: a marker, the factory id,
  the class id and the object's own bytes; \<open>Data::getType\<close> reads the integer that follows the
  partition hash.
\<close>

definition identified_format :: "'a ser_service \<Rightarrow> 'a serializer \<Rightarrow> byte list \<Rightarrow> bool" where
  "identified_format svc ser marker \<longleftrightarrow>
     serializerFor svc CONSTANT_TYPE_DATA = Some ser \<and>
     ser_typeId ser = CONSTANT_TYPE_DATA \<and>
     (\<forall>obj. getHazelcastTypeId svc obj = CONSTANT_TYPE_DATA) \<and>
     (\<forall>obj. write_data ser obj = bindR (writeData (svc_class svc) obj) (\<lambda>bs.
        Inr (marker @ writeInt (svc_io svc) (getFactoryId (svc_class svc) obj)
             @ writeInt (svc_io svc) (getClassId (svc_class svc) obj) @ bs))) \<and>
     (\<forall>rest. checkIfIdentifiedDataSerializable ser (marker @ rest) = (Inr (), rest)) \<and>
     ser_readInt ser = readInt (svc_io svc) \<and>
     (\<forall>i. length (writeInt (svc_io svc) i) = 4) \<and>
     (\<forall>h bs. getType svc (writeInt (svc_io svc) h @ writeInt (svc_io svc) CONSTANT_TYPE_DATA @ bs)
          = CONSTANT_TYPE_DATA
        \<and> \<not> isNullData svc (writeInt (svc_io svc) h @ writeInt (svc_io svc) CONSTANT_TYPE_DATA @ bs))"

lemma identified_toData:
  assumes "identified_format svc ser marker" "writeData (svc_class svc) obj = Inr bs" "pkey (Some obj) = None"
  shows "toData svc pkey (Some obj) = Inr (writeInt (svc_io svc) 0 @ writeInt (svc_io svc) CONSTANT_TYPE_DATA
      @ marker @ writeInt (svc_io svc) (getFactoryId (svc_class svc) obj)
      @ writeInt (svc_io svc) (getClassId (svc_class svc) obj) @ bs)"
  using assms
  by (simp add: identified_format_def toData_def Let_def writeObject_def writeInternal_def writeHash_def)

lemma identified_read:
  assumes io: "object_data_io (svc_io svc)" and fmt: "identified_format svc ser marker"
    and ids: "int32_range f" "int32_range c"
  shows "toObject svc (writeInt (svc_io svc) 0 @ writeInt (svc_io svc) CONSTANT_TYPE_DATA
      @ marker @ writeInt (svc_io svc) f @ writeInt (svc_io svc) c @ bs)
    = (case factories svc f of
         None \<Rightarrow> map_sum id Some (fst (readData (svc_class svc) (new_T (svc_class svc)) bs))
       | Some create \<Rightarrow> (case create c of
            None \<Rightarrow> Inl NullDereference
          | Some fresh \<Rightarrow> map_sum id Some (fst (readData (svc_class svc) fresh bs))))"
proof -
  note laws = object_data_io.io_laws [OF io]
  show ?thesis
    using fmt ids
    by (auto simp: identified_format_def toObject_def Let_def readObject_typed_def
        readObjectInternal_def DataSerializer_readObject_def comp_simps laws
        split: option.splits prod.splits sum.splits)
qed

lemma identified_roundtrip:
  assumes io: "object_data_io (svc_io svc)" and fmt: "identified_format svc ser marker"
    and w: "writeData (svc_class svc) obj = Inr bs" and pk: "pkey (Some obj) = None"
    and ids: "int32_range (getFactoryId (svc_class svc) obj)" "int32_range (getClassId (svc_class svc) obj)"
    and fac: "factories svc (getFactoryId (svc_class svc) obj) = Some create"
      "create (getClassId (svc_class svc) obj) = Some fresh"
    and r: "readData (svc_class svc) fresh bs = (Inr obj', rest)"
  shows "\<exists>d. toData svc pkey (Some obj) = Inr d \<and> toObject svc d = Inr (Some obj')"
  using identified_toData [where pkey = pkey, OF fmt w pk] identified_read [OF io fmt ids, of bs] fac r by simp

end
