(* ===== verification/Cache_Entry.thy ===== *)
theory Cache_Entry
  imports Hz_Serial
begin

text \<open>
  The values the cache stores (\<open>hazelcast_cache_entry.h\<close> and \<open>hazelcast_cache_entry.cc\<close>): header
  and body entries, their serialization, their copy constructors and the factory that the client
  library calls when it reads one back.
\<close>

section \<open>Envoy's header map\<close>

text \<open>
  \<open>Http::HeaderMapImpl\<close> belongs to Envoy and is a parameter: its constructor, its size, its entries
  in iteration order and \<open>addViaMove\<close>. \<open>hm_inline\<close> tells the keys that have a dedicated slot and
  occur at most once.
\<close>

type_synonym hdr = "byte list \<times> byte list"

record 'h header_ops =
  hm_new :: 'h
  hm_size :: "'h \<Rightarrow> nat"
  hm_entries :: "'h \<Rightarrow> hdr list"
  hm_addViaMove :: "byte list \<Rightarrow> byte list \<Rightarrow> 'h \<Rightarrow> 'h"
  hm_inline :: "byte list \<Rightarrow> bool"

section \<open>The entries\<close>

definition HAZELCAST_BODY_TYPE_ID :: int where "HAZELCAST_BODY_TYPE_ID = 100"
definition HAZELCAST_HEADER_TYPE_ID :: int where "HAZELCAST_HEADER_TYPE_ID = 101"
definition HAZELCAST_ENTRY_SERIALIZER_FACTORY_ID :: int where
  "HAZELCAST_ENTRY_SERIALIZER_FACTORY_ID = 1000"

record 'h HazelcastHeaderEntry =
  header_map_ptr :: "'h option"
  total_body_size :: nat

record HazelcastBodyEntry =
  body_buffer :: "byte list"

text \<open>The default constructor leaves the size as it finds it in memory.\<close>

definition HeaderEntry_new :: "nat \<Rightarrow> 'h HazelcastHeaderEntry" where
  "HeaderEntry_new junk = \<lparr>header_map_ptr = None, total_body_size = junk\<rparr>"

definition HeaderEntry_getClassId :: "'h HazelcastHeaderEntry \<Rightarrow> int" where
  "HeaderEntry_getClassId e = HAZELCAST_HEADER_TYPE_ID"

definition HeaderEntry_getFactoryId :: "'h HazelcastHeaderEntry \<Rightarrow> int" where
  "HeaderEntry_getFactoryId e = HAZELCAST_ENTRY_SERIALIZER_FACTORY_ID"

definition write_header :: "data_io \<Rightarrow> hdr \<Rightarrow> byte list" where
  "write_header io h = writeCharArray io (Some (fst h)) @ writeCharArray io (Some (snd h))"

definition HeaderEntry_writeData :: "data_io \<Rightarrow> 'h header_ops \<Rightarrow> 'h HazelcastHeaderEntry \<Rightarrow>
    byte list res" where
  "HeaderEntry_writeData io H e =
     (case header_map_ptr e of
        None \<Rightarrow> Inl NullDereference
      | Some h \<Rightarrow> Inr (writeInt io (wrap32 (int (hm_size H h)))
          @ concat (map (write_header io) (hm_entries H h))
          @ writeLong io (to_int64 (total_body_size e))))"

definition deref :: "'a option \<Rightarrow> ('s, 'a) comp" where
  "deref p = (case p of None \<Rightarrow> throwM NullDereference | Some v \<Rightarrow> retM v)"

fun read_headers :: "data_io \<Rightarrow> 'h header_ops \<Rightarrow> nat \<Rightarrow> 'h \<Rightarrow> 'h reader" where
  "read_headers io H 0 h = retM h"
| "read_headers io H (Suc n) h =
     bindM (bindM (readCharArray io) deref) (\<lambda>key.
     bindM (bindM (readCharArray io) deref) (\<lambda>val.
     read_headers io H n (hm_addViaMove H key val h)))"

definition HeaderEntry_readData :: "data_io \<Rightarrow> 'h header_ops \<Rightarrow> 'h HazelcastHeaderEntry \<Rightarrow>
    'h HazelcastHeaderEntry reader" where
  "HeaderEntry_readData io H e =
     bindM (readInt io) (\<lambda>headers_size.
     bindM (read_headers io H (nat headers_size) (hm_new H)) (\<lambda>h.
     bindM (readLong io) (\<lambda>total.
     retM (e\<lparr>header_map_ptr := Some h, total_body_size := to_uint64 total\<rparr>))))"

text \<open>
  The copy constructor: \<open>header_map_ptr\<close> of the new object is the null pointer when the lambda
  calls \<open>addViaMove\<close> through it.
\<close>

definition copy_step :: "'h header_ops \<Rightarrow> 'h HazelcastHeaderEntry res \<Rightarrow> hdr \<Rightarrow>
    'h HazelcastHeaderEntry res" where
  "copy_step H r kv = bindR r (\<lambda>this.
     case header_map_ptr this of
       None \<Rightarrow> Inl NullDereference
     | Some h \<Rightarrow> Inr (this\<lparr>header_map_ptr := Some (hm_addViaMove H (fst kv) (snd kv) h)\<rparr>))"

definition HeaderEntry_copy :: "'h header_ops \<Rightarrow> 'h HazelcastHeaderEntry \<Rightarrow>
    'h HazelcastHeaderEntry res" where
  "HeaderEntry_copy H other =
     (case header_map_ptr other of
        None \<Rightarrow> Inl NullDereference
      | Some h \<Rightarrow> foldl (copy_step H)
          (Inr \<lparr>header_map_ptr = None, total_body_size = total_body_size other\<rparr>) (hm_entries H h))"

definition BodyEntry_new :: HazelcastBodyEntry where
  "BodyEntry_new = \<lparr>body_buffer = []\<rparr>"

definition BodyEntry_copy :: "HazelcastBodyEntry \<Rightarrow> HazelcastBodyEntry" where
  "BodyEntry_copy other = \<lparr>body_buffer = body_buffer other\<rparr>"

definition BodyEntry_getFactoryId :: "HazelcastBodyEntry \<Rightarrow> int" where
  "BodyEntry_getFactoryId e = HAZELCAST_ENTRY_SERIALIZER_FACTORY_ID"

definition BodyEntry_getClassId :: "HazelcastBodyEntry \<Rightarrow> int" where
  "BodyEntry_getClassId e = HAZELCAST_BODY_TYPE_ID"

definition BodyEntry_writeData :: "data_io \<Rightarrow> HazelcastBodyEntry \<Rightarrow> byte list res" where
  "BodyEntry_writeData io e = Inr (writeByteArray io (Some (body_buffer e)))"

definition BodyEntry_readData :: "data_io \<Rightarrow> HazelcastBodyEntry \<Rightarrow> HazelcastBodyEntry reader" where
  "BodyEntry_readData io e =
     bindM (bindM (readByteArray io) deref) (\<lambda>bs. retM (e\<lparr>body_buffer := bs\<rparr>))"

section \<open>The factory and the virtual methods\<close>

text \<open>
  An \<open>IdentifiedDataSerializable\<close> of this program is one of the two entries; its virtual methods
  dispatch on which.
\<close>

datatype 'h cache_object =
    HeaderObj "'h HazelcastHeaderEntry"
  | BodyObj HazelcastBodyEntry

definition Factory_create :: "nat \<Rightarrow> int \<Rightarrow> 'h cache_object option" where
  "Factory_create junk classId =
     (if classId = HAZELCAST_BODY_TYPE_ID then Some (BodyObj BodyEntry_new)
      else if classId = HAZELCAST_HEADER_TYPE_ID then Some (HeaderObj (HeaderEntry_new junk))
      else None)"

definition cache_factories :: "nat \<Rightarrow> 'h cache_object data_factories" where
  "cache_factories junk = [HAZELCAST_ENTRY_SERIALIZER_FACTORY_ID \<mapsto> Factory_create junk]"

definition cache_class :: "data_io \<Rightarrow> 'h header_ops \<Rightarrow> 'h cache_object \<Rightarrow> 'h cache_object ids_class" where
  "cache_class io H fresh =
     \<lparr>new_T = fresh,
      getFactoryId = (\<lambda>obj. case obj of HeaderObj e \<Rightarrow> HeaderEntry_getFactoryId e
                                      | BodyObj e \<Rightarrow> BodyEntry_getFactoryId e),
      getClassId = (\<lambda>obj. case obj of HeaderObj e \<Rightarrow> HeaderEntry_getClassId e
                                    | BodyObj e \<Rightarrow> BodyEntry_getClassId e),
      writeData = (\<lambda>obj. case obj of HeaderObj e \<Rightarrow> HeaderEntry_writeData io H e
                                   | BodyObj e \<Rightarrow> BodyEntry_writeData io e),
      readData = (\<lambda>obj. case obj of
          HeaderObj e \<Rightarrow> bindM (HeaderEntry_readData io H e) (\<lambda>e'. retM (HeaderObj e'))
        | BodyObj e \<Rightarrow> bindM (BodyEntry_readData io e) (\<lambda>e'. retM (BodyObj e')))\<rparr>"

section \<open>Rebuilding a header map\<close>

text \<open>
  What the entries rely on of Envoy's map: a new map is empty, the size counts the entries, and
  adding a key appends an entry, unless the key has a dedicated slot that is taken (the values are
  then merged) or is a pseudo-header (it goes before the regular ones).
\<close>

definition is_pseudo :: "byte list \<Rightarrow> bool" where
  "is_pseudo k = (case k of [] \<Rightarrow> False | b # _ \<Rightarrow> b = 58)"

definition appends :: "'h header_ops \<Rightarrow> byte list \<Rightarrow> hdr list \<Rightarrow> bool" where
  "appends H k xs = ((hm_inline H k \<longrightarrow> k \<notin> fst ` set xs) \<and> (is_pseudo k \<longrightarrow> (\<forall>x \<in> set xs. is_pseudo (fst x))))"

definition header_map_contract :: "'h header_ops \<Rightarrow> bool" where
  "header_map_contract H \<longleftrightarrow>
     hm_entries H (hm_new H) = [] \<and>
     (\<forall>h. hm_size H h = length (hm_entries H h)) \<and>
     (\<forall>h k v. appends H k (hm_entries H h) \<longrightarrow>
        hm_entries H (hm_addViaMove H k v h) = hm_entries H h @ [(k, v)])"

text \<open>The iteration order of a map that Envoy built: slots once, pseudo-headers first.\<close>

fun header_list_ok :: "'h header_ops \<Rightarrow> hdr list \<Rightarrow> hdr list \<Rightarrow> bool" where
  "header_list_ok H done [] = True"
| "header_list_ok H done (x # xs) = (appends H (fst x) done \<and> header_list_ok H (done @ [x]) xs)"

definition small_headers :: "hdr list \<Rightarrow> bool" where
  "small_headers xs = (length xs < 2 ^ 31 \<and>
     (\<forall>x \<in> set xs. length (fst x) < 2 ^ 31 \<and> length (snd x) < 2 ^ 31))"

definition storable_header :: "'h header_ops \<Rightarrow> 'h HazelcastHeaderEntry \<Rightarrow> bool" where
  "storable_header H e =
     (case header_map_ptr e of
        None \<Rightarrow> False
      | Some h \<Rightarrow> header_list_ok H [] (hm_entries H h) \<and> small_headers (hm_entries H h)
                 \<and> total_body_size e < 2 ^ 64)"

definition same_header :: "'h header_ops \<Rightarrow> 'h HazelcastHeaderEntry \<Rightarrow> 'h HazelcastHeaderEntry \<Rightarrow> bool" where
  "same_header H e e' =
     (map_option (hm_entries H) (header_map_ptr e) = map_option (hm_entries H) (header_map_ptr e')
      \<and> total_body_size e = total_body_size e')"

lemma deref_simps [simp]: "deref (Some v) = retM v" "deref None = throwM NullDereference"
  by (simp_all add: deref_def)

lemma read_headers_rebuilds:
  assumes io: "object_data_io io" and H: "header_map_contract H"
    and ok: "header_list_ok H (hm_entries H h) xs"
    and small: "\<forall>x \<in> set xs. length (fst x) < 2 ^ 31 \<and> length (snd x) < 2 ^ 31"
  shows "\<exists>h'. read_headers io H (length xs) h (concat (map (write_header io) xs) @ rest) = (Inr h', rest)
    \<and> hm_entries H h' = hm_entries H h @ xs"
  using ok small
proof (induction xs arbitrary: h)
  case Nil
  then show ?case by (simp add: retM_def)
next
  case (Cons x xs)
  let ?h = "hm_addViaMove H (fst x) (snd x) h"
  have e: "hm_entries H ?h = hm_entries H h @ [x]"
    using H Cons.prems by (simp add: header_map_contract_def)
  then obtain h' where h': "read_headers io H (length xs) ?h (concat (map (write_header io) xs) @ rest) = (Inr h', rest)"
    "hm_entries H h' = hm_entries H ?h @ xs"
    using Cons.IH [of ?h] Cons.prems by auto
  have "read_headers io H (length (x # xs)) h (concat (map (write_header io) (x # xs)) @ rest) = (Inr h', rest)"
    using Cons.prems h'
    by (simp add: write_header_def bindM_def retM_def object_data_io.io_laws [OF io])
  with h' e show ?case by auto
qed

lemma HeaderEntry_reads_back:
  assumes io: "object_data_io io" and H: "header_map_contract H" and e: "storable_header H e"
  shows "\<exists>bs e'. HeaderEntry_writeData io H e = Inr bs
    \<and> HeaderEntry_readData io H e0 (bs @ rest) = (Inr e', rest) \<and> same_header H e e'"
proof -
  obtain h where h: "header_map_ptr e = Some h"
    using e by (auto simp: storable_header_def split: option.splits)
  let ?xs = "hm_entries H h"
  have s: "header_list_ok H [] ?xs" "small_headers ?xs" "total_body_size e < 2 ^ 64"
    using e h by (auto simp: storable_header_def)
  have new: "hm_entries H (hm_new H) = []" "hm_size H h = length ?xs"
    using H by (auto simp: header_map_contract_def)
  obtain h' where h': "hm_entries H h' = ?xs"
    "read_headers io H (length ?xs) (hm_new H)
      (concat (map (write_header io) ?xs) @ writeLong io (to_int64 (total_body_size e)) @ rest)
      = (Inr h', writeLong io (to_int64 (total_body_size e)) @ rest)"
    using read_headers_rebuilds [OF io H, of "hm_new H" ?xs] s new by (auto simp: small_headers_def)
  have len: "int32_range (int (length ?xs))"
    using s(2) by (simp add: small_headers_def)
  let ?e = "e0\<lparr>header_map_ptr := Some h', total_body_size := total_body_size e\<rparr>"
  have w: "HeaderEntry_writeData io H e = Inr (writeInt io (int (length ?xs))
      @ concat (map (write_header io) ?xs) @ writeLong io (to_int64 (total_body_size e)))"
    using len by (simp add: HeaderEntry_writeData_def h new)
  moreover have "HeaderEntry_readData io H e0 ((writeInt io (int (length ?xs))
      @ concat (map (write_header io) ?xs) @ writeLong io (to_int64 (total_body_size e))) @ rest) = (Inr ?e, rest)"
    using h' len s(3)
    by (simp add: HeaderEntry_readData_def bindM_def retM_def object_data_io.io_laws [OF io]
        to_uint64_to_int64)
  moreover have "same_header H e ?e"
    using h h' by (simp add: same_header_def)
  ultimately show ?thesis by blast
qed

lemma BodyEntry_reads_back:
  assumes io: "object_data_io io" and "length (body_buffer e) < 2 ^ 31"
  shows "\<exists>bs. BodyEntry_writeData io e = Inr bs \<and> BodyEntry_readData io e0 (bs @ rest) = (Inr e, rest)"
  using assms
  by (simp add: BodyEntry_writeData_def BodyEntry_readData_def bindM_def retM_def
      object_data_io.io_laws [OF io])

section \<open>A service for the cache's entries\<close>

text \<open>
  The serialization service with the cache's factory registered, over the big-endian stream, with
  the documented behaviour of the parts that have no body in the sources.
\<close>

definition std_serializer :: "data_io \<Rightarrow> 'a ids_class \<Rightarrow> 'a serializer" where
  "std_serializer io cls =
     \<lparr>ser_typeId = CONSTANT_TYPE_DATA,
      write_data = (\<lambda>obj. bindR (writeData cls obj) (\<lambda>bs.
        Inr ([1] @ writeInt io (getFactoryId cls obj) @ writeInt io (getClassId cls obj) @ bs))),
      write_portable = (\<lambda>_. Inl HazelcastSerializationException),
      write_stream = (\<lambda>_. Inl HazelcastSerializationException),
      read_stream = throwM HazelcastSerializationException,
      checkIfIdentifiedDataSerializable = (\<lambda>bs. case bs of
          [] \<Rightarrow> (Inl HazelcastSerializationException, bs)
        | b # rest \<Rightarrow> if b = 1 then (Inr (), rest) else (Inl HazelcastSerializationException, rest)),
      ser_readInt = readInt io,
      createNewPortableInstance = (\<lambda>_ _. None),
      read_portable = (\<lambda>_ _ _. throwM HazelcastSerializationException)\<rparr>"

definition be_type :: "bool \<Rightarrow> byte list \<Rightarrow> int" where
  "be_type be d = (case fst (be_readInt be (drop 4 d)) of Inl _ \<Rightarrow> CONSTANT_TYPE_NULL | Inr t \<Rightarrow> t)"

definition cache_service :: "bool \<Rightarrow> 'h header_ops \<Rightarrow> nat \<Rightarrow> 'h cache_object ser_service" where
  "cache_service be H junk =
     (let cls = cache_class (be_io be) H (BodyObj BodyEntry_new) in
      \<lparr>svc_io = be_io be, svc_class = cls,
       getHazelcastTypeId = (\<lambda>_. CONSTANT_TYPE_DATA),
       serializerFor = (\<lambda>t. if t = CONSTANT_TYPE_DATA then Some (std_serializer (be_io be) cls) else None),
       factories = cache_factories junk,
       getType = be_type be,
       isNullData = (\<lambda>d. length d \<le> 8 \<and> be_type be d = CONSTANT_TYPE_NULL)\<rparr>)"

lemma length_be_writeInt [simp]: "length (be_writeInt be i) = 4"
  by (simp add: be_writeInt_def)

lemma be_type_header [simp]:
  assumes "int32_range t"
  shows "be_type be (be_writeInt be h @ be_writeInt be t @ bs) = t"
  using reads_backD [OF be_int_reads_back [OF assms]] by (simp add: be_type_def)

lemma cache_service_io: "object_data_io (svc_io (cache_service be H junk))"
  using be_stream.object_data_io_axioms by (simp add: cache_service_def Let_def)

lemma cache_service_format: "\<exists>ser. identified_format (cache_service be H junk) ser [1]"
proof
  have "int32_range CONSTANT_TYPE_DATA"
    by (simp add: CONSTANT_TYPE_DATA_def int32_range_def)
  then show "identified_format (cache_service be H junk)
      (std_serializer (be_io be) (cache_class (be_io be) H (BodyObj BodyEntry_new))) [1]"
    by (simp add: identified_format_def cache_service_def Let_def std_serializer_def be_io_def)
      (simp add: CONSTANT_TYPE_DATA_def CONSTANT_TYPE_NULL_def)
qed

lemmas cache_ids = HAZELCAST_BODY_TYPE_ID_def HAZELCAST_HEADER_TYPE_ID_def
  HAZELCAST_ENTRY_SERIALIZER_FACTORY_ID_def HeaderEntry_getFactoryId_def HeaderEntry_getClassId_def
  BodyEntry_getFactoryId_def BodyEntry_getClassId_def

text \<open>Envoy's header map, as its documentation describes it, on a plain list of entries.\<close>

fun merge_header :: "byte list \<Rightarrow> byte list \<Rightarrow> hdr list \<Rightarrow> hdr list" where
  "merge_header k v [] = []"
| "merge_header k v (x # xs) = (if fst x = k then (k, snd x @ [44] @ v) # xs else x # merge_header k v xs)"

definition list_headers :: "byte list set \<Rightarrow> hdr list header_ops" where
  "list_headers inl =
     \<lparr>hm_new = [], hm_size = length, hm_entries = id,
      hm_addViaMove = (\<lambda>k v xs.
        if k \<in> inl \<and> k \<in> fst ` set xs then merge_header k v xs
        else if is_pseudo k then
          takeWhile (is_pseudo \<circ> fst) xs @ [(k, v)] @ dropWhile (is_pseudo \<circ> fst) xs
        else xs @ [(k, v)]),
      hm_inline = (\<lambda>k. k \<in> inl)\<rparr>"

lemma list_headers_contract: "header_map_contract (list_headers inl)"
proof -
  have "appends (list_headers inl) k xs \<Longrightarrow>
      hm_addViaMove (list_headers inl) k v xs = xs @ [(k, v)]" for k v xs
    by (auto simp: appends_def list_headers_def takeWhile_eq_all_conv dropWhile_eq_Nil_conv)
  then show ?thesis
    unfolding header_map_contract_def by (simp add: list_headers_def)
qed

section \<open>Through the service\<close>

lemma header_service_roundtrip:
  assumes "object_data_io (svc_io svc)" "identified_format svc ser marker"
    and cls: "svc_class svc = cache_class (svc_io svc) H fresh" "factories svc = cache_factories junk"
    and "header_map_contract H" "storable_header H e"
  shows "\<exists>d e'. toData svc (\<lambda>_. None) (Some (HeaderObj e)) = Inr d
    \<and> toObject svc d = Inr (Some (HeaderObj e')) \<and> same_header H e e'"
proof -
  obtain bs e' where rw: "HeaderEntry_writeData (svc_io svc) H e = Inr bs"
    "HeaderEntry_readData (svc_io svc) H (HeaderEntry_new junk) (bs @ []) = (Inr e', [])" "same_header H e e'"
    using HeaderEntry_reads_back [OF assms(1,5,6), of "HeaderEntry_new junk" "[]"] by auto
  have "\<exists>d. toData svc (\<lambda>_. None) (Some (HeaderObj e)) = Inr d \<and> toObject svc d = Inr (Some (HeaderObj e'))"
    by (rule identified_roundtrip [OF assms(1,2), where bs = bs and create = "Factory_create junk"
          and fresh = "HeaderObj (HeaderEntry_new junk)" and rest = "[]"])
      (use rw in \<open>simp_all add: cls cache_class_def cache_ids int32_range_def cache_factories_def
          Factory_create_def bindM_def retM_def\<close>)
  with rw show ?thesis by blast
qed

lemma body_service_roundtrip:
  assumes "object_data_io (svc_io svc)" "identified_format svc ser marker"
    and cls: "svc_class svc = cache_class (svc_io svc) H fresh" "factories svc = cache_factories junk"
    and "length (body_buffer e) < 2 ^ 31"
  shows "\<exists>d. toData svc (\<lambda>_. None) (Some (BodyObj e)) = Inr d \<and> toObject svc d = Inr (Some (BodyObj e))"
proof -
  obtain bs where rw: "BodyEntry_writeData (svc_io svc) e = Inr bs"
    "BodyEntry_readData (svc_io svc) BodyEntry_new (bs @ []) = (Inr e, [])"
    using BodyEntry_reads_back [OF assms(1,5), of BodyEntry_new "[]"] by auto
  show ?thesis
    by (rule identified_roundtrip [OF assms(1,2), where bs = bs and create = "Factory_create junk"
          and fresh = "BodyObj BodyEntry_new" and rest = "[]"])
      (use rw in \<open>simp_all add: cls cache_class_def cache_ids int32_range_def cache_factories_def
          Factory_create_def bindM_def retM_def\<close>)
qed

section \<open>Properties\<close>

text \<open>Claim C37: a header entry whose map Envoy could have built survives serialization: the service
  encodes it with the entry's factory and class ids, and decoding builds, through the cache's own
  factory, an entry with the same headers in the same order and the same total body size.\<close>

theorem header_entry_roundtrip:
  assumes "object_data_io (svc_io svc)" "identified_format svc ser marker"
    and cls: "svc_class svc = cache_class (svc_io svc) H fresh" "factories svc = cache_factories junk"
    and "header_map_contract H" "storable_header H e"
  shows "\<exists>d e'. toData svc (\<lambda>_. None) (Some (HeaderObj e)) = Inr d
    \<and> toObject svc d = Inr (Some (HeaderObj e')) \<and> same_header H e e'"
  using assms by (rule header_service_roundtrip)

theorem header_entry_roundtrip_witness:
  "\<exists>d e'. toData (cache_service False (list_headers {[1]}) 7) (\<lambda>_. None)
       (Some (HeaderObj \<lparr>header_map_ptr = Some [([58, 1], [2]), ([1], [3])], total_body_size = 5\<rparr>)) = Inr d
    \<and> toObject (cache_service False (list_headers {[1]}) 7) d = Inr (Some (HeaderObj e'))
    \<and> same_header (list_headers {[1]})
       \<lparr>header_map_ptr = Some [([58, 1], [2]), ([1], [3])], total_body_size = 5\<rparr> e'"
proof -
  let ?H = "list_headers {[1]}"
  have s: "storable_header ?H \<lparr>header_map_ptr = Some [([58, 1], [2]), ([1], [3])], total_body_size = 5\<rparr>"
    by (simp add: storable_header_def small_headers_def appends_def list_headers_def is_pseudo_def)
  obtain ser where f: "identified_format (cache_service False ?H 7) ser [1]"
    using cache_service_format by blast
  show ?thesis
    by (rule header_entry_roundtrip [OF cache_service_io f _ _ list_headers_contract s])
      (simp_all add: cache_service_def Let_def)
qed

text \<open>A body entry survives serialization through the service byte for byte.\<close>

theorem body_entry_roundtrip:
  assumes "object_data_io (svc_io svc)" "identified_format svc ser marker"
    and cls: "svc_class svc = cache_class (svc_io svc) H fresh" "factories svc = cache_factories junk"
    and "length (body_buffer e) < 2 ^ 31"
  shows "\<exists>d. toData svc (\<lambda>_. None) (Some (BodyObj e)) = Inr d \<and> toObject svc d = Inr (Some (BodyObj e))"
  using assms by (rule body_service_roundtrip)

theorem body_entry_roundtrip_witness:
  "\<exists>d. toData (cache_service True (list_headers {}) 0) (\<lambda>_. None) (Some (BodyObj \<lparr>body_buffer = [1, 2, 3]\<rparr>)) = Inr d
     \<and> toObject (cache_service True (list_headers {}) 0) d = Inr (Some (BodyObj \<lparr>body_buffer = [1, 2, 3]\<rparr>))"
proof -
  obtain ser where f: "identified_format (cache_service True (list_headers {}) 0) ser [1]"
    using cache_service_format by blast
  show ?thesis
    by (rule body_entry_roundtrip [OF cache_service_io f])
      (simp_all add: cache_service_def Let_def)
qed

text \<open>The copy constructor of a header entry, which a near cache needs, cannot copy any
  response: it dereferences the new object's own null header map on the first header, and with no
  header at all it yields an entry without a header map.\<close>

theorem header_copy_never_copies:
  "HeaderEntry_copy H other =
     (case header_map_ptr other of
        None \<Rightarrow> Inl NullDereference
      | Some h \<Rightarrow> if hm_entries H h = []
          then Inr \<lparr>header_map_ptr = None, total_body_size = total_body_size other\<rparr>
          else Inl NullDereference)"
proof -
  have stuck: "foldl (copy_step H) (Inl e) xs = Inl e" for e xs
    by (induction xs) (simp_all add: copy_step_def)
  have "foldl (copy_step H) (Inr \<lparr>header_map_ptr = None, total_body_size = n\<rparr>) xs =
      (if xs = [] then Inr \<lparr>header_map_ptr = None, total_body_size = n\<rparr> else Inl NullDereference)" for n xs
  proof (cases xs)
    case (Cons x ys)
    then show ?thesis using stuck by (simp add: copy_step_def [of H _ x])
  qed simp
  then show ?thesis
    by (simp add: HeaderEntry_copy_def split: option.split)
qed

text \<open>Reading an object whose factory is the cache's and whose class id the factory does
  not know dereferences the null pointer that the factory returns, for every such id.\<close>

theorem unknown_class_dereferences_null:
  assumes "object_data_io (svc_io svc)" "identified_format svc ser marker"
    and "factories svc = cache_factories junk"
    and "int32_range c" "c \<noteq> HAZELCAST_BODY_TYPE_ID" "c \<noteq> HAZELCAST_HEADER_TYPE_ID"
  shows "toObject svc (writeInt (svc_io svc) 0 @ writeInt (svc_io svc) CONSTANT_TYPE_DATA
      @ marker @ writeInt (svc_io svc) HAZELCAST_ENTRY_SERIALIZER_FACTORY_ID @ writeInt (svc_io svc) c @ bs)
    = Inl NullDereference"
  using assms(3-)
  by (subst identified_read [OF assms(1,2)])
    (simp_all add: cache_factories_def Factory_create_def HAZELCAST_ENTRY_SERIALIZER_FACTORY_ID_def
      int32_range_def)

theorem unknown_class_dereferences_null_witness:
  "toObject (cache_service False (list_headers {}) 0)
     (be_writeInt False 0 @ be_writeInt False CONSTANT_TYPE_DATA @ [1] @
      be_writeInt False HAZELCAST_ENTRY_SERIALIZER_FACTORY_ID @ be_writeInt False 102 @ [9]) = Inl NullDereference"
proof -
  let ?svc = "cache_service False (list_headers {}) 0"
  obtain ser where f: "identified_format ?svc ser [1]"
    using cache_service_format by blast
  have io: "svc_io ?svc = be_io False" "factories ?svc = cache_factories 0"
    by (simp_all add: cache_service_def Let_def)
  show ?thesis
    using unknown_class_dereferences_null [OF cache_service_io f io(2), of 102 "[9]"]
    by (simp add: io be_io_def int32_range_def cache_ids)
qed

end
