(* ===== verification/Http_Cache.thy ===== *)
theory Http_Cache
  imports Cache_Entry
begin

text \<open>
  The cache itself (\<open>hazelcast_http_cache.h\<close>, \<open>hazelcast_http_cache.cc\<close>): lookup contexts, insert
  contexts, the cache object and its factory. A response's headers are one entry of the header map,
  its body is cut into partitions stored under the decimal hash followed by the partition's number.
\<close>

section \<open>Parameters\<close>

text \<open>
  Envoy's side: \<open>stableHashKey\<close> of the request's key, \<open>makeLookupResult\<close>, the empty
  \<open>LookupResult\<close>, the copy of a header map, and \<open>length\<close> and \<open>copyOut\<close> of a buffer.
\<close>

record ('req, 'h, 'res, 'buf) envoy_ops =
  stableHashKey :: "'req \<Rightarrow> nat"
  makeLookupResult :: "'req \<Rightarrow> 'h option \<Rightarrow> nat \<Rightarrow> 'res"
  emptyLookupResult :: 'res
  copyHeaderMap :: "'h \<Rightarrow> 'h"
  buf_length :: "'buf \<Rightarrow> nat"
  buf_copyOut :: "'buf \<Rightarrow> nat \<Rightarrow> nat \<Rightarrow> byte list res"

text \<open>The two distributed maps and the operations \<open>getMap\<close> gives on them.\<close>

record ('bm, 'hm) cluster =
  body_map :: 'bm
  header_map :: 'hm

record ('bm, 'hm, 'h) map_ops =
  body_ops :: "('bm, string, HazelcastBodyEntry) imap_ops"
  hdr_ops :: "('hm, int, 'h HazelcastHeaderEntry) imap_ops"

definition on_bodies :: "('bm, 'a) comp \<Rightarrow> (('bm, 'hm) cluster, 'a) comp" where
  "on_bodies f c = (case f (body_map c) of (r, m) \<Rightarrow> (r, c\<lparr>body_map := m\<rparr>))"

definition on_headers :: "('hm, 'a) comp \<Rightarrow> (('bm, 'hm) cluster, 'a) comp" where
  "on_headers f c = (case f (header_map c) of (r, m) \<Rightarrow> (r, c\<lparr>header_map := m\<rparr>))"

section \<open>The cache object\<close>

record HazelcastConfig =
  group_name :: string
  group_password :: string
  ip :: string
  port :: int
  cfg_body_partition_size :: int
  body_map_name :: string
  header_map_name :: string

record 'cl HazelcastHttpCache =
  hz_config :: HazelcastConfig
  hz :: "'cl option"
  BODY_PARTITION_SIZE :: nat

definition DEFAULT_PARTITION_SIZE :: nat where
  "DEFAULT_PARTITION_SIZE = 1024"

definition HttpCache_new :: "HazelcastConfig \<Rightarrow> 'cl HazelcastHttpCache" where
  "HttpCache_new config =
     \<lparr>hz_config = config, hz = None,
      BODY_PARTITION_SIZE = (if cfg_body_partition_size config = 0 then DEFAULT_PARTITION_SIZE
                             else to_uint64 (cfg_body_partition_size config))\<rparr>"

definition bodySizePerEntry :: "'cl HazelcastHttpCache \<Rightarrow> nat" where
  "bodySizePerEntry cache = BODY_PARTITION_SIZE cache"

text \<open>Every access to a map goes through the client pointer.\<close>

definition via_client :: "'cl HazelcastHttpCache \<Rightarrow> ('s, 'a) comp \<Rightarrow> ('s, 'a) comp" where
  "via_client cache f = (case hz cache of None \<Rightarrow> throwM NullDereference | Some _ \<Rightarrow> f)"

definition lookupBody :: "('bm, 'hm, 'h) map_ops \<Rightarrow> 'cl HazelcastHttpCache \<Rightarrow> string \<Rightarrow>
    (('bm, 'hm) cluster, HazelcastBodyEntry option) comp" where
  "lookupBody M cache key = via_client cache (on_bodies (imap_get (body_ops M) key))"

definition lookupHeader :: "('bm, 'hm, 'h) map_ops \<Rightarrow> 'cl HazelcastHttpCache \<Rightarrow> nat \<Rightarrow>
    (('bm, 'hm) cluster, 'h HazelcastHeaderEntry option) comp" where
  "lookupHeader M cache hash_key =
     via_client cache (on_headers (imap_get (hdr_ops M) (to_int64 hash_key)))"

definition cache_insertBody :: "('bm, 'hm, 'h) map_ops \<Rightarrow> 'cl HazelcastHttpCache \<Rightarrow> string \<Rightarrow>
    HazelcastBodyEntry \<Rightarrow> (('bm, 'hm) cluster, unit) comp" where
  "cache_insertBody M cache hash_key entry =
     via_client cache (on_bodies (imap_put (body_ops M) hash_key entry))"

definition cache_insertHeader :: "('bm, 'hm, 'h) map_ops \<Rightarrow> 'cl HazelcastHttpCache \<Rightarrow> nat \<Rightarrow>
    'h HazelcastHeaderEntry \<Rightarrow> (('bm, 'hm) cluster, unit) comp" where
  "cache_insertHeader M cache hash_key entry =
     via_client cache (on_headers (imap_put (hdr_ops M) (to_int64 hash_key) entry))"

definition clearMaps :: "('bm, 'hm, 'h) map_ops \<Rightarrow> 'cl HazelcastHttpCache \<Rightarrow>
    (('bm, 'hm) cluster, unit) comp" where
  "clearMaps M cache =
     bindM (via_client cache (on_bodies (imap_clear (body_ops M))))
       (\<lambda>_. via_client cache (on_headers (imap_clear (hdr_ops M))))"

text \<open>The client configuration that \<open>connect\<close> builds; building the client is the library's work.\<close>

record client_settings =
  cs_group :: string
  cs_address :: "string \<times> int"
  cs_factory :: int

definition connect :: "(client_settings \<Rightarrow> 'cl res) \<Rightarrow> 'cl HazelcastHttpCache \<Rightarrow>
    'cl HazelcastHttpCache res" where
  "connect make_client cache =
     (case hz cache of
        Some _ \<Rightarrow> Inr cache
      | None \<Rightarrow>
          bindR (make_client
            \<lparr>cs_group = group_name (hz_config cache),
             cs_address = (ip (hz_config cache), port (hz_config cache)),
             cs_factory = HAZELCAST_ENTRY_SERIALIZER_FACTORY_ID\<rparr>)
            (\<lambda>cl. Inr (cache\<lparr>hz := Some cl\<rparr>)))"

text \<open>\<open>disconnect\<close> shuts the client down and releases the pointer; the list is the shutdown calls.\<close>

definition disconnect :: "'cl HazelcastHttpCache \<Rightarrow> 'cl list \<times> 'cl HazelcastHttpCache" where
  "disconnect cache =
     (case hz cache of
        Some cl \<Rightarrow> ([cl], cache\<lparr>hz := None\<rparr>)
      | None \<Rightarrow> ([], cache))"

definition HttpCache_destroy :: "'cl HazelcastHttpCache \<Rightarrow> 'cl list" where
  "HttpCache_destroy cache = fst (disconnect cache)"

definition updateHeaders :: "bool \<Rightarrow> bool \<Rightarrow> ('s, unit) comp" where
  "updateHeaders has_context has_headers =
     (if \<not> has_context then throwM AssertionFailure
      else if \<not> has_headers then throwM AssertionFailure
      else throwM AssertionFailure)"

record CacheInfo =
  info_name :: string
  supports_range_requests :: bool

definition cacheInfo :: CacheInfo where
  "cacheInfo = \<lparr>info_name = ''envoy.extensions.http.cache.hazelcast'', supports_range_requests = True\<rparr>"

text \<open>The factory: a new cache on every call, destroying the one it held.\<close>

definition getCache :: "(client_settings \<Rightarrow> 'cl res) \<Rightarrow> HazelcastConfig \<Rightarrow>
    'cl HazelcastHttpCache option \<Rightarrow> 'cl HazelcastHttpCache res \<times> 'cl list" where
  "getCache make_client config held =
     (connect make_client (HttpCache_new config),
      case held of None \<Rightarrow> [] | Some old \<Rightarrow> HttpCache_destroy old)"

section \<open>Lookup\<close>

record 'req LookupContext =
  lookup_request :: 'req
  lc_total_body_size :: nat
  lc_hash_key :: nat
  lc_partition_size :: nat

definition makeLookupContext :: "('req, 'h, 'res, 'buf) envoy_ops \<Rightarrow> nat \<Rightarrow> 'cl HazelcastHttpCache \<Rightarrow>
    'req \<Rightarrow> 'req LookupContext" where
  "makeLookupContext E junk cache request =
     \<lparr>lookup_request = request, lc_total_body_size = junk,
      lc_hash_key = stableHashKey E request, lc_partition_size = bodySizePerEntry cache\<rparr>"

definition getHeaders :: "('req, 'h, 'res, 'buf) envoy_ops \<Rightarrow> ('bm, 'hm, 'h) map_ops \<Rightarrow>
    'cl HazelcastHttpCache \<Rightarrow> 'req LookupContext \<Rightarrow> (('bm, 'hm) cluster, 'res \<times> 'req LookupContext) comp" where
  "getHeaders E M cache lc =
     bindM (lookupHeader M cache (lc_hash_key lc)) (\<lambda>header_entry.
       case header_entry of
         Some e \<Rightarrow>
           retM (makeLookupResult E (lookup_request lc) (header_map_ptr e) (total_body_size e),
                 lc\<lparr>lc_total_body_size := total_body_size e\<rparr>)
       | None \<Rightarrow> retM (emptyLookupResult E, lc))"

definition body_key :: "nat \<Rightarrow> nat \<Rightarrow> string" where
  "body_key hash i = nat_to_string hash @ nat_to_string i"

text \<open>Copying \<open>n\<close> bytes that start \<open>start\<close> bytes into a vector.\<close>

definition copy_from :: "byte list \<Rightarrow> nat \<Rightarrow> nat \<Rightarrow> byte list res" where
  "copy_from buf start n =
     (if start + n \<le> length buf then Inr (take n (drop start buf)) else Inl OutOfBounds)"

definition getBody :: "('bm, 'hm, 'h) map_ops \<Rightarrow> 'cl HazelcastHttpCache \<Rightarrow> 'req LookupContext \<Rightarrow>
    nat \<Rightarrow> nat \<Rightarrow> (('bm, 'hm) cluster, byte list option) comp" where
  "getBody M cache lc range_begin range_end =
     (if \<not> range_end \<le> lc_total_body_size lc then throwM AssertionFailure
      else let P = lc_partition_size lc; body_index = range_begin div P in
        bindM (lookupBody M cache (body_key (lc_hash_key lc) body_index)) (\<lambda>body.
          case body of
            None \<Rightarrow> retM None
          | Some b \<Rightarrow>
              (let start = range_begin mod P in
               bindM (liftR (if range_end < u64 ((body_index + 1) * P)
                             then copy_from (body_buffer b) start (range_end mod P)
                             else copy_from (body_buffer b) start
                                    (u64_sub (length (body_buffer b)) start)))
                 (\<lambda>data. retM (Some data)))))"

definition getTrailers :: "'a option" where
  "getTrailers = None"

section \<open>Insertion\<close>

record 'h InsertContext =
  ic_header :: "'h HazelcastHeaderEntry"
  body_order :: int
  ic_hash_key :: nat
  ic_partition_size :: nat
  available_buffer_bytes :: nat
  ic_total_body_size :: nat
  buffer_vector :: "byte list"

type_synonym ('bm, 'hm, 'h, 'a) ins = "(('bm, 'hm) cluster \<times> 'h InsertContext, 'a) comp"

definition makeInsertContext :: "nat \<Rightarrow> 'cl HazelcastHttpCache \<Rightarrow> 'req LookupContext option \<Rightarrow>
    'h InsertContext res" where
  "makeInsertContext junk cache lookup_context =
     (case lookup_context of
        None \<Rightarrow> Inl AssertionFailure
      | Some lc \<Rightarrow> Inr
          \<lparr>ic_header = HeaderEntry_new junk, body_order = 0, ic_hash_key = lc_hash_key lc,
           ic_partition_size = bodySizePerEntry cache,
           available_buffer_bytes = bodySizePerEntry cache,
           ic_total_body_size = 0, buffer_vector = []\<rparr>)"

definition flushBuffer :: "('bm, 'hm, 'h) map_ops \<Rightarrow> 'cl HazelcastHttpCache \<Rightarrow> ('bm, 'hm, 'h, unit) ins" where
  "flushBuffer M cache = (\<lambda>(c, ic).
     let buffer_size = u64_sub (ic_partition_size ic) (available_buffer_bytes ic);
         entry = \<lparr>body_buffer = buffer_vector ic\<rparr>;
         key = nat_to_string (ic_hash_key ic) @ int_to_string (body_order ic);
         ic1 = ic\<lparr>ic_total_body_size := u64 (ic_total_body_size ic + buffer_size),
                  buffer_vector := [], body_order := wrap32 (body_order ic + 1)\<rparr>
     in case cache_insertBody M cache key entry c of
          (Inl e, c') \<Rightarrow> (Inl e, (c', ic1))
        | (Inr _, c') \<Rightarrow> (Inr (), (c', ic1\<lparr>available_buffer_bytes := ic_partition_size ic\<rparr>)))"

definition flushHeader :: "('bm, 'hm, 'h) map_ops \<Rightarrow> 'cl HazelcastHttpCache \<Rightarrow> ('bm, 'hm, 'h, unit) ins" where
  "flushHeader M cache = (\<lambda>(c, ic).
     let ic1 = ic\<lparr>ic_header := (ic_header ic)\<lparr>total_body_size := ic_total_body_size ic\<rparr>\<rparr>
     in case cache_insertHeader M cache (ic_hash_key ic1) (ic_header ic1) c of
          (r, c') \<Rightarrow> (r, (c', ic1)))"

definition insertHeaders :: "('req, 'h, 'res, 'buf) envoy_ops \<Rightarrow> ('bm, 'hm, 'h) map_ops \<Rightarrow>
    'cl HazelcastHttpCache \<Rightarrow> 'h \<Rightarrow> bool \<Rightarrow> ('bm, 'hm, 'h, unit) ins" where
  "insertHeaders E M cache response_headers end_stream = (\<lambda>(c, ic).
     let ic1 = ic\<lparr>ic_header := (ic_header ic)\<lparr>header_map_ptr := Some (copyHeaderMap E response_headers)\<rparr>\<rparr>
     in if end_stream then flushHeader M cache (c, ic1) else (Inr (), (c, ic1)))"

text \<open>
  Growing the local buffer by \<open>n\<close> bytes and copying \<open>n\<close> bytes of the chunk behind the bytes it
  is believed to hold; the result is the advanced chunk index.
\<close>

definition copyIntoLocalBuffer :: "('req, 'h, 'res, 'buf) envoy_ops \<Rightarrow> nat \<Rightarrow> nat \<Rightarrow> 'buf \<Rightarrow>
    ('bm, 'hm, 'h, nat) ins" where
  "copyIntoLocalBuffer E idx n source = (\<lambda>(c, ic).
     let buffer_size = u64_sub (ic_partition_size ic) (available_buffer_bytes ic);
         grown = buffer_vector ic @ replicate n 0
     in case buf_copyOut E source idx n of
          Inl e \<Rightarrow> (Inl e, (c, ic\<lparr>buffer_vector := grown\<rparr>))
        | Inr bytes \<Rightarrow>
            if buffer_size + length bytes \<le> length grown
            then (Inr (u64 (idx + n)),
                  (c, ic\<lparr>buffer_vector := take buffer_size grown @ bytes @
                                           drop (buffer_size + length bytes) grown\<rparr>))
            else (Inl OutOfBounds, (c, ic\<lparr>buffer_vector := grown\<rparr>)))"

text \<open>
  The loop of \<open>insertBody\<close>. It runs on fuel, one unit an iteration; \<open>insert_loop_ok\<close> below shows
  that the fuel \<open>insertBody\<close> gives it is enough.
\<close>

fun insert_loop :: "nat \<Rightarrow> ('req, 'h, 'res, 'buf) envoy_ops \<Rightarrow> ('bm, 'hm, 'h) map_ops \<Rightarrow>
    'cl HazelcastHttpCache \<Rightarrow> 'buf \<Rightarrow> nat \<Rightarrow> nat \<Rightarrow> ('bm, 'hm, 'h, unit) ins" where
  "insert_loop 0 E M cache chunk remaining idx = throwM NonTermination"
| "insert_loop (Suc fuel) E M cache chunk remaining idx = (\<lambda>(c, ic).
     if remaining = 0 then (Inr (), (c, ic))
     else if \<not> idx \<le> buf_length E chunk then (Inl AssertionFailure, (c, ic))
     else if available_buffer_bytes ic \<le> remaining then
       bindM (copyIntoLocalBuffer E idx (available_buffer_bytes ic) chunk) (\<lambda>idx' (c1, ic1).
         if length (buffer_vector ic1) \<noteq> ic_partition_size ic1 then (Inl AssertionFailure, (c1, ic1))
         else bindM (flushBuffer M cache)
                (\<lambda>_. insert_loop fuel E M cache chunk (u64_sub remaining (available_buffer_bytes ic)) idx')
                (c1, ic1\<lparr>available_buffer_bytes := 0\<rparr>)) (c, ic)
     else
       bindM (copyIntoLocalBuffer E idx remaining chunk) (\<lambda>idx' (c1, ic1).
         insert_loop fuel E M cache chunk 0 idx'
           (c1, ic1\<lparr>available_buffer_bytes := u64_sub (available_buffer_bytes ic1) remaining\<rparr>)) (c, ic))"

definition insertBody :: "('req, 'h, 'res, 'buf) envoy_ops \<Rightarrow> ('bm, 'hm, 'h) map_ops \<Rightarrow>
    'cl HazelcastHttpCache \<Rightarrow> 'buf \<Rightarrow> bool \<Rightarrow> bool \<Rightarrow> ('bm, 'hm, 'h, bool option) ins" where
  "insertBody E M cache chunk has_callback end_stream =
     bindM (insert_loop (buf_length E chunk + 2) E M cache chunk (buf_length E chunk) 0) (\<lambda>_.
     bindM (if end_stream then bindM (flushBuffer M cache) (\<lambda>_. flushHeader M cache) else retM ()) (\<lambda>_.
     retM (if has_callback then Some True else None)))"

definition insertTrailers :: "('s, unit) comp" where
  "insertTrailers = throwM AssertionFailure"

section \<open>The calling protocol of the filter\<close>

text \<open>
  A response is sent as its headers and then its body in any number of chunks, the last one marked;
  a body is read back by asking for the rest of the range until all of it has arrived.
\<close>

fun insert_chunks :: "('req, 'h, 'res, 'buf) envoy_ops \<Rightarrow> ('bm, 'hm, 'h) map_ops \<Rightarrow>
    'cl HazelcastHttpCache \<Rightarrow> 'buf list \<Rightarrow> ('bm, 'hm, 'h, unit) ins" where
  "insert_chunks E M cache [] = retM ()"
| "insert_chunks E M cache (chunk # chunks) =
     bindM (insertBody E M cache chunk False (chunks = [])) (\<lambda>_. insert_chunks E M cache chunks)"

definition insert_response :: "('req, 'h, 'res, 'buf) envoy_ops \<Rightarrow> ('bm, 'hm, 'h) map_ops \<Rightarrow>
    'cl HazelcastHttpCache \<Rightarrow> 'h \<Rightarrow> 'buf list \<Rightarrow> ('bm, 'hm, 'h, unit) ins" where
  "insert_response E M cache response_headers chunks =
     bindM (insertHeaders E M cache response_headers (chunks = [])) (\<lambda>_. insert_chunks E M cache chunks)"

fun read_body :: "nat \<Rightarrow> ('bm, 'hm, 'h) map_ops \<Rightarrow> 'cl HazelcastHttpCache \<Rightarrow> 'req LookupContext \<Rightarrow>
    nat \<Rightarrow> nat \<Rightarrow> nat \<Rightarrow> byte list \<Rightarrow> (('bm, 'hm) cluster, byte list) comp" where
  "read_body 0 M cache lc start pos stop full_body = throwM NonTermination"
| "read_body (Suc fuel) M cache lc start pos stop full_body =
     (if length full_body = stop - start then retM full_body
      else bindM (getBody M cache lc pos stop) (\<lambda>data.
        case data of
          None \<Rightarrow> read_body fuel M cache lc start pos stop full_body
        | Some body_chunk \<Rightarrow>
            read_body fuel M cache lc start (pos + length body_chunk) stop (full_body @ body_chunk)))"

section \<open>Keys\<close>

lemma body_key_inj_index [simp]: "body_key hash i = body_key hash j \<longleftrightarrow> i = j"
  by (simp add: body_key_def)

lemma body_key_inj_same_width:
  assumes "length (nat_to_string h) = length (nat_to_string h')"
  shows "body_key h i = body_key h' j \<longleftrightarrow> h = h' \<and> i = j"
  using assms by (auto simp: body_key_def)

section \<open>What insertion leaves in the maps\<close>

text \<open>The abstract effect of storing the first \<open>k\<close> partitions of a body.\<close>

primrec store_blocks :: "nat \<Rightarrow> nat \<Rightarrow> nat \<Rightarrow> byte list \<Rightarrow> (string \<rightharpoonup> HazelcastBodyEntry) \<Rightarrow>
    (string \<rightharpoonup> HazelcastBodyEntry)" where
  "store_blocks P hash 0 xs B = B"
| "store_blocks P hash (Suc k) xs B =
     (store_blocks P hash k xs B)(body_key hash k \<mapsto> \<lparr>body_buffer = block P k xs\<rparr>)"

lemma store_blocks_other:
  "(\<And>i. i < k \<Longrightarrow> key \<noteq> body_key hash i) \<Longrightarrow> store_blocks P hash k xs B key = B key"
  by (induction k) auto

lemma store_blocks_lookup:
  "i < k \<Longrightarrow> store_blocks P hash k xs B (body_key hash i) = Some \<lparr>body_buffer = block P i xs\<rparr>"
  by (induction k) (auto simp: less_Suc_eq)

lemma store_blocks_append:
  "k * P \<le> length xs \<Longrightarrow> store_blocks P hash k (xs @ ys) B = store_blocks P hash k xs B"
proof (induction k)
  case (Suc k)
  then show ?case using block_append_left [of k P xs ys] by simp
qed simp

definition sizes_ok :: "nat \<Rightarrow> nat \<Rightarrow> bool" where
  "sizes_ok P n = (0 < P \<and> P < 2 ^ 63 \<and> n < 2 ^ 63 \<and> n div P < 2 ^ 31 - 1 \<and> (P < 2 ^ 31 \<or> n < 2 ^ 31))"

lemma sizes_ok_less: "sizes_ok P n \<Longrightarrow> m \<le> n \<Longrightarrow> sizes_ok P m"
  unfolding sizes_ok_def by (metis div_le_mono le_less_trans)

text \<open>
  The invariant of an insert context that has been sent the bytes \<open>sent\<close>: the full partitions are
  stored, the rest is in the local buffer, and the counters agree with both.
\<close>

definition insert_inv :: "nat \<Rightarrow> nat \<Rightarrow> (string \<rightharpoonup> HazelcastBodyEntry) \<Rightarrow> (string \<rightharpoonup> HazelcastBodyEntry) \<Rightarrow>
    byte list \<Rightarrow> 'h InsertContext \<Rightarrow> bool" where
  "insert_inv P hash B0 B sent ic \<longleftrightarrow>
     ic_partition_size ic = P \<and> ic_hash_key ic = hash
     \<and> body_order ic = int (length sent div P)
     \<and> ic_total_body_size ic = length sent div P * P
     \<and> buffer_vector ic = drop (length sent div P * P) sent
     \<and> available_buffer_bytes ic = P - length sent mod P
     \<and> B = store_blocks P hash (length sent div P) sent B0"

lemma insert_inv_buffer:
  assumes "insert_inv P hash B0 B sent ic" "0 < P"
  shows "length (buffer_vector ic) = length sent mod P" "length (buffer_vector ic) < P"
    "available_buffer_bytes ic = P - length (buffer_vector ic)" "0 < available_buffer_bytes ic"
proof -
  show l: "length (buffer_vector ic) = length sent mod P"
    using assms by (simp add: insert_inv_def minus_div_mult_eq_mod)
  show "length (buffer_vector ic) < P" "available_buffer_bytes ic = P - length (buffer_vector ic)"
    "0 < available_buffer_bytes ic"
    using assms l by (simp_all add: insert_inv_def)
qed

lemma fill_length: "0 < P \<Longrightarrow> n + (P - n mod P) = Suc (n div P) * (P :: nat)"
  using div_mult_mod_eq [of n P] mod_less_divisor [of P n] unfolding mult_Suc by arith

lemma partial_div_mod:
  assumes "m < P - n mod (P :: nat)"
  shows "(n + m) div P = n div P" "(n + m) mod P = n mod P + m"
proof -
  have "n + m = n div P * P + (n mod P + m)" using div_mult_mod_eq [of n P] by arith
  moreover have "n mod P + m < P" using assms by arith
  ultimately show "(n + m) div P = n div P" "(n + m) mod P = n mod P + m"
    by (simp_all only: div_mult_self3 div_less mod_mult_self3 mod_less)
qed

lemma insert_inv_fill:
  assumes inv: "insert_inv P hash B0 B sent ic" and P: "0 < P"
    and new: "length new = available_buffer_bytes ic"
  shows "insert_inv P hash B0 (B(body_key hash (length sent div P) \<mapsto> \<lparr>body_buffer = buffer_vector ic @ new\<rparr>))
      (sent @ new)
      (ic\<lparr>ic_total_body_size := Suc (length sent div P) * P, buffer_vector := [],
          body_order := int (Suc (length sent div P)), available_buffer_bytes := P\<rparr>)"
    and "length (sent @ new) = Suc (length sent div P) * P"
proof -
  let ?k = "length sent div P"
  note i = inv [unfolded insert_inv_def]
  show l: "length (sent @ new) = Suc ?k * P"
    using new i fill_length [OF P, of "length sent"] by simp
  have "block P ?k (sent @ new) = buffer_vector ic @ new"
    using i l P by (simp add: block_def)
  moreover have "store_blocks P hash ?k (sent @ new) B0 = store_blocks P hash ?k sent B0"
    by (rule store_blocks_append) simp
  ultimately show "insert_inv P hash B0 (B(body_key hash ?k \<mapsto> \<lparr>body_buffer = buffer_vector ic @ new\<rparr>))
      (sent @ new) (ic\<lparr>ic_total_body_size := Suc ?k * P, buffer_vector := [],
          body_order := int (Suc ?k), available_buffer_bytes := P\<rparr>)"
    unfolding insert_inv_def l using i P l by simp
qed

lemma insert_inv_partial:
  assumes inv: "insert_inv P hash B0 B sent ic" and new: "length new < available_buffer_bytes ic"
  shows "insert_inv P hash B0 B (sent @ new)
      (ic\<lparr>buffer_vector := buffer_vector ic @ new,
          available_buffer_bytes := available_buffer_bytes ic - length new\<rparr>)"
proof -
  note i = inv [unfolded insert_inv_def]
  have "store_blocks P hash (length sent div P) (sent @ new) B0 = store_blocks P hash (length sent div P) sent B0"
    by (rule store_blocks_append) simp
  then show ?thesis
    unfolding insert_inv_def using i new partial_div_mod [of "length new" P "length sent"] by simp
qed

definition buffer_contract :: "('req, 'h, 'res, 'buf) envoy_ops \<Rightarrow> ('buf \<Rightarrow> byte list) \<Rightarrow> bool" where
  "buffer_contract E content \<longleftrightarrow>
     (\<forall>b. buf_length E b = length (content b)) \<and>
     (\<forall>b i n. i + n \<le> length (content b) \<longrightarrow> buf_copyOut E b i n = Inr (take n (drop i (content b))))"

lemma copyIntoLocalBuffer_ok:
  assumes E: "buffer_contract E content"
    and len: "available_buffer_bytes ic = ic_partition_size ic - length (buffer_vector ic)"
      "length (buffer_vector ic) \<le> ic_partition_size ic" "ic_partition_size ic < 2 ^ 63"
    and idx: "idx + n \<le> length (content chunk)" "length (content chunk) < 2 ^ 63"
  shows "copyIntoLocalBuffer E idx n chunk (c, ic)
     = (Inr (idx + n), (c, ic\<lparr>buffer_vector := buffer_vector ic @ take n (drop idx (content chunk))\<rparr>))"
proof -
  let ?P = "ic_partition_size ic"
  have bs: "u64_sub ?P (?P - length (buffer_vector ic)) = length (buffer_vector ic)"
    using u64_sub_le [of "?P - length (buffer_vector ic)" ?P] len by simp
  have c: "buf_copyOut E chunk idx n = Inr (take n (drop idx (content chunk)))"
    using E idx by (simp add: buffer_contract_def)
  have i: "u64 (idx + n) = idx + n"
    using idx by (intro u64_small) simp
  have l: "min (length (content chunk) - idx) n = n"
    using idx by simp
  show ?thesis
    by (simp add: copyIntoLocalBuffer_def Let_def len(1) bs c i l)
qed

locale http_maps =
  bodies: imap "body_ops M" babs bvalid bstored bok + headers: imap "hdr_ops M" habs hvalid hstored hok
  for M :: "('bm, 'hm, 'h) map_ops"
    and babs :: "'bm \<Rightarrow> string \<rightharpoonup> HazelcastBodyEntry" and bvalid bstored bok
    and habs :: "'hm \<Rightarrow> int \<rightharpoonup> 'h HazelcastHeaderEntry" and hvalid hstored hok +
  fixes H :: "'h header_ops"
  assumes body_valid: "length (body_buffer b) < 2 ^ 31 \<Longrightarrow> bvalid b"
    and body_stored: "length (body_buffer b) < 2 ^ 31 \<Longrightarrow> bstored b = b"
    and header_valid: "storable_header H e \<Longrightarrow> hvalid e"
    and header_stored: "storable_header H e \<Longrightarrow> same_header H e (hstored e)"
begin

definition cluster_ok :: "('bm, 'hm) cluster \<Rightarrow> bool" where
  "cluster_ok c = (bok (body_map c) \<and> hok (header_map c))"

definition same_but_bodies :: "('bm, 'hm) cluster \<Rightarrow> ('bm, 'hm) cluster \<Rightarrow> bool" where
  "same_but_bodies c c' = (cluster_ok c' \<and> header_map c' = header_map c)"

lemma flushBuffer_ok:
  assumes "hz cache = Some cl" "cluster_ok c" "length (buffer_vector ic) < 2 ^ 31"
  shows "\<exists>c'. flushBuffer M cache (c, ic) = (Inr (), (c',
      ic\<lparr>ic_total_body_size := u64 (ic_total_body_size ic +
           u64_sub (ic_partition_size ic) (available_buffer_bytes ic)),
         buffer_vector := [], body_order := wrap32 (body_order ic + 1),
         available_buffer_bytes := ic_partition_size ic\<rparr>))
    \<and> babs (body_map c') = (babs (body_map c))(nat_to_string (ic_hash_key ic) @ int_to_string (body_order ic)
         \<mapsto> \<lparr>body_buffer = buffer_vector ic\<rparr>)
    \<and> same_but_bodies c c'"
proof -
  let ?b = "\<lparr>body_buffer = buffer_vector ic\<rparr>"
  let ?k = "nat_to_string (ic_hash_key ic) @ int_to_string (body_order ic)"
  have v: "bvalid ?b" "bstored ?b = ?b" using assms body_valid body_stored by auto
  have ok: "bok (body_map c)" using assms(2) by (simp add: cluster_ok_def)
  obtain m' where m': "imap_put (body_ops M) ?k ?b (body_map c) = (Inr (), m')"
    "babs m' = (babs (body_map c))(?k \<mapsto> bstored ?b)" "bok m'"
    using bodies.putE [OF ok v(1)] by blast
  then show ?thesis
    using assms v
    by (intro exI [of _ "c\<lparr>body_map := m'\<rparr>"])
      (simp add: flushBuffer_def Let_def cache_insertBody_def via_client_def on_bodies_def
        same_but_bodies_def cluster_ok_def)
qed

text \<open>An iteration that fills the buffer stores the next partition.\<close>

lemma insert_fill_step:
  assumes E: "buffer_contract E content" and cl: "hz cache = Some cl"
    and ok: "cluster_ok c" and inv: "insert_inv P hash B0 (babs (body_map c)) sent ic"
    and sz: "sizes_ok P (length sent + remaining)"
    and rem: "remaining = length (content chunk) - idx" "idx \<le> length (content chunk)"
      "length (content chunk) < 2 ^ 63" "remaining \<noteq> 0" "available_buffer_bytes ic \<le> remaining"
  defines "new \<equiv> take (available_buffer_bytes ic) (drop idx (content chunk))"
  shows "\<exists>c' ic'. insert_loop (Suc fuel) E M cache chunk remaining idx (c, ic)
      = insert_loop fuel E M cache chunk (remaining - length new) (idx + length new) (c', ic')
    \<and> insert_inv P hash B0 (babs (body_map c')) (sent @ new) ic'
    \<and> ic_header ic' = ic_header ic \<and> same_but_bodies c c'"
proof -
  let ?k = "length sent div P" and ?a = "available_buffer_bytes ic"
  let ?ic = "ic\<lparr>buffer_vector := buffer_vector ic @ new, available_buffer_bytes := 0\<rparr>"
  note i = inv [unfolded insert_inv_def]
  have P: "0 < P" "P < 2 ^ 63" and short: "?k < 2 ^ 31 - 1" and n: "length sent + remaining < 2 ^ 63"
    and small: "P < 2 ^ 31 \<or> length sent + remaining < 2 ^ 31"
    using sz sizes_ok_less [OF sz, of "length sent"] by (auto simp: sizes_ok_def)
  note buf = insert_inv_buffer [OF inv P(1)]
  have newlen: "length new = ?a" using rem by (simp add: new_def)
  note fill = insert_inv_fill [OF inv P(1) newlen]
  have copy: "copyIntoLocalBuffer E idx ?a chunk (c, ic)
     = (Inr (idx + ?a), (c, ic\<lparr>buffer_vector := buffer_vector ic @ new\<rparr>))"
    unfolding new_def by (rule copyIntoLocalBuffer_ok [OF E]) (use buf i P rem in auto)
  have full: "length (buffer_vector ic @ new) = P" using newlen buf by simp
  have "length (buffer_vector ic @ new) < 2 ^ 31"
    using full small fill(2) newlen rem by auto
  then obtain c' where f: "flushBuffer M cache (c, ?ic) = (Inr (), (c',
      ?ic\<lparr>ic_total_body_size := u64 (ic_total_body_size ic + u64_sub P 0), buffer_vector := [],
         body_order := wrap32 (body_order ic + 1), available_buffer_bytes := P\<rparr>))"
    "babs (body_map c') = (babs (body_map c))(body_key hash ?k \<mapsto> \<lparr>body_buffer = buffer_vector ic @ new\<rparr>)"
    "same_but_bodies c c'"
    using flushBuffer_ok [OF cl ok, of ?ic] i by (auto simp: body_key_def)
  have "Suc ?k * P < 2 ^ 64" using fill(2) newlen rem(5) n by simp
  then have tot: "u64 (?k * P + u64_sub P 0) = Suc ?k * P"
    using u64_sub_le [of 0 P] P(2) by (simp add: add.commute)
  have ord: "wrap32 (int ?k + 1) = int (Suc ?k)"
    using short by (subst wrap32_id) auto
  let ?ic' = "ic\<lparr>ic_total_body_size := Suc ?k * P, buffer_vector := [],
             body_order := int (Suc ?k), available_buffer_bytes := P\<rparr>"
  have f': "flushBuffer M cache (c, ?ic) = (Inr (), (c', ?ic'))"
    using f(1) tot ord i by simp
  have r: "u64_sub remaining ?a = remaining - ?a"
    using rem n by (intro u64_sub_le) auto
  have b: "buf_length E chunk = length (content chunk)" using E by (simp add: buffer_contract_def)
  have "insert_loop (Suc fuel) E M cache chunk remaining idx (c, ic)
      = insert_loop fuel E M cache chunk (remaining - ?a) (idx + ?a) (c', ?ic')"
    using rem b copy full i f' r by (simp add: bindM_def)
  then show ?thesis
    using fill(1) f(2,3) newlen by (intro exI [of _ c'] exI [of _ ?ic']) simp
qed

lemma insert_loop_ok:
  assumes E: "buffer_contract E content" and cl: "hz cache = Some cl"
    and "cluster_ok c" "insert_inv P hash B0 (babs (body_map c)) sent ic"
    and "sizes_ok P (length sent + remaining)"
    and "remaining = length (content chunk) - idx" "idx \<le> length (content chunk)"
      "length (content chunk) < 2 ^ 63" "remaining < fuel"
  shows "\<exists>c' ic'. insert_loop fuel E M cache chunk remaining idx (c, ic) = (Inr (), (c', ic'))
    \<and> insert_inv P hash B0 (babs (body_map c')) (sent @ drop idx (content chunk)) ic'
    \<and> ic_header ic' = ic_header ic \<and> same_but_bodies c c'"
  using assms(3-)
proof (induction fuel arbitrary: c ic sent remaining idx)
  case (Suc fuel)
  let ?xs = "content chunk" and ?a = "available_buffer_bytes ic"
  have P: "0 < P" "P < 2 ^ 63" using Suc.prems(3) by (auto simp: sizes_ok_def)
  note buf = insert_inv_buffer [OF Suc.prems(2) P(1)]
  consider "remaining = 0" | "remaining \<noteq> 0" "?a \<le> remaining" | "remaining \<noteq> 0" "remaining < ?a"
    by linarith
  then show ?case
  proof cases
    case 1
    then show ?thesis
      using Suc.prems by (intro exI [of _ c] exI [of _ ic]) (simp add: same_but_bodies_def)
  next
    case 2
    let ?new = "take ?a (drop idx ?xs)"
    have new: "length ?new = ?a" using 2 Suc.prems by simp
    obtain c' ic' where s: "insert_loop (Suc fuel) E M cache chunk remaining idx (c, ic)
        = insert_loop fuel E M cache chunk (remaining - ?a) (idx + ?a) (c', ic')"
      "insert_inv P hash B0 (babs (body_map c')) (sent @ ?new) ic'"
      "ic_header ic' = ic_header ic" "same_but_bodies c c'"
      using insert_fill_step [OF E cl Suc.prems(1-6) 2] new by metis
    have "\<exists>c'' ic''. insert_loop fuel E M cache chunk (remaining - ?a) (idx + ?a) (c', ic') = (Inr (), (c'', ic''))
      \<and> insert_inv P hash B0 (babs (body_map c'')) ((sent @ ?new) @ drop (idx + ?a) ?xs) ic''
      \<and> ic_header ic'' = ic_header ic' \<and> same_but_bodies c' c''"
      by (rule Suc.IH) (use s 2 new buf Suc.prems in \<open>auto simp: same_but_bodies_def\<close>)
    moreover have "(sent @ ?new) @ drop (idx + ?a) ?xs = sent @ drop idx ?xs"
      using append_take_drop_id [of ?a "drop idx ?xs"] by (simp add: add.commute)
    ultimately show ?thesis using s by (auto simp: same_but_bodies_def)
  next
    case 3
    let ?new = "drop idx ?xs"
    let ?ic' = "ic\<lparr>buffer_vector := buffer_vector ic @ ?new, available_buffer_bytes := ?a - remaining\<rparr>"
    have new: "length ?new = remaining" "take remaining ?new = ?new" using Suc.prems by auto
    have copy: "copyIntoLocalBuffer E idx remaining chunk (c, ic)
       = (Inr (idx + remaining), (c, ic\<lparr>buffer_vector := buffer_vector ic @ ?new\<rparr>))"
      using copyIntoLocalBuffer_ok [OF E, of ic idx remaining chunk c] buf P Suc.prems new
      by (simp add: insert_inv_def)
    have sub: "u64_sub ?a remaining = ?a - remaining"
      using 3 buf P by (intro u64_sub_le) auto
    have b: "buf_length E chunk = length ?xs" using E by (simp add: buffer_contract_def)
    obtain fuel' where fuel: "fuel = Suc fuel'" using Suc.prems 3 by (cases fuel) auto
    have "insert_loop (Suc fuel) E M cache chunk remaining idx (c, ic) = (Inr (), (c, ?ic'))"
      using 3 Suc.prems b copy sub by (simp add: bindM_def fuel)
    then show ?thesis
      using insert_inv_partial [OF Suc.prems(2), of ?new] 3 new Suc.prems(1)
      by (auto simp: same_but_bodies_def)
  qed
qed simp

lemma flushHeader_ok:
  assumes "hz cache = Some cl" "cluster_ok c"
    and e: "storable_header H ((ic_header ic)\<lparr>total_body_size := ic_total_body_size ic\<rparr>)"
  shows "\<exists>c' ic' e'. flushHeader M cache (c, ic) = (Inr (), (c', ic')) \<and> cluster_ok c'
    \<and> body_map c' = body_map c
    \<and> habs (header_map c') = (habs (header_map c))(to_int64 (ic_hash_key ic) \<mapsto> e')
    \<and> same_header H ((ic_header ic)\<lparr>total_body_size := ic_total_body_size ic\<rparr>) e'"
proof -
  let ?e = "(ic_header ic)\<lparr>total_body_size := ic_total_body_size ic\<rparr>"
  have ok: "hok (header_map c)" using assms(2) by (simp add: cluster_ok_def)
  obtain m' where m': "imap_put (hdr_ops M) (to_int64 (ic_hash_key ic)) ?e (header_map c) = (Inr (), m')"
    "habs m' = (habs (header_map c))(to_int64 (ic_hash_key ic) \<mapsto> hstored ?e)" "hok m'"
    using headers.putE [OF ok header_valid [OF e]] by blast
  then show ?thesis
    using assms header_stored [OF e]
    by (intro exI [of _ "c\<lparr>header_map := m'\<rparr>"] exI [of _ "ic\<lparr>ic_header := ?e\<rparr>"] exI [of _ "hstored ?e"])
      (simp add: flushHeader_def Let_def cache_insertHeader_def via_client_def on_headers_def cluster_ok_def)
qed

text \<open>What a completed insertion leaves behind, as an abstract update of the two maps.\<close>

definition response_stored :: "nat \<Rightarrow> nat \<Rightarrow> 'h \<Rightarrow> byte list \<Rightarrow> ('bm, 'hm) cluster \<Rightarrow> ('bm, 'hm) cluster \<Rightarrow> bool" where
  "response_stored P hash h body c c' \<longleftrightarrow> cluster_ok c'
     \<and> babs (body_map c') = store_blocks P hash (Suc (length body div P)) body (babs (body_map c))
     \<and> (\<exists>e. habs (header_map c') = (habs (header_map c))(to_int64 hash \<mapsto> e)
          \<and> same_header H \<lparr>header_map_ptr = Some h, total_body_size = length body\<rparr> e)"

lemma finish_ok:
  assumes cl: "hz cache = Some cl" and ok: "cluster_ok c"
    and inv: "insert_inv P hash (babs (body_map c0)) (babs (body_map c)) sent ic"
    and hm: "header_map c = header_map c0" and sz: "sizes_ok P (length sent)"
    and h: "header_map_ptr (ic_header ic) = Some h"
    and e: "storable_header H \<lparr>header_map_ptr = Some h, total_body_size = length sent\<rparr>"
  shows "\<exists>c' ic'. bindM (flushBuffer M cache) (\<lambda>_. flushHeader M cache) (c, ic) = (Inr (), (c', ic'))
    \<and> response_stored P hash h sent c0 c'"
proof -
  let ?k = "length sent div P"
  note i = inv [unfolded insert_inv_def]
  have P: "0 < P" "P < 2 ^ 63" and n: "length sent < 2 ^ 63" and small: "P < 2 ^ 31 \<or> length sent < 2 ^ 31"
    using sz by (auto simp: sizes_ok_def)
  note buf = insert_inv_buffer [OF inv P(1)]
  have "length (buffer_vector ic) \<le> length sent" using buf(1) by simp
  then have l: "length (buffer_vector ic) < 2 ^ 31" using buf(2) small by linarith
  have sub: "u64_sub P (available_buffer_bytes ic) = length sent mod P"
    using u64_sub_le [of "P - length sent mod P" P] i P by simp
  have tot: "u64 (?k * P + length sent mod P) = length sent"
    using n by (simp add: div_mult_mod_eq)
  obtain c1 ic1 where f: "flushBuffer M cache (c, ic) = (Inr (), (c1, ic1))"
    "ic_total_body_size ic1 = length sent" "ic_hash_key ic1 = hash" "ic_header ic1 = ic_header ic"
    "babs (body_map c1) = (babs (body_map c))(body_key hash ?k \<mapsto> \<lparr>body_buffer = buffer_vector ic\<rparr>)"
    "same_but_bodies c c1"
    using flushBuffer_ok [OF cl ok l] i sub tot by (auto simp: body_key_def)
  have "block P ?k sent = buffer_vector ic"
    using i buf by (simp add: block_def)
  then have b: "babs (body_map c1) = store_blocks P hash (Suc ?k) sent (babs (body_map c0))"
    using f i by simp
  have eq: "(ic_header ic1)\<lparr>total_body_size := ic_total_body_size ic1\<rparr>
      = \<lparr>header_map_ptr = Some h, total_body_size = length sent\<rparr>"
    using f h by (cases "ic_header ic") simp
  have ok1: "cluster_ok c1" "header_map c1 = header_map c0"
    using f(6) hm by (simp_all add: same_but_bodies_def)
  obtain c' ic' e' where "flushHeader M cache (c1, ic1) = (Inr (), (c', ic'))" "cluster_ok c'"
    "body_map c' = body_map c1" "habs (header_map c') = (habs (header_map c1))(to_int64 hash \<mapsto> e')"
    "same_header H \<lparr>header_map_ptr = Some h, total_body_size = length sent\<rparr> e'"
    using flushHeader_ok [OF cl ok1(1), of ic1] e f(3) unfolding eq by blast
  then show ?thesis
    using f(1) b ok1 by (auto simp: bindM_def response_stored_def)
qed

lemma insert_chunks_ok:
  assumes E: "buffer_contract E content" and cl: "hz cache = Some cl"
    and "cluster_ok c" "insert_inv P hash (babs (body_map c0)) (babs (body_map c)) sent ic"
    and "header_map c = header_map c0" "chunks \<noteq> []"
    and "sizes_ok P (length (sent @ concat (map content chunks)))"
    and "header_map_ptr (ic_header ic) = Some h"
    and "storable_header H \<lparr>header_map_ptr = Some h, total_body_size = length (sent @ concat (map content chunks))\<rparr>"
  shows "\<exists>c' ic'. insert_chunks E M cache chunks (c, ic) = (Inr (), (c', ic'))
    \<and> response_stored P hash h (sent @ concat (map content chunks)) c0 c'"
  using assms(3-)
proof (induction chunks arbitrary: c ic sent)
  case (Cons chunk chunks)
  let ?xs = "content chunk"
  have b: "buf_length E chunk = length ?xs" using E by (simp add: buffer_contract_def)
  have sz: "sizes_ok P (length sent + length ?xs)"
    using Cons.prems by (intro sizes_ok_less [OF Cons.prems(5)]) simp
  then have "length ?xs < 2 ^ 63" by (simp add: sizes_ok_def)
  then obtain c1 ic1 where l: "insert_loop (length ?xs + 2) E M cache chunk (length ?xs) 0 (c, ic) = (Inr (), (c1, ic1))"
    "insert_inv P hash (babs (body_map c0)) (babs (body_map c1)) (sent @ ?xs) ic1"
    "ic_header ic1 = ic_header ic" "same_but_bodies c c1"
    using insert_loop_ok [OF E cl Cons.prems(1,2) sz, of chunk 0 "length ?xs + 2"] by auto
  have ok1: "cluster_ok c1" "header_map c1 = header_map c0"
    using l(4) Cons.prems by (simp_all add: same_but_bodies_def)
  show ?case
  proof (cases "chunks = []")
    case True
    then obtain c' ic' where "bindM (flushBuffer M cache) (\<lambda>_. flushHeader M cache) (c1, ic1) = (Inr (), (c', ic'))"
      "response_stored P hash h (sent @ ?xs) c0 c'"
      using finish_ok [OF cl ok1(1) l(2) ok1(2), of h] l(3) Cons.prems sz by auto
    then show ?thesis
      using True l(1) b by (auto simp: insertBody_def bindM_def retM_def)
  next
    case False
    have "insertBody E M cache chunk False False (c, ic) = (Inr None, (c1, ic1))"
      using l(1) b by (simp add: insertBody_def bindM_def retM_def)
    moreover have "\<exists>c' ic'. insert_chunks E M cache chunks (c1, ic1) = (Inr (), (c', ic'))
        \<and> response_stored P hash h ((sent @ ?xs) @ concat (map content chunks)) c0 c'"
      by (rule Cons.IH) (use ok1 l Cons.prems False in auto)
    ultimately show ?thesis using False by (auto simp: bindM_def)
  qed
qed simp

lemma insert_response_ok:
  assumes E: "buffer_contract E content" and cl: "hz cache = Some cl" and ok: "cluster_ok c"
    and P: "P = bodySizePerEntry cache" and lc: "lc_hash_key lc = hash"
    and ic: "makeInsertContext junk cache (Some lc) = Inr ic"
    and chunks: "chunks \<noteq> []" and sz: "sizes_ok P (length (concat (map content chunks)))"
    and h: "storable_header H \<lparr>header_map_ptr = Some (copyHeaderMap E rh),
      total_body_size = length (concat (map content chunks))\<rparr>"
  shows "\<exists>c' ic'. insert_response E M cache rh chunks (c, ic) = (Inr (), (c', ic'))
    \<and> response_stored P hash (copyHeaderMap E rh) (concat (map content chunks)) c c'"
proof -
  let ?ic = "ic\<lparr>ic_header := (ic_header ic)\<lparr>header_map_ptr := Some (copyHeaderMap E rh)\<rparr>\<rparr>"
  have "insert_inv P hash (babs (body_map c)) (babs (body_map c)) [] ?ic"
    using ic P lc by (auto simp: insert_inv_def makeInsertContext_def)
  then have "\<exists>c' ic'. insert_chunks E M cache chunks (c, ?ic) = (Inr (), (c', ic'))
    \<and> response_stored P hash (copyHeaderMap E rh) ([] @ concat (map content chunks)) c c'"
    using ok chunks sz h by (intro insert_chunks_ok [OF E cl]) auto
  then show ?thesis
    using chunks by (simp add: insert_response_def insertHeaders_def bindM_def)
qed

text \<open>A body whose partitions are all stored, as a lookup context sees it.\<close>

definition body_available :: "nat \<Rightarrow> nat \<Rightarrow> byte list \<Rightarrow> ('bm, 'hm) cluster \<Rightarrow> 'req LookupContext \<Rightarrow> bool" where
  "body_available P hash body c lc \<longleftrightarrow> cluster_ok c
     \<and> lc_partition_size lc = P \<and> lc_hash_key lc = hash \<and> lc_total_body_size lc = length body
     \<and> (\<forall>i \<le> length body div P. babs (body_map c) (body_key hash i) = Some \<lparr>body_buffer = block P i body\<rparr>)"

lemma lookupBody_ok:
  assumes "hz cache = Some cl" "cluster_ok c"
  shows "\<exists>c'. lookupBody M cache key c = (Inr (babs (body_map c) key), c')
    \<and> babs (body_map c') = babs (body_map c) \<and> header_map c' = header_map c \<and> cluster_ok c'"
proof -
  have ok: "bok (body_map c)" using assms(2) by (simp add: cluster_ok_def)
  obtain m' where "imap_get (body_ops M) key (body_map c) = (Inr (babs (body_map c) key), m')"
    "babs m' = babs (body_map c)" "bok m'"
    using bodies.getE [OF ok] by blast
  then show ?thesis
    using assms by (intro exI [of _ "c\<lparr>body_map := m'\<rparr>"])
      (simp add: lookupBody_def via_client_def on_bodies_def cluster_ok_def)
qed

text \<open>What \<open>getBody\<close> computes when the partition is there, on both of its branches.\<close>

lemma getBody_eq:
  assumes cl: "hz cache = Some cl" and av: "body_available P hash body c lc" and sz: "sizes_ok P (length body)"
    and r: "pos \<le> stop" "stop \<le> length body"
  shows "\<exists>c'. getBody M cache lc pos stop c =
      (map_sum id Some (copy_from (block P (pos div P) body) (pos mod P)
         (if stop < (pos div P + 1) * P then stop mod P
          else u64_sub (length (block P (pos div P) body)) (pos mod P))), c')
    \<and> body_available P hash body c' lc"
proof -
  let ?i = "pos div P"
  have P: "0 < P" "P < 2 ^ 63" and n: "length body < 2 ^ 63" using sz by (auto simp: sizes_ok_def)
  have le: "?i \<le> length body div P" using r by (intro div_le_mono) simp
  have "?i * P \<le> length body" using le P by (simp add: less_eq_div_iff_mult_less_eq)
  then have u: "u64 ((?i + 1) * P) = (?i + 1) * P"
    using P n by (intro u64_small) simp
  have a: "cluster_ok c" "lc_partition_size lc = P" "lc_hash_key lc = hash" "lc_total_body_size lc = length body"
    "babs (body_map c) (body_key hash ?i) = Some \<lparr>body_buffer = block P ?i body\<rparr>"
    using av le by (auto simp: body_available_def)
  obtain c' where c': "lookupBody M cache (body_key hash ?i) c = (Inr (Some \<lparr>body_buffer = block P ?i body\<rparr>), c')"
    "babs (body_map c') = babs (body_map c)" "cluster_ok c'"
    using lookupBody_ok [OF cl a(1)] a(5) by metis
  have "body_available P hash body c' lc"
    using av c' by (simp add: body_available_def)
  then show ?thesis
    using a c' r u
    by (intro exI [of _ c'])
      (auto simp: getBody_def Let_def bindM_def liftR_def retM_def split: sum.split)
qed

lemma getBody_exact:
  assumes "hz cache = Some cl" "body_available P hash body c lc" and sz: "sizes_ok P (length body)"
    and r: "pos \<le> stop" "stop \<le> length body"
    and al: "pos mod P = 0 \<or> (pos div P + 1) * P \<le> stop"
  shows "\<exists>c'. getBody M cache lc pos stop c
      = (Inr (Some (take (min (stop - pos) (P - pos mod P)) (drop pos body))), c')
    \<and> body_available P hash body c' lc"
proof -
  let ?i = "pos div P" and ?s = "pos mod P"
  have P: "0 < P" "P < 2 ^ 63" using sz by (auto simp: sizes_ok_def)
  have pos: "pos = ?i * P + ?s" "?s < P" using P by simp_all
  have "copy_from (block P ?i body) ?s
         (if stop < (?i + 1) * P then stop mod P else u64_sub (length (block P ?i body)) ?s)
      = Inr (take (min (stop - pos) (P - ?s)) (drop pos body))"
  proof (cases "stop < (?i + 1) * P")
    case True
    with al have s: "?s = 0" by auto
    have "stop - pos < P" using True pos s by simp
    then have m: "stop mod P = stop - pos"
      using r pos s by (metis add.right_neutral le_add_diff_inverse mod_less mod_mult_self3)
    have "stop - pos \<le> length (block P ?i body)"
      using r pos s \<open>stop - pos < P\<close> by (simp add: length_block)
    then show ?thesis
      using True s m pos \<open>stop - pos < P\<close> by (simp add: copy_from_def block_def)
  next
    case False
    then have full: "length (block P ?i body) = P"
      using r by (intro length_block_full) simp
    have sub: "u64_sub P ?s = P - ?s" using pos P by (intro u64_sub_le) auto
    have "drop ?s (block P ?i body) = take (P - ?s) (drop pos body)"
      using pos(1) by (metis add.commute block_def drop_drop drop_take)
    moreover have "P - ?s \<le> stop - pos"
      using False fill_length [OF P(1), of pos] by simp
    ultimately show ?thesis
      using False full sub pos(2) by (simp add: copy_from_def min_absorb2)
  qed
  then show ?thesis
    using getBody_eq [OF assms(1-5)] by simp
qed

lemma read_body_ok:
  assumes "hz cache = Some cl" "body_available P hash body c lc" "sizes_ok P (length body)"
    "start \<le> pos" "pos \<le> stop" "stop \<le> length body" "pos mod P = 0 \<or> (pos div P + 1) * P \<le> stop \<or> pos = stop"
    "stop - pos < fuel"
  shows "\<exists>c'. read_body fuel M cache lc start pos stop (take (pos - start) (drop start body)) c
      = (Inr (take (stop - start) (drop start body)), c')
    \<and> body_available P hash body c' lc"
  using assms
proof (induction fuel arbitrary: pos c)
  case (Suc fuel)
  show ?case
  proof (cases "pos = stop")
    case True
    then show ?thesis using Suc.prems by (simp add: retM_def)
  next
    case False
    define m where "m = min (stop - pos) (P - pos mod P)"
    have P: "0 < P" using Suc.prems(3) by (simp add: sizes_ok_def)
    obtain c' where g: "getBody M cache lc pos stop c = (Inr (Some (take m (drop pos body))), c')"
      "body_available P hash body c' lc"
      using getBody_exact [OF Suc.prems(1-3,5,6)] Suc.prems(7) False unfolding m_def by blast
    have m: "0 < m" "m \<le> stop - pos" using P False Suc.prems(5) by (simp_all add: m_def)
    have len: "length (take m (drop pos body)) = m" using m(2) Suc.prems(6) by simp
    have app: "take (pos - start) (drop start body) @ take m (drop pos body)
        = take (pos + m - start) (drop start body)"
      using Suc.prems(4) take_add [of "pos - start" m "drop start body"] by simp
    have al: "(pos + m) mod P = 0 \<or> pos + m = stop"
    proof (cases "stop - pos \<le> P - pos mod P")
      case True
      then show ?thesis using Suc.prems(5) by (simp add: m_def)
    next
      case False
      then have "pos + m = Suc (pos div P) * P" using fill_length [OF P, of pos] by (simp add: m_def)
      then show ?thesis by (simp only: mod_mult_self2_is_0 simp_thms)
    qed
    have le: "start \<le> pos + m" "pos + m \<le> stop" "stop - (pos + m) < fuel"
      using m Suc.prems(4,5,8) by linarith+
    have ne: "length (take (pos - start) (drop start body)) \<noteq> stop - start"
      using False Suc.prems(4-6) by simp
    have "read_body (Suc fuel) M cache lc start pos stop (take (pos - start) (drop start body)) c
      = read_body fuel M cache lc start (pos + m) stop (take (pos + m - start) (drop start body)) c'"
      unfolding read_body.simps(2) using ne g(1) len app by (simp only: if_False bindM_def) simp
    then show ?thesis
      using Suc.IH [OF Suc.prems(1) g(2) Suc.prems(3) le(1,2) Suc.prems(6) _ le(3)] al by auto
  qed
qed simp

lemma lookupHeader_ok:
  assumes "hz cache = Some cl" "cluster_ok c"
  shows "\<exists>c'. lookupHeader M cache hash c = (Inr (habs (header_map c) (to_int64 hash)), c')
    \<and> habs (header_map c') = habs (header_map c) \<and> body_map c' = body_map c \<and> cluster_ok c'"
proof -
  have ok: "hok (header_map c)" using assms(2) by (simp add: cluster_ok_def)
  obtain m' where "imap_get (hdr_ops M) (to_int64 hash) (header_map c)
      = (Inr (habs (header_map c) (to_int64 hash)), m')"
    "habs m' = habs (header_map c)" "hok m'"
    using headers.getE [OF ok] by blast
  then show ?thesis
    using assms by (intro exI [of _ "c\<lparr>header_map := m'\<rparr>"])
      (simp add: lookupHeader_def via_client_def on_headers_def cluster_ok_def)
qed

text \<open>A lookup after a completed insertion of a response with the same hash.\<close>

lemma getHeaders_after_insert:
  assumes cl: "hz cache = Some cl" and st: "response_stored P hash h body c0 c"
    and lc: "lc_hash_key lc = hash" "lc_partition_size lc = P"
  shows "\<exists>c' h'. getHeaders E M cache lc c
      = (Inr (makeLookupResult E (lookup_request lc) (Some h') (length body),
              lc\<lparr>lc_total_body_size := length body\<rparr>), c')
    \<and> hm_entries H h' = hm_entries H h
    \<and> body_available P hash body c' (lc\<lparr>lc_total_body_size := length body\<rparr>)"
proof -
  obtain e where e: "cluster_ok c" "habs (header_map c) = (habs (header_map c0))(to_int64 hash \<mapsto> e)"
    "same_header H \<lparr>header_map_ptr = Some h, total_body_size = length body\<rparr> e"
    "babs (body_map c) = store_blocks P hash (Suc (length body div P)) body (babs (body_map c0))"
    using st by (auto simp: response_stored_def)
  then obtain h' where h': "header_map_ptr e = Some h'" "hm_entries H h' = hm_entries H h"
    "total_body_size e = length body"
    by (cases "header_map_ptr e") (auto simp: same_header_def)
  obtain c' where c': "lookupHeader M cache hash c = (Inr (Some e), c')"
    "body_map c' = body_map c" "cluster_ok c'"
    using lookupHeader_ok [OF cl e(1), of hash] e(2) by auto
  have "body_available P hash body c' (lc\<lparr>lc_total_body_size := length body\<rparr>)"
    unfolding body_available_def
    using c' lc e(4) store_blocks_lookup [of _ "Suc (length body div P)" P hash body]
    by (simp add: le_imp_less_Suc del: store_blocks.simps)
  then show ?thesis
    using c' h' lc by (auto simp: getHeaders_def bindM_def retM_def)
qed

end

context http_maps
begin

text \<open>An insertion under another hash of the same decimal width leaves a stored body available.\<close>

lemma stored_keeps_other:
  assumes st: "response_stored P hash' h body' c c'" and av: "body_available P hash body c lc"
    and w: "length (nat_to_string hash) = length (nat_to_string hash')" "hash \<noteq> hash'"
  shows "body_available P hash body c' lc"
proof -
  have "babs (body_map c') (body_key hash i) = babs (body_map c) (body_key hash i)" for i
    using st body_key_inj_same_width [OF w(1)] w(2)
    by (auto simp: response_stored_def intro!: store_blocks_other simp del: store_blocks.simps)
  then show ?thesis using st av by (simp add: body_available_def response_stored_def)
qed

lemma clearMaps_ok:
  assumes "hz cache = Some cl" "cluster_ok c"
  shows "\<exists>c'. clearMaps M cache c = (Inr (), c') \<and> cluster_ok c' \<and> babs (body_map c') = Map.empty \<and> habs (header_map c') = Map.empty"
proof -
  obtain b where "imap_clear (body_ops M) (body_map c) = (Inr (), b)" "babs b = Map.empty" "bok b"
    using bodies.clear_law assms(2) by (auto simp: cluster_ok_def)
  moreover obtain h where "imap_clear (hdr_ops M) (header_map c) = (Inr (), h)" "habs h = Map.empty" "hok h"
    using headers.clear_law assms(2) by (auto simp: cluster_ok_def)
  ultimately show ?thesis
    using assms(1) by (simp add: clearMaps_def bindM_def via_client_def on_bodies_def on_headers_def cluster_ok_def)
qed

end

section \<open>Properties of insertion and of the keys\<close>

text \<open>Everything an insertion does before \<open>flushHeader\<close> leaves the header map alone, for any maps.\<close>

definition keeps_headers :: "('bm, 'hm, 'h, 'a) ins \<Rightarrow> bool" where
  "keeps_headers f \<longleftrightarrow> (\<forall>c ic r c' ic'. f (c, ic) = (r, (c', ic')) \<longrightarrow> header_map c' = header_map c)"

lemma keeps_headersI:
  "(\<And>c ic r c' ic'. f (c, ic) = (r, (c', ic')) \<Longrightarrow> header_map c' = header_map c) \<Longrightarrow> keeps_headers f"
  by (auto simp: keeps_headers_def)

lemma keeps_headersD: "keeps_headers f \<Longrightarrow> f (c, ic) = (r, (c', ic')) \<Longrightarrow> header_map c' = header_map c"
  unfolding keeps_headers_def by blast

lemma keeps_headers_pre: "keeps_headers f \<Longrightarrow> keeps_headers (\<lambda>(c, ic). f (c, g ic))"
  by (rule keeps_headersI) (auto dest: keeps_headersD)

lemma keeps_headers_bind:
  assumes "keeps_headers f" "\<And>a. keeps_headers (g a)"
  shows "keeps_headers (bindM f g)"
proof (rule keeps_headersI)
  fix c ic r c' ic'
  assume run: "bindM f g (c, ic) = (r, (c', ic'))"
  obtain r1 c1 ic1 where f: "f (c, ic) = (r1, (c1, ic1))" by (metis prod.exhaust)
  show "header_map c' = header_map c"
    using run f keeps_headersD [OF assms(1) f] keeps_headersD [OF assms(2)]
    by (cases r1) (auto simp: bindM_def)
qed

lemma flushBuffer_keeps_headers: "keeps_headers (flushBuffer M cache)"
  by (auto simp: keeps_headers_def flushBuffer_def Let_def cache_insertBody_def via_client_def on_bodies_def throwM_def
      split: prod.splits sum.splits option.splits)

lemma copyIntoLocalBuffer_keeps_headers: "keeps_headers (copyIntoLocalBuffer E idx n chunk)"
  by (auto simp: keeps_headers_def copyIntoLocalBuffer_def Let_def split: sum.splits if_splits)

lemma insert_loop_keeps_headers: "keeps_headers (insert_loop fuel E M cache chunk remaining idx)"
proof (induction fuel arbitrary: remaining idx)
  case 0
  then show ?case by (simp add: keeps_headers_def throwM_def)
next
  case (Suc fuel)
  have flush: "keeps_headers (bindM (flushBuffer M cache) (\<lambda>_. insert_loop fuel E M cache chunk n i))" for n i
    by (rule keeps_headers_bind [OF flushBuffer_keeps_headers Suc.IH])
  have full: "keeps_headers (bindM (copyIntoLocalBuffer E idx n chunk) (\<lambda>idx' (c1, ic1).
      if length (buffer_vector ic1) \<noteq> ic_partition_size ic1 then (Inl AssertionFailure, (c1, ic1))
      else bindM (flushBuffer M cache) (\<lambda>_. insert_loop fuel E M cache chunk m idx') (c1, ic1\<lparr>available_buffer_bytes := 0\<rparr>)))" for n m
    by (rule keeps_headers_bind [OF copyIntoLocalBuffer_keeps_headers], rule keeps_headersI)
      (use keeps_headersD [OF flush] in \<open>auto split: if_splits\<close>)
  have part: "keeps_headers (bindM (copyIntoLocalBuffer E idx n chunk) (\<lambda>idx' (c1, ic1).
      insert_loop fuel E M cache chunk 0 idx' (c1, ic1\<lparr>available_buffer_bytes := u64_sub (available_buffer_bytes ic1) n\<rparr>)))" for n
    by (rule keeps_headers_bind [OF copyIntoLocalBuffer_keeps_headers], rule keeps_headers_pre, rule Suc.IH)
  show ?case
    by (rule keeps_headersI) (use keeps_headersD [OF full] keeps_headersD [OF part] in \<open>auto split: if_splits\<close>)
qed

lemma insertBody_failure_keeps_headers:
  assumes hdr: "\<And>k e m. is_ok (fst (imap_put (hdr_ops M) k e m))"
    and run: "insertBody E M cache chunk cb end_stream (c, ic) = (r, (c', ic'))"
    and early: "\<not> is_ok r \<or> \<not> end_stream"
  shows "header_map c' = header_map c"
proof -
  let ?loop = "insert_loop (buf_length E chunk + 2) E M cache chunk (buf_length E chunk) 0"
  obtain r1 c1 ic1 where l: "?loop (c, ic) = (r1, (c1, ic1))" by (metis prod.exhaust)
  obtain r2 c2 ic2 where f: "flushBuffer M cache (c1, ic1) = (r2, (c2, ic2))" by (metis prod.exhaust)
  have h: "header_map c1 = header_map c" "header_map c2 = header_map c"
    using keeps_headersD [OF insert_loop_keeps_headers l] keeps_headersD [OF flushBuffer_keeps_headers f] by simp_all
  show ?thesis
  proof (cases "end_stream \<and> is_ok r1 \<and> is_ok r2")
    case False
    then show ?thesis
      using run l f h by (auto simp: insertBody_def bindM_def retM_def is_ok_def split: sum.splits if_splits)
  next
    case True
    then obtain u u2 where u: "r1 = Inr u" "r2 = Inr u2" by (auto simp: is_ok_def split: sum.splits)
    show ?thesis
    proof (cases "hz cache")
      case None
      then have "flushBuffer M cache (c1, ic1) = (Inl NullDereference, (c1, snd (snd (flushBuffer M cache (c1, ic1)))))"
        by (simp add: flushBuffer_def Let_def cache_insertBody_def via_client_def throwM_def)
      then show ?thesis using f u by simp
    next
      case (Some cl)
      obtain r3 c3 ic3 where fh: "flushHeader M cache (c2, ic2) = (r3, (c3, ic3))" by (metis prod.exhaust)
      have "is_ok r3"
        using fh hdr Some by (auto simp: flushHeader_def Let_def cache_insertHeader_def via_client_def on_headers_def split: prod.splits)
          (metis fst_conv hdr)
      then have "is_ok r"
        using run l f fh u True by (auto simp: insertBody_def bindM_def retM_def is_ok_def split: sum.splits)
      then show ?thesis using early True by simp
    qed
  qed
qed

lemma insert_chunks_failure_keeps_headers:
  assumes hdr: "\<And>k e m. is_ok (fst (imap_put (hdr_ops M) k e m))"
  shows "insert_chunks E M cache chunks (c, ic) = (Inl err, (c', ic')) \<Longrightarrow> header_map c' = header_map c"
proof (induction chunks arbitrary: c ic)
  case (Cons chunk chunks)
  obtain r1 c1 ic1 where b: "insertBody E M cache chunk False (chunks = []) (c, ic) = (r1, (c1, ic1))" by (metis prod.exhaust)
  show ?case
  proof (cases r1)
    case (Inl e)
    then show ?thesis
      using insertBody_failure_keeps_headers [OF hdr b] b Cons.prems by (simp add: bindM_def is_ok_def)
  next
    case (Inr x)
    then have rest: "insert_chunks E M cache chunks (c1, ic1) = (Inl err, (c', ic'))"
      using b Cons.prems by (simp add: bindM_def)
    then have "chunks \<noteq> []" by (auto simp: retM_def)
    then have "header_map c1 = header_map c"
      using insertBody_failure_keeps_headers [OF hdr b] by simp
    then show ?thesis using Cons.IH [OF rest] by simp
  qed
qed (simp add: retM_def)


text \<open>Envoy's buffers and headers on plain lists, for examples.\<close>

definition list_envoy :: "(nat, hdr list, hdr list option \<times> nat, byte list) envoy_ops" where
  "list_envoy = \<lparr>stableHashKey = id, makeLookupResult = (\<lambda>_ h n. (h, n)), emptyLookupResult = (None, 0), copyHeaderMap = id,
     buf_length = length, buf_copyOut = (\<lambda>b i n. if i + n \<le> length b then Inr (take n (drop i b)) else Inl OutOfBounds)\<rparr>"

definition small_cache :: "nat \<Rightarrow> unit HazelcastHttpCache" where
  "small_cache P = \<lparr>hz_config = \<lparr>group_name = '''', group_password = '''', ip = '''', port = 0, cfg_body_partition_size = int P,
     body_map_name = ''b'', header_map_name = ''h''\<rparr>, hz = Some (), BODY_PARTITION_SIZE = P\<rparr>"

definition fresh_insert :: "nat \<Rightarrow> nat \<Rightarrow> hdr list InsertContext" where
  "fresh_insert hash P = \<lparr>ic_header = HeaderEntry_new 0, body_order = 0, ic_hash_key = hash, ic_partition_size = P,
     available_buffer_bytes = P, ic_total_body_size = 0, buffer_vector = []\<rparr>"

lemma insert_loop_numeral:
  "insert_loop (numeral n) E M cache chunk remaining idx = insert_loop (Suc (pred_numeral n)) E M cache chunk remaining idx"
  by (simp only: numeral_eq_Suc)


text \<open>Partitions of different requests can share a key: the hash and the partition number are printed one
  after the other without a separator, so partition i of the hash 10h + d is stored where partition
  10d + i of the hash h is looked for.\<close>

theorem body_keys_collide:
  assumes "0 < h" "0 < d" "d < 10" "i < 10"
  shows "body_key (10 * h + d) i = body_key h (10 * d + i) \<and> 10 * h + d \<noteq> h"
proof -
  have "nat_to_string (10 * h + d) = nat_to_string h @ [digit_char d]"
    using assms by (subst nat_to_string.simps) simp
  moreover have "nat_to_string (10 * d + i) = nat_to_string d @ [digit_char i]" "nat_to_string d = [digit_char d]"
    "nat_to_string i = [digit_char i]"
    using assms by (simp_all add: nat_to_string.simps)
  ultimately show ?thesis using assms by (simp add: body_key_def)
qed

theorem body_keys_collide_witness: "body_key 123 4 = body_key 12 34"
  using body_keys_collide [of 12 3 4] by simp

text \<open>Every 32-bit value of the configured partition size gives a positive partition size: 0 means the default, a positive
  one is taken as it is, and a negative one becomes a size of at least 2 to the 63, so that bodies are never partitioned.\<close>

theorem partition_size_positive:
  assumes "int32_range (cfg_body_partition_size config)" "P = bodySizePerEntry (HttpCache_new config :: 'cl HazelcastHttpCache)"
  shows "0 < P \<and> (0 < cfg_body_partition_size config \<longrightarrow> int P = cfg_body_partition_size config)
    \<and> (cfg_body_partition_size config = 0 \<longrightarrow> P = 1024) \<and> (cfg_body_partition_size config < 0 \<longrightarrow> 2 ^ 63 \<le> P)"
proof -
  let ?n = "cfg_body_partition_size config"
  have P: "P = (if ?n = 0 then 1024 else nat (?n mod 2 ^ 64))"
    unfolding assms(2) by (simp add: bodySizePerEntry_def HttpCache_new_def DEFAULT_PARTITION_SIZE_def to_uint64_def)
  have r: "- (2 ^ 31) \<le> ?n" "?n < 2 ^ 31" using assms(1) by (simp_all add: int32_range_def)
  consider "?n = 0" | "0 < ?n" | "?n < 0" by linarith
  then show ?thesis
  proof cases
    case 2
    then have "?n mod 2 ^ 64 = ?n" using r by (intro mod_pos_pos_trivial) simp_all
    then show ?thesis using 2 P by simp
  next
    case 3
    have "?n mod 2 ^ 64 = (?n + 2 ^ 64) mod 2 ^ 64" by simp
    also have "\<dots> = ?n + 2 ^ 64" using r 3 by (intro mod_pos_pos_trivial) simp_all
    finally have "int P = ?n + 2 ^ 64" using 3 r P by simp
    then have "int (2 ^ 63) \<le> int P" using r(1) by simp
    then have "2 ^ 63 \<le> P" by (simp only: of_nat_le_iff)
    then show ?thesis using 3 by simp
  qed (simp add: P)
qed

theorem partition_size_positive_witness:
  "2 ^ 63 \<le> bodySizePerEntry (HttpCache_new \<lparr>group_name = [], group_password = [], ip = [], port = 0, cfg_body_partition_size = - 5,
     body_map_name = [], header_map_name = []\<rparr> :: unit HazelcastHttpCache)"
  using partition_size_positive [OF _ refl, of "\<lparr>group_name = [], group_password = [], ip = [], port = 0, cfg_body_partition_size = - 5,
     body_map_name = [], header_map_name = []\<rparr>", where ?'cl = unit] by (simp add: int32_range_def)

end
