(* ===== verification/Http_Store.thy ===== *)
theory Http_Store
  imports Map_Laws Http_Cache "HOL-Library.List_Lexorder"
begin

text \<open>
  The HTTP cache on the maps it really has.  The theory of the cache states its results over the interface
  \<open>http_maps\<close> of the two distributed maps; here the interface is discharged for the proxies that \<open>getMap\<close> returns
  when no near cache is configured: the conversions of \<open>IMap<std::string, HazelcastBodyEntry>\<close> and
  \<open>IMap<int64_t, HazelcastHeaderEntry>\<close> go through the serialization service with the entry classes and the factory
  of the cache, the proxy is \<open>ClientMapProxy\<close>, and the cluster is anything that keeps the contract \<open>imap_server\<close>.
  The reference cluster and a concrete serialization service show that all of this can hold together.
\<close>

section \<open>The two maps of the HTTP cache\<close>

text \<open>
  What the cache needs of the serialization service: its streams, its format of identified objects,
  the entry classes and the cache's factory.
\<close>

definition service_ok :: "'h cache_object ser_service \<Rightarrow> 'h header_ops \<Rightarrow> bool" where
  "service_ok svc H \<longleftrightarrow> object_data_io (svc_io svc) \<and> (\<exists>ser marker. identified_format svc ser marker)
     \<and> (\<exists>fresh. svc_class svc = cache_class (svc_io svc) H fresh) \<and> (\<exists>junk. factories svc = cache_factories junk)
     \<and> header_map_contract H"

text \<open>
  \<open>toObject<HazelcastBodyEntry>\<close> and \<open>toObject<HazelcastHeaderEntry>\<close>: the pointer that the factory
  made is cast to the class asked for, which for an object of the other class is an invalid access.
\<close>

definition as_body :: "'h cache_object option res \<Rightarrow> HazelcastBodyEntry option res" where
  "as_body r = bindR r (\<lambda>x. case x of None \<Rightarrow> Inr None | Some (BodyObj e) \<Rightarrow> Inr (Some e) | Some (HeaderObj _) \<Rightarrow> Inl OutOfBounds)"

definition as_header :: "'h cache_object option res \<Rightarrow> 'h HazelcastHeaderEntry option res" where
  "as_header r = bindR r (\<lambda>x. case x of None \<Rightarrow> Inr None | Some (HeaderObj e) \<Rightarrow> Inr (Some e) | Some (BodyObj _) \<Rightarrow> Inl OutOfBounds)"

text \<open>
  The conversions of \<open>IMap<std::string, HazelcastBodyEntry>\<close> and \<open>IMap<int64_t, HazelcastHeaderEntry>\<close>.
  The serializers of the key types have no body in the sources: the serialized keys are a parameter.
\<close>

type_synonym entry_test = "byte list \<times> byte list \<Rightarrow> bool"

definition body_codec :: "'h cache_object ser_service \<Rightarrow> (string \<Rightarrow> byte list) \<Rightarrow>
    (string, HazelcastBodyEntry, byte list, entry_test, unit, unit) map_codec" where
  "body_codec svc kd =
     \<lparr>k_toData = (\<lambda>k. Inr (kd k)), v_toData = (\<lambda>e. toData svc (\<lambda>_. None) (Some (BodyObj e))),
      q_toData = (\<lambda>_. Inl UnsupportedOperationException), e_toData = (\<lambda>_. Inl UnsupportedOperationException),
      k_toObject = (\<lambda>_. Inl UnsupportedOperationException), v_toObject = (\<lambda>d. as_body (toObject svc d)),
      r_toObject = (\<lambda>_. Inl UnsupportedOperationException)\<rparr>"

definition header_codec :: "'h cache_object ser_service \<Rightarrow> (int \<Rightarrow> byte list) \<Rightarrow>
    (int, 'h HazelcastHeaderEntry, byte list, entry_test, unit, unit) map_codec" where
  "header_codec svc kd =
     \<lparr>k_toData = (\<lambda>k. Inr (kd k)), v_toData = (\<lambda>e. toData svc (\<lambda>_. None) (Some (HeaderObj e))),
      q_toData = (\<lambda>_. Inl UnsupportedOperationException), e_toData = (\<lambda>_. Inl UnsupportedOperationException),
      k_toObject = (\<lambda>_. Inl UnsupportedOperationException), v_toObject = (\<lambda>d. as_header (toObject svc d)),
      r_toObject = (\<lambda>_. Inl UnsupportedOperationException)\<rparr>"

text \<open>What a header entry is after a trip through the service.\<close>

definition stored_header :: "'h cache_object ser_service \<Rightarrow> 'h HazelcastHeaderEntry \<Rightarrow> 'h HazelcastHeaderEntry" where
  "stored_header svc e =
     (case bindR (toData svc (\<lambda>_. None) (Some (HeaderObj e))) (\<lambda>d. as_header (toObject svc d)) of
        Inr (Some e') \<Rightarrow> e' | _ \<Rightarrow> e)"

lemma body_service:
  assumes "service_ok svc H" "length (body_buffer e) < 2 ^ 31"
  shows "\<exists>d. toData svc (\<lambda>_. None) (Some (BodyObj e)) = Inr d \<and> as_body (toObject svc d) = Inr (Some e)"
  using assms body_service_roundtrip [of svc _ _ H _ _ e] unfolding service_ok_def as_body_def by fastforce

lemma header_service:
  assumes "service_ok svc H" "storable_header H e"
  shows "\<exists>d. toData svc (\<lambda>_. None) (Some (HeaderObj e)) = Inr d
    \<and> as_header (toObject svc d) = Inr (Some (stored_header svc e)) \<and> same_header H e (stored_header svc e)"
proof -
  obtain d e' where "toData svc (\<lambda>_. None) (Some (HeaderObj e)) = Inr d" "toObject svc d = Inr (Some (HeaderObj e'))"
    "same_header H e e'"
    using assms header_service_roundtrip [of svc _ _ H _ _ e] unfolding service_ok_def by blast
  then show ?thesis by (simp add: as_header_def stored_header_def)
qed

lemma body_typed_map:
  assumes "imap_server impl sabs sok" "service_ok svc H" "inj kd"
  shows "typed_map impl sabs sok (body_codec svc kd) kd (\<lambda>b. length (body_buffer b) < 2 ^ 31) id"
proof (rule typed_map.intro [OF assms(1)], unfold_locales)
  fix v :: HazelcastBodyEntry
  assume "length (body_buffer v) < 2 ^ 31"
  then show "\<exists>d. v_toData (body_codec svc kd) v = Inr d \<and> v_toObject (body_codec svc kd) d = Inr (Some (id v))"
    using body_service [OF assms(2)] by (simp add: body_codec_def)
qed (use assms(3) in \<open>simp_all add: body_codec_def\<close>)

lemma header_typed_map:
  assumes "imap_server impl sabs sok" "service_ok svc H" "inj kd"
  shows "typed_map impl sabs sok (header_codec svc kd) kd (storable_header H) (stored_header svc)"
proof (rule typed_map.intro [OF assms(1)], unfold_locales)
  fix v
  assume "storable_header H v"
  then show "\<exists>d. v_toData (header_codec svc kd) v = Inr d \<and> v_toObject (header_codec svc kd) d = Inr (Some (stored_header svc v))"
    using header_service [OF assms(2)] by (auto simp: header_codec_def)
qed (use assms(3) in \<open>simp_all add: header_codec_def\<close>)

text \<open>The maps that \<open>getMap\<close> gives when no near cache is configured.\<close>

definition http_ops :: "('bs, byte list, entry_test, 'f) IMapImpl \<Rightarrow> ('hs, byte list, entry_test, 'f) IMapImpl \<Rightarrow> 'h cache_object ser_service \<Rightarrow>
    (string \<Rightarrow> byte list) \<Rightarrow> (int \<Rightarrow> byte list) \<Rightarrow> near_env \<Rightarrow>
    ((byte list, 'c, 'mk, 'bs) map_proxy, (byte list, 'c, 'mk, 'hs) map_proxy, 'h) map_ops" where
  "http_ops bimpl himpl svc kb kh env =
     \<lparr>body_ops = proxy_ops bimpl (ClientMapProxy_vt bimpl (body_codec svc kb)) (body_codec svc kb) env,
      hdr_ops = proxy_ops himpl (ClientMapProxy_vt himpl (header_codec svc kh)) (header_codec svc kh) env\<rparr>"

text \<open>Both clusters answer and hold only entries that can be read.\<close>

definition maps_ready :: "('bs \<Rightarrow> bool) \<Rightarrow> ('hs \<Rightarrow> bool) \<Rightarrow> ('bs \<Rightarrow> byte list \<rightharpoonup> byte list) \<Rightarrow> ('hs \<Rightarrow> byte list \<rightharpoonup> byte list) \<Rightarrow>
    'h cache_object ser_service \<Rightarrow> ((byte list, 'c, 'mk, 'bs) map_proxy, (byte list, 'c, 'mk, 'hs) map_proxy) cluster \<Rightarrow> bool" where
  "maps_ready bok hok bs hs svc c \<longleftrightarrow> bok (pr_server (body_map c)) \<and> hok (pr_server (header_map c))
     \<and> (\<forall>d \<in> ran (bs (pr_server (body_map c))). \<exists>e. as_body (toObject svc d) = Inr (Some e))
     \<and> (\<forall>d \<in> ran (hs (pr_server (header_map c))). \<exists>e. as_header (toObject svc d) = Inr (Some e))"

definition http_store_ok :: "('bs, byte list, entry_test, 'f) IMapImpl \<Rightarrow> ('bs \<Rightarrow> byte list \<rightharpoonup> byte list) \<Rightarrow> ('bs \<Rightarrow> bool) \<Rightarrow>
    ('hs, byte list, entry_test, 'f) IMapImpl \<Rightarrow> ('hs \<Rightarrow> byte list \<rightharpoonup> byte list) \<Rightarrow> ('hs \<Rightarrow> bool) \<Rightarrow>
    'h cache_object ser_service \<Rightarrow> 'h header_ops \<Rightarrow> (string \<Rightarrow> byte list) \<Rightarrow> (int \<Rightarrow> byte list) \<Rightarrow> bool" where
  "http_store_ok bimpl bs bok himpl hs hok svc H kb kh \<longleftrightarrow>
     imap_server bimpl bs bok \<and> imap_server himpl hs hok \<and> service_ok svc H \<and> inj kb \<and> inj kh"

text \<open>A body all of whose partitions the body map holds, as a lookup context sees it.\<close>

definition body_cached :: "('bs \<Rightarrow> bool) \<Rightarrow> ('hs \<Rightarrow> bool) \<Rightarrow> ('bs \<Rightarrow> byte list \<rightharpoonup> byte list) \<Rightarrow> ('hs \<Rightarrow> byte list \<rightharpoonup> byte list) \<Rightarrow>
    'h cache_object ser_service \<Rightarrow> (string \<Rightarrow> byte list) \<Rightarrow> byte list \<Rightarrow>
    ((byte list, 'c, 'mk, 'bs) map_proxy, (byte list, 'c, 'mk, 'hs) map_proxy) cluster \<Rightarrow> 'req LookupContext \<Rightarrow> bool" where
  "body_cached bok hok bs hs svc kb body c lc \<longleftrightarrow> maps_ready bok hok bs hs svc c \<and> lc_total_body_size lc = length body
     \<and> (\<forall>i \<le> length body div lc_partition_size lc.
          \<exists>d. bs (pr_server (body_map c)) (kb (body_key (lc_hash_key lc) i)) = Some d
            \<and> as_body (toObject svc d) = Inr (Some \<lparr>body_buffer = block (lc_partition_size lc) i body\<rparr>))"

text \<open>The views that the two proxies give of their clusters.\<close>

definition bodies_of :: "('bs \<Rightarrow> byte list \<rightharpoonup> byte list) \<Rightarrow> 'h cache_object ser_service \<Rightarrow> (string \<Rightarrow> byte list) \<Rightarrow>
    (byte list, 'c, 'mk, 'bs) map_proxy \<Rightarrow> string \<rightharpoonup> HazelcastBodyEntry" where
  "bodies_of bs svc kb p = decoded_entries bs (body_codec svc kb) kb (pr_server p)"

definition bodies_ready :: "('bs \<Rightarrow> byte list \<rightharpoonup> byte list) \<Rightarrow> ('bs \<Rightarrow> bool) \<Rightarrow> 'h cache_object ser_service \<Rightarrow>
    (string \<Rightarrow> byte list) \<Rightarrow> (byte list, 'c, 'mk, 'bs) map_proxy \<Rightarrow> bool" where
  "bodies_ready bs bok svc kb p = server_decodable bs bok (body_codec svc kb) (pr_server p)"

definition headers_of :: "('hs \<Rightarrow> byte list \<rightharpoonup> byte list) \<Rightarrow> 'h cache_object ser_service \<Rightarrow> (int \<Rightarrow> byte list) \<Rightarrow>
    (byte list, 'c, 'mk, 'hs) map_proxy \<Rightarrow> int \<rightharpoonup> 'h HazelcastHeaderEntry" where
  "headers_of hs svc kh p = decoded_entries hs (header_codec svc kh) kh (pr_server p)"

definition headers_ready :: "('hs \<Rightarrow> byte list \<rightharpoonup> byte list) \<Rightarrow> ('hs \<Rightarrow> bool) \<Rightarrow> 'h cache_object ser_service \<Rightarrow>
    (int \<Rightarrow> byte list) \<Rightarrow> (byte list, 'c, 'mk, 'hs) map_proxy \<Rightarrow> bool" where
  "headers_ready hs hok svc kh p = server_decodable hs hok (header_codec svc kh) (pr_server p)"

lemma http_maps_over_proxies:
  assumes "http_store_ok bimpl bs bok himpl hs hok svc H kb kh"
  shows "http_maps (http_ops bimpl himpl svc kb kh env)
    (bodies_of bs svc kb) (\<lambda>b. length (body_buffer b) < 2 ^ 31) id (bodies_ready bs bok svc kb)
    (headers_of hs svc kh) (storable_header H) (stored_header svc) (headers_ready hs hok svc kh) H"
proof (intro http_maps.intro http_maps_axioms.intro)
  have c: "imap_server bimpl bs bok" "imap_server himpl hs hok" "service_ok svc H" "inj kb" "inj kh"
    using assms by (simp_all add: http_store_ok_def)
  show "imap (body_ops (http_ops bimpl himpl svc kb kh env)) (bodies_of bs svc kb)
      (\<lambda>b. length (body_buffer b) < 2 ^ 31) id (bodies_ready bs bok svc kb)"
    unfolding http_ops_def map_ops.simps bodies_of_def [abs_def] bodies_ready_def [abs_def]
    by (rule typed_map.plain_proxy_imap [OF body_typed_map [OF c(1,3,4)]])
  show "imap (hdr_ops (http_ops bimpl himpl svc kb kh env)) (headers_of hs svc kh)
      (storable_header H) (stored_header svc) (headers_ready hs hok svc kh)"
    unfolding http_ops_def map_ops.simps headers_of_def [abs_def] headers_ready_def [abs_def]
    by (rule typed_map.plain_proxy_imap [OF header_typed_map [OF c(2,3,5)]])
  show "storable_header H e \<Longrightarrow> same_header H e (stored_header svc e)" for e
    using header_service [OF c(3)] by blast
qed simp_all

lemma maps_ready_iff:
  "maps_ready bok hok bs hs svc c \<longleftrightarrow> bodies_ready bs bok svc kb (body_map c) \<and> headers_ready hs hok svc kh (header_map c)"
  by (auto simp: maps_ready_def bodies_ready_def headers_ready_def server_decodable_def decodable_def body_codec_def header_codec_def)

lemma bodies_of_iff:
  assumes "bodies_ready bs bok svc kb p"
  shows "bodies_of bs svc kb p key = Some e \<longleftrightarrow> (\<exists>d. bs (pr_server p) (kb key) = Some d \<and> as_body (toObject svc d) = Inr (Some e))"
  using assms
  by (auto simp: bodies_of_def decoded_entries_def decoded_def toObject_auto_def bodies_ready_def server_decodable_def
      decodable_def body_codec_def ran_def split: option.splits sum.splits)

lemma body_cached_iff:
  fixes M :: "((byte list, 'c, 'mk, 'bs) map_proxy, (byte list, 'c, 'mk, 'hs) map_proxy, 'h) map_ops"
    and c :: "((byte list, 'c, 'mk, 'bs) map_proxy, (byte list, 'c, 'mk, 'hs) map_proxy) cluster"
  assumes L: "http_maps M (bodies_of bs svc kb) bv bst (bodies_ready bs bok svc kb) (headers_of hs svc kh) hv hst (headers_ready hs hok svc kh) H"
  shows "body_cached bok hok bs hs svc kb body c lc \<longleftrightarrow>
    http_maps.body_available (bodies_of bs svc kb) (bodies_ready bs bok svc kb) (headers_ready hs hok svc kh)
      (lc_partition_size lc) (lc_hash_key lc) body c lc"
  unfolding http_maps.body_available_def [OF L] http_maps.cluster_ok_def [OF L] body_cached_def maps_ready_iff [of bok hok bs hs svc c kb kh]
  using bodies_of_iff [of bs bok svc kb "body_map c"] by auto

text \<open>The interpretation on the reference cluster, with the cache's own serialization service.\<close>

definition string_data :: "string \<Rightarrow> byte list" where
  "string_data s = map (\<lambda>c. word_of_nat (of_char c)) s"

text \<open>
  A 64-bit key in network order; integers outside the type, which no key is, are told apart by their length.
\<close>

definition long_data :: "int \<Rightarrow> byte list" where
  "long_data i = (if int64_range i then be_writeLong False i else [if i < 0 then 1 else 0] @ replicate (nat \<bar>i\<bar>) 0)"

lemma string_data_inj: "inj string_data"
proof (rule injI)
  fix s t
  assume eq: "string_data s = string_data t"
  have "inj (\<lambda>c :: char. word_of_nat (of_char c) :: byte)"
    by (rule injI) (simp add: word_of_nat_eq_iff take_bit_eq_mod)
  then show "s = t" using eq by (simp add: string_data_def inj_map_eq_map)
qed

lemma long_data_inj: "inj long_data"
proof (rule injI)
  fix i j
  assume eq: "long_data i = long_data j"
  have len: "length (be_writeLong False k) = 8" for k by (simp add: be_writeLong_def)
  have out: "length (long_data k) \<noteq> 8" if "\<not> int64_range k" for k
    using that by (auto simp: long_data_def int64_range_def)
  show "i = j"
  proof (cases "int64_range i \<and> int64_range j")
    case True
    then show ?thesis
      using eq reads_backD [OF be_long_reads_back, of i False "[]"] reads_backD [OF be_long_reads_back, of j False "[]"]
      by (simp add: long_data_def)
  next
    case False
    then have "\<not> int64_range i \<and> \<not> int64_range j" using eq out len by (metis long_data_def)
    then show ?thesis
      using eq by (auto simp: long_data_def replicate_eq_replicate split: if_splits)
  qed
qed

lemma cache_service_ok:
  assumes "header_map_contract H"
  shows "service_ok (cache_service be H junk) H"
proof -
  have "svc_class (cache_service be H junk) = cache_class (svc_io (cache_service be H junk)) H (BodyObj BodyEntry_new)"
    "factories (cache_service be H junk) = cache_factories junk"
    by (simp_all add: cache_service_def Let_def)
  then show ?thesis
    using assms cache_service_io cache_service_format unfolding service_ok_def by blast
qed

lemma reference_store_ok:
  "http_store_ok (reference_cluster pt) sm_abs ref_ok (reference_cluster pt) sm_abs ref_ok
     (cache_service be (list_headers inl) junk) (list_headers inl) string_data long_data"
  using cache_service_ok [OF list_headers_contract] string_data_inj long_data_inj ref.imap_server_axioms
  by (simp add: http_store_ok_def)

interpretation ref_bodies: typed_map "reference_cluster pt" sm_abs ref_ok "body_codec (cache_service be (list_headers inl) junk) string_data"
  string_data "\<lambda>b. length (body_buffer b) < 2 ^ 31" id for pt be inl junk
  by (rule body_typed_map [OF ref.imap_server_axioms cache_service_ok [OF list_headers_contract] string_data_inj])

interpretation ref_headers: typed_map "reference_cluster pt" sm_abs ref_ok "header_codec (cache_service be (list_headers inl) junk) long_data"
  long_data "storable_header (list_headers inl)" "stored_header (cache_service be (list_headers inl) junk)" for pt be inl junk
  by (rule header_typed_map [OF ref.imap_server_axioms cache_service_ok [OF list_headers_contract] long_data_inj])

interpretation ref_http: http_maps
  "http_ops (reference_cluster pt) (reference_cluster pt) (cache_service be (list_headers inl) junk) string_data long_data env"
  "bodies_of sm_abs (cache_service be (list_headers inl) junk) string_data" "\<lambda>b. length (body_buffer b) < 2 ^ 31" id
  "bodies_ready sm_abs ref_ok (cache_service be (list_headers inl) junk) string_data"
  "headers_of sm_abs (cache_service be (list_headers inl) junk) long_data" "storable_header (list_headers inl)"
  "stored_header (cache_service be (list_headers inl) junk)"
  "headers_ready sm_abs ref_ok (cache_service be (list_headers inl) junk) long_data" "list_headers inl" for pt be inl junk env
  by (rule http_maps_over_proxies [OF reference_store_ok])

section \<open>The cache over its maps\<close>

lemma insert_response_cached:
  assumes store: "http_store_ok bimpl bs bok himpl hs hok svc H kb kh" and M: "M = http_ops bimpl himpl svc kb kh env"
    and E: "buffer_contract E content" and cl: "hz cache = Some cl" and c: "maps_ready bok hok bs hs svc c"
    and ic: "makeInsertContext junk cache (Some lc) = Inr ic"
    and chunks: "chunks \<noteq> []" "body = concat (map content chunks)" "sizes_ok (bodySizePerEntry cache) (length body)"
    and hd: "storable_header H \<lparr>header_map_ptr = Some (copyHeaderMap E rh), total_body_size = length body\<rparr>"
  shows "\<exists>c' ic'. insert_response E M cache rh chunks (c, ic) = (Inr (), (c', ic'))
    \<and> http_maps.response_stored (bodies_of bs svc kb) (bodies_ready bs bok svc kb) (headers_of hs svc kh)
        (headers_ready hs hok svc kh) H (bodySizePerEntry cache) (lc_hash_key lc) (copyHeaderMap E rh) body c c'"
proof -
  note L = http_maps_over_proxies [OF store, of env]
  have "http_maps.cluster_ok (bodies_ready bs bok svc kb) (headers_ready hs hok svc kh) c"
    unfolding http_maps.cluster_ok_def [OF L] using c maps_ready_iff by blast
  then show ?thesis
    using http_maps.insert_response_ok [OF L E cl _ refl refl ic chunks(1)] chunks(2,3) hd unfolding M by blast
qed

section \<open>Sequences of operations\<close>

text \<open>What Envoy does with the cache, in any order: responses are inserted, looked up and read, and the maps are cleared.\<close>

datatype ('req, 'h, 'buf) cache_op =
    CInsert "'req LookupContext" 'h "'buf list" | CLookup "'req LookupContext" | CRead "'req LookupContext" nat nat | CClear

fun run_cache :: "('req, 'h, 'res, 'buf) envoy_ops \<Rightarrow> ('bm, 'hm, 'h) map_ops \<Rightarrow> 'cl HazelcastHttpCache \<Rightarrow> nat \<Rightarrow> ('req, 'h, 'buf) cache_op \<Rightarrow>
    (('bm, 'hm) cluster, unit) comp" where
  "run_cache E M cache junk (CInsert lc rh chunks) =
     (\<lambda>c. case makeInsertContext junk cache (Some lc) of
        Inl e \<Rightarrow> (Inl e, c)
      | Inr ic \<Rightarrow> (case insert_response E M cache rh chunks (c, ic) of (r, (c', _)) \<Rightarrow> (r, c')))"
| "run_cache E M cache junk (CLookup lc) = bindM (getHeaders E M cache lc) (\<lambda>_. retM ())"
| "run_cache E M cache junk (CRead lc i j) = bindM (getBody M cache lc i j) (\<lambda>_. retM ())"
| "run_cache E M cache junk CClear = clearMaps M cache"

fun cache_op_ok :: "('req, 'h, 'res, 'buf) envoy_ops \<Rightarrow> ('buf \<Rightarrow> byte list) \<Rightarrow> 'h header_ops \<Rightarrow> nat \<Rightarrow> ('req, 'h, 'buf) cache_op \<Rightarrow> bool" where
  "cache_op_ok E content H P (CInsert lc rh chunks) \<longleftrightarrow> chunks \<noteq> [] \<and> sizes_ok P (length (concat (map content chunks)))
     \<and> storable_header H \<lparr>header_map_ptr = Some (copyHeaderMap E rh), total_body_size = length (concat (map content chunks))\<rparr>"
| "cache_op_ok E content H P _ \<longleftrightarrow> True"

context http_maps
begin

lemma getBody_keeps:
  assumes "hz cache = Some cl" "cluster_ok c"
  shows "cluster_ok (snd (getBody M cache lc i j c))"
proof -
  obtain c' where "lookupBody M cache (body_key (lc_hash_key lc) (i div lc_partition_size lc)) c
      = (Inr (babs (body_map c) (body_key (lc_hash_key lc) (i div lc_partition_size lc))), c')" "cluster_ok c'"
    using lookupBody_ok [OF assms] by blast
  then show ?thesis
    using assms(2) by (auto simp: getBody_def Let_def comp_simps split: option.splits sum.splits)
qed

lemma getHeaders_keeps:
  assumes "hz cache = Some cl" "cluster_ok c"
  shows "is_ok (fst (getHeaders E M cache lc c)) \<and> cluster_ok (snd (getHeaders E M cache lc c))"
  using lookupHeader_ok [OF assms, of "lc_hash_key lc"] by (auto simp: getHeaders_def comp_simps split: option.splits)

text \<open>Only the copy of a range out of a partition can fail.\<close>

lemma run_cache_keeps:
  assumes E: "buffer_contract E content" and cl: "hz cache = Some cl" and ok: "cluster_ok c"
    and op: "cache_op_ok E content H (bodySizePerEntry cache) x"
  shows "cluster_ok (snd (run_cache E M cache junk x c)) \<and> (is_ok (fst (run_cache E M cache junk x c)) \<or> (\<exists>lc i j. x = CRead lc i j))"
proof (cases x)
  case (CInsert lc rh chunks)
  obtain ic :: "'h InsertContext" where ic: "makeInsertContext junk cache (Some lc) = Inr ic" by (simp add: makeInsertContext_def)
  show ?thesis
    using insert_response_ok [OF E cl ok refl refl ic, of chunks rh] op CInsert ic by (auto simp: response_stored_def)
next
  case (CLookup lc)
  then show ?thesis using getHeaders_keeps [OF cl ok, of E lc] by (auto simp: comp_simps split: sum.splits prod.splits)
next
  case (CRead lc i j)
  then show ?thesis using getBody_keeps [OF cl ok, of lc i j] by (auto simp: comp_simps split: sum.splits prod.splits)
next
  case CClear
  then show ?thesis using clearMaps_ok [OF cl ok] by auto
qed

lemma runs_cache_keep:
  assumes E: "buffer_contract E content" and cl: "hz cache = Some cl" and ok: "cluster_ok c"
    and ops: "\<forall>x \<in> set xs. cache_op_ok E content H (bodySizePerEntry cache) x"
  shows "cluster_ok (fold (\<lambda>x c. snd (run_cache E M cache junk x c)) xs c)"
  using ok ops by (induction xs arbitrary: c) (simp_all add: run_cache_keeps [OF E cl])

end

section \<open>An example store\<close>

text \<open>
  Reference clusters, the concrete service and a client without near caches.
\<close>

type_synonym example_proxy = "(byte list, unit, unit, (byte list, byte list) sync_map) map_proxy"

definition example_maps :: "(example_proxy, example_proxy, hdr list) map_ops" where
  "example_maps = http_ops (reference_cluster (\<lambda>_. 0) :: (_, _, _, unit) IMapImpl) (reference_cluster (\<lambda>_. 0))
     (cache_service False (list_headers {}) 0) string_data long_data quiet_env"

definition empty_maps :: "(example_proxy, example_proxy) cluster" where
  "empty_maps = \<lparr>body_map = \<lparr>pr_server = [], pr_nearCache = None, pr_invalidateOnChange = False, pr_listenerId = []\<rparr>,
     header_map = \<lparr>pr_server = [], pr_nearCache = None, pr_invalidateOnChange = False, pr_listenerId = []\<rparr>\<rparr>"

abbreviation example_ready where
  "example_ready \<equiv> maps_ready ref_ok ref_ok sm_abs sm_abs (cache_service False (list_headers {}) 0)"

abbreviation example_cached where
  "example_cached \<equiv> body_cached ref_ok ref_ok sm_abs sm_abs (cache_service False (list_headers {}) 0) string_data"

lemma empty_maps_ready: "example_ready empty_maps"
proof -
  have "sm_abs [] = (\<lambda>_ :: byte list. None :: byte list option)" by (simp add: fun_eq_iff sm_abs_def sm_at_def)
  then show ?thesis by (simp add: maps_ready_def empty_maps_def ref_ok_def sm_full_def)
qed

lemma list_envoy_contract: "buffer_contract list_envoy id"
  by (simp add: buffer_contract_def list_envoy_def)

lemma small_cache_simps [simp]: "hz (small_cache P) = Some ()" "bodySizePerEntry (small_cache P) = P"
  by (simp_all add: small_cache_def bodySizePerEntry_def)

lemma example_context_simps [simp]:
  "lc_partition_size (makeLookupContext list_envoy n (small_cache P) hash) = P"
  "lc_hash_key (makeLookupContext list_envoy n (small_cache P) hash) = hash"
  by (simp_all add: makeLookupContext_def list_envoy_def)

lemma fresh_insert_context:
  "makeInsertContext 0 (small_cache P) (Some (makeLookupContext list_envoy 0 (small_cache P) hash)) = Inr (fresh_insert hash P)"
  by (simp add: makeInsertContext_def fresh_insert_def)

lemma example_header:
  "storable_header (list_headers {}) \<lparr>header_map_ptr = Some (copyHeaderMap list_envoy [([1], [2])]), total_body_size = n\<rparr> \<longleftrightarrow> n < 2 ^ 64"
  by (simp add: storable_header_def small_headers_def appends_def list_headers_def is_pseudo_def list_envoy_def)

lemma example_body_cached:
  assumes "sizes_ok P n" "length body = n"
  obtains c :: "(example_proxy, example_proxy) cluster" where
    "example_cached body c ((makeLookupContext list_envoy 0 (small_cache P) 7)\<lparr>lc_total_body_size := n\<rparr>)"
proof -
  let ?lc = "makeLookupContext list_envoy 0 (small_cache P) 7"
  note L = http_maps_over_proxies [OF reference_store_ok, of "\<lambda>_. 0 :: int" False "{}" 0 quiet_env]
  have hd: "storable_header (list_headers {})
      \<lparr>header_map_ptr = Some (copyHeaderMap list_envoy [([1], [2])]), total_body_size = length body\<rparr>"
    unfolding example_header using assms by (simp add: sizes_ok_def)
  obtain c1 where "ref_http.response_stored False {} 0 P 7 (copyHeaderMap list_envoy [([1], [2])]) body empty_maps c1"
    using insert_response_cached [OF reference_store_ok refl list_envoy_contract small_cache_simps(1) empty_maps_ready
        fresh_insert_context [of P 7] _ _ _ hd, of "[body]"] assms by auto
  from http_maps.getHeaders_after_insert [OF L small_cache_simps(1) [of P] this, of ?lc list_envoy]
  have "\<exists>c :: (example_proxy, example_proxy) cluster. ref_http.body_available False {} 0 P 7 body c (?lc\<lparr>lc_total_body_size := length body\<rparr>)"
    by auto
  then show thesis using that assms(2) by (auto simp: body_cached_iff [OF L])
qed

end
