(* ===== verification/Paging.thy ===== *)
theory Paging
  imports Map_Proxy
begin

text \<open>
  Paging queries: \<open>client/query/PagingPredicate.h\<close>, the entry arrays of \<open>client/impl/LazyEntryArrayImpl.h\<close> and
  \<open>EntryArrayImpl.h\<close>, \<open>IMapImpl::updateAnchor\<close> and \<open>setAnchor\<close>, and the three paging queries of \<open>ClientMapProxy\<close>.
  The query messages have no body in the sources: fetching the serialized entries of a page is an argument.
\<close>

section \<open>PagingPredicate\<close>

datatype IterationType = KEY | VALUE | ENTRY

record ('k, 'v, 'q, 'cmp) PagingPredicate =
  innerPredicate :: "'q option"
  anchorList :: "(nat \<times> 'k option \<times> 'v option) list"
  pp_comparator :: "'cmp option"
  pageSize :: nat
  page :: nat
  iterationType :: IterationType

definition PagingPredicate_new :: "'q option \<Rightarrow> 'cmp option \<Rightarrow> nat \<Rightarrow> ('k, 'v, 'q, 'cmp) PagingPredicate" where
  "PagingPredicate_new predicate cmp predicatePageSize =
     \<lparr>innerPredicate = predicate, anchorList = [], pp_comparator = cmp, pageSize = predicatePageSize, page = 0, iterationType = VALUE\<rparr>"

definition pp_reset :: "('k, 'v, 'q, 'cmp) PagingPredicate \<Rightarrow> ('k, 'v, 'q, 'cmp) PagingPredicate" where
  "pp_reset p = p\<lparr>iterationType := VALUE, anchorList := [], page := 0\<rparr>"

definition nextPage :: "('k, 'v, 'q, 'cmp) PagingPredicate \<Rightarrow> ('k, 'v, 'q, 'cmp) PagingPredicate" where
  "nextPage p = p\<lparr>page := u64 (page p + 1)\<rparr>"

definition previousPage :: "('k, 'v, 'q, 'cmp) PagingPredicate \<Rightarrow> ('k, 'v, 'q, 'cmp) PagingPredicate" where
  "previousPage p = (if page p \<noteq> 0 then p\<lparr>page := page p - 1\<rparr> else p)"

definition setIterationType :: "IterationType \<Rightarrow> ('k, 'v, 'q, 'cmp) PagingPredicate \<Rightarrow> ('k, 'v, 'q, 'cmp) PagingPredicate" where
  "setIterationType type p = p\<lparr>iterationType := type\<rparr>"

definition setPage :: "nat \<Rightarrow> ('k, 'v, 'q, 'cmp) PagingPredicate \<Rightarrow> ('k, 'v, 'q, 'cmp) PagingPredicate" where
  "setPage pageNumber p = p\<lparr>page := pageNumber\<rparr>"

text \<open>The anchor of the current page: there need not be one.\<close>

definition getAnchor :: "('k, 'v, 'q, 'cmp) PagingPredicate \<Rightarrow> ('k option \<times> 'v option) option res" where
  "getAnchor p =
     (if length (anchorList p) = 0 then Inr None
      else if page p < length (anchorList p) then Inr (Some (snd (anchorList p ! page p))) else Inl OutOfBounds)"

definition getNearestAnchorEntry :: "('k, 'v, 'q, 'cmp) PagingPredicate \<Rightarrow> (nat \<times> 'k option \<times> 'v option) option" where
  "getNearestAnchorEntry p =
     (let anchorCount = length (anchorList p) in
      if page p = 0 \<or> anchorCount = 0 then None
      else if page p < anchorCount then Some (anchorList p ! (page p - 1))
      else Some (anchorList p ! (anchorCount - 1)))"

definition pp_setAnchor :: "nat \<Rightarrow> 'k option \<times> 'v option \<Rightarrow> ('k, 'v, 'q, 'cmp) PagingPredicate \<Rightarrow>
    ('k, 'v, 'q, 'cmp) PagingPredicate res" where
  "pp_setAnchor n anchorEntry p =
     (let anchorCount = length (anchorList p) in
      if n < anchorCount then Inr (p\<lparr>anchorList := (anchorList p)[n := (n, anchorEntry)]\<rparr>)
      else if n = anchorCount then Inr (p\<lparr>anchorList := anchorList p @ [(n, anchorEntry)]\<rparr>)
      else Inl IllegalArgumentException)"

section \<open>Lazily deserialized entries\<close>

text \<open>An item keeps the pointer of a deserialized key or value, which may be null.\<close>

record ('d, 'k, 'v) item =
  item_data :: "'d \<times> 'd"
  item_key :: "'k option option"
  item_value :: "'v option option"

type_synonym ('d, 'k, 'v) entry_array = "('d, 'k, 'v) item list"

definition LazyEntryArray :: "('d \<times> 'd) list \<Rightarrow> ('d, 'k, 'v) entry_array" where
  "LazyEntryArray entries = map (\<lambda>e. \<lparr>item_data = e, item_key = None, item_value = None\<rparr>) entries"

definition checkIndex :: "nat \<Rightarrow> ('d, 'k, 'v) entry_array \<Rightarrow> unit res" where
  "checkIndex index a =
     (if length a = 0 then Inl IllegalArgumentException
      else if length a \<le> index then Inl IllegalArgumentException else Inr ())"

definition item_getKey :: "('d \<Rightarrow> 'k option res) \<Rightarrow> ('d, 'k, 'v) item \<Rightarrow> ('k option \<times> ('d, 'k, 'v) item) res" where
  "item_getKey ko x = (case item_key x of
     Some k \<Rightarrow> Inr (k, x) | None \<Rightarrow> bindR (ko (fst (item_data x))) (\<lambda>k. Inr (k, x\<lparr>item_key := Some k\<rparr>)))"

definition item_getValue :: "('d \<Rightarrow> 'v option res) \<Rightarrow> ('d, 'k, 'v) item \<Rightarrow> ('v option \<times> ('d, 'k, 'v) item) res" where
  "item_getValue vo x = (case item_value x of
     Some v \<Rightarrow> Inr (v, x) | None \<Rightarrow> bindR (vo (snd (item_data x))) (\<lambda>v. Inr (v, x\<lparr>item_value := Some v\<rparr>)))"

definition item_releaseKey :: "('d \<Rightarrow> 'k option res) \<Rightarrow> ('d, 'k, 'v) item \<Rightarrow> ('k option \<times> ('d, 'k, 'v) item) res" where
  "item_releaseKey ko x = (case item_key x of
     Some k \<Rightarrow> Inr (k, x\<lparr>item_key := None\<rparr>) | None \<Rightarrow> bindR (ko (fst (item_data x))) (\<lambda>k. Inr (k, x)))"

definition item_releaseValue :: "('d \<Rightarrow> 'v option res) \<Rightarrow> ('d, 'k, 'v) item \<Rightarrow> ('v option \<times> ('d, 'k, 'v) item) res" where
  "item_releaseValue vo x = (case item_value x of
     Some v \<Rightarrow> Inr (v, x\<lparr>item_value := None\<rparr>) | None \<Rightarrow> bindR (vo (snd (item_data x))) (\<lambda>v. Inr (v, x)))"

definition at_item :: "(('d, 'k, 'v) item \<Rightarrow> ('b \<times> ('d, 'k, 'v) item) res) \<Rightarrow> nat \<Rightarrow> ('d, 'k, 'v) entry_array \<Rightarrow>
    ('b \<times> ('d, 'k, 'v) entry_array) res" where
  "at_item f index a = bindR (checkIndex index a) (\<lambda>_. bindR (f (a ! index)) (\<lambda>(b, x). Inr (b, a[index := x])))"

definition getKey :: "('d \<Rightarrow> 'k option res) \<Rightarrow> nat \<Rightarrow> ('d, 'k, 'v) entry_array \<Rightarrow> ('k option \<times> ('d, 'k, 'v) entry_array) res" where
  "getKey ko = at_item (item_getKey ko)"

definition getValue_at :: "('d \<Rightarrow> 'v option res) \<Rightarrow> nat \<Rightarrow> ('d, 'k, 'v) entry_array \<Rightarrow> ('v option \<times> ('d, 'k, 'v) entry_array) res" where
  "getValue_at vo = at_item (item_getValue vo)"

definition releaseKey :: "('d \<Rightarrow> 'k option res) \<Rightarrow> nat \<Rightarrow> ('d, 'k, 'v) entry_array \<Rightarrow> ('k option \<times> ('d, 'k, 'v) entry_array) res" where
  "releaseKey ko = at_item (item_releaseKey ko)"

definition releaseValue :: "('d \<Rightarrow> 'v option res) \<Rightarrow> nat \<Rightarrow> ('d, 'k, 'v) entry_array \<Rightarrow> ('v option \<times> ('d, 'k, 'v) entry_array) res" where
  "releaseValue vo = at_item (item_releaseValue vo)"

text \<open>
  The order of items: by the comparator and then by key, or by value or key.  A null pointer that the order
  dereferences is an invalid access.
\<close>

definition less_ptr :: "('a \<Rightarrow> 'a \<Rightarrow> bool) \<Rightarrow> 'a option \<Rightarrow> 'a option \<Rightarrow> bool res" where
  "less_ptr lt x y = (case (x, y) of (Some a, Some b) \<Rightarrow> Inr (lt a b) | _ \<Rightarrow> Inl NullDereference)"

definition item_less :: "('k \<Rightarrow> 'k \<Rightarrow> bool) \<Rightarrow> ('v \<Rightarrow> 'v \<Rightarrow> bool) \<Rightarrow> ('k option \<times> 'v option \<Rightarrow> 'k option \<times> 'v option \<Rightarrow> int) option \<Rightarrow>
    IterationType \<Rightarrow> 'k option \<times> 'v option \<Rightarrow> 'k option \<times> 'v option \<Rightarrow> bool res" where
  "item_less klt vlt cmp type l r =
     (case cmp of
        Some compare \<Rightarrow>
          let result = compare l r in
          if result \<noteq> 0 then Inr (result < 0) else less_ptr klt (fst l) (fst r)
      | None \<Rightarrow> if type = VALUE then less_ptr vlt (snd l) (snd r) else less_ptr klt (fst l) (fst r))"

text \<open>
  Sorting, by insertion. \<open>std::sort\<close> leaves the order of items that \<open><\<close> does not separate open; the theorems are about
  arrays whose items it separates.
\<close>

fun insert_item :: "('a \<Rightarrow> 'a \<Rightarrow> bool res) \<Rightarrow> 'a \<Rightarrow> 'a list \<Rightarrow> 'a list res" where
  "insert_item lt x [] = Inr [x]"
| "insert_item lt x (y # ys) =
     bindR (lt y x) (\<lambda>b. if b then bindR (insert_item lt x ys) (\<lambda>zs. Inr (y # zs)) else Inr (x # y # ys))"

fun sort_items :: "('a \<Rightarrow> 'a \<Rightarrow> bool res) \<Rightarrow> 'a list \<Rightarrow> 'a list res" where
  "sort_items lt [] = Inr []"
| "sort_items lt (x # xs) = bindR (sort_items lt xs) (insert_item lt x)"

definition item_pair :: "('d, 'k, 'v) item \<Rightarrow> 'k option \<times> 'v option" where
  "item_pair x = (case item_key x of None \<Rightarrow> None | Some k \<Rightarrow> k, case item_value x of None \<Rightarrow> None | Some v \<Rightarrow> v)"

definition EntryArray_sort :: "('k \<Rightarrow> 'k \<Rightarrow> bool) \<Rightarrow> ('v \<Rightarrow> 'v \<Rightarrow> bool) \<Rightarrow> ('k, 'v, 'd, 'q, 'e, 'r) map_codec \<Rightarrow>
    ('k option \<times> 'v option \<Rightarrow> 'k option \<times> 'v option \<Rightarrow> int) option \<Rightarrow> IterationType \<Rightarrow> ('d, 'k, 'v) entry_array \<Rightarrow>
    ('d, 'k, 'v) entry_array res" where
  "EntryArray_sort klt vlt cd cmp type a =
     bindR (mapR (\<lambda>x. bindR (item_getKey (k_toObject cd) x) (\<lambda>(_, x1). bindR (item_getValue (v_toObject cd) x1) (\<lambda>(_, x2). Inr x2))) a)
       (sort_items (\<lambda>x y. item_less klt vlt cmp type (item_pair x) (item_pair y)))"

text \<open>
  The constructor that takes a range of an array over: it deserializes all of it, and the original no longer owns the
  keys and values of the range.
\<close>

definition sub_array :: "('k, 'v, 'd, 'q, 'e, 'r) map_codec \<Rightarrow> nat \<Rightarrow> nat \<Rightarrow> ('d, 'k, 'v) entry_array \<Rightarrow>
    (('d, 'k, 'v) entry_array \<times> ('d, 'k, 'v) entry_array) res" where
  "sub_array cd first stop a =
     (if stop < first then Inl IllegalArgumentException
      else if length a < stop then Inl IllegalArgumentException
      else bindR (mapR (\<lambda>x. bindR (item_getKey (k_toObject cd) x) (\<lambda>(_, x1). bindR (item_getValue (v_toObject cd) x1) (\<lambda>(_, x2). Inr x2))) a)
        (\<lambda>a'. Inr (take (stop - first) (drop first a'),
          take first a' @ map (\<lambda>x. x\<lparr>item_key := None, item_value := None\<rparr>) (take (stop - first) (drop first a')) @ drop stop a')))"

section \<open>Pages\<close>

text \<open>The loop of \<open>IMapImpl::setAnchor\<close>, on fuel.\<close>

fun setAnchor_loop :: "nat \<Rightarrow> ('k, 'v, 'd, 'q, 'e, 'r) map_codec \<Rightarrow> nat \<Rightarrow> int \<Rightarrow> ('d, 'k, 'v) entry_array \<Rightarrow>
    ('k, 'v, 'q, 'cmp) PagingPredicate \<Rightarrow> (('d, 'k, 'v) entry_array \<times> ('k, 'v, 'q, 'cmp) PagingPredicate) res" where
  "setAnchor_loop 0 cd i nearestPage entries predicate = Inl NonTermination"
| "setAnchor_loop (Suc fuel) cd i nearestPage entries predicate =
     (if i \<le> length entries \<and> nearestPage < wrap32 (int (page predicate)) then
        bindR (releaseKey (k_toObject cd) (u64_sub i 1) entries) (\<lambda>(k, entries1).
        bindR (releaseValue (v_toObject cd) (u64_sub i 1) entries1) (\<lambda>(v, entries2).
        bindR (pp_setAnchor (nat ((nearestPage + 1) mod 2 ^ 64)) (k, v) predicate) (\<lambda>predicate1.
        setAnchor_loop fuel cd (u64 (i + pageSize predicate)) (wrap32 (nearestPage + 1)) entries2 predicate1)))
      else Inr (entries, predicate))"

definition setAnchor :: "('k, 'v, 'd, 'q, 'e, 'r) map_codec \<Rightarrow> int \<Rightarrow> ('d, 'k, 'v) entry_array \<Rightarrow>
    ('k, 'v, 'q, 'cmp) PagingPredicate \<Rightarrow> (('d, 'k, 'v) entry_array \<times> ('k, 'v, 'q, 'cmp) PagingPredicate) res" where
  "setAnchor cd nearestPage entries predicate =
     (if length entries = 0 then Inr (entries, predicate)
      else setAnchor_loop (Suc (length entries)) cd (pageSize predicate) nearestPage entries predicate)"

definition updateAnchor :: "('k, 'v, 'd, 'q, 'e, 'r) map_codec \<Rightarrow> ('d, 'k, 'v) entry_array \<Rightarrow> ('k, 'v, 'q, 'cmp) PagingPredicate \<Rightarrow>
    ((nat \<times> nat) \<times> ('d, 'k, 'v) entry_array \<times> ('k, 'v, 'q, 'cmp) PagingPredicate) res" where
  "updateAnchor cd entries predicate =
     (if length entries = 0 then Inr ((0, 0), entries, predicate)
      else let nearestPage = (case getNearestAnchorEntry predicate of None \<Rightarrow> -1 | Some e \<Rightarrow> wrap32 (int (fst e)));
               first = nat ((int (pageSize predicate) * (int (page predicate) - nearestPage - 1)) mod 2 ^ 64);
               size = length entries
           in if size < first then Inr ((0, 0), entries, predicate)
              else let stop = u64 (first + pageSize predicate); stop' = (if size < stop then size else stop)
                   in bindR (setAnchor cd nearestPage entries predicate) (\<lambda>(entries', predicate'). Inr ((first, stop'), entries', predicate')))"

text \<open>The loops that collect the results of a page.\<close>

fun collect_range :: "(nat \<Rightarrow> ('d, 'k, 'v) entry_array \<Rightarrow> ('b \<times> ('d, 'k, 'v) entry_array) res) \<Rightarrow> nat list \<Rightarrow> ('d, 'k, 'v) entry_array \<Rightarrow> 'b list res" where
  "collect_range f [] a = Inr []"
| "collect_range f (i # is) a = bindR (f i a) (\<lambda>(b, a'). bindR (collect_range f is a') (\<lambda>bs. Inr (b # bs)))"

definition key_at :: "('k, 'v, 'd, 'q, 'e, 'r) map_codec \<Rightarrow> nat \<Rightarrow> ('d, 'k, 'v) entry_array \<Rightarrow> ('k \<times> ('d, 'k, 'v) entry_array) res" where
  "key_at cd i a = bindR (getKey (k_toObject cd) i a) (\<lambda>(k, a'). bindR (deref_ptr k) (\<lambda>k. Inr (k, a')))"

definition value_at :: "('k, 'v, 'd, 'q, 'e, 'r) map_codec \<Rightarrow> nat \<Rightarrow> ('d, 'k, 'v) entry_array \<Rightarrow> ('v \<times> ('d, 'k, 'v) entry_array) res" where
  "value_at cd i a = bindR (getValue_at (v_toObject cd) i a) (\<lambda>(v, a'). bindR (deref_ptr v) (\<lambda>v. Inr (v, a')))"

definition entry_at :: "('k, 'v, 'd, 'q, 'e, 'r) map_codec \<Rightarrow> nat \<Rightarrow> ('d, 'k, 'v) entry_array \<Rightarrow> (('k \<times> 'v) \<times> ('d, 'k, 'v) entry_array) res" where
  "entry_at cd i a =
     bindR (checkIndex i a) (\<lambda>_. bindR (getKey (k_toObject cd) i a) (\<lambda>(k, a1). bindR (getValue_at (v_toObject cd) i a1) (\<lambda>(v, a2).
     bindR (deref_ptr k) (\<lambda>k. bindR (deref_ptr v) (\<lambda>v. Inr ((k, v), a2))))))"

definition page_of :: "('k \<Rightarrow> 'k \<Rightarrow> bool) \<Rightarrow> ('v \<Rightarrow> 'v \<Rightarrow> bool) \<Rightarrow> ('k, 'v, 'd, 'q, 'e, 'r) map_codec \<Rightarrow> IterationType \<Rightarrow>
    (nat \<Rightarrow> ('d, 'k, 'v) entry_array \<Rightarrow> ('b \<times> ('d, 'k, 'v) entry_array) res) \<Rightarrow> ('d \<times> 'd) list \<Rightarrow>
    ('k, 'v, 'q, 'k option \<times> 'v option \<Rightarrow> 'k option \<times> 'v option \<Rightarrow> int) PagingPredicate \<Rightarrow>
    ('b list \<times> ('k, 'v, 'q, 'k option \<times> 'v option \<Rightarrow> 'k option \<times> 'v option \<Rightarrow> int) PagingPredicate) res" where
  "page_of klt vlt cd type f dataResult predicate =
     bindR (EntryArray_sort klt vlt cd (pp_comparator predicate) type (LazyEntryArray dataResult)) (\<lambda>entries.
     bindR (updateAnchor cd entries predicate) (\<lambda>((b, e), entries', predicate').
     bindR (collect_range f [b ..< e] entries') (\<lambda>result. Inr (result, predicate'))))"

text \<open>
  The queries. The predicate is passed by reference: its iteration type stays set when the query fails; the anchors
  change only after everything that can fail.
\<close>

type_synonym ('k, 'v) entry_comparator = "'k option \<times> 'v option \<Rightarrow> 'k option \<times> 'v option \<Rightarrow> int"

type_synonym ('k, 'v, 'q) paging = "('k, 'v, 'q, ('k, 'v) entry_comparator) PagingPredicate"

definition paged :: "('k, 'v, 'q) paging \<Rightarrow> (('k, 'v, 'q) paging \<Rightarrow> ('s, ('d \<times> 'd) list) comp) \<Rightarrow>
    (('d \<times> 'd) list \<Rightarrow> ('k, 'v, 'q) paging \<Rightarrow> ('b list \<times> ('k, 'v, 'q) paging) res) \<Rightarrow>
    (('d, 'c, 'mk, 's) map_proxy \<times> ('k, 'v, 'q) paging, 'b list) comp" where
  "paged predicate fetch f = (\<lambda>(p, _).
     case on_server (fetch predicate) p of
       (Inl e, p') \<Rightarrow> (Inl e, (p', predicate))
     | (Inr dataResult, p') \<Rightarrow>
         (case f dataResult predicate of Inl e \<Rightarrow> (Inl e, (p', predicate)) | Inr (result, predicate') \<Rightarrow> (Inr result, (p', predicate'))))"

definition mp_keySet_paging :: "('k \<Rightarrow> 'k \<Rightarrow> bool) \<Rightarrow> ('v \<Rightarrow> 'v \<Rightarrow> bool) \<Rightarrow> ('k, 'v, 'd, 'q, 'e, 'r) map_codec \<Rightarrow> 'd \<Rightarrow>
    (('k, 'v, 'q) paging \<Rightarrow> ('s, 'd list) comp) \<Rightarrow> (('d, 'c, 'mk, 's) map_proxy \<times> ('k, 'v, 'q) paging, 'k list) comp" where
  "mp_keySet_paging klt vlt cd emptyData fetch = (\<lambda>(p, predicate).
     paged (setIterationType KEY predicate) (\<lambda>q. bindM (fetch q) (\<lambda>ks. retM (map (\<lambda>k. (k, emptyData)) ks)))
       (page_of klt vlt cd KEY (key_at cd)) (p, predicate))"

definition mp_values_paging :: "('k \<Rightarrow> 'k \<Rightarrow> bool) \<Rightarrow> ('v \<Rightarrow> 'v \<Rightarrow> bool) \<Rightarrow> ('k, 'v, 'd, 'q, 'e, 'r) map_codec \<Rightarrow>
    (('k, 'v, 'q) paging \<Rightarrow> ('s, ('d \<times> 'd) list) comp) \<Rightarrow> (('d, 'c, 'mk, 's) map_proxy \<times> ('k, 'v, 'q) paging, 'v list) comp" where
  "mp_values_paging klt vlt cd fetch = (\<lambda>(p, predicate).
     paged (setIterationType VALUE predicate) fetch (page_of klt vlt cd VALUE (value_at cd)) (p, predicate))"

definition mp_entrySet_paging :: "('k \<Rightarrow> 'k \<Rightarrow> bool) \<Rightarrow> ('v \<Rightarrow> 'v \<Rightarrow> bool) \<Rightarrow> ('k, 'v, 'd, 'q, 'e, 'r) map_codec \<Rightarrow>
    (('k, 'v, 'q) paging \<Rightarrow> ('s, ('d \<times> 'd) list) comp) \<Rightarrow> (('d, 'c, 'mk, 's) map_proxy \<times> ('k, 'v, 'q) paging, ('k \<times> 'v) list) comp" where
  "mp_entrySet_paging klt vlt cd fetch = (\<lambda>(p, predicate).
     paged predicate fetch (page_of klt vlt cd ENTRY (entry_at cd)) (p, predicate))"

section \<open>Sorting\<close>

definition before :: "('a \<Rightarrow> 'a \<Rightarrow> bool res) \<Rightarrow> 'a \<Rightarrow> 'a \<Rightarrow> bool" where
  "before lt x y \<longleftrightarrow> lt x y = Inr True \<and> lt y x = Inr False"

lemma insert_item_filter:
  "\<lbrakk>sorted_wrt (before lt) all; distinct all; x \<in> set all; x \<notin> A\<rbrakk> \<Longrightarrow>
    insert_item lt x (filter (\<lambda>y. y \<in> A) all) = Inr (filter (\<lambda>y. y \<in> insert x A) all)"
proof (induction all)
  case (Cons a all)
  show ?case
  proof (cases "a = x")
    case True
    have eq: "filter (\<lambda>y. y \<in> insert x A) all = filter (\<lambda>y. y \<in> A) all"
      using Cons.prems(2) True by (intro filter_cong) auto
    have "\<forall>y \<in> set all. lt y x = Inr False" using Cons.prems(1) True by (auto simp: before_def)
    then have "insert_item lt x (filter (\<lambda>y. y \<in> A) all) = Inr (x # filter (\<lambda>y. y \<in> A) all)"
      by (cases "filter (\<lambda>y. y \<in> A) all") (auto simp: bindR_def filter_eq_Cons_iff)
    then show ?thesis using True Cons.prems(4) eq by simp
  next
    case False
    then have x: "x \<in> set all" "lt a x = Inr True" using Cons.prems(1,3) by (auto simp: before_def)
    then show ?thesis using Cons False by (auto simp: bindR_def)
  qed
qed simp

lemma sort_items_filter:
  "\<lbrakk>sorted_wrt (before lt) all; distinct all; distinct xs; set xs \<subseteq> set all\<rbrakk> \<Longrightarrow>
    sort_items lt xs = Inr (filter (\<lambda>y. y \<in> set xs) all)"
proof (induction xs)
  case (Cons x xs)
  then show ?case using insert_item_filter [of lt all x "set xs"] by (simp add: bindR_def)
qed simp

lemma sort_items_map:
  "sort_items (\<lambda>x y. lt (g x) (g y)) xs = Inr ys \<Longrightarrow> sort_items lt (map g xs) = Inr (map g ys)"
proof (induction xs arbitrary: ys)
  case (Cons x xs)
  have ins: "insert_item (\<lambda>x y. lt (g x) (g y)) x zs = Inr ys \<Longrightarrow> insert_item lt (g x) (map g zs) = Inr (map g ys)" for zs ys
    by (induction zs arbitrary: ys) (auto simp: bindR_def split: sum.splits if_splits)
  from Cons show ?case by (auto simp: bindR_def ins split: sum.splits)
qed simp

section \<open>Arrays whose entries decode\<close>

definition decodes :: "('k, 'v, 'd, 'q, 'e, 'r) map_codec \<Rightarrow> ('d \<times> 'd \<Rightarrow> 'k option \<times> 'v option) \<Rightarrow> 'd \<times> 'd \<Rightarrow> bool" where
  "decodes cd dec e \<longleftrightarrow> k_toObject cd (fst e) = Inr (fst (dec e)) \<and> v_toObject cd (snd e) = Inr (snd (dec e))"

definition good_item :: "('d \<times> 'd \<Rightarrow> 'k option \<times> 'v option) \<Rightarrow> 'd \<times> 'd \<Rightarrow> ('d, 'k, 'v) item \<Rightarrow> bool" where
  "good_item dec e x \<longleftrightarrow> item_data x = e \<and> item_key x \<in> {None, Some (fst (dec e))} \<and> item_value x \<in> {None, Some (snd (dec e))}"

definition array_ok :: "('d \<times> 'd \<Rightarrow> 'k option \<times> 'v option) \<Rightarrow> ('d \<times> 'd) list \<Rightarrow> ('d, 'k, 'v) entry_array \<Rightarrow> bool" where
  "array_ok dec es a = list_all2 (good_item dec) es a"

definition full_item :: "('d \<times> 'd \<Rightarrow> 'k option \<times> 'v option) \<Rightarrow> 'd \<times> 'd \<Rightarrow> ('d, 'k, 'v) item" where
  "full_item dec e = \<lparr>item_data = e, item_key = Some (fst (dec e)), item_value = Some (snd (dec e))\<rparr>"

lemma full_array_ok: "array_ok dec es (map (full_item dec) es)"
  by (simp add: array_ok_def list_all2_conv_all_nth good_item_def full_item_def)

lemma at_item_ok:
  assumes "array_ok dec es a" "i < length es" "\<And>x. good_item dec (es ! i) x \<Longrightarrow> \<exists>x'. f x = Inr (b, x') \<and> good_item dec (es ! i) x'"
  shows "\<exists>a'. at_item f i a = Inr (b, a') \<and> array_ok dec es a'"
proof -
  have l: "length a = length es" "good_item dec (es ! i) (a ! i)" using assms(1,2) by (auto simp: array_ok_def list_all2_conv_all_nth)
  obtain x' where "f (a ! i) = Inr (b, x')" "good_item dec (es ! i) x'" using assms(3) l(2) by blast
  moreover from this have "array_ok dec es (a[i := x'])"
    using assms(1,2) by (auto simp: array_ok_def list_all2_conv_all_nth nth_list_update)
  moreover have "checkIndex i a = Inr ()" using assms(2) l(1) by (auto simp: checkIndex_def)
  ultimately show ?thesis by (simp add: at_item_def bindR_def)
qed

lemma array_access:
  assumes "array_ok dec es a" "i < length es" "decodes cd dec (es ! i)"
  shows "\<exists>a'. getKey (k_toObject cd) i a = Inr (fst (dec (es ! i)), a') \<and> array_ok dec es a'"
    "\<exists>a'. getValue_at (v_toObject cd) i a = Inr (snd (dec (es ! i)), a') \<and> array_ok dec es a'"
    "\<exists>a'. releaseKey (k_toObject cd) i a = Inr (fst (dec (es ! i)), a') \<and> array_ok dec es a'"
    "\<exists>a'. releaseValue (v_toObject cd) i a = Inr (snd (dec (es ! i)), a') \<and> array_ok dec es a'"
  unfolding getKey_def getValue_at_def releaseKey_def releaseValue_def
  by (rule at_item_ok [OF assms(1,2)], insert assms(3),
      force simp: decodes_def good_item_def item_getKey_def item_getValue_def item_releaseKey_def item_releaseValue_def bindR_def)+

lemma array_length: "array_ok dec es a \<Longrightarrow> length a = length es"
  by (simp add: array_ok_def list_all2_lengthD)

lemma EntryArray_sort_ok:
  assumes "sorted_wrt (before (\<lambda>x y. item_less klt vlt cmp type (dec x) (dec y))) all" "distinct all" "distinct xs" "set xs \<subseteq> set all"
    and "\<forall>e \<in> set xs. decodes cd dec e"
  shows "EntryArray_sort klt vlt cd cmp type (LazyEntryArray xs) = Inr (map (full_item dec) (filter (\<lambda>y. y \<in> set xs) all))"
proof -
  have m: "mapR (\<lambda>x. bindR (item_getKey (k_toObject cd) x) (\<lambda>(_, x1). bindR (item_getValue (v_toObject cd) x1) (\<lambda>(_, x2). Inr x2)))
      (LazyEntryArray xs) = Inr (map (full_item dec) xs)"
    using assms(5) unfolding LazyEntryArray_def
    by (induction xs) (auto simp: bindR_def item_getKey_def item_getValue_def decodes_def full_item_def)
  have p: "item_pair (full_item dec e) = dec e" for e by (simp add: item_pair_def full_item_def)
  have "sort_items (\<lambda>x y. item_less klt vlt cmp type (item_pair (full_item dec x)) (item_pair (full_item dec y))) xs
      = Inr (filter (\<lambda>y. y \<in> set xs) all)"
    unfolding p by (rule sort_items_filter [OF assms(1-4)])
  from sort_items_map [of "\<lambda>x y. item_less klt vlt cmp type (item_pair x) (item_pair y)", OF this] show ?thesis
    unfolding EntryArray_sort_def m by (simp add: bindR_def)
qed

lemma sub_array_ok:
  assumes "\<forall>e \<in> set es. decodes cd dec e" "first \<le> stop" "stop \<le> length es" "array_ok dec es a"
  shows "\<exists>a'. sub_array cd first stop a = Inr (map (full_item dec) (take (stop - first) (drop first es)), a') \<and> array_ok dec es a'"
proof -
  have la: "length a = length es" using array_length [OF assms(4)] .
  have m: "mapR (\<lambda>x. bindR (item_getKey (k_toObject cd) x) (\<lambda>(_, x1). bindR (item_getValue (v_toObject cd) x1) (\<lambda>(_, x2). Inr x2))) a
      = Inr (map (full_item dec) es)"
    using assms(4,1) unfolding array_ok_def
    by (induction es a rule: list_all2_induct)
      (auto simp: bindR_def item_getKey_def item_getValue_def decodes_def full_item_def good_item_def)
  let ?a' = "take first (map (full_item dec) es)
      @ map (\<lambda>x. x\<lparr>item_key := None, item_value := None\<rparr>) (take (stop - first) (drop first (map (full_item dec) es)))
      @ drop stop (map (full_item dec) es)"
  have "array_ok dec es ?a'"
    unfolding array_ok_def list_all2_conv_all_nth using assms(2,3)
    by (auto simp: nth_append good_item_def full_item_def)
  then show ?thesis using assms(2,3) la m by (simp add: sub_array_def bindR_def take_map drop_map)
qed

section \<open>Anchors\<close>

text \<open>
  The matching entries in order, as they are in the cluster, are \<open>all\<close>. The anchor of a page is the last entry of
  a full page.
\<close>

definition anchor_of :: "('d \<times> 'd \<Rightarrow> 'k option \<times> 'v option) \<Rightarrow> ('d \<times> 'd) list \<Rightarrow> nat \<Rightarrow> nat \<Rightarrow> nat \<times> 'k option \<times> 'v option" where
  "anchor_of dec all ps j = (j, dec (all ! (Suc j * ps - 1)))"

definition anchors_ok :: "('d \<times> 'd \<Rightarrow> 'k option \<times> 'v option) \<Rightarrow> ('d \<times> 'd) list \<Rightarrow> ('k, 'v, 'q, 'cmp) PagingPredicate \<Rightarrow> bool" where
  "anchors_ok dec all p \<longleftrightarrow> length (anchorList p) * pageSize p \<le> length all
     \<and> (\<forall>j < length (anchorList p). anchorList p ! j = anchor_of dec all (pageSize p) j)"

definition paging_sizes_ok :: "('d \<times> 'd) list \<Rightarrow> ('k, 'v, 'q, 'cmp) PagingPredicate \<Rightarrow> bool" where
  "paging_sizes_ok all p \<longleftrightarrow> 0 < pageSize p \<and> page p + 1 < 2 ^ 31 \<and> (page p + 2) * pageSize p < 2 ^ 63 \<and> length all < 2 ^ 63"

text \<open>The number of pages before the one that the nearest anchor ends, which the cluster need not send again.\<close>

definition skipped :: "('k, 'v, 'q, 'cmp) PagingPredicate \<Rightarrow> nat" where
  "skipped p = (case getNearestAnchorEntry p of None \<Rightarrow> 0 | Some e \<Rightarrow> Suc (fst e))"

lemma skipped_eq:
  assumes "anchors_ok dec all p"
  shows "skipped p = min (page p) (length (anchorList p))"
  using assms by (auto simp: skipped_def getNearestAnchorEntry_def Let_def anchors_ok_def anchor_of_def)

lemma pp_setAnchor_ok:
  assumes "anchors_ok dec all p" "n \<le> length (anchorList p)" "Suc n * pageSize p \<le> length all"
  shows "\<exists>p'. pp_setAnchor n (dec (all ! (Suc n * pageSize p - 1))) p = Inr p' \<and> anchors_ok dec all p'
    \<and> length (anchorList p') = max (length (anchorList p)) (Suc n) \<and> page p' = page p \<and> pageSize p' = pageSize p \<and> pp_comparator p' = pp_comparator p"
proof (cases "n < length (anchorList p)")
  case True
  then show ?thesis
    using assms by (auto simp: pp_setAnchor_def anchors_ok_def anchor_of_def nth_list_update)
next
  case False
  then have "n = length (anchorList p)" using assms(2) by simp
  then show ?thesis
    using assms by (auto simp: pp_setAnchor_def Let_def anchors_ok_def anchor_of_def nth_append less_Suc_eq)
qed

lemma nat_mod_u64: "n < 2 ^ 64 \<Longrightarrow> nat (int n mod 2 ^ 64) = n"
  by simp

lemma setAnchor_loop_ok:
  assumes arr: "array_ok dec es a" and dec: "\<forall>e \<in> set es. decodes cd dec e" and anc: "anchors_ok dec all p" and sz: "paging_sizes_ok all p"
    and es: "\<And>i. i < length es \<Longrightarrow> i < (Suc (page p) - m) * pageSize p \<Longrightarrow> m * pageSize p + i < length all \<and> es ! i = all ! (m * pageSize p + i)"
    and m: "m \<le> page p" "m + q - 1 \<le> length (anchorList p)" "0 < q" and len: "length es < 2 ^ 63" and fuel: "length es < fuel + q * pageSize p"
    and q: "m + q \<le> page p + 2"
  shows "\<exists>a' p'. setAnchor_loop (Suc fuel) cd (q * pageSize p) (int (m + q) - 2) a p = Inr (a', p')
    \<and> array_ok dec es a' \<and> anchors_ok dec all p' \<and> page p' = page p \<and> pageSize p' = pageSize p \<and> pp_comparator p' = pp_comparator p"
  using arr anc sz es m(2,3) fuel q
proof (induction fuel arbitrary: a p q)
  case (0 a p q)
  then show ?case using array_length [OF 0(1)] by simp
next
  case (Suc fuel a p q)
  note anc = Suc.prems(2) and s = Suc.prems(3) [unfolded paging_sizes_ok_def]
  have la: "length a = length es" using array_length [OF Suc.prems(1)] .
  have w: "wrap32 (int (page p)) = int (page p)" using s by (intro wrap32_id) auto
  show ?case
  proof (cases "q * pageSize p \<le> length es \<and> m + q < page p + 2")
    case False
    then have "\<not> (q * pageSize p \<le> length a \<and> int (m + q) - 2 < int (page p))" using la by auto
    then show ?thesis using Suc.prems w by auto
  next
    case True
    let ?i = "q * pageSize p - 1" and ?n = "m + q - 1"
    have ps: "0 < pageSize p" "0 < q * pageSize p" using s Suc.prems(6) by simp_all
    have i: "?i < length es" using True ps(2) by linarith
    have mp: "m \<le> Suc (page p)" using True by simp
    have "q \<le> Suc (page p) - m" using True by linarith
    then have "q * pageSize p \<le> (Suc (page p) - m) * pageSize p" by (rule mult_le_mono1)
    then have bound: "?i < (Suc (page p) - m) * pageSize p" using ps(2) by linarith
    have e: "m * pageSize p + ?i < length all" "es ! ?i = all ! (m * pageSize p + ?i)" using Suc.prems(4) [OF i bound] by simp_all
    have idx: "m * pageSize p + ?i = Suc ?n * pageSize p - 1" using ps Suc.prems(6) by (simp add: algebra_simps)
    have sub: "u64_sub (q * pageSize p) 1 = ?i"
      using ps True len by (intro u64_sub_le) (simp_all add: Suc_le_eq)
    have d: "decodes cd dec (es ! ?i)" using dec i by simp
    obtain a1 where a1: "releaseKey (k_toObject cd) ?i a = Inr (fst (dec (es ! ?i)), a1)" "array_ok dec es a1"
      using array_access(3) [OF Suc.prems(1) i d] by blast
    obtain a2 where a2: "releaseValue (v_toObject cd) ?i a1 = Inr (snd (dec (es ! ?i)), a2)" "array_ok dec es a2"
      using array_access(4) [OF a1(2) i d] by blast
    have all: "Suc ?n * pageSize p \<le> length all" using e(1) unfolding idx using ps by (simp add: algebra_simps)
    obtain p1 where p1: "pp_setAnchor ?n (dec (all ! (Suc ?n * pageSize p - 1))) p = Inr p1" "anchors_ok dec all p1"
      "length (anchorList p1) = max (length (anchorList p)) (Suc ?n)" "page p1 = page p" "pageSize p1 = pageSize p" "pp_comparator p1 = pp_comparator p"
      using pp_setAnchor_ok [OF anc Suc.prems(5) all] by blast
    have n: "nat ((int (m + q) - 2 + 1) mod 2 ^ 64) = ?n"
    proof -
      have "int (m + q) - 2 + 1 = int ?n" using Suc.prems(6) by simp
      moreover have "?n \<le> page p" using True by linarith
      then have "?n < 2 ^ 64" using s by simp
      ultimately show ?thesis using nat_mod_u64 by presburger
    qed
    have w1: "wrap32 (int (m + q) - 2 + 1) = int (m + Suc q) - 2" using True s by (subst wrap32_id) auto
    have i1: "u64 (q * pageSize p + pageSize p) = Suc q * pageSize p" using True len s by (simp add: algebra_simps)
    have "\<exists>a' p'. setAnchor_loop (Suc fuel) cd (Suc q * pageSize p1) (int (m + Suc q) - 2) a2 p1 = Inr (a', p')
      \<and> array_ok dec es a' \<and> anchors_ok dec all p' \<and> page p' = page p1 \<and> pageSize p' = pageSize p1 \<and> pp_comparator p' = pp_comparator p1"
    proof (rule Suc.IH [OF a2(2) p1(2)])
      show "paging_sizes_ok all p1" using Suc.prems(3) p1 by (simp add: paging_sizes_ok_def)
      show "i < length es \<Longrightarrow> i < (Suc (page p1) - m) * pageSize p1 \<Longrightarrow> m * pageSize p1 + i < length all \<and> es ! i = all ! (m * pageSize p1 + i)" for i
        using Suc.prems(4) p1 by simp
      show "m + Suc q - 1 \<le> length (anchorList p1)" using p1(3) Suc.prems(6) by simp
      show "length es < fuel + Suc q * pageSize p1" using Suc.prems(7) p1(5) ps by (simp add: algebra_simps)
      show "m + Suc q \<le> page p1 + 2" using True p1(4) by simp
    qed simp
    moreover have "dec (es ! ?i) = (fst (dec (es ! ?i)), snd (dec (es ! ?i)))" by simp
    ultimately show ?thesis
      using True la w a1(1) a2(1) p1 n w1 i1 sub e(2) idx
      by (simp add: bindR_def del: setAnchor_loop.simps) (subst setAnchor_loop.simps, simp add: bindR_def)
  qed
qed

section \<open>Pages are exact\<close>

text \<open>
  What the cluster answers: entries after the nearest anchor, in any order, among them all that the pages up to the
  requested one hold.
\<close>

definition page_answer :: "('d \<times> 'd) list \<Rightarrow> ('k, 'v, 'q, 'cmp) PagingPredicate \<Rightarrow> ('d \<times> 'd) list \<Rightarrow> bool" where
  "page_answer all p xs \<longleftrightarrow> distinct xs \<and> set xs \<subseteq> set (drop (skipped p * pageSize p) all)
     \<and> set (take ((Suc (page p) - skipped p) * pageSize p) (drop (skipped p * pageSize p) all)) \<subseteq> set xs"

lemma filter_answer:
  assumes "distinct all" "set xs \<subseteq> set (drop k all)" "set (take n (drop k all)) \<subseteq> set xs"
  shows "filter (\<lambda>y. y \<in> set xs) all = take n (drop k all) @ filter (\<lambda>y. y \<in> set xs) (drop n (drop k all))"
proof -
  have "set (take k all) \<inter> set (drop k all) = {}" by (rule set_take_disj_set_drop_if_distinct [OF assms(1)]) simp
  then have 1: "filter (\<lambda>y. y \<in> set xs) (take k all) = []" using assms(2) by (auto simp: filter_empty_conv)
  have 2: "filter (\<lambda>y. y \<in> set xs) (take n (drop k all)) = take n (drop k all)" using assms(3) by (auto simp: filter_id_conv)
  have "filter P all = filter P (take k all) @ filter P (take n (drop k all)) @ filter P (drop n (drop k all))" for P
    by (simp only: filter_append [symmetric] append_take_drop_id)
  from this [of "\<lambda>y. y \<in> set xs"] show ?thesis using 1 2 by simp
qed

lemma take_answer:
  assumes "es = take n S @ filter P (drop n S)"
  shows "take n es = take n S" "i < length es \<Longrightarrow> i < n \<Longrightarrow> i < length S \<and> es ! i = S ! i"
proof -
  have short: "length S < n \<Longrightarrow> es = S" using assms by simp
  show "take n es = take n S" using assms by (cases "length S < n") (auto simp: short)
  then show "i < length es \<Longrightarrow> i < n \<Longrightarrow> i < length S \<and> es ! i = S ! i"
    by (metis length_take min_less_iff_conj nth_take)
qed

lemma collect_range_ok:
  assumes "\<And>i a. i < length es \<Longrightarrow> array_ok dec es a \<Longrightarrow> \<exists>a'. f i a = Inr (g (es ! i), a') \<and> array_ok dec es a'"
  shows "array_ok dec es a \<Longrightarrow> \<forall>i \<in> set is. i < length es \<Longrightarrow> collect_range f is a = Inr (map (\<lambda>i. g (es ! i)) is)"
proof (induction "is" arbitrary: a)
  case (Cons i "is")
  obtain a' where "f i a = Inr (g (es ! i), a')" "array_ok dec es a'"
    using assms [of i a] Cons.prems by auto
  then show ?case using Cons by (simp add: bindR_def)
qed simp

lemma nearest_page:
  assumes "anchors_ok dec all p" "paging_sizes_ok all p"
  shows "(case getNearestAnchorEntry p of None \<Rightarrow> -1 | Some e \<Rightarrow> wrap32 (int (fst e))) = int (skipped p) - 1"
proof (cases "getNearestAnchorEntry p")
  case (Some e)
  then have "skipped p = Suc (fst e)" by (simp add: skipped_def)
  moreover have "skipped p \<le> page p" using skipped_eq [OF assms(1)] by simp
  moreover have "page p + 1 < 2 ^ 31" using assms(2) by (simp add: paging_sizes_ok_def)
  ultimately have "wrap32 (int (fst e)) = int (fst e)" "skipped p = Suc (fst e)" by (auto intro: wrap32_id)
  then show ?thesis using Some by simp
qed (simp add: skipped_def)

lemma updateAnchor_ok:
  assumes "array_ok dec es a" "\<forall>e \<in> set es. decodes cd dec e" "anchors_ok dec all p" "paging_sizes_ok all p" "m = skipped p"
    and es: "es = take ((Suc (page p) - m) * pageSize p) (drop (m * pageSize p) all) @ filter P (drop ((Suc (page p) - m) * pageSize p) (drop (m * pageSize p) all))"
  shows "\<exists>b e a' p'. updateAnchor cd a p = Inr ((b, e), a', p') \<and> array_ok dec es a' \<and> anchors_ok dec all p'
    \<and> page p' = page p \<and> pageSize p' = pageSize p \<and> pp_comparator p' = pp_comparator p
    \<and> e \<le> length es \<and> map (\<lambda>i. es ! i) [b ..< e] = take (pageSize p) (drop (page p * pageSize p) all)"
proof -
  let ?ps = "pageSize p" and ?S = "drop (m * pageSize p) all" and ?N = "(Suc (page p) - m) * pageSize p"
  let ?b = "(page p - m) * ?ps"
  note s = assms(4) [unfolded paging_sizes_ok_def]
  have m: "m \<le> page p" "m \<le> length (anchorList p)" using skipped_eq [OF assms(3)] assms(5) by simp_all
  have la: "length a = length es" using array_length [OF assms(1)] .
  have N: "?N = ?b + ?ps" using m(1) by (simp add: Suc_diff_le algebra_simps)
  have bs: "?b + ?ps < 2 ^ 63"
  proof -
    have "?b + ?ps \<le> (page p + 2) * ?ps" by (simp add: algebra_simps diff_mult_distrib)
    then show ?thesis using s by linarith
  qed
  have len: "length es < 2 ^ 63"
  proof -
    have "length es \<le> length ?S" by (subst es) (simp add: le_diff_conv2 del: length_drop drop_drop, use length_filter_le [of P "drop ?N ?S"] in simp)
    also have "\<dots> \<le> length all" by simp
    finally show ?thesis using s by linarith
  qed
  have pg: "take ?ps (drop ?b es) = take ?ps (drop (page p * ?ps) all)"
  proof -
    have "take ?ps (drop ?b es) = drop ?b (take ?N es)" unfolding N by (simp add: take_drop ac_simps)
    also have "\<dots> = drop ?b (take ?N ?S)" using take_answer(1) [OF es] by simp
    also have "\<dots> = take ?ps (drop ?b ?S)" unfolding N by (simp add: take_drop ac_simps)
    also have "drop ?b ?S = drop (page p * ?ps) all" using m(1) by (simp add: diff_mult_distrib)
    finally show ?thesis .
  qed
  have first: "nat ((int ?ps * (int (page p) - (int m - 1) - 1)) mod 2 ^ 64) = ?b"
  proof -
    have "int ?ps * (int (page p) - (int m - 1) - 1) = int ?b" using m(1) by (simp add: of_nat_diff algebra_simps)
    moreover have "?b < 2 ^ 64" using bs by simp
    ultimately show ?thesis using nat_mod_u64 by presburger
  qed
  have stop: "u64 (?b + ?ps) = ?b + ?ps" using bs by (intro u64_small) simp
  have near: "(case getNearestAnchorEntry p of None \<Rightarrow> -1 | Some e \<Rightarrow> wrap32 (int (fst e))) = int m - 1"
    using nearest_page [OF assms(3,4)] assms(5) by simp
  have upd: "updateAnchor cd a p =
    (if length es = 0 then Inr ((0, 0), a, p) else if length es < ?b then Inr ((0, 0), a, p)
     else bindR (setAnchor cd (int m - 1) a p)
       (\<lambda>(entries', predicate'). Inr ((?b, if length es < ?b + ?ps then length es else ?b + ?ps), entries', predicate')))"
    unfolding updateAnchor_def Let_def near first stop la by (rule refl)
  show ?thesis
  proof (cases "length es = 0 \<or> length es < ?b")
    case True
    then have "take ?ps (drop (page p * ?ps) all) = []" using pg by auto
    then show ?thesis
      using True assms(1,3) by (auto simp: upd)
  next
    case False
    have es': "i < length es \<Longrightarrow> i < ?N \<Longrightarrow> m * ?ps + i < length all \<and> es ! i = all ! (m * ?ps + i)" for i
      using take_answer(2) [OF es, of i] by (simp add: add.commute less_diff_conv)
    obtain a' p' where r: "setAnchor_loop (Suc (length es)) cd (1 * ?ps) (int (m + 1) - 2) a p = Inr (a', p')"
      "array_ok dec es a'" "anchors_ok dec all p'" "page p' = page p" "pageSize p' = ?ps" "pp_comparator p' = pp_comparator p"
      using setAnchor_loop_ok [OF assms(1-4) es' m(1) _ _ len, of 1 "length es"] m s by auto
    let ?e = "if length es < ?b + ?ps then length es else ?b + ?ps"
    have "map (\<lambda>i. es ! i) [?b ..< ?e] = take ?ps (drop ?b es)"
      using False by (intro nth_equalityI) (auto simp: nth_append split: if_splits)
    then show ?thesis
      using False r pg la unfolding upd by (auto simp: setAnchor_def bindR_def simp del: setAnchor_loop.simps)
  qed
qed

lemma page_of_ok:
  assumes ord: "sorted_wrt (before (\<lambda>x y. item_less klt vlt (pp_comparator p) type (dec x) (dec y))) all" "distinct all"
    and dec: "\<forall>e \<in> set all. decodes cd dec e" and p: "anchors_ok dec all p" "paging_sizes_ok all p" and ans: "page_answer all p xs"
    and f: "\<And>es i a. set es \<subseteq> set all \<Longrightarrow> i < length es \<Longrightarrow> array_ok dec es a \<Longrightarrow> \<exists>a'. f i a = Inr (g (es ! i), a') \<and> array_ok dec es a'"
  shows "\<exists>p'. page_of klt vlt cd type f xs p = Inr (map g (take (pageSize p) (drop (page p * pageSize p) all)), p')
    \<and> anchors_ok dec all p' \<and> page p' = page p \<and> pageSize p' = pageSize p \<and> pp_comparator p' = pp_comparator p"
proof -
  let ?es = "filter (\<lambda>y. y \<in> set xs) all"
  have xs: "distinct xs" "set xs \<subseteq> set all" using ans set_drop_subset [of "skipped p * pageSize p" all] by (auto simp: page_answer_def)
  have srt: "EntryArray_sort klt vlt cd (pp_comparator p) type (LazyEntryArray xs) = Inr (map (full_item dec) ?es)"
    by (rule EntryArray_sort_ok [OF ord xs]) (use dec xs in auto)
  have sub: "set ?es \<subseteq> set all" by auto
  have d: "\<forall>e \<in> set ?es. decodes cd dec e" using dec by simp
  have eq: "?es = take ((Suc (page p) - skipped p) * pageSize p) (drop (skipped p * pageSize p) all)
      @ filter (\<lambda>y. y \<in> set xs) (drop ((Suc (page p) - skipped p) * pageSize p) (drop (skipped p * pageSize p) all))"
    using ans unfolding page_answer_def by (intro filter_answer [OF ord(2)]) auto
  obtain b e a' p' where u: "updateAnchor cd (map (full_item dec) ?es) p = Inr ((b, e), a', p')" "array_ok dec ?es a'" "anchors_ok dec all p'"
    "page p' = page p" "pageSize p' = pageSize p" "pp_comparator p' = pp_comparator p" "e \<le> length ?es"
    "map (\<lambda>i. ?es ! i) [b ..< e] = take (pageSize p) (drop (page p * pageSize p) all)"
    using updateAnchor_ok [OF full_array_ok d p refl eq] by blast
  have "collect_range f [b ..< e] a' = Inr (map (\<lambda>i. g (?es ! i)) [b ..< e])"
    using f [OF sub] u(2,7) by (intro collect_range_ok [where dec = dec]) auto
  also have "map (\<lambda>i. g (?es ! i)) [b ..< e] = map g (take (pageSize p) (drop (page p * pageSize p) all))"
    unfolding u(8) [symmetric] by simp
  finally show ?thesis using u srt by (simp add: page_of_def bindR_def)
qed

section \<open>Walking over the pages\<close>

text \<open>A client moves its predicate to a page, asks for it, and goes on.\<close>

datatype move = Next | Previous | Page_No nat

fun apply_move :: "move \<Rightarrow> ('k, 'v, 'q, 'cmp) PagingPredicate \<Rightarrow> ('k, 'v, 'q, 'cmp) PagingPredicate" where
  "apply_move Next p = nextPage p"
| "apply_move Previous p = previousPage p"
| "apply_move (Page_No n) p = setPage n p"

fun walk_entries :: "('k \<Rightarrow> 'k \<Rightarrow> bool) \<Rightarrow> ('v \<Rightarrow> 'v \<Rightarrow> bool) \<Rightarrow> ('k, 'v, 'd, 'q, 'e, 'r) map_codec \<Rightarrow>
    (('k, 'v, 'q) paging \<Rightarrow> ('s, ('d \<times> 'd) list) comp) \<Rightarrow> move list \<Rightarrow>
    (('d, 'c, 'mk, 's) map_proxy \<times> ('k, 'v, 'q) paging, ('k \<times> 'v) list list) comp" where
  "walk_entries klt vlt cd fetch [] = retM []"
| "walk_entries klt vlt cd fetch (m # ms) = (\<lambda>(p, predicate).
     bindM (mp_entrySet_paging klt vlt cd fetch) (\<lambda>es. bindM (walk_entries klt vlt cd fetch ms) (\<lambda>ess. retM (es # ess)))
       (p, apply_move m predicate))"

fun page_numbers :: "nat \<Rightarrow> move list \<Rightarrow> nat list" where
  "page_numbers k [] = []"
| "page_numbers k (m # ms) =
     (let j = (case m of Next \<Rightarrow> k + 1 | Previous \<Rightarrow> k - 1 | Page_No n \<Rightarrow> n) in j # page_numbers j ms)"

definition decodes_to :: "('k, 'v, 'd, 'q, 'e, 'r) map_codec \<Rightarrow> ('d \<times> 'd \<Rightarrow> 'k \<times> 'v) \<Rightarrow> 'd \<times> 'd \<Rightarrow> bool" where
  "decodes_to cd g e \<longleftrightarrow> k_toObject cd (fst e) = Inr (Some (fst (g e))) \<and> v_toObject cd (snd e) = Inr (Some (snd (g e)))"

abbreviation ptrs :: "('e \<Rightarrow> 'k \<times> 'v) \<Rightarrow> 'e \<Rightarrow> 'k option \<times> 'v option" where
  "ptrs g \<equiv> (\<lambda>e. (Some (fst (g e)), Some (snd (g e))))"

lemma decodes_to_decodes: "decodes_to cd g e \<Longrightarrow> decodes cd (ptrs g) e"
  by (simp add: decodes_to_def decodes_def)

lemma entry_at_ok:
  assumes "\<forall>e \<in> set es. decodes_to cd g e" "i < length es" "array_ok (ptrs g) es a"
  shows "\<exists>a'. entry_at cd i a = Inr (g (es ! i), a') \<and> array_ok (ptrs g) es a'"
proof -
  have d: "decodes cd (ptrs g) (es ! i)" using assms(1,2) by (intro decodes_to_decodes) simp
  have c: "checkIndex i a = Inr ()" using array_length [OF assms(3)] assms(2) by (auto simp: checkIndex_def)
  from array_access(1) [OF assms(3,2) d] obtain a1
    where a1: "getKey (k_toObject cd) i a = Inr (Some (fst (g (es ! i))), a1)" "array_ok (ptrs g) es a1" by auto
  from array_access(2) [OF a1(2) assms(2) d] obtain a2
    where "getValue_at (v_toObject cd) i a1 = Inr (Some (snd (g (es ! i))), a2)" "array_ok (ptrs g) es a2" by auto
  then show ?thesis using a1 c by (simp add: entry_at_def bindR_def deref_ptr_def)
qed

lemma key_at_ok:
  assumes "\<forall>e \<in> set es. decodes_to cd g e" "i < length es" "array_ok (ptrs g) es a"
  shows "\<exists>a'. key_at cd i a = Inr (fst (g (es ! i)), a') \<and> array_ok (ptrs g) es a'"
  using array_access(1) [OF assms(3,2), of cd] assms(1,2) decodes_to_decodes [of cd g "es ! i"]
  by (force simp: key_at_def bindR_def deref_ptr_def)

lemma value_at_ok:
  assumes "\<forall>e \<in> set es. decodes_to cd g e" "i < length es" "array_ok (ptrs g) es a"
  shows "\<exists>a'. value_at cd i a = Inr (snd (g (es ! i)), a') \<and> array_ok (ptrs g) es a'"
  using array_access(2) [OF assms(3,2), of cd] assms(1,2) decodes_to_decodes [of cd g "es ! i"]
  by (force simp: value_at_def bindR_def deref_ptr_def)

text \<open>The order of a query and what the cluster is taken to answer.\<close>

definition in_order :: "('k \<Rightarrow> 'k \<Rightarrow> bool) \<Rightarrow> ('v \<Rightarrow> 'v \<Rightarrow> bool) \<Rightarrow> ('k, 'v) entry_comparator option \<Rightarrow> IterationType \<Rightarrow>
    ('d \<times> 'd \<Rightarrow> 'k \<times> 'v) \<Rightarrow> ('d \<times> 'd) list \<Rightarrow> bool" where
  "in_order klt vlt cmp type g all \<longleftrightarrow> distinct all
     \<and> sorted_wrt (before (\<lambda>x y. item_less klt vlt cmp type (ptrs g x) (ptrs g y))) all"

definition answers :: "('d \<times> 'd \<Rightarrow> 'k \<times> 'v) \<Rightarrow> ('d \<times> 'd) list \<Rightarrow> (('k, 'v, 'q) paging \<Rightarrow> ('s, ('d \<times> 'd) list) comp) \<Rightarrow> bool" where
  "answers g all fetch \<longleftrightarrow>
     (\<forall>p s. anchors_ok (ptrs g) all p \<longrightarrow> (\<exists>xs s'. fetch p s = (Inr xs, s') \<and> page_answer all p xs))"

lemma entrySet_page_ok:
  assumes "in_order klt vlt (pp_comparator q) ENTRY g all" "\<forall>e \<in> set all. decodes_to cd g e" "answers g all fetch"
    and "anchors_ok (ptrs g) all q" "paging_sizes_ok all q"
  shows "\<exists>p' q'. mp_entrySet_paging klt vlt cd fetch (p, q) =
      (Inr (map g (take (pageSize q) (drop (page q * pageSize q) all))), (p', q'))
    \<and> anchors_ok (ptrs g) all q' \<and> page q' = page q \<and> pageSize q' = pageSize q \<and> pp_comparator q' = pp_comparator q"
proof -
  obtain xs s' where x: "fetch q (pr_server p) = (Inr xs, s')" "page_answer all q xs"
    using assms(3,4) unfolding answers_def by blast
  have "\<exists>q'. page_of klt vlt cd ENTRY (entry_at cd) xs q = Inr (map g (take (pageSize q) (drop (page q * pageSize q) all)), q')
    \<and> anchors_ok (ptrs g) all q' \<and> page q' = page q \<and> pageSize q' = pageSize q \<and> pp_comparator q' = pp_comparator q"
    using assms(1) assms(2) decodes_to_decodes [of cd g]
    by (intro page_of_ok [OF _ _ _ assms(4,5) x(2)] entry_at_ok) (auto simp: in_order_def)
  then show ?thesis using x(1) by (auto simp: mp_entrySet_paging_def paged_def on_server_def)
qed

lemma apply_move_ok:
  assumes "page_numbers (page q) (m # ms) = j # js" "j < 2 ^ 64"
  shows "apply_move m q = q\<lparr>page := j\<rparr>" "js = page_numbers j ms"
  using assms by (cases m; auto simp: nextPage_def previousPage_def setPage_def Let_def)+

lemma walk_entries_ok:
  assumes ord: "in_order klt vlt cmp ENTRY g all" and dec: "\<forall>e \<in> set all. decodes_to cd g e" and ans: "answers g all fetch"
    and sz: "0 < ps" "length all < 2 ^ 63"
  shows "\<lbrakk>anchors_ok (ptrs g) all q; pageSize q = ps; pp_comparator q = cmp;
      \<forall>j \<in> set (page_numbers (page q) moves). j + 1 < 2 ^ 31 \<and> (j + 2) * ps < 2 ^ 63\<rbrakk> \<Longrightarrow>
    \<exists>st. walk_entries klt vlt cd fetch moves (p, q) =
      (Inr (map (\<lambda>j. map g (take ps (drop (j * ps) all))) (page_numbers (page q) moves)), st)"
proof (induction moves arbitrary: p q)
  case (Cons m ms)
  obtain j where j: "page_numbers (page q) (m # ms) = j # page_numbers j ms" by (simp add: Let_def)
  have js: "j + 1 < 2 ^ 31" "(j + 2) * ps < 2 ^ 63" using Cons.prems(4) unfolding j by auto
  have mv: "apply_move m q = q\<lparr>page := j\<rparr>" using apply_move_ok(1) [OF j] js(1) by simp
  let ?q = "q\<lparr>page := j\<rparr>"
  have "anchors_ok (ptrs g) all ?q" "paging_sizes_ok all ?q"
    using Cons.prems sz js by (auto simp: anchors_ok_def paging_sizes_ok_def)
  then obtain p' q' where e: "mp_entrySet_paging klt vlt cd fetch (p, ?q) = (Inr (map g (take ps (drop (j * ps) all))), (p', q'))"
    "anchors_ok (ptrs g) all q'" "page q' = j" "pageSize q' = ps" "pp_comparator q' = cmp"
    using entrySet_page_ok [of klt vlt ?q g all cd fetch p] ord dec ans Cons.prems(2,3) by auto
  then obtain st where "walk_entries klt vlt cd fetch ms (p', q') =
      (Inr (map (\<lambda>j. map g (take ps (drop (j * ps) all))) (page_numbers j ms)), st)"
    using Cons.IH [of q' p'] Cons.prems(4) unfolding j by auto
  then show ?case using e(1) mv unfolding j by (simp add: bindM_def retM_def)
qed (simp add: retM_def)

text \<open>Claim C14: whatever a client does with a fresh paging predicate, going forward, back, or to any page, each entry
  query returns exactly the entries of the page it is on, in order, provided the cluster answers each query with
  entries after the nearest anchor among which are those of the pages up to the one requested. So the anchors that
  \<open>updateAnchor\<close> keeps are always right: no entry is repeated on another page, and none is skipped.
\<close>

theorem paging_walk_exact:
  fixes q :: "'q option" and s :: "('d, 'c, 'mk, 's) map_proxy"
  assumes "in_order klt vlt cmp ENTRY g all" "\<forall>e \<in> set all. decodes_to cd g e" "answers g all fetch"
    and "0 < ps" "length all < 2 ^ 63" "\<forall>j \<in> set (page_numbers 0 moves). j + 1 < 2 ^ 31 \<and> (j + 2) * ps < 2 ^ 63"
  shows "\<exists>st. walk_entries klt vlt cd fetch moves (s, PagingPredicate_new q cmp ps) =
    (Inr (map (\<lambda>j. map g (take ps (drop (j * ps) all))) (page_numbers 0 moves)), st)"
proof -
  have "anchors_ok (ptrs g) all (PagingPredicate_new q cmp ps)" by (simp add: anchors_ok_def PagingPredicate_new_def)
  from walk_entries_ok [OF assms(1-5) this] assms(6) show ?thesis by (simp add: PagingPredicate_new_def)
qed

section \<open>Examples\<close>

text \<open>A cluster whose keys and values are numbers, and that answers in the order that the predicate's iteration type names.\<close>

definition number_codec :: "(int, int, int, unit, unit, unit) map_codec" where
  "number_codec = \<lparr>k_toData = Inr, v_toData = Inr, q_toData = (\<lambda>_. Inr 0), e_toData = (\<lambda>_. Inr 0),
     k_toObject = (\<lambda>d. Inr (Some d)), v_toObject = (\<lambda>d. Inr (Some d)), r_toObject = (\<lambda>_. Inr None)\<rparr>"

definition number_cluster :: "(int \<times> int) list \<Rightarrow> (int, int, unit) paging \<Rightarrow> (unit, (int \<times> int) list) comp" where
  "number_cluster es p s =
     (let key = (\<lambda>e. if iterationType p = VALUE then snd e else fst e);
          later = (case getNearestAnchorEntry p of Some (_, Some k, Some v) \<Rightarrow> filter (\<lambda>e. key (k, v) < key e) es | _ \<Rightarrow> es)
      in (Inr (take ((Suc (page p) - skipped p) * pageSize p) (sort_key key later)), s))"

definition number_proxy :: "(int, int, int, unit) map_proxy" where
  "number_proxy = \<lparr>pr_server = (), pr_nearCache = None, pr_invalidateOnChange = False, pr_listenerId = []\<rparr>"

text \<open>The claim at work: three entries, pages of two, the second page first, back, and forward again past the end.\<close>

lemma cluster_answers: "distinct all \<Longrightarrow> answers g all (\<lambda>p. retM (rev (drop (skipped p * pageSize p) all)))"
  by (auto simp: answers_def retM_def page_answer_def dest: in_set_takeD)

lemma paging_walk_exact_witness:
  "\<exists>st. walk_entries (<) (<) number_codec (\<lambda>p. retM (rev (drop (skipped p * pageSize p) [(1, 30), (2, 20), (3, 10)])))
      [Page_No 1, Previous, Next, Next] (number_proxy, PagingPredicate_new (None :: unit option) None 2) =
    (Inr [[(3, 10)], [(1, 30), (2, 20)], [(3, 10)], []], st)"
proof -
  let ?all = "[(1, 30), (2, 20), (3, 10)] :: (int \<times> int) list"
  have "in_order (<) (<) None ENTRY id ?all" by (simp add: in_order_def before_def item_less_def less_ptr_def)
  moreover have "\<forall>e \<in> set ?all. decodes_to number_codec id e" by (simp add: decodes_to_def number_codec_def)
  moreover have "answers id ?all (\<lambda>p. retM (rev (drop (skipped p * pageSize p) ?all)) :: (unit, _) comp)"
    by (rule cluster_answers) simp
  ultimately show ?thesis
    using paging_walk_exact [of "(<)" "(<)" None id ?all number_codec _ 2 "[Page_No 1, Previous, Next, Next]" number_proxy "None :: unit option"]
    by simp
qed

lemmas paging_eval = mp_values_paging_def mp_entrySet_paging_def paged_def on_server_def number_cluster_def number_proxy_def number_codec_def
  PagingPredicate_new_def page_of_def EntryArray_sort_def LazyEntryArray_def item_getKey_def item_getValue_def item_less_def less_ptr_def
  item_pair_def updateAnchor_def setAnchor_def getNearestAnchorEntry_def skipped_def pp_setAnchor_def releaseKey_def releaseValue_def
  at_item_def checkIndex_def item_releaseKey_def item_releaseValue_def value_at_def entry_at_def getKey_def getValue_at_def deref_ptr_def
  getAnchor_def nextPage_def setIterationType_def bindR_def bindM_def retM_def u64_sub_def u64_def wrap32_def Let_def upt_rec

text \<open>In the example of the class comment, pages of two over the numbers from 0, after the second page
  \<open>getAnchor\<close> is the last entry of that page and not, as the comment says, of the page before it; and once the
  predicate has moved on to a page not yet fetched, it reads past the end of the list of anchors.
\<close>

theorem getAnchor_is_of_current_page:
  "\<exists>p1 p2 q1 q2.
     mp_values_paging (<) (<) number_codec (number_cluster [(0, 0), (1, 1), (2, 2), (3, 3), (4, 4)])
       (number_proxy, PagingPredicate_new None None 2) = (Inr [0, 1], (p1, q1))
   \<and> getAnchor q1 = Inr (Some (Some 1, Some 1)) \<and> getAnchor (nextPage q1) = Inl OutOfBounds
   \<and> mp_values_paging (<) (<) number_codec (number_cluster [(0, 0), (1, 1), (2, 2), (3, 3), (4, 4)]) (p1, nextPage q1) = (Inr [2, 3], (p2, q2))
   \<and> getAnchor q2 = Inr (Some (Some 3, Some 3))"
  by (simp add: paging_eval)

text \<open>\<open>entrySet\<close> sorts the answer by key but, unlike \<open>keySet\<close> and \<open>values\<close>, does not set the iteration type it
  sends: a cluster that pages in the order of the iteration type it is sent pages by value, and an entry is returned
  on two pages.
\<close>

theorem entrySet_pages_overlap:
  "\<exists>p1 p2 q1 q2.
     mp_entrySet_paging (<) (<) number_codec (number_cluster [(1, 30), (2, 20), (3, 10)])
       (number_proxy, PagingPredicate_new None None 2) = (Inr [(2, 20), (3, 10)], (p1, q1))
   \<and> mp_entrySet_paging (<) (<) number_codec (number_cluster [(1, 30), (2, 20), (3, 10)]) (p1, nextPage q1) = (Inr [(1, 30), (2, 20)], (p2, q2))"
  by (simp add: paging_eval)

text \<open>
  A page size of zero, which the constructors are documented to refuse, makes the query fail as soon as the cluster
  has an entry.
\<close>

lemma zero_page_size_fails:
  assumes "pageSize p = 0" "a \<noteq> []" "length a < 2 ^ 63" "anchorList p = []" "page p < 2 ^ 31"
  shows "updateAnchor cd a p = Inl IllegalArgumentException"
proof -
  have "wrap32 (int (page p)) = int (page p)" using assms(5) by (intro wrap32_id) auto
  moreover have "checkIndex (u64_sub 0 1) a = Inl IllegalArgumentException"
    using assms(2,3) by (simp add: checkIndex_def u64_sub_def u64_def)
  ultimately show ?thesis
    using assms(1,2,4) by (simp add: updateAnchor_def setAnchor_def getNearestAnchorEntry_def releaseKey_def at_item_def bindR_def)
qed

end
