(* ===== verification/Listener_Events.thy ===== *)
theory Listener_Events
  imports Map_Proxy
begin

text \<open>
  What a listener is told: the handlers of \<open>client/impl/EntryEventHandler.h\<close> and \<open>client/impl/ItemEventHandler.h\<close>, typed and mixed, with the
  events of \<open>client/EntryEvent.h\<close>, \<open>client/MapEvent.h\<close> and \<open>client/ItemEvent.h\<close>. A listener is user code that a handler calls last: a handler
  gives the calls it makes. The members of the cluster and the conversions have no body in the sources and are arguments.
\<close>

section \<open>Events\<close>

datatype EntryEventType = ET_UNDEFINED | ET_ADDED | ET_REMOVED | ET_UPDATED | ET_EVICTED | ET_EVICT_ALL | ET_CLEAR_ALL | ET_MERGED
  | ET_EXPIRED | ET_INVALIDATION

fun type_value :: "EntryEventType \<Rightarrow> int" where
  "type_value ET_UNDEFINED = 0"
| "type_value ET_ADDED = 1"
| "type_value ET_REMOVED = 2"
| "type_value ET_UPDATED = 4"
| "type_value ET_EVICTED = 8"
| "type_value ET_EVICT_ALL = 16"
| "type_value ET_CLEAR_ALL = 32"
| "type_value ET_MERGED = 64"
| "type_value ET_EXPIRED = 128"
| "type_value ET_INVALIDATION = 256"

record ('k, 'v, 'm) EntryEvent =
  ev_name :: string
  ev_member :: 'm
  ev_type :: int
  ev_key :: "'k option"
  ev_value :: "'v option"
  ev_oldValue :: "'v option"
  ev_mergingValue :: "'v option"

record 'm MapEvent =
  me_member :: 'm
  me_type :: int
  me_name :: string
  me_numberOfEntriesAffected :: int

datatype ('e, 'm) entry_call = entryAdded 'e | entryRemoved 'e | entryUpdated 'e | entryEvicted 'e | entryExpired 'e | entryMerged 'e
  | mapCleared "'m MapEvent" | mapEvicted "'m MapEvent"

text \<open>An event as it comes from the cluster.\<close>

record 'd raw_event =
  re_key :: "'d option"
  re_value :: "'d option"
  re_oldValue :: "'d option"
  re_mergingValue :: "'d option"
  re_type :: int
  re_uuid :: string
  re_numberOfAffectedEntries :: int

text \<open>Members are found by their id; a member can also be made from an id alone.\<close>

record 'm cluster_view =
  getMember :: "string \<Rightarrow> 'm option"
  Member_of :: "string \<Rightarrow> 'm"

section \<open>Entry listeners\<close>

definition fireMapWideEvent :: "'m cluster_view \<Rightarrow> string \<Rightarrow> 'd raw_event \<Rightarrow> ('e, 'm) entry_call list res" where
  "fireMapWideEvent cv instanceName re =
     bindR (deref_ptr (getMember cv (re_uuid re))) (\<lambda>m.
       let mapEvent = \<lparr>me_member = m, me_type = re_type re, me_name = instanceName, me_numberOfEntriesAffected = re_numberOfAffectedEntries re\<rparr>
       in if re_type re = type_value ET_CLEAR_ALL then Inr [mapCleared mapEvent]
          else if re_type re = type_value ET_EVICT_ALL then Inr [mapEvicted mapEvent]
          else Inr [])"

definition dispatchEntry :: "int \<Rightarrow> 'e \<Rightarrow> ('e, 'm) entry_call list" where
  "dispatchEntry ty ev =
     (if ty = type_value ET_ADDED then [entryAdded ev]
      else if ty = type_value ET_REMOVED then [entryRemoved ev]
      else if ty = type_value ET_UPDATED then [entryUpdated ev]
      else if ty = type_value ET_EVICTED then [entryEvicted ev]
      else if ty = type_value ET_EXPIRED then [entryExpired ev]
      else if ty = type_value ET_MERGED then [entryMerged ev]
      else [])"

definition member_or_new :: "'m cluster_view \<Rightarrow> string \<Rightarrow> 'm" where
  "member_or_new cv uuid = (case getMember cv uuid of Some m \<Rightarrow> m | None \<Rightarrow> Member_of cv uuid)"

definition fireEntryEvent :: "('k, 'v, 'd, 'q, 'x, 'r) map_codec \<Rightarrow> 'm cluster_view \<Rightarrow> string \<Rightarrow> bool \<Rightarrow> 'd raw_event \<Rightarrow>
    (('k, 'v, 'm) EntryEvent, 'm) entry_call list res" where
  "fireEntryEvent cd cv instanceName includeValue re =
     (let val = (\<lambda>d. if includeValue then toObject_auto (v_toObject cd) d else Inr None) in
      bindR (val (re_value re)) (\<lambda>v.
      bindR (val (re_oldValue re)) (\<lambda>old.
      bindR (val (re_mergingValue re)) (\<lambda>merging.
      bindR (toObject_auto (k_toObject cd) (re_key re)) (\<lambda>k.
      Inr (dispatchEntry (re_type re)
        \<lparr>ev_name = instanceName, ev_member = member_or_new cv (re_uuid re), ev_type = re_type re, ev_key = k, ev_value = v,
         ev_oldValue = old, ev_mergingValue = merging\<rparr>))))))"

definition handleEntryEvent :: "('k, 'v, 'd, 'q, 'x, 'r) map_codec \<Rightarrow> 'm cluster_view \<Rightarrow> string \<Rightarrow> bool \<Rightarrow> 'd raw_event \<Rightarrow>
    (('k, 'v, 'm) EntryEvent, 'm) entry_call list res" where
  "handleEntryEvent cd cv instanceName includeValue re =
     (if re_type re = type_value ET_EVICT_ALL \<or> re_type re = type_value ET_CLEAR_ALL
      then fireMapWideEvent cv instanceName re
      else fireEntryEvent cd cv instanceName includeValue re)"

text \<open>The mixed handler hands the data on as it is and dereferences the member of every event.\<close>

definition mixed_fireEntryEvent :: "'m cluster_view \<Rightarrow> string \<Rightarrow> 'd raw_event \<Rightarrow> (('d, 'd, 'm) EntryEvent, 'm) entry_call list res" where
  "mixed_fireEntryEvent cv instanceName re =
     bindR (deref_ptr (getMember cv (re_uuid re))) (\<lambda>m.
     Inr (dispatchEntry (re_type re)
       \<lparr>ev_name = instanceName, ev_member = m, ev_type = re_type re, ev_key = re_key re, ev_value = re_value re,
        ev_oldValue = re_oldValue re, ev_mergingValue = re_mergingValue re\<rparr>))"

definition mixed_fireMapWideEvent :: "'m cluster_view \<Rightarrow> string \<Rightarrow> 'd raw_event \<Rightarrow> (('d, 'd, 'm) EntryEvent, 'm) entry_call list res" where
  "mixed_fireMapWideEvent cv instanceName re =
     bindR (deref_ptr (getMember cv (re_uuid re))) (\<lambda>m.
       let mapEvent = \<lparr>me_member = m, me_type = re_type re, me_name = instanceName, me_numberOfEntriesAffected = re_numberOfAffectedEntries re\<rparr>
       in if re_type re = type_value ET_CLEAR_ALL then Inr [mapCleared mapEvent]
          else if re_type re = type_value ET_EVICT_ALL then Inr [mapEvicted mapEvent]
          else Inr [])"

definition mixed_handleEntryEvent :: "'m cluster_view \<Rightarrow> string \<Rightarrow> 'd raw_event \<Rightarrow> (('d, 'd, 'm) EntryEvent, 'm) entry_call list res" where
  "mixed_handleEntryEvent cv instanceName re =
     (if re_type re = type_value ET_EVICT_ALL \<or> re_type re = type_value ET_CLEAR_ALL
      then mixed_fireMapWideEvent cv instanceName re
      else mixed_fireEntryEvent cv instanceName re)"

section \<open>Item listeners\<close>

datatype ItemEventType = IT_ADDED | IT_REMOVED

fun item_type_value :: "ItemEventType \<Rightarrow> int" where
  "item_type_value IT_ADDED = 1"
| "item_type_value IT_REMOVED = 2"

record ('e, 'm) ItemEvent =
  ie_name :: string
  ie_type :: int
  ie_item :: 'e
  ie_member :: 'm

datatype 'i item_call = itemAdded 'i | itemRemoved 'i

definition dispatchItem :: "int \<Rightarrow> 'i \<Rightarrow> 'i item_call list" where
  "dispatchItem ty ev =
     (if ty = item_type_value IT_ADDED then [itemAdded ev] else if ty = item_type_value IT_REMOVED then [itemRemoved ev] else [])"

text \<open>The item is dereferenced whether or not it was read, and so is the member.\<close>

definition handleItemEvent :: "('d \<Rightarrow> 'e option res) \<Rightarrow> 'm cluster_view \<Rightarrow> string \<Rightarrow> bool \<Rightarrow> 'd option \<Rightarrow> string \<Rightarrow> int \<Rightarrow>
    ('e, 'm) ItemEvent item_call list res" where
  "handleItemEvent toObj cv instanceName includeValue item uuid eventType =
     bindR (if includeValue then bindR (deref_ptr item) toObj else Inr None) (\<lambda>obj.
     bindR (deref_ptr obj) (\<lambda>x.
     bindR (deref_ptr (getMember cv uuid)) (\<lambda>m.
     Inr (dispatchItem eventType \<lparr>ie_name = instanceName, ie_type = eventType, ie_item = x, ie_member = m\<rparr>))))"

definition mixed_handleItemEvent :: "'m cluster_view \<Rightarrow> string \<Rightarrow> 'd option \<Rightarrow> string \<Rightarrow> int \<Rightarrow>
    ('d option, 'm) ItemEvent item_call list res" where
  "mixed_handleItemEvent cv instanceName item uuid eventType =
     bindR (deref_ptr (getMember cv uuid)) (\<lambda>m.
     Inr (dispatchItem eventType \<lparr>ie_name = instanceName, ie_type = eventType, ie_item = item, ie_member = m\<rparr>))"

section \<open>Properties\<close>

fun call_type :: "(('k, 'v, 'm) EntryEvent, 'm) entry_call \<Rightarrow> EntryEventType" where
  "call_type (entryAdded _) = ET_ADDED"
| "call_type (entryRemoved _) = ET_REMOVED"
| "call_type (entryUpdated _) = ET_UPDATED"
| "call_type (entryEvicted _) = ET_EVICTED"
| "call_type (entryExpired _) = ET_EXPIRED"
| "call_type (entryMerged _) = ET_MERGED"
| "call_type (mapCleared _) = ET_CLEAR_ALL"
| "call_type (mapEvicted _) = ET_EVICT_ALL"

fun call_event :: "(('k, 'v, 'm) EntryEvent, 'm) entry_call \<Rightarrow> ('k, 'v, 'm) EntryEvent + 'm MapEvent" where
  "call_event (entryAdded e) = Inl e"
| "call_event (entryRemoved e) = Inl e"
| "call_event (entryUpdated e) = Inl e"
| "call_event (entryEvicted e) = Inl e"
| "call_event (entryExpired e) = Inl e"
| "call_event (entryMerged e) = Inl e"
| "call_event (mapCleared e) = Inr e"
| "call_event (mapEvicted e) = Inr e"

definition told :: "EntryEventType set" where
  "told = {ET_ADDED, ET_REMOVED, ET_UPDATED, ET_EVICTED, ET_EXPIRED, ET_MERGED, ET_CLEAR_ALL, ET_EVICT_ALL}"

lemma type_value_eq [simp]: "type_value a = type_value b \<longleftrightarrow> a = b"
  by (cases a; cases b) simp_all

lemma dispatchEntry_known: "t \<in> told - {ET_CLEAR_ALL, ET_EVICT_ALL} \<Longrightarrow> \<exists>c. dispatchEntry (type_value t) ev = [c] \<and> call_type c = t \<and> call_event c = Inl ev"
  by (cases t) (simp_all add: told_def dispatchEntry_def)

lemma dispatchEntry_unknown: "i \<notin> type_value ` told \<Longrightarrow> dispatchEntry i ev = []"
  by (auto simp: told_def dispatchEntry_def)

lemmas event_defs = handleEntryEvent_def fireEntryEvent_def fireMapWideEvent_def deref_ptr_def bindR_def

text \<open>What the event of an entry must decode to.\<close>

definition decodes_to :: "('k, 'v, 'd, 'q, 'x, 'r) map_codec \<Rightarrow> bool \<Rightarrow> 'd raw_event \<Rightarrow> ('k, 'v, 'm) EntryEvent \<Rightarrow> bool" where
  "decodes_to cd includeValue re ev \<longleftrightarrow> toObject_auto (k_toObject cd) (re_key re) = Inr (ev_key ev) \<and>
     (if includeValue then toObject_auto (v_toObject cd) (re_value re) = Inr (ev_value ev) \<and> toObject_auto (v_toObject cd) (re_oldValue re) = Inr (ev_oldValue ev)
        \<and> toObject_auto (v_toObject cd) (re_mergingValue re) = Inr (ev_mergingValue ev)
      else ev_value ev = None \<and> ev_oldValue ev = None \<and> ev_mergingValue ev = None)"

lemma fireEntryEvent_dispatch:
  assumes "decodes_to cd includeValue re ev" "ev_name ev = instanceName" "ev_type ev = re_type re" "ev_member ev = member_or_new cv (re_uuid re)"
  shows "fireEntryEvent cd cv instanceName includeValue re = Inr (dispatchEntry (re_type re) ev)"
  using assms by (cases ev) (auto simp: fireEntryEvent_def decodes_to_def bindR_def split: if_splits)

text \<open>An event of an entry whose contents can be read is told to the listener by exactly one call, of the method of its type
  and with what was read, also when the member it comes from is not known any more; an event of a type that is not known to the handler is told by none.
\<close>

theorem entry_event_told_once:
  assumes "decodes_to cd includeValue re ev" "ev_name ev = instanceName" "ev_type ev = re_type re" "ev_member ev = member_or_new cv (re_uuid re)"
    and "re_type re \<noteq> type_value ET_CLEAR_ALL" "re_type re \<noteq> type_value ET_EVICT_ALL"
  shows "\<exists>calls. handleEntryEvent cd cv instanceName includeValue re = Inr calls
    \<and> (\<forall>t \<in> told. re_type re = type_value t \<longrightarrow> (\<exists>c. calls = [c] \<and> call_type c = t \<and> call_event c = Inl ev))
    \<and> (re_type re \<notin> type_value ` told \<longrightarrow> calls = [])"
proof (rule exI [of _ "dispatchEntry (re_type re) ev"], intro conjI ballI impI)
  show "handleEntryEvent cd cv instanceName includeValue re = Inr (dispatchEntry (re_type re) ev)"
    using fireEntryEvent_dispatch [OF assms(1-4)] assms(5,6) by (simp add: handleEntryEvent_def)
  show "\<exists>c. dispatchEntry (re_type re) ev = [c] \<and> call_type c = t \<and> call_event c = Inl ev" if "t \<in> told" "re_type re = type_value t" for t
    using dispatchEntry_known [of t ev] that assms(5,6) by (metis Diff_iff empty_iff insert_iff)
qed (rule dispatchEntry_unknown)

text \<open>An event of the whole map is told by one call of the method of its type, but only when the member it comes from is
  still known: otherwise the handler dereferences a null pointer, where an event of an entry makes a member of its own.
\<close>

theorem map_wide_event_needs_member:
  assumes "re_type re = type_value t" "t = ET_CLEAR_ALL \<or> t = ET_EVICT_ALL"
  shows "handleEntryEvent cd cv instanceName includeValue re =
    (case getMember cv (re_uuid re) of
       None \<Rightarrow> Inl NullDereference
     | Some m \<Rightarrow>
         let me = \<lparr>me_member = m, me_type = type_value t, me_name = instanceName, me_numberOfEntriesAffected = re_numberOfAffectedEntries re\<rparr>
         in Inr [if t = ET_CLEAR_ALL then mapCleared me else mapEvicted me])"
  using assms by (auto simp: event_defs Let_def split: option.splits)

text \<open>An event of an item is told by one call of the method of its type, with the item that was read, exactly when the listener
  was registered with values, the item can be read and the member is known: for a listener without values every event is a crash.
\<close>

theorem item_event_told:
  "handleItemEvent toObj cv instanceName includeValue item uuid (item_type_value t) = Inr calls \<longleftrightarrow>
     includeValue \<and> (\<exists>d x m. item = Some d \<and> toObj d = Inr (Some x) \<and> getMember cv uuid = Some m
       \<and> (let ev = \<lparr>ie_name = instanceName, ie_type = item_type_value t, ie_item = x, ie_member = m\<rparr>
          in calls = [case t of IT_ADDED \<Rightarrow> itemAdded ev | IT_REMOVED \<Rightarrow> itemRemoved ev]))"
  by (cases t) (auto simp: handleItemEvent_def deref_ptr_def bindR_def dispatchItem_def split: option.splits sum.splits)

section \<open>Examples\<close>

definition no_members :: "string cluster_view" where
  "no_members = \<lparr>getMember = (\<lambda>_. None), Member_of = (\<lambda>u. u)\<rparr>"

definition raw_of :: "int \<Rightarrow> nat raw_event" where
  "raw_of t = \<lparr>re_key = Some 1, re_value = Some 2, re_oldValue = None, re_mergingValue = None, re_type = t, re_uuid = ''m'', re_numberOfAffectedEntries = 1\<rparr>"

definition nat_events :: "(nat, nat, nat, unit, unit, unit) map_codec" where
  "nat_events = \<lparr>k_toData = Inr, v_toData = Inr, q_toData = (\<lambda>_. Inr 0), e_toData = (\<lambda>_. Inr 0), k_toObject = (\<lambda>d. Inr (Some d)),
     v_toObject = (\<lambda>d. Inr (Some d)), r_toObject = (\<lambda>_. Inr None)\<rparr>"

lemma entry_event_told_once_witness:
  "\<exists>ev. handleEntryEvent nat_events no_members ''map'' True (raw_of 4) = Inr [entryUpdated ev] \<and> ev_value ev = Some 2 \<and> ev_member ev = ''m''"
proof -
  let ?ev = "\<lparr>ev_name = ''map'', ev_member = ''m'', ev_type = 4, ev_key = Some 1, ev_value = Some 2, ev_oldValue = None, ev_mergingValue = None\<rparr>"
  have "\<exists>calls. handleEntryEvent nat_events no_members ''map'' True (raw_of 4) = Inr calls
    \<and> (\<forall>t \<in> told. re_type (raw_of 4) = type_value t \<longrightarrow> (\<exists>c. calls = [c] \<and> call_type c = t \<and> call_event c = Inl ?ev))
    \<and> (re_type (raw_of 4) \<notin> type_value ` told \<longrightarrow> calls = [])"
    by (rule entry_event_told_once)
      (simp_all add: decodes_to_def nat_events_def raw_of_def toObject_auto_def member_or_new_def no_members_def)
  then obtain calls where c: "handleEntryEvent nat_events no_members ''map'' True (raw_of 4) = Inr calls"
    "\<forall>t \<in> told. re_type (raw_of 4) = type_value t \<longrightarrow> (\<exists>c. calls = [c] \<and> call_type c = t \<and> call_event c = Inl ?ev)"
    by (elim exE conjE) (rule that)
  obtain x where x: "calls = [x]" "call_type x = ET_UPDATED" "call_event x = Inl ?ev"
    using bspec [OF c(2), of ET_UPDATED] by (auto simp: told_def raw_of_def)
  then have "x = entryUpdated ?ev" by (cases x) simp_all
  with x(1) c(1) show ?thesis by auto
qed

lemma map_wide_event_needs_member_witness:
  "handleEntryEvent nat_events no_members ''map'' True (raw_of 32) = Inl NullDereference"
  using map_wide_event_needs_member [of "raw_of 32" ET_CLEAR_ALL nat_events no_members "''map''" True] by (simp add: raw_of_def no_members_def)

end
