(* ===== verification/Mixed_Map.thy ===== *)
theory Mixed_Map
  imports Map_Laws Paging Listener_Events
begin

text \<open>
  The map of mixed types, \<open>mixedtype/ClientMapProxy.h\<close> with its factory \<open>map/impl/MapMixedTypeProxyFactory.h\<close>
  and \<open>TypedData.h\<close>: every call names its own types, and answers are handed out serialized, to be read as
  whatever type the caller asks for. The virtual methods of the class have no body in the sources; they are
  the fields of \<open>mixed_vt\<close>, over the messages of \<open>IMapImpl\<close>. Also here are the methods of the typed
  \<open>map/ClientMapProxy.h\<close> that both classes share besides the entries: entry views, interceptors,
  listeners and the submission of entry processors.
\<close>

section \<open>Serialized answers\<close>

text \<open>A \<open>TypedData\<close> holds the data, or null, and deserializes when asked.\<close>

datatype 'd TypedData = TypedData (td_data: "'d option")

definition td_get :: "('d \<Rightarrow> 'a option res) \<Rightarrow> 'd TypedData \<Rightarrow> 'a option res" where
  "td_get toObj td = toObject_auto toObj (td_data td)"

record ('d, 'p) mixed_vt =
  mv_containsKeyInternal :: "'d \<Rightarrow> ('p, bool) comp"
  mv_getInternal :: "'d \<Rightarrow> ('p, 'd TypedData option) comp"
  mv_removeInternal :: "'d \<Rightarrow> ('p, 'd option) comp"
  mv_removeInternal_value :: "'d \<Rightarrow> 'd \<Rightarrow> ('p, bool) comp"
  mv_deleteInternal :: "'d \<Rightarrow> ('p, unit) comp"
  mv_tryRemoveInternal :: "'d \<Rightarrow> int \<Rightarrow> ('p, bool) comp"
  mv_tryPutInternal :: "'d \<Rightarrow> 'd \<Rightarrow> int \<Rightarrow> ('p, bool) comp"
  mv_putInternal :: "'d \<Rightarrow> 'd \<Rightarrow> int \<Rightarrow> ('p, 'd option) comp"
  mv_tryPutTransientInternal :: "'d \<Rightarrow> 'd \<Rightarrow> int \<Rightarrow> ('p, unit) comp"
  mv_putIfAbsentInternal :: "'d \<Rightarrow> 'd \<Rightarrow> int \<Rightarrow> ('p, 'd option) comp"
  mv_replaceIfSameInternal :: "'d \<Rightarrow> 'd \<Rightarrow> 'd \<Rightarrow> ('p, bool) comp"
  mv_replaceInternal :: "'d \<Rightarrow> 'd \<Rightarrow> ('p, 'd option) comp"
  mv_setInternal :: "'d \<Rightarrow> 'd \<Rightarrow> int \<Rightarrow> ('p, unit) comp"
  mv_evictInternal :: "'d \<Rightarrow> ('p, bool) comp"
  mv_getAllInternal :: "(int \<times> 'd list) list \<Rightarrow> ('p, ('d \<times> 'd) list) comp"
  mv_executeOnKeyInternal :: "'d \<Rightarrow> 'd \<Rightarrow> ('p, 'd option) comp"
  mv_putAllInternal :: "(int \<times> ('d \<times> 'd) list) list \<Rightarrow> ('p, unit) comp"

text \<open>\<open>MapMixedTypeProxyFactory::create\<close> decides the class by the configuration of the name.\<close>

definition MapMixedTypeProxyFactory_create :: "(string \<Rightarrow> 'cfg option) \<Rightarrow> (string \<Rightarrow> 'cfg \<Rightarrow> 'proxy) \<Rightarrow> (string \<Rightarrow> 'proxy) \<Rightarrow>
    string \<Rightarrow> 'proxy" where
  "MapMixedTypeProxyFactory_create getMixedNearCacheConfig newNearCached newPlain name =
     (case getMixedNearCacheConfig name of Some cfg \<Rightarrow> newNearCached name cfg | None \<Rightarrow> newPlain name)"

section \<open>mixedtype::ClientMapProxy\<close>

text \<open>\<open>kd\<close> and \<open>vd\<close> are the serialization of the types of the call.\<close>

definition mx_containsKey :: "('d, 's) mixed_vt \<Rightarrow> ('k \<Rightarrow> 'd res) \<Rightarrow> 'k \<Rightarrow> ('s, bool) comp" where
  "mx_containsKey mv kd key =
     bindM (liftR (kd key)) (\<lambda>keyData. mv_containsKeyInternal mv keyData)"

definition mx_containsValue :: "('s, 'd, 'q, 'f) IMapImpl \<Rightarrow> ('v \<Rightarrow> 'd res) \<Rightarrow> 'v \<Rightarrow> ('s, bool) comp" where
  "mx_containsValue impl vd v =
     bindM (liftR (vd v)) (\<lambda>valueData. im_containsValue impl valueData)"

text \<open>The pointer that \<open>getInternal\<close> gives is dereferenced.\<close>

definition mx_get :: "('d, 's) mixed_vt \<Rightarrow> ('k \<Rightarrow> 'd res) \<Rightarrow> 'k \<Rightarrow> ('s, 'd TypedData) comp" where
  "mx_get mv kd key =
     bindM (liftR (kd key)) (\<lambda>keyData. bindM (mv_getInternal mv keyData) (\<lambda>v. liftR (deref_ptr v)))"

definition mx_put_ttl :: "('d, 's) mixed_vt \<Rightarrow> ('k \<Rightarrow> 'd res) \<Rightarrow> ('v \<Rightarrow> 'd res) \<Rightarrow> 'k \<Rightarrow> 'v \<Rightarrow> int \<Rightarrow> ('s, 'd TypedData) comp" where
  "mx_put_ttl mv kd vd key v ttlInMillis =
     bindM (liftR (kd key)) (\<lambda>keyData. bindM (liftR (vd v)) (\<lambda>valueData.
       bindM (mv_putInternal mv keyData valueData ttlInMillis) (\<lambda>r. retM (TypedData r))))"

definition mx_put :: "('d, 's) mixed_vt \<Rightarrow> ('k \<Rightarrow> 'd res) \<Rightarrow> ('v \<Rightarrow> 'd res) \<Rightarrow> 'k \<Rightarrow> 'v \<Rightarrow> ('s, 'd TypedData) comp" where
  "mx_put mv kd vd key v =
     mx_put_ttl mv kd vd key v (- 1)"

definition mx_remove :: "('d, 's) mixed_vt \<Rightarrow> ('k \<Rightarrow> 'd res) \<Rightarrow> 'k \<Rightarrow> ('s, 'd TypedData) comp" where
  "mx_remove mv kd key =
     bindM (liftR (kd key)) (\<lambda>keyData. bindM (mv_removeInternal mv keyData) (\<lambda>r. retM (TypedData r)))"

definition mx_remove_value :: "('d, 's) mixed_vt \<Rightarrow> ('k \<Rightarrow> 'd res) \<Rightarrow> ('v \<Rightarrow> 'd res) \<Rightarrow> 'k \<Rightarrow> 'v \<Rightarrow> ('s, bool) comp" where
  "mx_remove_value mv kd vd key v =
     bindM (liftR (kd key)) (\<lambda>keyData. bindM (liftR (vd v)) (\<lambda>valueData.
       mv_removeInternal_value mv keyData valueData))"

definition mx_deleteEntry :: "('d, 's) mixed_vt \<Rightarrow> ('k \<Rightarrow> 'd res) \<Rightarrow> 'k \<Rightarrow> ('s, unit) comp" where
  "mx_deleteEntry mv kd key =
     bindM (liftR (kd key)) (\<lambda>keyData. mv_deleteInternal mv keyData)"

definition mx_tryRemove :: "('d, 's) mixed_vt \<Rightarrow> ('k \<Rightarrow> 'd res) \<Rightarrow> 'k \<Rightarrow> int \<Rightarrow> ('s, bool) comp" where
  "mx_tryRemove mv kd key timeoutInMillis =
     bindM (liftR (kd key)) (\<lambda>keyData. mv_tryRemoveInternal mv keyData timeoutInMillis)"

definition mx_tryPut :: "('d, 's) mixed_vt \<Rightarrow> ('k \<Rightarrow> 'd res) \<Rightarrow> ('v \<Rightarrow> 'd res) \<Rightarrow> 'k \<Rightarrow> 'v \<Rightarrow> int \<Rightarrow> ('s, bool) comp" where
  "mx_tryPut mv kd vd key v timeoutInMillis =
     bindM (liftR (kd key)) (\<lambda>keyData. bindM (liftR (vd v)) (\<lambda>valueData.
       mv_tryPutInternal mv keyData valueData timeoutInMillis))"

definition mx_putTransient :: "('d, 's) mixed_vt \<Rightarrow> ('k \<Rightarrow> 'd res) \<Rightarrow> ('v \<Rightarrow> 'd res) \<Rightarrow> 'k \<Rightarrow> 'v \<Rightarrow> int \<Rightarrow> ('s, unit) comp" where
  "mx_putTransient mv kd vd key v ttlInMillis =
     bindM (liftR (kd key)) (\<lambda>keyData. bindM (liftR (vd v)) (\<lambda>valueData.
       mv_tryPutTransientInternal mv keyData valueData ttlInMillis))"

definition mx_putIfAbsent_ttl :: "('d, 's) mixed_vt \<Rightarrow> ('k \<Rightarrow> 'd res) \<Rightarrow> ('v \<Rightarrow> 'd res) \<Rightarrow> 'k \<Rightarrow> 'v \<Rightarrow> int \<Rightarrow> ('s, 'd TypedData) comp" where
  "mx_putIfAbsent_ttl mv kd vd key v ttlInMillis =
     bindM (liftR (kd key)) (\<lambda>keyData. bindM (liftR (vd v)) (\<lambda>valueData.
       bindM (mv_putIfAbsentInternal mv keyData valueData ttlInMillis) (\<lambda>r. retM (TypedData r))))"

definition mx_putIfAbsent :: "('d, 's) mixed_vt \<Rightarrow> ('k \<Rightarrow> 'd res) \<Rightarrow> ('v \<Rightarrow> 'd res) \<Rightarrow> 'k \<Rightarrow> 'v \<Rightarrow> ('s, 'd TypedData) comp" where
  "mx_putIfAbsent mv kd vd key v =
     mx_putIfAbsent_ttl mv kd vd key v (- 1)"

definition mx_replace_same :: "('d, 's) mixed_vt \<Rightarrow> ('k \<Rightarrow> 'd res) \<Rightarrow> ('v \<Rightarrow> 'd res) \<Rightarrow> ('n \<Rightarrow> 'd res) \<Rightarrow> 'k \<Rightarrow> 'v \<Rightarrow> 'n \<Rightarrow> ('s, bool) comp" where
  "mx_replace_same mv kd vd nd key v newValue =
     bindM (liftR (kd key)) (\<lambda>keyData. bindM (liftR (vd v)) (\<lambda>valueData.
       bindM (liftR (nd newValue)) (\<lambda>newValueData. mv_replaceIfSameInternal mv keyData valueData newValueData)))"

definition mx_replace :: "('d, 's) mixed_vt \<Rightarrow> ('k \<Rightarrow> 'd res) \<Rightarrow> ('v \<Rightarrow> 'd res) \<Rightarrow> 'k \<Rightarrow> 'v \<Rightarrow> ('s, 'd TypedData) comp" where
  "mx_replace mv kd vd key v =
     bindM (liftR (kd key)) (\<lambda>keyData. bindM (liftR (vd v)) (\<lambda>valueData.
       bindM (mv_replaceInternal mv keyData valueData) (\<lambda>r. retM (TypedData r))))"

definition mx_set_ttl :: "('d, 's) mixed_vt \<Rightarrow> ('k \<Rightarrow> 'd res) \<Rightarrow> ('v \<Rightarrow> 'd res) \<Rightarrow> 'k \<Rightarrow> 'v \<Rightarrow> int \<Rightarrow> ('s, unit) comp" where
  "mx_set_ttl mv kd vd key v ttl =
     bindM (liftR (kd key)) (\<lambda>keyData. bindM (liftR (vd v)) (\<lambda>valueData.
       mv_setInternal mv keyData valueData ttl))"

definition mx_set :: "('d, 's) mixed_vt \<Rightarrow> ('k \<Rightarrow> 'd res) \<Rightarrow> ('v \<Rightarrow> 'd res) \<Rightarrow> 'k \<Rightarrow> 'v \<Rightarrow> ('s, unit) comp" where
  "mx_set mv kd vd key v =
     mx_set_ttl mv kd vd key v (- 1)"

definition mx_lock_lease :: "('s, 'd, 'q, 'f) IMapImpl \<Rightarrow> ('k \<Rightarrow> 'd res) \<Rightarrow> 'k \<Rightarrow> int \<Rightarrow> ('s, unit) comp" where
  "mx_lock_lease impl kd key leaseTime =
     bindM (liftR (kd key)) (\<lambda>keyData. im_lock impl keyData leaseTime)"

definition mx_lock :: "('s, 'd, 'q, 'f) IMapImpl \<Rightarrow> ('k \<Rightarrow> 'd res) \<Rightarrow> 'k \<Rightarrow> ('s, unit) comp" where
  "mx_lock impl kd key =
     mx_lock_lease impl kd key (- 1)"

definition mx_isLocked :: "('s, 'd, 'q, 'f) IMapImpl \<Rightarrow> ('k \<Rightarrow> 'd res) \<Rightarrow> 'k \<Rightarrow> ('s, bool) comp" where
  "mx_isLocked impl kd key =
     bindM (liftR (kd key)) (\<lambda>keyData. im_isLocked impl keyData)"

definition mx_tryLock_time :: "('s, 'd, 'q, 'f) IMapImpl \<Rightarrow> ('k \<Rightarrow> 'd res) \<Rightarrow> 'k \<Rightarrow> int \<Rightarrow> ('s, bool) comp" where
  "mx_tryLock_time impl kd key timeInMillis =
     bindM (liftR (kd key)) (\<lambda>keyData. im_tryLock impl keyData timeInMillis)"

definition mx_tryLock :: "('s, 'd, 'q, 'f) IMapImpl \<Rightarrow> ('k \<Rightarrow> 'd res) \<Rightarrow> 'k \<Rightarrow> ('s, bool) comp" where
  "mx_tryLock impl kd key =
     mx_tryLock_time impl kd key 0"

definition mx_unlock :: "('s, 'd, 'q, 'f) IMapImpl \<Rightarrow> ('k \<Rightarrow> 'd res) \<Rightarrow> 'k \<Rightarrow> ('s, unit) comp" where
  "mx_unlock impl kd key =
     bindM (liftR (kd key)) (\<lambda>keyData. im_unlock impl keyData)"

definition mx_forceUnlock :: "('s, 'd, 'q, 'f) IMapImpl \<Rightarrow> ('k \<Rightarrow> 'd res) \<Rightarrow> 'k \<Rightarrow> ('s, unit) comp" where
  "mx_forceUnlock impl kd key =
     bindM (liftR (kd key)) (\<lambda>keyData. im_forceUnlock impl keyData)"

definition mx_evict :: "('d, 's) mixed_vt \<Rightarrow> ('k \<Rightarrow> 'd res) \<Rightarrow> 'k \<Rightarrow> ('s, bool) comp" where
  "mx_evict mv kd key =
     bindM (liftR (kd key)) (\<lambda>keyData. mv_evictInternal mv keyData)"

fun mx_group_keys :: "('s, 'd, 'q, 'f) IMapImpl \<Rightarrow> ('k \<Rightarrow> 'd res) \<Rightarrow> 'k list \<Rightarrow> (int \<times> 'd list) list \<Rightarrow> (int \<times> 'd list) list res" where
  "mx_group_keys impl kd [] g = Inr g"
| "mx_group_keys impl kd (k # ks) g = bindR (kd k) (\<lambda>d. mx_group_keys impl kd ks (group_push (im_getPartitionId impl d) d g))"

text \<open>\<open>toTypedDataEntrySet\<close> of \<open>ProxyImpl\<close> has no body in the sources.\<close>

definition mx_getAll :: "('s, 'd, 'q, 'f) IMapImpl \<Rightarrow> ('d, 's) mixed_vt \<Rightarrow> (('d \<times> 'd) list \<Rightarrow> ('d TypedData \<times> 'd TypedData) list) \<Rightarrow>
    ('k \<Rightarrow> 'd res) \<Rightarrow> 'k list \<Rightarrow> ('s, ('d TypedData \<times> 'd TypedData) list) comp" where
  "mx_getAll impl mv toTypedDataEntrySet kd keys =
     (if keys = [] then retM []
      else bindM (liftR (mx_group_keys impl kd keys [])) (\<lambda>partitionToKeyData.
           bindM (mv_getAllInternal mv partitionToKeyData) (\<lambda>es. retM (toTypedDataEntrySet es))))"

fun mx_group_entries :: "('s, 'd, 'q, 'f) IMapImpl \<Rightarrow> ('k \<Rightarrow> 'd res) \<Rightarrow> ('v \<Rightarrow> 'd res) \<Rightarrow> ('k \<times> 'v) list \<Rightarrow>
    (int \<times> ('d \<times> 'd) list) list \<Rightarrow> (int \<times> ('d \<times> 'd) list) list res" where
  "mx_group_entries impl kd vd [] g = Inr g"
| "mx_group_entries impl kd vd ((k, v) # es) g =
     bindR (kd k) (\<lambda>x. bindR (vd v) (\<lambda>y. mx_group_entries impl kd vd es (group_push (im_getPartitionId impl x) (x, y) g)))"

definition mx_putAll :: "('s, 'd, 'q, 'f) IMapImpl \<Rightarrow> ('d, 's) mixed_vt \<Rightarrow> ('k \<Rightarrow> 'd res) \<Rightarrow> ('v \<Rightarrow> 'd res) \<Rightarrow> ('k \<times> 'v) list \<Rightarrow>
    ('s, unit) comp" where
  "mx_putAll impl mv kd vd entries =
     bindM (liftR (mx_group_entries impl kd vd entries [])) (\<lambda>entryMap. mv_putAllInternal mv entryMap)"

definition mx_executeOnKey :: "('d, 's) mixed_vt \<Rightarrow> ('k \<Rightarrow> 'd res) \<Rightarrow> ('e \<Rightarrow> 'd res) \<Rightarrow> 'k \<Rightarrow> 'e \<Rightarrow> ('s, 'd TypedData) comp" where
  "mx_executeOnKey mv kd ed key entryProcessor =
     bindM (liftR (kd key)) (\<lambda>keyData. bindM (liftR (ed entryProcessor)) (\<lambda>processorData.
       bindM (mv_executeOnKeyInternal mv keyData processorData) (\<lambda>r. retM (TypedData r))))"

definition mx_executeOnKeysInternal :: "('s, 'd, 'q, 'f) IMapImpl \<Rightarrow> ('k \<Rightarrow> 'd res) \<Rightarrow> ('e \<Rightarrow> 'd res) \<Rightarrow> 'k list \<Rightarrow> 'e \<Rightarrow>
    ('s, ('d \<times> 'd) list) comp" where
  "mx_executeOnKeysInternal impl kd ed keys entryProcessor =
     (if keys = [] then retM []
      else bindM (liftR (mapR kd keys)) (\<lambda>keysData.
           bindM (liftR (ed entryProcessor)) (\<lambda>processorData. im_executeOnKeysData impl keysData processorData)))"

fun mx_results :: "('d \<Rightarrow> 'k option res) \<Rightarrow> ('d \<times> 'd) list \<Rightarrow> ('k \<rightharpoonup> 'd TypedData) \<Rightarrow> ('k \<rightharpoonup> 'd TypedData) res" where
  "mx_results toKey [] result = Inr result"
| "mx_results toKey ((kd, vd) # es) result =
     bindR (toKey kd) (\<lambda>k. bindR (deref_ptr k) (\<lambda>key. mx_results toKey es (result(key \<mapsto> TypedData (Some vd)))))"

definition mx_executeOnKeys :: "('s, 'd, 'q, 'f) IMapImpl \<Rightarrow> ('k \<Rightarrow> 'd res) \<Rightarrow> ('d \<Rightarrow> 'k option res) \<Rightarrow> ('e \<Rightarrow> 'd res) \<Rightarrow> 'k list \<Rightarrow> 'e \<Rightarrow>
    ('s, 'k \<rightharpoonup> 'd TypedData) comp" where
  "mx_executeOnKeys impl kd toKey ed keys entryProcessor =
     bindM (mx_executeOnKeysInternal impl kd ed keys entryProcessor) (\<lambda>es. liftR (mx_results toKey es Map.empty))"

text \<open>
  \<open>result[key] = value\<close> on a \<open>std::map\<close> of serialized keys: \<open>same\<close> says when \<open>operator<\<close> takes two keys
  for the same, in which case the first key stays.
\<close>

definition typed_entries :: "('d \<times> 'd) list \<Rightarrow> ('d TypedData \<times> 'd TypedData) list" where
  "typed_entries es = map (\<lambda>(kd, vd). (TypedData (Some kd), TypedData (Some vd))) es"

fun td_assign :: "('d TypedData \<Rightarrow> 'd TypedData \<Rightarrow> bool) \<Rightarrow> 'd TypedData \<Rightarrow> 'd TypedData \<Rightarrow> ('d TypedData \<times> 'd TypedData) list \<Rightarrow>
    ('d TypedData \<times> 'd TypedData) list" where
  "td_assign same k v [] = [(k, v)]"
| "td_assign same k v ((k', v') # m) = (if same k k' then (k', v) # m else (k', v') # td_assign same k v m)"

definition mx_executeOnEntries :: "('s, 'd, 'q, 'f) IMapImpl \<Rightarrow> ('d TypedData \<Rightarrow> 'd TypedData \<Rightarrow> bool) \<Rightarrow> ('e \<Rightarrow> 'd res) \<Rightarrow> 'e \<Rightarrow> 'q option \<Rightarrow>
    ('s, ('d TypedData \<times> 'd TypedData) list) comp" where
  "mx_executeOnEntries impl same ed entryProcessor predicate =
     bindM (liftR (ed entryProcessor)) (\<lambda>processorData.
     bindM (im_executeOnEntriesData impl processorData predicate) (\<lambda>es.
       retM (foldl (\<lambda>m (k, v). td_assign same k v m) [] (typed_entries es))))"

text \<open>The paging queries, whose page and anchors are those of the typed map (\<open>page_of\<close>).\<close>

definition mx_paged :: "('k, 'v, 'q) paging \<Rightarrow> (('k, 'v, 'q) paging \<Rightarrow> ('s, ('d \<times> 'd) list) comp) \<Rightarrow>
    (('d \<times> 'd) list \<Rightarrow> ('k, 'v, 'q) paging \<Rightarrow> ('b list \<times> ('k, 'v, 'q) paging) res) \<Rightarrow> ('s \<times> ('k, 'v, 'q) paging, 'b list) comp" where
  "mx_paged predicate fetch pageOf = (\<lambda>(s, _).
     case fetch predicate s of
       (Inl e, s') \<Rightarrow> (Inl e, (s', predicate))
     | (Inr dataResult, s') \<Rightarrow>
         (case pageOf dataResult predicate of Inl e \<Rightarrow> (Inl e, (s', predicate)) | Inr (result, predicate') \<Rightarrow> (Inr result, (s', predicate'))))"

definition mx_keySet_paging :: "('k \<Rightarrow> 'k \<Rightarrow> bool) \<Rightarrow> ('v \<Rightarrow> 'v \<Rightarrow> bool) \<Rightarrow> ('k, 'v, 'd, 'q, 'e, 'r) map_codec \<Rightarrow> 'd \<Rightarrow>
    (('k, 'v, 'q) paging \<Rightarrow> ('s, 'd list) comp) \<Rightarrow> ('s \<times> ('k, 'v, 'q) paging, 'k list) comp" where
  "mx_keySet_paging klt vlt cd emptyData fetch = (\<lambda>(s, predicate).
     mx_paged (setIterationType KEY predicate) (\<lambda>q. bindM (fetch q) (\<lambda>ks. retM (map (\<lambda>k. (k, emptyData)) ks)))
       (page_of klt vlt cd KEY (key_at cd)) (s, predicate))"

definition mx_values_paging :: "('k \<Rightarrow> 'k \<Rightarrow> bool) \<Rightarrow> ('v \<Rightarrow> 'v \<Rightarrow> bool) \<Rightarrow> ('k, 'v, 'd, 'q, 'e, 'r) map_codec \<Rightarrow>
    (('k, 'v, 'q) paging \<Rightarrow> ('s, ('d \<times> 'd) list) comp) \<Rightarrow> ('s \<times> ('k, 'v, 'q) paging, 'v list) comp" where
  "mx_values_paging klt vlt cd fetch = (\<lambda>(s, predicate).
     mx_paged (setIterationType VALUE predicate) fetch (page_of klt vlt cd VALUE (value_at cd)) (s, predicate))"

definition mx_entrySet_paging :: "('k \<Rightarrow> 'k \<Rightarrow> bool) \<Rightarrow> ('v \<Rightarrow> 'v \<Rightarrow> bool) \<Rightarrow> ('k, 'v, 'd, 'q, 'e, 'r) map_codec \<Rightarrow>
    (('k, 'v, 'q) paging \<Rightarrow> ('s, ('d \<times> 'd) list) comp) \<Rightarrow> ('s \<times> ('k, 'v, 'q) paging, ('k \<times> 'v) list) comp" where
  "mx_entrySet_paging klt vlt cd fetch = (\<lambda>(s, predicate).
     mx_paged predicate fetch (page_of klt vlt cd ENTRY (entry_at cd)) (s, predicate))"

section \<open>Views, interceptors, listeners and submissions\<close>

record 'd DataEntryView =
  dv_key :: 'd
  dv_value :: 'd
  dv_cost :: int
  dv_creationTime :: int
  dv_expirationTime :: int
  dv_hits :: int
  dv_lastAccessTime :: int
  dv_lastStoredTime :: int
  dv_lastUpdateTime :: int
  dv_version :: int

record ('k, 'v) EntryView =
  vw_key :: 'k
  vw_value :: 'v
  vw_cost :: int
  vw_creationTime :: int
  vw_expirationTime :: int
  vw_hits :: int
  vw_lastAccessTime :: int
  vw_lastStoredTime :: int
  vw_lastUpdateTime :: int
  vw_version :: int

definition EntryView_new :: "'k \<Rightarrow> 'v \<Rightarrow> 'd DataEntryView \<Rightarrow> ('k, 'v) EntryView" where
  "EntryView_new k v rhs =
     \<lparr>vw_key = k, vw_value = v, vw_cost = dv_cost rhs, vw_creationTime = dv_creationTime rhs, vw_expirationTime = dv_expirationTime rhs,
      vw_hits = dv_hits rhs, vw_lastAccessTime = dv_lastAccessTime rhs, vw_lastStoredTime = dv_lastStoredTime rhs,
      vw_lastUpdateTime = dv_lastUpdateTime rhs, vw_version = dv_version rhs\<rparr>"

text \<open>The handler that a registration makes for a listener.\<close>

record 'l entry_handler =
  eh_instanceName :: string
  eh_listener :: 'l
  eh_includeValue :: bool

text \<open>\<open>submitToKey\<close> sends the processor and the key to the partition of the key; its future decodes the answer of \<open>executeOnKey\<close>.\<close>

record ('s, 'd, 'q, 'i, 'l, 'f) imap_services =
  ia_addInterceptor :: "'i \<Rightarrow> ('s, string) comp"
  ia_removeInterceptor :: "string \<Rightarrow> ('s, unit) comp"
  ia_addEntryListener :: "'l entry_handler \<Rightarrow> bool \<Rightarrow> ('s, string) comp"
  ia_addEntryListener_predicate :: "'l entry_handler \<Rightarrow> 'q \<Rightarrow> bool \<Rightarrow> ('s, string) comp"
  ia_addEntryListener_key :: "'l entry_handler \<Rightarrow> 'd \<Rightarrow> bool \<Rightarrow> ('s, string) comp"
  ia_removeEntryListener :: "string \<Rightarrow> ('s, bool) comp"
  ia_getEntryViewData :: "'d \<Rightarrow> ('s, 'd DataEntryView option) comp"
  ia_invokeSubmitToKey :: "string \<Rightarrow> 'd \<Rightarrow> 'd \<Rightarrow> int \<Rightarrow> ('s, 'f) comp"

definition mp_addInterceptor :: "('s, 'd, 'q, 'i, 'l, 'f) imap_services \<Rightarrow> 'i \<Rightarrow> ('s, string) comp" where
  "mp_addInterceptor ia interceptor = ia_addInterceptor ia interceptor"

definition mp_removeInterceptor :: "('s, 'd, 'q, 'i, 'l, 'f) imap_services \<Rightarrow> string \<Rightarrow> ('s, unit) comp" where
  "mp_removeInterceptor ia interceptorId = ia_removeInterceptor ia interceptorId"

definition mp_addEntryListener :: "('s, 'd, 'q, 'i, 'l, 'f) imap_services \<Rightarrow> string \<Rightarrow> 'l \<Rightarrow> bool \<Rightarrow> ('s, string) comp" where
  "mp_addEntryListener ia name listener includeValue =
     ia_addEntryListener ia \<lparr>eh_instanceName = name, eh_listener = listener, eh_includeValue = includeValue\<rparr> includeValue"

definition mp_addEntryListener_predicate :: "('s, 'd, 'q, 'i, 'l, 'f) imap_services \<Rightarrow> string \<Rightarrow> 'l \<Rightarrow> 'q \<Rightarrow> bool \<Rightarrow> ('s, string) comp" where
  "mp_addEntryListener_predicate ia name listener predicate includeValue =
     ia_addEntryListener_predicate ia \<lparr>eh_instanceName = name, eh_listener = listener, eh_includeValue = includeValue\<rparr> predicate includeValue"

definition mp_removeEntryListener :: "('s, 'd, 'q, 'i, 'l, 'f) imap_services \<Rightarrow> string \<Rightarrow> ('s, bool) comp" where
  "mp_removeEntryListener ia registrationId = ia_removeEntryListener ia registrationId"

definition mp_addEntryListener_key :: "('s, 'd, 'q, 'i, 'l, 'f) imap_services \<Rightarrow> ('k \<Rightarrow> 'd res) \<Rightarrow> string \<Rightarrow> 'l \<Rightarrow> 'k \<Rightarrow> bool \<Rightarrow>
    ('s, string) comp" where
  "mp_addEntryListener_key ia kd name listener key includeValue =
     bindM (liftR (kd key)) (\<lambda>keyData.
       ia_addEntryListener_key ia \<lparr>eh_instanceName = name, eh_listener = listener, eh_includeValue = includeValue\<rparr> keyData includeValue)"

text \<open>The typed map dereferences the view, also when the cluster has no entry; the mixed one tests it.\<close>

definition mp_getEntryView :: "('s, 'd, 'q, 'i, 'l, 'f) imap_services \<Rightarrow> ('k \<Rightarrow> 'd res) \<Rightarrow> ('d \<Rightarrow> 'v option res) \<Rightarrow> 'k \<Rightarrow>
    ('s, ('k, 'v) EntryView) comp" where
  "mp_getEntryView ia kd toObj key =
     bindM (liftR (kd key)) (\<lambda>keyData.
     bindM (ia_getEntryViewData ia keyData) (\<lambda>dataEntryView.
     bindM (liftR (deref_ptr dataEntryView)) (\<lambda>view.
     bindM (liftR (toObj (dv_value view))) (\<lambda>v.
     bindM (liftR (deref_ptr v)) (\<lambda>x. retM (EntryView_new key x view))))))"

definition mx_addInterceptor :: "('s, 'd, 'q, 'i, 'l, 'f) imap_services \<Rightarrow> 'i \<Rightarrow> ('s, string) comp" where
  "mx_addInterceptor ia interceptor = ia_addInterceptor ia interceptor"

definition mx_addEntryListener_key :: "('s, 'd, 'q, 'i, 'l, 'f) imap_services \<Rightarrow> ('k \<Rightarrow> 'd res) \<Rightarrow> string \<Rightarrow> 'k \<Rightarrow> 'l \<Rightarrow> bool \<Rightarrow>
    ('s, string) comp" where
  "mx_addEntryListener_key ia kd name key listener includeValue =
     bindM (liftR (kd key)) (\<lambda>keyData.
       ia_addEntryListener_key ia \<lparr>eh_instanceName = name, eh_listener = listener, eh_includeValue = includeValue\<rparr> keyData includeValue)"

definition mx_getEntryView :: "('s, 'd, 'q, 'i, 'l, 'f) imap_services \<Rightarrow> ('k \<Rightarrow> 'd res) \<Rightarrow> 'k \<Rightarrow>
    ('s, ('d TypedData, 'd TypedData) EntryView option) comp" where
  "mx_getEntryView ia kd key =
     bindM (liftR (kd key)) (\<lambda>keyData.
     bindM (ia_getEntryViewData ia keyData) (\<lambda>dataEntryView.
       case dataEntryView of
         None \<Rightarrow> retM None
       | Some view \<Rightarrow> retM (Some (EntryView_new (TypedData (Some keyData)) (TypedData (Some (dv_value view))) view))))"

text \<open>The adaptor's view of \<open>adaptor/MapEntryView.h\<close> reads the serialized view on demand.\<close>

definition MapEntryView_getKey :: "('d \<Rightarrow> 'k option res) \<Rightarrow> 'd DataEntryView \<Rightarrow> 'k option res" where
  "MapEntryView_getKey toKey view = toKey (dv_key view)"

definition MapEntryView_getValue :: "('d \<Rightarrow> 'v option res) \<Rightarrow> 'd DataEntryView \<Rightarrow> 'v option res" where
  "MapEntryView_getValue toObj view = toObj (dv_value view)"

definition MapEntryView_getLastAccessTime :: "'d DataEntryView \<Rightarrow> int" where
  "MapEntryView_getLastAccessTime view = dv_lastAccessTime view"

definition MapEntryView_getLastUpdateTime :: "'d DataEntryView \<Rightarrow> int" where
  "MapEntryView_getLastUpdateTime view = dv_lastAccessTime view"

definition submitToKeyInternal :: "('s, 'd, 'q, 'i, 'l, 'f) imap_services \<Rightarrow> ('d \<Rightarrow> int) \<Rightarrow> string \<Rightarrow> 'd \<Rightarrow> 'd \<Rightarrow> ('s, 'f) comp" where
  "submitToKeyInternal ia getPartitionId name keyData processor =
     (let partitionId = getPartitionId keyData in ia_invokeSubmitToKey ia name processor keyData partitionId)"

definition mp_submitToKey :: "('s, 'd, 'q, 'i, 'l, 'f) imap_services \<Rightarrow> ('d \<Rightarrow> int) \<Rightarrow> ('k \<Rightarrow> 'd res) \<Rightarrow> ('e \<Rightarrow> 'd res) \<Rightarrow> string \<Rightarrow>
    'k \<Rightarrow> 'e \<Rightarrow> ('s, 'f) comp" where
  "mp_submitToKey ia getPartitionId kd ed name key entryProcessor =
     bindM (liftR (kd key)) (\<lambda>keyData. bindM (liftR (ed entryProcessor)) (\<lambda>processorData.
       submitToKeyInternal ia getPartitionId name keyData processorData))"

definition mx_submitToKeyInternal :: "('s, 'd, 'q, 'i, 'l, 'f) imap_services \<Rightarrow> ('d \<Rightarrow> int) \<Rightarrow> string \<Rightarrow> 'd \<Rightarrow> 'd \<Rightarrow> ('s, 'f) comp" where
  "mx_submitToKeyInternal ia getPartitionId name keyData processor =
     (let partitionId = getPartitionId keyData in ia_invokeSubmitToKey ia name processor keyData partitionId)"

definition mx_submitToKey :: "('s, 'd, 'q, 'i, 'l, 'f) imap_services \<Rightarrow> ('d \<Rightarrow> int) \<Rightarrow> ('k \<Rightarrow> 'd res) \<Rightarrow> ('e \<Rightarrow> 'd res) \<Rightarrow> string \<Rightarrow>
    'k \<Rightarrow> 'e \<Rightarrow> ('s, 'f) comp" where
  "mx_submitToKey ia getPartitionId kd ed name key entryProcessor =
     bindM (liftR (kd key)) (\<lambda>keyData. bindM (liftR (ed entryProcessor)) (\<lambda>processorData.
       mx_submitToKeyInternal ia getPartitionId name keyData processorData))"

section \<open>What the virtual methods promise\<close>

text \<open>The plain class sends the message of each method.\<close>

locale mixed_messages =
  fixes impl :: "('s, 'd, 'q, 'f) IMapImpl" and mv :: "('d, 's) mixed_vt"
  assumes containsKey_law: "mv_containsKeyInternal mv key = im_containsKey impl key"
    and get_law: "mv_getInternal mv key = bindM (im_getData impl key) (\<lambda>d. retM (Some (TypedData d)))"
    and remove_law: "mv_removeInternal mv key = im_removeData impl key"
    and remove_value_law: "mv_removeInternal_value mv key v = im_remove impl key v"
    and delete_law: "mv_deleteInternal mv key = im_deleteEntry impl key"
    and tryRemove_law: "mv_tryRemoveInternal mv key t = im_tryRemove impl key t"
    and tryPut_law: "mv_tryPutInternal mv key v t = im_tryPut impl key v t"
    and put_law: "mv_putInternal mv key v t = im_putData impl key v t"
    and putTransient_law: "mv_tryPutTransientInternal mv key v t = im_putTransient impl key v t"
    and putIfAbsent_law: "mv_putIfAbsentInternal mv key v t = im_putIfAbsentData impl key v t"
    and replace_same_law: "mv_replaceIfSameInternal mv key v w = im_replace impl key v w"
    and replace_law: "mv_replaceInternal mv key v = im_replaceData impl key v"
    and set_law: "mv_setInternal mv key v t = im_set impl key v t"
    and evict_law: "mv_evictInternal mv key = im_evict impl key"
    and executeOnKey_law: "mv_executeOnKeyInternal mv key p = im_executeOnKeyData impl key p"
    and getAll_law: "mv_getAllInternal mv parts = im_getAllData impl parts"
    and putAll_law: "mv_putAllInternal mv entries = im_putAllData impl entries"
begin

lemmas message_laws = containsKey_law get_law remove_law remove_value_law delete_law tryRemove_law tryPut_law put_law putTransient_law
  putIfAbsent_law replace_same_law replace_law set_law evict_law executeOnKey_law getAll_law putAll_law

end

definition plain_mixed :: "('s, 'd, 'q, 'f) IMapImpl \<Rightarrow> ('d, 's) mixed_vt" where
  "plain_mixed impl =
     \<lparr>mv_containsKeyInternal = im_containsKey impl, mv_getInternal = (\<lambda>key. bindM (im_getData impl key) (\<lambda>d. retM (Some (TypedData d)))),
      mv_removeInternal = im_removeData impl, mv_removeInternal_value = im_remove impl, mv_deleteInternal = im_deleteEntry impl,
      mv_tryRemoveInternal = im_tryRemove impl, mv_tryPutInternal = im_tryPut impl, mv_putInternal = im_putData impl,
      mv_tryPutTransientInternal = im_putTransient impl, mv_putIfAbsentInternal = im_putIfAbsentData impl,
      mv_replaceIfSameInternal = im_replace impl, mv_replaceInternal = im_replaceData impl, mv_setInternal = im_set impl,
      mv_evictInternal = im_evict impl, mv_getAllInternal = im_getAllData impl, mv_executeOnKeyInternal = im_executeOnKeyData impl,
      mv_putAllInternal = im_putAllData impl\<rparr>"

interpretation plain_mixed: mixed_messages impl "plain_mixed impl" for impl
  by unfold_locales (simp_all add: plain_mixed_def)

section \<open>The mixed map and the typed map\<close>

datatype ('k, 'v) mixed_op =
    X_get 'k | X_containsKey 'k | X_containsValue 'v | X_put 'k 'v | X_put_ttl 'k 'v int | X_remove 'k | X_remove_value 'k 'v | X_delete 'k
  | X_tryRemove 'k int | X_tryPut 'k 'v int | X_putTransient 'k 'v int | X_putIfAbsent 'k 'v | X_putIfAbsent_ttl 'k 'v int
  | X_replace_same 'k 'v 'v | X_replace 'k 'v | X_set 'k 'v | X_set_ttl 'k 'v int | X_lock 'k | X_lock_lease 'k int | X_isLocked 'k
  | X_tryLock 'k | X_tryLock_time 'k int | X_unlock 'k | X_forceUnlock 'k | X_evict 'k | X_putAll "('k \<times> 'v) list"

definition ans :: "('a \<Rightarrow> 'v map_answer) \<Rightarrow> ('s, 'a) comp \<Rightarrow> ('s, 'v map_answer) comp" where
  "ans f c = bindM c (\<lambda>a. retM (f a))"

fun typed_call :: "('s, 'd, 'q, 'f) IMapImpl \<Rightarrow> ('d, 'k, 'v, 'f, ('d, 'c, 'mk, 's) map_proxy) map_vt \<Rightarrow> ('k, 'v, 'd, 'q, 'e, 'r) map_codec \<Rightarrow>
    near_env \<Rightarrow> ('k, 'v) mixed_op \<Rightarrow> ('d, 'c, 'mk, 's, 'v map_answer) pcomp" where
  "typed_call impl vt cd env (X_get k) = ans MValue (mp_get vt cd env k)"
| "typed_call impl vt cd env (X_containsKey k) = ans MBool (mp_containsKey vt cd env k)"
| "typed_call impl vt cd env (X_containsValue v) = ans MBool (mp_containsValue impl cd v)"
| "typed_call impl vt cd env (X_put k v) = ans MValue (mp_put vt cd k v)"
| "typed_call impl vt cd env (X_put_ttl k v t) = ans MValue (mp_put_ttl vt cd k v t)"
| "typed_call impl vt cd env (X_remove k) = ans MValue (mp_remove vt cd k)"
| "typed_call impl vt cd env (X_remove_value k v) = ans MBool (mp_remove_value vt cd k v)"
| "typed_call impl vt cd env (X_delete k) = ans (\<lambda>_. MUnit) (mp_deleteEntry vt cd k)"
| "typed_call impl vt cd env (X_tryRemove k t) = ans MBool (mp_tryRemove vt cd k t)"
| "typed_call impl vt cd env (X_tryPut k v t) = ans MBool (mp_tryPut vt cd k v t)"
| "typed_call impl vt cd env (X_putTransient k v t) = ans (\<lambda>_. MUnit) (mp_putTransient vt cd k v t)"
| "typed_call impl vt cd env (X_putIfAbsent k v) = ans MValue (mp_putIfAbsent vt cd k v)"
| "typed_call impl vt cd env (X_putIfAbsent_ttl k v t) = ans MValue (mp_putIfAbsent_ttl vt cd k v t)"
| "typed_call impl vt cd env (X_replace_same k v w) = ans MBool (mp_replace_same vt cd k v w)"
| "typed_call impl vt cd env (X_replace k v) = ans MValue (mp_replace vt cd k v)"
| "typed_call impl vt cd env (X_set k v) = ans (\<lambda>_. MUnit) (mp_set vt cd k v)"
| "typed_call impl vt cd env (X_set_ttl k v t) = ans (\<lambda>_. MUnit) (mp_set_ttl vt cd k v t)"
| "typed_call impl vt cd env (X_lock k) = ans (\<lambda>_. MUnit) (mp_lock impl cd k)"
| "typed_call impl vt cd env (X_lock_lease k t) = ans (\<lambda>_. MUnit) (mp_lock_lease impl cd k t)"
| "typed_call impl vt cd env (X_isLocked k) = ans MBool (mp_isLocked impl cd k)"
| "typed_call impl vt cd env (X_tryLock k) = ans MBool (mp_tryLock impl cd k)"
| "typed_call impl vt cd env (X_tryLock_time k t) = ans MBool (mp_tryLock_time impl cd k t)"
| "typed_call impl vt cd env (X_unlock k) = ans (\<lambda>_. MUnit) (mp_unlock impl cd k)"
| "typed_call impl vt cd env (X_forceUnlock k) = ans (\<lambda>_. MUnit) (mp_forceUnlock impl cd k)"
| "typed_call impl vt cd env (X_evict k) = ans MBool (mp_evict vt cd k)"
| "typed_call impl vt cd env (X_putAll es) = ans (\<lambda>_. MUnit) (mp_putAll impl vt cd es)"

text \<open>The mixed map, with every serialized answer read as the value type.\<close>

definition read_as :: "('d \<Rightarrow> 'v option res) \<Rightarrow> ('s, 'd TypedData) comp \<Rightarrow> ('s, 'v option) comp" where
  "read_as toObj c = bindM c (\<lambda>td. liftR (td_get toObj td))"

fun mixed_call :: "('s, 'd, 'q, 'f) IMapImpl \<Rightarrow> ('d, 's) mixed_vt \<Rightarrow> ('k \<Rightarrow> 'd res) \<Rightarrow> ('v \<Rightarrow> 'd res) \<Rightarrow> ('d \<Rightarrow> 'v option res) \<Rightarrow>
    ('k, 'v) mixed_op \<Rightarrow> ('s, 'v map_answer) comp" where
  "mixed_call impl mv kd vd toObj (X_get k) = ans MValue (read_as toObj (mx_get mv kd k))"
| "mixed_call impl mv kd vd toObj (X_containsKey k) = ans MBool (mx_containsKey mv kd k)"
| "mixed_call impl mv kd vd toObj (X_containsValue v) = ans MBool (mx_containsValue impl vd v)"
| "mixed_call impl mv kd vd toObj (X_put k v) = ans MValue (read_as toObj (mx_put mv kd vd k v))"
| "mixed_call impl mv kd vd toObj (X_put_ttl k v t) = ans MValue (read_as toObj (mx_put_ttl mv kd vd k v t))"
| "mixed_call impl mv kd vd toObj (X_remove k) = ans MValue (read_as toObj (mx_remove mv kd k))"
| "mixed_call impl mv kd vd toObj (X_remove_value k v) = ans MBool (mx_remove_value mv kd vd k v)"
| "mixed_call impl mv kd vd toObj (X_delete k) = ans (\<lambda>_. MUnit) (mx_deleteEntry mv kd k)"
| "mixed_call impl mv kd vd toObj (X_tryRemove k t) = ans MBool (mx_tryRemove mv kd k t)"
| "mixed_call impl mv kd vd toObj (X_tryPut k v t) = ans MBool (mx_tryPut mv kd vd k v t)"
| "mixed_call impl mv kd vd toObj (X_putTransient k v t) = ans (\<lambda>_. MUnit) (mx_putTransient mv kd vd k v t)"
| "mixed_call impl mv kd vd toObj (X_putIfAbsent k v) = ans MValue (read_as toObj (mx_putIfAbsent mv kd vd k v))"
| "mixed_call impl mv kd vd toObj (X_putIfAbsent_ttl k v t) = ans MValue (read_as toObj (mx_putIfAbsent_ttl mv kd vd k v t))"
| "mixed_call impl mv kd vd toObj (X_replace_same k v w) = ans MBool (mx_replace_same mv kd vd vd k v w)"
| "mixed_call impl mv kd vd toObj (X_replace k v) = ans MValue (read_as toObj (mx_replace mv kd vd k v))"
| "mixed_call impl mv kd vd toObj (X_set k v) = ans (\<lambda>_. MUnit) (mx_set mv kd vd k v)"
| "mixed_call impl mv kd vd toObj (X_set_ttl k v t) = ans (\<lambda>_. MUnit) (mx_set_ttl mv kd vd k v t)"
| "mixed_call impl mv kd vd toObj (X_lock k) = ans (\<lambda>_. MUnit) (mx_lock impl kd k)"
| "mixed_call impl mv kd vd toObj (X_lock_lease k t) = ans (\<lambda>_. MUnit) (mx_lock_lease impl kd k t)"
| "mixed_call impl mv kd vd toObj (X_isLocked k) = ans MBool (mx_isLocked impl kd k)"
| "mixed_call impl mv kd vd toObj (X_tryLock k) = ans MBool (mx_tryLock impl kd k)"
| "mixed_call impl mv kd vd toObj (X_tryLock_time k t) = ans MBool (mx_tryLock_time impl kd k t)"
| "mixed_call impl mv kd vd toObj (X_unlock k) = ans (\<lambda>_. MUnit) (mx_unlock impl kd k)"
| "mixed_call impl mv kd vd toObj (X_forceUnlock k) = ans (\<lambda>_. MUnit) (mx_forceUnlock impl kd k)"
| "mixed_call impl mv kd vd toObj (X_evict k) = ans MBool (mx_evict mv kd k)"
| "mixed_call impl mv kd vd toObj (X_putAll es) = ans (\<lambda>_. MUnit) (mx_putAll impl mv kd vd es)"

lemmas mx_defs = mx_get_def mx_containsKey_def mx_containsValue_def mx_put_def mx_put_ttl_def mx_remove_def mx_remove_value_def mx_deleteEntry_def
  mx_tryRemove_def mx_tryPut_def mx_putTransient_def mx_putIfAbsent_def mx_putIfAbsent_ttl_def mx_replace_same_def mx_replace_def mx_set_def
  mx_set_ttl_def mx_lock_def mx_lock_lease_def mx_isLocked_def mx_tryLock_def mx_tryLock_time_def mx_unlock_def mx_forceUnlock_def mx_evict_def
  mx_putAll_def

lemmas typed_defs = mp_get_def mp_containsKey_def mp_containsValue_def mp_put_def mp_put_ttl_def mp_remove_def mp_remove_value_def mp_deleteEntry_def
  mp_tryRemove_def mp_tryPut_def mp_putTransient_def mp_putIfAbsent_def mp_putIfAbsent_ttl_def mp_replace_same_def mp_replace_def mp_set_def
  mp_set_ttl_def mp_lock_def mp_lock_lease_def mp_isLocked_def mp_tryLock_def mp_tryLock_time_def mp_unlock_def mp_forceUnlock_def mp_evict_def
  mp_putAll_def

lemmas base_defs = ClientMapProxy_vt_def base_getInternal_def base_containsKeyInternal_def base_removeInternal_def base_removeInternal_value_def
  base_deleteInternal_def base_tryRemoveInternal_def base_tryPutInternal_def base_putInternal_def base_tryPutTransientInternal_def
  base_putIfAbsentInternal_def base_replaceIfSameInternal_def base_replaceInternal_def base_setInternal_def base_evictInternal_def
  base_putAllInternal_def

lemma group_entries_mixed: "mx_group_entries impl (k_toData cd) (v_toData cd) es g = group_entries impl cd es g"
proof (induction es arbitrary: g)
  case (Cons e es)
  then show ?case by (cases e) (simp add: bindR_def split: sum.split)
qed simp

text \<open>A computation of the proxy that only talks to the cluster.\<close>

lemma on_server_bindM: "bindM (on_server c) (\<lambda>a. on_server (f a)) = on_server (bindM c f)"
  by (simp add: fun_eq_iff on_server_def bindM_def split: prod.splits sum.splits)

lemma on_server_liftR: "liftR r = on_server (liftR r)"
  by (simp add: fun_eq_iff on_server_def liftR_def)

lemma on_server_retM: "retM a = on_server (retM a)"
  by (simp add: fun_eq_iff on_server_def retM_def)

lemma bindM_liftR_on_server: "bindM (liftR r) (\<lambda>a. on_server (f a)) = on_server (bindM (liftR r) f)"
  by (simp add: fun_eq_iff on_server_def bindM_def liftR_def split: sum.splits)

lemma bindM_on_server_liftR: "bindM (on_server c) (\<lambda>a. liftR (f a)) = on_server (bindM c (\<lambda>a. liftR (f a)))"
  by (simp add: fun_eq_iff on_server_def bindM_def liftR_def split: prod.splits sum.splits)

lemma ans_on_server: "ans f (on_server c) = on_server (ans f c)"
  by (simp add: fun_eq_iff ans_def on_server_def bindM_def retM_def split: prod.splits sum.splits)

lemmas to_server = on_server_bindM bindM_liftR_on_server bindM_on_server_liftR ans_on_server

lemma liftR_Inr: "liftR (Inr a) = retM a"
  by (simp add: fun_eq_iff liftR_def retM_def)

lemma bindM_liftR_twice: "bindM (liftR r) (\<lambda>_. bindM (liftR r) f) = bindM (liftR r) f"
  by (simp add: fun_eq_iff bindM_def liftR_def split: sum.splits)

lemma read_as_retM: "read_as toObj (retM (TypedData r)) = liftR (toObject_auto toObj r)"
  by (simp add: read_as_def td_get_def)

lemma read_as_bindM: "read_as toObj (bindM c f) = bindM c (\<lambda>a. read_as toObj (f a))"
  by (simp add: read_as_def bindM_assoc)



text \<open>The same for entry processors, whose answer has its own type, and for the paging queries.\<close>

lemma mixed_executeOnKey:
  assumes "mixed_messages impl mv"
  shows "mp_executeOnKey (ClientMapProxy_vt impl cd) cd key e = on_server (read_as (r_toObject cd) (mx_executeOnKey mv (k_toData cd) (e_toData cd) key e))"
  using mixed_messages.executeOnKey_law [OF assms]
  by (simp add: mp_executeOnKey_def mx_executeOnKey_def ClientMapProxy_vt_def base_executeOnKeyInternal_def to_server read_as_bindM read_as_retM)

lemma mixed_paged:
  "paged q fetch f (p, q0) = (case mx_paged q fetch f (pr_server p, q0) of (r, (s, q')) \<Rightarrow> (r, (p\<lparr>pr_server := s\<rparr>, q')))"
  by (simp add: paged_def mx_paged_def on_server_def split: prod.splits sum.splits)

lemma mixed_paging_queries:
  "mp_entrySet_paging klt vlt cd fetch (p, q) = (case mx_entrySet_paging klt vlt cd fetch (pr_server p, q) of (r, (s, q')) \<Rightarrow> (r, (p\<lparr>pr_server := s\<rparr>, q')))"
  "mp_values_paging klt vlt cd fetch (p, q) = (case mx_values_paging klt vlt cd fetch (pr_server p, q) of (r, (s, q')) \<Rightarrow> (r, (p\<lparr>pr_server := s\<rparr>, q')))"
  by (simp_all add: mp_entrySet_paging_def mx_entrySet_paging_def mp_values_paging_def mx_values_paging_def mixed_paged)

text \<open>
  Without an entry the typed map's \<open>getEntryView\<close> dereferences a null pointer, the mixed one answers null; and
  the adaptor's view gives the time of the last access for that of the last update.
\<close>

lemma entry_view_of_absent_key:
  assumes "kd key = Inr d" "ia_getEntryViewData ia d s = (Inr None, s')"
  shows "mp_getEntryView ia kd toObj key s = (Inl NullDereference, s')" "mx_getEntryView ia kd key s = (Inr None, s')"
  using assms by (simp_all add: mp_getEntryView_def mx_getEntryView_def bindM_def liftR_def deref_ptr_def retM_def)

lemma entry_views_agree:
  assumes "kd key = Inr d" "ia_getEntryViewData ia d s = (Inr (Some view), s')" "toObj (dv_value view) = Inr (Some v)"
  shows "mp_getEntryView ia kd toObj key s = (Inr (EntryView_new key v view), s')"
    "\<exists>w. mx_getEntryView ia kd key s = (Inr (Some w), s') \<and> td_get toObj (vw_value w) = Inr (Some v) \<and> td_data (vw_key w) = Some d
      \<and> vw_lastUpdateTime w = dv_lastUpdateTime view"
  using assms by (simp_all add: mp_getEntryView_def mx_getEntryView_def bindM_def liftR_def deref_ptr_def retM_def td_get_def toObject_auto_def EntryView_new_def)

lemma adaptor_view_update_time: "MapEntryView_getLastUpdateTime view = MapEntryView_getLastAccessTime view"
  by (simp add: MapEntryView_getLastUpdateTime_def MapEntryView_getLastAccessTime_def)

end
