(* ===== verification/Near_Coherence.thy ===== *)
theory Near_Coherence
  imports Map_Proxy
begin

text \<open>
  Reads of a near cached map that race with invalidations.

  A read that misses the near cache marks its key before it asks the cluster, puts the answer into the near cache and
  unmarks the key; an invalidation first removes a mark and then the record.  This theory takes
  \<open>getInternal\<close>, \<open>getAllInternal\<close>, \<open>tryToPutNearCache\<close>, \<open>resetToUnmarkedState\<close>
  (\<open>client/map/NearCachedClientMapProxy.h\<close>) and \<open>InvalidationAwareWrapper::invalidate\<close> and \<open>clear\<close>
  apart into accesses to the shared state of one key and lets any number of readers, writers and invalidation
  handlers interleave.  The marker changes its state by compare-and-set between the states of \<open>KeyStateMarker\<close>;
  the cluster sends one invalidation for each change, sooner or later, and may answer a read with an exception; the
  record may vanish by expiry or eviction at any time.
\<close>

section \<open>One key\<close>

record 'v key_system =
  server_value :: "'v option"
  near_record_of :: "'v option option"
  mark_state :: key_state
  undelivered :: nat

definition cas_mark :: "key_state \<Rightarrow> key_state \<Rightarrow> 'v key_system \<Rightarrow> bool \<times> 'v key_system" where
  "cas_mark expected update s = (if mark_state s = expected then (True, s\<lparr>mark_state := update\<rparr>) else (False, s))"

text \<open>
  The control points. The first flag of \<open>TryUnmark\<close> tells whether the key was marked by this call and not yet unmarked;
  the last flag of a control point, whether an outer handler resets the mark once more when an exception is on the way.
\<close>

datatype 'v proc =
    Lookup
  | TryMark
  | Fetch bool
  | PutRecord "'v option" bool
  | TryUnmark bool "'v option res" bool
  | ResetRemove "'v option res" bool
  | ResetInvalidate "'v option res" bool
  | ForceUnmark "'v option res" bool
  | Finished "'v option res"
  | BulkLookup
  | BulkMark
  | BulkFetch bool "'v option"
  | BulkPut "'v option" "'v option"
  | WriteServer "'v option"
  | HandleRemove
  | HandleInit
  | HandleInvalidate
  | Handled

text \<open>\<open>getInternal\<close>: the near cache, the marker, the cluster; an exception resets the mark, whoever holds it.\<close>

definition get_lookup :: "'v key_system \<Rightarrow> 'v proc" where
  "get_lookup s = (case near_record_of s of Some v \<Rightarrow> Finished (Inr v) | None \<Rightarrow> TryMark)"

definition get_mark :: "'v key_system \<Rightarrow> 'v key_system \<times> 'v proc" where
  "get_mark s = (case cas_mark UNMARKED MARKED s of (marked, s') \<Rightarrow> (s', Fetch marked))"

definition get_fetch :: "hz_error option \<Rightarrow> bool \<Rightarrow> 'v key_system \<Rightarrow> 'v proc" where
  "get_fetch failure marked s =
     (case failure of
        Some e \<Rightarrow> TryUnmark marked (Inl e) False
      | None \<Rightarrow> if marked then PutRecord (server_value s) True else Finished (Inr (server_value s)))"

text \<open>\<open>tryToPutNearCache\<close>: after a failed put the outer handler of a single read resets the mark as well.\<close>

definition put_record :: "hz_error option \<Rightarrow> 'v option \<Rightarrow> bool \<Rightarrow> 'v key_system \<Rightarrow> 'v key_system \<times> 'v proc" where
  "put_record failure v outer s =
     (case failure of
        Some e \<Rightarrow> (s, TryUnmark True (Inl e) outer)
      | None \<Rightarrow> (s\<lparr>near_record_of := Some v\<rparr>, TryUnmark True (Inr v) False))"

text \<open>\<open>resetToUnmarkedState\<close>, with the two steps of \<open>InvalidationAwareWrapper::invalidate\<close>.\<close>

definition reset_done :: "'v option res \<Rightarrow> bool \<Rightarrow> 'v proc" where
  "reset_done r again = (if again then TryUnmark False r False else Finished r)"

definition try_unmark :: "'v option res \<Rightarrow> bool \<Rightarrow> 'v key_system \<Rightarrow> 'v key_system \<times> 'v proc" where
  "try_unmark r again s =
     (case cas_mark MARKED UNMARKED s of (True, s') \<Rightarrow> (s', reset_done r again) | (False, s') \<Rightarrow> (s', ResetRemove r again))"

definition remove_mark :: "'v key_system \<Rightarrow> 'v key_system" where
  "remove_mark s = snd (cas_mark MARKED REMOVED s)"

definition drop_record :: "'v key_system \<Rightarrow> 'v key_system" where
  "drop_record s = s\<lparr>near_record_of := None\<rparr>"

text \<open>
  \<open>getAllInternal\<close>: the cluster is asked for every key, also for those the near cache has; a value found in the near cache
  is the one returned. A marked key without an answer is unmarked by force, an answer for an unmarked key is put as it is.
\<close>

definition bulk_lookup :: "'v key_system \<Rightarrow> 'v proc" where
  "bulk_lookup s = (case near_record_of s of Some (Some v) \<Rightarrow> BulkFetch False (Some v) | _ \<Rightarrow> BulkMark)"

definition bulk_mark :: "'v key_system \<Rightarrow> 'v key_system \<times> 'v proc" where
  "bulk_mark s = (case cas_mark UNMARKED MARKED s of (marked, s') \<Rightarrow> (s', BulkFetch marked None))"

definition bulk_fetch :: "hz_error option \<Rightarrow> bool \<Rightarrow> 'v option \<Rightarrow> 'v key_system \<Rightarrow> 'v proc" where
  "bulk_fetch failure marked found s =
     (case failure of
        Some e \<Rightarrow> if marked then ForceUnmark (Inl e) False else Finished (Inl e)
      | None \<Rightarrow>
          (case server_value s of
             None \<Rightarrow> if marked then ForceUnmark (Inr None) False else Finished (Inr found)
           | Some v \<Rightarrow> if marked then PutRecord (Some v) False
                        else BulkPut (Some v) (if found = None then Some v else found)))"

fun key_step :: "hz_error option \<Rightarrow> 'v proc \<Rightarrow> 'v key_system \<Rightarrow> ('v key_system \<times> 'v proc) option" where
  "key_step x Lookup s = Some (s, get_lookup s)"
| "key_step x TryMark s = Some (get_mark s)"
| "key_step x (Fetch marked) s = Some (s, get_fetch x marked s)"
| "key_step x (PutRecord v outer) s = Some (put_record x v outer s)"
| "key_step x (TryUnmark own r again) s = Some (try_unmark r again s)"
| "key_step x (ResetRemove r again) s = Some (remove_mark s, ResetInvalidate r again)"
| "key_step x (ResetInvalidate r again) s = Some (drop_record s, ForceUnmark r again)"
| "key_step x (ForceUnmark r again) s = Some (s\<lparr>mark_state := UNMARKED\<rparr>, reset_done r again)"
| "key_step x (Finished r) s = None"
| "key_step x BulkLookup s = Some (s, bulk_lookup s)"
| "key_step x BulkMark s = Some (bulk_mark s)"
| "key_step x (BulkFetch marked found) s = Some (s, bulk_fetch x marked found s)"
| "key_step x (BulkPut v r) s = Some (s\<lparr>near_record_of := Some v\<rparr>, Finished (Inr r))"
| "key_step x (WriteServer v) s = Some (s\<lparr>server_value := v, undelivered := Suc (undelivered s)\<rparr>, HandleRemove)"
| "key_step x HandleRemove s = Some (remove_mark s, HandleInvalidate)"
| "key_step x HandleInit s = Some (s\<lparr>mark_state := UNMARKED\<rparr>, HandleInvalidate)"
| "key_step x HandleInvalidate s = Some (drop_record s, Handled)"
| "key_step x Handled s = None"

section \<open>Interleavings\<close>

type_synonym 'v key_state_space = "'v key_system \<times> 'v proc list"

datatype 'v key_action =
    StartProc "'v proc"
  | StepProc nat "hz_error option"
  | RemoteChange "'v option"
  | Deliver bool
  | Expire

text \<open>What a client may start: reads, bulk reads where \<open>bulk\<close> allows them, writes and invalidations of its own.\<close>

definition startable :: "bool \<Rightarrow> 'v proc \<Rightarrow> bool" where
  "startable bulk p \<longleftrightarrow> p = Lookup \<or> (bulk \<and> p = BulkLookup) \<or> (\<exists>v. p = WriteServer v) \<or> p = HandleRemove \<or> p = HandleInit"

fun key_act :: "bool \<Rightarrow> 'v key_action \<Rightarrow> 'v key_state_space \<Rightarrow> 'v key_state_space option" where
  "key_act bulk (StartProc p) (s, ps) = (if startable bulk p then Some (s, ps @ [p]) else None)"
| "key_act bulk (StepProc i x) (s, ps) =
     (if i < length ps then (case key_step x (ps ! i) s of None \<Rightarrow> None | Some (s', p) \<Rightarrow> Some (s', ps[i := p])) else None)"
| "key_act bulk (RemoteChange v) (s, ps) = Some (s\<lparr>server_value := v, undelivered := Suc (undelivered s)\<rparr>, ps)"
| "key_act bulk (Deliver whole) (s, ps) =
     (if 0 < undelivered s
      then Some (s\<lparr>undelivered := undelivered s - 1\<rparr>, ps @ [if whole then HandleInit else HandleRemove]) else None)"
| "key_act bulk Expire (s, ps) = Some (drop_record s, ps)"

fun key_run :: "bool \<Rightarrow> 'v key_action list \<Rightarrow> 'v key_state_space \<Rightarrow> 'v key_state_space option" where
  "key_run bulk [] c = Some c"
| "key_run bulk (e # es) c = (case key_act bulk e c of None \<Rightarrow> None | Some c' \<Rightarrow> key_run bulk es c')"

definition fresh_key :: "'v option \<Rightarrow> 'v key_state_space" where
  "fresh_key v = (\<lparr>server_value = v, near_record_of = None, mark_state = UNMARKED, undelivered = 0\<rparr>, [])"

definition quiescent :: "'v key_state_space \<Rightarrow> bool" where
  "quiescent c \<longleftrightarrow> undelivered (fst c) = 0 \<and> (\<forall>p \<in> set (snd c). p = Handled \<or> (\<exists>r. p = Finished r))"

section \<open>The invariant\<close>

definition count :: "('v proc \<Rightarrow> bool) \<Rightarrow> 'v proc list \<Rightarrow> nat" where
  "count Q ps = length (filter Q ps)"

lemma count_update: "i < length ps \<Longrightarrow> count Q (ps[i := p]) + of_bool (Q (ps ! i)) = count Q ps + of_bool (Q p)"
  by (simp add: count_def upd_conv_take_nth_drop id_take_nth_drop [of i ps, THEN arg_cong [of _ _ "filter Q"]])

lemma count_append [simp]: "count Q (ps @ [p]) = count Q ps + of_bool (Q p)"
  by (simp add: count_def)

lemma count_pos: "p \<in> set ps \<Longrightarrow> Q p \<Longrightarrow> 0 < count Q ps"
  unfolding count_def by (metis filter_empty_conv length_greater_0_conv)

text \<open>Calls that hold a mark of their own; calls that will still drop the record; invalidations by stage.\<close>

fun marked :: "'v proc \<Rightarrow> bool" where
  "marked (Fetch m) = m" | "marked (PutRecord _ _) = True" | "marked (TryUnmark own _ _) = own" | "marked _ = False"

fun dropping :: "'v proc \<Rightarrow> bool" where
  "dropping (ResetRemove _ _) = True" | "dropping (ResetInvalidate _ _) = True" | "dropping _ = False"

fun removing :: "'v proc \<Rightarrow> bool" where
  "removing HandleRemove = True" | "removing HandleInit = True" | "removing _ = False"

fun bulk_proc :: "'v proc \<Rightarrow> bool" where
  "bulk_proc BulkLookup = True" | "bulk_proc BulkMark = True" | "bulk_proc (BulkFetch _ _) = True" | "bulk_proc (BulkPut _ _) = True" | "bulk_proc _ = False"

definition stale_put :: "'v key_system \<Rightarrow> 'v proc list \<Rightarrow> bool" where
  "stale_put s ps \<longleftrightarrow> (\<exists>v outer. PutRecord v outer \<in> set ps \<and> v \<noteq> server_value s)"

definition coherent_key :: "'v key_state_space \<Rightarrow> bool" where
  "coherent_key c \<longleftrightarrow> (case c of (s, ps) \<Rightarrow>
     (\<forall>p \<in> set ps. \<not> bulk_proc p)
   \<and> (undelivered s + count removing ps = 0 \<longrightarrow> stale_put s ps \<longrightarrow> of_bool (mark_state s = MARKED) < count marked ps)
   \<and> (undelivered s + count removing ps = 0 \<longrightarrow> HandleInvalidate \<notin> set ps \<longrightarrow> (\<exists>v. near_record_of s = Some v \<and> v \<noteq> server_value s)
        \<longrightarrow> of_bool (mark_state s = MARKED) < count marked ps + count dropping ps))"

lemma cas_mark_simps:
  "mark_state (remove_mark s) = (if mark_state s = MARKED then REMOVED else mark_state s)"
  "server_value (remove_mark s) = server_value s" "near_record_of (remove_mark s) = near_record_of s" "undelivered (remove_mark s) = undelivered s"
  by (auto simp: remove_mark_def cas_mark_def)

lemmas key_step_defs = get_lookup_def get_mark_def get_fetch_def put_record_def reset_done_def try_unmark_def drop_record_def cas_mark_def

lemma stale_put_update:
  assumes "stale_put s (ps[i := p])" "i < length ps" "server_value s = server_value s'"
    and "\<And>v outer. p = PutRecord v outer \<Longrightarrow> v = server_value s"
  shows "stale_put s' ps" "\<exists>j < length ps. j \<noteq> i \<and> (\<exists>v outer. ps ! j = PutRecord v outer)"
proof -
  obtain v outer j where j: "j < length ps" "ps[i := p] ! j = PutRecord v outer" "v \<noteq> server_value s"
    using assms(1) by (auto simp: stale_put_def in_set_conv_nth)
  then have "j \<noteq> i" using assms(2,4) by auto
  then show "stale_put s' ps" "\<exists>j < length ps. j \<noteq> i \<and> (\<exists>v outer. ps ! j = PutRecord v outer)"
    using j assms(3) by (auto simp: stale_put_def in_set_conv_nth)
qed

lemma stale_put_append: "(\<And>v outer. p \<noteq> PutRecord v outer) \<Longrightarrow> stale_put s (ps @ [p]) = stale_put s ps"
  by (auto simp: stale_put_def)

lemma key_step_marks:
  assumes c: "coherent_key (s, ps)" and i: "i < length ps" and st: "key_step x (ps ! i) s = Some (s', p)"
    and z: "undelivered s' + count removing (ps[i := p]) = 0" and sp: "stale_put s' (ps[i := p])"
  shows "of_bool (mark_state s' = MARKED) < count marked (ps[i := p])"
proof -
  note n = count_update [OF i, of marked p] count_update [OF i, of removing p]
  have pos: "0 < count marked (ps[i := p])" using sp count_pos [where Q = marked] by (fastforce simp: stale_put_def)
  have nb: "\<not> bulk_proc (ps ! i)" using c i by (auto simp: coherent_key_def)
  have old: "of_bool (mark_state s = MARKED) < count marked ps"
    if "undelivered s' = undelivered s" "server_value s' = server_value s" "removing (ps ! i) = removing p" "\<And>v outer. p = PutRecord v outer \<Longrightarrow> v = server_value s"
    using c n(2) that z stale_put_update(1) [OF sp i, of s] by (auto simp: coherent_key_def)
  show ?thesis
  proof (cases "ps ! i")
    case (WriteServer v)
    then show ?thesis using st z by auto
  qed (use st pos nb old n(1) in \<open>auto simp: key_step_defs cas_mark_simps split: option.splits if_splits prod.splits\<close>)
qed

lemma key_step_records:
  assumes c: "coherent_key (s, ps)" and i: "i < length ps" and st: "key_step x (ps ! i) s = Some (s', p)"
    and z: "undelivered s' + count removing (ps[i := p]) = 0" and h: "HandleInvalidate \<notin> set (ps[i := p])"
    and v: "near_record_of s' = Some v" "v \<noteq> server_value s'"
  shows "of_bool (mark_state s' = MARKED) < count marked (ps[i := p]) + count dropping (ps[i := p])"
proof -
  note n = count_update [OF i, of marked p] count_update [OF i, of dropping p] count_update [OF i, of removing p]
  have nb: "\<not> bulk_proc (ps ! i)" using c i by (auto simp: coherent_key_def)
  have p: "p \<noteq> HandleInvalidate" using h i set_update_memI [of i ps p] by blast
  have h': "HandleInvalidate \<notin> set ps" if "ps ! i \<noteq> HandleInvalidate"
    using h that i by (auto simp: in_set_conv_nth nth_list_update split: if_splits)
  have old: "of_bool (mark_state s = MARKED) < count marked ps + count dropping ps"
    if "undelivered s' = undelivered s" "server_value s' = server_value s" "near_record_of s' = near_record_of s"
      "removing (ps ! i) = removing p" "ps ! i \<noteq> HandleInvalidate"
    using c n(3) that z v h' by (auto simp: coherent_key_def)
  show ?thesis
  proof (cases "ps ! i")
    case (PutRecord w outer)
    show ?thesis
    proof (cases x)
      case None
      have "stale_put s ps" using PutRecord i v st None by (auto simp: stale_put_def put_record_def) (metis nth_mem)
      then have "of_bool (mark_state s = MARKED) < count marked ps"
        using c n(3) z PutRecord st None by (auto simp: coherent_key_def put_record_def)
      then show ?thesis using n(1) PutRecord st None by (auto simp: put_record_def)
    next
      case (Some e)
      then show ?thesis using st PutRecord old n(1,2) by (auto simp: put_record_def)
    qed
  next
    case (TryUnmark own r again)
    then show ?thesis
      using st old n(1,2) by (cases own) (auto simp: key_step_defs split: if_splits)
  next
    case (WriteServer v)
    then show ?thesis using st z by auto
  qed (use st p v nb old n(1,2) in \<open>auto simp: key_step_defs cas_mark_simps split: option.splits if_splits prod.splits\<close>)
qed

lemma key_step_coherent:
  assumes "coherent_key (s, ps)" "i < length ps" "key_step x (ps ! i) s = Some (s', p)"
  shows "coherent_key (s', ps[i := p])"
proof -
  have "\<not> bulk_proc (ps ! i)" using assms(1,2) by (auto simp: coherent_key_def)
  then have "\<not> bulk_proc p"
    using assms(3) by (cases "ps ! i") (auto simp: key_step_defs split: option.splits if_splits prod.splits)
  then have "\<forall>q \<in> set (ps[i := p]). \<not> bulk_proc q"
    using assms(1) set_update_subset_insert [of ps i p] by (auto simp: coherent_key_def)
  then show ?thesis
    using key_step_marks [OF assms] key_step_records [OF assms] by (auto simp: coherent_key_def)
qed

lemma key_act_coherent:
  assumes "coherent_key c" "key_act False a c = Some c'"
  shows "coherent_key c'"
proof -
  obtain s ps where c: "c = (s, ps)" by (cases c)
  show ?thesis
  proof (cases a)
    case (StepProc i x)
    then show ?thesis using assms c key_step_coherent [of s ps i x] by (auto split: if_splits option.splits)
  next
    case (StartProc p)
    then show ?thesis
      using assms c by (auto simp: coherent_key_def startable_def stale_put_append split: if_splits)
  next
    case (Deliver whole)
    then show ?thesis using assms c by (auto simp: coherent_key_def split: if_splits)
  qed (use assms c in \<open>auto simp: coherent_key_def drop_record_def stale_put_def\<close>)
qed

lemma key_run_coherent: "coherent_key c \<Longrightarrow> key_run False es c = Some c' \<Longrightarrow> coherent_key c'"
  by (induction es arbitrary: c) (auto split: option.splits dest: key_act_coherent)


text \<open>A reader that an invalidation overtakes.\<close>

definition overtaken_read :: "nat key_action list" where
  "overtaken_read = [StartProc Lookup, StepProc 0 None, StepProc 0 None, StepProc 0 None, RemoteChange (Some 2), Deliver False,
     StepProc 1 None, StepProc 1 None, StepProc 0 None, StepProc 0 None, StepProc 0 None, StepProc 0 None, StepProc 0 None]"


text \<open>\<open>getAll\<close> breaks this: for any two different values there is an interleaving of one \<open>get\<close>, one \<open>getAll\<close> and one
  change of the key after which every call has ended, every invalidation has been handled, and the near cache holds
  the old value.\<close>

theorem bulk_read_leaves_stale_record:
  assumes "v \<noteq> w"
  shows "\<exists>es c. key_run True es (fresh_key (Some v)) = Some c \<and> quiescent c
    \<and> near_record_of (fst c) = Some (Some v) \<and> server_value (fst c) = Some w"
proof -
  let ?es = "[StartProc Lookup, StepProc 0 None, StepProc 0 None, StepProc 0 None, StepProc 0 None, StepProc 0 None,
      StartProc BulkLookup, StepProc 1 None, StepProc 1 None,
      RemoteChange (Some w), Deliver False, StepProc 2 None, StepProc 2 None, StepProc 1 None]"
  let ?c = "(\<lparr>server_value = Some w, near_record_of = Some (Some v), mark_state = UNMARKED, undelivered = 0\<rparr>,
      [Finished (Inr (Some v)), Finished (Inr (Some v)), Handled])"
  have "key_run True ?es (fresh_key (Some v)) = Some ?c"
    by (simp add: fresh_key_def key_step_defs bulk_lookup_def bulk_mark_def bulk_fetch_def remove_mark_def startable_def)
  moreover have "quiescent ?c" by (simp add: quiescent_def)
  ultimately show ?thesis by (intro exI [of _ ?es] exI [of _ ?c]) simp
qed

theorem bulk_read_leaves_stale_record_witness:
  "\<exists>es c. key_run True es (fresh_key (Some (1::nat))) = Some c \<and> quiescent c
    \<and> near_record_of (fst c) = Some (Some 1) \<and> server_value (fst c) = Some 2"
  by (rule bulk_read_leaves_stale_record) simp

end
