(* ===== verification/Portable.thy ===== *)
theory Portable
  imports Hz_Serial
begin

text \<open>
  Portable fields: the templates of \<open>DefaultPortableWriter.h\<close>, \<open>ClassDefinitionWriter.h\<close>,
  \<open>PortableWriter.h\<close>, \<open>PortableReaderBase.h\<close>, \<open>DefaultPortableReader.h\<close>,
  \<open>MorphingPortableReader.h\<close> and \<open>PortableReader.h\<close>. An array of portables is written with a table
  of the positions of its elements, which is filled in while the elements are written and followed
  when they are read. The primitive operations of the streams, the bookkeeping of the fields and the
  code of a portable class have no body in the sources; they are the fields of the records below,
  \<open>portable_stream\<close> and \<open>portable_field\<close> state what the templates rely on.
\<close>

section \<open>Streams with positions\<close>

text \<open>\<open>DataOutput\<close> keeps the bytes written so far, \<open>DataInput\<close> a buffer and a position in it.\<close>

record data_input =
  di_buffer :: "byte list"
  di_pos :: int

record portable_io =
  pio_writeBoolean :: "bool \<Rightarrow> (byte list, unit) comp"
  pio_writeInt :: "int \<Rightarrow> (byte list, unit) comp"
  pio_writeInt_at :: "int \<Rightarrow> int \<Rightarrow> (byte list, unit) comp"
  pio_position :: "byte list \<Rightarrow> nat"
  pio_setPosition :: "nat \<Rightarrow> (byte list, unit) comp"
  pio_readBoolean :: "(data_input, bool) comp"
  pio_readInt :: "(data_input, int) comp"
  pio_inPosition :: "data_input \<Rightarrow> int"
  pio_setInPosition :: "int \<Rightarrow> (data_input, unit) comp"

datatype FieldType = TYPE_PORTABLE | TYPE_PORTABLE_ARRAY

record FieldDefinition =
  fd_factoryId :: int
  fd_classId :: int

text \<open>
  The private methods of the writer and of the reader, and what they need of the class \<open>T\<close>: the
  default constructor with its identifiers, and the two halves of \<open>PortableSerializer\<close>.
\<close>

record 't portable_writer =
  pw_setPosition :: "string \<Rightarrow> FieldType \<Rightarrow> (byte list, FieldDefinition) comp"
  pw_checkPortableAttributes :: "FieldDefinition \<Rightarrow> 't \<Rightarrow> unit res"
  pw_write :: "'t \<Rightarrow> (byte list, unit) comp"

record 't portable_class =
  pc_new :: 't
  pc_getFactoryId :: "'t \<Rightarrow> int"
  pc_getClassId :: "'t \<Rightarrow> int"

record 't portable_reader =
  pr_setPosition :: "string \<Rightarrow> FieldType \<Rightarrow> (data_input, unit) comp"
  pr_getField :: "string \<Rightarrow> FieldDefinition res"
  pr_checkFactoryAndClass :: "FieldDefinition \<Rightarrow> int \<Rightarrow> int \<Rightarrow> unit res"
  pr_createNewPortableInstance :: "int \<Rightarrow> int \<Rightarrow> 't option"
  pr_read :: "'t \<Rightarrow> int \<Rightarrow> int \<Rightarrow> (data_input, 't) comp"

section \<open>DefaultPortableWriter\<close>

text \<open>\<open>INT_SIZE_IN_BYTES\<close> is unsigned: a product with it is taken modulo \<open>2 ^ 32\<close>.\<close>

definition table_bytes :: "int \<Rightarrow> nat" where
  "table_bytes n = nat (n * 4 mod 2 ^ 32)"

definition writeNullPortable :: "portable_io \<Rightarrow> 't portable_class \<Rightarrow> 't portable_writer \<Rightarrow> string \<Rightarrow>
    (byte list, unit) comp" where
  "writeNullPortable io cls w fieldName =
     bindM (pw_setPosition w fieldName TYPE_PORTABLE) (\<lambda>_.
     bindM (pio_writeBoolean io True) (\<lambda>_.
     bindM (pio_writeInt io (pc_getFactoryId cls (pc_new cls))) (\<lambda>_.
       pio_writeInt io (pc_getClassId cls (pc_new cls)))))"

definition writePortable :: "portable_io \<Rightarrow> 't portable_writer \<Rightarrow> string \<Rightarrow> 't option \<Rightarrow>
    (byte list, unit) comp" where
  "writePortable io w fieldName portable =
     bindM (pw_setPosition w fieldName TYPE_PORTABLE) (\<lambda>fd.
     bindM (pio_writeBoolean io (portable = None)) (\<lambda>_.
     bindM (pio_writeInt io (fd_factoryId fd)) (\<lambda>_.
     bindM (pio_writeInt io (fd_classId fd)) (\<lambda>_.
       case portable of
         None \<Rightarrow> retM ()
       | Some p \<Rightarrow> bindM (liftR (pw_checkPortableAttributes w fd p)) (\<lambda>_. pw_write w p)))))"

text \<open>The loop over the elements: \<open>i\<close> counts, \<open>offset\<close> is where the table begins.\<close>

fun write_portables :: "portable_io \<Rightarrow> 't portable_writer \<Rightarrow> FieldDefinition \<Rightarrow> nat \<Rightarrow> nat \<Rightarrow> 't list \<Rightarrow>
    (byte list, unit) comp" where
  "write_portables io w fd offset i [] = retM ()"
| "write_portables io w fd offset i (v # vs) =
     bindM (liftR (pw_checkPortableAttributes w fd v)) (\<lambda>_ bs.
       let position = pio_position io bs in
       bindM (pio_writeInt_at io (wrap32 (int (u64 (offset + table_bytes (int i))))) (wrap32 (int position))) (\<lambda>_.
       bindM (pw_write w v) (\<lambda>_.
         write_portables io w fd offset (Suc i) vs)) bs)"

definition writePortableArray :: "portable_io \<Rightarrow> 't portable_writer \<Rightarrow> string \<Rightarrow> 't list option \<Rightarrow>
    (byte list, unit) comp" where
  "writePortableArray io w fieldName values =
     bindM (pw_setPosition w fieldName TYPE_PORTABLE_ARRAY) (\<lambda>fd.
     let len = (case values of None \<Rightarrow> NULL_ARRAY | Some vs \<Rightarrow> wrap32 (int (length vs))) in
     bindM (pio_writeInt io len) (\<lambda>_.
     bindM (pio_writeInt io (fd_factoryId fd)) (\<lambda>_.
     bindM (pio_writeInt io (fd_classId fd)) (\<lambda>_ bs.
       if len > 0 then
         (let offset = pio_position io bs in
          bindM (pio_setPosition io (u64 (offset + table_bytes len))) (\<lambda>_.
            write_portables io w fd offset 0
              (case values of None \<Rightarrow> [] | Some vs \<Rightarrow> take (nat len) vs)) bs)
       else (Inr (), bs)))))"

section \<open>ClassDefinitionWriter\<close>

text \<open>
  The first pass over an object of an unregistered class collects its class definition. \<open>'b\<close> is the
  builder together with the context, in which \<open>createNestedClassDef\<close> registers definitions.
\<close>

record ('b, 't, 'cd) class_def_env =
  ce_lookupClassDefinition :: "int \<Rightarrow> int \<Rightarrow> int \<Rightarrow> ('b, 'cd option) comp"
  ce_getVersion :: int
  ce_createNestedClassDef :: "'t \<Rightarrow> ('b, 'cd) comp"
  ce_addPortableField :: "string \<Rightarrow> 'cd \<Rightarrow> ('b, unit) comp"
  ce_addPortableArrayField :: "string \<Rightarrow> 'cd \<Rightarrow> ('b, unit) comp"

definition cd_writeNullPortable :: "('b, 't, 'cd) class_def_env \<Rightarrow> 't portable_class \<Rightarrow> string \<Rightarrow>
    ('b, unit) comp" where
  "cd_writeNullPortable ce cls fieldName =
     (let portable = pc_new cls;
          factoryId = pc_getFactoryId cls portable;
          classId = pc_getClassId cls portable in
      bindM (ce_lookupClassDefinition ce factoryId classId (ce_getVersion ce)) (\<lambda>nestedClassDef.
        case nestedClassDef of
          None \<Rightarrow> throwM HazelcastSerializationException
        | Some def \<Rightarrow> ce_addPortableField ce fieldName def))"

definition cd_writePortable :: "('b, 't, 'cd) class_def_env \<Rightarrow> string \<Rightarrow> 't option \<Rightarrow> ('b, unit) comp" where
  "cd_writePortable ce fieldName portable =
     (case portable of
        None \<Rightarrow> throwM HazelcastSerializationException
      | Some p \<Rightarrow> bindM (ce_createNestedClassDef ce p) (ce_addPortableField ce fieldName))"

definition cd_writePortableArray :: "('b, 't, 'cd) class_def_env \<Rightarrow> string \<Rightarrow> 't list option \<Rightarrow>
    ('b, unit) comp" where
  "cd_writePortableArray ce fieldName portables =
     (case portables of
        None \<Rightarrow> throwM HazelcastSerializationException
      | Some [] \<Rightarrow> throwM HazelcastSerializationException
      | Some (p # ps) \<Rightarrow> bindM (ce_createNestedClassDef ce p) (ce_addPortableArrayField ce fieldName))"

section \<open>PortableWriter\<close>

text \<open>
  The writer that \<open>Portable::writePortable\<close> is given: one of the two above. The state holds the
  output and the builder, each of which only its own writer changes.
\<close>

datatype ('b, 't, 'cd) any_writer =
    DefaultWriter "'t portable_writer"
  | DefinitionWriter "('b, 't, 'cd) class_def_env"

record 'b writer_state =
  ws_output :: "byte list"
  ws_builder :: 'b

definition on_output :: "(byte list, 'a) comp \<Rightarrow> ('b writer_state, 'a) comp" where
  "on_output f s = (case f (ws_output s) of (r, bs) \<Rightarrow> (r, s\<lparr>ws_output := bs\<rparr>))"

definition on_builder :: "('b, 'a) comp \<Rightarrow> ('b writer_state, 'a) comp" where
  "on_builder f s = (case f (ws_builder s) of (r, b) \<Rightarrow> (r, s\<lparr>ws_builder := b\<rparr>))"

definition PortableWriter_writeNullPortable :: "portable_io \<Rightarrow> 't portable_class \<Rightarrow> ('b, 't, 'cd) any_writer \<Rightarrow>
    string \<Rightarrow> ('b writer_state, unit) comp" where
  "PortableWriter_writeNullPortable io cls wr fieldName =
     (case wr of
        DefaultWriter w \<Rightarrow> on_output (writeNullPortable io cls w fieldName)
      | DefinitionWriter ce \<Rightarrow> on_builder (cd_writeNullPortable ce cls fieldName))"

definition PortableWriter_writePortable :: "portable_io \<Rightarrow> ('b, 't, 'cd) any_writer \<Rightarrow> string \<Rightarrow> 't option \<Rightarrow>
    ('b writer_state, unit) comp" where
  "PortableWriter_writePortable io wr fieldName portable =
     (case wr of
        DefaultWriter w \<Rightarrow> on_output (writePortable io w fieldName portable)
      | DefinitionWriter ce \<Rightarrow> on_builder (cd_writePortable ce fieldName portable))"

definition PortableWriter_writePortableArray :: "portable_io \<Rightarrow> ('b, 't, 'cd) any_writer \<Rightarrow> string \<Rightarrow>
    't list option \<Rightarrow> ('b writer_state, unit) comp" where
  "PortableWriter_writePortableArray io wr fieldName values =
     (case wr of
        DefaultWriter w \<Rightarrow> on_output (writePortableArray io w fieldName values)
      | DefinitionWriter ce \<Rightarrow> on_builder (cd_writePortableArray ce fieldName values))"

section \<open>The readers\<close>

definition PortableReaderBase_read :: "'t portable_class \<Rightarrow> 't portable_reader \<Rightarrow> int \<Rightarrow> int \<Rightarrow>
    (data_input, 't) comp" where
  "PortableReaderBase_read cls rd factoryId classId =
     (let portableInstance = (case pr_createNewPortableInstance rd factoryId classId of
          None \<Rightarrow> pc_new cls | Some p \<Rightarrow> p)
      in pr_read rd portableInstance factoryId classId)"

definition getPortableInstance :: "portable_io \<Rightarrow> 't portable_class \<Rightarrow> 't portable_reader \<Rightarrow> string \<Rightarrow>
    (data_input, 't option) comp" where
  "getPortableInstance io cls rd fieldName =
     bindM (pr_setPosition rd fieldName TYPE_PORTABLE) (\<lambda>_.
     bindM (pio_readBoolean io) (\<lambda>isNull.
     bindM (pio_readInt io) (\<lambda>factoryId.
     bindM (pio_readInt io) (\<lambda>classId.
     bindM (liftR (pr_getField rd fieldName)) (\<lambda>fd.
     bindM (liftR (pr_checkFactoryAndClass rd fd factoryId classId)) (\<lambda>_.
       if isNull then retM None
       else bindM (PortableReaderBase_read cls rd factoryId classId) (\<lambda>p. retM (Some p))))))))"

text \<open>\<open>offset + i * INT_SIZE_IN_BYTES\<close> is unsigned and converted back to \<open>int\<close>.\<close>

fun read_portables :: "portable_io \<Rightarrow> 't portable_class \<Rightarrow> 't portable_reader \<Rightarrow> int \<Rightarrow> int \<Rightarrow> int \<Rightarrow> nat \<Rightarrow> nat \<Rightarrow>
    (data_input, 't list) comp" where
  "read_portables io cls rd factoryId classId offset i 0 = retM []"
| "read_portables io cls rd factoryId classId offset i (Suc n) =
     bindM (pio_setInPosition io (wrap32 (offset + int i * 4))) (\<lambda>_.
     bindM (pio_readInt io) (\<lambda>start.
     bindM (pio_setInPosition io start) (\<lambda>_.
     bindM (PortableReaderBase_read cls rd factoryId classId) (\<lambda>p.
     bindM (read_portables io cls rd factoryId classId offset (Suc i) n) (\<lambda>ps.
       retM (p # ps))))))"

definition readPortableArray :: "portable_io \<Rightarrow> 't portable_class \<Rightarrow> 't portable_reader \<Rightarrow> string \<Rightarrow>
    (data_input, 't list) comp" where
  "readPortableArray io cls rd fieldName =
     bindM (pr_setPosition rd fieldName TYPE_PORTABLE_ARRAY) (\<lambda>_.
     bindM (pio_readInt io) (\<lambda>_.
     bindM (pr_setPosition rd fieldName TYPE_PORTABLE_ARRAY) (\<lambda>_.
     bindM (pio_readInt io) (\<lambda>len.
     bindM (pio_readInt io) (\<lambda>factoryId.
     bindM (pio_readInt io) (\<lambda>classId.
     bindM (liftR (pr_getField rd fieldName)) (\<lambda>fd.
     bindM (liftR (pr_checkFactoryAndClass rd fd factoryId classId)) (\<lambda>_ inp.
       if len > 0 then
         read_portables io cls rd factoryId classId (pio_inPosition io inp) 0 (nat len) inp
       else (Inr [], inp)))))))))"

text \<open>
  The template of \<open>MorphingPortableReader\<close> is the same text as that of \<open>DefaultPortableReader\<close>; the
  class differs in its reads of primitive fields, which have no body in the sources.
\<close>

definition morphing_readPortableArray :: "portable_io \<Rightarrow> 't portable_class \<Rightarrow> 't portable_reader \<Rightarrow> string \<Rightarrow>
    (data_input, 't list) comp" where
  "morphing_readPortableArray = readPortableArray"

datatype 't any_reader = DefaultReader "'t portable_reader" | MorphingReader "'t portable_reader"

definition PortableReader_readPortable :: "portable_io \<Rightarrow> 't portable_class \<Rightarrow> 't any_reader \<Rightarrow> string \<Rightarrow>
    (data_input, 't option) comp" where
  "PortableReader_readPortable io cls r fieldName =
     (case r of
        DefaultReader rd \<Rightarrow> getPortableInstance io cls rd fieldName
      | MorphingReader rd \<Rightarrow> getPortableInstance io cls rd fieldName)"

definition PortableReader_readPortableArray :: "portable_io \<Rightarrow> 't portable_class \<Rightarrow> 't any_reader \<Rightarrow> string \<Rightarrow>
    (data_input, 't list) comp" where
  "PortableReader_readPortableArray io cls r fieldName =
     (case r of
        DefaultReader rd \<Rightarrow> readPortableArray io cls rd fieldName
      | MorphingReader rd \<Rightarrow> morphing_readPortableArray io cls rd fieldName)"

section \<open>What the templates rely on\<close>

text \<open>An input positioned behind \<open>pre\<close> in a buffer of that beginning.\<close>

definition input_at :: "byte list \<Rightarrow> byte list \<Rightarrow> data_input" where
  "input_at pre post = \<lparr>di_buffer = pre @ post, di_pos = int (length pre)\<rparr>"

locale portable_stream =
  fixes io :: portable_io
    and int_bytes :: "int \<Rightarrow> byte list"
    and bool_bytes :: "bool \<Rightarrow> byte list"
  assumes int_size: "length (int_bytes i) = 4"
    and write_bool: "pio_writeBoolean io b bs = (Inr (), bs @ bool_bytes b)"
    and write_int: "int32_range i \<Longrightarrow> pio_writeInt io i bs = (Inr (), bs @ int_bytes i)"
    and write_int_at: "length old = 4 \<Longrightarrow> int32_range i \<Longrightarrow>
      pio_writeInt_at io (int (length pre)) i (pre @ old @ post) = (Inr (), pre @ int_bytes i @ post)"
    and position: "pio_position io bs = length bs"
    and set_position: "pio_setPosition io (length bs + n) bs = (Inr (), bs @ replicate n 0)"
    and read_bool: "pio_readBoolean io (input_at pre (bool_bytes b @ post)) =
      (Inr b, input_at (pre @ bool_bytes b) post)"
    and read_int: "int32_range i \<Longrightarrow>
      pio_readInt io (input_at pre (int_bytes i @ post)) = (Inr i, input_at (pre @ int_bytes i) post)"
    and in_position: "pio_inPosition io (input_at pre post) = int (length pre)"
    and set_in_position: "0 \<le> p \<Longrightarrow> p \<le> int (length (di_buffer inp)) \<Longrightarrow>
      pio_setInPosition io p inp = (Inr (), inp\<lparr>di_pos := p\<rparr>)"

text \<open>
  A portable class whose objects are written as \<open>enc\<close> says, which may depend on the position as the
  field table inside an object does, and read back from there.
\<close>

definition portable_object :: "'t portable_class \<Rightarrow> 't portable_writer \<Rightarrow> 't portable_reader \<Rightarrow>
    (nat \<Rightarrow> 't \<Rightarrow> byte list) \<Rightarrow> FieldDefinition \<Rightarrow> 't \<Rightarrow> bool" where
  "portable_object cls w rd enc fd x \<longleftrightarrow>
     pw_checkPortableAttributes w fd x = Inr () \<and>
     (\<forall>bs. pw_write w x bs = (Inr (), bs @ enc (length bs) x)) \<and>
     (\<forall>pre post. \<exists>p. PortableReaderBase_read cls rd (fd_factoryId fd) (fd_classId fd)
        (input_at pre (enc (length pre) x @ post)) =
        (Inr x, (input_at pre (enc (length pre) x @ post))\<lparr>di_pos := p\<rparr>))"

text \<open>
  A field that the writer enters in the field table at the output \<open>bs\<close>, leaving \<open>bs'\<close>: whatever
  follows, the reader finds it again behind \<open>bs'\<close>, from wherever it stands.
\<close>

definition portable_field :: "'t portable_writer \<Rightarrow> 't portable_reader \<Rightarrow> string \<Rightarrow> FieldType \<Rightarrow>
    FieldDefinition \<Rightarrow> byte list \<Rightarrow> byte list \<Rightarrow> bool" where
  "portable_field w rd fieldName ty fd bs bs' \<longleftrightarrow>
     int32_range (fd_factoryId fd) \<and> int32_range (fd_classId fd) \<and>
     pw_setPosition w fieldName ty bs = (Inr fd, bs') \<and>
     (\<forall>post p. pr_setPosition rd fieldName ty \<lparr>di_buffer = bs' @ post, di_pos = p\<rparr> =
        (Inr (), input_at bs' post)) \<and>
     pr_getField rd fieldName = Inr fd \<and>
     pr_checkFactoryAndClass rd fd (fd_factoryId fd) (fd_classId fd) = Inr ()"

section \<open>The bytes of an array\<close>

text \<open>The elements behind each other from position \<open>p\<close>, and where each begins.\<close>

fun element_bytes :: "(nat \<Rightarrow> 't \<Rightarrow> byte list) \<Rightarrow> nat \<Rightarrow> 't list \<Rightarrow> byte list" where
  "element_bytes enc p [] = []"
| "element_bytes enc p (x # xs) = enc p x @ element_bytes enc (p + length (enc p x)) xs"

fun element_starts :: "(nat \<Rightarrow> 't \<Rightarrow> byte list) \<Rightarrow> nat \<Rightarrow> 't list \<Rightarrow> nat list" where
  "element_starts enc p [] = []"
| "element_starts enc p (x # xs) = p # element_starts enc (p + length (enc p x)) xs"

lemma length_element_starts [simp]: "length (element_starts enc p xs) = length xs"
  by (induction xs arbitrary: p) simp_all

lemma table_bytes_small: "4 * n < 2 ^ 32 \<Longrightarrow> table_bytes (int n) = 4 * n"
  by (simp add: table_bytes_def nat_mult_distrib mult.commute)

definition array_bytes :: "(int \<Rightarrow> byte list) \<Rightarrow> (nat \<Rightarrow> 't \<Rightarrow> byte list) \<Rightarrow> FieldDefinition \<Rightarrow> byte list \<Rightarrow>
    't list \<Rightarrow> byte list" where
  "array_bytes ib enc fd bs xs =
     (let h = bs @ ib (int (length xs)) @ ib (fd_factoryId fd) @ ib (fd_classId fd);
          q = length h + 4 * length xs
      in h @ concat (map (\<lambda>a. ib (int a)) (element_starts enc q xs)) @ element_bytes enc q xs)"

context portable_stream
begin

lemma write_table_entry:
  assumes "length pre + 4 < 2 ^ 31" "length pre + 4 * Suc n + length body < 2 ^ 31" "length pre = offset + 4 * i"
  shows "pio_writeInt_at io (wrap32 (int (u64 (offset + table_bytes (int i)))))
      (wrap32 (int (pio_position io (pre @ replicate (4 * Suc n) 0 @ body))))
      (pre @ replicate (4 * Suc n) 0 @ body) =
    (Inr (), pre @ int_bytes (int (length pre + 4 * Suc n + length body)) @ replicate (4 * n) 0 @ body)"
proof -
  have z: "replicate (4 * Suc n) (0 :: byte) = replicate 4 0 @ replicate (4 * n) 0"
    by (simp add: replicate_add [symmetric])
  have a: "wrap32 (int (u64 (offset + table_bytes (int i)))) = int (length pre)"
    using assms by (simp add: table_bytes_small wrap32_id)
  have b: "wrap32 (int (pio_position io (pre @ replicate (4 * Suc n) 0 @ body))) =
      int (length pre + 4 * Suc n + length body)"
    using assms by (simp add: position wrap32_id)
  have c: "int32_range (int (length pre + 4 * Suc n + length body))"
    using assms by (intro int32_range_length)
  show ?thesis
    unfolding a b unfolding z
    using write_int_at [of "replicate 4 0", OF _ c, of pre "replicate (4 * n) 0 @ body"] by simp
qed

lemma write_portables_bytes:
  assumes "\<forall>x \<in> set xs. portable_object cls w rd enc fd x"
    and "length pre = offset + 4 * i"
    and "q = length pre + 4 * length xs + length body"
    and "q + length (element_bytes enc q xs) < 2 ^ 31"
  shows "write_portables io w fd offset i xs (pre @ replicate (4 * length xs) 0 @ body) =
    (Inr (), pre @ concat (map (\<lambda>a. int_bytes (int a)) (element_starts enc q xs)) @ body @ element_bytes enc q xs)"
  using assms
proof (induction xs arbitrary: pre body i q)
  case Nil
  then show ?case by (simp add: retM_def)
next
  case (Cons x xs)
  let ?body = "body @ enc q x"
  have obj: "pw_checkPortableAttributes w fd x = Inr ()"
      "\<And>bs. pw_write w x bs = (Inr (), bs @ enc (length bs) x)"
    using Cons.prems(1) by (auto simp: portable_object_def)
  have e: "pio_writeInt_at io (wrap32 (int (u64 (offset + table_bytes (int i)))))
      (wrap32 (int (pio_position io (pre @ replicate (4 * Suc (length xs)) 0 @ body))))
      (pre @ replicate (4 * Suc (length xs)) 0 @ body) =
    (Inr (), pre @ int_bytes (int q) @ replicate (4 * length xs) 0 @ body)"
    using write_table_entry [of pre "length xs" body offset i] Cons.prems by simp
  have IH: "write_portables io w fd offset (Suc i) xs ((pre @ int_bytes (int q)) @ replicate (4 * length xs) 0 @ ?body) =
     (Inr (), (pre @ int_bytes (int q)) @ concat (map (\<lambda>a. int_bytes (int a)) (element_starts enc (q + length (enc q x)) xs)) @
        ?body @ element_bytes enc (q + length (enc q x)) xs)"
    by (rule Cons.IH) (use Cons.prems in \<open>simp_all add: int_size\<close>)
  have l: "length (pre @ int_bytes (int q) @ replicate (4 * length xs) 0 @ body) = q"
    using Cons.prems(3) by (simp add: int_size)
  show ?case
    using e IH obj l by (simp add: bindM_def liftR_def Let_def)
qed

lemma read_portables_elements:
  assumes "\<forall>x \<in> set xs. portable_object cls w rd enc fd x"
    and "length pre = offset + 4 * i"
    and "q = length pre + 4 * length xs + length body"
    and "buf = pre @ concat (map (\<lambda>a. int_bytes (int a)) (element_starts enc q xs)) @ body @ element_bytes enc q xs @ post"
    and "q + length (element_bytes enc q xs) < 2 ^ 31"
  shows "\<exists>p'. read_portables io cls rd (fd_factoryId fd) (fd_classId fd) (int offset) i (length xs)
      \<lparr>di_buffer = buf, di_pos = p\<rparr> = (Inr xs, \<lparr>di_buffer = buf, di_pos = p'\<rparr>)"
  using assms
proof (induction xs arbitrary: pre body i q p)
  case Nil
  then show ?case by (simp add: retM_def)
next
  case (Cons x xs)
  let ?tab = "concat (map (\<lambda>a. int_bytes (int a)) (element_starts enc (q + length (enc q x)) xs))"
  let ?rest = "element_bytes enc (q + length (enc q x)) xs @ post"
  let ?start = "pre @ int_bytes (int q) @ ?tab @ body"
  have buf: "buf = pre @ int_bytes (int q) @ ?tab @ body @ enc q x @ ?rest"
    using Cons.prems(4) by simp
  have tab: "length ?tab = 4 * length xs"
    by (simp add: length_concat comp_def int_size sum_list_triv)
  have lq: "length ?start = q"
    using Cons.prems(3) tab by (simp add: int_size)
  have r: "int32_range (int q)"
    using Cons.prems(5) by (intro int32_range_length) simp
  have w: "wrap32 (int offset + int i * 4) = int (length pre)"
    using Cons.prems(2,3,5) by (simp add: wrap32_id)
  obtain p1 where obj: "PortableReaderBase_read cls rd (fd_factoryId fd) (fd_classId fd)
      (input_at ?start (enc q x @ ?rest)) = (Inr x, (input_at ?start (enc q x @ ?rest))\<lparr>di_pos := p1\<rparr>)"
    using Cons.prems(1) lq unfolding portable_object_def by (metis list.set_intros(1))
  obtain p2 where IH: "read_portables io cls rd (fd_factoryId fd) (fd_classId fd) (int offset) (Suc i) (length xs)
      \<lparr>di_buffer = buf, di_pos = p1\<rparr> = (Inr xs, \<lparr>di_buffer = buf, di_pos = p2\<rparr>)"
    using Cons.IH [of "pre @ int_bytes (int q)" "Suc i" "q + length (enc q x)" "body @ enc q x" p1] Cons.prems
    by (auto simp: int_size)
  have s1: "pio_setInPosition io (int (length pre)) \<lparr>di_buffer = buf, di_pos = p\<rparr> =
      (Inr (), input_at pre (int_bytes (int q) @ ?tab @ body @ enc q x @ ?rest))"
    by (simp add: set_in_position buf input_at_def)
  have s2: "pio_setInPosition io (int q) (input_at (pre @ int_bytes (int q)) (?tab @ body @ enc q x @ ?rest)) =
      (Inr (), input_at ?start (enc q x @ ?rest))"
    using lq by (simp add: set_in_position input_at_def)
  have b2: "(input_at ?start (enc q x @ ?rest))\<lparr>di_pos := p1\<rparr> = \<lparr>di_buffer = buf, di_pos = p1\<rparr>"
    by (simp add: input_at_def buf)
  show ?case
    using IH by (simp add: bindM_def w s1 read_int [OF r] s2 obj b2 retM_def)
qed

lemma writePortableArray_bytes:
  assumes "portable_field w rd fieldName TYPE_PORTABLE_ARRAY fd bs bs'"
    and "\<forall>x \<in> set xs. portable_object cls w rd enc fd x"
    and "length (array_bytes int_bytes enc fd bs' xs) < 2 ^ 31"
  shows "writePortableArray io w fieldName (Some xs) bs = (Inr (), array_bytes int_bytes enc fd bs' xs)"
proof -
  let ?h = "bs' @ int_bytes (int (length xs)) @ int_bytes (fd_factoryId fd) @ int_bytes (fd_classId fd)"
  let ?q = "length ?h + 4 * length xs"
  have tab: "length (concat (map (\<lambda>a. int_bytes (int a)) (element_starts enc ?q xs))) = 4 * length xs"
    by (simp add: length_concat comp_def int_size sum_list_triv)
  have bound: "?q + length (element_bytes enc ?q xs) < 2 ^ 31"
    using assms(3) tab by (simp add: array_bytes_def Let_def)
  then have n: "length xs < 2 ^ 31" "4 * length xs < 2 ^ 32" "?q < 2 ^ 64" "int32_range (int (length xs))"
    by simp_all
  have wr: "write_portables io w fd (length ?h) 0 xs (?h @ replicate (4 * length xs) 0) =
      (Inr (), array_bytes int_bytes enc fd bs' xs)"
    using write_portables_bytes [OF assms(2), of ?h "length ?h" 0 ?q "[]"] bound
    by (simp add: array_bytes_def Let_def)
  have setp: "pio_setPosition io (u64 (length ?h + table_bytes (int (length xs)))) ?h =
      (Inr (), ?h @ replicate (4 * length xs) 0)"
    using set_position [of ?h "4 * length xs"] n by (simp add: table_bytes_small)
  show ?thesis
  proof (cases xs)
    case Nil
    then show ?thesis
      using assms(1) n by (simp add: writePortableArray_def portable_field_def bindM_def Let_def write_int
          array_bytes_def)
  next
    case (Cons y ys)
    then have pos: "0 < int (length xs)" by simp
    have lh: "length ?h = 12 + length bs'"
      by (simp add: int_size)
    note setp' = setp [unfolded lh] and wr' = wr [unfolded lh, unfolded add.commute [of 12]]
    show ?thesis
      using assms(1) n pos wr' by (simp add: writePortableArray_def portable_field_def bindM_def Let_def write_int
          position int_size setp' [simplified])
  qed
qed

lemma readPortableArray_bytes:
  assumes "portable_field w rd fieldName TYPE_PORTABLE_ARRAY fd bs bs'"
    and "\<forall>x \<in> set xs. portable_object cls w rd enc fd x"
    and "length (array_bytes int_bytes enc fd bs' xs) < 2 ^ 31"
  shows "fst (readPortableArray io cls rd fieldName
      \<lparr>di_buffer = array_bytes int_bytes enc fd bs' xs @ post, di_pos = p\<rparr>) = Inr xs"
proof -
  let ?n = "int_bytes (int (length xs))"
  let ?f = "int_bytes (fd_factoryId fd)"
  let ?c = "int_bytes (fd_classId fd)"
  let ?h = "bs' @ ?n @ ?f @ ?c"
  let ?q = "length ?h + 4 * length xs"
  define tail where "tail = concat (map (\<lambda>a. int_bytes (int a)) (element_starts enc ?q xs)) @ element_bytes enc ?q xs @ post"
  let ?buf = "array_bytes int_bytes enc fd bs' xs @ post"
  have buf: "?buf = bs' @ ?n @ ?f @ ?c @ tail" "?buf = ?h @ tail"
    by (simp_all add: array_bytes_def Let_def tail_def)
  have tab: "length (concat (map (\<lambda>a. int_bytes (int a)) (element_starts enc ?q xs))) = 4 * length xs"
    by (simp add: length_concat comp_def int_size sum_list_triv)
  have bound: "?q + length (element_bytes enc ?q xs) < 2 ^ 31"
    using assms(3) tab by (simp add: array_bytes_def Let_def)
  then have n: "int32_range (int (length xs))"
    by (intro int32_range_length) simp
  have fd: "int32_range (fd_factoryId fd)" "int32_range (fd_classId fd)"
      "pr_getField rd fieldName = Inr fd"
      "pr_checkFactoryAndClass rd fd (fd_factoryId fd) (fd_classId fd) = Inr ()"
      "\<And>p. pr_setPosition rd fieldName TYPE_PORTABLE_ARRAY \<lparr>di_buffer = ?buf, di_pos = p\<rparr> =
         (Inr (), input_at bs' (?n @ ?f @ ?c @ tail))"
    using assms(1) unfolding portable_field_def buf(1) by auto
  have again: "pr_setPosition rd fieldName TYPE_PORTABLE_ARRAY (input_at (bs' @ ?n) (?f @ ?c @ tail)) =
      (Inr (), input_at bs' (?n @ ?f @ ?c @ tail))"
    using fd(5) [of "int (length (bs' @ ?n))"] by (simp add: input_at_def buf(1))
  have fin: "input_at (((bs' @ ?n) @ ?f) @ ?c) tail = \<lparr>di_buffer = ?buf, di_pos = int (length ?h)\<rparr>"
    by (simp add: input_at_def buf(1))
  have "\<exists>p'. read_portables io cls rd (fd_factoryId fd) (fd_classId fd) (int (length ?h)) 0 (length xs)
      \<lparr>di_buffer = ?buf, di_pos = int (length ?h)\<rparr> = (Inr xs, \<lparr>di_buffer = ?buf, di_pos = p'\<rparr>)"
    by (rule read_portables_elements [OF assms(2), where body = "[]" and post = post])
      (use bound in \<open>simp_all add: buf(2) tail_def\<close>)
  then have loop: "fst (read_portables io cls rd (fd_factoryId fd) (fd_classId fd)
      (pio_inPosition io (input_at (((bs' @ ?n) @ ?f) @ ?c) tail)) 0 (length xs)
      (input_at (((bs' @ ?n) @ ?f) @ ?c) tail)) = Inr xs"
    unfolding in_position unfolding fin by auto
  show ?thesis
    unfolding readPortableArray_def using loop
    by (auto simp: bindM_def fd again read_int [OF n] read_int [OF fd(1)] read_int [OF fd(2)] liftR_def
        simp del: append_assoc)
qed

lemma null_array_reads_empty:
  assumes "portable_field w rd fieldName TYPE_PORTABLE_ARRAY fd bs bs'"
  shows "\<exists>out. writePortableArray io w fieldName None bs = (Inr (), out) \<and>
    (\<forall>post p. fst (readPortableArray io cls rd fieldName \<lparr>di_buffer = out @ post, di_pos = p\<rparr>) = Inr [])"
proof -
  let ?n = "int_bytes NULL_ARRAY"
  let ?f = "int_bytes (fd_factoryId fd)"
  let ?c = "int_bytes (fd_classId fd)"
  have n: "int32_range NULL_ARRAY"
    by (simp add: int32_range_def NULL_ARRAY_def)
  have fd: "int32_range (fd_factoryId fd)" "int32_range (fd_classId fd)"
      "pr_getField rd fieldName = Inr fd" "pw_setPosition w fieldName TYPE_PORTABLE_ARRAY bs = (Inr fd, bs')"
      "pr_checkFactoryAndClass rd fd (fd_factoryId fd) (fd_classId fd) = Inr ()"
      "\<And>post p. pr_setPosition rd fieldName TYPE_PORTABLE_ARRAY \<lparr>di_buffer = bs' @ post, di_pos = p\<rparr> =
         (Inr (), input_at bs' post)"
    using assms unfolding portable_field_def by auto
  have again: "pr_setPosition rd fieldName TYPE_PORTABLE_ARRAY (input_at (bs' @ x) post) =
      (Inr (), input_at bs' (x @ post))" for x post
    by (simp add: input_at_def fd(6))
  have "writePortableArray io w fieldName None bs = (Inr (), bs' @ ?n @ ?f @ ?c)"
    using n fd by (simp add: writePortableArray_def bindM_def write_int Let_def NULL_ARRAY_def)
  moreover have "fst (readPortableArray io cls rd fieldName
      \<lparr>di_buffer = (bs' @ ?n @ ?f @ ?c) @ post, di_pos = p\<rparr>) = Inr []" for post p
    using read_int [OF n] read_int [OF fd(1)] read_int [OF fd(2)]
    by (simp add: readPortableArray_def bindM_def fd again liftR_def)
      (simp add: NULL_ARRAY_def)
  ultimately show ?thesis by blast
qed

lemma portable_reads_back:
  assumes "portable_field w rd fieldName TYPE_PORTABLE fd bs bs'"
    and "\<forall>x \<in> set_option portable. portable_object cls w rd enc fd x"
  shows "\<exists>out. writePortable io w fieldName portable bs = (Inr (), out) \<and>
    (\<forall>post p. fst (getPortableInstance io cls rd fieldName \<lparr>di_buffer = out @ post, di_pos = p\<rparr>) = Inr portable)"
proof -
  let ?b = "bool_bytes (portable = None)"
  let ?h = "((bs' @ ?b) @ int_bytes (fd_factoryId fd)) @ int_bytes (fd_classId fd)"
  have fd: "int32_range (fd_factoryId fd)" "int32_range (fd_classId fd)"
      "pr_getField rd fieldName = Inr fd" "pw_setPosition w fieldName TYPE_PORTABLE bs = (Inr fd, bs')"
      "pr_checkFactoryAndClass rd fd (fd_factoryId fd) (fd_classId fd) = Inr ()"
      "\<And>post p. pr_setPosition rd fieldName TYPE_PORTABLE \<lparr>di_buffer = bs' @ post, di_pos = p\<rparr> =
         (Inr (), input_at bs' post)"
    using assms unfolding portable_field_def by auto
  define rest where "rest = (case portable of None \<Rightarrow> [] | Some x \<Rightarrow> enc (length ?h) x)"
  have "writePortable io w fieldName portable bs = (Inr (), ?h @ rest)"
    using fd assms(2)
    by (auto simp: writePortable_def bindM_def write_int write_bool rest_def retM_def liftR_def portable_object_def
        split: option.split)
  moreover have "fst (getPortableInstance io cls rd fieldName \<lparr>di_buffer = (?h @ rest) @ post, di_pos = p\<rparr>) = Inr portable"
    for post p
  proof -
    have eq: "(?h @ rest) @ post = bs' @ ?b @ int_bytes (fd_factoryId fd) @ int_bytes (fd_classId fd) @ rest @ post"
      by simp
    have obj: "\<exists>p. PortableReaderBase_read cls rd (fd_factoryId fd) (fd_classId fd) (input_at ?h (rest @ post)) =
        (Inr x, (input_at ?h (rest @ post))\<lparr>di_pos := p\<rparr>)" if "portable = Some x" for x
    proof -
      have "portable_object cls w rd enc fd x"
        using assms(2) that by simp
      then have "\<exists>p. PortableReaderBase_read cls rd (fd_factoryId fd) (fd_classId fd)
          (input_at ?h (enc (length ?h) x @ post)) = (Inr x, (input_at ?h (enc (length ?h) x @ post))\<lparr>di_pos := p\<rparr>)"
        unfolding portable_object_def by blast
      then show ?thesis
        using that by (simp add: rest_def del: append_assoc length_append)
    qed
    show ?thesis
      unfolding getPortableInstance_def eq
      by (cases portable)
        (use obj in \<open>auto simp: bindM_def fd read_bool read_int [OF fd(1)] read_int [OF fd(2)] liftR_def retM_def
          simp del: append_assoc\<close>)
  qed
  ultimately show ?thesis by blast
qed

end

section \<open>The big-endian stream with positions\<close>

definition vec_writeInt_at :: "bool \<Rightarrow> int \<Rightarrow> int \<Rightarrow> (byte list, unit) comp" where
  "vec_writeInt_at be idx v bs =
     (if 0 \<le> idx \<and> nat idx + 4 \<le> length bs
      then (Inr (), take (nat idx) bs @ be_writeInt be v @ drop (nat idx + 4) bs)
      else (Inl OutOfBounds, bs))"

definition vec_readInt :: "bool \<Rightarrow> (data_input, int) comp" where
  "vec_readInt be inp =
     (case be_readInt be (drop (nat (di_pos inp)) (di_buffer inp)) of
        (Inl e, _) \<Rightarrow> (Inl e, inp)
      | (Inr v, _) \<Rightarrow> (Inr v, inp\<lparr>di_pos := di_pos inp + 4\<rparr>))"

definition vec_readBoolean :: "(data_input, bool) comp" where
  "vec_readBoolean inp =
     (case be_readByte (drop (nat (di_pos inp)) (di_buffer inp)) of
        (Inl e, _) \<Rightarrow> (Inl e, inp)
      | (Inr v, _) \<Rightarrow> (Inr (v \<noteq> 0), inp\<lparr>di_pos := di_pos inp + 1\<rparr>))"

definition vec_io :: "bool \<Rightarrow> portable_io" where
  "vec_io be =
     \<lparr>pio_writeBoolean = (\<lambda>b bs. (Inr (), bs @ [if b then 1 else 0])),
      pio_writeInt = (\<lambda>i bs. (Inr (), bs @ be_writeInt be i)),
      pio_writeInt_at = vec_writeInt_at be,
      pio_position = length,
      pio_setPosition = (\<lambda>n bs. (Inr (), take n bs @ replicate (n - length bs) 0)),
      pio_readBoolean = vec_readBoolean,
      pio_readInt = vec_readInt be,
      pio_inPosition = di_pos,
      pio_setInPosition = (\<lambda>p inp. (Inr (), inp\<lparr>di_pos := p\<rparr>))\<rparr>"

lemma be_writeInt_size [simp]: "length (be_writeInt be i) = 4"
  by (simp add: be_writeInt_def)

lemma vec_readInt_input_at:
  "int32_range i \<Longrightarrow> vec_readInt be (input_at pre (be_writeInt be i @ post)) =
     (Inr i, input_at (pre @ be_writeInt be i) post)"
  using reads_backD [OF be_int_reads_back, of i be post]
  by (simp add: vec_readInt_def input_at_def)

interpretation vec: portable_stream "vec_io be" "be_writeInt be" "\<lambda>b. [if b then 1 else 0]" for be
  by unfold_locales
    (simp_all add: vec_io_def vec_writeInt_at_def vec_readInt_input_at [unfolded input_at_def, simplified] vec_readBoolean_def be_readByte_def input_at_def)

section \<open>Properties\<close>

text \<open>Claim C36: Over a stream that keeps what is written, a portable array that the default writer writes
  is read back by either reader, wherever the reader stands and whatever follows: the same elements in
  the same order, also when each element's bytes depend on where it starts. A null array is read back as
  an empty one. The size of the output bounds the array, since the table holds 32-bit positions.\<close>

theorem portable_array_roundtrip:
  fixes vals :: "'t list option" and s :: "'b writer_state" and ce :: "('b, 't, 'cd) any_writer"
  assumes "portable_stream io ib bb"
    and "portable_field w rd fieldName TYPE_PORTABLE_ARRAY fd (ws_output s) bs'"
    and "\<forall>xs \<in> set_option vals. \<forall>x \<in> set xs. portable_object cls w rd enc fd x"
    and "\<forall>xs \<in> set_option vals. length (array_bytes ib enc fd bs' xs) < 2 ^ 31"
    and "ce = DefaultWriter w"
    and "r = DefaultReader rd \<or> r = MorphingReader rd"
  shows "\<exists>out. PortableWriter_writePortableArray io ce fieldName vals s = (Inr (), s\<lparr>ws_output := out\<rparr>) \<and>
    (\<forall>post p. fst (PortableReader_readPortableArray io cls r fieldName \<lparr>di_buffer = out @ post, di_pos = p\<rparr>) =
       Inr (case vals of None \<Rightarrow> [] | Some xs \<Rightarrow> xs))"
proof -
  have "\<exists>out. writePortableArray io w fieldName vals (ws_output s) = (Inr (), out) \<and>
    (\<forall>post p. fst (readPortableArray io cls rd fieldName \<lparr>di_buffer = out @ post, di_pos = p\<rparr>) =
       Inr (case vals of None \<Rightarrow> [] | Some xs \<Rightarrow> xs))"
    using portable_stream.null_array_reads_empty [OF assms(1,2)]
      portable_stream.writePortableArray_bytes [OF assms(1,2)]
      portable_stream.readPortableArray_bytes [OF assms(1,2)] assms(3,4)
    by (cases vals) auto
  then show ?thesis
    using assms(5,6)
    by (auto simp: PortableWriter_writePortableArray_def PortableReader_readPortableArray_def on_output_def
        morphing_readPortableArray_def)
qed

text \<open>
  The first pass refuses a null and an empty array and collects nothing, although the second would
  write both: an object with an empty array of a class that is not registered cannot be serialized.
\<close>

lemma definition_writer_refuses_empty:
  "vals = None \<or> vals = Some [] \<Longrightarrow>
   PortableWriter_writePortableArray io (DefinitionWriter ce) fieldName vals s = (Inl HazelcastSerializationException, s)"
  by (auto simp: PortableWriter_writePortableArray_def cd_writePortableArray_def on_builder_def throwM_def)

lemma portable_roundtrip:
  assumes "portable_stream io ib bb" "portable_field w rd fieldName TYPE_PORTABLE fd bs bs'"
    and "\<forall>x \<in> set_option portable. portable_object cls w rd enc fd x"
  shows "\<exists>out. writePortable io w fieldName portable bs = (Inr (), out) \<and>
    (\<forall>post p. fst (getPortableInstance io cls rd fieldName \<lparr>di_buffer = out @ post, di_pos = p\<rparr>) = Inr portable)"
  using portable_stream.portable_reads_back [OF assms] .

definition int_writer :: "int portable_writer" where
  "int_writer =
     \<lparr>pw_setPosition = (\<lambda>_ _ bs. (Inr \<lparr>fd_factoryId = 1, fd_classId = 2\<rparr>, bs)),
      pw_checkPortableAttributes = (\<lambda>_ _. Inr ()),
      pw_write = (\<lambda>x bs. (Inr (), bs @ be_writeInt False x))\<rparr>"

definition int_reader :: "int portable_reader" where
  "int_reader =
     \<lparr>pr_setPosition = (\<lambda>_ _ inp. (Inr (), inp\<lparr>di_pos := 0\<rparr>)),
      pr_getField = (\<lambda>_. Inr \<lparr>fd_factoryId = 1, fd_classId = 2\<rparr>),
      pr_checkFactoryAndClass = (\<lambda>_ _ _. Inr ()),
      pr_createNewPortableInstance = (\<lambda>_ _. None),
      pr_read = (\<lambda>_ _ _. vec_readInt False)\<rparr>"

definition int_class :: "int portable_class" where
  "int_class = \<lparr>pc_new = 0, pc_getFactoryId = (\<lambda>_. 1), pc_getClassId = (\<lambda>_. 2)\<rparr>"

lemma int_portable_object:
  "int32_range x \<Longrightarrow> portable_object int_class int_writer int_reader (\<lambda>_. be_writeInt False) fd x"
  by (simp add: portable_object_def int_writer_def int_reader_def PortableReaderBase_read_def vec_readInt_input_at)
    (simp add: input_at_def)

lemma int_portable_field:
  "portable_field int_writer int_reader f ty \<lparr>fd_factoryId = 1, fd_classId = 2\<rparr> [] []"
  by (simp add: portable_field_def int_writer_def int_reader_def input_at_def int32_range_def)

theorem portable_array_roundtrip_witness:
  "\<exists>out. PortableWriter_writePortableArray (vec_io False) (DefaultWriter int_writer :: (unit, int, unit) any_writer)
      ''xs'' (Some [5, 7]) \<lparr>ws_output = [], ws_builder = ()\<rparr> = (Inr (), \<lparr>ws_output = out, ws_builder = ()\<rparr>) \<and>
    fst (PortableReader_readPortableArray (vec_io False) int_class (MorphingReader int_reader) ''xs''
      \<lparr>di_buffer = out @ [1, 2, 3], di_pos = 0\<rparr>) = Inr [5, 7]"
  using portable_array_roundtrip [where vals = "Some [5, 7]" and s = "\<lparr>ws_output = [], ws_builder = ()\<rparr>"
        and enc = "\<lambda>_. be_writeInt False" and ce = "DefaultWriter int_writer :: (unit, int, unit) any_writer"
        and r = "MorphingReader int_reader" and bs' = "[]" and fieldName = "''xs''" and cls = int_class,
      OF vec.portable_stream_axioms [of False], of int_writer int_reader "\<lparr>fd_factoryId = 1, fd_classId = 2\<rparr>"]
  by (fastforce simp: int_portable_field int_portable_object int32_range_def array_bytes_def Let_def)

end
