(* ===== verification/Predicates.thy ===== *)
theory Predicates
  imports Paging Http_Store
begin

text \<open>
  What a query sends: the predicates of \<open>client/query/\<close> that compare an attribute (\<open>EqualPredicate.h\<close>,
  \<open>NotEqualPredicate.h\<close>, \<open>GreaterLessPredicate.h\<close>, \<open>BetweenPredicate.h\<close>, \<open>InPredicate.h\<close>) and the
  serialization of \<open>PagingPredicate\<close>. The bytes of strings, integers and objects come from the output
  stream, which has no body in the sources; \<open>query_stream\<close> asks that they delimit themselves. Then
  the bytes of a predicate tell it apart from every other one of its class.
\<close>

section \<open>The predicates\<close>

record query_out =
  qo_writeUTF :: "string \<Rightarrow> byte list"
  qo_writeBoolean :: "bool \<Rightarrow> byte list"
  qo_writeInt :: "int \<Rightarrow> byte list"

text \<open>\<open>PredicateDataSerializerHook\<close>.\<close>

definition predicates_F_ID :: int where
  "predicates_F_ID = - 32"

datatype predicate_class =
    SQL_PREDICATE | AND_PREDICATE | BETWEEN_PREDICATE | EQUAL_PREDICATE | GREATERLESS_PREDICATE | LIKE_PREDICATE
  | ILIKE_PREDICATE | IN_PREDICATE | INSTANCEOF_PREDICATE | NOTEQUAL_PREDICATE | NOT_PREDICATE | OR_PREDICATE
  | REGEX_PREDICATE | FALSE_PREDICATE | TRUE_PREDICATE | PAGING_PREDICATE

fun class_value :: "predicate_class \<Rightarrow> int" where
  "class_value SQL_PREDICATE = 0"
| "class_value AND_PREDICATE = 1"
| "class_value BETWEEN_PREDICATE = 2"
| "class_value EQUAL_PREDICATE = 3"
| "class_value GREATERLESS_PREDICATE = 4"
| "class_value LIKE_PREDICATE = 5"
| "class_value ILIKE_PREDICATE = 6"
| "class_value IN_PREDICATE = 7"
| "class_value INSTANCEOF_PREDICATE = 8"
| "class_value NOTEQUAL_PREDICATE = 9"
| "class_value NOT_PREDICATE = 10"
| "class_value OR_PREDICATE = 11"
| "class_value REGEX_PREDICATE = 12"
| "class_value FALSE_PREDICATE = 13"
| "class_value TRUE_PREDICATE = 14"
| "class_value PAGING_PREDICATE = 15"

record 't EqualPredicate =
  eq_attrName :: string
  eq_attrValue :: 't

record 't NotEqualPredicate =
  ne_attrName :: string
  ne_attrValue :: 't

record 't GreaterLessPredicate =
  gl_attrName :: string
  gl_attrValue :: 't
  gl_equal :: bool
  gl_less :: bool

record 't BetweenPredicate =
  bt_attrName :: string
  bt_begin :: 't
  bt_end :: 't

record 't InPredicate =
  in_attrName :: string
  in_inValues :: "'t list"

definition InPredicate_add :: "'t \<Rightarrow> 't InPredicate \<Rightarrow> 't InPredicate" where
  "InPredicate_add v p = p\<lparr>in_inValues := in_inValues p @ [v]\<rparr>"

text \<open>\<open>wObj\<close> is \<open>writeObject<T>\<close> on a value of the predicate.\<close>

definition Equal_writeData :: "query_out \<Rightarrow> ('t \<Rightarrow> byte list res) \<Rightarrow> 't EqualPredicate \<Rightarrow> byte list res" where
  "Equal_writeData out wObj p = bindR (wObj (eq_attrValue p)) (\<lambda>v. Inr (qo_writeUTF out (eq_attrName p) @ v))"

definition NotEqual_writeData :: "query_out \<Rightarrow> ('t \<Rightarrow> byte list res) \<Rightarrow> 't NotEqualPredicate \<Rightarrow> byte list res" where
  "NotEqual_writeData out wObj p = bindR (wObj (ne_attrValue p)) (\<lambda>v. Inr (qo_writeUTF out (ne_attrName p) @ v))"

definition GreaterLess_writeData :: "query_out \<Rightarrow> ('t \<Rightarrow> byte list res) \<Rightarrow> 't GreaterLessPredicate \<Rightarrow> byte list res" where
  "GreaterLess_writeData out wObj p =
     bindR (wObj (gl_attrValue p)) (\<lambda>v.
       Inr (qo_writeUTF out (gl_attrName p) @ v @ qo_writeBoolean out (gl_equal p) @ qo_writeBoolean out (gl_less p)))"

text \<open>The end is written before the beginning.\<close>

definition Between_writeData :: "query_out \<Rightarrow> ('t \<Rightarrow> byte list res) \<Rightarrow> 't BetweenPredicate \<Rightarrow> byte list res" where
  "Between_writeData out wObj p =
     bindR (wObj (bt_end p)) (\<lambda>e. bindR (wObj (bt_begin p)) (\<lambda>b. Inr (qo_writeUTF out (bt_attrName p) @ e @ b)))"

fun write_objects :: "('t \<Rightarrow> byte list res) \<Rightarrow> 't list \<Rightarrow> byte list res" where
  "write_objects w [] = Inr []"
| "write_objects w (x # xs) = bindR (w x) (\<lambda>b. bindR (write_objects w xs) (\<lambda>bs. Inr (b @ bs)))"

definition In_writeData :: "query_out \<Rightarrow> ('t \<Rightarrow> byte list res) \<Rightarrow> 't InPredicate \<Rightarrow> byte list res" where
  "In_writeData out wObj p =
     (let len = wrap32 (int (length (in_inValues p))) in
      bindR (write_objects wObj (take (nat len) (in_inValues p))) (\<lambda>vs.
        Inr (qo_writeUTF out (in_attrName p) @ qo_writeInt out len @ vs)))"

text \<open>A client only writes predicates: \<open>readData\<close> of every class throws.\<close>

definition predicate_readData :: "'t reader" where
  "predicate_readData = throwM HazelcastSerializationException"

datatype 't attr_predicate =
    Equal_p "'t EqualPredicate" | NotEqual_p "'t NotEqualPredicate" | GreaterLess_p "'t GreaterLessPredicate"
  | Between_p "'t BetweenPredicate" | In_p "'t InPredicate"

fun predicate_getClassId :: "'t attr_predicate \<Rightarrow> predicate_class" where
  "predicate_getClassId (Equal_p _) = EQUAL_PREDICATE"
| "predicate_getClassId (NotEqual_p _) = NOTEQUAL_PREDICATE"
| "predicate_getClassId (GreaterLess_p _) = GREATERLESS_PREDICATE"
| "predicate_getClassId (Between_p _) = BETWEEN_PREDICATE"
| "predicate_getClassId (In_p _) = IN_PREDICATE"

fun predicate_writeData :: "query_out \<Rightarrow> ('t \<Rightarrow> byte list res) \<Rightarrow> 't attr_predicate \<Rightarrow> byte list res" where
  "predicate_writeData out wObj (Equal_p p) = Equal_writeData out wObj p"
| "predicate_writeData out wObj (NotEqual_p p) = NotEqual_writeData out wObj p"
| "predicate_writeData out wObj (GreaterLess_p p) = GreaterLess_writeData out wObj p"
| "predicate_writeData out wObj (Between_p p) = Between_writeData out wObj p"
| "predicate_writeData out wObj (In_p p) = In_writeData out wObj p"

section \<open>PagingPredicate\<close>

fun IterationNames :: "IterationType \<Rightarrow> string" where
  "IterationNames KEY = ''KEY''"
| "IterationNames VALUE = ''VALUE''"
| "IterationNames ENTRY = ''ENTRY''"

definition anchor_bytes :: "query_out \<Rightarrow> ('k option \<Rightarrow> byte list res) \<Rightarrow> ('v option \<Rightarrow> byte list res) \<Rightarrow> nat \<times> 'k option \<times> 'v option \<Rightarrow>
    byte list res" where
  "anchor_bytes out wKey wValue = (\<lambda>(n, k, v).
     bindR (wKey k) (\<lambda>kb. bindR (wValue v) (\<lambda>vb. Inr (qo_writeInt out (wrap32 (int n)) @ kb @ vb))))"

definition Paging_writeData :: "query_out \<Rightarrow> ('q option \<Rightarrow> byte list res) \<Rightarrow> ('cmp option \<Rightarrow> byte list res) \<Rightarrow> ('k option \<Rightarrow> byte list res) \<Rightarrow>
    ('v option \<Rightarrow> byte list res) \<Rightarrow> ('k, 'v, 'q, 'cmp) PagingPredicate \<Rightarrow> byte list res" where
  "Paging_writeData out wPredicate wComparator wKey wValue p =
     bindR (wPredicate (innerPredicate p)) (\<lambda>q.
     bindR (wComparator (pp_comparator p)) (\<lambda>c.
     bindR (write_objects (anchor_bytes out wKey wValue) (anchorList p)) (\<lambda>as.
       Inr (q @ c @ qo_writeInt out (wrap32 (int (page p))) @ qo_writeInt out (wrap32 (int (pageSize p)))
         @ qo_writeUTF out (IterationNames (iterationType p)) @ qo_writeInt out (wrap32 (int (length (anchorList p)))) @ as))))"

section \<open>Bytes that delimit themselves\<close>

text \<open>What was written, and where it ends, can be told from the bytes, whatever follows.\<close>

definition delimited :: "('a \<Rightarrow> byte list res) \<Rightarrow> 'a set \<Rightarrow> bool" where
  "delimited w A \<longleftrightarrow> (\<forall>x \<in> A. \<forall>y \<in> A. \<forall>b c r r'. w x = Inr b \<longrightarrow> w y = Inr c \<longrightarrow> b @ r = c @ r' \<longrightarrow> x = y \<and> r = r')"

lemma delimitedD: "delimited w A \<Longrightarrow> x \<in> A \<Longrightarrow> y \<in> A \<Longrightarrow> w x = Inr b \<Longrightarrow> w y = Inr c \<Longrightarrow> b @ r = c @ r' \<Longrightarrow> x = y \<and> r = r'"
  unfolding delimited_def by blast

lemma delimited_reads_back:
  assumes "\<And>x. x \<in> A \<Longrightarrow> reads_back wr rd x"
  shows "delimited (\<lambda>x. Inr (wr x)) A"
  unfolding delimited_def
proof (intro ballI allI impI)
  fix x y b c r r'
  assume "x \<in> A" "y \<in> A" "Inr (wr x) = Inr b" "Inr (wr y) = Inr c" "b @ r = c @ r'"
  then have "rd (wr x @ r) = rd (wr y @ r')" by simp
  then show "x = y \<and> r = r'"
    using reads_backD [OF assms [OF \<open>x \<in> A\<close>]] reads_backD [OF assms [OF \<open>y \<in> A\<close>]] by simp
qed

lemma bindR_assoc: "bindR (bindR r f) g = bindR r (\<lambda>x. bindR (f x) g)"
  by (cases r) simp_all

text \<open>One thing after another.\<close>

definition seq_write :: "('a \<Rightarrow> byte list res) \<Rightarrow> ('b \<Rightarrow> byte list res) \<Rightarrow> 'a \<times> 'b \<Rightarrow> byte list res" where
  "seq_write f g = (\<lambda>(x, y). bindR (f x) (\<lambda>b. bindR (g y) (\<lambda>c. Inr (b @ c))))"

lemma delimited_seq:
  assumes "delimited f A" "delimited g B"
  shows "delimited (seq_write f g) (A \<times> B)"
  unfolding delimited_def
proof (intro ballI allI impI)
  fix p q b c r r'
  assume "p \<in> A \<times> B" "q \<in> A \<times> B" and w: "seq_write f g p = Inr b" "seq_write f g q = Inr c" and e: "b @ r = c @ r'"
  then obtain x y x' y' where p: "p = (x, y)" "q = (x', y')" and mem: "x \<in> A" "x' \<in> A" "y \<in> B" "y' \<in> B" by auto
  from w(1) obtain b1 b2 where b: "f x = Inr b1" "g y = Inr b2" "b = b1 @ b2" by (auto simp: seq_write_def p elim!: bindR_InrE)
  from w(2) obtain c1 c2 where c: "f x' = Inr c1" "g y' = Inr c2" "c = c1 @ c2" by (auto simp: seq_write_def p elim!: bindR_InrE)
  have "b1 @ (b2 @ r) = c1 @ (c2 @ r')" using e b(3) c(3) by simp
  from delimitedD [OF assms(1) mem(1,2) b(1) c(1) this] have 1: "x = x'" "b2 @ r = c2 @ r'" by auto
  from delimitedD [OF assms(2) mem(3,4) b(2) c(2) 1(2)] show "p = q \<and> r = r'" using 1(1) p by simp
qed

text \<open>Through the fields of a record.\<close>

lemma delimited_fields:
  assumes "delimited w B" "\<And>x. x \<in> A \<Longrightarrow> h x \<in> B" "inj_on h A" "\<And>x. x \<in> A \<Longrightarrow> w' x = w (h x)"
  shows "delimited w' A"
  unfolding delimited_def
proof (intro ballI allI impI)
  fix x y b c r r'
  assume m: "x \<in> A" "y \<in> A" and w: "w' x = Inr b" "w' y = Inr c" "b @ r = c @ r'"
  from delimitedD [OF assms(1) assms(2) [OF m(1)] assms(2) [OF m(2)] _ _ w(3)] have "h x = h y \<and> r = r'"
    using w(1,2) m assms(4) by simp
  then show "x = y \<and> r = r'" using inj_onD [OF assms(3)] m by blast
qed

lemma write_objects_delimited:
  assumes "delimited w A"
  shows "length xs = length ys \<Longrightarrow> set xs \<subseteq> A \<Longrightarrow> set ys \<subseteq> A \<Longrightarrow> write_objects w xs = Inr b \<Longrightarrow> write_objects w ys = Inr c \<Longrightarrow>
    b @ r = c @ r' \<Longrightarrow> xs = ys \<and> r = r'"
proof (induction xs ys arbitrary: b c rule: list_induct2)
  case (Cons x xs y ys)
  from Cons.prems(3) obtain b1 b2 where b: "w x = Inr b1" "write_objects w xs = Inr b2" "b = b1 @ b2" by (auto elim!: bindR_InrE)
  from Cons.prems(4) obtain c1 c2 where c: "w y = Inr c1" "write_objects w ys = Inr c2" "c = c1 @ c2" by (auto elim!: bindR_InrE)
  have "b1 @ (b2 @ r) = c1 @ (c2 @ r')" using Cons.prems(5) b(3) c(3) by simp
  from delimitedD [OF assms _ _ b(1) c(1) this] have 1: "x = y" "b2 @ r = c2 @ r'" using Cons.prems(1,2) by auto
  from Cons.IH [OF _ _ b(2) c(2) 1(2)] Cons.prems(1,2) 1(1) show ?case by auto
qed simp

text \<open>A list behind its length.\<close>

definition list_write :: "(int \<Rightarrow> byte list) \<Rightarrow> ('a \<Rightarrow> byte list res) \<Rightarrow> 'a list \<Rightarrow> byte list res" where
  "list_write wInt w xs = bindR (write_objects w xs) (\<lambda>bs. Inr (wInt (int (length xs)) @ bs))"

lemma delimited_list:
  assumes "delimited (\<lambda>i. Inr (wInt i)) {i. int32_range i}" "delimited w A"
  shows "delimited (list_write wInt w) {xs. set xs \<subseteq> A \<and> length xs < 2 ^ 31}"
  unfolding delimited_def
proof (intro ballI allI impI)
  fix xs ys b c r r'
  assume m: "xs \<in> {xs. set xs \<subseteq> A \<and> length xs < 2 ^ 31}" "ys \<in> {xs. set xs \<subseteq> A \<and> length xs < 2 ^ 31}"
    and w: "list_write wInt w xs = Inr b" "list_write wInt w ys = Inr c" and e: "b @ r = c @ r'"
  from w(1) obtain bs where b: "write_objects w xs = Inr bs" "b = wInt (int (length xs)) @ bs" by (auto simp: list_write_def elim!: bindR_InrE)
  from w(2) obtain cs where c: "write_objects w ys = Inr cs" "c = wInt (int (length ys)) @ cs" by (auto simp: list_write_def elim!: bindR_InrE)
  have "wInt (int (length xs)) @ (bs @ r) = wInt (int (length ys)) @ (cs @ r')" using e b(2) c(2) by simp
  from delimitedD [OF assms(1) _ _ refl refl this] m have 1: "length xs = length ys" "bs @ r = cs @ r'" by auto
  from write_objects_delimited [OF assms(2) 1(1) _ _ b(1) c(1) 1(2)] m show "xs = ys \<and> r = r'" by auto
qed

section \<open>The bytes of a predicate\<close>

definition name_ok :: "string \<Rightarrow> bool" where
  "name_ok s \<longleftrightarrow> length s < 2 ^ 31"

fun predicate_ok :: "'t set \<Rightarrow> 't attr_predicate \<Rightarrow> bool" where
  "predicate_ok A (Equal_p p) \<longleftrightarrow> name_ok (eq_attrName p) \<and> eq_attrValue p \<in> A"
| "predicate_ok A (NotEqual_p p) \<longleftrightarrow> name_ok (ne_attrName p) \<and> ne_attrValue p \<in> A"
| "predicate_ok A (GreaterLess_p p) \<longleftrightarrow> name_ok (gl_attrName p) \<and> gl_attrValue p \<in> A"
| "predicate_ok A (Between_p p) \<longleftrightarrow> name_ok (bt_attrName p) \<and> bt_begin p \<in> A \<and> bt_end p \<in> A"
| "predicate_ok A (In_p p) \<longleftrightarrow> name_ok (in_attrName p) \<and> set (in_inValues p) \<subseteq> A \<and> length (in_inValues p) < 2 ^ 31"

definition paging_ok :: "'q option set \<Rightarrow> 'cmp option set \<Rightarrow> 'k option set \<Rightarrow> 'v option set \<Rightarrow> ('k, 'v, 'q, 'cmp) PagingPredicate \<Rightarrow> bool" where
  "paging_ok Q C K V p \<longleftrightarrow> innerPredicate p \<in> Q \<and> pp_comparator p \<in> C \<and> page p < 2 ^ 31 \<and> pageSize p < 2 ^ 31
     \<and> set (anchorList p) \<subseteq> {n. n < 2 ^ 31} \<times> K \<times> V \<and> length (anchorList p) < 2 ^ 31"

locale query_stream =
  fixes out :: query_out
  assumes utf_law: "delimited (\<lambda>s. Inr (qo_writeUTF out s)) (Collect name_ok)"
    and boolean_law: "delimited (\<lambda>b. Inr (qo_writeBoolean out b)) UNIV"
    and int_law: "delimited (\<lambda>i. Inr (qo_writeInt out i)) (Collect int32_range)"
begin

lemmas laws = utf_law boolean_law int_law

lemma Equal_delimited:
  "delimited w A \<Longrightarrow> delimited (Equal_writeData out w) {p. name_ok (eq_attrName p) \<and> eq_attrValue p \<in> A}"
  by (rule delimited_fields [where h = "\<lambda>p. (eq_attrName p, eq_attrValue p)", OF delimited_seq [OF utf_law]])
    (auto simp: Equal_writeData_def seq_write_def inj_on_def)

lemma NotEqual_delimited:
  "delimited w A \<Longrightarrow> delimited (NotEqual_writeData out w) {p. name_ok (ne_attrName p) \<and> ne_attrValue p \<in> A}"
  by (rule delimited_fields [where h = "\<lambda>p. (ne_attrName p, ne_attrValue p)", OF delimited_seq [OF utf_law]])
    (auto simp: NotEqual_writeData_def seq_write_def inj_on_def)

lemma GreaterLess_delimited:
  "delimited w A \<Longrightarrow> delimited (GreaterLess_writeData out w) {p. name_ok (gl_attrName p) \<and> gl_attrValue p \<in> A}"
  by (rule delimited_fields [where h = "\<lambda>p. (gl_attrName p, gl_attrValue p, gl_equal p, gl_less p)",
        OF delimited_seq [OF utf_law delimited_seq [OF _ delimited_seq [OF boolean_law boolean_law]]]])
    (auto simp: GreaterLess_writeData_def seq_write_def inj_on_def bindR_assoc)

lemma Between_delimited:
  "delimited w A \<Longrightarrow> delimited (Between_writeData out w) {p. name_ok (bt_attrName p) \<and> bt_begin p \<in> A \<and> bt_end p \<in> A}"
  by (rule delimited_fields [where h = "\<lambda>p. (bt_attrName p, bt_end p, bt_begin p)",
        OF delimited_seq [OF utf_law delimited_seq]])
    (auto simp: Between_writeData_def seq_write_def inj_on_def bindR_assoc)

lemma In_delimited:
  "delimited w A \<Longrightarrow> delimited (In_writeData out w)
     {p. name_ok (in_attrName p) \<and> set (in_inValues p) \<subseteq> A \<and> length (in_inValues p) < 2 ^ 31}"
  by (rule delimited_fields [where h = "\<lambda>p. (in_attrName p, in_inValues p)",
        OF delimited_seq [OF utf_law delimited_list [OF int_law]]])
    (auto simp: In_writeData_def list_write_def seq_write_def inj_on_def Let_def bindR_assoc)

lemma attr_predicate_bytes:
  assumes "delimited w A" "predicate_ok A p" "predicate_ok A q" "predicate_getClassId p = predicate_getClassId q"
    "predicate_writeData out w p = Inr b" "predicate_writeData out w q = Inr c" "b @ r = c @ r'"
  shows "p = q \<and> r = r'"
  using assms(2-6) delimitedD [OF Equal_delimited [OF assms(1)] _ _ _ _ assms(7)]
    delimitedD [OF NotEqual_delimited [OF assms(1)] _ _ _ _ assms(7)]
    delimitedD [OF GreaterLess_delimited [OF assms(1)] _ _ _ _ assms(7)]
    delimitedD [OF Between_delimited [OF assms(1)] _ _ _ _ assms(7)]
    delimitedD [OF In_delimited [OF assms(1)] _ _ _ _ assms(7)]
  by (cases p; cases q) auto

lemma index_law: "delimited (\<lambda>n. Inr (qo_writeInt out (wrap32 (int n)))) {n. n < 2 ^ 31}"
  by (rule delimited_fields [OF int_law, where h = int]) (auto simp: inj_on_def)

lemma IterationNames_law: "delimited (\<lambda>t. Inr (qo_writeUTF out (IterationNames t))) UNIV"
proof (rule delimited_fields [OF utf_law, where h = IterationNames])
  show "IterationNames t \<in> Collect name_ok" for t by (cases t) (simp_all add: name_ok_def)
  show "inj_on IterationNames UNIV"
  proof (rule injI)
    fix x y show "IterationNames x = IterationNames y \<Longrightarrow> x = y" by (cases x; cases y) simp_all
  qed
qed simp

lemma anchor_delimited:
  "delimited wKey K \<Longrightarrow> delimited wValue V \<Longrightarrow> delimited (anchor_bytes out wKey wValue) ({n. n < 2 ^ 31} \<times> K \<times> V)"
  by (rule delimited_fields [where h = "\<lambda>x. x", OF delimited_seq [OF index_law delimited_seq]])
    (auto simp: anchor_bytes_def seq_write_def bindR_assoc)

lemma Paging_delimited:
  assumes "delimited wPredicate Q" "delimited wComparator C" "delimited wKey K" "delimited wValue V"
  shows "delimited (Paging_writeData out wPredicate wComparator wKey wValue)
    (Collect (paging_ok Q C K V))"
  by (rule delimited_fields [where h = "\<lambda>p. (innerPredicate p, pp_comparator p, page p, pageSize p, iterationType p, anchorList p)",
        OF delimited_seq [OF assms(1) delimited_seq [OF assms(2) delimited_seq [OF index_law delimited_seq [OF index_law
          delimited_seq [OF IterationNames_law delimited_list [OF int_law anchor_delimited [OF assms(3,4)]]]]]]]])
    (auto simp: paging_ok_def Paging_writeData_def seq_write_def list_write_def inj_on_def bindR_assoc)

end

section \<open>The stream in network order\<close>

text \<open>Strings behind their number of bytes, integers through \<open>Bits.h\<close>.\<close>

definition be_writeUTF :: "bool \<Rightarrow> string \<Rightarrow> byte list" where
  "be_writeUTF be s = writeArray (be_writeInt be) (\<lambda>b. [b]) (Some (string_data s))"

definition be_query_out :: "bool \<Rightarrow> query_out" where
  "be_query_out be = \<lparr>qo_writeUTF = be_writeUTF be, qo_writeBoolean = (\<lambda>b. [if b then 1 else 0]), qo_writeInt = be_writeInt be\<rparr>"

lemma be_int_delimited: "delimited (\<lambda>i. Inr (be_writeInt be i)) (Collect int32_range)"
  by (rule delimited_reads_back [where rd = "be_readInt be"]) (simp add: be_int_reads_back)

lemma length_string_data: "length (string_data s) = length s"
  by (simp add: string_data_def)

interpretation net: query_stream "be_query_out be" for be
proof
  show "delimited (\<lambda>s. Inr (qo_writeUTF (be_query_out be) s)) (Collect name_ok)"
  proof (rule delimited_fields [where h = "\<lambda>s. Some (string_data s)"])
    show "delimited (\<lambda>x. Inr (writeArray (be_writeInt be) (\<lambda>b. [b]) x)) (Some ` {xs. length xs < 2 ^ 31})"
      by (rule delimited_reads_back [where rd = "readArray (be_readInt be) be_readByte"])
        (auto intro!: readArray_writeArray be_int_reads_back be_byte_reads_back)
  qed (auto simp: name_ok_def be_query_out_def be_writeUTF_def inj_on_def length_string_data
      dest: injD [OF string_data_inj])
  show "delimited (\<lambda>b. Inr (qo_writeBoolean (be_query_out be) b)) UNIV"
    by (simp add: delimited_def be_query_out_def)
  show "delimited (\<lambda>i. Inr (qo_writeInt (be_query_out be) i)) (Collect int32_range)"
    using be_int_delimited by (simp add: be_query_out_def)
qed


text \<open>Over the network-order stream: greater-or-equal and strictly-less, and the first and the second page, are sent apart.\<close>

definition at_least :: "int attr_predicate" where
  "at_least = GreaterLess_p \<lparr>gl_attrName = ''age'', gl_attrValue = 18, gl_equal = True, gl_less = False\<rparr>"

definition below :: "int attr_predicate" where
  "below = GreaterLess_p \<lparr>gl_attrName = ''age'', gl_attrValue = 18, gl_equal = False, gl_less = True\<rparr>"

definition no_object :: "'a option \<Rightarrow> byte list res" where
  "no_object = (\<lambda>_. Inr [])"

definition first_page :: "(int, int, int, int) PagingPredicate" where
  "first_page = PagingPredicate_new None None 10"


end
