(* ===== verification/Queues.thy ===== *)
theory Queues
  imports Hz_Prelude "HOL-Library.Multiset"
begin

text \<open>
  The queues of \<open>util/\<close>: \<open>SynchronizedQueue.h\<close> and \<open>ConcurrentQueue.h\<close>, whose methods never wait, and
  \<open>BlockingConcurrentQueue.h\<close>, whose \<open>push\<close> and \<open>pop\<close> wait on condition variables. A method that holds the lock is one
  step; a thread that waits has given the lock up, so a waiting \<open>push\<close> or \<open>pop\<close> is two steps or more, with
  the steps of other threads between them.
\<close>

section \<open>Queues that do not wait\<close>

text \<open>Elements are pointers, and a null pointer is \<open>None\<close>: an empty queue and a queued null pointer poll alike.\<close>

type_synonym 'a ptr_queue = "'a option list"

definition sq_offer :: "'a option \<Rightarrow> 'a ptr_queue \<Rightarrow> 'a ptr_queue" where
  "sq_offer e internalQueue = internalQueue @ [e]"

definition sq_poll :: "'a ptr_queue \<Rightarrow> 'a option \<times> 'a ptr_queue" where
  "sq_poll internalQueue = (if internalQueue \<noteq> [] then (hd internalQueue, tl internalQueue) else (None, internalQueue))"

definition sq_size :: "'a ptr_queue \<Rightarrow> nat" where
  "sq_size internalQueue = length internalQueue"

fun sq_values_loop :: "'a ptr_queue \<Rightarrow> 'a option list \<Rightarrow> 'a option list" where
  "sq_values_loop [] values = values"
| "sq_values_loop (e # es) values = sq_values_loop es (values @ [e])"

definition sq_values :: "'a ptr_queue \<Rightarrow> 'a option list" where
  "sq_values internalQueue = sq_values_loop internalQueue []"

definition cq_offer :: "'a option \<Rightarrow> 'a ptr_queue \<Rightarrow> 'a ptr_queue" where
  "cq_offer e internalQueue = internalQueue @ [e]"

definition cq_poll :: "'a ptr_queue \<Rightarrow> 'a option \<times> 'a ptr_queue" where
  "cq_poll internalQueue =
     (let e = None in if internalQueue \<noteq> [] then let e = hd internalQueue in (e, tl internalQueue) else (e, internalQueue))"

text \<open>The search of \<open>removeAll\<close>: the queue without the first occurrence, if there is one.\<close>

fun cq_erase :: "'a option \<Rightarrow> 'a ptr_queue \<Rightarrow> 'a ptr_queue option" where
  "cq_erase itemToBeRemoved [] = None"
| "cq_erase itemToBeRemoved (e # es) = (if itemToBeRemoved = e then Some es else map_option ((#) e) (cq_erase itemToBeRemoved es))"

lemma cq_erase_length: "cq_erase x q = Some q' \<Longrightarrow> length q' < length q"
  by (induction q arbitrary: q') (auto split: if_splits)

function cq_removeAll_loop :: "'a option \<Rightarrow> int \<Rightarrow> 'a ptr_queue \<Rightarrow> int \<times> 'a ptr_queue" where
  "cq_removeAll_loop itemToBeRemoved numErased q =
     (case cq_erase itemToBeRemoved q of
        None \<Rightarrow> (numErased, q)
      | Some q' \<Rightarrow> cq_removeAll_loop itemToBeRemoved (wrap32 (numErased + 1)) q')"
  by pat_completeness auto
termination
  by (relation "measure (\<lambda>(_, _, q). length q)") (auto dest: cq_erase_length)

declare cq_removeAll_loop.simps [simp del]

definition cq_removeAll :: "'a option \<Rightarrow> 'a ptr_queue \<Rightarrow> int \<times> 'a ptr_queue" where
  "cq_removeAll itemToBeRemoved q = cq_removeAll_loop itemToBeRemoved 0 q"

section \<open>The blocking queue\<close>

text \<open>
  Beside the fields of the class, the state holds the threads inside \<open>push\<close> (with the element they carry) and \<open>pop\<close>:
  those that wait on a condition variable and those that were woken and have not got the lock back yet.
\<close>

record ('t, 'a) bq =
  bq_queue :: "'a list"
  bq_capacity :: nat
  bq_isInterrupted :: bool
  bq_notFull :: "('t \<times> 'a) list"
  bq_notEmpty :: "'t list"
  bq_pushers :: "('t \<times> 'a) list"
  bq_poppers :: "'t list"

definition bq_new :: "nat \<Rightarrow> ('t, 'a) bq" where
  "bq_new maxQueueCapacity = \<lparr>bq_queue = [], bq_capacity = maxQueueCapacity, bq_isInterrupted = False,
     bq_notFull = [], bq_notEmpty = [], bq_pushers = [], bq_poppers = []\<rparr>"

text \<open>A condition variable wakes one waiting thread, whichever: \<open>i\<close> picks it.\<close>

definition pick :: "nat \<Rightarrow> 'w list \<Rightarrow> 'w list" where
  "pick i ws = (if ws = [] then [] else [ws ! (i mod length ws)])"

definition unpick :: "nat \<Rightarrow> 'w list \<Rightarrow> 'w list" where
  "unpick i ws = (let j = i mod length ws in take j ws @ drop (Suc j) ws)"

definition notify_notFull :: "nat \<Rightarrow> ('t, 'a) bq \<Rightarrow> ('t, 'a) bq" where
  "notify_notFull i q = q\<lparr>bq_notFull := unpick i (bq_notFull q), bq_pushers := pick i (bq_notFull q) @ bq_pushers q\<rparr>"

definition notify_notEmpty :: "nat \<Rightarrow> ('t, 'a) bq \<Rightarrow> ('t, 'a) bq" where
  "notify_notEmpty i q = q\<lparr>bq_notEmpty := unpick i (bq_notEmpty q), bq_poppers := pick i (bq_notEmpty q) @ bq_poppers q\<rparr>"

datatype 'r outcome = Waits | Interrupted | Returns 'r

text \<open>One turn of the loop of \<open>push\<close>, from the test of its condition, and the turn that follows a wait.\<close>

definition push_turn :: "'t \<Rightarrow> 'a \<Rightarrow> nat \<Rightarrow> ('t, 'a) bq \<Rightarrow> unit outcome \<times> ('t, 'a) bq" where
  "push_turn t e i q =
     (if length (bq_queue q) = bq_capacity q then (Waits, q\<lparr>bq_notFull := bq_notFull q @ [(t, e)]\<rparr>)
      else (Returns (), notify_notEmpty i (q\<lparr>bq_queue := bq_queue q @ [e]\<rparr>)))"

definition push_woken :: "'t \<Rightarrow> 'a \<Rightarrow> nat \<Rightarrow> ('t, 'a) bq \<Rightarrow> unit outcome \<times> ('t, 'a) bq" where
  "push_woken t e i q = (if bq_isInterrupted q then (Interrupted, q) else push_turn t e i q)"

definition pop_turn :: "'t \<Rightarrow> nat \<Rightarrow> ('t, 'a) bq \<Rightarrow> 'a outcome \<times> ('t, 'a) bq" where
  "pop_turn t i q =
     (if bq_queue q = [] then (Waits, q\<lparr>bq_notEmpty := bq_notEmpty q @ [t]\<rparr>)
      else let element = hd (bq_queue q) in (Returns element, notify_notFull i (q\<lparr>bq_queue := tl (bq_queue q)\<rparr>)))"

definition pop_woken :: "'t \<Rightarrow> nat \<Rightarrow> ('t, 'a) bq \<Rightarrow> 'a outcome \<times> ('t, 'a) bq" where
  "pop_woken t i q = (if bq_isInterrupted q then (Interrupted, q) else pop_turn t i q)"

definition bq_clear :: "nat \<Rightarrow> ('t, 'a) bq \<Rightarrow> ('t, 'a) bq" where
  "bq_clear i q = notify_notFull i (q\<lparr>bq_queue := []\<rparr>)"

definition bq_interrupt :: "nat \<Rightarrow> nat \<Rightarrow> ('t, 'a) bq \<Rightarrow> ('t, 'a) bq" where
  "bq_interrupt i j q = (notify_notEmpty j (notify_notFull i q))\<lparr>bq_isInterrupted := True\<rparr>"

definition bq_isEmpty :: "('t, 'a) bq \<Rightarrow> bool" where
  "bq_isEmpty q = (bq_queue q = [])"

definition bq_size :: "('t, 'a) bq \<Rightarrow> nat" where
  "bq_size q = length (bq_queue q)"

text \<open>
  Steps, with what can be observed of them. Between its calls a thread is in none of the lists; a condition
  variable may also wake a thread that nobody notified.
\<close>

definition inside :: "('t, 'a) bq \<Rightarrow> 't set" where
  "inside q = fst ` set (bq_notFull q) \<union> set (bq_notEmpty q) \<union> fst ` set (bq_pushers q) \<union> set (bq_poppers q)"

datatype 'a event = Pushed 'a | Popped 'a | Dropped "'a list" | Interrupt_Call | Spurious | Silent

fun push_event :: "'a \<Rightarrow> unit outcome \<Rightarrow> 'a event" where
  "push_event e (Returns _) = Pushed e"
| "push_event e _ = Silent"

fun pop_event :: "'a outcome \<Rightarrow> 'a event" where
  "pop_event (Returns e) = Popped e"
| "pop_event _ = Silent"

inductive bq_step :: "('t, 'a) bq \<Rightarrow> 'a event \<Rightarrow> ('t, 'a) bq \<Rightarrow> bool" where
  Push: "\<lbrakk>t \<notin> inside q; push_turn t e i q = (r, q')\<rbrakk> \<Longrightarrow> bq_step q (push_event e r) q'"
| Push_on: "\<lbrakk>(t, e) \<in> set (bq_pushers q); push_woken t e i (q\<lparr>bq_pushers := remove1 (t, e) (bq_pushers q)\<rparr>) = (r, q')\<rbrakk> \<Longrightarrow>
    bq_step q (push_event e r) q'"
| Pop: "\<lbrakk>t \<notin> inside q; pop_turn t i q = (r, q')\<rbrakk> \<Longrightarrow> bq_step q (pop_event r) q'"
| Pop_on: "\<lbrakk>t \<in> set (bq_poppers q); pop_woken t i (q\<lparr>bq_poppers := remove1 t (bq_poppers q)\<rparr>) = (r, q')\<rbrakk> \<Longrightarrow>
    bq_step q (pop_event r) q'"
| Clear: "bq_step q (Dropped (bq_queue q)) (bq_clear i q)"
| Interrupt: "bq_step q Interrupt_Call (bq_interrupt i j q)"
| Wake_pusher: "w \<in> set (bq_notFull q) \<Longrightarrow>
    bq_step q Spurious (q\<lparr>bq_notFull := remove1 w (bq_notFull q), bq_pushers := w # bq_pushers q\<rparr>)"
| Wake_popper: "t \<in> set (bq_notEmpty q) \<Longrightarrow>
    bq_step q Spurious (q\<lparr>bq_notEmpty := remove1 t (bq_notEmpty q), bq_poppers := t # bq_poppers q\<rparr>)"

inductive bq_run :: "('t, 'a) bq \<Rightarrow> 'a event list \<Rightarrow> ('t, 'a) bq \<Rightarrow> bool" where
  Start: "bq_run q [] q"
| More: "\<lbrakk>bq_run q es q'; bq_step q' e q''\<rbrakk> \<Longrightarrow> bq_run q (es @ [e]) q''"

section \<open>The contract of a queue\<close>

text \<open>What clients of either queue rely on, and what follows: calls answer as those of a list.\<close>

datatype 'a queue_op = Offer "'a option" | Poll

fun run_queue :: "('a option \<Rightarrow> 'q \<Rightarrow> 'q) \<Rightarrow> ('q \<Rightarrow> 'a option \<times> 'q) \<Rightarrow> 'a queue_op list \<Rightarrow> 'q \<Rightarrow> 'a option list" where
  "run_queue offer poll [] q = []"
| "run_queue offer poll (op # ops) q =
     (case op of Offer e \<Rightarrow> run_queue offer poll ops (offer e q)
      | Poll \<Rightarrow> fst (poll q) # run_queue offer poll ops (snd (poll q)))"

locale poll_queue =
  fixes offer :: "'a option \<Rightarrow> 'q \<Rightarrow> 'q" and poll :: "'q \<Rightarrow> 'a option \<times> 'q" and contents :: "'q \<Rightarrow> 'a option list"
  assumes contents_offer: "contents (offer e q) = contents q @ [e]"
    and poll_empty: "contents q = [] \<Longrightarrow> fst (poll q) = None \<and> contents (snd (poll q)) = []"
    and poll_first: "contents q = e # es \<Longrightarrow> fst (poll q) = e \<and> contents (snd (poll q)) = es"
begin

lemma poll_contents: "fst (poll q) = (case contents q of [] \<Rightarrow> None | e # _ \<Rightarrow> e) \<and> contents (snd (poll q)) = tl (contents q)"
  using poll_empty [of q] poll_first [of q] by (cases "contents q") auto

lemma runs_as_list:
  "run_queue offer poll ops q = run_queue (\<lambda>e l. l @ [e]) (\<lambda>l. (case l of [] \<Rightarrow> None | e # _ \<Rightarrow> e, tl l)) ops (contents q)"
  by (induction ops arbitrary: q rule: list.induct) (auto simp: contents_offer poll_contents split: queue_op.split)

end

lemma sq_values_id: "sq_values q = q"
proof -
  have "sq_values_loop q vs = vs @ q" for vs by (induction q arbitrary: vs) auto
  then show ?thesis by (simp add: sq_values_def)
qed

interpretation sq: poll_queue sq_offer sq_poll sq_values
  by unfold_locales (auto simp: sq_values_id sq_offer_def sq_poll_def)

interpretation cq: poll_queue cq_offer cq_poll "\<lambda>q. q"
  by unfold_locales (auto simp: cq_offer_def cq_poll_def)

text \<open>The two queues answer alike.\<close>

lemma sync_and_concurrent_queues_agree: "run_queue sq_offer sq_poll ops q = run_queue cq_offer cq_poll ops q"
  by (simp only: sq.runs_as_list [of ops q] cq.runs_as_list [of ops q] sq_values_id)

text \<open>\<open>removeAll\<close> removes every occurrence and counts them.\<close>

lemma cq_erase_spec:
  "cq_erase x q = Some q' \<Longrightarrow> filter (\<lambda>e. e \<noteq> x) q' = filter (\<lambda>e. e \<noteq> x) q \<and> count_list q x = Suc (count_list q' x)"
  "cq_erase x q = None \<Longrightarrow> x \<notin> set q"
  by (induction q arbitrary: q') (auto split: if_splits)

lemma cq_removeAll_loop_spec:
  "0 \<le> n \<Longrightarrow> n + int (count_list q x) < 2 ^ 31 \<Longrightarrow>
    cq_removeAll_loop x n q = (n + int (count_list q x), filter (\<lambda>e. e \<noteq> x) q)"
proof (induction x n q rule: cq_removeAll_loop.induct)
  case (1 x n q)
  show ?case
  proof (cases "cq_erase x q")
    case None
    then have "x \<notin> set q" by (rule cq_erase_spec(2))
    moreover from this have "filter (\<lambda>e. e \<noteq> x) q = q" by (auto simp: filter_id_conv)
    ultimately show ?thesis using None by (subst cq_removeAll_loop.simps) simp
  next
    case (Some q')
    note s = cq_erase_spec(1) [OF Some]
    have "wrap32 (n + 1) = n + 1" using "1.prems" s by (intro wrap32_id) auto
    then show ?thesis using "1.IH" [OF Some] "1.prems" Some s by (subst cq_removeAll_loop.simps) simp
  qed
qed

lemma cq_removeAll_spec:
  assumes "length q < 2 ^ 31"
  shows "cq_removeAll x q = (int (count_list q x), filter (\<lambda>e. e \<noteq> x) q)"
proof -
  have "count_list q x \<le> length q" by (rule count_le_length)
  then show ?thesis using assms cq_removeAll_loop_spec [of 0 q x] by (simp add: cq_removeAll_def)
qed

section \<open>First in, first out\<close>

primrec pushed :: "'a event list \<Rightarrow> 'a list" where
  "pushed [] = []"
| "pushed (e # es) = (case e of Pushed a \<Rightarrow> [a] | _ \<Rightarrow> []) @ pushed es"

primrec removed :: "'a event list \<Rightarrow> 'a list" where
  "removed [] = []"
| "removed (e # es) = (case e of Popped a \<Rightarrow> [a] | Dropped as \<Rightarrow> as | _ \<Rightarrow> []) @ removed es"

lemma pushed_append [simp]: "pushed (es @ fs) = pushed es @ pushed fs"
  by (induction es) auto

lemma removed_append [simp]: "removed (es @ fs) = removed es @ removed fs"
  by (induction es) auto

lemmas bq_defs = push_turn_def push_woken_def pop_turn_def pop_woken_def bq_clear_def bq_interrupt_def notify_notFull_def notify_notEmpty_def Let_def

lemma bq_step_fifo:
  "bq_step q e q' \<Longrightarrow> bq_queue q @ pushed [e] = removed [e] @ bq_queue q' \<and> bq_capacity q' = bq_capacity q
    \<and> (length (bq_queue q) \<le> bq_capacity q \<longrightarrow> length (bq_queue q') \<le> bq_capacity q)"
  by (induction rule: bq_step.induct) (auto simp: bq_defs split: if_splits)

lemma pick_length [simp]: "length (pick i ws) = (if ws = [] then 0 else 1)"
  by (simp add: pick_def)

lemma unpick_length [simp]: "length (unpick i ws) = length ws - 1"
proof (cases ws)
  case (Cons w ws')
  have "i mod length ws < length ws" using Cons by simp
  then show ?thesis by (auto simp: unpick_def Let_def)
qed (simp add: unpick_def)

lemma unpick_Nil [simp]: "unpick i [] = []"
  by (simp add: unpick_def)

text \<open>
  Who waits although it could go on has somebody ahead of it that was woken and will: as many as there are elements
  to pop, or places to fill.
\<close>

definition covered :: "('t, 'a) bq \<Rightarrow> bool" where
  "covered q \<longleftrightarrow> \<not> bq_isInterrupted q \<and> length (bq_queue q) \<le> bq_capacity q
     \<and> (bq_notEmpty q \<noteq> [] \<longrightarrow> length (bq_queue q) \<le> length (bq_poppers q))
     \<and> (bq_notFull q \<noteq> [] \<longrightarrow> bq_capacity q \<le> length (bq_queue q) + length (bq_pushers q))"

definition steady :: "'a event \<Rightarrow> bool" where
  "steady e \<longleftrightarrow> (case e of Dropped _ \<Rightarrow> False | Interrupt_Call \<Rightarrow> False | _ \<Rightarrow> True)"

lemma bq_step_covered: "bq_step q e q' \<Longrightarrow> steady e \<Longrightarrow> covered q \<Longrightarrow> covered q'"
proof (induction rule: bq_step.induct)
  case (Push_on t e q i r q')
  then have "0 < length (bq_pushers q)" by auto
  with Push_on show ?case
    by (auto simp: bq_defs covered_def length_remove1 split: if_splits)
next
  case (Pop_on t q i r q')
  then have "0 < length (bq_poppers q)" by auto
  with Pop_on show ?case
    by (auto simp: bq_defs covered_def length_remove1 split: if_splits)
next
  case (Wake_pusher w q)
  then show ?case by (auto simp: covered_def)
next
  case (Wake_popper t q)
  then show ?case by (auto simp: covered_def)
qed (auto simp: bq_defs covered_def steady_def split: if_splits)

text \<open>A thread is in at most one place.\<close>

definition threads :: "('t, 'a) bq \<Rightarrow> 't multiset" where
  "threads q = image_mset fst (mset (bq_notFull q)) + mset (bq_notEmpty q) + image_mset fst (mset (bq_pushers q)) + mset (bq_poppers q)"

lemma set_threads: "set_mset (threads q) = inside q"
  by (simp add: threads_def inside_def)

lemma pick_unpick: "mset (unpick i ws) + mset (pick i ws) = mset ws"
proof (cases ws)
  case (Cons w ws')
  have j: "i mod length ws < length ws" using Cons by simp
  from id_take_nth_drop [OF j] have "mset ws = mset (take (i mod length ws) ws @ ws ! (i mod length ws) # drop (Suc (i mod length ws)) ws)" by metis
  then show ?thesis using Cons by (simp add: unpick_def pick_def Let_def)
qed (simp add: unpick_def pick_def)

lemma threads_notify [simp]:
  "threads (notify_notFull i q) = threads q" "threads (notify_notEmpty i q) = threads q"
  "threads (q\<lparr>bq_queue := x\<rparr>) = threads q" "threads (q\<lparr>bq_isInterrupted := b\<rparr>) = threads q"
  "threads (q\<lparr>bq_notFull := bq_notFull q @ [(t, e)]\<rparr>) = add_mset t (threads q)"
  "threads (q\<lparr>bq_notEmpty := bq_notEmpty q @ [t]\<rparr>) = add_mset t (threads q)"
proof -
  have "image_mset f (mset (unpick i ws)) + image_mset f (mset (pick i ws)) = image_mset f (mset ws)" for f :: "'w \<Rightarrow> 'v" and ws
    using pick_unpick [of i ws] by (metis image_mset_union)
  from this [of fst "bq_notFull q"] this [of "\<lambda>t. t" "bq_notEmpty q"]
  show "threads (notify_notFull i q) = threads q" "threads (notify_notEmpty i q) = threads q"
    by (simp_all add: threads_def notify_notFull_def notify_notEmpty_def ac_simps)
qed (simp_all add: threads_def)

lemma threads_push_turn:
  "push_turn t e i q = (r, q') \<Longrightarrow> threads q' \<subseteq># add_mset t (threads q)"
  "push_woken t e i q = (r, q') \<Longrightarrow> threads q' \<subseteq># add_mset t (threads q)"
  by (auto simp: push_turn_def push_woken_def split: if_splits)

lemma threads_pop_turn:
  "pop_turn t i q = (r, q') \<Longrightarrow> threads q' \<subseteq># add_mset t (threads q)"
  "pop_woken t i q = (r, q') \<Longrightarrow> threads q' \<subseteq># add_mset t (threads q)"
  by (auto simp: pop_turn_def pop_woken_def Let_def split: if_splits)

lemma bq_step_threads:
  assumes "bq_step q e q'"
  shows "threads q' \<subseteq># threads q \<or> (\<exists>t. t \<notin># threads q \<and> threads q' \<subseteq># add_mset t (threads q))"
  using assms
proof (induction rule: bq_step.induct)
  case (Push t q e i r q')
  then show ?case using threads_push_turn(1) set_threads by metis
next
  case (Push_on t e q i r q')
  from Push_on(1) have "mset (bq_pushers q) = add_mset (t, e) (mset (remove1 (t, e) (bq_pushers q)))" by simp
  from arg_cong [OF this, of "image_mset fst"]
  have "add_mset t (threads (q\<lparr>bq_pushers := remove1 (t, e) (bq_pushers q)\<rparr>)) = threads q"
    by (simp add: threads_def del: mset_remove1)
  then show ?case using threads_push_turn(2) [OF Push_on(2)] by simp
next
  case (Pop t q i r q')
  then show ?case using threads_pop_turn(1) set_threads by metis
next
  case (Pop_on t q i r q')
  then have "add_mset t (threads (q\<lparr>bq_poppers := remove1 t (bq_poppers q)\<rparr>)) = threads q"
    by (simp add: threads_def)
  then show ?case using threads_pop_turn(2) [OF Pop_on(2)] by simp
next
  case (Wake_pusher w q)
  then have "mset (bq_notFull q) = add_mset w (mset (remove1 w (bq_notFull q)))" by simp
  from arg_cong [OF this, of "image_mset fst"] show ?case by (simp add: threads_def del: mset_remove1)
next
  case (Wake_popper t q)
  then show ?case by (simp add: threads_def)
qed (simp_all add: bq_clear_def bq_interrupt_def)

section \<open>Runs\<close>

text \<open>Claim C20: under any interleaving of pushes, pops, clears and interrupts, elements leave the queue in the order in
  which they came, each once, and the queue never holds more than its capacity; a thread is never at two places.
\<close>

theorem blocking_queue_fifo:
  assumes "bq_run (bq_new c) es (q :: ('t, 'a) bq)"
  shows "pushed es = removed es @ bq_queue q \<and> bq_size q \<le> c \<and> (\<forall>t. count (threads q) t \<le> 1)"
proof -
  have "pushed es = removed es @ bq_queue q \<and> bq_capacity q = c \<and> length (bq_queue q) \<le> c \<and> (\<forall>t. count (threads q) t \<le> 1)"
    using assms
  proof (induction "bq_new c :: ('t, 'a) bq" es q rule: bq_run.induct)
    case Start
    show ?case by (simp add: bq_new_def threads_def)
  next
    case (More es q' e q'')
    note f = bq_step_fifo [OF More(3)]
    have "\<forall>t. count (threads q'') t \<le> 1"
      using bq_step_threads [OF More(3)]
    proof (elim disjE exE conjE)
      assume "threads q'' \<subseteq># threads q'"
      then show ?thesis using More(2) by (meson le_trans mset_subset_eq_count)
    next
      fix t assume "t \<notin># threads q'" "threads q'' \<subseteq># add_mset t (threads q')"
      then have "count (threads q'') u \<le> count (add_mset t (threads q')) u" for u by (meson mset_subset_eq_count)
      moreover have "count (add_mset t (threads q')) u \<le> 1" for u
        using More(2) \<open>t \<notin># threads q'\<close> by (auto simp: not_in_iff)
      ultimately show ?thesis by (meson le_trans)
    qed
    then show ?case using f More(2) by auto
  qed
  then show ?thesis by (simp add: bq_size_def)
qed

text \<open>Claim C21: as long as nobody clears or interrupts the queue, no wakeup is lost: whenever a thread waits to pop
  although there are elements, another has been woken that will take the first of them when it gets the lock, and
  whenever a thread waits to push although there is room, another has been woken that will push.
\<close>

theorem no_lost_wakeup:
  assumes "bq_run (bq_new c) es (q :: ('t, 'a) bq)" "\<forall>e \<in> set es. steady e"
  shows "(bq_notEmpty q \<noteq> [] \<and> \<not> bq_isEmpty q \<longrightarrow>
      (\<exists>t \<in> set (bq_poppers q). \<forall>i. fst (pop_woken t i (q\<lparr>bq_poppers := remove1 t (bq_poppers q)\<rparr>)) = Returns (hd (bq_queue q))))
    \<and> (bq_notFull q \<noteq> [] \<and> bq_size q < c \<longrightarrow>
      (\<exists>(t, e) \<in> set (bq_pushers q). \<forall>i. fst (push_woken t e i (q\<lparr>bq_pushers := remove1 (t, e) (bq_pushers q)\<rparr>)) = Returns ()))"
proof -
  have "covered q \<and> bq_capacity q = c"
    using assms
  proof (induction "bq_new c :: ('t, 'a) bq" es q rule: bq_run.induct)
    case Start
    show ?case by (simp add: covered_def bq_new_def)
  next
    case (More es q' e q'')
    then show ?case using bq_step_covered [OF More(3)] bq_step_fifo [OF More(3)] by auto
  qed
  then have c: "covered q" "bq_capacity q = c" by simp_all
  have pop: "bq_notEmpty q \<noteq> [] \<and> \<not> bq_isEmpty q \<longrightarrow>
      (\<exists>t \<in> set (bq_poppers q). \<forall>i. fst (pop_woken t i (q\<lparr>bq_poppers := remove1 t (bq_poppers q)\<rparr>)) = Returns (hd (bq_queue q)))"
    using c by (cases "bq_poppers q") (auto simp: covered_def bq_isEmpty_def pop_woken_def pop_turn_def Let_def)
  have "bq_notFull q \<noteq> [] \<and> bq_size q < c \<longrightarrow>
      (\<exists>(t, e) \<in> set (bq_pushers q). \<forall>i. fst (push_woken t e i (q\<lparr>bq_pushers := remove1 (t, e) (bq_pushers q)\<rparr>)) = Returns ())"
    using c by (cases "bq_pushers q") (auto simp: covered_def bq_size_def push_woken_def push_turn_def)
  with pop show ?thesis by (rule conjI)
qed

definition wakes_popper :: "'a event \<Rightarrow> bool" where
  "wakes_popper e \<longleftrightarrow> (case e of Pushed _ \<Rightarrow> True | Interrupt_Call \<Rightarrow> True | Spurious \<Rightarrow> True | _ \<Rightarrow> False)"

definition wakes_pusher :: "'a event \<Rightarrow> bool" where
  "wakes_pusher e \<longleftrightarrow> (case e of Popped _ \<Rightarrow> True | Dropped _ \<Rightarrow> True | Interrupt_Call \<Rightarrow> True | Spurious \<Rightarrow> True | _ \<Rightarrow> False)"

lemma bq_step_sleeps:
  "bq_step q e q' \<Longrightarrow> (\<not> wakes_popper e \<longrightarrow> set (bq_notEmpty q) \<subseteq> set (bq_notEmpty q'))
    \<and> (\<not> wakes_pusher e \<longrightarrow> set (bq_notFull q) \<subseteq> set (bq_notFull q'))"
  by (induction rule: bq_step.induct) (auto simp: bq_defs wakes_popper_def wakes_pusher_def split: if_splits)

lemma bq_run_sleeps:
  "bq_run q es q' \<Longrightarrow> ((\<forall>e \<in> set es. \<not> wakes_popper e) \<longrightarrow> set (bq_notEmpty q) \<subseteq> set (bq_notEmpty q'))
    \<and> ((\<forall>e \<in> set es. \<not> wakes_pusher e) \<longrightarrow> set (bq_notFull q) \<subseteq> set (bq_notFull q'))"
proof (induction rule: bq_run.induct)
  case (More q es q' e q'')
  then show ?case using bq_step_sleeps [OF More(2)] by auto
qed simp

lemma unpick_subset: "mset (unpick j ws) \<subseteq># mset ws"
  using pick_unpick [of j ws] by (metis mset_subset_eq_add_left)

text \<open>\<open>interrupt\<close> wakes at most one thread that waits to push and one that waits to pop. All others stay asleep,
  whatever follows, until another call happens to wake them (a pop, a clear or another interrupt for those that push; a
  push or another interrupt for those that pop) or the condition variable does so by itself.
\<close>

theorem interrupt_leaves_waiters:
  assumes "bq_run (bq_interrupt i j q) es q'"
  shows "((\<forall>e \<in> set es. \<not> wakes_pusher e) \<longrightarrow>
      (\<exists>asleep. length asleep = length (bq_notFull q) - 1 \<and> mset asleep \<subseteq># mset (bq_notFull q) \<and> set asleep \<subseteq> set (bq_notFull q')))
    \<and> ((\<forall>e \<in> set es. \<not> wakes_popper e) \<longrightarrow>
      (\<exists>asleep. length asleep = length (bq_notEmpty q) - 1 \<and> mset asleep \<subseteq># mset (bq_notEmpty q) \<and> set asleep \<subseteq> set (bq_notEmpty q')))"
proof -
  have "bq_notEmpty (bq_interrupt i j q) = unpick j (bq_notEmpty q)" "bq_notFull (bq_interrupt i j q) = unpick i (bq_notFull q)"
    by (simp_all add: bq_defs)
  then show ?thesis
    using bq_run_sleeps [OF assms] unpick_subset [of j "bq_notEmpty q"] unpick_subset [of i "bq_notFull q"]
    by (metis (no_types) unpick_length)
qed

section \<open>Examples\<close>

definition example_queue :: "int list \<Rightarrow> nat list \<Rightarrow> nat list \<Rightarrow> (nat, int) bq" where
  "example_queue es waiting woken = \<lparr>bq_queue = es, bq_capacity = 2, bq_isInterrupted = False,
     bq_notFull = [], bq_notEmpty = waiting, bq_pushers = [], bq_poppers = woken\<rparr>"

text \<open>Two threads wait to pop, and a third pushes.\<close>

lemma example_run: "bq_run (bq_new 2) [Silent, Silent, Pushed 7] (example_queue [7] [1] [0])"
proof -
  have 1: "bq_step (bq_new 2) Silent (example_queue [] [0] [])"
    using Pop [of 0 "bq_new 2" 0 Waits "example_queue [] [0] []"] by (simp add: inside_def bq_new_def pop_turn_def example_queue_def)
  have 2: "bq_step (example_queue [] [0] []) Silent (example_queue [] [0, 1] [])"
    using Pop [of 1 "example_queue [] [0] []" 0 Waits "example_queue [] [0, 1] []"] by (simp add: inside_def pop_turn_def example_queue_def)
  have 3: "bq_step (example_queue [] [0, 1] []) (Pushed 7) (example_queue [7] [1] [0])"
    using Push [of 2 "example_queue [] [0, 1] []" 7 0 "Returns ()" "example_queue [7] [1] [0]"]
    by (simp add: inside_def push_turn_def notify_notEmpty_def pick_def unpick_def example_queue_def)
  from More [OF More [OF More [OF Start 1] 2] 3] show ?thesis by simp
qed

lemma blocking_queue_fifo_witness:
  "\<exists>es (q :: (nat, int) bq). bq_run (bq_new 2) es q \<and> bq_queue q = [7] \<and> pushed es = removed es @ [7] \<and> bq_size q \<le> 2"
  using blocking_queue_fifo [OF example_run] example_run
  by (intro exI [of _ "[Silent, Silent, Pushed 7]"] exI [of _ "example_queue [7] [1] [0]"]) (simp add: example_queue_def)

lemma no_lost_wakeup_witness:
  "\<exists>es (q :: (nat, int) bq). bq_run (bq_new 2) es q \<and> bq_notEmpty q \<noteq> []
    \<and> (\<exists>t \<in> set (bq_poppers q). \<forall>i. fst (pop_woken t i (q\<lparr>bq_poppers := remove1 t (bq_poppers q)\<rparr>)) = Returns (hd (bq_queue q)))"
proof -
  let ?q = "example_queue [7] [1] [0]"
  have "\<forall>e \<in> set [Silent, Silent, Pushed (7 :: int)]. steady e" by (simp add: steady_def)
  note p = no_lost_wakeup [OF example_run this]
  have "bq_notEmpty ?q \<noteq> []" "\<not> bq_isEmpty ?q" by (simp_all add: bq_isEmpty_def example_queue_def)
  with p example_run show ?thesis by blast
qed

lemma interrupt_leaves_waiters_witness:
  "\<exists>asleep. length asleep = 2 \<and> set asleep \<subseteq> set (bq_notEmpty (bq_interrupt 0 1 (example_queue [] [0, 1, 2] [])))"
proof -
  have n: "length (bq_notEmpty (example_queue [] [0, 1, 2] [])) - 1 = 2" by (simp add: example_queue_def)
  from interrupt_leaves_waiters [OF Start [of "bq_interrupt 0 1 (example_queue [] [0, 1, 2] [])"]] show ?thesis
    unfolding n by auto
qed

end
