(* ===== verification/Reliable_Topic.thy ===== *)
theory Reliable_Topic
  imports Map_Proxy
begin

text \<open>
  The reliable topic of \<open>client/ReliableTopic.h\<close> with its message runners, the result arrays of \<open>client/impl/DataArrayImpl.h\<close> and the
  conversions of \<open>util/IOUtil.h\<close>. A listener is user code: its methods are arguments, with a state of their own. The executor of
  a runner and the ring buffer have no body here: what a runner hands to its executor is recorded, and the handlers that the executor
  calls take what the ring buffer answers.
\<close>

section \<open>Conversions\<close>

definition is_space :: "char \<Rightarrow> bool" where
  "is_space c \<longleftrightarrow> c = CHR '' '' \<or> (9 \<le> (of_char c :: nat) \<and> (of_char c :: nat) \<le> 13)"

definition is_digit :: "char \<Rightarrow> bool" where
  "is_digit c \<longleftrightarrow> 48 \<le> (of_char c :: nat) \<and> (of_char c :: nat) \<le> 57"

text \<open>\<open>IOUtil::to_value<int>\<close>: what the stream extracts, 0 when there is no number, the nearest bound when it does not fit. With nothing but
  white space the extraction does not begin and the variable keeps \<open>junk\<close>, what it held before: it is not initialized.\<close>

definition to_value_int :: "int \<Rightarrow> string \<Rightarrow> int" where
  "to_value_int junk str =
     (let s = dropWhile is_space str;
          minus = (s \<noteq> [] \<and> hd s = CHR ''-'');
          s' = (if s \<noteq> [] \<and> (hd s = CHR ''-'' \<or> hd s = CHR ''+'') then tl s else s);
          ds = takeWhile is_digit s';
          v = int (string_to_nat ds)
      in if s = [] then junk else if ds = [] then 0 else if minus then max (- (2 ^ 31)) (- v) else min (2 ^ 31 - 1) v)"

definition to_string_int :: "int \<Rightarrow> string" where
  "to_string_int i = int_to_string i"

section \<open>Result arrays\<close>

text \<open>An item keeps its data and, once it is deserialized, the pointer to its value.\<close>

type_synonym ('d, 'v) data_array = "('d \<times> 'v option option) list"

definition DataArray_new :: "'d list \<Rightarrow> ('d, 'v) data_array" where
  "DataArray_new data = map (\<lambda>d. (d, None)) data"

definition da_size :: "('d, 'v) data_array \<Rightarrow> nat" where
  "da_size a = length a"

definition da_checkIndex :: "nat \<Rightarrow> ('d, 'v) data_array \<Rightarrow> unit res" where
  "da_checkIndex index a =
     (if length a = 0 then Inl IllegalArgumentException else if length a \<le> index then Inl IllegalArgumentException else Inr ())"

definition da_get :: "('d \<Rightarrow> 'v option res) \<Rightarrow> nat \<Rightarrow> ('d, 'v) data_array \<Rightarrow> ('v option \<times> ('d, 'v) data_array) res" where
  "da_get toObj index a =
     bindR (da_checkIndex index a) (\<lambda>_. case a ! index of
         (d, Some v) \<Rightarrow> Inr (v, a)
       | (d, None) \<Rightarrow> bindR (toObj d) (\<lambda>v. Inr (v, a[index := (d, Some v)])))"

definition da_release :: "('d \<Rightarrow> 'v option res) \<Rightarrow> nat \<Rightarrow> ('d, 'v) data_array \<Rightarrow> ('v option \<times> ('d, 'v) data_array) res" where
  "da_release toObj index a =
     bindR (da_checkIndex index a) (\<lambda>_. case a ! index of
         (d, Some v) \<Rightarrow> Inr (v, a[index := (d, None)])
       | (d, None) \<Rightarrow> bindR (toObj d) (\<lambda>v. Inr (v, a)))"

section \<open>Message runners\<close>

record ('l, 'm) listener_ops =
  retrieveInitialSequence :: "'l \<Rightarrow> int"
  storeSequence :: "int \<Rightarrow> ('l, unit) comp"
  onMessage :: "'m \<Rightarrow> ('l, unit) comp"
  isLossTolerant :: "'l \<Rightarrow> bool"
  isTerminal :: "hz_error \<Rightarrow> 'l \<Rightarrow> bool res"

record ('d, 'a) ReliableTopicMessage =
  publishTime :: int
  publisherAddress :: "'a option"
  payload :: 'd

record ('v, 'a) MessageImpl =
  msg_name :: string
  msg_object :: "'v option"
  msg_time :: int
  msg_member :: "'a option"

text \<open>What the conversion of messages and payloads gives.\<close>

record ('d, 'v, 'a) topic_codec =
  m_toObject :: "'d \<Rightarrow> ('d, 'a) ReliableTopicMessage option res"
  p_toObject :: "'d \<Rightarrow> 'v option res"

record topic_request =
  rq_sequence :: int
  rq_maxCount :: int

record 'l runner =
  rn_id :: int
  rn_listener :: 'l
  rn_sequence :: int
  rn_cancelled :: bool
  rn_requests :: "topic_request list"
  rn_stops :: nat

text \<open>\<open>tail\<close> is the answer of \<open>tailSequence\<close>.\<close>

definition MessageRunner_new :: "('l, 'm) listener_ops \<Rightarrow> int res \<Rightarrow> int \<Rightarrow> 'l \<Rightarrow> 'l runner res" where
  "MessageRunner_new ops tail runnerId l =
     (let initialSequence = retrieveInitialSequence ops l in
      bindR (if initialSequence = - 1 then bindR tail (\<lambda>t. Inr (t + 1)) else Inr initialSequence) (\<lambda>s.
      Inr \<lparr>rn_id = runnerId, rn_listener = l, rn_sequence = s, rn_cancelled = False, rn_requests = [], rn_stops = 0\<rparr>))"

definition rn_next :: "int \<Rightarrow> 'l runner \<Rightarrow> 'l runner" where
  "rn_next readBatchSize rn =
     (if rn_cancelled rn then rn
      else rn\<lparr>rn_requests := rn_requests rn @ [\<lparr>rq_sequence = rn_sequence rn, rq_maxCount = readBatchSize\<rparr>]\<rparr>)"

definition rn_cancel :: "'l runner \<Rightarrow> 'l runner" where
  "rn_cancel rn = rn\<lparr>rn_cancelled := True, rn_stops := rn_stops rn + 1\<rparr>"

definition toMessage :: "('d, 'v, 'a) topic_codec \<Rightarrow> string \<Rightarrow> ('d, 'a) ReliableTopicMessage option \<Rightarrow> ('v, 'a) MessageImpl res" where
  "toMessage cd name m =
     bindR (deref_ptr m) (\<lambda>m. bindR (p_toObject cd (payload m)) (\<lambda>msg.
     Inr \<lparr>msg_name = name, msg_object = msg, msg_time = publishTime m, msg_member = publisherAddress m\<rparr>))"

definition process :: "('l, ('v, 'a) MessageImpl) listener_ops \<Rightarrow> ('d, 'v, 'a) topic_codec \<Rightarrow> string \<Rightarrow>
    ('d, 'a) ReliableTopicMessage option \<Rightarrow> ('l, unit) comp" where
  "process ops cd name m = bindM (liftR (toMessage cd name m)) (onMessage ops)"

definition terminate :: "('l, 'm) listener_ops \<Rightarrow> hz_error \<Rightarrow> 'l runner \<Rightarrow> bool res" where
  "terminate ops failure rn =
     (if rn_cancelled rn then Inr True
      else case isTerminal ops failure (rn_listener rn) of
        Inr b \<Rightarrow> Inr b
      | Inl t \<Rightarrow> if caught t then Inr True else Inl t)"

text \<open>
  The body of the try block, and the loop over a batch. \<open>cancels i\<close> says that another thread has cancelled the runner before
  message \<open>i\<close>. The loop gives whether it ran to its end.
\<close>

definition take_up :: "('l, ('v, 'a) MessageImpl) listener_ops \<Rightarrow> ('d, 'v, 'a) topic_codec \<Rightarrow> string \<Rightarrow> int \<Rightarrow>
    (('d, 'a) ReliableTopicMessage option) res \<Rightarrow> ('l, unit) comp" where
  "take_up ops cd name sequence m = bindM (storeSequence ops sequence) (\<lambda>_. bindM (liftR m) (process ops cd name))"

fun message_loop :: "('l, ('v, 'a) MessageImpl) listener_ops \<Rightarrow> ('d, 'v, 'a) topic_codec \<Rightarrow> string \<Rightarrow> (nat \<Rightarrow> bool) \<Rightarrow> nat list \<Rightarrow>
    ('d, ('d, 'a) ReliableTopicMessage) data_array \<Rightarrow> 'l runner \<Rightarrow> bool res \<times> 'l runner" where
  "message_loop ops cd name cancels [] a rn = (Inr True, rn)"
| "message_loop ops cd name cancels (i # is) a rn =
     (let rn = (if cancels i then rn_cancel rn else rn);
          got = da_get (m_toObject cd) i a;
          a' = (case got of Inr (_, a') \<Rightarrow> a' | Inl _ \<Rightarrow> a)
      in case take_up ops cd name (rn_sequence rn) (bindR got (\<lambda>(m, _). Inr m)) (rn_listener rn) of
           (Inr _, l) \<Rightarrow> message_loop ops cd name cancels is a' (rn\<lparr>rn_listener := l, rn_sequence := rn_sequence rn + 1\<rparr>)
         | (Inl e, l) \<Rightarrow>
             let rn = rn\<lparr>rn_listener := l\<rparr> in
             if \<not> caught e then (Inl e, rn)
             else case terminate ops e rn of
               Inl t \<Rightarrow> (Inl t, rn)
             | Inr True \<Rightarrow> (Inr False, rn_cancel rn)
             | Inr False \<Rightarrow> message_loop ops cd name cancels is a' (rn\<lparr>rn_sequence := rn_sequence rn + 1\<rparr>))"

definition onResponse :: "('l, ('v, 'a) MessageImpl) listener_ops \<Rightarrow> ('d, 'v, 'a) topic_codec \<Rightarrow> string \<Rightarrow> int \<Rightarrow> (nat \<Rightarrow> bool) \<Rightarrow>
    ('d, ('d, 'a) ReliableTopicMessage) data_array \<Rightarrow> 'l runner \<Rightarrow> unit res \<times> 'l runner" where
  "onResponse ops cd name readBatchSize cancels allMessages rn =
     (if rn_cancelled rn then (Inr (), rn)
      else case message_loop ops cd name cancels [0 ..< da_size allMessages] allMessages rn of
        (Inl e, rn') \<Rightarrow> (Inl e, rn')
      | (Inr False, rn') \<Rightarrow> (Inr (), rn')
      | (Inr True, rn') \<Rightarrow> (Inr (), rn_next readBatchSize rn'))"

definition ERR_DISTRIBUTED_OBJECT_DESTROYED :: int where "ERR_DISTRIBUTED_OBJECT_DESTROYED = 15"
definition ERR_EXECUTION :: int where "ERR_EXECUTION = 19"
definition ERR_HAZELCAST_INSTANCE_NOT_ACTIVE :: int where "ERR_HAZELCAST_INSTANCE_NOT_ACTIVE = 21"
definition ERR_STALE_SEQUENCE :: int where "ERR_STALE_SEQUENCE = 54"
definition ERR_TIMEOUT :: int where "ERR_TIMEOUT = 57"

record topic_failure =
  errorCode :: int
  causeErrorCode :: int

definition is_stale :: "topic_failure \<Rightarrow> bool" where
  "is_stale f \<longleftrightarrow> errorCode f = ERR_EXECUTION \<and> causeErrorCode f = ERR_STALE_SEQUENCE"

text \<open>\<open>head\<close> is the answer of \<open>headSequence\<close>; the branches that only log and terminate come last.\<close>

definition onFailure :: "('l, 'm) listener_ops \<Rightarrow> int \<Rightarrow> int res \<Rightarrow> topic_failure \<Rightarrow> 'l runner \<Rightarrow> unit res \<times> 'l runner" where
  "onFailure ops readBatchSize head throwable rn =
     (if rn_cancelled rn then (Inr (), rn)
      else if errorCode throwable = ERR_TIMEOUT then (Inr (), rn_next readBatchSize rn)
      else if is_stale throwable then
        (case head of
           Inl e \<Rightarrow> (Inl e, rn)
         | Inr remoteHeadSeq \<Rightarrow>
             if isLossTolerant ops (rn_listener rn) then (Inr (), rn_next readBatchSize (rn\<lparr>rn_sequence := remoteHeadSeq\<rparr>))
             else (Inr (), rn_cancel rn))
      else if errorCode throwable = ERR_HAZELCAST_INSTANCE_NOT_ACTIVE then (Inr (), rn_cancel rn)
      else if errorCode throwable = ERR_DISTRIBUTED_OBJECT_DESTROYED then (Inr (), rn_cancel rn)
      else (Inr (), rn_cancel rn))"

section \<open>The topic\<close>

record 'l topic =
  runnersMap :: "(int, 'l runner) sync_map"
  runnerCounter :: int

definition topic_new :: "'l topic" where
  "topic_new = \<lparr>runnersMap = [], runnerCounter = 0\<rparr>"

definition addMessageListener :: "('l, 'm) listener_ops \<Rightarrow> int \<Rightarrow> int res \<Rightarrow> 'l \<Rightarrow> ('l topic, string) comp" where
  "addMessageListener ops readBatchSize tail l tp =
     (let i = wrap32 (runnerCounter tp + 1); tp1 = tp\<lparr>runnerCounter := i\<rparr> in
      case MessageRunner_new ops tail i l of
        Inl e \<Rightarrow> (Inl e, tp1)
      | Inr runner \<Rightarrow> (Inr (to_string_int i), tp1\<lparr>runnersMap := snd (sm_put i (Some (rn_next readBatchSize runner)) (runnersMap tp1))\<rparr>))"

text \<open>The runner removed is cancelled; it is returned for those that still hold it, its executor in particular.\<close>

definition removeMessageListener :: "int \<Rightarrow> string \<Rightarrow> 'l topic \<Rightarrow> bool \<times> 'l runner option \<times> 'l topic" where
  "removeMessageListener junk registrationId tp =
     (let i = to_value_int junk registrationId in
      case sm_get i (runnersMap tp) of
        None \<Rightarrow> (False, None, tp)
      | Some runner \<Rightarrow> (True, Some (rn_cancel runner), tp\<lparr>runnersMap := snd (sm_remove i (runnersMap tp))\<rparr>))"

text \<open>\<open>onDestroy\<close>: all runners are cancelled, then the ring buffer is destroyed.\<close>

definition topic_onDestroy :: "('r, unit) comp \<Rightarrow> 'l topic \<Rightarrow> 'r \<Rightarrow> 'l runner list res \<times> 'l topic \<times> 'r" where
  "topic_onDestroy destroy tp r =
     (case sm_clear (runnersMap tp) of (runners, m) \<Rightarrow>
        (case mapR (\<lambda>e. bindR (deref_ptr (snd e)) (\<lambda>rn. Inr (rn_cancel rn))) runners of
           Inl e \<Rightarrow> (Inl e, tp\<lparr>runnersMap := m\<rparr>, r)
         | Inr rns \<Rightarrow> (case destroy r of (Inl e, r') \<Rightarrow> (Inl e, tp\<lparr>runnersMap := m\<rparr>, r') | (Inr _, r') \<Rightarrow> (Inr rns, tp\<lparr>runnersMap := m\<rparr>, r'))))"

definition topic_publish :: "('v option \<Rightarrow> 'd res) \<Rightarrow> ('d \<Rightarrow> ('r, unit) comp) \<Rightarrow> 'v option \<Rightarrow> ('r, unit) comp" where
  "topic_publish toData publish message = bindM (liftR (toData message)) publish"

section \<open>Conversions are inverse\<close>

lemma is_digit_digit_char: "d < 10 \<Longrightarrow> is_digit (digit_char d)"
  by (simp add: is_digit_def digit_char_def of_char_of)

lemma nat_to_string_digits: "c \<in> set (nat_to_string n) \<Longrightarrow> is_digit c"
proof (induction n rule: nat_to_string.induct)
  case (1 n)
  from 1 show ?case
    by (subst (asm) (2) nat_to_string.simps) (auto simp: is_digit_digit_char split: if_splits)
qed

lemma digit_no_space: "is_digit c \<Longrightarrow> \<not> is_space c \<and> c \<noteq> CHR ''-'' \<and> c \<noteq> CHR ''+''"
  by (auto simp: is_digit_def is_space_def)

lemma to_value_to_string:
  assumes "- (2 ^ 31) \<le> i" "i < 2 ^ 31"
  shows "to_value_int junk (to_string_int i) = i"
proof -
  let ?ds = "\<lambda>n. nat_to_string n"
  have ds: "takeWhile is_digit (?ds n) = ?ds n" for n
    by (auto simp: takeWhile_eq_all_conv dest: nat_to_string_digits)
  have d: "dropWhile is_space (?ds n) = ?ds n" "hd (?ds n) \<noteq> CHR ''-''" "hd (?ds n) \<noteq> CHR ''+''" for n
    using nat_to_string_digits [of "hd (?ds n)" n] digit_no_space [of "hd (?ds n)"]
    by (auto simp: dropWhile_eq_self_iff)
  show ?thesis
  proof (cases "i < 0")
    case True
    then show ?thesis
      using assms ds unfolding to_string_int_def int_to_string_def to_value_int_def Let_def
      by (simp add: is_space_def del: takeWhile_eq_all_conv)
  next
    case False
    then show ?thesis
      using assms ds d unfolding to_string_int_def int_to_string_def to_value_int_def Let_def
      by (simp del: takeWhile_eq_all_conv)
  qed
qed

section \<open>Batches\<close>

fun numbered :: "int \<Rightarrow> 'd list \<Rightarrow> (int \<times> 'd) list" where
  "numbered s [] = []"
| "numbered s (d # ds) = (s, d) # numbered (s + 1) ds"

lemma numbered_append [simp]: "numbered s (xs @ ys) = numbered s xs @ numbered (s + int (length xs)) ys"
  by (induction xs arbitrary: s) (auto simp: algebra_simps)

lemma numbered_simps [simp]:
  "length (numbered s ds) = length ds" "map snd (numbered s ds) = ds" "map fst (numbered s ds) = [s .. s + int (length ds) - 1]"
  by (induction ds arbitrary: s) (auto simp: upto_rec1 algebra_simps)

lemma numbered_set:
  assumes "x \<in> set (numbered s ds)"
  shows "\<exists>j < length ds. x = (s + int j, ds ! j)"
  using assms
proof (induction ds arbitrary: s)
  case (Cons d ds)
  then show ?case by (force simp: nth_Cons intro: exI [of _ "Suc _"])
qed simp

lemma numbered_sorted: "sorted_wrt (<) (map fst (numbered s ds))"
proof (induction ds arbitrary: s)
  case (Cons d ds)
  then show ?case by (auto dest!: numbered_set)
qed simp

text \<open>What a listener becomes when it is handed one message.\<close>

definition hand_over :: "('l, ('v, 'a) MessageImpl) listener_ops \<Rightarrow> ('d, 'v, 'a) topic_codec \<Rightarrow> string \<Rightarrow> int \<times> 'd \<Rightarrow> 'l \<Rightarrow> 'l" where
  "hand_over ops cd name = (\<lambda>(s, d) l. snd (take_up ops cd name s (m_toObject cd d) l))"

definition fresh :: "('d, 'v) data_array \<Rightarrow> nat list \<Rightarrow> 'd list \<Rightarrow> bool" where
  "fresh a is ds \<longleftrightarrow> distinct is \<and> list_all2 (\<lambda>i d. i < length a \<and> a ! i = (d, None)) is ds"

lemma da_size_new [simp]: "da_size (DataArray_new ds) = length ds"
  by (simp add: da_size_def DataArray_new_def)

lemma fresh_new: "fresh (DataArray_new ds) [0 ..< length ds] ds"
  by (auto simp: fresh_def DataArray_new_def list_all2_conv_all_nth)

lemma fresh_get:
  assumes "fresh a (i # is) (d # ds)"
  shows "bindR (da_get toObj i a) (\<lambda>(m, _). Inr m) = toObj d"
    and "fresh (case da_get toObj i a of Inr (_, a') \<Rightarrow> a' | Inl _ \<Rightarrow> a) is ds"
proof -
  have i: "i < length a" "a ! i = (d, None)" "da_checkIndex i a = Inr ()" using assms by (auto simp: fresh_def da_checkIndex_def)
  show "bindR (da_get toObj i a) (\<lambda>(m, _). Inr m) = toObj d"
    using i by (cases "toObj d") (simp_all add: da_get_def)
  have "list_all2 (\<lambda>j d. j < length (a[i := x]) \<and> a[i := x] ! j = (d, None)) is ds" for x
    using assms unfolding fresh_def list_all2_iff by (auto simp: nth_list_update dest: set_zip_leftD)
  then show "fresh (case da_get toObj i a of Inr (_, a') \<Rightarrow> a' | Inl _ \<Rightarrow> a) is ds"
    using assms i by (cases "toObj d") (auto simp: da_get_def fresh_def)
qed

lemma rn_cancel_fields [simp]:
  "rn_listener (rn_cancel rn) = rn_listener rn" "rn_sequence (rn_cancel rn) = rn_sequence rn" "rn_cancelled (rn_cancel rn)"
  "rn_requests (rn_cancel rn) = rn_requests rn"
  by (simp_all add: rn_cancel_def)

lemma rn_next_fields [simp]:
  "rn_listener (rn_next b rn) = rn_listener rn" "rn_sequence (rn_next b rn) = rn_sequence rn" "rn_cancelled (rn_next b rn) = rn_cancelled rn"
  "rn_requests (rn_next b rn) = (if rn_cancelled rn then rn_requests rn else rn_requests rn @ [\<lparr>rq_sequence = rn_sequence rn, rq_maxCount = b\<rparr>])"
  by (simp_all add: rn_next_def)

text \<open>A batch hands over its messages one after the other, the next sequence with each, all of them unless it ends early.\<close>

definition batch_ok :: "('l \<Rightarrow> int \<times> 'd \<Rightarrow> 'l) \<Rightarrow> 'd list \<Rightarrow> 'l runner \<Rightarrow> bool res \<Rightarrow> 'l runner \<Rightarrow> bool" where
  "batch_ok h ds rn r rn' \<longleftrightarrow> (\<exists>n \<le> length ds. rn_listener rn' = foldl h (rn_listener rn) (numbered (rn_sequence rn) (take n ds))
     \<and> rn_requests rn' = rn_requests rn
     \<and> (r = Inr True \<longrightarrow> n = length ds \<and> rn_sequence rn' = rn_sequence rn + int n)
     \<and> (r = Inr False \<longrightarrow> rn_cancelled rn'))"

lemma batch_ok_Cons:
  assumes "batch_ok h ds rn1 r rn'" "rn_listener rn1 = h (rn_listener rn) (rn_sequence rn, d)" "rn_sequence rn1 = rn_sequence rn + 1"
    "rn_requests rn1 = rn_requests rn"
  shows "batch_ok h (d # ds) rn r rn'"
proof -
  obtain n where n: "n \<le> length ds" "rn_listener rn' = foldl h (rn_listener rn1) (numbered (rn_sequence rn1) (take n ds))"
    "rn_requests rn' = rn_requests rn1" "r = Inr True \<longrightarrow> n = length ds \<and> rn_sequence rn' = rn_sequence rn1 + int n" "r = Inr False \<longrightarrow> rn_cancelled rn'"
    using assms(1) unfolding batch_ok_def by blast
  then show ?thesis
    using assms(2-4) unfolding batch_ok_def by (intro exI [of _ "Suc n"]) auto
qed

lemma batch_ok_stop:
  assumes "rn_listener rn' = h (rn_listener rn) (rn_sequence rn, d)" "rn_requests rn' = rn_requests rn" "r \<noteq> Inr True" "r = Inr False \<longrightarrow> rn_cancelled rn'"
  shows "batch_ok h (d # ds) rn r rn'"
  using assms unfolding batch_ok_def by (intro exI [of _ "Suc 0"]) auto

lemma message_loop_ok:
  assumes "fresh a is ds" "message_loop ops cd name cancels is a rn = (r, rn')"
  shows "batch_ok (\<lambda>l sd. hand_over ops cd name sd l) ds rn r rn'"
  using assms
proof (induction "is" arbitrary: a ds rn)
  case Nil
  then show ?case by (auto simp: batch_ok_def fresh_def)
next
  case (Cons i "is")
  then obtain d ds' where ds: "ds = d # ds'" by (auto simp: fresh_def list_all2_Cons1)
  let ?rn = "if cancels i then rn_cancel rn else rn" and ?a = "case da_get (m_toObject cd) i a of Inr (_, a') \<Rightarrow> a' | Inl _ \<Rightarrow> a"
  note g = fresh_get [OF Cons.prems(1) [unfolded ds], of "m_toObject cd"]
  obtain t l where t: "take_up ops cd name (rn_sequence ?rn) (m_toObject cd d) (rn_listener ?rn) = (t, l)" by fastforce
  have same: "rn_sequence ?rn = rn_sequence rn" "rn_listener ?rn = rn_listener rn" "rn_requests ?rn = rn_requests rn" by simp_all
  then have l: "l = hand_over ops cd name (rn_sequence rn, d) (rn_listener rn)" using t by (simp add: hand_over_def)
  show ?case
  proof (cases t)
    case (Inr u)
    then have "message_loop ops cd name cancels is ?a (?rn\<lparr>rn_listener := l, rn_sequence := rn_sequence ?rn + 1\<rparr>) = (r, rn')"
      using Cons.prems(2) t g(1) by (simp add: Let_def)
    from Cons.IH [OF g(2) this] show ?thesis unfolding ds by (rule batch_ok_Cons) (use same l in auto)
  next
    case (Inl e)
    let ?rn1 = "?rn\<lparr>rn_listener := l\<rparr>"
    show ?thesis
    proof (cases "caught e \<and> terminate ops e ?rn1 = Inr False")
      case True
      then have "message_loop ops cd name cancels is ?a (?rn1\<lparr>rn_sequence := rn_sequence ?rn1 + 1\<rparr>) = (r, rn')"
        using Cons.prems(2) t g(1) Inl by (simp add: Let_def)
      from Cons.IH [OF g(2) this] show ?thesis unfolding ds by (rule batch_ok_Cons) (use same l in auto)
    next
      case False
      define v where "v = terminate ops e ?rn1"
      have go: "\<not> (caught e \<and> v = Inr False)" using False v_def by simp
      have "(if \<not> caught e then (Inl e, ?rn1) else case v of Inl t \<Rightarrow> (Inl t, ?rn1) | Inr True \<Rightarrow> (Inr False, rn_cancel ?rn1)
          | Inr False \<Rightarrow> message_loop ops cd name cancels is ?a (?rn1\<lparr>rn_sequence := rn_sequence ?rn1 + 1\<rparr>)) = (r, rn')"
        using Cons.prems(2) t g(1) Inl unfolding v_def by (simp add: Let_def)
      then have "rn' = ?rn1 \<and> (\<exists>x. r = Inl x) \<or> rn' = rn_cancel ?rn1 \<and> r = Inr False"
        using go by (cases v; cases "caught e") (auto split: bool.splits)
      then show ?thesis unfolding ds by (elim disjE conjE exE; intro batch_ok_stop) (use same l in auto)
    qed
  qed
qed

section \<open>A runner and its ring buffer\<close>

text \<open>
  The ring buffer as the runner meets it: everything published so far, of which the part before \<open>head\<close> has been overwritten. The
  executor answers the requests in turn: with items from the requested sequence on, at least one and at most as many as asked for,
  or with a failure, a stale sequence only if the head has passed it. An exception that leaves a handler is recorded.
\<close>

record ('l, 'd) topic_world =
  tw_log :: "'d list"
  tw_head :: nat
  tw_runner :: "'l runner"
  tw_served :: nat
  tw_thrown :: "hz_error option"

definition answered :: "unit res \<times> 'l runner \<Rightarrow> ('l, 'd) topic_world \<Rightarrow> ('l, 'd) topic_world" where
  "answered r w = w\<lparr>tw_runner := snd r, tw_served := Suc (tw_served w), tw_thrown := (case fst r of Inl e \<Rightarrow> Some e | Inr _ \<Rightarrow> tw_thrown w)\<rparr>"

inductive topic_step :: "('l, ('v, 'a) MessageImpl) listener_ops \<Rightarrow> ('d, 'v, 'a) topic_codec \<Rightarrow> string \<Rightarrow> int \<Rightarrow>
    ('l, 'd) topic_world \<Rightarrow> ('l, 'd) topic_world \<Rightarrow> bool" for ops cd name batch where
  Publish: "topic_step ops cd name batch w (w\<lparr>tw_log := tw_log w @ [d]\<rparr>)"
| Overwrite: "\<lbrakk>tw_head w \<le> h; h \<le> length (tw_log w)\<rbrakk> \<Longrightarrow> topic_step ops cd name batch w (w\<lparr>tw_head := h\<rparr>)"
| Remove: "topic_step ops cd name batch w (w\<lparr>tw_runner := rn_cancel (tw_runner w)\<rparr>)"
| Respond: "\<lbrakk>tw_served w < length (rn_requests (tw_runner w)); rq = rn_requests (tw_runner w) ! tw_served w; rq_sequence rq = int i;
    tw_head w \<le> i; 0 < k; int k \<le> rq_maxCount rq; i + k \<le> length (tw_log w)\<rbrakk> \<Longrightarrow>
    topic_step ops cd name batch w (answered (onResponse ops cd name batch cancels (DataArray_new (take k (drop i (tw_log w)))) (tw_runner w)) w)"
| Fail: "\<lbrakk>tw_served w < length (rn_requests (tw_runner w)); rq = rn_requests (tw_runner w) ! tw_served w;
    is_stale f \<Longrightarrow> rq_sequence rq < int (tw_head w); head = Inr (int (tw_head w)) \<or> head = Inl e\<rbrakk> \<Longrightarrow>
    topic_step ops cd name batch w (answered (onFailure ops batch head f (tw_runner w)) w)"

inductive topic_run :: "('l, ('v, 'a) MessageImpl) listener_ops \<Rightarrow> ('d, 'v, 'a) topic_codec \<Rightarrow> string \<Rightarrow> int \<Rightarrow>
    ('l, 'd) topic_world \<Rightarrow> ('l, 'd) topic_world \<Rightarrow> bool" for ops cd name batch where
  run_start: "topic_run ops cd name batch w w"
| run_step: "\<lbrakk>topic_run ops cd name batch w w'; topic_step ops cd name batch w' w''\<rbrakk> \<Longrightarrow> topic_run ops cd name batch w w''"

definition topic_start :: "int \<Rightarrow> 'd list \<Rightarrow> nat \<Rightarrow> 'l runner \<Rightarrow> ('l, 'd) topic_world" where
  "topic_start batch log h rn = \<lparr>tw_log = log, tw_head = h, tw_runner = rn_next batch rn, tw_served = 0, tw_thrown = None\<rparr>"

text \<open>One request is out as long as the runner lives, and none after an exception.\<close>

definition live :: "('l, 'd) topic_world \<Rightarrow> bool" where
  "live w \<longleftrightarrow> \<not> rn_cancelled (tw_runner w) \<and> tw_thrown w = None"

definition requests_ok :: "int \<Rightarrow> ('l, 'd) topic_world \<Rightarrow> bool" where
  "requests_ok batch w \<longleftrightarrow>
     (live w \<longrightarrow> (\<exists>rs. rn_requests (tw_runner w) = rs @ [\<lparr>rq_sequence = rn_sequence (tw_runner w), rq_maxCount = batch\<rparr>] \<and> tw_served w = length rs))
     \<and> (\<not> rn_cancelled (tw_runner w) \<and> tw_thrown w \<noteq> None \<longrightarrow> tw_served w = length (rn_requests (tw_runner w)))"

text \<open>What has been handed over, from the first sequence on.\<close>

definition history_ok :: "('l \<Rightarrow> int \<times> 'd \<Rightarrow> 'l) \<Rightarrow> 'l \<Rightarrow> int \<Rightarrow> (int \<times> 'd) list \<Rightarrow> bool \<Rightarrow> ('l, 'd) topic_world \<Rightarrow> bool" where
  "history_ok h l0 s0 hist gapless w \<longleftrightarrow> rn_listener (tw_runner w) = foldl h l0 hist \<and> sorted_wrt (<) (map fst hist)
     \<and> (\<forall>(s, d) \<in> set hist. s0 \<le> s \<and> 0 \<le> s \<and> nat s < length (tw_log w) \<and> tw_log w ! nat s = d)
     \<and> (live w \<longrightarrow> s0 \<le> rn_sequence (tw_runner w) \<and> (\<forall>s \<in> fst ` set hist. s < rn_sequence (tw_runner w)))
     \<and> (gapless \<longrightarrow> hist = numbered s0 (map snd hist) \<and> (live w \<longrightarrow> rn_sequence (tw_runner w) = s0 + int (length hist)))"

definition handed_over :: "('l \<Rightarrow> int \<times> 'd \<Rightarrow> 'l) \<Rightarrow> 'l \<Rightarrow> int \<Rightarrow> bool \<Rightarrow> ('l, 'd) topic_world \<Rightarrow> bool" where
  "handed_over h l0 s0 gapless w \<longleftrightarrow> (\<exists>hist. history_ok h l0 s0 hist gapless w)"

lemma onResponse_cases:
  assumes "onResponse ops cd name batch cancels (DataArray_new ds) rn = (r, rn')" "\<not> rn_cancelled rn"
  obtains n where "n \<le> length ds" "rn_listener rn' = foldl (\<lambda>l sd. hand_over ops cd name sd l) (rn_listener rn) (numbered (rn_sequence rn) (take n ds))"
    "\<not> is_ok r \<and> rn_requests rn' = rn_requests rn \<or> is_ok r \<and> rn_cancelled rn'
      \<or> is_ok r \<and> \<not> rn_cancelled rn' \<and> n = length ds \<and> rn_sequence rn' = rn_sequence rn + int n
        \<and> rn_requests rn' = rn_requests rn @ [\<lparr>rq_sequence = rn_sequence rn', rq_maxCount = batch\<rparr>]"
proof -
  obtain b rn1 where b: "message_loop ops cd name cancels [0 ..< length ds] (DataArray_new ds) rn = (b, rn1)" by fastforce
  from message_loop_ok [OF fresh_new b] obtain n where n: "n \<le> length ds"
    "rn_listener rn1 = foldl (\<lambda>l sd. hand_over ops cd name sd l) (rn_listener rn) (numbered (rn_sequence rn) (take n ds))"
    "rn_requests rn1 = rn_requests rn" "b = Inr True \<longrightarrow> n = length ds \<and> rn_sequence rn1 = rn_sequence rn + int n" "b = Inr False \<longrightarrow> rn_cancelled rn1"
    unfolding batch_ok_def by blast
  have out: "(case b of Inl e \<Rightarrow> (Inl e, rn1) | Inr False \<Rightarrow> (Inr (), rn1) | Inr True \<Rightarrow> (Inr (), rn_next batch rn1)) = (r, rn')"
    using assms b by (cases b) (auto simp: onResponse_def)
  show ?thesis
  proof (rule that [OF n(1)])
    show "rn_listener rn' = foldl (\<lambda>l sd. hand_over ops cd name sd l) (rn_listener rn) (numbered (rn_sequence rn) (take n ds))"
      using out n(2) by (auto split: sum.splits bool.splits)
    show "\<not> is_ok r \<and> rn_requests rn' = rn_requests rn \<or> is_ok r \<and> rn_cancelled rn'
      \<or> is_ok r \<and> \<not> rn_cancelled rn' \<and> n = length ds \<and> rn_sequence rn' = rn_sequence rn + int n
        \<and> rn_requests rn' = rn_requests rn @ [\<lparr>rq_sequence = rn_sequence rn', rq_maxCount = batch\<rparr>]"
      using out n(3-5) by (cases "rn_cancelled rn1") (auto split: sum.splits bool.splits)
  qed
qed

lemma onFailure_cases:
  assumes "onFailure ops batch head f rn = (r, rn')" "\<not> rn_cancelled rn"
  obtains "\<not> is_ok r" "rn' = rn" "is_stale f" | "is_ok r" "rn_cancelled rn'" "rn_listener rn' = rn_listener rn"
  | "is_ok r" "\<not> rn_cancelled rn'" "rn_listener rn' = rn_listener rn"
    "rn_sequence rn' = rn_sequence rn \<or> is_stale f \<and> isLossTolerant ops (rn_listener rn) \<and> head = Inr (rn_sequence rn')"
    "rn_requests rn' = rn_requests rn @ [\<lparr>rq_sequence = rn_sequence rn', rq_maxCount = batch\<rparr>]"
  using assms by (auto simp: onFailure_def split: if_splits sum.splits)

lemma answered_fields [simp]:
  "tw_runner (answered r w) = snd r" "tw_log (answered r w) = tw_log w" "tw_head (answered r w) = tw_head w"
  "tw_served (answered r w) = Suc (tw_served w)"
  "is_ok (fst r) \<Longrightarrow> tw_thrown (answered r w) = tw_thrown w" "\<not> is_ok (fst r) \<Longrightarrow> tw_thrown (answered r w) \<noteq> None"
  by (auto simp: answered_def is_ok_def split: sum.splits)

text \<open>A handler is called for the one request that is out.\<close>

lemma served_request:
  assumes "requests_ok batch w" "tw_served w < length (rn_requests (tw_runner w))" "\<not> rn_cancelled (tw_runner w)"
  shows "live w" "rn_requests (tw_runner w) ! tw_served w = \<lparr>rq_sequence = rn_sequence (tw_runner w), rq_maxCount = batch\<rparr>"
    "length (rn_requests (tw_runner w)) = Suc (tw_served w)"
  using assms by (auto simp: requests_ok_def live_def)

lemma topic_step_requests:
  assumes "topic_step ops cd name batch w w'" "requests_ok batch w"
  shows "requests_ok batch w'"
  using assms
proof (induction rule: topic_step.induct)
  case (Respond w rq i k cancels)
  let ?ds = "take k (drop i (tw_log w))"
  obtain r rn' where o: "onResponse ops cd name batch cancels (DataArray_new ?ds) (tw_runner w) = (r, rn')" by fastforce
  show ?case
  proof (cases "rn_cancelled (tw_runner w)")
    case True
    then show ?thesis by (simp add: onResponse_def requests_ok_def live_def)
  next
    case False
    note s = served_request [OF Respond.prems Respond.hyps(1) False]
    from o False show ?thesis
    proof (cases rule: onResponse_cases)
      case (1 n)
      then show ?thesis using o s by (cases "is_ok r") (auto simp: requests_ok_def live_def)
    qed
  qed
next
  case (Fail w rq f head e)
  obtain r rn' where o: "onFailure ops batch head f (tw_runner w) = (r, rn')" by fastforce
  show ?case
  proof (cases "rn_cancelled (tw_runner w)")
    case True
    then show ?thesis by (simp add: onFailure_def requests_ok_def live_def)
  next
    case False
    note s = served_request [OF Fail.prems Fail.hyps(1) False]
    from o False show ?thesis
      by (cases rule: onFailure_cases) (use o s in \<open>auto simp: requests_ok_def live_def\<close>)
  qed
qed (auto simp: requests_ok_def live_def)

lemma topic_step_history:
  assumes "topic_step ops cd name batch w w'" "requests_ok batch w" "handed_over (\<lambda>l sd. hand_over ops cd name sd l) l0 s0 gapless w"
    and "gapless \<Longrightarrow> \<forall>l. \<not> isLossTolerant ops l"
  shows "handed_over (\<lambda>l sd. hand_over ops cd name sd l) l0 s0 gapless w'"
  using assms
proof (induction rule: topic_step.induct)
  case (Publish w d)
  then show ?case by (fastforce simp: handed_over_def history_ok_def live_def nth_append)
next
  case (Respond w rq i k cancels)
  let ?ds = "take k (drop i (tw_log w))" and ?h = "\<lambda>l sd. hand_over ops cd name sd l"
  obtain r rn' where o: "onResponse ops cd name batch cancels (DataArray_new ?ds) (tw_runner w) = (r, rn')" by fastforce
  obtain hist where hist: "history_ok ?h l0 s0 hist gapless w" using Respond.prems(2) by (auto simp: handed_over_def)
  show ?case
  proof (cases "rn_cancelled (tw_runner w)")
    case True
    then have "history_ok ?h l0 s0 hist gapless (answered (onResponse ops cd name batch cancels (DataArray_new ?ds) (tw_runner w)) w)"
      using hist by (simp add: onResponse_def history_ok_def live_def)
    then show ?thesis by (auto simp: handed_over_def)
  next
    case False
    note s = served_request [OF Respond.prems(1) Respond.hyps(1) False]
    then have sq: "rn_sequence (tw_runner w) = int i" using Respond.hyps(2,3) by simp
    from o False show ?thesis
    proof (cases rule: onResponse_cases)
      case (1 n)
      have nk: "n \<le> k" "n + i \<le> length (tw_log w)" using 1(1) Respond.hyps(7) by auto
      have tk: "take n ?ds = take n (drop i (tw_log w))" using nk by (simp add: min_absorb1)
      let ?new = "numbered (int i) (take n (drop i (tw_log w)))"
      have len: "length (take n (drop i (tw_log w))) = n" using nk by auto
      have el: "s \<in> set ?new \<Longrightarrow> \<exists>j < n. s = (int (i + j), tw_log w ! (i + j))" for s
        using numbered_set [of s "int i" "take n (drop i (tw_log w))"] nk len by auto
      have new: "\<forall>s \<in> fst ` set ?new. s < int i + int n" by (auto dest!: el)
      note h = hist [unfolded history_ok_def]
      have before: "s0 \<le> int i" "\<forall>s \<in> fst ` set hist. s < int i" using h s(1) sq by auto
      have "history_ok ?h l0 s0 (hist @ ?new) gapless (answered (r, rn') w)"
        unfolding history_ok_def
      proof (intro conjI impI)
        show "rn_listener (tw_runner (answered (r, rn') w)) = foldl ?h l0 (hist @ ?new)" using h 1(2) sq unfolding tk by simp
        show "sorted_wrt (<) (map fst (hist @ ?new))"
          using h numbered_sorted [of "int i" "take n (drop i (tw_log w))"] before(2) by (auto simp: sorted_wrt_append dest!: el)
        show "\<forall>(s, d) \<in> set (hist @ ?new). s0 \<le> s \<and> 0 \<le> s \<and> nat s < length (tw_log (answered (r, rn') w)) \<and> tw_log (answered (r, rn') w) ! nat s = d"
        proof (clarsimp, elim disjE)
          fix x d assume "(x, d) \<in> set hist"
          then show "s0 \<le> x \<and> 0 \<le> x \<and> nat x < length (tw_log w) \<and> tw_log w ! nat x = d" using h by auto
        next
          fix x d assume "(x, d) \<in> set ?new"
          from el [OF this] obtain j where "j < n" "x = int (i + j)" "d = tw_log w ! (i + j)" by auto
          then show "s0 \<le> x \<and> 0 \<le> x \<and> nat x < length (tw_log w) \<and> tw_log w ! nat x = d" using before(1) nk by (simp del: of_nat_add)
        qed
        assume "live (answered (r, rn') w)"
        then have "is_ok r" "\<not> rn_cancelled rn'" by (auto simp: live_def is_ok_def answered_def split: sum.splits)
        then have q: "n = length ?ds" "rn_sequence rn' = int i + int n" using 1(3) sq by auto
        then show "s0 \<le> rn_sequence (tw_runner (answered (r, rn') w))" using before by simp
        show "\<forall>s \<in> fst ` set (hist @ ?new). s < rn_sequence (tw_runner (answered (r, rn') w))"
          using q(2) before(2) new unfolding set_append image_Un by fastforce
        show "gapless \<Longrightarrow> rn_sequence (tw_runner (answered (r, rn') w)) = s0 + int (length (hist @ ?new))"
          using q h s(1) sq len by simp
      next
        assume g: "gapless"
        then have "hist = numbered s0 (map snd hist)" "int i = s0 + int (length hist)" using h s(1) sq by auto
        then show "hist @ ?new = numbered s0 (map snd (hist @ ?new))" by (simp del: map_append add: map_append)
      qed
      then show ?thesis unfolding o by (auto simp: handed_over_def)
    qed
  qed
next
  case (Fail w rq f head e)
  let ?h = "\<lambda>l sd. hand_over ops cd name sd l"
  obtain r rn' where o: "onFailure ops batch head f (tw_runner w) = (r, rn')" by fastforce
  obtain hist where hist: "history_ok ?h l0 s0 hist gapless w" using Fail.prems(2) by (auto simp: handed_over_def)
  have "history_ok ?h l0 s0 hist gapless (answered (r, rn') w)"
  proof (cases "rn_cancelled (tw_runner w)")
    case True
    then show ?thesis using hist o by (auto simp: onFailure_def history_ok_def live_def)
  next
    case False
    note s = served_request [OF Fail.prems(1) Fail.hyps(1) False]
    from o False show ?thesis
    proof (cases rule: onFailure_cases)
      case 3
      have "rn_sequence rn' = rn_sequence (tw_runner w) \<or> \<not> gapless \<and> rn_sequence (tw_runner w) < rn_sequence rn'"
        using 3(4) Fail.hyps(2-4) Fail.prems(3) s(2) by auto
      then show ?thesis using hist s(1) 3(3) unfolding history_ok_def by (fastforce simp: live_def)
    qed (use hist in \<open>auto simp: history_ok_def live_def\<close>)
  qed
  then show ?case unfolding o by (auto simp: handed_over_def)
qed (fastforce simp: handed_over_def history_ok_def live_def)+

section \<open>What a listener gets\<close>

lemma topic_run_ok:
  assumes "topic_run ops cd name batch w0 w" "w0 = topic_start batch log h rn" "MessageRunner_new ops tail n l0 = Inr rn"
    and "gapless \<Longrightarrow> \<forall>l. \<not> isLossTolerant ops l"
  shows "requests_ok batch w \<and> handed_over (\<lambda>l sd. hand_over ops cd name sd l) l0 (rn_sequence rn) gapless w"
  using assms
proof (induction rule: topic_run.induct)
  case (run_start w)
  have rn: "rn_listener rn = l0" "\<not> rn_cancelled rn" "rn_requests rn = []"
    using run_start(2) by (auto simp: MessageRunner_new_def Let_def bindR_def split: sum.splits if_splits)
  then have "history_ok (\<lambda>l sd. hand_over ops cd name sd l) l0 (rn_sequence rn) [] gapless w"
    by (simp add: run_start(1) topic_start_def history_ok_def)
  moreover have "requests_ok batch w" using rn by (simp add: run_start(1) topic_start_def requests_ok_def live_def)
  ultimately show ?case by (auto simp: handed_over_def)
next
  case (run_step w w' w'')
  then show ?case using topic_step_requests [OF run_step(2)] topic_step_history [OF run_step(2)] by blast
qed

lemma numbered_of_log:
  assumes "\<forall>(s, d) \<in> set (numbered s0 ds). 0 \<le> s \<and> nat s < length log \<and> log ! nat s = d"
  shows "ds = take (length ds) (drop (nat s0) log)"
  using assms
proof (induction ds arbitrary: s0)
  case (Cons d ds)
  have s0: "0 \<le> s0" "nat s0 < length log" "log ! nat s0 = d" using Cons.prems by auto
  have "ds = take (length ds) (drop (nat (s0 + 1)) log)" using Cons.prems by (intro Cons.IH) auto
  then show ?case using s0 by (simp add: nat_add_distrib Cons_nth_drop_Suc [symmetric])
qed simp


text \<open>Claim C30: a runner never stalls and never runs twice: as long as no handler has thrown, it is cancelled or exactly one
  of its requests is unanswered, the last, for the next sequence.
\<close>

theorem topic_runner_never_stalls:
  assumes "MessageRunner_new ops tail n l0 = Inr rn" "topic_run ops cd name batch (topic_start batch log h rn) w" "tw_thrown w = None"
  shows "rn_cancelled (tw_runner w) \<or> (\<exists>answered. tw_served w = length answered
    \<and> rn_requests (tw_runner w) = answered @ [\<lparr>rq_sequence = rn_sequence (tw_runner w), rq_maxCount = batch\<rparr>])"
  using topic_run_ok [OF assms(2) refl assms(1), of False] assms(3) by (auto simp: requests_ok_def live_def)

text \<open>What a handler can throw: when the head of the ring buffer cannot be read, the runner neither goes on nor ends.\<close>

lemma stale_without_head_stalls:
  assumes "\<not> rn_cancelled rn" "is_stale f"
  shows "onFailure ops batch (Inl e) f rn = (Inl e, rn)"
  using assms by (simp add: onFailure_def is_stale_def ERR_TIMEOUT_def ERR_EXECUTION_def)

text \<open>A cancellation in the middle of a batch does not end it: the rest of the batch is still handed over.\<close>

lemma cancelled_batch_goes_on:
  assumes "\<And>s d l. fst (take_up ops cd name s (m_toObject cd d) l) = Inr ()" "\<not> rn_cancelled rn"
  shows "rn_listener (snd (onResponse ops cd name batch cancels (DataArray_new ds) rn))
    = foldl (\<lambda>l sd. hand_over ops cd name sd l) (rn_listener rn) (numbered (rn_sequence rn) ds)"
proof -
  have loop: "fst (message_loop ops cd name cancels is a rn) = Inr True" if "fresh a is ds" for "is" a ds rn
    using that
  proof (induction "is" arbitrary: a ds rn)
    case (Cons i "is")
    then obtain d ds' where ds: "ds = d # ds'" by (auto simp: fresh_def list_all2_Cons1)
    note g = fresh_get [OF Cons.prems [unfolded ds], of "m_toObject cd"]
    let ?rn = "if cancels i then rn_cancel rn else rn"
    obtain l where "take_up ops cd name (rn_sequence ?rn) (m_toObject cd d) (rn_listener ?rn) = (Inr (), l)"
      using assms(1) by (metis prod.collapse)
    then show ?case using g(1) Cons.IH [OF g(2)] by (simp add: Let_def)
  qed simp
  obtain b rn1 where b: "message_loop ops cd name cancels [0 ..< length ds] (DataArray_new ds) rn = (b, rn1)" by fastforce
  have "b = Inr True" using loop [OF fresh_new] b by (metis fst_conv)
  moreover from this message_loop_ok [OF fresh_new b]
  have "rn_listener rn1 = foldl (\<lambda>l sd. hand_over ops cd name sd l) (rn_listener rn) (numbered (rn_sequence rn) ds)"
    by (auto simp: batch_ok_def)
  ultimately show ?thesis using b assms(2) by (simp add: onResponse_def)
qed

section \<open>Registrations\<close>

text \<open>The registration id that \<open>addMessageListener\<close> returns removes the runner it started, once: the runner is cancelled,
  a second removal reports that there is nothing to remove, and the other registrations stay.
\<close>

theorem topic_registration_removed_once:
  assumes "sm_ok (runnersMap tp)" "0 \<le> runnerCounter tp" "runnerCounter tp < 2 ^ 31 - 1"
    and "MessageRunner_new ops tail (runnerCounter tp + 1) l = Inr rn"
  shows "\<exists>i tp1 tp2. addMessageListener ops batch tail l tp = (Inr i, tp1)
    \<and> removeMessageListener junk i tp1 = (True, Some (rn_cancel (rn_next batch rn)), tp2) \<and> removeMessageListener junk i tp2 = (False, None, tp2)
    \<and> (\<forall>j. j \<noteq> runnerCounter tp + 1 \<longrightarrow> sm_get j (runnersMap tp2) = sm_get j (runnersMap tp))"
proof -
  let ?c = "runnerCounter tp + 1" and ?rn = "rn_next batch rn"
  let ?m1 = "snd (sm_put ?c (Some ?rn) (runnersMap tp))"
  let ?tp1 = "tp\<lparr>runnerCounter := ?c, runnersMap := ?m1\<rparr>" and ?m2 = "snd (sm_remove ?c ?m1)"
  have c: "wrap32 ?c = ?c" using assms(2,3) by (intro wrap32_id) auto
  have v: "to_value_int junk (to_string_int ?c) = ?c" using assms(2,3) by (intro to_value_to_string) auto
  have ok: "sm_ok ?m1" using sync.put_law [OF assms(1), of ?c "Some ?rn" "fst (sm_put ?c (Some ?rn) (runnersMap tp))" ?m1] by simp
  have ok2: "sm_ok ?m2" "sm_abs ?m2 = (sm_abs ?m1)(?c := None)"
    using sync.remove_law [OF ok, of ?c "fst (sm_remove ?c ?m1)" ?m2] by simp_all
  have add: "addMessageListener ops batch tail l tp = (Inr (to_string_int ?c), ?tp1)"
    using c assms(4) by (simp add: addMessageListener_def Let_def)
  moreover have "removeMessageListener junk (to_string_int ?c) ?tp1 = (True, Some (rn_cancel ?rn), ?tp1\<lparr>runnersMap := ?m2\<rparr>)"
    using v sync.put_get [OF assms(1), of ?c "Some ?rn"] by (simp add: removeMessageListener_def Let_def)
  moreover have "removeMessageListener junk (to_string_int ?c) (?tp1\<lparr>runnersMap := ?m2\<rparr>) = (False, None, ?tp1\<lparr>runnersMap := ?m2\<rparr>)"
    using v sync.remove_get [OF ok, of ?c] by (simp add: removeMessageListener_def Let_def)
  moreover have "sm_get j ?m2 = sm_get j (runnersMap tp)" if "j \<noteq> ?c" for j
    using that sync.put_get_other [OF assms(1), of j ?c "Some ?rn"] ok2 sync.get_law [OF ok] sync.get_law [OF ok2(1)] by simp
  ultimately show ?thesis by (intro exI [of _ "to_string_int ?c"] exI [of _ ?tp1] exI [of _ "?tp1\<lparr>runnersMap := ?m2\<rparr>"]) simp
qed

text \<open>An empty registration id removes whatever registration the variable that was not initialized happens to name.\<close>

lemma empty_registration_removes_any:
  assumes "sm_get junk (runnersMap tp) = Some rn"
  shows "removeMessageListener junk [] tp = (True, Some (rn_cancel rn), tp\<lparr>runnersMap := snd (sm_remove junk (runnersMap tp))\<rparr>)"
  using assms by (simp add: removeMessageListener_def to_value_int_def Let_def)

section \<open>Examples\<close>

text \<open>A listener that keeps the sequences and numbers it is told.\<close>

definition log_listener :: "(int list, (int, unit) MessageImpl) listener_ops" where
  "log_listener = \<lparr>retrieveInitialSequence = (\<lambda>_. 0), storeSequence = (\<lambda>s l. (Inr (), l @ [s])),
     onMessage = (\<lambda>m l. (Inr (), l @ [case msg_object m of None \<Rightarrow> 0 | Some v \<Rightarrow> v])), isLossTolerant = (\<lambda>_. False), isTerminal = (\<lambda>_ _. Inr True)\<rparr>"

definition number_topic :: "(int, int, unit) topic_codec" where
  "number_topic = \<lparr>m_toObject = (\<lambda>d. Inr (Some \<lparr>publishTime = 0, publisherAddress = None, payload = d\<rparr>)), p_toObject = (\<lambda>d. Inr (Some d))\<rparr>"

definition log_runner :: "int list \<Rightarrow> int list runner" where
  "log_runner l = \<lparr>rn_id = 1, rn_listener = l, rn_sequence = 0, rn_cancelled = False, rn_requests = [], rn_stops = 0\<rparr>"

lemma log_runner_new: "MessageRunner_new log_listener (Inr (- 1)) 1 [] = Inr (log_runner [])"
  by (simp add: MessageRunner_new_def log_listener_def log_runner_def)

lemma log_run:
  "\<exists>w. topic_run log_listener number_topic [] 10 (topic_start 10 [7, 8] 0 (log_runner [])) w
    \<and> rn_listener (tw_runner w) = [0, 7, 1, 8] \<and> tw_log w = [7, 8] \<and> tw_thrown w = None \<and> \<not> rn_cancelled (tw_runner w)"
proof -
  let ?w = "topic_start 10 [7, 8] 0 (log_runner []) :: (int list, int) topic_world"
  let ?w' = "answered (onResponse log_listener number_topic [] 10 (\<lambda>_. False) (DataArray_new (take 2 (drop 0 (tw_log ?w)))) (tw_runner ?w)) ?w"
  have "topic_step log_listener number_topic [] 10 ?w ?w'"
    by (rule Respond [where i = 0]) (auto simp: topic_start_def log_runner_def rn_next_def)
  then have "topic_run log_listener number_topic [] 10 ?w ?w'" by (rule run_step [OF run_start])
  moreover have "onResponse log_listener number_topic [] 10 (\<lambda>_. False) (DataArray_new [7, 8]) (rn_next 10 (log_runner []))
      = (Inr (), rn_next 10 ((rn_next 10 (log_runner []))\<lparr>rn_listener := [0, 7, 1, 8], rn_sequence := 2\<rparr>))"
    by (simp add: onResponse_def upt_rec da_get_def da_checkIndex_def DataArray_new_def da_size_def take_up_def process_def toMessage_def
        deref_ptr_def number_topic_def log_listener_def log_runner_def rn_next_def bindM_def liftR_def)
  ultimately show ?thesis
    by (intro exI [of _ ?w']) (simp add: topic_start_def answered_def log_runner_def rn_next_def)
qed


lemma topic_runner_never_stalls_witness:
  "\<exists>w. topic_run log_listener number_topic [] 10 (topic_start 10 [7, 8] 0 (log_runner [])) w \<and> \<not> rn_cancelled (tw_runner w)
    \<and> tw_served w < length (rn_requests (tw_runner w))"
proof -
  obtain w where w: "topic_run log_listener number_topic [] 10 (topic_start 10 [7, 8] 0 (log_runner [])) w" "tw_thrown w = None"
    "\<not> rn_cancelled (tw_runner w)" using log_run by blast
  from topic_runner_never_stalls [OF log_runner_new w(1,2)] w show ?thesis by (intro exI [of _ w]) auto
qed

lemma topic_registration_removed_once_witness:
  "\<exists>i tp1 tp2. addMessageListener log_listener 10 (Inr (- 1)) [] topic_new = (Inr i, tp1)
    \<and> removeMessageListener 5 i tp1 = (True, Some (rn_cancel (rn_next 10 (log_runner []))), tp2) \<and> removeMessageListener 5 i tp2 = (False, None, tp2)"
  using topic_registration_removed_once [of topic_new log_listener "Inr (- 1)" "[]" "log_runner []" 10 5] log_runner_new
  by (auto simp: topic_new_def)

end
