(* ===== verification/Collections.thy ===== *)
theory Collections
  imports Reliable_Topic
begin

text \<open>
  The distributed lists, sets, queues and multimaps of \<open>client/IList.h\<close>, \<open>client/ISet.h\<close>, \<open>client/IQueue.h\<close> and \<open>client/MultiMap.h\<close>, typed classes over messages
  of serialized elements (\<open>IListImpl\<close> and the others, which have no body in the sources and are records of calls), with the conversions of
  \<open>client/proxy/ProxyImpl.h\<close> and the adaptors of \<open>client/adaptor/\<close> that hand out arrays which deserialize on demand. \<open>toData\<close> and \<open>toObj\<close> stand for the
  serialization service.
\<close>

section \<open>Conversions\<close>

definition toDataCollection :: "('e \<Rightarrow> 'd res) \<Rightarrow> 'e list \<Rightarrow> 'd list res" where
  "toDataCollection toData elements = mapR toData elements"

text \<open>The result of the deserialization is dereferenced.\<close>

definition toObjectCollection :: "('d \<Rightarrow> 'e option res) \<Rightarrow> 'd list \<Rightarrow> 'e list res" where
  "toObjectCollection toObj collection = mapR (\<lambda>d. bindR (toObj d) deref_ptr) collection"

definition toObjectEntrySet :: "('d \<Rightarrow> 'k option res) \<Rightarrow> ('d \<Rightarrow> 'v option res) \<Rightarrow> ('d \<times> 'd) list \<Rightarrow> ('k \<times> 'v) list res" where
  "toObjectEntrySet toKey toValue dataEntrySet =
     mapR (\<lambda>(kd, vd). bindR (bindR (toKey kd) deref_ptr) (\<lambda>k. bindR (bindR (toValue vd) deref_ptr) (\<lambda>v. Inr (k, v)))) dataEntrySet"

section \<open>Lists\<close>

record ('s, 'd) list_impl =
  li_size :: "('s, int) comp"
  li_isEmpty :: "('s, bool) comp"
  li_contains :: "'d \<Rightarrow> ('s, bool) comp"
  li_toArrayData :: "('s, 'd list) comp"
  li_add :: "'d \<Rightarrow> ('s, bool) comp"
  li_remove :: "'d \<Rightarrow> ('s, bool) comp"
  li_containsAll :: "'d list \<Rightarrow> ('s, bool) comp"
  li_addAll :: "'d list \<Rightarrow> ('s, bool) comp"
  li_addAll_at :: "int \<Rightarrow> 'd list \<Rightarrow> ('s, bool) comp"
  li_removeAll :: "'d list \<Rightarrow> ('s, bool) comp"
  li_retainAll :: "'d list \<Rightarrow> ('s, bool) comp"
  li_clear :: "('s, unit) comp"
  li_getData :: "int \<Rightarrow> ('s, 'd option) comp"
  li_setData :: "int \<Rightarrow> 'd \<Rightarrow> ('s, 'd option) comp"
  li_add_at :: "int \<Rightarrow> 'd \<Rightarrow> ('s, unit) comp"
  li_removeData :: "int \<Rightarrow> ('s, 'd option) comp"
  li_indexOf :: "'d \<Rightarrow> ('s, int) comp"
  li_lastIndexOf :: "'d \<Rightarrow> ('s, int) comp"
  li_subListData :: "int \<Rightarrow> int \<Rightarrow> ('s, 'd list) comp"

definition il_size :: "('s, 'd) list_impl \<Rightarrow> ('s, int) comp" where
  "il_size impl = li_size impl"

definition il_isEmpty :: "('s, 'd) list_impl \<Rightarrow> ('s, bool) comp" where
  "il_isEmpty impl = li_isEmpty impl"

definition il_contains :: "('s, 'd) list_impl \<Rightarrow> ('e \<Rightarrow> 'd res) \<Rightarrow> 'e \<Rightarrow> ('s, bool) comp" where
  "il_contains impl toData element = bindM (liftR (toData element)) (\<lambda>d. li_contains impl d)"

definition il_toArray :: "('s, 'd) list_impl \<Rightarrow> ('d \<Rightarrow> 'e option res) \<Rightarrow> ('s, 'e list) comp" where
  "il_toArray impl toObj = bindM (li_toArrayData impl) (\<lambda>ds. liftR (toObjectCollection toObj ds))"

definition il_add :: "('s, 'd) list_impl \<Rightarrow> ('e \<Rightarrow> 'd res) \<Rightarrow> 'e \<Rightarrow> ('s, bool) comp" where
  "il_add impl toData element = bindM (liftR (toData element)) (\<lambda>d. li_add impl d)"

definition il_remove :: "('s, 'd) list_impl \<Rightarrow> ('e \<Rightarrow> 'd res) \<Rightarrow> 'e \<Rightarrow> ('s, bool) comp" where
  "il_remove impl toData element = bindM (liftR (toData element)) (\<lambda>d. li_remove impl d)"

definition il_containsAll :: "('s, 'd) list_impl \<Rightarrow> ('e \<Rightarrow> 'd res) \<Rightarrow> 'e list \<Rightarrow> ('s, bool) comp" where
  "il_containsAll impl toData elements = bindM (liftR (toDataCollection toData elements)) (\<lambda>ds. li_containsAll impl ds)"

definition il_addAll :: "('s, 'd) list_impl \<Rightarrow> ('e \<Rightarrow> 'd res) \<Rightarrow> 'e list \<Rightarrow> ('s, bool) comp" where
  "il_addAll impl toData elements = bindM (liftR (toDataCollection toData elements)) (\<lambda>ds. li_addAll impl ds)"

definition il_removeAll :: "('s, 'd) list_impl \<Rightarrow> ('e \<Rightarrow> 'd res) \<Rightarrow> 'e list \<Rightarrow> ('s, bool) comp" where
  "il_removeAll impl toData elements = bindM (liftR (toDataCollection toData elements)) (\<lambda>ds. li_removeAll impl ds)"

definition il_retainAll :: "('s, 'd) list_impl \<Rightarrow> ('e \<Rightarrow> 'd res) \<Rightarrow> 'e list \<Rightarrow> ('s, bool) comp" where
  "il_retainAll impl toData elements = bindM (liftR (toDataCollection toData elements)) (\<lambda>ds. li_retainAll impl ds)"

definition il_addAll_at :: "('s, 'd) list_impl \<Rightarrow> ('e \<Rightarrow> 'd res) \<Rightarrow> int \<Rightarrow> 'e list \<Rightarrow> ('s, bool) comp" where
  "il_addAll_at impl toData index elements = bindM (liftR (toDataCollection toData elements)) (\<lambda>ds. li_addAll_at impl index ds)"

definition il_clear :: "('s, 'd) list_impl \<Rightarrow> ('s, unit) comp" where
  "il_clear impl = li_clear impl"

definition il_get :: "('s, 'd) list_impl \<Rightarrow> ('d \<Rightarrow> 'e option res) \<Rightarrow> int \<Rightarrow> ('s, 'e option) comp" where
  "il_get impl toObj index = bindM (li_getData impl index) (\<lambda>d. liftR (toObject_auto toObj d))"

definition il_set :: "('s, 'd) list_impl \<Rightarrow> ('e \<Rightarrow> 'd res) \<Rightarrow> ('d \<Rightarrow> 'e option res) \<Rightarrow> int \<Rightarrow> 'e \<Rightarrow> ('s, 'e option) comp" where
  "il_set impl toData toObj index element =
     bindM (liftR (toData element)) (\<lambda>d. bindM (li_setData impl index d) (\<lambda>old. liftR (toObject_auto toObj old)))"

definition il_add_at :: "('s, 'd) list_impl \<Rightarrow> ('e \<Rightarrow> 'd res) \<Rightarrow> int \<Rightarrow> 'e \<Rightarrow> ('s, unit) comp" where
  "il_add_at impl toData index element = bindM (liftR (toData element)) (\<lambda>d. li_add_at impl index d)"

definition il_remove_at :: "('s, 'd) list_impl \<Rightarrow> ('d \<Rightarrow> 'e option res) \<Rightarrow> int \<Rightarrow> ('s, 'e option) comp" where
  "il_remove_at impl toObj index = bindM (li_removeData impl index) (\<lambda>d. liftR (toObject_auto toObj d))"

definition il_indexOf :: "('s, 'd) list_impl \<Rightarrow> ('e \<Rightarrow> 'd res) \<Rightarrow> 'e \<Rightarrow> ('s, int) comp" where
  "il_indexOf impl toData element = bindM (liftR (toData element)) (\<lambda>d. li_indexOf impl d)"

definition il_lastIndexOf :: "('s, 'd) list_impl \<Rightarrow> ('e \<Rightarrow> 'd res) \<Rightarrow> 'e \<Rightarrow> ('s, int) comp" where
  "il_lastIndexOf impl toData element = bindM (liftR (toData element)) (\<lambda>d. li_lastIndexOf impl d)"

definition il_subList :: "('s, 'd) list_impl \<Rightarrow> ('d \<Rightarrow> 'e option res) \<Rightarrow> int \<Rightarrow> int \<Rightarrow> ('s, 'e list) comp" where
  "il_subList impl toObj fromIndex toIndex = bindM (li_subListData impl fromIndex toIndex) (\<lambda>ds. liftR (toObjectCollection toObj ds))"

text \<open>The operations of a list as data, and what they answer.\<close>

datatype 'e list_op =
    L_size | L_isEmpty | L_contains 'e | L_toArray | L_add 'e | L_remove 'e | L_containsAll "'e list" | L_addAll "'e list" | L_addAll_at int "'e list"
  | L_removeAll "'e list" | L_retainAll "'e list" | L_clear | L_get int | L_set int 'e | L_add_at int 'e | L_remove_at int | L_indexOf 'e | L_lastIndexOf 'e
  | L_subList int int

datatype 'e coll_ans = A_Int int | A_Bool bool | A_Elems "'e list" | A_Elem "'e option" | A_Unit

definition answering :: "('a \<Rightarrow> 'e coll_ans) \<Rightarrow> ('s, 'a) comp \<Rightarrow> ('s, 'e coll_ans) comp" where
  "answering f c = bindM c (\<lambda>a. retM (f a))"

fun list_call :: "('s, 'd) list_impl \<Rightarrow> 'd list_op \<Rightarrow> ('s, 'd coll_ans) comp" where
  "list_call impl L_size = answering A_Int (li_size impl)"
| "list_call impl L_isEmpty = answering A_Bool (li_isEmpty impl)"
| "list_call impl (L_contains e) = answering A_Bool (li_contains impl e)"
| "list_call impl L_toArray = answering A_Elems (li_toArrayData impl)"
| "list_call impl (L_add e) = answering A_Bool (li_add impl e)"
| "list_call impl (L_remove e) = answering A_Bool (li_remove impl e)"
| "list_call impl (L_containsAll es) = answering A_Bool (li_containsAll impl es)"
| "list_call impl (L_addAll es) = answering A_Bool (li_addAll impl es)"
| "list_call impl (L_addAll_at i es) = answering A_Bool (li_addAll_at impl i es)"
| "list_call impl (L_removeAll es) = answering A_Bool (li_removeAll impl es)"
| "list_call impl (L_retainAll es) = answering A_Bool (li_retainAll impl es)"
| "list_call impl L_clear = answering (\<lambda>_. A_Unit) (li_clear impl)"
| "list_call impl (L_get i) = answering A_Elem (li_getData impl i)"
| "list_call impl (L_set i e) = answering A_Elem (li_setData impl i e)"
| "list_call impl (L_add_at i e) = answering (\<lambda>_. A_Unit) (li_add_at impl i e)"
| "list_call impl (L_remove_at i) = answering A_Elem (li_removeData impl i)"
| "list_call impl (L_indexOf e) = answering A_Int (li_indexOf impl e)"
| "list_call impl (L_lastIndexOf e) = answering A_Int (li_lastIndexOf impl e)"
| "list_call impl (L_subList i j) = answering A_Elems (li_subListData impl i j)"

fun ilist_call :: "('s, 'd) list_impl \<Rightarrow> ('e \<Rightarrow> 'd res) \<Rightarrow> ('d \<Rightarrow> 'e option res) \<Rightarrow> 'e list_op \<Rightarrow> ('s, 'e coll_ans) comp" where
  "ilist_call impl toData toObj L_size = answering A_Int (il_size impl)"
| "ilist_call impl toData toObj L_isEmpty = answering A_Bool (il_isEmpty impl)"
| "ilist_call impl toData toObj (L_contains e) = answering A_Bool (il_contains impl toData e)"
| "ilist_call impl toData toObj L_toArray = answering A_Elems (il_toArray impl toObj)"
| "ilist_call impl toData toObj (L_add e) = answering A_Bool (il_add impl toData e)"
| "ilist_call impl toData toObj (L_remove e) = answering A_Bool (il_remove impl toData e)"
| "ilist_call impl toData toObj (L_containsAll es) = answering A_Bool (il_containsAll impl toData es)"
| "ilist_call impl toData toObj (L_addAll es) = answering A_Bool (il_addAll impl toData es)"
| "ilist_call impl toData toObj (L_addAll_at i es) = answering A_Bool (il_addAll_at impl toData i es)"
| "ilist_call impl toData toObj (L_removeAll es) = answering A_Bool (il_removeAll impl toData es)"
| "ilist_call impl toData toObj (L_retainAll es) = answering A_Bool (il_retainAll impl toData es)"
| "ilist_call impl toData toObj L_clear = answering (\<lambda>_. A_Unit) (il_clear impl)"
| "ilist_call impl toData toObj (L_get i) = answering A_Elem (il_get impl toObj i)"
| "ilist_call impl toData toObj (L_set i e) = answering A_Elem (il_set impl toData toObj i e)"
| "ilist_call impl toData toObj (L_add_at i e) = answering (\<lambda>_. A_Unit) (il_add_at impl toData i e)"
| "ilist_call impl toData toObj (L_remove_at i) = answering A_Elem (il_remove_at impl toObj i)"
| "ilist_call impl toData toObj (L_indexOf e) = answering A_Int (il_indexOf impl toData e)"
| "ilist_call impl toData toObj (L_lastIndexOf e) = answering A_Int (il_lastIndexOf impl toData e)"
| "ilist_call impl toData toObj (L_subList i j) = answering A_Elems (il_subList impl toObj i j)"

text \<open>What a list is: the specification, for elements of any type; \<open>oob\<close> is the exception for an index that is out of range.\<close>

definition position :: "'e \<Rightarrow> 'e list \<Rightarrow> int" where
  "position e xs = (if e \<in> set xs then int (length (takeWhile (\<lambda>x. x \<noteq> e) xs)) else - 1)"

definition last_position :: "'e \<Rightarrow> 'e list \<Rightarrow> int" where
  "last_position e xs = (if e \<in> set xs then int (length xs) - 1 - int (length (takeWhile (\<lambda>x. x \<noteq> e) (rev xs))) else - 1)"

fun list_spec :: "hz_error \<Rightarrow> 'e list_op \<Rightarrow> 'e list \<Rightarrow> 'e coll_ans res \<times> 'e list" where
  "list_spec oob L_size xs = (Inr (A_Int (int (length xs))), xs)"
| "list_spec oob L_isEmpty xs = (Inr (A_Bool (xs = [])), xs)"
| "list_spec oob (L_contains e) xs = (Inr (A_Bool (e \<in> set xs)), xs)"
| "list_spec oob L_toArray xs = (Inr (A_Elems xs), xs)"
| "list_spec oob (L_add e) xs = (Inr (A_Bool True), xs @ [e])"
| "list_spec oob (L_remove e) xs = (Inr (A_Bool (e \<in> set xs)), remove1 e xs)"
| "list_spec oob (L_containsAll es) xs = (Inr (A_Bool (set es \<subseteq> set xs)), xs)"
| "list_spec oob (L_addAll es) xs = (Inr (A_Bool (es \<noteq> [])), xs @ es)"
| "list_spec oob (L_addAll_at i es) xs =
     (if 0 \<le> i \<and> i \<le> int (length xs) then (Inr (A_Bool (es \<noteq> [])), take (nat i) xs @ es @ drop (nat i) xs) else (Inl oob, xs))"
| "list_spec oob (L_removeAll es) xs = (Inr (A_Bool (\<exists>x \<in> set xs. x \<in> set es)), filter (\<lambda>x. x \<notin> set es) xs)"
| "list_spec oob (L_retainAll es) xs = (Inr (A_Bool (\<exists>x \<in> set xs. x \<notin> set es)), filter (\<lambda>x. x \<in> set es) xs)"
| "list_spec oob L_clear xs = (Inr A_Unit, [])"
| "list_spec oob (L_get i) xs = (if 0 \<le> i \<and> i < int (length xs) then (Inr (A_Elem (Some (xs ! nat i))), xs) else (Inl oob, xs))"
| "list_spec oob (L_set i e) xs = (if 0 \<le> i \<and> i < int (length xs) then (Inr (A_Elem (Some (xs ! nat i))), xs[nat i := e]) else (Inl oob, xs))"
| "list_spec oob (L_add_at i e) xs = (if 0 \<le> i \<and> i \<le> int (length xs) then (Inr A_Unit, take (nat i) xs @ e # drop (nat i) xs) else (Inl oob, xs))"
| "list_spec oob (L_remove_at i) xs =
     (if 0 \<le> i \<and> i < int (length xs) then (Inr (A_Elem (Some (xs ! nat i))), take (nat i) xs @ drop (Suc (nat i)) xs) else (Inl oob, xs))"
| "list_spec oob (L_indexOf e) xs = (Inr (A_Int (position e xs)), xs)"
| "list_spec oob (L_lastIndexOf e) xs = (Inr (A_Int (last_position e xs)), xs)"
| "list_spec oob (L_subList i j) xs =
     (if 0 \<le> i \<and> i \<le> j \<and> j \<le> int (length xs) then (Inr (A_Elems (take (nat (j - i)) (drop (nat i) xs))), xs) else (Inl oob, xs))"

text \<open>The specification does not look into its elements: it commutes with every injective change of their representation.\<close>

lemma image_subset_inj: "inj_on f (A \<union> B) \<Longrightarrow> f ` A \<subseteq> f ` B \<longleftrightarrow> A \<subseteq> B"
  unfolding inj_on_def by (auto dest!: subsetD)

lemma inj_image_mem: "inj_on f (insert e (set xs)) \<Longrightarrow> f e \<in> f ` set xs \<longleftrightarrow> e \<in> set xs"
  by (auto simp: inj_on_def)

lemma takeWhile_map_inj:
  "inj_on f (insert e (set xs)) \<Longrightarrow> takeWhile (\<lambda>y. y \<noteq> f e) (map f xs) = map f (takeWhile (\<lambda>x. x \<noteq> e) xs)"
  by (induction xs) (auto simp: inj_on_def)

lemma remove1_map_inj: "inj_on f (insert e (set xs)) \<Longrightarrow> remove1 (f e) (map f xs) = map f (remove1 e xs)"
  by (induction xs) (auto simp: inj_on_def)

lemma position_map: "inj_on f (insert e (set xs)) \<Longrightarrow> position (f e) (map f xs) = position e xs"
  by (simp add: position_def takeWhile_map_inj inj_image_mem)

lemma last_position_map: "inj_on f (insert e (set xs)) \<Longrightarrow> last_position (f e) (map f xs) = last_position e xs"
  using takeWhile_map_inj [of f e "rev xs"] by (simp add: last_position_def rev_map inj_image_mem)

lemma filter_map_inj:
  assumes "inj_on f (set xs \<union> set es)"
  shows "filter (\<lambda>y. y \<in> f ` set es) (map f xs) = map f (filter (\<lambda>x. x \<in> set es) xs)" "filter (\<lambda>y. y \<notin> f ` set es) (map f xs) = map f (filter (\<lambda>x. x \<notin> set es) xs)"
proof -
  have "f x \<in> f ` set es \<longleftrightarrow> x \<in> set es" if "x \<in> set xs" for x using that assms by (auto simp: inj_on_def)
  then show "filter (\<lambda>y. y \<in> f ` set es) (map f xs) = map f (filter (\<lambda>x. x \<in> set es) xs)" "filter (\<lambda>y. y \<notin> f ` set es) (map f xs) = map f (filter (\<lambda>x. x \<notin> set es) xs)"
    by (simp_all add: filter_map o_def cong: filter_cong)
qed

definition map_res :: "('a \<Rightarrow> 'b) \<Rightarrow> 'a res \<Rightarrow> 'b res" where
  "map_res f r = (case r of Inl e \<Rightarrow> Inl e | Inr a \<Rightarrow> Inr (f a))"

lemma list_spec_map:
  assumes "inj_on f (set xs \<union> set_list_op op)"
  shows "list_spec oob (map_list_op f op) (map f xs) = (map_res (map_coll_ans f) (fst (list_spec oob op xs)), map f (snd (list_spec oob op xs)))"
proof -
  have e: "inj_on f (insert e (set xs))" if "set_list_op op = {e}" for e using assms that by simp
  have s: "f x \<in> f ` set es \<longleftrightarrow> x \<in> set es" if "set_list_op op = set es" "x \<in> set xs" for x es using assms that by (auto simp: inj_on_def)
  have t: "f ` set es \<subseteq> f ` set xs \<longleftrightarrow> set es \<subseteq> set xs" if "set_list_op op = set es" for es
    using assms that by (intro image_subset_inj) (simp add: Un_commute)
  show ?thesis
    by (cases op) (use assms e s t in \<open>auto simp: map_res_def inj_image_mem remove1_map_inj position_map last_position_map filter_map_inj take_map drop_map map_update\<close>)
qed

lemmas il_defs = il_size_def il_isEmpty_def il_contains_def il_toArray_def il_add_def il_remove_def il_containsAll_def il_addAll_def il_addAll_at_def il_removeAll_def il_retainAll_def il_clear_def il_get_def il_set_def il_add_at_def il_remove_at_def il_indexOf_def il_lastIndexOf_def il_subList_def

text \<open>How the typed class reads an answer of the cluster.\<close>

definition decode_ans :: "('d \<Rightarrow> 'e option res) \<Rightarrow> 'd coll_ans \<Rightarrow> 'e coll_ans res" where
  "decode_ans toObj a =
     (case a of
        A_Elems ds \<Rightarrow> map_res A_Elems (toObjectCollection toObj ds)
      | A_Elem d \<Rightarrow> map_res A_Elem (toObject_auto toObj d)
      | A_Int i \<Rightarrow> Inr (A_Int i) | A_Bool b \<Rightarrow> Inr (A_Bool b) | A_Unit \<Rightarrow> Inr A_Unit)"

text \<open>A sequence of calls and its answers, in order; an exception does not end the use of the object.\<close>

fun run_calls :: "('op \<Rightarrow> 's \<Rightarrow> 'r \<times> 's) \<Rightarrow> 'op list \<Rightarrow> 's \<Rightarrow> 'r list \<times> 's" where
  "run_calls call [] s = ([], s)"
| "run_calls call (op # ops) s = (case call op s of (r, s') \<Rightarrow> case run_calls call ops s' of (rs, s'') \<Rightarrow> (r # rs, s''))"

text \<open>Elements that survive serialization.\<close>

locale typed_elements =
  fixes toData :: "'e \<Rightarrow> 'd res" and toObj :: "'d \<Rightarrow> 'e option res" and enc :: "'e \<Rightarrow> 'd" and valid :: "'e \<Rightarrow> bool"
  assumes to_data: "valid e \<Longrightarrow> toData e = Inr (enc e)" and to_object: "valid e \<Longrightarrow> toObj (enc e) = Inr (Some e)"
begin

lemma enc_inj: "inj_on enc {e. valid e}"
  by (metis inj_onI mem_Collect_eq option.inject sum.inject(2) to_object)

lemma to_data_collection: "\<forall>e \<in> set es. valid e \<Longrightarrow> toDataCollection toData es = Inr (map enc es)"
  unfolding toDataCollection_def by (induction es) (simp_all add: to_data)

lemma to_object_collection: "\<forall>e \<in> set es. valid e \<Longrightarrow> toObjectCollection toObj (map enc es) = Inr es"
  unfolding toObjectCollection_def by (induction es) (simp_all add: to_object deref_ptr_def)

lemma decode_encoded: "\<forall>x \<in> set_coll_ans a. valid x \<Longrightarrow> decode_ans toObj (map_coll_ans enc a) = Inr a"
  by (cases a) (auto simp: decode_ans_def map_res_def to_object_collection toObject_auto_def to_object split: option.splits)

end

text \<open>A cluster that keeps a list of serialized elements, and the typed list over it.\<close>

locale list_server =
  fixes impl :: "('s, 'd) list_impl" and sabs :: "'s \<Rightarrow> 'd list" and sok :: "'s \<Rightarrow> bool" and oob :: hz_error
  assumes call_law: "sok s \<Longrightarrow> list_call impl op s = (r, s') \<Longrightarrow> sok s' \<and> r = fst (list_spec oob op (sabs s)) \<and> sabs s' = snd (list_spec oob op (sabs s))"

locale typed_list = list_server impl sabs sok oob + typed_elements toData toObj enc valid
  for impl :: "('s, 'd) list_impl" and sabs :: "'s \<Rightarrow> 'd list" and sok :: "'s \<Rightarrow> bool" and oob :: hz_error
    and toData :: "'e \<Rightarrow> 'd res" and toObj :: "'d \<Rightarrow> 'e option res" and enc :: "'e \<Rightarrow> 'd" and valid :: "'e \<Rightarrow> bool"
begin

definition represents :: "'s \<Rightarrow> 'e list \<Rightarrow> bool" where
  "represents s xs \<longleftrightarrow> sok s \<and> sabs s = map enc xs \<and> (\<forall>x \<in> set xs. valid x)"

lemma server_call:
  assumes "represents s xs" "\<forall>e \<in> set_list_op op. valid e"
  obtains s' where "list_call impl (map_list_op enc op) s = (map_res (map_coll_ans enc) (fst (list_spec oob op xs)), s')"
    "sok s'" "sabs s' = map enc (snd (list_spec oob op xs))"
proof -
  have "inj_on enc (set xs \<union> set_list_op op)" using assms by (intro inj_on_subset [OF enc_inj]) (auto simp: represents_def)
  note m = list_spec_map [OF this, of oob]
  obtain r s' where c: "list_call impl (map_list_op enc op) s = (r, s')" by force
  have "sok s' \<and> r = map_res (map_coll_ans enc) (fst (list_spec oob op xs)) \<and> sabs s' = map enc (snd (list_spec oob op xs))"
    using call_law [OF _ c] assms(1) m by (simp add: represents_def)
  then show ?thesis using c that by blast
qed

lemma spec_valid:
  assumes "\<forall>x \<in> set xs. valid x" "\<forall>e \<in> set_list_op op. valid e"
  shows "\<forall>x \<in> set (snd (list_spec oob op xs)). valid x" "fst (list_spec oob op xs) = Inr a \<Longrightarrow> \<forall>x \<in> set_coll_ans a. valid x"
  using assms by (cases op; auto dest: in_set_takeD in_set_dropD notin_set_remove1 set_update_subset_insert [THEN subsetD] split: if_splits)+

lemma typed_call:
  assumes "\<forall>e \<in> set_list_op op. valid e"
  shows "ilist_call impl toData toObj op s =
    (case list_call impl (map_list_op enc op) s of (Inl e, s') \<Rightarrow> (Inl e, s') | (Inr a, s') \<Rightarrow> (decode_ans toObj a, s'))"
  by (cases op) (use assms in \<open>simp_all add: il_defs answering_def bindM_def retM_def liftR_def to_data to_data_collection decode_ans_def map_res_def split: prod.splits sum.splits\<close>)

lemma ilist_call_ok:
  assumes "represents s xs" "\<forall>e \<in> set_list_op op. valid e"
  shows "\<exists>s'. ilist_call impl toData toObj op s = (fst (list_spec oob op xs), s') \<and> represents s' (snd (list_spec oob op xs))"
proof -
  obtain s' where c: "list_call impl (map_list_op enc op) s = (map_res (map_coll_ans enc) (fst (list_spec oob op xs)), s')"
      "sok s'" "sabs s' = map enc (snd (list_spec oob op xs))" using server_call [OF assms] .
  have v: "\<forall>x \<in> set xs. valid x" using assms(1) by (simp add: represents_def)
  have r: "represents s' (snd (list_spec oob op xs))" using c(2,3) spec_valid(1) [OF v assms(2)] by (simp add: represents_def)
  have "ilist_call impl toData toObj op s = (fst (list_spec oob op xs), s')"
  proof (cases "fst (list_spec oob op xs)")
    case (Inl e)
    then show ?thesis using c(1) by (simp add: typed_call [OF assms(2)] map_res_def)
  next
    case (Inr a)
    then show ?thesis using c(1) decode_encoded [OF spec_valid(2) [OF v assms(2) Inr]] by (simp add: typed_call [OF assms(2)] map_res_def)
  qed
  with r show ?thesis by blast
qed

lemma ilist_calls_ok:
  assumes "represents s xs" "\<forall>op \<in> set ops. \<forall>e \<in> set_list_op op. valid e"
  shows "\<exists>s'. run_calls (ilist_call impl toData toObj) ops s = (fst (run_calls (list_spec oob) ops xs), s') \<and> represents s' (snd (run_calls (list_spec oob) ops xs))"
  using assms
proof (induction ops arbitrary: s xs)
  case (Cons op ops)
  obtain s1 where 1: "ilist_call impl toData toObj op s = (fst (list_spec oob op xs), s1)" "represents s1 (snd (list_spec oob op xs))"
    using ilist_call_ok [OF Cons.prems(1), of op] Cons.prems(2) by auto
  from Cons.IH [OF 1(2)] Cons.prems(2) 1(1) show ?case by (auto simp: split_beta)
qed simp

end


text \<open>A cluster that is its list.\<close>

definition expect :: "('d coll_ans \<Rightarrow> 'a option) \<Rightarrow> ('s \<Rightarrow> 'd coll_ans res \<times> 's) \<Rightarrow> ('s, 'a) comp" where
  "expect un c s = (case c s of (Inl e, s') \<Rightarrow> (Inl e, s') | (Inr a, s') \<Rightarrow> (case un a of None \<Rightarrow> (Inl AssertionFailure, s') | Some x \<Rightarrow> (Inr x, s')))"

definition un_Int :: "'d coll_ans \<Rightarrow> int option" where "un_Int a = (case a of A_Int i \<Rightarrow> Some i | _ \<Rightarrow> None)"
definition un_Bool :: "'d coll_ans \<Rightarrow> bool option" where "un_Bool a = (case a of A_Bool b \<Rightarrow> Some b | _ \<Rightarrow> None)"
definition un_Elems :: "'d coll_ans \<Rightarrow> 'd list option" where "un_Elems a = (case a of A_Elems ds \<Rightarrow> Some ds | _ \<Rightarrow> None)"
definition un_Elem :: "'d coll_ans \<Rightarrow> 'd option option" where "un_Elem a = (case a of A_Elem d \<Rightarrow> Some d | _ \<Rightarrow> None)"
definition un_Unit :: "'d coll_ans \<Rightarrow> unit option" where "un_Unit a = (case a of A_Unit \<Rightarrow> Some () | _ \<Rightarrow> None)"

lemmas expect_defs = expect_def un_Int_def un_Bool_def un_Elems_def un_Elem_def un_Unit_def

definition plain_list :: "hz_error \<Rightarrow> ('d list, 'd) list_impl" where
  "plain_list oob = \<lparr>li_size = expect un_Int (list_spec oob L_size),
     li_isEmpty = expect un_Bool (list_spec oob L_isEmpty),
     li_contains = (\<lambda>e. expect un_Bool (list_spec oob (L_contains e))),
     li_toArrayData = expect un_Elems (list_spec oob L_toArray),
     li_add = (\<lambda>e. expect un_Bool (list_spec oob (L_add e))),
     li_remove = (\<lambda>e. expect un_Bool (list_spec oob (L_remove e))),
     li_containsAll = (\<lambda>es. expect un_Bool (list_spec oob (L_containsAll es))),
     li_addAll = (\<lambda>es. expect un_Bool (list_spec oob (L_addAll es))),
     li_addAll_at = (\<lambda>i es. expect un_Bool (list_spec oob (L_addAll_at i es))),
     li_removeAll = (\<lambda>es. expect un_Bool (list_spec oob (L_removeAll es))),
     li_retainAll = (\<lambda>es. expect un_Bool (list_spec oob (L_retainAll es))),
     li_clear = expect un_Unit (list_spec oob L_clear),
     li_getData = (\<lambda>i. expect un_Elem (list_spec oob (L_get i))),
     li_setData = (\<lambda>i e. expect un_Elem (list_spec oob (L_set i e))),
     li_add_at = (\<lambda>i e. expect un_Unit (list_spec oob (L_add_at i e))),
     li_removeData = (\<lambda>i. expect un_Elem (list_spec oob (L_remove_at i))),
     li_indexOf = (\<lambda>e. expect un_Int (list_spec oob (L_indexOf e))),
     li_lastIndexOf = (\<lambda>e. expect un_Int (list_spec oob (L_lastIndexOf e))),
     li_subListData = (\<lambda>i j. expect un_Elems (list_spec oob (L_subList i j)))\<rparr>"

lemma plain_list_call: "list_call (plain_list oob) op xs = list_spec oob op xs"
  by (cases op) (simp_all add: plain_list_def answering_def expect_defs bindM_def retM_def split: prod.splits)

interpretation plain_list: list_server "plain_list oob" "\<lambda>xs. xs" "\<lambda>_. True" oob
  by unfold_locales (simp_all add: plain_list_call)

text \<open>Elements that are numbers, serialized as lists of their length.\<close>

definition unary_data :: "nat \<Rightarrow> unit list res" where
  "unary_data n = Inr (replicate n ())"

definition unary_object :: "unit list \<Rightarrow> nat option res" where
  "unary_object d = Inr (Some (length d))"

interpretation unary: typed_elements unary_data unary_object "\<lambda>n. replicate n ()" "\<lambda>_. True"
  by unfold_locales (simp_all add: unary_data_def unary_object_def)

interpretation unary_list: typed_list "plain_list oob" "\<lambda>xs. xs" "\<lambda>_. True" oob unary_data unary_object "\<lambda>n. replicate n ()" "\<lambda>_. True"
  by unfold_locales


section \<open>Sets\<close>

record ('s, 'd) set_impl =
  si_size :: "('s, int) comp"
  si_isEmpty :: "('s, bool) comp"
  si_contains :: "'d \<Rightarrow> ('s, bool) comp"
  si_toArrayData :: "('s, 'd list) comp"
  si_add :: "'d \<Rightarrow> ('s, bool) comp"
  si_remove :: "'d \<Rightarrow> ('s, bool) comp"
  si_containsAll :: "'d list \<Rightarrow> ('s, bool) comp"
  si_addAll :: "'d list \<Rightarrow> ('s, bool) comp"
  si_removeAll :: "'d list \<Rightarrow> ('s, bool) comp"
  si_retainAll :: "'d list \<Rightarrow> ('s, bool) comp"
  si_clear :: "('s, unit) comp"

definition is_size :: "('s, 'd) set_impl \<Rightarrow> ('s, int) comp" where
  "is_size impl = si_size impl"

definition is_isEmpty :: "('s, 'd) set_impl \<Rightarrow> ('s, bool) comp" where
  "is_isEmpty impl = si_isEmpty impl"

definition is_contains :: "('s, 'd) set_impl \<Rightarrow> ('e \<Rightarrow> 'd res) \<Rightarrow> 'e \<Rightarrow> ('s, bool) comp" where
  "is_contains impl toData element = bindM (liftR (toData element)) (\<lambda>d. si_contains impl d)"

definition is_add :: "('s, 'd) set_impl \<Rightarrow> ('e \<Rightarrow> 'd res) \<Rightarrow> 'e \<Rightarrow> ('s, bool) comp" where
  "is_add impl toData element = bindM (liftR (toData element)) (\<lambda>d. si_add impl d)"

definition is_remove :: "('s, 'd) set_impl \<Rightarrow> ('e \<Rightarrow> 'd res) \<Rightarrow> 'e \<Rightarrow> ('s, bool) comp" where
  "is_remove impl toData element = bindM (liftR (toData element)) (\<lambda>d. si_remove impl d)"

definition is_toArray :: "('s, 'd) set_impl \<Rightarrow> ('d \<Rightarrow> 'e option res) \<Rightarrow> ('s, 'e list) comp" where
  "is_toArray impl toObj = bindM (si_toArrayData impl) (\<lambda>ds. liftR (toObjectCollection toObj ds))"

definition is_containsAll :: "('s, 'd) set_impl \<Rightarrow> ('e \<Rightarrow> 'd res) \<Rightarrow> 'e list \<Rightarrow> ('s, bool) comp" where
  "is_containsAll impl toData elements = bindM (liftR (toDataCollection toData elements)) (\<lambda>ds. si_containsAll impl ds)"

definition is_removeAll :: "('s, 'd) set_impl \<Rightarrow> ('e \<Rightarrow> 'd res) \<Rightarrow> 'e list \<Rightarrow> ('s, bool) comp" where
  "is_removeAll impl toData elements = bindM (liftR (toDataCollection toData elements)) (\<lambda>ds. si_removeAll impl ds)"

definition is_retainAll :: "('s, 'd) set_impl \<Rightarrow> ('e \<Rightarrow> 'd res) \<Rightarrow> 'e list \<Rightarrow> ('s, bool) comp" where
  "is_retainAll impl toData elements = bindM (liftR (toDataCollection toData elements)) (\<lambda>ds. si_retainAll impl ds)"

text \<open>The elements are serialized twice.\<close>

definition is_addAll :: "('s, 'd) set_impl \<Rightarrow> ('e \<Rightarrow> 'd res) \<Rightarrow> 'e list \<Rightarrow> ('s, bool) comp" where
  "is_addAll impl toData elements =
     bindM (liftR (toDataCollection toData elements)) (\<lambda>dataCollection. bindM (liftR (toDataCollection toData elements)) (\<lambda>ds. si_addAll impl ds))"

definition is_clear :: "('s, 'd) set_impl \<Rightarrow> ('s, unit) comp" where
  "is_clear impl = si_clear impl"

datatype 'e set_op =
    S_size | S_isEmpty | S_contains 'e | S_toArray | S_add 'e | S_remove 'e | S_containsAll "'e list" | S_addAll "'e list" | S_removeAll "'e list" | S_retainAll "'e list" | S_clear

fun set_call :: "('s, 'd) set_impl \<Rightarrow> 'd set_op \<Rightarrow> ('s, 'd coll_ans) comp" where
  "set_call impl S_size = answering A_Int (si_size impl)"
| "set_call impl S_isEmpty = answering A_Bool (si_isEmpty impl)"
| "set_call impl (S_contains e) = answering A_Bool (si_contains impl e)"
| "set_call impl S_toArray = answering A_Elems (si_toArrayData impl)"
| "set_call impl (S_add e) = answering A_Bool (si_add impl e)"
| "set_call impl (S_remove e) = answering A_Bool (si_remove impl e)"
| "set_call impl (S_containsAll es) = answering A_Bool (si_containsAll impl es)"
| "set_call impl (S_addAll es) = answering A_Bool (si_addAll impl es)"
| "set_call impl (S_removeAll es) = answering A_Bool (si_removeAll impl es)"
| "set_call impl (S_retainAll es) = answering A_Bool (si_retainAll impl es)"
| "set_call impl S_clear = answering (\<lambda>_. A_Unit) (si_clear impl)"

fun iset_call :: "('s, 'd) set_impl \<Rightarrow> ('e \<Rightarrow> 'd res) \<Rightarrow> ('d \<Rightarrow> 'e option res) \<Rightarrow> 'e set_op \<Rightarrow> ('s, 'e coll_ans) comp" where
  "iset_call impl toData toObj S_size = answering A_Int (is_size impl)"
| "iset_call impl toData toObj S_isEmpty = answering A_Bool (is_isEmpty impl)"
| "iset_call impl toData toObj (S_contains e) = answering A_Bool (is_contains impl toData e)"
| "iset_call impl toData toObj S_toArray = answering A_Elems (is_toArray impl toObj)"
| "iset_call impl toData toObj (S_add e) = answering A_Bool (is_add impl toData e)"
| "iset_call impl toData toObj (S_remove e) = answering A_Bool (is_remove impl toData e)"
| "iset_call impl toData toObj (S_containsAll es) = answering A_Bool (is_containsAll impl toData es)"
| "iset_call impl toData toObj (S_addAll es) = answering A_Bool (is_addAll impl toData es)"
| "iset_call impl toData toObj (S_removeAll es) = answering A_Bool (is_removeAll impl toData es)"
| "iset_call impl toData toObj (S_retainAll es) = answering A_Bool (is_retainAll impl toData es)"
| "iset_call impl toData toObj S_clear = answering (\<lambda>_. A_Unit) (is_clear impl)"

lemmas is_defs = is_size_def is_isEmpty_def is_contains_def is_toArray_def is_add_def is_remove_def is_containsAll_def is_addAll_def is_removeAll_def is_retainAll_def is_clear_def

text \<open>The specification relates the set before, the answer and the set after: a set gives its elements in any order.\<close>

fun set_spec :: "'e set_op \<Rightarrow> 'e set \<Rightarrow> 'e coll_ans \<Rightarrow> 'e set \<Rightarrow> bool" where
  "set_spec S_size A r B \<longleftrightarrow> r = A_Int (int (card A)) \<and> B = A"
| "set_spec S_isEmpty A r B \<longleftrightarrow> r = A_Bool (A = {}) \<and> B = A"
| "set_spec (S_contains e) A r B \<longleftrightarrow> r = A_Bool (e \<in> A) \<and> B = A"
| "set_spec S_toArray A r B \<longleftrightarrow> (\<exists>es. r = A_Elems es \<and> distinct es \<and> set es = A) \<and> B = A"
| "set_spec (S_add e) A r B \<longleftrightarrow> r = A_Bool (e \<notin> A) \<and> B = insert e A"
| "set_spec (S_remove e) A r B \<longleftrightarrow> r = A_Bool (e \<in> A) \<and> B = A - {e}"
| "set_spec (S_containsAll es) A r B \<longleftrightarrow> r = A_Bool (set es \<subseteq> A) \<and> B = A"
| "set_spec (S_addAll es) A r B \<longleftrightarrow> r = A_Bool (\<not> set es \<subseteq> A) \<and> B = A \<union> set es"
| "set_spec (S_removeAll es) A r B \<longleftrightarrow> r = A_Bool (A \<inter> set es \<noteq> {}) \<and> B = A - set es"
| "set_spec (S_retainAll es) A r B \<longleftrightarrow> r = A_Bool (\<not> A \<subseteq> set es) \<and> B = A \<inter> set es"
| "set_spec S_clear A r B \<longleftrightarrow> r = A_Unit \<and> B = {}"

lemma set_spec_image:
  assumes inj: "inj_on f (A \<union> set_set_op op)" and spec: "set_spec (map_set_op f op) (f ` A) r B"
  shows "\<exists>a A'. r = map_coll_ans f a \<and> B = f ` A' \<and> set_spec op A a A' \<and> A' \<subseteq> A \<union> set_set_op op \<and> set_coll_ans a \<subseteq> A"
proof (cases op)
  case S_toArray
  then obtain ds where ds: "r = A_Elems ds" "distinct ds" "set ds = f ` A" "B = f ` A" using spec by auto
  let ?es = "map (inv_into A f) ds"
  have "map f ?es = ds" unfolding map_map by (rule map_idI) (use ds(3) in \<open>simp add: f_inv_into_f\<close>)
  moreover have "set ?es \<subseteq> A" using ds(3) by (auto intro: inv_into_into)
  ultimately obtain es where es: "ds = map f es" "set es \<subseteq> A" by metis
  have "set es = A" using ds(3) es inj by (auto simp: inj_on_def S_toArray)
  then show ?thesis using S_toArray ds es by (intro exI [of _ "A_Elems es"] exI [of _ A]) (simp add: distinct_map)
next
  case S_size
  then show ?thesis using spec inj by (intro exI [of _ "A_Int (int (card A))"] exI [of _ A]) (simp add: card_image)
next
  case (S_addAll es)
  then have "f ` set es \<subseteq> f ` A \<longleftrightarrow> set es \<subseteq> A" using inj by (intro image_subset_inj) (simp add: Un_commute)
  then show ?thesis using spec S_addAll by (intro exI [of _ "A_Bool (\<not> set es \<subseteq> A)"] exI [of _ "A \<union> set es"]) auto
next
  case (S_containsAll es)
  then have "f ` set es \<subseteq> f ` A \<longleftrightarrow> set es \<subseteq> A" using inj by (intro image_subset_inj) (simp add: Un_commute)
  then show ?thesis using spec S_containsAll by (intro exI [of _ "A_Bool (set es \<subseteq> A)"] exI [of _ A]) auto
next
  case (S_retainAll es)
  then have "f ` A \<subseteq> f ` set es \<longleftrightarrow> A \<subseteq> set es" "f ` A \<inter> f ` set es = f ` (A \<inter> set es)"
    using inj image_subset_inj [of f A "set es"] by (simp, auto simp: inj_on_def)
  then show ?thesis using spec S_retainAll by (intro exI [of _ "A_Bool (\<not> A \<subseteq> set es)"] exI [of _ "A \<inter> set es"]) auto
next
  case (S_removeAll es)
  then have "f ` A \<inter> f ` set es = f ` (A \<inter> set es)" "f ` A - f ` set es = f ` (A - set es)" using inj by (auto simp: inj_on_def)
  then show ?thesis using spec S_removeAll by (intro exI [of _ "A_Bool (A \<inter> set es \<noteq> {})"] exI [of _ "A - set es"]) auto
next
  case (S_remove e)
  then have "f e \<in> f ` A \<longleftrightarrow> e \<in> A" "f ` A - {f e} = f ` (A - {e})" using inj by (auto simp: inj_on_def)
  then show ?thesis using spec S_remove by (intro exI [of _ "A_Bool (e \<in> A)"] exI [of _ "A - {e}"]) auto
next
  case (S_add e)
  then have "f e \<in> f ` A \<longleftrightarrow> e \<in> A" using inj by (auto simp: inj_on_def)
  then show ?thesis using spec S_add by (intro exI [of _ "A_Bool (e \<notin> A)"] exI [of _ "insert e A"]) auto
next
  case (S_contains e)
  then have "f e \<in> f ` A \<longleftrightarrow> e \<in> A" using inj by (auto simp: inj_on_def)
  then show ?thesis using spec S_contains by (intro exI [of _ "A_Bool (e \<in> A)"] exI [of _ A]) auto
next
  case S_isEmpty
  then show ?thesis using spec by (intro exI [of _ "A_Bool (A = {})"] exI [of _ A]) auto
next
  case S_clear
  then show ?thesis using spec by (intro exI [of _ A_Unit] exI [of _ "{}"]) auto
qed

locale set_server =
  fixes impl :: "('s, 'd) set_impl" and sabs :: "'s \<Rightarrow> 'd set" and sok :: "'s \<Rightarrow> bool"
  assumes call_law: "sok s \<Longrightarrow> \<exists>r s'. set_call impl op s = (Inr r, s') \<and> sok s' \<and> set_spec op (sabs s) r (sabs s')"

locale typed_set = set_server impl sabs sok + typed_elements toData toObj enc valid
  for impl :: "('s, 'd) set_impl" and sabs :: "'s \<Rightarrow> 'd set" and sok :: "'s \<Rightarrow> bool"
    and toData :: "'e \<Rightarrow> 'd res" and toObj :: "'d \<Rightarrow> 'e option res" and enc :: "'e \<Rightarrow> 'd" and valid :: "'e \<Rightarrow> bool"
begin

lemma typed_set_call:
  assumes "\<forall>e \<in> set_set_op op. valid e"
  shows "iset_call impl toData toObj op s =
    (case set_call impl (map_set_op enc op) s of (Inl e, s') \<Rightarrow> (Inl e, s') | (Inr a, s') \<Rightarrow> (decode_ans toObj a, s'))"
  by (cases op) (use assms in \<open>simp_all add: is_defs answering_def bindM_def retM_def liftR_def to_data to_data_collection decode_ans_def map_res_def split: prod.splits sum.splits\<close>)

text \<open>A distributed set behaves as a set of its elements.\<close>

lemma iset_call_ok:
  assumes "sok s" "sabs s = enc ` A" "\<forall>x \<in> A. valid x" "\<forall>e \<in> set_set_op op. valid e"
  shows "\<exists>a s' A'. iset_call impl toData toObj op s = (Inr a, s') \<and> set_spec op A a A' \<and> sok s' \<and> sabs s' = enc ` A' \<and> (\<forall>x \<in> A'. valid x)"
proof -
  obtain r s' where c: "set_call impl (map_set_op enc op) s = (Inr r, s')" "sok s'" "set_spec (map_set_op enc op) (enc ` A) r (sabs s')"
    using call_law [OF assms(1), of "map_set_op enc op"] assms(2) by metis
  have "inj_on enc (A \<union> set_set_op op)" using assms(3,4) by (intro inj_on_subset [OF enc_inj]) auto
  from set_spec_image [OF this c(3)] obtain a A' where a: "r = map_coll_ans enc a" "sabs s' = enc ` A'" "set_spec op A a A'" "A' \<subseteq> A \<union> set_set_op op" "set_coll_ans a \<subseteq> A"
    by blast
  have "decode_ans toObj r = Inr a" using a(1,5) assms(3) decode_encoded by blast
  then have "iset_call impl toData toObj op s = (Inr a, s')" using c(1) by (simp add: typed_set_call [OF assms(4)])
  moreover have "\<forall>x \<in> A'. valid x" using a(4) assms(3,4) by blast
  ultimately show ?thesis using a c(2) by blast
qed

end

text \<open>A cluster that is its set, kept as a list.\<close>

definition plain_set_call :: "'d set_op \<Rightarrow> 'd list \<Rightarrow> 'd coll_ans res \<times> 'd list" where
  "plain_set_call op xs =
     (case op of
        S_size \<Rightarrow> (Inr (A_Int (int (length xs))), xs)
      | S_isEmpty \<Rightarrow> (Inr (A_Bool (xs = [])), xs)
      | S_contains e \<Rightarrow> (Inr (A_Bool (e \<in> set xs)), xs)
      | S_toArray \<Rightarrow> (Inr (A_Elems xs), xs)
      | S_add e \<Rightarrow> (Inr (A_Bool (e \<notin> set xs)), List.insert e xs)
      | S_remove e \<Rightarrow> (Inr (A_Bool (e \<in> set xs)), remove1 e xs)
      | S_containsAll es \<Rightarrow> (Inr (A_Bool (set es \<subseteq> set xs)), xs)
      | S_addAll es \<Rightarrow> (Inr (A_Bool (\<not> set es \<subseteq> set xs)), List.union es xs)
      | S_removeAll es \<Rightarrow> (Inr (A_Bool (set xs \<inter> set es \<noteq> {})), filter (\<lambda>x. x \<notin> set es) xs)
      | S_retainAll es \<Rightarrow> (Inr (A_Bool (\<not> set xs \<subseteq> set es)), filter (\<lambda>x. x \<in> set es) xs)
      | S_clear \<Rightarrow> (Inr A_Unit, []))"

definition plain_set :: "('d list, 'd) set_impl" where
  "plain_set = \<lparr>si_size = expect un_Int (plain_set_call S_size), si_isEmpty = expect un_Bool (plain_set_call S_isEmpty),
     si_contains = (\<lambda>e. expect un_Bool (plain_set_call (S_contains e))), si_toArrayData = expect un_Elems (plain_set_call S_toArray),
     si_add = (\<lambda>e. expect un_Bool (plain_set_call (S_add e))), si_remove = (\<lambda>e. expect un_Bool (plain_set_call (S_remove e))),
     si_containsAll = (\<lambda>es. expect un_Bool (plain_set_call (S_containsAll es))), si_addAll = (\<lambda>es. expect un_Bool (plain_set_call (S_addAll es))),
     si_removeAll = (\<lambda>es. expect un_Bool (plain_set_call (S_removeAll es))), si_retainAll = (\<lambda>es. expect un_Bool (plain_set_call (S_retainAll es))),
     si_clear = expect un_Unit (plain_set_call S_clear)\<rparr>"

lemma plain_set_call_eq: "set_call plain_set op xs = plain_set_call op xs"
  by (cases op) (simp_all add: plain_set_def plain_set_call_def answering_def expect_defs bindM_def retM_def)

interpretation plain_set: set_server plain_set set distinct
proof unfold_locales
  fix xs :: "'d list" and op :: "'d set_op"
  assume "distinct xs"
  then show "\<exists>r s'. set_call plain_set op xs = (Inr r, s') \<and> distinct s' \<and> set_spec op (set xs) r (set s')"
    unfolding plain_set_call_eq by (cases op) (auto simp: plain_set_call_def distinct_card)
qed

interpretation unary_set: typed_set plain_set set distinct unary_data unary_object "\<lambda>n. replicate n ()" "\<lambda>_. True"
  by unfold_locales

section \<open>Queues\<close>

record ('s, 'd) queue_impl =
  qi_offer :: "'d \<Rightarrow> int \<Rightarrow> ('s, bool) comp"
  qi_put :: "'d \<Rightarrow> ('s, unit) comp"
  qi_pollData :: "int \<Rightarrow> ('s, 'd option) comp"
  qi_peekData :: "('s, 'd option) comp"
  qi_remainingCapacity :: "('s, int) comp"
  qi_remove :: "'d \<Rightarrow> ('s, bool) comp"
  qi_contains :: "'d \<Rightarrow> ('s, bool) comp"
  qi_drainToData :: "('s, 'd list) comp"
  qi_drainToData_max :: "nat \<Rightarrow> ('s, 'd list) comp"
  qi_size :: "('s, int) comp"
  qi_isEmpty :: "('s, bool) comp"
  qi_toArrayData :: "('s, 'd list) comp"
  qi_containsAll :: "'d list \<Rightarrow> ('s, bool) comp"
  qi_addAll :: "'d list \<Rightarrow> ('s, bool) comp"
  qi_removeAll :: "'d list \<Rightarrow> ('s, bool) comp"
  qi_retainAll :: "'d list \<Rightarrow> ('s, bool) comp"
  qi_clear :: "('s, unit) comp"

definition iq_offer_timed :: "('s, 'd) queue_impl \<Rightarrow> ('e \<Rightarrow> 'd res) \<Rightarrow> 'e \<Rightarrow> int \<Rightarrow> ('s, bool) comp" where
  "iq_offer_timed impl toData element timeoutInMillis = bindM (liftR (toData element)) (\<lambda>d. qi_offer impl d timeoutInMillis)"

definition iq_offer :: "('s, 'd) queue_impl \<Rightarrow> ('e \<Rightarrow> 'd res) \<Rightarrow> 'e \<Rightarrow> ('s, bool) comp" where
  "iq_offer impl toData element = iq_offer_timed impl toData element 0"

definition iq_put :: "('s, 'd) queue_impl \<Rightarrow> ('e \<Rightarrow> 'd res) \<Rightarrow> 'e \<Rightarrow> ('s, unit) comp" where
  "iq_put impl toData element = bindM (liftR (toData element)) (\<lambda>d. qi_put impl d)"

definition iq_poll_timed :: "('s, 'd) queue_impl \<Rightarrow> ('d \<Rightarrow> 'e option res) \<Rightarrow> int \<Rightarrow> ('s, 'e option) comp" where
  "iq_poll_timed impl toObj timeoutInMillis = bindM (qi_pollData impl timeoutInMillis) (\<lambda>d. liftR (toObject_auto toObj d))"

definition iq_poll :: "('s, 'd) queue_impl \<Rightarrow> ('d \<Rightarrow> 'e option res) \<Rightarrow> ('s, 'e option) comp" where
  "iq_poll impl toObj = iq_poll_timed impl toObj 0"

definition iq_take :: "('s, 'd) queue_impl \<Rightarrow> ('d \<Rightarrow> 'e option res) \<Rightarrow> ('s, 'e option) comp" where
  "iq_take impl toObj = iq_poll_timed impl toObj (- 1)"

definition iq_peek :: "('s, 'd) queue_impl \<Rightarrow> ('d \<Rightarrow> 'e option res) \<Rightarrow> ('s, 'e option) comp" where
  "iq_peek impl toObj = bindM (qi_peekData impl) (\<lambda>d. liftR (toObject_auto toObj d))"

definition iq_remainingCapacity :: "('s, 'd) queue_impl \<Rightarrow> ('s, int) comp" where
  "iq_remainingCapacity impl = qi_remainingCapacity impl"

definition iq_remove :: "('s, 'd) queue_impl \<Rightarrow> ('e \<Rightarrow> 'd res) \<Rightarrow> 'e \<Rightarrow> ('s, bool) comp" where
  "iq_remove impl toData element = bindM (liftR (toData element)) (\<lambda>d. qi_remove impl d)"

definition iq_contains :: "('s, 'd) queue_impl \<Rightarrow> ('e \<Rightarrow> 'd res) \<Rightarrow> 'e \<Rightarrow> ('s, bool) comp" where
  "iq_contains impl toData element = bindM (liftR (toData element)) (\<lambda>d. qi_contains impl d)"

definition iq_size :: "('s, 'd) queue_impl \<Rightarrow> ('s, int) comp" where
  "iq_size impl = qi_size impl"

definition iq_isEmpty :: "('s, 'd) queue_impl \<Rightarrow> ('s, bool) comp" where
  "iq_isEmpty impl = qi_isEmpty impl"

definition iq_toArray :: "('s, 'd) queue_impl \<Rightarrow> ('d \<Rightarrow> 'e option res) \<Rightarrow> ('s, 'e list) comp" where
  "iq_toArray impl toObj = bindM (qi_toArrayData impl) (\<lambda>ds. liftR (toObjectCollection toObj ds))"

definition iq_containsAll :: "('s, 'd) queue_impl \<Rightarrow> ('e \<Rightarrow> 'd res) \<Rightarrow> 'e list \<Rightarrow> ('s, bool) comp" where
  "iq_containsAll impl toData elements = bindM (liftR (toDataCollection toData elements)) (\<lambda>ds. qi_containsAll impl ds)"

definition iq_addAll :: "('s, 'd) queue_impl \<Rightarrow> ('e \<Rightarrow> 'd res) \<Rightarrow> 'e list \<Rightarrow> ('s, bool) comp" where
  "iq_addAll impl toData elements = bindM (liftR (toDataCollection toData elements)) (\<lambda>ds. qi_addAll impl ds)"

definition iq_removeAll :: "('s, 'd) queue_impl \<Rightarrow> ('e \<Rightarrow> 'd res) \<Rightarrow> 'e list \<Rightarrow> ('s, bool) comp" where
  "iq_removeAll impl toData elements = bindM (liftR (toDataCollection toData elements)) (\<lambda>ds. qi_removeAll impl ds)"

definition iq_retainAll :: "('s, 'd) queue_impl \<Rightarrow> ('e \<Rightarrow> 'd res) \<Rightarrow> 'e list \<Rightarrow> ('s, bool) comp" where
  "iq_retainAll impl toData elements = bindM (liftR (toDataCollection toData elements)) (\<lambda>ds. qi_retainAll impl ds)"

definition iq_clear :: "('s, 'd) queue_impl \<Rightarrow> ('s, unit) comp" where
  "iq_clear impl = qi_clear impl"

text \<open>The loop of \<open>drainTo\<close> appends to the vector of the caller, which keeps what was appended when an element cannot be read.\<close>

fun drain_loop :: "('d \<Rightarrow> 'e option res) \<Rightarrow> 'd list \<Rightarrow> 'e list \<Rightarrow> unit res \<times> 'e list" where
  "drain_loop toObj [] elements = (Inr (), elements)"
| "drain_loop toObj (d # ds) elements =
     (case bindR (toObj d) deref_ptr of Inl e \<Rightarrow> (Inl e, elements) | Inr v \<Rightarrow> drain_loop toObj ds (elements @ [v]))"

definition drain_into :: "('d \<Rightarrow> 'e option res) \<Rightarrow> ('s, 'd list) comp \<Rightarrow> 'e list \<Rightarrow> 's \<Rightarrow> (nat res \<times> 'e list) \<times> 's" where
  "drain_into toObj drained elements s =
     (case drained s of
        (Inl e, s') \<Rightarrow> ((Inl e, elements), s')
      | (Inr coll, s') \<Rightarrow> (case drain_loop toObj coll elements of (Inl e, els) \<Rightarrow> ((Inl e, els), s') | (Inr _, els) \<Rightarrow> ((Inr (length coll), els), s')))"

definition iq_drainTo :: "('s, 'd) queue_impl \<Rightarrow> ('d \<Rightarrow> 'e option res) \<Rightarrow> 'e list \<Rightarrow> 's \<Rightarrow> (nat res \<times> 'e list) \<times> 's" where
  "iq_drainTo impl toObj = drain_into toObj (qi_drainToData impl)"

definition iq_drainTo_max :: "('s, 'd) queue_impl \<Rightarrow> ('d \<Rightarrow> 'e option res) \<Rightarrow> 'e list \<Rightarrow> nat \<Rightarrow> 's \<Rightarrow> (nat res \<times> 'e list) \<times> 's" where
  "iq_drainTo_max impl toObj elements maxElements = drain_into toObj (qi_drainToData_max impl maxElements) elements"

section \<open>Multimaps\<close>

record ('s, 'd) multimap_impl =
  mi_put :: "'d \<Rightarrow> 'd \<Rightarrow> ('s, bool) comp"
  mi_getData :: "'d \<Rightarrow> ('s, 'd list) comp"
  mi_remove :: "'d \<Rightarrow> 'd \<Rightarrow> ('s, bool) comp"
  mi_removeData :: "'d \<Rightarrow> ('s, 'd list) comp"
  mi_keySetData :: "('s, 'd list) comp"
  mi_valuesData :: "('s, 'd list) comp"
  mi_entrySetData :: "('s, ('d \<times> 'd) list) comp"
  mi_containsKey :: "'d \<Rightarrow> ('s, bool) comp"
  mi_containsValue :: "'d \<Rightarrow> ('s, bool) comp"
  mi_containsEntry :: "'d \<Rightarrow> 'd \<Rightarrow> ('s, bool) comp"
  mi_size :: "('s, int) comp"
  mi_clear :: "('s, unit) comp"
  mi_valueCount :: "'d \<Rightarrow> ('s, int) comp"
  mi_lock :: "'d \<Rightarrow> int option \<Rightarrow> ('s, unit) comp"
  mi_isLocked :: "'d \<Rightarrow> ('s, bool) comp"
  mi_tryLock :: "'d \<Rightarrow> int option \<Rightarrow> ('s, bool) comp"
  mi_unlock :: "'d \<Rightarrow> ('s, unit) comp"
  mi_forceUnlock :: "'d \<Rightarrow> ('s, unit) comp"

definition mm_put :: "('s, 'd) multimap_impl \<Rightarrow> ('k \<Rightarrow> 'd res) \<Rightarrow> ('v \<Rightarrow> 'd res) \<Rightarrow> 'k \<Rightarrow> 'v \<Rightarrow> ('s, bool) comp" where
  "mm_put impl keyData valueData key v = bindM (liftR (keyData key)) (\<lambda>kd. bindM (liftR (valueData v)) (\<lambda>vd. mi_put impl kd vd))"

definition mm_remove :: "('s, 'd) multimap_impl \<Rightarrow> ('k \<Rightarrow> 'd res) \<Rightarrow> ('v \<Rightarrow> 'd res) \<Rightarrow> 'k \<Rightarrow> 'v \<Rightarrow> ('s, bool) comp" where
  "mm_remove impl keyData valueData key v = bindM (liftR (keyData key)) (\<lambda>kd. bindM (liftR (valueData v)) (\<lambda>vd. mi_remove impl kd vd))"

definition mm_containsEntry :: "('s, 'd) multimap_impl \<Rightarrow> ('k \<Rightarrow> 'd res) \<Rightarrow> ('v \<Rightarrow> 'd res) \<Rightarrow> 'k \<Rightarrow> 'v \<Rightarrow> ('s, bool) comp" where
  "mm_containsEntry impl keyData valueData key v = bindM (liftR (keyData key)) (\<lambda>kd. bindM (liftR (valueData v)) (\<lambda>vd. mi_containsEntry impl kd vd))"

definition mm_get :: "('s, 'd) multimap_impl \<Rightarrow> ('k \<Rightarrow> 'd res) \<Rightarrow> ('d \<Rightarrow> 'v option res) \<Rightarrow> 'k \<Rightarrow> ('s, 'v list) comp" where
  "mm_get impl keyData toValue key = bindM (liftR (keyData key)) (\<lambda>kd. bindM (mi_getData impl kd) (\<lambda>ds. liftR (toObjectCollection toValue ds)))"

definition mm_remove_key :: "('s, 'd) multimap_impl \<Rightarrow> ('k \<Rightarrow> 'd res) \<Rightarrow> ('d \<Rightarrow> 'v option res) \<Rightarrow> 'k \<Rightarrow> ('s, 'v list) comp" where
  "mm_remove_key impl keyData toValue key = bindM (liftR (keyData key)) (\<lambda>kd. bindM (mi_removeData impl kd) (\<lambda>ds. liftR (toObjectCollection toValue ds)))"

definition mm_keySet :: "('s, 'd) multimap_impl \<Rightarrow> ('d \<Rightarrow> 'k option res) \<Rightarrow> ('s, 'k list) comp" where
  "mm_keySet impl toKey = bindM (mi_keySetData impl) (\<lambda>ds. liftR (toObjectCollection toKey ds))"

definition mm_values :: "('s, 'd) multimap_impl \<Rightarrow> ('d \<Rightarrow> 'v option res) \<Rightarrow> ('s, 'v list) comp" where
  "mm_values impl toValue = bindM (mi_valuesData impl) (\<lambda>ds. liftR (toObjectCollection toValue ds))"

definition mm_entrySet :: "('s, 'd) multimap_impl \<Rightarrow> ('d \<Rightarrow> 'k option res) \<Rightarrow> ('d \<Rightarrow> 'v option res) \<Rightarrow> ('s, ('k \<times> 'v) list) comp" where
  "mm_entrySet impl toKey toValue = bindM (mi_entrySetData impl) (\<lambda>es. liftR (toObjectEntrySet toKey toValue es))"

definition mm_containsKey :: "('s, 'd) multimap_impl \<Rightarrow> ('k \<Rightarrow> 'd res) \<Rightarrow> 'k \<Rightarrow> ('s, bool) comp" where
  "mm_containsKey impl keyData key = bindM (liftR (keyData key)) (\<lambda>kd. mi_containsKey impl kd)"

definition mm_containsValue :: "('s, 'd) multimap_impl \<Rightarrow> ('v \<Rightarrow> 'd res) \<Rightarrow> 'v \<Rightarrow> ('s, bool) comp" where
  "mm_containsValue impl valueData v = bindM (liftR (valueData v)) (\<lambda>vd. mi_containsValue impl vd)"

definition mm_size :: "('s, 'd) multimap_impl \<Rightarrow> ('s, int) comp" where
  "mm_size impl = mi_size impl"

definition mm_clear :: "('s, 'd) multimap_impl \<Rightarrow> ('s, unit) comp" where
  "mm_clear impl = mi_clear impl"

definition mm_valueCount :: "('s, 'd) multimap_impl \<Rightarrow> ('k \<Rightarrow> 'd res) \<Rightarrow> 'k \<Rightarrow> ('s, int) comp" where
  "mm_valueCount impl keyData key = bindM (liftR (keyData key)) (\<lambda>kd. mi_valueCount impl kd)"

definition mm_lock :: "('s, 'd) multimap_impl \<Rightarrow> ('k \<Rightarrow> 'd res) \<Rightarrow> 'k \<Rightarrow> ('s, unit) comp" where
  "mm_lock impl keyData key = bindM (liftR (keyData key)) (\<lambda>kd. mi_lock impl kd None)"

definition mm_lock_lease :: "('s, 'd) multimap_impl \<Rightarrow> ('k \<Rightarrow> 'd res) \<Rightarrow> 'k \<Rightarrow> int \<Rightarrow> ('s, unit) comp" where
  "mm_lock_lease impl keyData key leaseTimeInMillis = bindM (liftR (keyData key)) (\<lambda>kd. mi_lock impl kd (Some leaseTimeInMillis))"

definition mm_isLocked :: "('s, 'd) multimap_impl \<Rightarrow> ('k \<Rightarrow> 'd res) \<Rightarrow> 'k \<Rightarrow> ('s, bool) comp" where
  "mm_isLocked impl keyData key = bindM (liftR (keyData key)) (\<lambda>kd. mi_isLocked impl kd)"

definition mm_tryLock :: "('s, 'd) multimap_impl \<Rightarrow> ('k \<Rightarrow> 'd res) \<Rightarrow> 'k \<Rightarrow> ('s, bool) comp" where
  "mm_tryLock impl keyData key = bindM (liftR (keyData key)) (\<lambda>kd. mi_tryLock impl kd None)"

definition mm_tryLock_timed :: "('s, 'd) multimap_impl \<Rightarrow> ('k \<Rightarrow> 'd res) \<Rightarrow> 'k \<Rightarrow> int \<Rightarrow> ('s, bool) comp" where
  "mm_tryLock_timed impl keyData key timeoutInMillis = bindM (liftR (keyData key)) (\<lambda>kd. mi_tryLock impl kd (Some timeoutInMillis))"

definition mm_unlock :: "('s, 'd) multimap_impl \<Rightarrow> ('k \<Rightarrow> 'd res) \<Rightarrow> 'k \<Rightarrow> ('s, unit) comp" where
  "mm_unlock impl keyData key = bindM (liftR (keyData key)) (\<lambda>kd. mi_unlock impl kd)"

definition mm_forceUnlock :: "('s, 'd) multimap_impl \<Rightarrow> ('k \<Rightarrow> 'd res) \<Rightarrow> 'k \<Rightarrow> ('s, unit) comp" where
  "mm_forceUnlock impl keyData key = bindM (liftR (keyData key)) (\<lambda>kd. mi_forceUnlock impl kd)"

section \<open>Adaptors\<close>

text \<open>The adaptors hand out arrays that deserialize an element when it is asked for; their other operations are those of the adapted class.\<close>

definition rl_toArray :: "('s, 'd) list_impl \<Rightarrow> ('s, ('d, 'e) data_array) comp" where
  "rl_toArray impl = bindM (li_toArrayData impl) (\<lambda>ds. retM (DataArray_new ds))"

definition rl_subList :: "('s, 'd) list_impl \<Rightarrow> int \<Rightarrow> int \<Rightarrow> ('s, ('d, 'e) data_array) comp" where
  "rl_subList impl fromIndex toIndex = bindM (li_subListData impl fromIndex toIndex) (\<lambda>ds. retM (DataArray_new ds))"

definition rl_get :: "('s, 'd) list_impl \<Rightarrow> ('d \<Rightarrow> 'e option res) \<Rightarrow> int \<Rightarrow> ('s, 'e option) comp" where
  "rl_get impl toObj index = bindM (li_getData impl index) (\<lambda>d. liftR (toObject_auto toObj d))"

definition rl_set :: "('s, 'd) list_impl \<Rightarrow> ('e \<Rightarrow> 'd res) \<Rightarrow> ('d \<Rightarrow> 'e option res) \<Rightarrow> int \<Rightarrow> 'e \<Rightarrow> ('s, 'e option) comp" where
  "rl_set impl toData toObj index element =
     bindM (liftR (toData element)) (\<lambda>d. bindM (li_setData impl index d) (\<lambda>old. liftR (toObject_auto toObj old)))"

definition rl_remove_at :: "('s, 'd) list_impl \<Rightarrow> ('d \<Rightarrow> 'e option res) \<Rightarrow> int \<Rightarrow> ('s, 'e option) comp" where
  "rl_remove_at impl toObj index = bindM (li_removeData impl index) (\<lambda>d. liftR (toObject_auto toObj d))"

definition rs_toArray :: "('s, 'd) set_impl \<Rightarrow> ('s, ('d, 'e) data_array) comp" where
  "rs_toArray impl = bindM (si_toArrayData impl) (\<lambda>ds. retM (DataArray_new ds))"

text \<open>The answer of \<open>offer\<close> is dropped.\<close>

definition rq_put :: "('s, 'd) queue_impl \<Rightarrow> ('e \<Rightarrow> 'd res) \<Rightarrow> 'e \<Rightarrow> ('s, unit) comp" where
  "rq_put impl toData e = bindM (iq_offer_timed impl toData e (- 1)) (\<lambda>_. retM ())"

definition rq_take :: "('s, 'd) queue_impl \<Rightarrow> ('d \<Rightarrow> 'e option res) \<Rightarrow> ('s, 'e option) comp" where
  "rq_take impl toObj = bindM (qi_pollData impl (- 1)) (\<lambda>d. liftR (toObject_auto toObj d))"

definition rq_poll_timed :: "('s, 'd) queue_impl \<Rightarrow> ('d \<Rightarrow> 'e option res) \<Rightarrow> int \<Rightarrow> ('s, 'e option) comp" where
  "rq_poll_timed impl toObj timeoutInMillis = bindM (qi_pollData impl timeoutInMillis) (\<lambda>d. liftR (toObject_auto toObj d))"

definition rq_poll :: "('s, 'd) queue_impl \<Rightarrow> ('d \<Rightarrow> 'e option res) \<Rightarrow> ('s, 'e option) comp" where
  "rq_poll impl toObj = bindM (qi_pollData impl 0) (\<lambda>d. liftR (toObject_auto toObj d))"

definition rq_peek :: "('s, 'd) queue_impl \<Rightarrow> ('d \<Rightarrow> 'e option res) \<Rightarrow> ('s, 'e option) comp" where
  "rq_peek impl toObj = bindM (qi_peekData impl) (\<lambda>d. liftR (toObject_auto toObj d))"

definition rq_drainTo_max :: "('s, 'd) queue_impl \<Rightarrow> nat \<Rightarrow> ('s, ('d, 'e) data_array) comp" where
  "rq_drainTo_max impl maxElements = bindM (qi_drainToData_max impl maxElements) (\<lambda>ds. retM (DataArray_new ds))"

text \<open>\<open>-1\<close> as a \<open>size_t\<close>.\<close>

definition rq_drainTo :: "('s, 'd) queue_impl \<Rightarrow> ('s, ('d, 'e) data_array) comp" where
  "rq_drainTo impl = rq_drainTo_max impl (2 ^ 64 - 1)"

definition rq_toArray :: "('s, 'd) queue_impl \<Rightarrow> ('s, ('d, 'e) data_array) comp" where
  "rq_toArray impl = bindM (qi_toArrayData impl) (\<lambda>ds. retM (DataArray_new ds))"

definition rmm_get :: "('s, 'd) multimap_impl \<Rightarrow> ('k \<Rightarrow> 'd res) \<Rightarrow> 'k \<Rightarrow> ('s, ('d, 'v) data_array) comp" where
  "rmm_get impl keyData key = bindM (liftR (keyData key)) (\<lambda>kd. bindM (mi_getData impl kd) (\<lambda>ds. retM (DataArray_new ds)))"

definition rmm_remove_key :: "('s, 'd) multimap_impl \<Rightarrow> ('k \<Rightarrow> 'd res) \<Rightarrow> 'k \<Rightarrow> ('s, ('d, 'v) data_array) comp" where
  "rmm_remove_key impl keyData key = bindM (liftR (keyData key)) (\<lambda>kd. bindM (mi_removeData impl kd) (\<lambda>ds. retM (DataArray_new ds)))"

definition rmm_keySet :: "('s, 'd) multimap_impl \<Rightarrow> ('s, ('d, 'k) data_array) comp" where
  "rmm_keySet impl = bindM (mi_keySetData impl) (\<lambda>ds. retM (DataArray_new ds))"

definition rmm_values :: "('s, 'd) multimap_impl \<Rightarrow> ('s, ('d, 'v) data_array) comp" where
  "rmm_values impl = bindM (mi_valuesData impl) (\<lambda>ds. retM (DataArray_new ds))"

text \<open>Every element of an array reads as the conversion of the whole collection would read it, whatever the others are.\<close>

lemma da_get_new: "i < length ds \<Longrightarrow> da_get toObj i (DataArray_new ds) = bindR (toObj (ds ! i)) (\<lambda>v. Inr (v, (DataArray_new ds)[i := (ds ! i, Some v)]))"
  by (auto simp: da_get_def da_checkIndex_def DataArray_new_def bindR_def)

lemma toObjectCollection_nth:
  "toObjectCollection toObj ds = Inr vs \<Longrightarrow> length vs = length ds \<and> (\<forall>i < length ds. toObj (ds ! i) = Inr (Some (vs ! i)))"
proof (induction ds arbitrary: vs)
  case (Cons d ds)
  then obtain v vs' where v: "bindR (toObj d) deref_ptr = Inr v" "toObjectCollection toObj ds = Inr vs'" "vs = v # vs'"
    by (auto simp: toObjectCollection_def elim!: bindR_InrE)
  from v(1) have "toObj d = Inr (Some v)" by (auto simp: deref_ptr_def elim!: bindR_InrE split: option.splits)
  with v Cons.IH [OF v(2)] show ?case by (auto simp: nth_Cons split: nat.splits)
qed (simp add: toObjectCollection_def)

lemma array_agrees:
  assumes "toObjectCollection toObj ds = Inr vs" "i < length ds"
  shows "\<exists>a. da_get toObj i (DataArray_new ds) = Inr (Some (vs ! i), a)"
  using assms toObjectCollection_nth [OF assms(1)] by (simp add: da_get_new)

section \<open>Draining\<close>

text \<open>A cluster that keeps a queue of serialized elements.\<close>

locale queue_server =
  fixes impl :: "('s, 'd) queue_impl" and sabs :: "'s \<Rightarrow> 'd list" and sok :: "'s \<Rightarrow> bool"
  assumes drain_law: "sok s \<Longrightarrow> \<exists>s'. qi_drainToData impl s = (Inr (sabs s), s') \<and> sok s' \<and> sabs s' = []"
    and drain_max_law: "sok s \<Longrightarrow> \<exists>s'. qi_drainToData_max impl n s = (Inr (take n (sabs s)), s') \<and> sok s' \<and> sabs s' = drop n (sabs s)"
begin

lemma rq_drainTo_all:
  assumes "sok s" "length (sabs s) < 2 ^ 64"
  shows "\<exists>s'. rq_drainTo impl s = (Inr (DataArray_new (sabs s)), s') \<and> sok s' \<and> sabs s' = []"
proof -
  obtain s' where "qi_drainToData_max impl (2 ^ 64 - 1) s = (Inr (take (2 ^ 64 - 1) (sabs s)), s')" "sok s'" "sabs s' = drop (2 ^ 64 - 1) (sabs s)"
    using drain_max_law [OF assms(1)] by blast
  moreover have "length (sabs s) \<le> 2 ^ 64 - 1" using assms(2) by simp
  ultimately show ?thesis by (simp add: rq_drainTo_def rq_drainTo_max_def bindM_def retM_def)
qed

end

lemma drain_loop_outcome:
  "(\<exists>vs. toObjectCollection toObj ds = Inr vs \<and> drain_loop toObj ds els = (Inr (), els @ vs))
   \<or> (\<exists>i e vs. i < length ds \<and> bindR (toObj (ds ! i)) deref_ptr = Inl e \<and> toObjectCollection toObj (take i ds) = Inr vs \<and> drain_loop toObj ds els = (Inl e, els @ vs))"
proof (induction ds arbitrary: els)
  case (Cons d ds)
  show ?case
  proof (cases "bindR (toObj d) deref_ptr")
    case (Inl e)
    then show ?thesis by (intro disjI2 exI [of _ 0]) (simp add: toObjectCollection_def)
  next
    case (Inr v)
    from Cons.IH [of "els @ [v]"] show ?thesis
    proof (elim disjE exE conjE)
      fix vs
      assume "toObjectCollection toObj ds = Inr vs" "drain_loop toObj ds (els @ [v]) = (Inr (), (els @ [v]) @ vs)"
      then show ?thesis using Inr by (intro disjI1) (simp add: toObjectCollection_def)
    next
      fix i e vs
      assume "i < length ds" "bindR (toObj (ds ! i)) deref_ptr = Inl e" "toObjectCollection toObj (take i ds) = Inr vs"
        "drain_loop toObj ds (els @ [v]) = (Inl e, (els @ [v]) @ vs)"
      then show ?thesis using Inr by (intro disjI2 exI [of _ "Suc i"]) (simp add: toObjectCollection_def)
    qed
  qed
qed (simp add: toObjectCollection_def)

text \<open>Claim C40: draining a queue takes all its elements, and an element that cannot be read loses those behind it: \<open>drainTo\<close> always leaves the queue
  empty; it appends all elements in order and answers their number when all of them can be read; otherwise it appends those before the first one that
  cannot be read and throws. The adaptor's \<open>drainTo\<close> gives every element, each of which is read on its own.
\<close>

theorem drain_outcome:
  fixes impl :: "('s, 'd) queue_impl" and toObj :: "'d \<Rightarrow> 'e option res"
  assumes "queue_server impl sabs sok" "sok s" "length (sabs s) < 2 ^ 64"
  shows "(\<exists>r els' s'. iq_drainTo impl toObj els s = ((r, els'), s') \<and> sabs s' = []
      \<and> ((\<exists>vs. toObjectCollection toObj (sabs s) = Inr vs \<and> r = Inr (length (sabs s)) \<and> els' = els @ vs)
        \<or> (\<exists>i e vs. i < length (sabs s) \<and> bindR (toObj (sabs s ! i)) deref_ptr = Inl e \<and> toObjectCollection toObj (take i (sabs s)) = Inr vs \<and> r = Inl e \<and> els' = els @ vs)))
    \<and> (\<exists>(a :: ('d, 'e) data_array) s''. rq_drainTo impl s = (Inr a, s'') \<and> sabs s'' = [] \<and> da_size a = length (sabs s)
        \<and> (\<forall>i < length (sabs s). \<forall>v. toObj (sabs s ! i) = Inr v \<longrightarrow> (\<exists>a'. da_get toObj i a = Inr (v, a'))))"
proof -
  obtain s' where d: "qi_drainToData impl s = (Inr (sabs s), s')" "sabs s' = []" using queue_server.drain_law [OF assms(1,2)] by blast
  obtain s'' where q: "rq_drainTo impl s = (Inr (DataArray_new (sabs s) :: ('d, 'e) data_array), s'')" "sabs s'' = []" using queue_server.rq_drainTo_all [OF assms] by blast
  have a: "da_size (DataArray_new (sabs s) :: ('d, 'e) data_array) = length (sabs s)" by (simp add: da_size_def DataArray_new_def)
  have g: "\<exists>a'. da_get toObj i (DataArray_new (sabs s)) = Inr (v, a')" if "i < length (sabs s)" "toObj (sabs s ! i) = Inr v" for i v
    using that by (simp add: da_get_new)
  have "\<exists>r els'. iq_drainTo impl toObj els s = ((r, els'), s')
      \<and> ((\<exists>vs. toObjectCollection toObj (sabs s) = Inr vs \<and> r = Inr (length (sabs s)) \<and> els' = els @ vs)
        \<or> (\<exists>i e vs. i < length (sabs s) \<and> bindR (toObj (sabs s ! i)) deref_ptr = Inl e \<and> toObjectCollection toObj (take i (sabs s)) = Inr vs \<and> r = Inl e \<and> els' = els @ vs))"
    using drain_loop_outcome [of toObj "sabs s" els] d(1) by (auto simp: iq_drainTo_def drain_into_def)
  then show ?thesis using d(2) q a g by blast
qed

text \<open>A cluster that is its queue; only draining is of interest.\<close>

definition plain_queue :: "('d list, 'd) queue_impl" where
  "plain_queue = \<lparr>qi_offer = (\<lambda>d _ q. (Inr True, q @ [d])), qi_put = (\<lambda>d q. (Inr (), q @ [d])),
     qi_pollData = (\<lambda>_ q. (case q of [] \<Rightarrow> (Inr None, []) | d # ds \<Rightarrow> (Inr (Some d), ds))), qi_peekData = (\<lambda>q. (Inr (case q of [] \<Rightarrow> None | d # _ \<Rightarrow> Some d), q)),
     qi_remainingCapacity = (\<lambda>q. (Inr (2 ^ 31 - 1), q)), qi_remove = (\<lambda>d q. (Inr (d \<in> set q), remove1 d q)), qi_contains = (\<lambda>d q. (Inr (d \<in> set q), q)),
     qi_drainToData = (\<lambda>q. (Inr q, [])), qi_drainToData_max = (\<lambda>n q. (Inr (take n q), drop n q)), qi_size = (\<lambda>q. (Inr (int (length q)), q)),
     qi_isEmpty = (\<lambda>q. (Inr (q = []), q)), qi_toArrayData = (\<lambda>q. (Inr q, q)), qi_containsAll = (\<lambda>ds q. (Inr (set ds \<subseteq> set q), q)),
     qi_addAll = (\<lambda>ds q. (Inr (ds \<noteq> []), q @ ds)), qi_removeAll = (\<lambda>ds q. (Inr (set q \<inter> set ds \<noteq> {}), filter (\<lambda>d. d \<notin> set ds) q)),
     qi_retainAll = (\<lambda>ds q. (Inr (\<not> set q \<subseteq> set ds), filter (\<lambda>d. d \<in> set ds) q)), qi_clear = (\<lambda>_. (Inr (), []))\<rparr>"

interpretation plain_queue: queue_server plain_queue "\<lambda>q. q" "\<lambda>_. True"
  by unfold_locales (simp_all add: plain_queue_def)

definition small_only :: "nat \<Rightarrow> nat option res" where
  "small_only d = (if d < 10 then Inr (Some d) else Inl HazelcastSerializationException)"

lemma drain_outcome_witness:
  "\<exists>a s''. iq_drainTo plain_queue small_only [9] [1, 50, 2] = ((Inl HazelcastSerializationException, [9, 1]), [])
    \<and> rq_drainTo plain_queue [1, 50, 2] = (Inr a, s'') \<and> da_size a = 3 \<and> (\<exists>a'. da_get small_only 2 a = Inr (Some 2, a'))"
proof -
  have i: "iq_drainTo plain_queue small_only [9] [1, 50, 2] = ((Inl HazelcastSerializationException, [9, 1]), [])"
    by (simp add: iq_drainTo_def drain_into_def plain_queue_def small_only_def deref_ptr_def)
  have len: "length [1, 50, 2 :: nat] < 2 ^ 64" by simp
  obtain a s'' where "rq_drainTo plain_queue [1, 50, 2 :: nat] = (Inr a, s'')" "da_size a = length [1, 50, 2 :: nat]"
      "\<forall>i < length [1, 50, 2 :: nat]. \<forall>v. small_only ([1, 50, 2] ! i) = Inr v \<longrightarrow> (\<exists>a'. da_get small_only i a = Inr (v, a'))"
    using drain_outcome [OF plain_queue.queue_server_axioms TrueI len, of small_only "[9]"] by blast
  then show ?thesis using i by (auto simp: small_only_def dest: spec [of _ 2])
qed

end
