(* ===== verification/Raw_Map.thy ===== *)
theory Raw_Map
  imports Map_Laws Paging Collections
begin

text \<open>
  The adaptor of \<open>client/adaptor/RawPointerMap.h\<close> for distributed maps, which gives its results as owned pointers and as arrays that deserialize on
  demand. Operations that the adaptor hands over to the adapted map are those of \<open>Map_Proxy\<close>; here are the others, which send the messages of the map
  proxy themselves.
\<close>

section \<open>Operations on one key\<close>

definition rp_get :: "('s, 'd, 'q, 'f) IMapImpl \<Rightarrow> ('k, 'v, 'd, 'q, 'e, 'r) map_codec \<Rightarrow> 'k \<Rightarrow> ('d, 'c, 'mk, 's, 'v option) pcomp" where
  "rp_get impl cd key =
     bindM (liftR (k_toData cd key)) (\<lambda>keyData.
     bindM (on_server (im_getData impl keyData)) (\<lambda>d. liftR (toObject_auto (v_toObject cd) d)))"

definition rp_put_ttl :: "('s, 'd, 'q, 'f) IMapImpl \<Rightarrow> ('k, 'v, 'd, 'q, 'e, 'r) map_codec \<Rightarrow> 'k \<Rightarrow> 'v \<Rightarrow> int \<Rightarrow> ('d, 'c, 'mk, 's, 'v option) pcomp" where
  "rp_put_ttl impl cd key v ttlInMillis =
     bindM (liftR (k_toData cd key)) (\<lambda>keyData.
     bindM (liftR (v_toData cd v)) (\<lambda>valueData.
     bindM (on_server (im_putData impl keyData valueData ttlInMillis)) (\<lambda>d. liftR (toObject_auto (v_toObject cd) d))))"

definition rp_put :: "('s, 'd, 'q, 'f) IMapImpl \<Rightarrow> ('k, 'v, 'd, 'q, 'e, 'r) map_codec \<Rightarrow> 'k \<Rightarrow> 'v \<Rightarrow> ('d, 'c, 'mk, 's, 'v option) pcomp" where
  "rp_put impl cd key v = rp_put_ttl impl cd key v (- 1)"

definition rp_remove :: "('s, 'd, 'q, 'f) IMapImpl \<Rightarrow> ('k, 'v, 'd, 'q, 'e, 'r) map_codec \<Rightarrow> 'k \<Rightarrow> ('d, 'c, 'mk, 's, 'v option) pcomp" where
  "rp_remove impl cd key =
     bindM (liftR (k_toData cd key)) (\<lambda>keyData.
     bindM (on_server (im_removeData impl keyData)) (\<lambda>d. liftR (toObject_auto (v_toObject cd) d)))"

definition rp_putIfAbsent_ttl :: "('s, 'd, 'q, 'f) IMapImpl \<Rightarrow> ('k, 'v, 'd, 'q, 'e, 'r) map_codec \<Rightarrow> 'k \<Rightarrow> 'v \<Rightarrow> int \<Rightarrow> ('d, 'c, 'mk, 's, 'v option) pcomp" where
  "rp_putIfAbsent_ttl impl cd key v ttlInMillis =
     bindM (liftR (k_toData cd key)) (\<lambda>keyData.
     bindM (liftR (v_toData cd v)) (\<lambda>valueData.
     bindM (on_server (im_putIfAbsentData impl keyData valueData ttlInMillis)) (\<lambda>d. liftR (toObject_auto (v_toObject cd) d))))"

definition rp_putIfAbsent :: "('s, 'd, 'q, 'f) IMapImpl \<Rightarrow> ('k, 'v, 'd, 'q, 'e, 'r) map_codec \<Rightarrow> 'k \<Rightarrow> 'v \<Rightarrow> ('d, 'c, 'mk, 's, 'v option) pcomp" where
  "rp_putIfAbsent impl cd key v = rp_putIfAbsent_ttl impl cd key v (- 1)"

definition rp_replace :: "('s, 'd, 'q, 'f) IMapImpl \<Rightarrow> ('k, 'v, 'd, 'q, 'e, 'r) map_codec \<Rightarrow> 'k \<Rightarrow> 'v \<Rightarrow> ('d, 'c, 'mk, 's, 'v option) pcomp" where
  "rp_replace impl cd key v =
     bindM (liftR (k_toData cd key)) (\<lambda>keyData.
     bindM (liftR (v_toData cd v)) (\<lambda>valueData.
     bindM (on_server (im_replaceData impl keyData valueData)) (\<lambda>d. liftR (toObject_auto (v_toObject cd) d))))"

text \<open>\<open>executeOnKey\<close> calls the virtual method.\<close>

definition rp_executeOnKey :: "('d, 'k, 'v, 'f, ('d, 'c, 'mk, 's) map_proxy) map_vt \<Rightarrow> ('k, 'v, 'd, 'q, 'e, 'r) map_codec \<Rightarrow> 'k \<Rightarrow> 'e \<Rightarrow> ('d, 'c, 'mk, 's, 'r option) pcomp" where
  "rp_executeOnKey vt cd key entryProcessor =
     bindM (liftR (k_toData cd key)) (\<lambda>keyData.
     bindM (liftR (e_toData cd entryProcessor)) (\<lambda>processorData.
     bindM (vt_executeOnKeyInternal vt keyData processorData) (\<lambda>resultData. liftR (toObject_auto (r_toObject cd) resultData))))"

section \<open>Queries\<close>

fun group_data :: "('s, 'd, 'q, 'f) IMapImpl \<Rightarrow> ('k, 'v, 'd, 'q, 'e, 'r) map_codec \<Rightarrow> 'k list \<Rightarrow> (int \<times> 'd list) list \<Rightarrow> (int \<times> 'd list) list res" where
  "group_data impl cd [] g = Inr g"
| "group_data impl cd (k # ks) g = bindR (k_toData cd k) (\<lambda>d. group_data impl cd ks (group_push (im_getPartitionId impl d) d g))"

text \<open>No keys give a null pointer.\<close>

definition rp_getAll :: "('s, 'd, 'q, 'f) IMapImpl \<Rightarrow> ('k, 'v, 'd, 'q, 'e, 'r) map_codec \<Rightarrow> 'k list \<Rightarrow> ('d, 'c, 'mk, 's, ('d, 'k, 'v) entry_array option) pcomp" where
  "rp_getAll impl cd keys =
     (if keys = [] then retM None
      else bindM (liftR (group_data impl cd keys [])) (\<lambda>partitionToKeyData.
           bindM (on_server (im_getAllData impl partitionToKeyData)) (\<lambda>es. retM (Some (LazyEntryArray es)))))"

definition rp_keySet :: "('s, 'd, 'q, 'f) IMapImpl \<Rightarrow> 'q option \<Rightarrow> ('d, 'c, 'mk, 's, ('d, 'k) data_array) pcomp" where
  "rp_keySet impl predicate = bindM (on_server (im_keySetData impl predicate)) (\<lambda>ds. retM (DataArray_new ds))"

definition rp_values :: "('s, 'd, 'q, 'f) IMapImpl \<Rightarrow> 'q option \<Rightarrow> ('d, 'c, 'mk, 's, ('d, 'v) data_array) pcomp" where
  "rp_values impl predicate = bindM (on_server (im_valuesData impl predicate)) (\<lambda>ds. retM (DataArray_new ds))"

definition rp_entrySet :: "('s, 'd, 'q, 'f) IMapImpl \<Rightarrow> 'q option \<Rightarrow> ('d, 'c, 'mk, 's, ('d, 'k, 'v) entry_array) pcomp" where
  "rp_entrySet impl predicate = bindM (on_server (im_entrySetData impl predicate)) (\<lambda>es. retM (LazyEntryArray es))"

definition rp_executeOnKeys :: "('s, 'd, 'q, 'f) IMapImpl \<Rightarrow> ('k, 'v, 'd, 'q, 'e, 'r) map_codec \<Rightarrow> 'k list \<Rightarrow> 'e \<Rightarrow> ('d, 'c, 'mk, 's, ('d, 'k, 'r) entry_array) pcomp" where
  "rp_executeOnKeys impl cd keys entryProcessor = bindM (executeOnKeysInternal impl cd keys entryProcessor) (\<lambda>es. retM (LazyEntryArray es))"

definition rp_executeOnEntries :: "('s, 'd, 'q, 'f) IMapImpl \<Rightarrow> ('k, 'v, 'd, 'q, 'e, 'r) map_codec \<Rightarrow> 'e \<Rightarrow> 'q option \<Rightarrow> ('d, 'c, 'mk, 's, ('d, 'k, 'r) entry_array) pcomp" where
  "rp_executeOnEntries impl cd entryProcessor predicate =
     bindM (liftR (e_toData cd entryProcessor)) (\<lambda>processorData.
     bindM (on_server (im_executeOnEntriesData impl processorData predicate)) (\<lambda>es. retM (LazyEntryArray es)))"

text \<open>A page as a part of the sorted array.\<close>

definition raw_page :: "('k \<Rightarrow> 'k \<Rightarrow> bool) \<Rightarrow> ('v \<Rightarrow> 'v \<Rightarrow> bool) \<Rightarrow> ('k, 'v, 'd, 'q, 'e, 'r) map_codec \<Rightarrow> IterationType \<Rightarrow> ('d \<times> 'd) list \<Rightarrow> ('k, 'v, 'q) paging \<Rightarrow> (('d, 'k, 'v) entry_array \<times> ('k, 'v, 'q) paging) res" where
  "raw_page klt vlt cd type dataResult predicate =
     bindR (EntryArray_sort klt vlt cd (pp_comparator predicate) type (LazyEntryArray dataResult)) (\<lambda>entries.
     bindR (updateAnchor cd entries predicate) (\<lambda>((b, e), entries', predicate').
     bindR (sub_array cd b e entries') (\<lambda>(subList, _). Inr (subList, predicate'))))"

definition rp_keySet_paging :: "('k \<Rightarrow> 'k \<Rightarrow> bool) \<Rightarrow> ('v \<Rightarrow> 'v \<Rightarrow> bool) \<Rightarrow> ('k, 'v, 'd, 'q, 'e, 'r) map_codec \<Rightarrow> 'd \<Rightarrow> (('k, 'v, 'q) paging \<Rightarrow> ('s, 'd list) comp) \<Rightarrow> (('d, 'c, 'mk, 's) map_proxy \<times> ('k, 'v, 'q) paging, ('d, 'k, 'v) item list) comp" where
  "rp_keySet_paging klt vlt cd emptyData fetch = (\<lambda>(p, predicate).
     paged (setIterationType KEY predicate) (\<lambda>q. bindM (fetch q) (\<lambda>ks. retM (map (\<lambda>k. (k, emptyData)) ks))) (raw_page klt vlt cd KEY) (p, predicate))"

definition rp_values_paging :: "('k \<Rightarrow> 'k \<Rightarrow> bool) \<Rightarrow> ('v \<Rightarrow> 'v \<Rightarrow> bool) \<Rightarrow> ('k, 'v, 'd, 'q, 'e, 'r) map_codec \<Rightarrow> (('k, 'v, 'q) paging \<Rightarrow> ('s, ('d \<times> 'd) list) comp) \<Rightarrow> (('d, 'c, 'mk, 's) map_proxy \<times> ('k, 'v, 'q) paging, ('d, 'k, 'v) item list) comp" where
  "rp_values_paging klt vlt cd fetch = (\<lambda>(p, predicate).
     paged (setIterationType VALUE predicate) fetch (raw_page klt vlt cd VALUE) (p, predicate))"

definition rp_entrySet_paging :: "('k \<Rightarrow> 'k \<Rightarrow> bool) \<Rightarrow> ('v \<Rightarrow> 'v \<Rightarrow> bool) \<Rightarrow> ('k, 'v, 'd, 'q, 'e, 'r) map_codec \<Rightarrow> (('k, 'v, 'q) paging \<Rightarrow> ('s, ('d \<times> 'd) list) comp) \<Rightarrow> (('d, 'c, 'mk, 's) map_proxy \<times> ('k, 'v, 'q) paging, ('d, 'k, 'v) item list) comp" where
  "rp_entrySet_paging klt vlt cd fetch = (\<lambda>(p, predicate). paged predicate fetch (raw_page klt vlt cd ENTRY) (p, predicate))"

section \<open>The adaptor and its map\<close>

lemmas rp_defs = rp_get_def rp_put_ttl_def rp_put_def rp_remove_def rp_putIfAbsent_ttl_def rp_putIfAbsent_def rp_replace_def rp_executeOnKey_def

lemmas plain_map_defs = mp_get_def mp_put_ttl_def mp_put_def mp_remove_def mp_putIfAbsent_ttl_def mp_putIfAbsent_def mp_replace_def mp_executeOnKey_def
  ClientMapProxy_vt_def base_getInternal_def base_putInternal_def base_removeInternal_def base_putIfAbsentInternal_def base_replaceInternal_def

text \<open>Without a near cache the adaptor does what the map does.\<close>

lemma raw_map_agrees:
  fixes impl :: "('s, 'd, 'q, 'f) IMapImpl" and cd :: "('k, 'v, 'd, 'q, 'e, 'r) map_codec"
  defines "vt \<equiv> ClientMapProxy_vt impl cd :: ('d, 'k, 'v, 'f, ('d, 'c, 'mk, 's) map_proxy) map_vt"
  shows "rp_get impl cd k = mp_get vt cd env k" "rp_put_ttl impl cd k v t = mp_put_ttl vt cd k v t" "rp_put impl cd k v = mp_put vt cd k v"
    "rp_remove impl cd k = mp_remove vt cd k" "rp_putIfAbsent_ttl impl cd k v t = mp_putIfAbsent_ttl vt cd k v t" "rp_putIfAbsent impl cd k v = mp_putIfAbsent vt cd k v"
    "rp_replace impl cd k v = mp_replace vt cd k v" "rp_executeOnKey vt cd k e = mp_executeOnKey vt cd k e"
  by (simp_all add: vt_def rp_defs plain_map_defs)

text \<open>The keys and values that its arrays read are those that the map gives.\<close>

lemma raw_keys_agree:
  assumes "mp_keySet impl cd q p = (Inr ks, p')"
  shows "\<exists>a. rp_keySet impl q p = (Inr a, p') \<and> da_size a = length ks \<and> (\<forall>i < length ks. \<exists>a'. da_get (k_toObject cd) i a = Inr (Some (ks ! i), a'))"
proof -
  obtain ds where ds: "on_server (im_keySetData impl q) p = (Inr ds, p')" "toObjectCollection (k_toObject cd) ds = Inr ks"
    using assms by (auto simp: mp_keySet_def liftR_def toObjectCollection_def elim!: bindM_InrE)
  then show ?thesis
    using array_agrees [OF ds(2)] toObjectCollection_nth [OF ds(2)]
    by (intro exI [of _ "DataArray_new ds"]) (simp add: rp_keySet_def bindM_def retM_def da_size_def DataArray_new_def)
qed

lemma raw_values_agree:
  assumes "mp_values impl cd q p = (Inr vs, p')"
  shows "\<exists>a. rp_values impl q p = (Inr a, p') \<and> da_size a = length vs \<and> (\<forall>i < length vs. \<exists>a'. da_get (v_toObject cd) i a = Inr (Some (vs ! i), a'))"
proof -
  obtain ds where ds: "on_server (im_valuesData impl q) p = (Inr ds, p')" "toObjectCollection (v_toObject cd) ds = Inr vs"
    using assms by (auto simp: mp_values_def liftR_def toObjectCollection_def elim!: bindM_InrE)
  then show ?thesis
    using array_agrees [OF ds(2)] toObjectCollection_nth [OF ds(2)]
    by (intro exI [of _ "DataArray_new ds"]) (simp add: rp_values_def bindM_def retM_def da_size_def DataArray_new_def)
qed

lemma near_get_keeps: "pr_nearCache p' = pr_nearCache p \<Longrightarrow> fst (near_get no env key p') = fst (near_get no env key p)"
  by (simp add: near_get_def on_near_def split: option.splits prod.splits)

lemma near_hit_answers:
  assumes "k_toData cd k = Inr kd" "fst (near_get no env kd p) = Inr (Cached v)"
  shows "fst (mp_get (NearCachedClientMapProxy_vt impl cd no) cd env k p) = Inr (Some v)"
  using assms by (auto simp: mp_get_def NearCachedClientMapProxy_vt_def near_getInternal_def bindM_def liftR_def retM_def split: prod.splits)

text \<open>Claim C34: what is written through the adaptor of a near cached map is not seen through the map: \<open>put\<close> and \<open>remove\<close> of the adaptor change the cluster and leave the
  near cache as it is, so that a key that was cached reads as its old value in the map, although the adaptor itself reads the new one.
\<close>

theorem raw_writes_bypass_near_cache:
  assumes server: "imap_server impl sabs sok" "sok (pr_server p)" and kd: "k_toData cd k = Inr kd" and wd: "v_toData cd w = Inr wd"
    and near: "near_get no env kd p = (Inr (Cached v), p1)" and old: "toObject_auto (v_toObject cd) (sabs (pr_server p) kd) = Inr u"
  shows "(\<exists>p'. rp_put impl cd k w p = (Inr u, p') \<and> sabs (pr_server p') = (sabs (pr_server p))(kd \<mapsto> wd)
        \<and> fst (mp_get (NearCachedClientMapProxy_vt impl cd no) cd env k p') = Inr (Some v) \<and> fst (rp_get impl cd k p') = v_toObject cd wd)
    \<and> (\<exists>p'. rp_remove impl cd k p = (Inr u, p') \<and> sabs (pr_server p') = (sabs (pr_server p))(kd := None)
        \<and> fst (mp_get (NearCachedClientMapProxy_vt impl cd no) cd env k p') = Inr (Some v) \<and> fst (rp_get impl cd k p') = Inr None)"
proof (rule conjI)
  have stale: "fst (mp_get (NearCachedClientMapProxy_vt impl cd no) cd env k (p\<lparr>pr_server := s\<rparr>)) = Inr (Some v)" for s
    by (rule near_hit_answers [OF kd]) (use near_get_keeps [of "p\<lparr>pr_server := s\<rparr>" p no env kd] near in simp)
  have get: "fst (rp_get impl cd k (p\<lparr>pr_server := s\<rparr>)) = toObject_auto (v_toObject cd) (sabs s kd)" if s: "sok s" for s
  proof -
    obtain s' where "im_getData impl kd s = (Inr (sabs s kd), s')" using imap_server.getData_law [OF server(1) s] by blast
    then show ?thesis using kd by (simp add: rp_get_def bindM_def liftR_def on_server_def)
  qed
  obtain s1 where s1: "im_putData impl kd wd (- 1) (pr_server p) = (Inr (sabs (pr_server p) kd), s1)" "sabs s1 = (sabs (pr_server p))(kd \<mapsto> wd)" "sok s1"
    using imap_server.putData_law [OF server] by blast
  show "\<exists>p'. rp_put impl cd k w p = (Inr u, p') \<and> sabs (pr_server p') = (sabs (pr_server p))(kd \<mapsto> wd)
        \<and> fst (mp_get (NearCachedClientMapProxy_vt impl cd no) cd env k p') = Inr (Some v) \<and> fst (rp_get impl cd k p') = v_toObject cd wd"
    using s1 kd wd old stale [of s1] get [OF s1(3)]
    by (intro exI [of _ "p\<lparr>pr_server := s1\<rparr>"]) (simp add: rp_put_def rp_put_ttl_def bindM_def liftR_def on_server_def toObject_auto_def)
  obtain s2 where s2: "im_removeData impl kd (pr_server p) = (Inr (sabs (pr_server p) kd), s2)" "sabs s2 = (sabs (pr_server p))(kd := None)" "sok s2"
    using imap_server.removeData_law [OF server] by blast
  show "\<exists>p'. rp_remove impl cd k p = (Inr u, p') \<and> sabs (pr_server p') = (sabs (pr_server p))(kd := None)
        \<and> fst (mp_get (NearCachedClientMapProxy_vt impl cd no) cd env k p') = Inr (Some v) \<and> fst (rp_get impl cd k p') = Inr None"
    using s2 kd old stale [of s2] get [OF s2(3)]
    by (intro exI [of _ "p\<lparr>pr_server := s2\<rparr>"]) (simp add: rp_remove_def bindM_def liftR_def on_server_def toObject_auto_def)
qed

definition unit_cluster :: "((nat, nat) sync_map, nat, nat \<times> nat \<Rightarrow> bool, unit) IMapImpl" where
  "unit_cluster = reference_cluster (\<lambda>_. 0)"

lemma raw_writes_bypass_near_cache_witness:
  "\<exists>p'. rp_put unit_cluster plain_codec 7 8 warm_proxy = (Inr (Some 9), p') \<and> sm_abs (pr_server p') 7 = Some 8
    \<and> fst (mp_get (NearCachedClientMapProxy_vt unit_cluster plain_codec object_ops) plain_codec quiet_env 7 p') = Inr (Some 9)
    \<and> fst (rp_get unit_cluster plain_codec 7 p') = Inr (Some 8)"
proof -
  obtain p1 where p1: "near_get object_ops quiet_env 7 warm_proxy = (Inr (Cached 9), p1)" using warm_proxy_get by blast
  have srv: "imap_server unit_cluster sm_abs ref_ok" unfolding unit_cluster_def by (rule ref.imap_server_axioms)
  have ok: "ref_ok (pr_server warm_proxy)" and a: "sm_abs (pr_server warm_proxy) 7 = Some 9"
    by (simp_all add: warm_proxy_def fresh_proxy_def ref_ok_def sm_full_def sm_abs_def sm_at_def)
  have c: "k_toData plain_codec 7 = Inr (7 :: nat)" "v_toData plain_codec 8 = Inr (8 :: nat)" "v_toObject plain_codec 8 = Inr (Some (8 :: nat))" by (simp_all add: plain_codec_def)
  have old: "toObject_auto (v_toObject plain_codec) (sm_abs (pr_server warm_proxy) 7) = Inr (Some 9)" using a by (simp add: toObject_auto_def plain_codec_def)
  from conjunct1 [OF raw_writes_bypass_near_cache [OF srv ok c(1,2) p1 old]] c(3) show ?thesis by auto
qed

end
