(* ===== verification/Replicated_Map.thy ===== *)
theory Replicated_Map
  imports Map_Laws Paging Listener_Events Reliable_Topic
begin

text \<open>
  The replicated map of \<open>client/proxy/ClientReplicatedMapProxy.h\<close>: a proxy with a near cache of its own, which it fills without reserving
  the key. The messages to the cluster are the fields of \<open>rep_impl\<close>; registering a listener, destroying the near cache and
  \<open>ClientProxy::postDestroy\<close> have no body in the sources and are arguments. A shared pointer to a value is a \<open>cached\<close>: \<open>NotCached\<close> is the null pointer.
\<close>

section \<open>State\<close>

record ('s, 'd) rep_impl =
  rp_put :: "'d \<Rightarrow> 'd \<Rightarrow> int \<Rightarrow> ('s, 'd option) comp"
  rp_size :: "int \<Rightarrow> ('s, int) comp"
  rp_isEmpty :: "int \<Rightarrow> ('s, bool) comp"
  rp_containsKey :: "'d \<Rightarrow> ('s, bool) comp"
  rp_containsValue :: "'d \<Rightarrow> ('s, bool) comp"
  rp_get :: "'d \<Rightarrow> ('s, 'd option) comp"
  rp_remove :: "'d \<Rightarrow> ('s, 'd option) comp"
  rp_putAll :: "('d \<times> 'd) list \<Rightarrow> ('s, unit) comp"
  rp_clear :: "('s, unit) comp"
  rp_keySet :: "int \<Rightarrow> ('s, 'd list) comp"
  rp_values :: "int \<Rightarrow> ('s, 'd list) comp"
  rp_entrySet :: "int \<Rightarrow> ('s, ('d \<times> 'd) list) comp"

record ('d, 'c, 's) rep_map =
  rm_server :: 's
  rm_nearCache :: "('d, 'c) near_cache option"
  rm_targetPartitionId :: int
  rm_invalidationListenerId :: string

type_synonym ('d, 'c, 's, 'a) rcomp = "(('d, 'c, 's) rep_map, 'a) comp"

definition on_rep :: "('s, 'a) comp \<Rightarrow> ('d, 'c, 's, 'a) rcomp" where
  "on_rep f p = (case f (rm_server p) of (r, s) \<Rightarrow> (r, p\<lparr>rm_server := s\<rparr>))"

text \<open>A call on the near cache that is there, and one on a near cache that must be there.\<close>

definition if_near :: "'a \<Rightarrow> (('d, 'c) near_cache, 'a) comp \<Rightarrow> ('d, 'c, 's, 'a) rcomp" where
  "if_near a f p =
     (case rm_nearCache p of
        None \<Rightarrow> (Inr a, p)
      | Some nc \<Rightarrow> (case f nc of (r, nc') \<Rightarrow> (r, p\<lparr>rm_nearCache := Some nc'\<rparr>)))"

definition deref_near :: "(('d, 'c) near_cache, 'a) comp \<Rightarrow> ('d, 'c, 's, 'a) rcomp" where
  "deref_near f p =
     (case rm_nearCache p of
        None \<Rightarrow> (Inl NullDereference, p)
      | Some nc \<Rightarrow> (case f nc of (r, nc') \<Rightarrow> (r, p\<lparr>rm_nearCache := Some nc'\<rparr>)))"

text \<open>What a \<open>catch (...)\<close> catches: every C++ exception, and no crash.\<close>

definition caught_all :: "hz_error \<Rightarrow> bool" where
  "caught_all e \<longleftrightarrow> caught e \<or> e = LengthError"

definition catchAll :: "('s, 'a) comp \<Rightarrow> ('s, unit) comp \<Rightarrow> ('s, 'a) comp" where
  "catchAll f h s =
     (case f s of
        (Inr a, s') \<Rightarrow> (Inr a, s')
      | (Inl e, s') \<Rightarrow>
          if caught_all e then (case h s' of (Inl e', s'') \<Rightarrow> (Inl e', s'') | (Inr _, s'') \<Rightarrow> (Inl e, s''))
          else (Inl e, s'))"

section \<open>Operations\<close>

definition rm_invalidate :: "('d::linorder, 'v, 'd, 'c) store_kind \<Rightarrow> 'd option \<Rightarrow> ('d, 'c, 's, unit) rcomp" where
  "rm_invalidate kind key = if_near () (bindM (nc_invalidate kind key) (\<lambda>_. retM ()))"

definition rm_getCachedValue :: "('k, 'v, 'd, 'q, 'e, 'r) map_codec \<Rightarrow> ('d::linorder, 'v, 'd, 'c) store_kind \<Rightarrow> near_env \<Rightarrow> 'k \<Rightarrow>
    ('d, 'c, 's, 'v cached) rcomp" where
  "rm_getCachedValue cd kind env key =
     if_near NotCached (bindM (liftR (k_toData cd key)) (\<lambda>kd. nc_get kind (ne_get1 env) (ne_get2 env) (Some kd)))"

text \<open>The inner declaration of \<open>keyData\<close> hides the one that the handler uses, which stays null.\<close>

definition rm_put_ttl :: "('s, 'd) rep_impl \<Rightarrow> ('k, 'v, 'd, 'q, 'e, 'r) map_codec \<Rightarrow> ('d::linorder, 'v, 'd, 'c) store_kind \<Rightarrow> 'k \<Rightarrow> 'v \<Rightarrow> int \<Rightarrow>
    ('d, 'c, 's, 'v option) rcomp" where
  "rm_put_ttl impl cd kind key v ttl =
     catchAll
       (bindM (liftR (v_toData cd v)) (\<lambda>valueData.
        bindM (liftR (k_toData cd key)) (\<lambda>keyData.
        bindM (on_rep (rp_put impl keyData valueData ttl)) (\<lambda>response.
        bindM (rm_invalidate kind (Some keyData)) (\<lambda>_.
        liftR (toObject_auto (v_toObject cd) response))))))
       (rm_invalidate kind None)"

definition rm_put :: "('s, 'd) rep_impl \<Rightarrow> ('k, 'v, 'd, 'q, 'e, 'r) map_codec \<Rightarrow> ('d::linorder, 'v, 'd, 'c) store_kind \<Rightarrow> 'k \<Rightarrow> 'v \<Rightarrow>
    ('d, 'c, 's, 'v option) rcomp" where
  "rm_put impl cd kind key v = rm_put_ttl impl cd kind key v 0"

definition rm_size :: "('s, 'd) rep_impl \<Rightarrow> ('d, 'c, 's, int) rcomp" where
  "rm_size impl p = on_rep (rp_size impl (rm_targetPartitionId p)) p"

definition rm_isEmpty :: "('s, 'd) rep_impl \<Rightarrow> ('d, 'c, 's, bool) rcomp" where
  "rm_isEmpty impl p = on_rep (rp_isEmpty impl (rm_targetPartitionId p)) p"

definition rm_containsKey :: "('s, 'd) rep_impl \<Rightarrow> ('k, 'v, 'd, 'q, 'e, 'r) map_codec \<Rightarrow> 'k \<Rightarrow> ('d, 'c, 's, bool) rcomp" where
  "rm_containsKey impl cd key = bindM (liftR (k_toData cd key)) (\<lambda>kd. on_rep (rp_containsKey impl kd))"

definition rm_containsValue :: "('s, 'd) rep_impl \<Rightarrow> ('k, 'v, 'd, 'q, 'e, 'r) map_codec \<Rightarrow> 'v \<Rightarrow> ('d, 'c, 's, bool) rcomp" where
  "rm_containsValue impl cd v = bindM (liftR (v_toData cd v)) (\<lambda>vd. on_rep (rp_containsValue impl vd))"

text \<open>The part of \<open>get\<close> that asks the cluster, and the part that caches the answer.\<close>

definition rm_fetch :: "('s, 'd) rep_impl \<Rightarrow> ('k, 'v, 'd, 'q, 'e, 'r) map_codec \<Rightarrow> 'd \<Rightarrow> ('d, 'c, 's, 'v option) rcomp" where
  "rm_fetch impl cd keyData = bindM (on_rep (rp_get impl keyData)) (\<lambda>result. liftR (toObject_auto (v_toObject cd) result))"

definition rm_cache :: "('d::linorder, 'v, 'd, 'c) store_kind \<Rightarrow> near_env \<Rightarrow> 'd \<Rightarrow> 'v option \<Rightarrow> ('d, 'c, 's, 'v cached) rcomp" where
  "rm_cache kind env keyData value =
     (case value of
        None \<Rightarrow> retM NotCached
      | Some v \<Rightarrow> bindM (if_near () (nc_put kind (ne_evict env) (ne_put1 env) (ne_put2 env) (Some keyData) (Some v))) (\<lambda>_. retM (Cached v)))"

definition rm_get :: "('s, 'd) rep_impl \<Rightarrow> ('k, 'v, 'd, 'q, 'e, 'r) map_codec \<Rightarrow> ('d::linorder, 'v, 'd, 'c) store_kind \<Rightarrow> near_env \<Rightarrow> 'k \<Rightarrow>
    ('d, 'c, 's, 'v cached) rcomp" where
  "rm_get impl cd kind env key =
     bindM (rm_getCachedValue cd kind env key) (\<lambda>cachedValue.
       if cachedValue \<noteq> NotCached then retM cachedValue
       else case k_toData cd key of
         Inl e \<Rightarrow> catchM (throwM e) (rm_invalidate kind None)
       | Inr keyData \<Rightarrow>
           catchM (bindM (rm_fetch impl cd keyData) (rm_cache kind env keyData)) (rm_invalidate kind (Some keyData)))"

definition rm_remove :: "('s, 'd) rep_impl \<Rightarrow> ('k, 'v, 'd, 'q, 'e, 'r) map_codec \<Rightarrow> ('d::linorder, 'v, 'd, 'c) store_kind \<Rightarrow> 'k \<Rightarrow>
    ('d, 'c, 's, 'v option) rcomp" where
  "rm_remove impl cd kind key =
     (case k_toData cd key of
        Inl e \<Rightarrow> catchAll (throwM e) (rm_invalidate kind None)
      | Inr keyData \<Rightarrow>
          catchAll
            (bindM (on_rep (rp_remove impl keyData)) (\<lambda>result.
             bindM (rm_invalidate kind (Some keyData)) (\<lambda>_.
             liftR (toObject_auto (v_toObject cd) result))))
            (rm_invalidate kind (Some keyData)))"

definition toDataEntries :: "('k, 'v, 'd, 'q, 'e, 'r) map_codec \<Rightarrow> ('k \<times> 'v) list \<Rightarrow> ('d \<times> 'd) list res" where
  "toDataEntries cd entries = mapR (\<lambda>(k, v). bindR (k_toData cd k) (\<lambda>kd. bindR (v_toData cd v) (\<lambda>vd. Inr (kd, vd)))) entries"

definition rm_invalidateEntries :: "('d::linorder, 'v, 'd, 'c) store_kind \<Rightarrow> ('d \<times> 'd) list \<Rightarrow> ('d, 'c, 's, unit) rcomp" where
  "rm_invalidateEntries kind dataEntries = forM (\<lambda>e. rm_invalidate kind (Some (fst e))) dataEntries"

definition rm_putAll :: "('s, 'd) rep_impl \<Rightarrow> ('k, 'v, 'd, 'q, 'e, 'r) map_codec \<Rightarrow> ('d::linorder, 'v, 'd, 'c) store_kind \<Rightarrow> ('k \<times> 'v) list \<Rightarrow>
    ('d, 'c, 's, unit) rcomp" where
  "rm_putAll impl cd kind entries =
     (case toDataEntries cd entries of
        Inl e \<Rightarrow> catchAll (throwM e) (rm_invalidateEntries kind [])
      | Inr dataEntries \<Rightarrow>
          catchAll (bindM (on_rep (rp_putAll impl dataEntries)) (\<lambda>_. rm_invalidateEntries kind dataEntries))
            (rm_invalidateEntries kind dataEntries))"

definition rm_clear :: "('s, 'd) rep_impl \<Rightarrow> ('d, 'c, 's, unit) rcomp" where
  "rm_clear impl = catchAll (bindM (on_rep (rp_clear impl)) (\<lambda>_. if_near () nc_clear)) (if_near () nc_clear)"

definition rm_keySet :: "('s, 'd) rep_impl \<Rightarrow> ('d, 'c, 's, ('d, 'k) data_array) rcomp" where
  "rm_keySet impl p = bindM (on_rep (rp_keySet impl (rm_targetPartitionId p))) (\<lambda>ds. retM (DataArray_new ds)) p"

definition rm_values :: "('s, 'd) rep_impl \<Rightarrow> ('d, 'c, 's, ('d, 'v) data_array) rcomp" where
  "rm_values impl p = bindM (on_rep (rp_values impl (rm_targetPartitionId p))) (\<lambda>ds. retM (DataArray_new ds)) p"

definition rm_entrySet :: "('s, 'd) rep_impl \<Rightarrow> ('d, 'c, 's, ('d, 'k, 'v) entry_array) rcomp" where
  "rm_entrySet impl p = bindM (on_rep (rp_entrySet impl (rm_targetPartitionId p))) (\<lambda>es. retM (LazyEntryArray es)) p"

definition rm_getNearCacheStats :: "('d, 'c, 's) rep_map \<Rightarrow> stats_call list option res" where
  "rm_getNearCacheStats p =
     (case rm_nearCache p of
        None \<Rightarrow> Inr None
      | Some nc \<Rightarrow> (case nearCacheRecordStore nc of None \<Rightarrow> Inl NullDereference | Some st \<Rightarrow> Inr (Some (nearCacheStats st))))"

section \<open>Listeners\<close>

text \<open>The codec of a listener names the request that registers it.\<close>

datatype 'd listener_codec = ListenerMessageCodec | ToKeyMessageCodec 'd | WithPredicateMessageCodec 'd | ToKeyWithPredicateMessageCodec 'd 'd
  | NearCacheInvalidationMessageCodec

record ('d, 'h) rep_registry =
  rg_registerListener :: "'d listener_codec \<Rightarrow> 'h \<Rightarrow> string res"
  rg_deregisterListener :: "string \<Rightarrow> bool res"

definition rm_addEntryListener :: "('d, 'h) rep_registry \<Rightarrow> 'h option \<Rightarrow> string res" where
  "rm_addEntryListener rg listener =
     bindR (isNotNull listener) (\<lambda>_. bindR (deref_ptr listener) (\<lambda>h. rg_registerListener rg ListenerMessageCodec h))"

definition rm_addEntryListener_key :: "('d, 'h) rep_registry \<Rightarrow> ('k, 'v, 'd, 'q, 'e, 'r) map_codec \<Rightarrow> 'h option \<Rightarrow> 'k \<Rightarrow> string res" where
  "rm_addEntryListener_key rg cd listener key =
     bindR (isNotNull listener) (\<lambda>_. bindR (k_toData cd key) (\<lambda>kd. bindR (deref_ptr listener) (\<lambda>h. rg_registerListener rg (ToKeyMessageCodec kd) h)))"

definition rm_addEntryListener_predicate :: "('d, 'h) rep_registry \<Rightarrow> ('k, 'v, 'd, 'q, 'e, 'r) map_codec \<Rightarrow> 'h option \<Rightarrow> 'q \<Rightarrow> string res" where
  "rm_addEntryListener_predicate rg cd listener predicate =
     bindR (isNotNull listener) (\<lambda>_. bindR (q_toData cd predicate) (\<lambda>pd. bindR (deref_ptr listener) (\<lambda>h. rg_registerListener rg (WithPredicateMessageCodec pd) h)))"

definition rm_addEntryListener_predicate_key :: "('d, 'h) rep_registry \<Rightarrow> ('k, 'v, 'd, 'q, 'e, 'r) map_codec \<Rightarrow> 'h option \<Rightarrow> 'q \<Rightarrow> 'k \<Rightarrow> string res" where
  "rm_addEntryListener_predicate_key rg cd listener predicate key =
     bindR (isNotNull listener) (\<lambda>_. bindR (isNotNull listener) (\<lambda>_.
     bindR (q_toData cd predicate) (\<lambda>pd. bindR (k_toData cd key) (\<lambda>kd. bindR (deref_ptr listener) (\<lambda>h.
     rg_registerListener rg (ToKeyWithPredicateMessageCodec kd pd) h)))))"

definition rm_removeEntryListener :: "('d, 'h) rep_registry \<Rightarrow> string \<Rightarrow> bool res" where
  "rm_removeEntryListener rg registrationId = rg_deregisterListener rg registrationId"

text \<open>The handler of entry listeners: the member and the contents of every event are read, then the type decides.\<close>

definition rm_dispatch :: "'m cluster_view \<Rightarrow> string \<Rightarrow> 'd raw_event \<Rightarrow> 'm \<Rightarrow> 'e \<Rightarrow> ('e, 'm) entry_call list res" where
  "rm_dispatch cv name re m ev =
     (if re_type re = type_value ET_ADDED then Inr [entryAdded ev]
      else if re_type re = type_value ET_REMOVED then Inr [entryRemoved ev]
      else if re_type re = type_value ET_UPDATED then Inr [entryUpdated ev]
      else if re_type re = type_value ET_EVICTED then Inr [entryEvicted ev]
      else if re_type re = type_value ET_CLEAR_ALL then
        Inr [mapCleared \<lparr>me_member = m, me_type = re_type re, me_name = name, me_numberOfEntriesAffected = re_numberOfAffectedEntries re\<rparr>]
      else Inl IllegalArgumentException)"

definition DataAwareEntryEvent :: "('k, 'v, 'd, 'q, 'x, 'r) map_codec \<Rightarrow> string \<Rightarrow> 'm \<Rightarrow> 'd raw_event \<Rightarrow> ('k, 'v, 'm) EntryEvent res" where
  "DataAwareEntryEvent cd name m re =
     bindR (toObject_auto (k_toObject cd) (re_key re)) (\<lambda>k.
     bindR (toObject_auto (v_toObject cd) (re_value re)) (\<lambda>v.
     bindR (toObject_auto (v_toObject cd) (re_oldValue re)) (\<lambda>old.
     bindR (toObject_auto (v_toObject cd) (re_mergingValue re)) (\<lambda>merging.
     Inr \<lparr>ev_name = name, ev_member = m, ev_type = re_type re, ev_key = k, ev_value = v, ev_oldValue = old, ev_mergingValue = merging\<rparr>))))"

definition rm_handleEntryEvent :: "('k, 'v, 'd, 'q, 'x, 'r) map_codec \<Rightarrow> 'm cluster_view \<Rightarrow> string \<Rightarrow> 'd raw_event \<Rightarrow>
    (('k, 'v, 'm) EntryEvent, 'm) entry_call list res" where
  "rm_handleEntryEvent cd cv name re =
     bindR (deref_ptr (getMember cv (re_uuid re))) (\<lambda>m. bindR (DataAwareEntryEvent cd name m re) (rm_dispatch cv name re m))"

text \<open>The handler of the near cache.\<close>

definition rm_beforeListenerRegister :: "('d, 'c, 's, unit) rcomp" where
  "rm_beforeListenerRegister = if_near () nc_clear"

definition rm_onListenerRegister :: "('d, 'c, 's, unit) rcomp" where
  "rm_onListenerRegister = if_near () nc_clear"

definition rm_handleNearEvent :: "('d::linorder, 'v, 'd, 'c) store_kind \<Rightarrow> 'd option \<Rightarrow> int \<Rightarrow> ('d, 'c, 's, unit) rcomp" where
  "rm_handleNearEvent kind dataKey eventType =
     (if eventType \<in> {type_value ET_ADDED, type_value ET_REMOVED, type_value ET_UPDATED, type_value ET_EVICTED}
      then deref_near (bindM (nc_invalidate kind dataKey) (\<lambda>_. retM ()))
      else if eventType = type_value ET_CLEAR_ALL then deref_near nc_clear
      else throwM IllegalArgumentException)"

section \<open>Life cycle\<close>

definition rm_registerInvalidationListener :: "('d, 'h) rep_registry \<Rightarrow> 'h \<Rightarrow> ('d, 'c, 's, unit) rcomp" where
  "rm_registerInvalidationListener rg handler p =
     (case rg_registerListener rg NearCacheInvalidationMessageCodec handler of
        Inr i \<Rightarrow> (Inr (), p\<lparr>rm_invalidationListenerId := i\<rparr>)
      | Inl e \<Rightarrow> if caught e then (Inr (), p) else (Inl e, p))"

definition rm_initNearCache :: "EvictionPolicyType \<Rightarrow> ('d, 'h) rep_registry \<Rightarrow> 'h \<Rightarrow> 'n::linorder \<Rightarrow> ('d, 'c) comparator NearCacheConfig option \<Rightarrow>
    (('n, 'd, 'c) nc_manager \<times> ('d, 'c, 's) rep_map, unit) comp" where
  "rm_initNearCache junk rg handler name config mp =
     (case config of
        None \<Rightarrow> (Inr (), mp)
      | Some cfg \<Rightarrow>
          (case getOrCreateNearCache junk name cfg (fst mp) of
             (Inl e, mgr) \<Rightarrow> (Inl e, (mgr, snd mp))
           | (Inr nc, mgr) \<Rightarrow>
               (let p = (snd mp)\<lparr>rm_nearCache := Some nc\<rparr>
                in if cfg_invalidateOnChange cfg
                   then (case rm_registerInvalidationListener rg handler p of (r, p') \<Rightarrow> (r, (mgr, p')))
                   else (Inr (), (mgr, p)))))"

text \<open>The remainder by a partition count of zero is a crash. \<open>rand\<close> is not negative.\<close>

definition rm_onInitialize :: "EvictionPolicyType \<Rightarrow> ('d, 'h) rep_registry \<Rightarrow> 'h \<Rightarrow> nat \<Rightarrow> int \<Rightarrow> 'n::linorder \<Rightarrow> ('d, 'c) comparator NearCacheConfig option \<Rightarrow>
    (('n, 'd, 'c) nc_manager \<times> ('d, 'c, 's) rep_map, unit) comp" where
  "rm_onInitialize junk rg handler rand partitionCount name config mp =
     (if partitionCount = 0 then (Inl AssertionFailure, mp)
      else rm_initNearCache junk rg handler name config (fst mp, (snd mp)\<lparr>rm_targetPartitionId := int rand mod \<bar>partitionCount\<bar>\<rparr>))"

definition rm_removeNearCacheInvalidationListener :: "('d, 'h) rep_registry \<Rightarrow> ('d, 'c, 's) rep_map \<Rightarrow> unit res" where
  "rm_removeNearCacheInvalidationListener rg p =
     (if rm_nearCache p \<noteq> None \<and> rm_invalidationListenerId p \<noteq> [] then bindR (rg_deregisterListener rg (rm_invalidationListenerId p)) (\<lambda>_. Inr ())
      else Inr ())"

text \<open>\<open>destroyNearCache\<close> and \<open>ClientProxy::postDestroy\<close> on a state of their own.\<close>

definition rm_postDestroy :: "('d, 'h) rep_registry \<Rightarrow> ('w, bool) comp \<Rightarrow> ('w, unit) comp \<Rightarrow> ('d, 'c, 's) rep_map \<Rightarrow> ('w, unit) comp" where
  "rm_postDestroy rg destroyNearCache postDestroy p =
     catchAll
       (bindM (if rm_nearCache p \<noteq> None
               then bindM (liftR (rm_removeNearCacheInvalidationListener rg p)) (\<lambda>_. bindM destroyNearCache (\<lambda>_. retM ()))
               else retM ()) (\<lambda>_. postDestroy))
       postDestroy"

section \<open>The near cache under the proxy\<close>

definition near_in :: "('d::linorder, 'v, 'd, 'c) store_kind \<Rightarrow> int \<Rightarrow> ('d, 'c, 's) rep_map \<Rightarrow> bool" where
  "near_in kind mx p = (case rm_nearCache p of None \<Rightarrow> False | Some nc \<Rightarrow> nc_inv kind mx nc)"

definition rm_records :: "('d::linorder, 'c, 's) rep_map \<Rightarrow> 'd \<Rightarrow> 'c near_record option" where
  "rm_records p = (case rm_nearCache p of None \<Rightarrow> (\<lambda>_. None) | Some nc \<Rightarrow> nc_abs nc)"

lemma near_inE:
  assumes "near_in kind mx p"
  obtains nc where "rm_nearCache p = Some nc" "nc_inv kind mx nc" "rm_records p = nc_abs nc"
  using assms by (auto simp: near_in_def rm_records_def split: option.splits)

lemma near_set [simp]:
  "near_in kind mx (p\<lparr>rm_nearCache := Some nc\<rparr>) = nc_inv kind mx nc" "rm_records (p\<lparr>rm_nearCache := Some nc\<rparr>) = nc_abs nc"
  "near_in kind mx (p\<lparr>rm_server := s\<rparr>) = near_in kind mx p" "rm_records (p\<lparr>rm_server := s\<rparr>) = rm_records p"
  by (simp_all add: near_in_def rm_records_def)

lemma no_near [simp]:
  assumes "rm_nearCache p = None"
  shows "rm_invalidate kind key p = (Inr (), p)" "if_near a f p = (Inr a, p)" "rm_getCachedValue cd kind env k p = (Inr NotCached, p)"
  using assms by (simp_all add: rm_invalidate_def if_near_def rm_getCachedValue_def)

lemma no_near_entries [simp]: "rm_nearCache p = None \<Longrightarrow> rm_invalidateEntries kind es p = (Inr (), p)"
  by (induction es) (simp_all add: rm_invalidateEntries_def bindM_def retM_def)

lemma rm_invalidate_ok:
  assumes "near_in kind mx p"
  shows "\<exists>p'. rm_invalidate kind (Some k) p = (Inr (), p') \<and> near_in kind mx p' \<and> rm_server p' = rm_server p
    \<and> rm_records p' = (rm_records p)(k := None)"
proof -
  obtain nc where nc: "rm_nearCache p = Some nc" "nc_inv kind mx nc" "rm_records p = nc_abs nc" using assms by (rule near_inE)
  obtain b nc' where i: "nc_invalidate kind (Some k) nc = (Inr b, nc')" "nc_inv kind mx nc'" "nc_abs nc' = (nc_abs nc)(k := None)"
    using nc_invalidate_abs [OF nc(2)] by blast
  show ?thesis using nc i by (simp add: rm_invalidate_def if_near_def bindM_def retM_def)
qed

lemma rm_invalidateEntries_ok:
  assumes "near_in kind mx p"
  shows "\<exists>p'. rm_invalidateEntries kind es p = (Inr (), p') \<and> near_in kind mx p' \<and> rm_server p' = rm_server p
    \<and> rm_records p' = (\<lambda>k. if k \<in> fst ` set es then None else rm_records p k)"
  using assms
proof (induction es arbitrary: p)
  case (Cons e es)
  obtain p1 where p1: "rm_invalidate kind (Some (fst e)) p = (Inr (), p1)" "near_in kind mx p1" "rm_server p1 = rm_server p"
    "rm_records p1 = (rm_records p)(fst e := None)"
    using rm_invalidate_ok [OF Cons.prems] by blast
  from Cons.IH [OF p1(2)] show ?case
    using p1 by (auto simp: rm_invalidateEntries_def bindM_def fun_eq_iff)
qed (simp add: rm_invalidateEntries_def retM_def)

lemma near_clear_in:
  assumes "near_in kind mx p"
  shows "\<exists>p'. if_near () nc_clear p = (Inr (), p') \<and> near_in kind mx p' \<and> rm_server p' = rm_server p \<and> rm_records p' = (\<lambda>_. None)"
proof -
  obtain nc where nc: "rm_nearCache p = Some nc" "nc_inv kind mx nc" using assms by (rule near_inE)
  obtain nc' where "nc_clear nc = (Inr (), nc')" "nc_inv kind mx nc'" "nc_abs nc' = (\<lambda>_. None)"
    using nc_clear_abs [OF nc(2)] by blast
  then show ?thesis using nc by (simp add: if_near_def)
qed

lemma rm_handleNearEvent_ok:
  assumes "near_in kind mx p" "t \<in> {ET_ADDED, ET_REMOVED, ET_UPDATED, ET_EVICTED, ET_CLEAR_ALL}"
  shows "\<exists>p'. rm_handleNearEvent kind (Some k) (type_value t) p = (Inr (), p') \<and> near_in kind mx p' \<and> rm_server p' = rm_server p
    \<and> rm_records p' = (if t = ET_CLEAR_ALL then (\<lambda>_. None) else (rm_records p)(k := None))"
proof -
  obtain nc where nc: "rm_nearCache p = Some nc" using assms(1) by (rule near_inE)
  have d: "deref_near f p = if_near a f p" for f and a using nc by (simp add: deref_near_def if_near_def)
  show ?thesis
    using assms(2) rm_invalidate_ok [OF assms(1), of k] near_clear_in [OF assms(1)]
    by (auto simp: rm_handleNearEvent_def d [of _ "()"] rm_invalidate_def)
qed

section \<open>The contract\<close>

text \<open>A cluster that keeps a map: what is put without an expiry time stays.\<close>

locale rep_server =
  fixes impl :: "('s, 'd) rep_impl" and sabs :: "'s \<Rightarrow> 'd \<rightharpoonup> 'd" and sok :: "'s \<Rightarrow> bool"
  assumes get_law: "sok s \<Longrightarrow> \<exists>s'. rp_get impl k s = (Inr (sabs s k), s') \<and> sabs s' = sabs s \<and> sok s'"
    and containsKey_law: "sok s \<Longrightarrow> \<exists>s'. rp_containsKey impl k s = (Inr (sabs s k \<noteq> None), s') \<and> sabs s' = sabs s \<and> sok s'"
    and put_law: "sok s \<Longrightarrow> \<exists>s'. rp_put impl k v 0 s = (Inr (sabs s k), s') \<and> sabs s' = (sabs s)(k \<mapsto> v) \<and> sok s'"
    and remove_law: "sok s \<Longrightarrow> \<exists>s'. rp_remove impl k s = (Inr (sabs s k), s') \<and> sabs s' = (sabs s)(k := None) \<and> sok s'"
    and putAll_law: "sok s \<Longrightarrow> \<exists>s'. rp_putAll impl es s = (Inr (), s') \<and> sabs s' = fold (\<lambda>(k, v) m. m(k \<mapsto> v)) es (sabs s) \<and> sok s'"
    and clear_law: "sok s \<Longrightarrow> \<exists>s'. rp_clear impl s = (Inr (), s') \<and> sabs s' = Map.empty \<and> sok s'"

text \<open>
  With conversions, and with a store of the near cache from which every value of the map reads back as it was.
\<close>

locale rep_near = rep_server impl sabs sok + record_kind kind
  for impl :: "('s, 'd::linorder) rep_impl" and sabs :: "'s \<Rightarrow> 'd \<rightharpoonup> 'd" and sok :: "'s \<Rightarrow> bool"
    and kind :: "('d, 'v, 'd, 'c) store_kind" +
  fixes cd :: "('k, 'v, 'd, 'q, 'e, 'r) map_codec" and kd :: "'k \<Rightarrow> 'd" and valid :: "'v \<Rightarrow> bool"
  assumes key_data: "k_toData cd k = Inr (kd k)"
    and value_data: "valid v \<Longrightarrow> \<exists>d v'. v_toData cd v = Inr d \<and> v_toObject cd d = Inr (Some v')"
    and cacheable: "v_toObject cd d = Inr (Some v) \<Longrightarrow>
      \<exists>c. contentOfValue kind (Some v) = Inr c \<and> (\<forall>r. rec_value r = c \<longrightarrow> snd (recordToValue kind r) = Inr (Cached v))"
begin

text \<open>A record that is read as the value the cluster holds.\<close>

definition reads_as :: "'c near_record \<Rightarrow> 'v option \<Rightarrow> bool" where
  "reads_as r x \<longleftrightarrow> (\<exists>v. x = Some v \<and> (\<forall>r'. rec_value r' = rec_value r \<longrightarrow> snd (recordToValue kind r') = Inr (Cached v)))"

definition fits :: "int \<Rightarrow> ('d, 'c, 's) rep_map \<Rightarrow> ('d, 'c, 's) rep_map \<Rightarrow> bool" where
  "fits mx p q \<longleftrightarrow> near_in kind mx p \<and> rm_nearCache q = None \<and> server_decodable sabs sok cd (rm_server p) \<and> sok (rm_server q)
     \<and> sabs (rm_server q) = sabs (rm_server p) \<and> (\<forall>k r. rm_records p k = Some r \<longrightarrow> reads_as r (decoded cd (sabs (rm_server p) k)))"

lemma fitsD:
  assumes "fits mx p q"
  shows "near_in kind mx p" "rm_nearCache q = None" "sok (rm_server p)" "sok (rm_server q)" "sabs (rm_server q) = sabs (rm_server p)"
    "decodable cd (sabs (rm_server p))"
  using assms by (simp_all add: fits_def server_decodable_def)

lemma fitsI:
  assumes "fits mx p q" "near_in kind mx p'" "rm_nearCache q' = None" "sok (rm_server p')" "sok (rm_server q')"
    "sabs (rm_server q') = sabs (rm_server p')" "decodable cd (sabs (rm_server p'))"
    and "\<And>k r. rm_records p' k = Some r \<Longrightarrow> sabs (rm_server p') k = sabs (rm_server p) k \<and> (\<exists>r0. rm_records p k = Some r0 \<and> rec_value r = rec_value r0)"
  shows "fits mx p' q'"
  using assms unfolding fits_def server_decodable_def reads_as_def by (metis (no_types, lifting))

lemma fetch_ok:
  assumes "server_decodable sabs sok cd (rm_server p)"
  shows "\<exists>s'. rm_fetch impl cd key p = (Inr (decoded cd (sabs (rm_server p) key)), p\<lparr>rm_server := s'\<rparr>) \<and> sabs s' = sabs (rm_server p) \<and> sok s'"
proof -
  obtain s' where "rp_get impl key (rm_server p) = (Inr (sabs (rm_server p) key), s')" "sabs s' = sabs (rm_server p)" "sok s'"
    using assms get_law [of "rm_server p" key] by (auto simp: server_decodable_def)
  then show ?thesis
    using assms decodable_decode [of cd "sabs (rm_server p)" key]
    by (intro exI [of _ s']) (simp add: rm_fetch_def bindM_def on_rep_def liftR_def server_decodable_def)
qed

lemma cached_ok:
  assumes fits: "fits mx p q"
  shows "\<exists>c p'. rm_getCachedValue cd kind env k p = (Inr c, p') \<and> fits mx p' q \<and> rm_server p' = rm_server p
    \<and> (c = NotCached \<or> c = cached_of (decoded cd (sabs (rm_server p) (kd k))))"
proof -
  obtain nc where nc: "rm_nearCache p = Some nc" "nc_inv kind mx nc" "rm_records p = nc_abs nc"
    using fits unfolding fits_def by (blast elim: near_inE)
  obtain res nc' where g: "nc_get kind (ne_get1 env) (ne_get2 env) (Some (kd k)) nc = (res, nc')" "nc_inv kind mx nc'"
    "\<forall>j r. nc_abs nc' j = Some r \<longrightarrow> (\<exists>r0. nc_abs nc j = Some r0 \<and> rec_value r = rec_value r0)"
    "res = Inr NotCached \<or> (\<exists>r. nc_abs nc (kd k) = Some r \<and> res = snd (recordToValue kind (onRecordAccess (ne_get2 env) r)))"
    using nc_get_abs [OF nc(2), of "ne_get1 env" "ne_get2 env" "kd k"] by blast
  have "fits mx (p\<lparr>rm_nearCache := Some nc'\<rparr>) q"
    by (rule fitsI [OF fits]) (use fits g(2,3) nc(3) in \<open>auto simp: fits_def server_decodable_def\<close>)
  moreover have "\<exists>c. res = Inr c \<and> (c = NotCached \<or> c = cached_of (decoded cd (sabs (rm_server p) (kd k))))"
    using g(4)
  proof (elim disjE exE conjE)
    fix r
    assume r: "nc_abs nc (kd k) = Some r" and res: "res = snd (recordToValue kind (onRecordAccess (ne_get2 env) r))"
    have "rec_value (onRecordAccess (ne_get2 env) r) = rec_value r"
      by (simp add: onRecordAccess_def incrementAccessHit_def setAccessTime_def)
    moreover have "reads_as r (decoded cd (sabs (rm_server p) (kd k)))" using fits nc(3) r by (simp add: fits_def)
    ultimately show ?thesis using res by (auto simp: reads_as_def cached_of_def)
  qed simp
  ultimately show ?thesis
    using nc(1) g(1) by (auto simp: rm_getCachedValue_def if_near_def key_data bindM_def liftR_def)
qed

lemma cache_ok:
  assumes fits: "fits mx p q" and d: "sabs (rm_server p) key = d" "decoded cd d = x"
  shows "\<exists>p'. rm_cache kind env key x p = (Inr (cached_of x), p') \<and> fits mx p' q"
proof (cases x)
  case None
  then show ?thesis using fits by (simp add: rm_cache_def retM_def cached_of_def)
next
  case (Some v)
  have rd: "decodable cd (sabs (rm_server p))" using fits by (simp add: fits_def server_decodable_def)
  obtain d' where "d = Some d'" "v_toObject cd d' = Inr (Some v)"
    using d Some decodable_decode [OF rd, of key] by (cases d) (auto simp: toObject_auto_def decoded_def)
  then obtain c where c: "contentOfValue kind (Some v) = Inr c" "\<forall>r. rec_value r = c \<longrightarrow> snd (recordToValue kind r) = Inr (Cached v)"
    using cacheable by blast
  obtain nc where nc: "rm_nearCache p = Some nc" "nc_inv kind mx nc" "rm_records p = nc_abs nc"
    using fits unfolding fits_def by (blast elim: near_inE)
  obtain nc' where put: "nc_put kind (ne_evict env) (ne_put1 env) (ne_put2 env) (Some key) (Some v) nc = (Inr (), nc')" "nc_inv kind mx nc'"
    "\<forall>j r. nc_abs nc' j = Some r \<longrightarrow> nc_abs nc j = Some r \<or> (j = key \<and> rec_value r = c)"
    using nc_put_abs [OF nc(2), of "ne_evict env" "ne_put1 env" "ne_put2 env" key c] c(1) by (auto simp: nc_put_def rs_put_def)
  have new: "reads_as r (decoded cd (sabs (rm_server p) key))" if "rec_value r = c" for r using c(2) d Some that by (simp add: reads_as_def)
  have old: "reads_as r (decoded cd (sabs (rm_server p) j))" if "nc_abs nc j = Some r" for j r using fits nc(3) that by (simp add: fits_def)
  have "reads_as r (decoded cd (sabs (rm_server p) j))" if "nc_abs nc' j = Some r" for j r
    using put(3) new old that by blast
  then have "fits mx (p\<lparr>rm_nearCache := Some nc'\<rparr>) q" using fits put(2) by (simp add: fits_def)
  then show ?thesis
    using Some nc(1) put(1) by (simp add: rm_cache_def if_near_def bindM_def retM_def cached_of_def)
qed

lemma fits_server:
  assumes "fits mx p q" "sabs s1 = sabs (rm_server p)" "sok s1" "sabs s2 = sabs (rm_server q)" "sok s2"
  shows "fits mx (p\<lparr>rm_server := s1\<rparr>) (q\<lparr>rm_server := s2\<rparr>)"
  using assms by (simp add: fits_def server_decodable_def)

lemma get_fits:
  assumes fits: "fits mx p q"
  shows "\<exists>c p' q'. rm_get impl cd kind env k p = (Inr c, p') \<and> rm_get impl cd kind env k q = (Inr c, q') \<and> fits mx p' q'"
proof -
  let ?x = "decoded cd (sabs (rm_server p) (kd k))"
  have q: "rm_nearCache q = None" "server_decodable sabs sok cd (rm_server q)" "sabs (rm_server q) = sabs (rm_server p)"
    and rd: "decodable cd (sabs (rm_server p))"
    using fits by (simp_all add: fits_def server_decodable_def)
  obtain s2 where s2: "rm_fetch impl cd (kd k) q = (Inr ?x, q\<lparr>rm_server := s2\<rparr>)" "sabs s2 = sabs (rm_server q)" "sok s2"
    using fetch_ok [OF q(2), of "kd k"] q(3) by auto
  have Q: "rm_get impl cd kind env k q = (Inr (cached_of ?x), q\<lparr>rm_server := s2\<rparr>)"
    using q(1) s2(1)
    by (cases ?x) (simp_all add: rm_get_def key_data bindM_def retM_def catchM_def rm_cache_def cached_of_def)
  obtain c p1 where g: "rm_getCachedValue cd kind env k p = (Inr c, p1)" "fits mx p1 q" "rm_server p1 = rm_server p"
    "c = NotCached \<or> c = cached_of ?x"
    using cached_ok [OF fits, of env k] by blast
  show ?thesis
  proof (cases "c = NotCached")
    case True
    have "server_decodable sabs sok cd (rm_server p1)" using g(2) by (simp add: fits_def)
    then obtain s1 where s1: "rm_fetch impl cd (kd k) p1 = (Inr ?x, p1\<lparr>rm_server := s1\<rparr>)" "sabs s1 = sabs (rm_server p1)" "sok s1"
      using fetch_ok [of p1 "kd k"] g(3) by auto
    have f: "fits mx (p1\<lparr>rm_server := s1\<rparr>) (q\<lparr>rm_server := s2\<rparr>)" by (rule fits_server [OF g(2) s1(2,3) s2(2,3)])
    obtain p' where "rm_cache kind env (kd k) ?x (p1\<lparr>rm_server := s1\<rparr>) = (Inr (cached_of ?x), p')" "fits mx p' (q\<lparr>rm_server := s2\<rparr>)"
      using cache_ok [OF f, of "kd k" "sabs (rm_server p) (kd k)" ?x env] s1(2) g(3) by auto
    then show ?thesis
      using Q g(1) True s1(1) by (simp add: rm_get_def key_data bindM_def catchM_def)
  next
    case False
    have "fits mx p1 (q\<lparr>rm_server := s2\<rparr>)" using fits_server [OF g(2) refl _ s2(2,3)] g(2) by (simp add: fits_def server_decodable_def)
    then show ?thesis
      using Q g(1,4) False by (simp add: rm_get_def bindM_def retM_def)
  qed
qed

text \<open>A write on the cluster, after which the keys that have changed are no longer cached.\<close>

lemma write_fits:
  assumes fits: "fits mx p q" and p': "near_in kind mx p'" "rm_server p' = s1" and new: "sok s1" "sok s2" "sabs s2 = sabs s1" "decodable cd (sabs s1)"
    and inv: "\<And>k r. rm_records p' k = Some r \<Longrightarrow> rm_records p k = Some r \<and> sabs s1 k = sabs (rm_server p) k"
  shows "fits mx p' (q\<lparr>rm_server := s2\<rparr>)"
  by (rule fitsI [OF fits p'(1)]) (use fits p'(2) new inv in \<open>auto simp: fits_def\<close>)

lemma put_fits:
  assumes fits: "fits mx p q" and v: "valid v"
  shows "\<exists>x p' q'. rm_put impl cd kind k v p = (Inr x, p') \<and> rm_put impl cd kind k v q = (Inr x, q') \<and> fits mx p' q'"
proof -
  obtain d v' where d: "v_toData cd v = Inr d" "v_toObject cd d = Inr (Some v')" using value_data [OF v] by blast
  note near = fitsD(1,2) [OF fits] and ok = fitsD(3,4) [OF fits] and eq = fitsD(5) [OF fits] and rd = fitsD(6) [OF fits]
  obtain s1 where s1: "rp_put impl (kd k) d 0 (rm_server p) = (Inr (sabs (rm_server p) (kd k)), s1)" "sabs s1 = (sabs (rm_server p))(kd k \<mapsto> d)" "sok s1"
    using put_law [OF ok(1)] by blast
  obtain s2 where s2: "rp_put impl (kd k) d 0 (rm_server q) = (Inr (sabs (rm_server p) (kd k)), s2)" "sabs s2 = sabs s1" "sok s2"
    using put_law [OF ok(2), of "kd k" d] eq s1(2) by auto
  have "near_in kind mx (p\<lparr>rm_server := s1\<rparr>)" using near(1) by simp
  then obtain p' where p': "rm_invalidate kind (Some (kd k)) (p\<lparr>rm_server := s1\<rparr>) = (Inr (), p')" "near_in kind mx p'" "rm_server p' = s1"
    "rm_records p' = (rm_records p)(kd k := None)"
    using rm_invalidate_ok [of kind mx "p\<lparr>rm_server := s1\<rparr>" "kd k"] by auto
  have "fits mx p' (q\<lparr>rm_server := s2\<rparr>)"
    by (rule write_fits [OF fits p'(2,3) s1(3) s2(3,2)]) (use p'(4) s1(2) decodable_upd [OF rd d(2)] in \<open>auto split: if_splits\<close>)
  then show ?thesis
    using d(1) s1(1) s2(1) p'(1) near(2) decodable_decode [OF rd, of "kd k"]
    by (simp add: rm_put_def rm_put_ttl_def catchAll_def bindM_def liftR_def key_data on_rep_def)
qed

lemma remove_fits:
  assumes fits: "fits mx p q"
  shows "\<exists>x p' q'. rm_remove impl cd kind k p = (Inr x, p') \<and> rm_remove impl cd kind k q = (Inr x, q') \<and> fits mx p' q'"
proof -
  note near = fitsD(1,2) [OF fits] and ok = fitsD(3,4) [OF fits] and eq = fitsD(5) [OF fits] and rd = fitsD(6) [OF fits]
  obtain s1 where s1: "rp_remove impl (kd k) (rm_server p) = (Inr (sabs (rm_server p) (kd k)), s1)" "sabs s1 = (sabs (rm_server p))(kd k := None)" "sok s1"
    using remove_law [OF ok(1)] by blast
  obtain s2 where s2: "rp_remove impl (kd k) (rm_server q) = (Inr (sabs (rm_server p) (kd k)), s2)" "sabs s2 = sabs s1" "sok s2"
    using remove_law [OF ok(2), of "kd k"] eq s1(2) by auto
  have "near_in kind mx (p\<lparr>rm_server := s1\<rparr>)" using near(1) by simp
  then obtain p' where p': "rm_invalidate kind (Some (kd k)) (p\<lparr>rm_server := s1\<rparr>) = (Inr (), p')" "near_in kind mx p'" "rm_server p' = s1"
    "rm_records p' = (rm_records p)(kd k := None)"
    using rm_invalidate_ok [of kind mx "p\<lparr>rm_server := s1\<rparr>" "kd k"] by auto
  have "fits mx p' (q\<lparr>rm_server := s2\<rparr>)"
    by (rule write_fits [OF fits p'(2,3) s1(3) s2(3,2)]) (use p'(4) s1(2) decodable_del [OF rd] in \<open>auto split: if_splits\<close>)
  then show ?thesis
    using s1(1) s2(1) p'(1) near(2) decodable_decode [OF rd, of "kd k"]
    by (simp add: rm_remove_def catchAll_def bindM_def liftR_def key_data on_rep_def)
qed

lemma toDataEntries_ok:
  assumes "\<forall>(k, v) \<in> set es. valid v"
  shows "\<exists>ds. toDataEntries cd es = Inr ds \<and> (\<forall>(kd', d) \<in> set ds. \<exists>v. v_toObject cd d = Inr (Some v))"
  using assms
proof (induction es)
  case (Cons e es)
  obtain k v where e: "e = (k, v)" by fastforce
  obtain ds where ds: "toDataEntries cd es = Inr ds" "\<forall>(kd', d) \<in> set ds. \<exists>v. v_toObject cd d = Inr (Some v)"
    using Cons by auto
  obtain d v' where "v_toData cd v = Inr d" "v_toObject cd d = Inr (Some v')" using value_data [of v] Cons.prems e by auto
  then show ?case using ds e by (auto simp: toDataEntries_def key_data bindR_def)
qed (simp add: toDataEntries_def)

lemma fold_upd_other: "k \<notin> fst ` set es \<Longrightarrow> fold (\<lambda>(k, v) m. m(k \<mapsto> v)) es m k = m k"
  by (induction es arbitrary: m) auto

lemma fold_upd_decodable:
  "decodable cd m \<Longrightarrow> \<forall>(k, d) \<in> set es. \<exists>v. v_toObject cd d = Inr (Some v) \<Longrightarrow> decodable cd (fold (\<lambda>(k, v) m. m(k \<mapsto> v)) es m)"
  by (induction es arbitrary: m) (auto intro: decodable_upd)

lemma putAll_fits:
  assumes fits: "fits mx p q" and v: "\<forall>(k, v) \<in> set es. valid v"
  shows "\<exists>p' q'. rm_putAll impl cd kind es p = (Inr (), p') \<and> rm_putAll impl cd kind es q = (Inr (), q') \<and> fits mx p' q'"
proof -
  obtain ds where ds: "toDataEntries cd es = Inr ds" "\<forall>(k, d) \<in> set ds. \<exists>v. v_toObject cd d = Inr (Some v)"
    using toDataEntries_ok [OF v] by blast
  note near = fitsD(1,2) [OF fits] and ok = fitsD(3,4) [OF fits] and eq = fitsD(5) [OF fits] and rd = fitsD(6) [OF fits]
  obtain s1 where s1: "rp_putAll impl ds (rm_server p) = (Inr (), s1)" "sabs s1 = fold (\<lambda>(k, v) m. m(k \<mapsto> v)) ds (sabs (rm_server p))" "sok s1"
    using putAll_law [OF ok(1)] by blast
  obtain s2 where s2: "rp_putAll impl ds (rm_server q) = (Inr (), s2)" "sabs s2 = sabs s1" "sok s2"
    using putAll_law [OF ok(2), of ds] eq s1(2) by auto
  have "near_in kind mx (p\<lparr>rm_server := s1\<rparr>)" using near(1) by simp
  then obtain p' where p': "rm_invalidateEntries kind ds (p\<lparr>rm_server := s1\<rparr>) = (Inr (), p')" "near_in kind mx p'" "rm_server p' = s1"
    "rm_records p' = (\<lambda>k. if k \<in> fst ` set ds then None else rm_records p k)"
    using rm_invalidateEntries_ok [of kind mx "p\<lparr>rm_server := s1\<rparr>" ds] by (auto cong: if_cong)
  have "fits mx p' (q\<lparr>rm_server := s2\<rparr>)"
    by (rule write_fits [OF fits p'(2,3) s1(3) s2(3,2)])
      (use p'(4) s1(2) fold_upd_decodable [OF rd ds(2)] fold_upd_other in \<open>auto split: if_splits\<close>)
  then show ?thesis
    using ds(1) s1(1) s2(1) p'(1) near(2) by (simp add: rm_putAll_def catchAll_def bindM_def on_rep_def)
qed

lemma clear_fits:
  assumes fits: "fits mx p q"
  shows "\<exists>p' q'. rm_clear impl p = (Inr (), p') \<and> rm_clear impl q = (Inr (), q') \<and> fits mx p' q'"
proof -
  note near = fitsD(1,2) [OF fits] and ok = fitsD(3,4) [OF fits]
  obtain s1 where s1: "rp_clear impl (rm_server p) = (Inr (), s1)" "sabs s1 = Map.empty" "sok s1" using clear_law [OF ok(1)] by blast
  obtain s2 where s2: "rp_clear impl (rm_server q) = (Inr (), s2)" "sabs s2 = sabs s1" "sok s2" using clear_law [OF ok(2)] s1(2) by auto
  have "near_in kind mx (p\<lparr>rm_server := s1\<rparr>)" using near(1) by simp
  then obtain p' where p': "if_near () nc_clear (p\<lparr>rm_server := s1\<rparr>) = (Inr (), p')" "near_in kind mx p'" "rm_server p' = s1"
    "rm_records p' = (\<lambda>_. None)"
    using near_clear_in [of kind mx "p\<lparr>rm_server := s1\<rparr>"] by auto
  have "fits mx p' (q\<lparr>rm_server := s2\<rparr>)"
    by (rule write_fits [OF fits p'(2,3) s1(3) s2(3,2)]) (use p'(4) s1(2) in \<open>auto simp: decodable_def\<close>)
  then show ?thesis
    using s1(1) s2(1) p'(1) near(2) by (simp add: rm_clear_def catchAll_def bindM_def on_rep_def)
qed

lemma event_fits:
  assumes fits: "fits mx p q" and t: "t \<in> {ET_ADDED, ET_REMOVED, ET_UPDATED, ET_EVICTED, ET_CLEAR_ALL}"
  shows "\<exists>p'. rm_handleNearEvent kind (Some k) (type_value t) p = (Inr (), p') \<and> fits mx p' q"
proof -
  have near: "near_in kind mx p" using fits by (simp add: fits_def)
  obtain p' where p': "rm_handleNearEvent kind (Some k) (type_value t) p = (Inr (), p')" "near_in kind mx p'" "rm_server p' = rm_server p"
    "rm_records p' = (if t = ET_CLEAR_ALL then (\<lambda>_. None) else (rm_records p)(k := None))"
    using rm_handleNearEvent_ok [OF near t] by blast
  have "fits mx p' (q\<lparr>rm_server := rm_server q\<rparr>)"
    by (rule write_fits [OF fits p'(2,3)]) (use fits p'(4) in \<open>auto simp: fits_def server_decodable_def split: if_splits\<close>)
  then show ?thesis using p'(1) by simp
qed

end

section \<open>Sequences of operations\<close>

datatype ('k, 'v, 'd) rep_op =
    RGet near_env 'k | RContainsKey 'k | RPut 'k 'v | RRemove 'k | RPutAll "('k \<times> 'v) list" | RClear | REvent 'd EntryEventType

datatype 'v rep_answer = RValue "'v cached" | RBool bool | RUnit

text \<open>A map without a near cache has no listener that an event could reach.\<close>

fun run_rep :: "('s, 'd) rep_impl \<Rightarrow> ('k, 'v, 'd, 'q, 'e, 'r) map_codec \<Rightarrow> ('d::linorder, 'v, 'd, 'c) store_kind \<Rightarrow> ('k, 'v, 'd) rep_op \<Rightarrow>
    ('d, 'c, 's, 'v rep_answer) rcomp" where
  "run_rep impl cd kind (RGet env k) = bindM (rm_get impl cd kind env k) (\<lambda>c. retM (RValue c))"
| "run_rep impl cd kind (RContainsKey k) = bindM (rm_containsKey impl cd k) (\<lambda>b. retM (RBool b))"
| "run_rep impl cd kind (RPut k v) = bindM (rm_put impl cd kind k v) (\<lambda>x. retM (RValue (cached_of x)))"
| "run_rep impl cd kind (RRemove k) = bindM (rm_remove impl cd kind k) (\<lambda>x. retM (RValue (cached_of x)))"
| "run_rep impl cd kind (RPutAll es) = bindM (rm_putAll impl cd kind es) (\<lambda>_. retM RUnit)"
| "run_rep impl cd kind RClear = bindM (rm_clear impl) (\<lambda>_. retM RUnit)"
| "run_rep impl cd kind (REvent k t) = (\<lambda>p. if rm_nearCache p = None then (Inr RUnit, p)
     else bindM (rm_handleNearEvent kind (Some k) (type_value t)) (\<lambda>_. retM RUnit) p)"

fun run_reps :: "('s, 'd) rep_impl \<Rightarrow> ('k, 'v, 'd, 'q, 'e, 'r) map_codec \<Rightarrow> ('d::linorder, 'v, 'd, 'c) store_kind \<Rightarrow> ('k, 'v, 'd) rep_op list \<Rightarrow>
    ('d, 'c, 's) rep_map \<Rightarrow> 'v rep_answer res list" where
  "run_reps impl cd kind [] p = []"
| "run_reps impl cd kind (x # xs) p = (case run_rep impl cd kind x p of (r, p') \<Rightarrow> r # run_reps impl cd kind xs p')"

fun rep_op_ok :: "('v \<Rightarrow> bool) \<Rightarrow> ('k, 'v, 'd) rep_op \<Rightarrow> bool" where
  "rep_op_ok valid (RPut k v) = valid v"
| "rep_op_ok valid (RPutAll es) = (\<forall>e \<in> set es. valid (snd e))"
| "rep_op_ok valid (REvent k t) = (t \<in> {ET_ADDED, ET_REMOVED, ET_UPDATED, ET_EVICTED, ET_CLEAR_ALL})"
| "rep_op_ok valid _ = True"

context rep_near
begin

lemma containsKey_fits:
  assumes fits: "fits mx p q"
  shows "\<exists>b p' q'. rm_containsKey impl cd k p = (Inr b, p') \<and> rm_containsKey impl cd k q = (Inr b, q') \<and> fits mx p' q'"
proof -
  note ok = fitsD(3,4) [OF fits] and eq = fitsD(5) [OF fits]
  obtain s1 where s1: "rp_containsKey impl (kd k) (rm_server p) = (Inr (sabs (rm_server p) (kd k) \<noteq> None), s1)" "sabs s1 = sabs (rm_server p)" "sok s1"
    using containsKey_law [OF ok(1)] by blast
  obtain s2 where s2: "rp_containsKey impl (kd k) (rm_server q) = (Inr (sabs (rm_server p) (kd k) \<noteq> None), s2)" "sabs s2 = sabs (rm_server q)" "sok s2"
    using containsKey_law [OF ok(2), of "kd k"] eq by auto
  show ?thesis
    using s1(1) s2(1) fits_server [OF fits s1(2,3) s2(2,3)] by (simp add: rm_containsKey_def key_data bindM_def liftR_def on_rep_def)
qed

lemma run_rep_fits:
  assumes "fits mx p q" "rep_op_ok valid x"
  shows "\<exists>a p' q'. run_rep impl cd kind x p = (Inr a, p') \<and> run_rep impl cd kind x q = (Inr a, q') \<and> fits mx p' q'"
proof (cases x)
  case (RGet env k)
  then show ?thesis using get_fits [OF assms(1), of env k] by (auto simp: bindM_def retM_def)
next
  case (RContainsKey k)
  then show ?thesis using containsKey_fits [OF assms(1), of k] by (auto simp: bindM_def retM_def)
next
  case (RPut k v)
  then show ?thesis using put_fits [OF assms(1), of v k] assms(2) by (auto simp: bindM_def retM_def)
next
  case (RRemove k)
  then show ?thesis using remove_fits [OF assms(1), of k] by (auto simp: bindM_def retM_def)
next
  case (RPutAll es)
  have "\<forall>(k, v) \<in> set es. valid v" using RPutAll assms(2) by auto
  then show ?thesis using RPutAll putAll_fits [OF assms(1), of es] by (auto simp: bindM_def retM_def)
next
  case RClear
  then show ?thesis using clear_fits [OF assms(1)] by (auto simp: bindM_def retM_def)
next
  case (REvent k t)
  have "t \<in> {ET_ADDED, ET_REMOVED, ET_UPDATED, ET_EVICTED, ET_CLEAR_ALL}" using REvent assms(2) by simp
  then obtain p' where "rm_handleNearEvent kind (Some k) (type_value t) p = (Inr (), p')" "fits mx p' q"
    using event_fits [OF assms(1)] by blast
  moreover obtain nc where "rm_nearCache p = Some nc" using fitsD(1) [OF assms(1)] by (rule near_inE)
  ultimately show ?thesis using REvent fitsD(2) [OF assms(1)] by (simp add: bindM_def retM_def)
qed

lemma run_reps_fits:
  assumes "fits mx p q" "\<forall>x \<in> set xs. rep_op_ok valid x"
  shows "run_reps impl cd kind xs p = run_reps impl cd kind xs q \<and> (\<forall>r \<in> set (run_reps impl cd kind xs q). is_ok r)"
  using assms
proof (induction xs arbitrary: p q)
  case (Cons x xs)
  obtain a p' q' where "run_rep impl cd kind x p = (Inr a, p')" "run_rep impl cd kind x q = (Inr a, q')" "fits mx p' q'"
    using run_rep_fits [OF Cons.prems(1), of x] Cons.prems(2) by auto
  then show ?case using Cons.IH [of p' q'] Cons.prems(2) by simp
qed simp

lemma fresh_fits:
  assumes "nc_inv kind mx nc" "nc_abs nc = (\<lambda>_. None)" "sok s" "decodable cd (sabs s)"
  shows "fits mx \<lparr>rm_server = s, rm_nearCache = Some nc, rm_targetPartitionId = t, rm_invalidationListenerId = i\<rparr>
    \<lparr>rm_server = s, rm_nearCache = None, rm_targetPartitionId = t, rm_invalidationListenerId = i\<rparr>"
  using assms by (simp add: fits_def near_in_def rm_records_def server_decodable_def)

end

section \<open>A cluster for examples\<close>

definition rep_cluster :: "(('d::linorder, 'd) sync_map, 'd) rep_impl" where
  "rep_cluster =
     \<lparr>rp_put = (\<lambda>k v t. answer_with (ref_put k v)), rp_size = (\<lambda>_. answer_with (\<lambda>m. (int (length m), m))),
      rp_isEmpty = (\<lambda>_. answer_with (\<lambda>m. (m = [], m))), rp_containsKey = (\<lambda>k. answer_with (\<lambda>m. (sm_containsKey k m, m))),
      rp_containsValue = (\<lambda>v. answer_with (\<lambda>m. (Some v \<in> set (sm_values m), m))), rp_get = (\<lambda>k. answer_with (\<lambda>m. (sm_get k m, m))),
      rp_remove = (\<lambda>k. answer_with (sm_remove k)),
      rp_putAll = (\<lambda>es. answer_with (\<lambda>m. ((), fold (\<lambda>(k, v) m. snd (ref_put k v m)) es m))),
      rp_clear = answer_with (\<lambda>m. ((), snd (sm_clear m))), rp_keySet = (\<lambda>_. answer_with (\<lambda>m. (map fst m, m))),
      rp_values = (\<lambda>_. answer_with (\<lambda>m. ([v. (k, Some v) \<leftarrow> m], m))), rp_entrySet = (\<lambda>_. answer_with (\<lambda>m. (ref_entries None m, m)))\<rparr>"

lemma ref_putAll:
  "ref_ok m \<Longrightarrow> ref_ok (fold (\<lambda>(k, v) m. snd (ref_put k v m)) es m)
    \<and> sm_abs (fold (\<lambda>(k, v) m. snd (ref_put k v m)) es m) = fold (\<lambda>(k, v) m. m(k \<mapsto> v)) es (sm_abs m)"
proof (induction es arbitrary: m)
  case (Cons e es)
  obtain m' where "ref_put (fst e) (snd e) m = (sm_abs m (fst e), m')" "ref_ok m'" "sm_abs m' = (sm_abs m)(fst e \<mapsto> snd e)"
    using ref_put_step [OF Cons.prems, of "fst e" "snd e"] by blast
  then show ?case using Cons.IH [of m'] by (simp add: case_prod_beta)
qed simp

interpretation rep_ref: rep_server rep_cluster sm_abs ref_ok
proof unfold_locales
  fix m :: "('d::linorder, 'd) sync_map" and k v :: 'd and es
  assume ok: "ref_ok m"
  note impl = rep_cluster_def answer_with_def
  show "\<exists>s'. rp_get rep_cluster k m = (Inr (sm_abs m k), s') \<and> sm_abs s' = sm_abs m \<and> ref_ok s'"
    using ref.getData_law [OF ok, of "\<lambda>_. 0" k] by (simp add: impl reference_cluster_def)
  show "\<exists>s'. rp_containsKey rep_cluster k m = (Inr (sm_abs m k \<noteq> None), s') \<and> sm_abs s' = sm_abs m \<and> ref_ok s'"
    using ref.containsKey_law [OF ok, of "\<lambda>_. 0" k] by (simp add: impl reference_cluster_def)
  show "\<exists>s'. rp_put rep_cluster k v 0 m = (Inr (sm_abs m k), s') \<and> sm_abs s' = (sm_abs m)(k \<mapsto> v) \<and> ref_ok s'"
    using ref_put_step [OF ok, of k v] by (auto simp: impl)
  show "\<exists>s'. rp_remove rep_cluster k m = (Inr (sm_abs m k), s') \<and> sm_abs s' = (sm_abs m)(k := None) \<and> ref_ok s'"
    using ref_remove [OF ok, of k] by (auto simp: impl)
  show "\<exists>s'. rp_putAll rep_cluster es m = (Inr (), s') \<and> sm_abs s' = fold (\<lambda>(k, v) m. m(k \<mapsto> v)) es (sm_abs m) \<and> ref_ok s'"
    using ref_putAll [OF ok, of es] by (simp add: impl)
  show "\<exists>s'. rp_clear rep_cluster m = (Inr (), s') \<and> sm_abs s' = Map.empty \<and> ref_ok s'"
    using ref.clear_law [OF ok, of "\<lambda>_. 0"] by (simp add: impl reference_cluster_def)
qed

interpretation rep_data: rep_near rep_cluster sm_abs ref_ok "data_store plain_values" plain_codec id "\<lambda>_. True"
  by unfold_locales
    (auto simp: plain_codec_def plain_values_def data_store_def data_recordToValue_def dataToValue_def cached_of_def store_toData_def bindR_def)

interpretation rep_object: rep_near rep_cluster sm_abs ref_ok "object_store plain_values" plain_codec id "\<lambda>_. True"
  by unfold_locales (auto simp: plain_codec_def object_store_def object_recordToValue_def)

section \<open>Properties\<close>

definition rep_fresh :: "('d, 'c) near_cache option \<Rightarrow> 's \<Rightarrow> ('d, 'c, 's) rep_map" where
  "rep_fresh nc s = \<lparr>rm_server = s, rm_nearCache = nc, rm_targetPartitionId = 0, rm_invalidationListenerId = []\<rparr>"


text \<open>A \<open>put\<close> that fails on a map with a near cache loses its exception and keeps the record: the handler invalidates a null key, which
  throws \<open>NullPointerException\<close> in the place of what the cluster answered, and the near cache is not touched. A \<open>remove\<close> that fails
  passes the exception on, and the key is no longer cached.\<close>

theorem failed_put_keeps_record:
  assumes "near_in kind mx p" "k_toData cd k = Inr kd" "v_toData cd v = Inr vd" "caught_all e"
    and "rp_put impl kd vd ttl (rm_server p) = (Inl e, s)" "rp_remove impl kd (rm_server p) = (Inl e, s)"
  shows "rm_put_ttl impl cd kind k v ttl p = (Inl NullPointerException, p\<lparr>rm_server := s\<rparr>)
    \<and> (\<exists>p'. rm_remove impl cd kind k p = (Inl e, p') \<and> rm_records p' = (rm_records p)(kd := None))"
proof
  obtain nc where nc: "rm_nearCache p = Some nc" using assms(1) by (rule near_inE)
  then have "rm_invalidate kind None (p\<lparr>rm_server := s\<rparr>) = (Inl NullPointerException, p\<lparr>rm_server := s\<rparr>)"
    by (simp add: rm_invalidate_def if_near_def nc_invalidate_def bindM_def throwM_def)
  then show "rm_put_ttl impl cd kind k v ttl p = (Inl NullPointerException, p\<lparr>rm_server := s\<rparr>)"
    using assms(2-5) by (simp add: rm_put_ttl_def catchAll_def bindM_def liftR_def on_rep_def)
  have "near_in kind mx (p\<lparr>rm_server := s\<rparr>)" using assms(1) by simp
  then obtain p' where "rm_invalidate kind (Some kd) (p\<lparr>rm_server := s\<rparr>) = (Inr (), p')" "rm_records p' = (rm_records p)(kd := None)"
    using rm_invalidate_ok [of kind mx "p\<lparr>rm_server := s\<rparr>" kd] by auto
  then show "\<exists>p'. rm_remove impl cd kind k p = (Inl e, p') \<and> rm_records p' = (rm_records p)(kd := None)"
    using assms(2,4,6) by (simp add: rm_remove_def catchAll_def bindM_def on_rep_def)
qed

text \<open>Maps whose near cache is empty, and whose near cache holds the value 9 for the key 7, for examples.\<close>

definition empty_near :: "stats_call list \<Rightarrow> (nat, nat) near_cache" where
  "empty_near log = (DefaultNearCache NearCacheConfig_default)\<lparr>nearCacheRecordStore :=
     Some ((RecordStore_new NONE_TYPE NearCacheConfig_default)\<lparr>records := Some [], maxSizeChecker := Some 5, nearCacheStats := log\<rparr>)\<rparr>"

definition warm_near :: "(nat, nat) near_cache" where
  "warm_near = wrapped (the (pr_nearCache warm_proxy))"

abbreviation (input) rep_objects :: "(nat, nat, nat, nat) store_kind" where
  "rep_objects \<equiv> object_store plain_values"

lemma warm_near_in: "near_in rep_objects 5 (rep_fresh (Some warm_near) s)"
  using warm_proxy_ok by (simp add: near_ok_def near_in_def rep_fresh_def warm_near_def split: option.splits)

lemma warm_near_get: "\<exists>p. rm_getCachedValue plain_codec rep_objects env 7 (rep_fresh (Some warm_near) s) = (Inr (Cached 9), p)"
  using warm_proxy_get [of env]
  by (auto simp: near_get_def on_near_def aw_get_def on_wrapped_def warm_near_def rm_getCachedValue_def if_near_def rep_fresh_def plain_codec_def
      bindM_def liftR_def split: option.splits prod.splits)

lemma empty_near_ok:
  "nc_invalidate rep_objects (Some k) (empty_near []) = (Inr False, empty_near [IncInvalidationRequests])"
  "\<exists>nc1 nc2. nc_put rep_objects env 5 5 (Some k) (Some v) (empty_near [IncInvalidationRequests]) = (Inr (), nc1) \<and> nc_get rep_objects 5 5 (Some k) nc1 = (Inr (Cached v), nc2)"
proof -
  let ?st = "(RecordStore_new NONE_TYPE NearCacheConfig_default)\<lparr>records := Some [], maxSizeChecker := Some 5, nearCacheStats := [IncInvalidationRequests]\<rparr> :: (nat, nat) store"
  have inv: "nc_inv rep_objects 5 (empty_near [IncInvalidationRequests])"
    by (simp add: empty_near_def nc_inv_def store_inv_def stats_agree_def sm_full_def sm_size_def ownedEntryCount_def ownedEntryMemoryCost_def
        cap_ok_def INT32_MAX_def st_map_def isEvictionEnabled_def RecordStore_new_def)
  show "nc_invalidate rep_objects (Some k) (empty_near []) = (Inr False, empty_near [IncInvalidationRequests])"
    by (simp add: empty_near_def nc_invalidate_def on_store_def rs_invalidate_def with_records_def sm_remove_def sm_containsKey_def sm_get_def sm_erase_def log_stats_def
        RecordStore_new_def)
  have st: "nearCacheRecordStore (empty_near [IncInvalidationRequests]) = Some ?st" by (simp add: empty_near_def)
  have live: "\<not> isRecordExpired 5 ?st (onRecordCreate 5 (valueToRecordInternal 5 ?st c))" for c
    by (subst fresh_record_expired) (simp_all add: RecordStore_new_def NearCacheConfig_default_def DEFAULT_TTL_SECONDS_def DEFAULT_MAX_IDLE_SECONDS_def wrap32_id)
  show "\<exists>nc1 nc2. nc_put rep_objects env 5 5 (Some k) (Some v) (empty_near [IncInvalidationRequests]) = (Inr (), nc1) \<and> nc_get rep_objects 5 5 (Some k) nc1 = (Inr (Cached v), nc2)"
    using object_kind.put_get [OF inv st _ refl, of k env 5 5 "Some v" 5 5] live [of "Some v"]
    by (auto simp: nc_put_def nc_get_def rs_put_def object_store_def object_recordToValue_def st_map_def sm_size_def)
qed

text \<open>
  \<open>get\<close> does not reserve the key: when an entry is removed and the invalidation event is handled between the answer of the cluster and
  the call that caches it, the old value is cached and the next \<open>get\<close> answers with it.
\<close>

lemma get_race_caches_old_value:
  "\<exists>p1 p2 p3 p4. rm_fetch rep_cluster plain_codec 7 (rep_fresh (Some (empty_near [])) [(7, Some 9)]) = (Inr (Some 9), p1)
    \<and> rm_handleNearEvent rep_objects (Some 7) (type_value ET_REMOVED) (p1\<lparr>rm_server := []\<rparr>) = (Inr (), p2)
    \<and> rm_cache rep_objects quiet_env 7 (Some 9) p2 = (Inr (Cached 9), p3) \<and> rm_server p3 = []
    \<and> rm_get rep_cluster plain_codec rep_objects quiet_env 7 p3 = (Inr (Cached 9), p4)"
proof -
  let ?p = "rep_fresh (Some (empty_near [])) [(7, Some 9)] :: (nat, nat, (nat, nat) sync_map) rep_map"
  let ?p2 = "?p\<lparr>rm_server := [], rm_nearCache := Some (empty_near [IncInvalidationRequests])\<rparr>"
  obtain nc1 nc2 where nc: "nc_put rep_objects (ne_evict quiet_env) 5 5 (Some 7) (Some 9) (empty_near [IncInvalidationRequests]) = (Inr (), nc1)"
    "nc_get rep_objects 5 5 (Some 7) nc1 = (Inr (Cached 9), nc2)"
    using empty_near_ok(2) by blast
  have "rm_fetch rep_cluster plain_codec 7 ?p = (Inr (Some 9), ?p)"
    by (simp add: rm_fetch_def rep_fresh_def on_rep_def rep_cluster_def answer_with_def plain_codec_def toObject_auto_def sm_get_def sm_at_def
        sm_containsKey_def comp_simps)
  moreover have "rm_handleNearEvent rep_objects (Some 7) (type_value ET_REMOVED) (?p\<lparr>rm_server := []\<rparr>) = (Inr (), ?p2)"
    by (simp add: rm_handleNearEvent_def deref_near_def rep_fresh_def empty_near_ok(1) comp_simps)
  moreover have "rm_cache rep_objects quiet_env 7 (Some 9) ?p2 = (Inr (Cached 9), ?p\<lparr>rm_server := [], rm_nearCache := Some nc1\<rparr>)"
    using nc(1) by (simp add: rm_cache_def if_near_def rep_fresh_def quiet_env_def comp_simps)
  moreover have "rm_get rep_cluster plain_codec rep_objects quiet_env 7 (?p\<lparr>rm_server := [], rm_nearCache := Some nc1\<rparr>)
    = (Inr (Cached 9), ?p\<lparr>rm_server := [], rm_nearCache := Some nc2\<rparr>)"
    using nc(2) by (simp add: rm_get_def rm_getCachedValue_def if_near_def rep_fresh_def quiet_env_def plain_codec_def comp_simps)
  ultimately show ?thesis by fastforce
qed

section \<open>Examples\<close>


text \<open>A cluster on which the put happens, and the answer is lost.\<close>

definition failing_put :: "((nat, nat) sync_map, nat) rep_impl" where
  "failing_put = rep_cluster\<lparr>rp_put := (\<lambda>k v t s. (Inl (RemoteException 1), snd (ref_put k v s))),
     rp_remove := (\<lambda>k s. (Inl (RemoteException 1), snd (ref_put k 10 s)))\<rparr>"

lemma failed_put_keeps_record_witness:
  "\<exists>p q. rm_put_ttl failing_put plain_codec rep_objects 7 10 0 (rep_fresh (Some warm_near) [(7, Some 9)]) = (Inl NullPointerException, p)
    \<and> rm_server p = [(7, Some 10)] \<and> rm_getCachedValue plain_codec rep_objects quiet_env 7 p = (Inr (Cached 9), q)"
proof -
  let ?p = "rep_fresh (Some warm_near) [(7, Some 9)] :: (nat, nat, (nat, nat) sync_map) rep_map"
  have "rm_put_ttl failing_put plain_codec rep_objects 7 10 0 ?p = (Inl NullPointerException, ?p\<lparr>rm_server := [(7, Some 10)]\<rparr>)"
    by (rule conjunct1 [OF failed_put_keeps_record [OF warm_near_in, of plain_codec 7 7 10 10 "RemoteException 1"]])
      (simp_all add: plain_codec_def failing_put_def rep_fresh_def ref_put_def sm_put_def caught_all_def caught_def)
  moreover have "?p\<lparr>rm_server := [(7, Some 10)]\<rparr> = rep_fresh (Some warm_near) [(7, Some 10)]"
    "rm_server (rep_fresh (Some warm_near) [(7, Some 10)] :: (nat, nat, (nat, nat) sync_map) rep_map) = [(7, Some 10)]" by (simp_all add: rep_fresh_def)
  ultimately show ?thesis using warm_near_get [of quiet_env "[(7, Some 10)]"] by auto
qed

end
