(* ===== verification/Ringbuffer.thy ===== *)
theory Ringbuffer
  imports Map_Proxy
begin

text \<open>
  The ring buffer proxy of \<open>client/proxy/ClientRingbufferProxy.h\<close> with the result sets of \<open>client/ringbuffer/ReadResultSet.h\<close>. The messages
  to the cluster and \<open>ExceptionUtil::rethrow\<close> have no body in the sources and are arguments. An execution exception carries its cause,
  a stale sequence the head sequence that is added to its message.
\<close>

datatype ring_error = ExecutionException "ring_error option" | StaleSequenceException "int option" | Ring_Error hz_error

type_synonym ('s, 'a) ring_call = "'s \<Rightarrow> (ring_error + 'a) \<times> 's"

record ('s, 'd, 'f) ring_impl =
  ri_capacity :: "('s, int) ring_call"
  ri_size :: "('s, int) ring_call"
  ri_tailSequence :: "('s, int) ring_call"
  ri_headSequence :: "('s, int) ring_call"
  ri_remainingCapacity :: "('s, int) ring_call"
  ri_add :: "'d \<Rightarrow> ('s, int) ring_call"
  ri_readOne :: "int \<Rightarrow> ('s, 'd option) ring_call"
  ri_readMany :: "int \<Rightarrow> int \<Rightarrow> int \<Rightarrow> 'd option \<Rightarrow> ('s, 'f) ring_call"
  ri_addAsync :: "nat \<Rightarrow> 'd \<Rightarrow> ('s, 'f) ring_call"
  ri_addAllAsync :: "nat \<Rightarrow> 'd list \<Rightarrow> ('s, 'f) ring_call"
  ri_rethrow :: "ring_error \<Rightarrow> ring_error"

record 's ring_proxy =
  rb_bufferCapacity :: int
  rb_server :: 's

definition Ringbuffer_new :: "'s \<Rightarrow> 's ring_proxy" where
  "Ringbuffer_new s = \<lparr>rb_bufferCapacity = - 1, rb_server = s\<rparr>"

definition MAX_BATCH_SIZE :: int where
  "MAX_BATCH_SIZE = 1000"

section \<open>Calls\<close>

definition bindC :: "('s, 'a) ring_call \<Rightarrow> ('a \<Rightarrow> ('s, 'b) ring_call) \<Rightarrow> ('s, 'b) ring_call" where
  "bindC f g s = (case f s of (Inl e, s') \<Rightarrow> (Inl e, s') | (Inr a, s') \<Rightarrow> g a s')"

definition retC :: "'a \<Rightarrow> ('s, 'a) ring_call" where
  "retC a s = (Inr a, s)"

definition liftC :: "'a res \<Rightarrow> ('s, 'a) ring_call" where
  "liftC r s = (case r of Inl e \<Rightarrow> (Inl (Ring_Error e), s) | Inr a \<Rightarrow> (Inr a, s))"

definition ring_caught :: "ring_error \<Rightarrow> bool" where
  "ring_caught e = (case e of Ring_Error h \<Rightarrow> caught h | _ \<Rightarrow> True)"

text \<open>
  The handlers of \<open>invoke\<close>: a stale sequence is rethrown with the head sequence, which is another invocation. \<open>fuel\<close> bounds how often an
  invocation for the head sequence itself fails with a stale sequence.
\<close>

definition handle_failure :: "('s, 'd, 'f) ring_impl \<Rightarrow> ('s, int) ring_call \<Rightarrow> ring_error \<Rightarrow> ('s, 'a) ring_call" where
  "handle_failure impl headSequence e s =
     (case e of
        ExecutionException cause \<Rightarrow>
          (case cause of
             None \<Rightarrow> (Inl (Ring_Error NullDereference), s)
           | Some (StaleSequenceException _) \<Rightarrow>
               (case headSequence s of (Inl e', s') \<Rightarrow> (Inl e', s') | (Inr l, s') \<Rightarrow> (Inl (StaleSequenceException (Some l)), s'))
           | Some _ \<Rightarrow> (Inl (ri_rethrow impl e), s))
      | _ \<Rightarrow> if ring_caught e then (Inl (ri_rethrow impl e), s) else (Inl e, s))"

fun rb_headSequence :: "nat \<Rightarrow> ('s, 'd, 'f) ring_impl \<Rightarrow> ('s, int) ring_call" where
  "rb_headSequence 0 impl s = (Inl (Ring_Error NonTermination), s)"
| "rb_headSequence (Suc fuel) impl s =
     (case ri_headSequence impl s of
        (Inr h, s') \<Rightarrow> (Inr h, s')
      | (Inl e, s') \<Rightarrow> handle_failure impl (rb_headSequence fuel impl) e s')"

definition rb_invoke :: "nat \<Rightarrow> ('s, 'd, 'f) ring_impl \<Rightarrow> ('s, 'a) ring_call \<Rightarrow> ('s, 'a) ring_call" where
  "rb_invoke fuel impl request s =
     (case request s of
        (Inr a, s') \<Rightarrow> (Inr a, s')
      | (Inl e, s') \<Rightarrow> handle_failure impl (rb_headSequence fuel impl) e s')"

definition on_ring :: "('s, 'a) ring_call \<Rightarrow> ('s ring_proxy, 'a) ring_call" where
  "on_ring f p = (case f (rb_server p) of (r, s) \<Rightarrow> (r, p\<lparr>rb_server := s\<rparr>))"

definition rb_capacity :: "nat \<Rightarrow> ('s, 'd, 'f) ring_impl \<Rightarrow> ('s ring_proxy, int) ring_call" where
  "rb_capacity fuel impl p =
     (if rb_bufferCapacity p = - 1 then
        bindC (on_ring (rb_invoke fuel impl (ri_capacity impl))) (\<lambda>c p. (Inr c, p\<lparr>rb_bufferCapacity := c\<rparr>)) p
      else (Inr (rb_bufferCapacity p), p))"

definition rb_size :: "nat \<Rightarrow> ('s, 'd, 'f) ring_impl \<Rightarrow> ('s ring_proxy, int) ring_call" where
  "rb_size fuel impl = on_ring (rb_invoke fuel impl (ri_size impl))"

definition rb_tailSequence :: "nat \<Rightarrow> ('s, 'd, 'f) ring_impl \<Rightarrow> ('s ring_proxy, int) ring_call" where
  "rb_tailSequence fuel impl = on_ring (rb_invoke fuel impl (ri_tailSequence impl))"

definition rb_remainingCapacity :: "nat \<Rightarrow> ('s, 'd, 'f) ring_impl \<Rightarrow> ('s ring_proxy, int) ring_call" where
  "rb_remainingCapacity fuel impl = on_ring (rb_invoke fuel impl (ri_remainingCapacity impl))"

definition rb_add :: "nat \<Rightarrow> ('s, 'd, 'f) ring_impl \<Rightarrow> ('e \<Rightarrow> 'd res) \<Rightarrow> 'e \<Rightarrow> ('s ring_proxy, int) ring_call" where
  "rb_add fuel impl toData item = bindC (liftC (toData item)) (\<lambda>d. on_ring (rb_invoke fuel impl (ri_add impl d)))"

definition checkSequence :: "int \<Rightarrow> unit res" where
  "checkSequence sequence = (if sequence < 0 then Inl IllegalArgumentException else Inr ())"

definition checkTrue :: "bool \<Rightarrow> unit res" where
  "checkTrue argument = (if \<not> argument then Inl IllegalArgumentException else Inr ())"

definition rb_readOne :: "nat \<Rightarrow> ('s, 'd, 'f) ring_impl \<Rightarrow> ('d \<Rightarrow> 'e option res) \<Rightarrow> int \<Rightarrow> ('s ring_proxy, 'e option) ring_call" where
  "rb_readOne fuel impl toObj sequence =
     bindC (liftC (checkSequence sequence)) (\<lambda>_.
     bindC (on_ring (rb_invoke fuel impl (ri_readOne impl sequence))) (\<lambda>d. liftC (toObject_auto toObj d)))"

text \<open>The read of the reliable topic: no checks, at least one item, no filter.\<close>

definition rb_readManyAsync_topic :: "('s, 'd, 'f) ring_impl \<Rightarrow> int \<Rightarrow> int \<Rightarrow> ('s ring_proxy, 'f) ring_call" where
  "rb_readManyAsync_topic impl sequence maxCount = on_ring (ri_readMany impl sequence 1 maxCount None)"

text \<open>A future delegates to an invocation or is complete with an exception.\<close>

datatype 'f ring_future = Delegating 'f | Failed ring_error

definition rethrowing :: "('s, 'd, 'f) ring_impl \<Rightarrow> ('s, 'f) ring_call \<Rightarrow> ('s ring_proxy, 'f ring_future) ring_call" where
  "rethrowing impl request p =
     (case on_ring request p of
        (Inr f, p') \<Rightarrow> (Inr (Delegating f), p')
      | (Inl e, p') \<Rightarrow> (Inl (if ring_caught e then ri_rethrow impl e else e), p'))"

definition rb_addAsync :: "('s, 'd, 'f) ring_impl \<Rightarrow> ('e \<Rightarrow> 'd res) \<Rightarrow> 'e \<Rightarrow> nat \<Rightarrow> ('s ring_proxy, 'f ring_future) ring_call" where
  "rb_addAsync impl toData item overflowPolicy = bindC (liftC (toData item)) (\<lambda>d. rethrowing impl (ri_addAsync impl overflowPolicy d))"

definition rb_addAllAsync :: "('s, 'd, 'f) ring_impl \<Rightarrow> ('e \<Rightarrow> 'd res) \<Rightarrow> 'e list \<Rightarrow> nat \<Rightarrow> ('s ring_proxy, 'f ring_future) ring_call" where
  "rb_addAllAsync impl toData items overflowPolicy =
     bindC (liftC (checkNotEmpty items)) (\<lambda>_.
     bindC (liftC (checkMax (wrap32 (int (length items))) MAX_BATCH_SIZE)) (\<lambda>_.
     bindC (liftC (mapR toData items)) (\<lambda>ds. rethrowing impl (ri_addAllAsync impl overflowPolicy ds))))"

definition rb_readManyAsyncInternal :: "nat \<Rightarrow> ('s, 'd, 'f) ring_impl \<Rightarrow> int \<Rightarrow> int \<Rightarrow> int \<Rightarrow> 'd \<Rightarrow> ('s ring_proxy, 'f ring_future) ring_call" where
  "rb_readManyAsyncInternal fuel impl startSequence minCount maxCount filterData =
     bindC (liftC (checkSequence startSequence)) (\<lambda>_.
     bindC (liftC (checkNotNegative minCount)) (\<lambda>_.
     bindC (liftC (checkTrue (minCount \<le> maxCount))) (\<lambda>_ p.
     case rb_capacity fuel impl p of
       (Inl e, p') \<Rightarrow> if ring_caught e then (Inr (Failed (ExecutionException (Some e))), p') else (Inl e, p')
     | (Inr _, p') \<Rightarrow>
         bindC (liftC (checkTrue (maxCount \<le> rb_bufferCapacity p'))) (\<lambda>_.
         bindC (liftC (checkMax maxCount MAX_BATCH_SIZE)) (\<lambda>_.
         rethrowing impl (ri_readMany impl startSequence minCount maxCount (Some filterData)))) p')))"

section \<open>Result sets\<close>

record 'd ReadResultSet =
  itemsReadCount :: int
  rs_items :: "'d list"
  itemSeqs :: "int list option"
  itemSeqsExist :: bool
  nextSeq :: int

definition SEQUENCE_UNAVAILABLE :: int where
  "SEQUENCE_UNAVAILABLE = - 1"

definition decodeReadMany :: "int \<Rightarrow> 'd list \<Rightarrow> int list option \<Rightarrow> bool \<Rightarrow> int option \<Rightarrow> 'd ReadResultSet" where
  "decodeReadMany readCount items seqs seqsExist nextSequence =
     \<lparr>itemsReadCount = readCount, rs_items = items, itemSeqs = seqs, itemSeqsExist = seqsExist,
      nextSeq = (case nextSequence of Some n \<Rightarrow> n | None \<Rightarrow> SEQUENCE_UNAVAILABLE)\<rparr>"

definition getSequence :: "int \<Rightarrow> 'd ReadResultSet \<Rightarrow> int res" where
  "getSequence index rs =
     (if \<not> itemSeqsExist rs then Inl IllegalArgumentException
      else case itemSeqs rs of
        None \<Rightarrow> Inl NullDereference
      | Some seqs \<Rightarrow> if wrap32 (int (length seqs)) \<le> index \<or> index < 0 then Inl IllegalArgumentException else Inr (seqs ! nat index))"

section \<open>Properties\<close>

lemmas ring_defs = bindC_def retC_def liftC_def rethrowing_def checkSequence_def checkTrue_def checkNotNegative_def checkMax_def

lemma capacity_known:
  assumes "rb_capacity fuel impl p = (Inr c, p')"
  shows "rb_bufferCapacity p' = c" "c \<noteq> - 1 \<Longrightarrow> rb_capacity fuel impl p' = (Inr c, p')"
  using assms by (auto simp: rb_capacity_def bindC_def split: if_splits sum.splits prod.splits)

text \<open>
  Arguments that are wrong by themselves are refused before anything is sent.
\<close>

lemma readMany_refused:
  assumes "startSequence < 0 \<or> minCount < 0 \<or> maxCount < minCount"
  shows "rb_readManyAsyncInternal fuel impl startSequence minCount maxCount d p = (Inl (Ring_Error IllegalArgumentException), p)"
  using assms by (auto simp: rb_readManyAsyncInternal_def ring_defs)

text \<open>A request to read many items is sent only with a non-negative sequence and counts in order, at most as many as the ring
  buffer holds and as a batch may have; the future returned is the one of that request, or one that has failed because
  the capacity could not be read.
\<close>

theorem readMany_request_bounded:
  assumes "rb_readManyAsyncInternal fuel impl startSequence minCount maxCount d p = (Inr f, p')"
  shows "0 \<le> startSequence \<and> 0 \<le> minCount \<and> minCount \<le> maxCount \<and>
    (case f of
       Delegating g \<Rightarrow> \<exists>s. maxCount \<le> rb_bufferCapacity p' \<and> maxCount \<le> MAX_BATCH_SIZE \<and>
         ri_readMany impl startSequence minCount maxCount (Some d) s = (Inr g, rb_server p')
     | Failed x \<Rightarrow> \<exists>e. x = ExecutionException (Some e) \<and> fst (rb_capacity fuel impl p) = Inl e)"
proof (cases "startSequence < 0 \<or> minCount < 0 \<or> maxCount < minCount")
  case True
  then show ?thesis using readMany_refused [OF True, of fuel impl d p] assms by simp
next
  case False
  obtain c p1 where c: "rb_capacity fuel impl p = (c, p1)" by fastforce
  show ?thesis
    using assms False c
    by (cases c) (auto simp: rb_readManyAsyncInternal_def ring_defs on_ring_def split: if_splits sum.splits prod.splits)
qed

text \<open>A batch of 2 to the 31 items or more is not refused: the size is cast to 32 bits before it is compared.\<close>

lemma huge_batch_passes:
  assumes "2 ^ 31 \<le> length items" "length items < 2 ^ 32" "mapR toData items = Inr ds"
  shows "rb_addAllAsync impl toData items policy = rethrowing impl (ri_addAllAsync impl policy ds)"
proof -
  have "(int (length items) + 2 ^ 31) mod 2 ^ 32 = (int (length items) + 2 ^ 31 - 2 ^ 32) mod 2 ^ 32"
    by (rule minus_mod_self2 [symmetric])
  also have "\<dots> = int (length items) + 2 ^ 31 - 2 ^ 32" by (rule mod_pos_pos_trivial) (use assms in simp_all)
  finally have "wrap32 (int (length items)) < 0" using assms(2) by (simp add: wrap32_def)
  moreover have "items \<noteq> []" using assms(1) by auto
  ultimately show ?thesis
    using assms(3) by (auto simp: rb_addAllAsync_def checkNotEmpty_def checkMax_def MAX_BATCH_SIZE_def bindC_def liftC_def fun_eq_iff)
qed

text \<open>A stale sequence comes back with the head sequence of the ring buffer.\<close>

lemma stale_reports_head:
  assumes "request s = (Inl (ExecutionException (Some (StaleSequenceException x))), s1)" "ri_headSequence impl s1 = (Inr h, s2)"
  shows "rb_invoke (Suc fuel) impl request s = (Inl (StaleSequenceException (Some h)), s2)"
  using assms by (simp add: rb_invoke_def handle_failure_def)

section \<open>Example\<close>

definition small_ring :: "(int list, int, int list) ring_impl" where
  "small_ring = \<lparr>ri_capacity = (\<lambda>s. (Inr 10, s)), ri_size = (\<lambda>s. (Inr (int (length s)), s)), ri_tailSequence = (\<lambda>s. (Inr (int (length s) - 1), s)),
     ri_headSequence = (\<lambda>s. (Inr 0, s)), ri_remainingCapacity = (\<lambda>s. (Inr (10 - int (length s)), s)), ri_add = (\<lambda>d s. (Inr (int (length s)), s @ [d])),
     ri_readOne = (\<lambda>i s. (Inr (if nat i < length s then Some (s ! nat i) else None), s)),
     ri_readMany = (\<lambda>i m n f s. (Inr (take (nat n) (drop (nat i) s)), s)), ri_addAsync = (\<lambda>_ d s. (Inr [], s @ [d])),
     ri_addAllAsync = (\<lambda>_ ds s. (Inr [], s @ ds)), ri_rethrow = (\<lambda>e. e)\<rparr>"

lemma readMany_request_bounded_witness:
  "\<exists>f p'. rb_readManyAsyncInternal 1 small_ring 1 1 5 0 (Ringbuffer_new [7, 8, 9]) = (Inr (Delegating f), p') \<and> f = [8, 9]
    \<and> (5 :: int) \<le> rb_bufferCapacity p'"
proof -
  let ?p = "\<lparr>rb_bufferCapacity = 10, rb_server = [7, 8, 9]\<rparr>"
  have "rb_readManyAsyncInternal 1 small_ring 1 1 5 0 (Ringbuffer_new [7, 8, 9]) = (Inr (Delegating [8, 9]), ?p)"
    by (simp add: rb_readManyAsyncInternal_def ring_defs rb_capacity_def on_ring_def rb_invoke_def small_ring_def Ringbuffer_new_def MAX_BATCH_SIZE_def)
  with readMany_request_bounded [OF this] show ?thesis by auto
qed

end
