(* ===== verification/Task_Future.thy ===== *)
theory Task_Future
  imports Hz_Prelude "HOL-Library.Multiset"
begin

text \<open>
  The future of a submitted task: \<open>util/Future.h\<close> and the adaptor of \<open>util/impl/SimpleExecutorService.h\<close> that completes it.
  A section under the lock is one step; a thread that waits on the condition variable has given the lock up. Executors have no
  body in the sources: \<open>refuses\<close> gives the exception of one that does not take a job, and a job taken is recorded.
\<close>

section \<open>State\<close>

datatype 'x failure = CancellationException | Failure 'x

text \<open>What a job hands to its callback: the shared value, which may be null, or an exception.\<close>

type_synonym ('v, 'x) task_outcome = "'x failure + 'v option"

text \<open>Where a thread stands that is inside \<open>get\<close>, inside \<open>waitFor\<close> with an end time, or in the \<open>get\<close> with a timeout.\<close>

datatype place = In_get | In_waitFor int | In_timed_get int | Before_get

record ('t, 'v, 'x, 'cb, 'ex) task_future =
  resultReady :: bool
  exceptionReady :: bool
  cancelled :: bool
  sharedObject :: "'v option"
  f_exception :: "'x failure option"
  f_callbacks :: "('cb \<times> 'ex) list"
  f_jobs :: "('ex \<times> 'cb \<times> ('v, 'x) task_outcome) list"
  f_waiting :: "('t \<times> place) list"
  f_woken :: "('t \<times> place) list"

definition Future_new :: "('t, 'v, 'x, 'cb, 'ex) task_future" where
  "Future_new = \<lparr>resultReady = False, exceptionReady = False, cancelled = False, sharedObject = None, f_exception = None,
     f_callbacks = [], f_jobs = [], f_waiting = [], f_woken = []\<rparr>"

definition notify_all :: "('t, 'v, 'x, 'cb, 'ex) task_future \<Rightarrow> ('t, 'v, 'x, 'cb, 'ex) task_future" where
  "notify_all f = f\<lparr>f_waiting := [], f_woken := f_woken f @ f_waiting f\<rparr>"

section \<open>Completion\<close>

definition submit :: "('ex \<Rightarrow> hz_error option) \<Rightarrow> 'ex \<Rightarrow> 'cb \<Rightarrow> ('v, 'x) task_outcome \<Rightarrow>
    ('t, 'v, 'x, 'cb, 'ex) task_future \<Rightarrow> unit res \<times> ('t, 'v, 'x, 'cb, 'ex) task_future" where
  "submit refuses ex cb r f = (case refuses ex of Some e \<Rightarrow> (Inl e, f) | None \<Rightarrow> (Inr (), f\<lparr>f_jobs := f_jobs f @ [(ex, cb, r)]\<rparr>))"

fun submit_all :: "('ex \<Rightarrow> hz_error option) \<Rightarrow> ('v, 'x) task_outcome \<Rightarrow> ('cb \<times> 'ex) list \<Rightarrow>
    ('t, 'v, 'x, 'cb, 'ex) task_future \<Rightarrow> unit res \<times> ('t, 'v, 'x, 'cb, 'ex) task_future" where
  "submit_all refuses r [] f = (Inr (), f)"
| "submit_all refuses r ((cb, ex) # cs) f = bindM (submit refuses ex cb r) (\<lambda>_. submit_all refuses r cs) f"

definition set_value :: "('ex \<Rightarrow> hz_error option) \<Rightarrow> 'v option \<Rightarrow>
    ('t, 'v, 'x, 'cb, 'ex) task_future \<Rightarrow> unit res \<times> ('t, 'v, 'x, 'cb, 'ex) task_future" where
  "set_value refuses v f =
     (if cancelled f then (Inr (), f)
      else if exceptionReady f \<or> resultReady f then (Inr (), f)
      else submit_all refuses (Inr v) (f_callbacks f) (notify_all (f\<lparr>sharedObject := v, resultReady := True\<rparr>)))"

definition set_exception :: "('ex \<Rightarrow> hz_error option) \<Rightarrow> 'x failure \<Rightarrow>
    ('t, 'v, 'x, 'cb, 'ex) task_future \<Rightarrow> unit res \<times> ('t, 'v, 'x, 'cb, 'ex) task_future" where
  "set_exception refuses x f =
     (if cancelled f then (Inr (), f)
      else if exceptionReady f \<or> resultReady f then (Inr (), f)
      else submit_all refuses (Inl x) (f_callbacks f) (notify_all (f\<lparr>f_exception := Some x, exceptionReady := True\<rparr>)))"

definition complete_value :: "('ex \<Rightarrow> hz_error option) \<Rightarrow> 'v option \<Rightarrow>
    ('t, 'v, 'x, 'cb, 'ex) task_future \<Rightarrow> unit res \<times> ('t, 'v, 'x, 'cb, 'ex) task_future" where
  "complete_value refuses v = set_value refuses v"

definition complete_exception :: "('ex \<Rightarrow> hz_error option) \<Rightarrow> 'x failure \<Rightarrow>
    ('t, 'v, 'x, 'cb, 'ex) task_future \<Rightarrow> unit res \<times> ('t, 'v, 'x, 'cb, 'ex) task_future" where
  "complete_exception refuses x = set_exception refuses x"

text \<open>The adaptor of a task: what the call gives completes the future. A refusal while the value is set is caught like an
  exception of the call, and finds the future complete.\<close>

definition adaptor_run :: "('ex \<Rightarrow> hz_error option) \<Rightarrow> (hz_error \<Rightarrow> 'x) \<Rightarrow> 'x + 'v option \<Rightarrow>
    ('t, 'v, 'x, 'cb, 'ex) task_future \<Rightarrow> unit res \<times> ('t, 'v, 'x, 'cb, 'ex) task_future" where
  "adaptor_run refuses thrown call f =
     (case call of
        Inl x \<Rightarrow> set_exception refuses (Failure x) f
      | Inr v \<Rightarrow> (case set_value refuses v f of (Inr _, f') \<Rightarrow> (Inr (), f') | (Inl e, f') \<Rightarrow> set_exception refuses (Failure (thrown e)) f'))"

definition task_cancel :: "('t, 'v, 'x, 'cb, 'ex) task_future \<Rightarrow> bool \<times> ('t, 'v, 'x, 'cb, 'ex) task_future" where
  "task_cancel f =
     (if resultReady f \<or> exceptionReady f then (False, f)
      else if cancelled f then (True, f)
      else (True, f\<lparr>cancelled := True, f_exception := Some CancellationException, exceptionReady := True\<rparr>))"

definition task_isCancelled :: "('t, 'v, 'x, 'cb, 'ex) task_future \<Rightarrow> bool" where
  "task_isCancelled f = cancelled f"

definition task_isDone :: "('t, 'v, 'x, 'cb, 'ex) task_future \<Rightarrow> bool" where
  "task_isDone f = (resultReady f \<or> exceptionReady f \<or> cancelled f)"

definition task_andThen :: "('ex \<Rightarrow> hz_error option) \<Rightarrow> 'cb \<Rightarrow> 'ex \<Rightarrow>
    ('t, 'v, 'x, 'cb, 'ex) task_future \<Rightarrow> unit res \<times> ('t, 'v, 'x, 'cb, 'ex) task_future" where
  "task_andThen refuses cb ex f =
     (if resultReady f then submit refuses ex cb (Inr (sharedObject f)) f
      else if exceptionReady f then
        (case f_exception f of None \<Rightarrow> (Inl NullDereference, f) | Some x \<Rightarrow> submit refuses ex cb (Inl x) f)
      else (Inr (), f\<lparr>f_callbacks := f_callbacks f @ [(cb, ex)]\<rparr>))"

section \<open>Waiting\<close>

datatype ('v, 'x) task_answer = Sleeps | Gets "('v, 'x) task_outcome" | Crashes hz_error | Waited bool

definition raise_exception :: "('t, 'v, 'x, 'cb, 'ex) task_future \<Rightarrow> ('v, 'x) task_answer" where
  "raise_exception f = (case f_exception f of None \<Rightarrow> Crashes NullDereference | Some x \<Rightarrow> Gets (Inl x))"

text \<open>The loop of \<open>get\<close> and what follows it.\<close>

definition get_loop :: "'t \<Rightarrow> ('t, 'v, 'x, 'cb, 'ex) task_future \<Rightarrow> ('v, 'x) task_answer \<times> ('t, 'v, 'x, 'cb, 'ex) task_future" where
  "get_loop t f =
     (if \<not> resultReady f \<and> \<not> exceptionReady f \<and> \<not> cancelled f then (Sleeps, f\<lparr>f_waiting := f_waiting f @ [(t, In_get)]\<rparr>)
      else if resultReady f then (Gets (Inr (sharedObject f)), f)
      else if exceptionReady f then (raise_exception f, f)
      else (Crashes AssertionFailure, f))"

definition task_get :: "'t \<Rightarrow> ('t, 'v, 'x, 'cb, 'ex) task_future \<Rightarrow> ('v, 'x) task_answer \<times> ('t, 'v, 'x, 'cb, 'ex) task_future" where
  "task_get t f =
     (if resultReady f then (Gets (Inr (sharedObject f)), f)
      else if exceptionReady f then (raise_exception f, f)
      else get_loop t f)"

text \<open>
  The loop of \<open>waitFor\<close>, with the time it reads in milliseconds (sums of times are taken to stay below 2 to the 63). The \<open>get\<close> with a timeout is a \<open>waitFor\<close>, whose answer it ignores, and then a \<open>get\<close>.
\<close>

definition waitFor_loop :: "'t \<Rightarrow> int \<Rightarrow> int \<Rightarrow> ('t, 'v, 'x, 'cb, 'ex) task_future \<Rightarrow>
    ('v, 'x) task_answer \<times> ('t, 'v, 'x, 'cb, 'ex) task_future" where
  "waitFor_loop t endTime now f =
     (if \<not> (resultReady f \<or> exceptionReady f) \<and> now < endTime then (Sleeps, f\<lparr>f_waiting := f_waiting f @ [(t, In_waitFor endTime)]\<rparr>)
      else (Waited (resultReady f \<or> exceptionReady f), f))"

definition timed_get_loop :: "'t \<Rightarrow> int \<Rightarrow> int \<Rightarrow> ('t, 'v, 'x, 'cb, 'ex) task_future \<Rightarrow>
    ('v, 'x) task_answer \<times> ('t, 'v, 'x, 'cb, 'ex) task_future" where
  "timed_get_loop t endTime now f =
     (if \<not> (resultReady f \<or> exceptionReady f) \<and> now < endTime then (Sleeps, f\<lparr>f_waiting := f_waiting f @ [(t, In_timed_get endTime)]\<rparr>)
      else (Sleeps, f\<lparr>f_woken := (t, Before_get) # f_woken f\<rparr>))"

fun go_on :: "'t \<Rightarrow> place \<Rightarrow> int \<Rightarrow> ('t, 'v, 'x, 'cb, 'ex) task_future \<Rightarrow> ('v, 'x) task_answer \<times> ('t, 'v, 'x, 'cb, 'ex) task_future" where
  "go_on t In_get now f = get_loop t f"
| "go_on t (In_waitFor endTime) now f = waitFor_loop t endTime now f"
| "go_on t (In_timed_get endTime) now f = timed_get_loop t endTime now f"
| "go_on t Before_get now f = task_get t f"

section \<open>Steps\<close>

datatype ('t, 'v, 'x, 'cb, 'ex) task_call =
    Set_value "'v option" | Set_exception "'x failure" | And_then 'cb 'ex | Cancel
  | Get 't | Wait_for 't int | Get_timed 't int | Go_on 't place | Wake 't place

fun perform :: "('ex \<Rightarrow> hz_error option) \<Rightarrow> ('t, 'v, 'x, 'cb, 'ex) task_call \<Rightarrow> int \<Rightarrow>
    ('t, 'v, 'x, 'cb, 'ex) task_future \<Rightarrow> ('v, 'x) task_answer \<times> ('t, 'v, 'x, 'cb, 'ex) task_future" where
  "perform refuses (Set_value v) now f = (Sleeps, snd (set_value refuses v f))"
| "perform refuses (Set_exception x) now f = (Sleeps, snd (set_exception refuses x f))"
| "perform refuses (And_then cb ex) now f = (Sleeps, snd (task_andThen refuses cb ex f))"
| "perform refuses Cancel now f = (Sleeps, snd (task_cancel f))"
| "perform refuses (Get t) now f = task_get t f"
| "perform refuses (Wait_for t timeout) now f = waitFor_loop t (now + timeout) now f"
| "perform refuses (Get_timed t timeout) now f = timed_get_loop t (now + timeout) now f"
| "perform refuses (Go_on t p) now f = go_on t p now (f\<lparr>f_woken := remove1 (t, p) (f_woken f)\<rparr>)"
| "perform refuses (Wake t p) now f = (Sleeps, f\<lparr>f_waiting := remove1 (t, p) (f_waiting f), f_woken := (t, p) # f_woken f\<rparr>)"

text \<open>A thread goes on when it was woken; the condition variable may wake a waiting thread at any time, by a timeout or by itself.\<close>

fun can :: "('t, 'v, 'x, 'cb, 'ex) task_call \<Rightarrow> ('t, 'v, 'x, 'cb, 'ex) task_future \<Rightarrow> bool" where
  "can (Go_on t p) f \<longleftrightarrow> (t, p) \<in> set (f_woken f)"
| "can (Wake t p) f \<longleftrightarrow> (t, p) \<in> set (f_waiting f)"
| "can _ f \<longleftrightarrow> True"

inductive future_run :: "('ex \<Rightarrow> hz_error option) \<Rightarrow> ('t, 'v, 'x, 'cb, 'ex) task_future \<Rightarrow>
    (('t, 'v, 'x, 'cb, 'ex) task_call \<times> ('v, 'x) task_answer) list \<Rightarrow> ('t, 'v, 'x, 'cb, 'ex) task_future \<Rightarrow> bool" for refuses where
  run_nil: "future_run refuses f [] f"
| run_snoc: "\<lbrakk>future_run refuses f es f'; can c f'; perform refuses c now f' = (a, f'')\<rbrakk> \<Longrightarrow> future_run refuses f (es @ [(c, a)]) f''"

section \<open>Invariant\<close>

text \<open>
  At most one of value and exception; a cancelled future has the exception of its cancellation.
\<close>

definition future_ok :: "('t, 'v, 'x, 'cb, 'ex) task_future \<Rightarrow> bool" where
  "future_ok f \<longleftrightarrow> \<not> (resultReady f \<and> exceptionReady f) \<and> (exceptionReady f \<longleftrightarrow> f_exception f \<noteq> None)
     \<and> (cancelled f \<longrightarrow> exceptionReady f \<and> f_exception f = Some CancellationException)"

definition settled :: "('t, 'v, 'x, 'cb, 'ex) task_future \<Rightarrow> ('v, 'x) task_outcome option" where
  "settled f = (if resultReady f then Some (Inr (sharedObject f)) else map_option Inl (f_exception f))"

lemma submit_fields [simp]:
  "resultReady (snd (submit refuses ex cb r f)) = resultReady f" "exceptionReady (snd (submit refuses ex cb r f)) = exceptionReady f"
  "cancelled (snd (submit refuses ex cb r f)) = cancelled f" "sharedObject (snd (submit refuses ex cb r f)) = sharedObject f"
  "f_exception (snd (submit refuses ex cb r f)) = f_exception f" "f_callbacks (snd (submit refuses ex cb r f)) = f_callbacks f"
  "f_waiting (snd (submit refuses ex cb r f)) = f_waiting f" "f_woken (snd (submit refuses ex cb r f)) = f_woken f"
  by (simp_all add: submit_def split: option.split)

lemma submit_all_jobs: "\<exists>js. snd (submit_all refuses r cs f) = f\<lparr>f_jobs := f_jobs f @ js\<rparr>"
proof (induction cs arbitrary: f)
  case (Cons c cs)
  obtain cb ex where c: "c = (cb, ex)" by (cases c)
  show ?case
  proof (cases "refuses ex")
    case None
    obtain js where "snd (submit_all refuses r cs (f\<lparr>f_jobs := f_jobs f @ [(ex, cb, r)]\<rparr>)) = f\<lparr>f_jobs := f_jobs f @ (ex, cb, r) # js\<rparr>"
      using Cons [of "f\<lparr>f_jobs := f_jobs f @ [(ex, cb, r)]\<rparr>"] by auto
    then show ?thesis using None c by (auto simp: bindM_def submit_def)
  qed (auto simp: c bindM_def submit_def intro: exI [of _ "[]"])
qed (auto intro: exI [of _ "[]"])

lemma submit_all_fields [simp]:
  "resultReady (snd (submit_all refuses r cs f)) = resultReady f" "exceptionReady (snd (submit_all refuses r cs f)) = exceptionReady f"
  "cancelled (snd (submit_all refuses r cs f)) = cancelled f" "sharedObject (snd (submit_all refuses r cs f)) = sharedObject f"
  "f_exception (snd (submit_all refuses r cs f)) = f_exception f" "f_callbacks (snd (submit_all refuses r cs f)) = f_callbacks f"
  "f_waiting (snd (submit_all refuses r cs f)) = f_waiting f" "f_woken (snd (submit_all refuses r cs f)) = f_woken f"
  using submit_all_jobs [of refuses r cs f] by auto

lemma submit_all_accepted:
  "submit_all (\<lambda>_. None) r cs f = (Inr (), f\<lparr>f_jobs := f_jobs f @ map (\<lambda>(cb, ex). (ex, cb, r)) cs\<rparr>)"
  by (induction cs arbitrary: f) (auto simp: bindM_def submit_def)

lemma notify_all_fields [simp]:
  "resultReady (notify_all f) = resultReady f" "exceptionReady (notify_all f) = exceptionReady f" "cancelled (notify_all f) = cancelled f"
  "sharedObject (notify_all f) = sharedObject f" "f_exception (notify_all f) = f_exception f" "f_callbacks (notify_all f) = f_callbacks f"
  "f_jobs (notify_all f) = f_jobs f" "f_waiting (notify_all f) = []"
  by (simp_all add: notify_all_def)

lemmas waiting_defs = task_get_def get_loop_def waitFor_loop_def timed_get_loop_def raise_exception_def

text \<open>The calls that wait change nothing but who waits.\<close>

definition core :: "('t, 'v, 'x, 'cb, 'ex) task_future \<Rightarrow> ('t, 'v, 'x, 'cb, 'ex) task_future" where
  "core f = f\<lparr>f_waiting := [], f_woken := []\<rparr>"

lemma core_update [simp]: "core (f\<lparr>f_waiting := u\<rparr>) = core f" "core (f\<lparr>f_woken := w\<rparr>) = core f"
  by (simp_all add: core_def)

lemma core_fields:
  "core f' = core f \<Longrightarrow> settled f' = settled f \<and> task_isCancelled f' = task_isCancelled f \<and> f_callbacks f' = f_callbacks f \<and> f_jobs f' = f_jobs f"
  by (cases f; cases f') (simp add: core_def settled_def task_isCancelled_def)

lemma waiting_frame:
  "task_get t f = (a, f') \<Longrightarrow> core f' = core f" "waitFor_loop t endTime now f = (a, f') \<Longrightarrow> core f' = core f"
  "timed_get_loop t endTime now f = (a, f') \<Longrightarrow> core f' = core f" "get_loop t f = (a, f') \<Longrightarrow> core f' = core f"
  by (auto simp: task_get_def get_loop_def waitFor_loop_def timed_get_loop_def split: if_splits)

lemma go_on_frame: "go_on t p now f = (a, f') \<Longrightarrow> core f' = core f"
  by (cases p) (auto dest: waiting_frame)

definition completes :: "('t, 'v, 'x, 'cb, 'ex) task_call \<Rightarrow> bool" where
  "completes c \<longleftrightarrow> (case c of Set_value _ \<Rightarrow> True | Set_exception _ \<Rightarrow> True | And_then _ _ \<Rightarrow> True | Cancel \<Rightarrow> True | _ \<Rightarrow> False)"

lemma perform_frame:
  assumes "perform refuses c now f = (a, f')" "\<not> completes c"
  shows "core f' = core f"
  using assms by (cases c) (auto simp: completes_def dest: waiting_frame go_on_frame)

lemma core_ok: "core f' = core f \<Longrightarrow> future_ok f' = future_ok f"
  by (cases f; cases f') (simp add: core_def future_ok_def)

lemma completes_cases:
  assumes "completes c"
  obtains v where "c = Set_value v" | x where "c = Set_exception x" | cb ex where "c = And_then cb ex" | "c = Cancel"
  using assms by (cases c) (auto simp: completes_def)

definition answer_ok :: "('t, 'v, 'x, 'cb, 'ex) task_future \<Rightarrow> ('v, 'x) task_answer \<Rightarrow> bool" where
  "answer_ok f a \<longleftrightarrow> (case a of Gets r \<Rightarrow> settled f = Some r | Crashes e \<Rightarrow> False | _ \<Rightarrow> True)"

lemma answers_ok:
  assumes "future_ok f"
  shows "task_get t f = (a, f') \<Longrightarrow> answer_ok f a" "get_loop t f = (a, f') \<Longrightarrow> answer_ok f a"
    "waitFor_loop t endTime now f = (a, f') \<Longrightarrow> answer_ok f a" "timed_get_loop t endTime now f = (a, f') \<Longrightarrow> answer_ok f a"
  using assms by (auto simp: waiting_defs answer_ok_def future_ok_def settled_def split: if_splits option.splits)

lemma go_on_ok: "future_ok f \<Longrightarrow> go_on t p now f = (a, f') \<Longrightarrow> answer_ok f a"
  by (cases p) (auto dest: answers_ok)

lemma perform_answers:
  assumes "future_ok f" "perform refuses c now f = (a, f')"
  shows "answer_ok f a"
proof (cases c)
  case (Go_on t p)
  let ?f = "f\<lparr>f_woken := remove1 (t, p) (f_woken f)\<rparr>"
  have "future_ok ?f" using assms(1) core_ok [of ?f f] by simp
  then have "answer_ok ?f a" using go_on_ok assms(2) Go_on by auto
  moreover have "settled ?f = settled f" by (simp add: settled_def)
  ultimately show ?thesis by (cases a) (simp_all add: answer_ok_def)
qed (use assms answers_ok [OF assms(1)] in \<open>auto simp: answer_ok_def\<close>)

lemma perform_completes:
  assumes "future_ok f" "perform refuses c now f = (a, f')" "completes c"
  shows "future_ok f' \<and> (settled f \<noteq> None \<longrightarrow> settled f' = settled f)"
  using assms(3)
proof (cases rule: completes_cases)
  case (1 v)
  then show ?thesis using assms(1,2)
    by (cases "cancelled f"; cases "exceptionReady f \<or> resultReady f") (auto simp: set_value_def future_ok_def settled_def)
next
  case (2 x)
  then show ?thesis using assms(1,2)
    by (cases "cancelled f"; cases "exceptionReady f \<or> resultReady f") (auto simp: set_exception_def future_ok_def settled_def)
next
  case (3 cb ex)
  then show ?thesis
    using assms(1,2) by (cases "resultReady f"; cases "exceptionReady f") (auto simp: task_andThen_def future_ok_def settled_def)
next
  case 4
  then show ?thesis using assms(1,2) by (auto simp: task_cancel_def future_ok_def settled_def)
qed

lemma perform_settles:
  assumes "future_ok f" "perform refuses c now f = (a, f')"
  shows "future_ok f' \<and> (settled f \<noteq> None \<longrightarrow> settled f' = settled f) \<and> answer_ok f a"
proof (cases "completes c")
  case False
  then show ?thesis
    using core_fields core_ok perform_frame [OF assms(2)] perform_answers [OF assms] assms(1) by metis
qed (use perform_completes [OF assms] perform_answers [OF assms] in blast)

lemma future_run_ok:
  "future_run refuses f es f' \<Longrightarrow> future_ok f \<Longrightarrow> future_ok f' \<and> (settled f \<noteq> None \<longrightarrow> settled f' = settled f)
    \<and> (\<forall>(c, a) \<in> set es. (\<forall>r. a = Gets r \<longrightarrow> settled f' = Some r) \<and> (\<forall>e. a \<noteq> Crashes e))"
proof (induction rule: future_run.induct)
  case (run_snoc f es f' c now a f'')
  have p: "future_ok f''" "settled f' \<noteq> None \<longrightarrow> settled f'' = settled f'" "answer_ok f' a"
    using perform_settles [OF _ run_snoc(3)] run_snoc by blast+
  from p(3) have "\<forall>r. a = Gets r \<longrightarrow> settled f' = Some r" "\<forall>e. a \<noteq> Crashes e" by (auto simp: answer_ok_def)
  then show ?case using run_snoc p(1,2) by auto
qed simp

lemma future_ok_new: "future_ok Future_new" "settled Future_new = None"
  by (simp_all add: future_ok_def settled_def Future_new_def)

text \<open>Claim C22: whatever the order of the calls, a task's future settles once: every \<open>get\<close> that returns gives the one value or
  exception the future has from then on, a future is done exactly when it has one, a cancelled future has the exception of its
  cancellation, and no call meets an invalid state.
\<close>

theorem task_future_settles_once:
  assumes "future_run refuses Future_new es f"
  shows "(\<forall>(c, a) \<in> set es. (\<forall>r. a = Gets r \<longrightarrow> settled f = Some r) \<and> (\<forall>e. a \<noteq> Crashes e))
    \<and> (task_isDone f \<longleftrightarrow> settled f \<noteq> None) \<and> (task_isCancelled f \<longrightarrow> settled f = Some (Inl CancellationException))"
  using future_run_ok [OF assms future_ok_new(1)]
  by (auto simp: task_isDone_def task_isCancelled_def future_ok_def settled_def split: if_splits)

section \<open>Callbacks\<close>

definition registers :: "('t, 'v, 'x, 'cb, 'ex) task_call \<Rightarrow> ('cb \<times> 'ex) list" where
  "registers c = (case c of And_then cb ex \<Rightarrow> [(cb, ex)] | _ \<Rightarrow> [])"

definition jobs_for :: "('v, 'x) task_outcome \<Rightarrow> ('cb \<times> 'ex) list \<Rightarrow> ('ex \<times> 'cb \<times> ('v, 'x) task_outcome) list" where
  "jobs_for r cs = map (\<lambda>(cb, ex). (ex, cb, r)) cs"

definition callbacks_kept :: "('t, 'v, 'x, 'cb, 'ex) task_call \<Rightarrow> ('t, 'v, 'x, 'cb, 'ex) task_future \<Rightarrow> ('t, 'v, 'x, 'cb, 'ex) task_future \<Rightarrow> bool" where
  "callbacks_kept c f f' \<longleftrightarrow> (case settled f of
     Some r \<Rightarrow> f_callbacks f' = f_callbacks f \<and> f_jobs f' = f_jobs f @ jobs_for r (registers c) \<and> task_isCancelled f' = task_isCancelled f
   | None \<Rightarrow> (case settled f' of
       None \<Rightarrow> f_jobs f' = f_jobs f \<and> f_callbacks f' = f_callbacks f @ registers c
     | Some r \<Rightarrow> registers c = [] \<and> f_callbacks f' = f_callbacks f
         \<and> f_jobs f' = f_jobs f @ (if task_isCancelled f' then [] else jobs_for r (f_callbacks f))))"

lemmas callback_defs = callbacks_kept_def future_ok_def settled_def registers_def jobs_for_def task_isCancelled_def

lemma perform_callbacks:
  assumes "future_ok f" "perform (\<lambda>_. None) c now f = (a, f')"
  shows "callbacks_kept c f f'"
proof (cases "completes c")
  case False
  note same = core_fields [OF perform_frame [OF assms(2) False]]
  have "registers c = []" using False by (auto simp: completes_def registers_def split: task_call.splits)
  then show ?thesis using same by (auto simp: callbacks_kept_def jobs_for_def split: option.splits)
next
  case True
  then show ?thesis
  proof (cases rule: completes_cases)
    case 1
    then show ?thesis using assms by (auto simp: callback_defs set_value_def submit_all_accepted notify_all_def)
  next
    case 2
    then show ?thesis using assms by (auto simp: callback_defs set_exception_def submit_all_accepted notify_all_def)
  next
    case 3
    then show ?thesis using assms by (cases "resultReady f"; cases "exceptionReady f") (auto simp: callback_defs task_andThen_def submit_def)
  next
    case 4
    then show ?thesis using assms by (auto simp: callback_defs task_cancel_def)
  qed
qed

text \<open>Claim C23: over executors that take every job, a callback is handed to its executor exactly once, with the value or exception
  of the future, in the order of registration, whether it was registered before or after the completion; unless the future
  is cancelled: the callbacks registered before are then never run, those registered after get the exception.
\<close>

theorem task_callbacks_run_once:
  fixes f :: "('t, 'v, 'x, 'cb, 'ex) task_future"
  assumes "future_run (\<lambda>_. None) Future_new es f"
  shows "(settled f = None \<longrightarrow> f_jobs f = [])
    \<and> (\<forall>r. settled f = Some r \<and> \<not> task_isCancelled f \<longrightarrow> f_jobs f = jobs_for r (concat (map (registers \<circ> fst) es)))
    \<and> (task_isCancelled f \<longrightarrow> (\<exists>later. concat (map (registers \<circ> fst) es) = f_callbacks f @ later
        \<and> f_jobs f = jobs_for (Inl CancellationException) later))"
proof -
  have "(settled f = None \<longrightarrow> f_jobs f = [] \<and> f_callbacks f = concat (map (registers \<circ> fst) es))
    \<and> (\<forall>r. settled f = Some r \<and> \<not> task_isCancelled f \<longrightarrow> f_jobs f = jobs_for r (concat (map (registers \<circ> fst) es)))
    \<and> (task_isCancelled f \<longrightarrow> (\<exists>later. concat (map (registers \<circ> fst) es) = f_callbacks f @ later
        \<and> f_jobs f = jobs_for (Inl CancellationException) later))"
    using assms
  proof (induction "Future_new :: ('t, 'v, 'x, 'cb, 'ex) task_future" es f rule: future_run.induct)
    case run_nil
    show ?case by (auto simp: Future_new_def settled_def task_isCancelled_def)
  next
    case (run_snoc es f' c now a f'')
    have ok: "future_ok f'" "future_ok f''"
      using future_run_ok [OF run_snoc(1) future_ok_new(1)] perform_settles [OF _ run_snoc(4)] by blast+
    have canc: "task_isCancelled f \<Longrightarrow> future_ok f \<Longrightarrow> settled f = Some (Inl CancellationException)" for f :: "('t, 'v, 'x, 'cb, 'ex) task_future"
      by (auto simp: task_isCancelled_def future_ok_def settled_def)
    note kept = perform_callbacks [OF ok(1) run_snoc(4), unfolded callbacks_kept_def]
    show ?case
    proof (cases "settled f'")
      case None
      then have "\<not> task_isCancelled f'" using canc ok by auto
      with None show ?thesis
        using kept run_snoc(2) canc [OF _ ok(2)] by (cases "settled f''") (auto simp: jobs_for_def split: if_splits)
    next
      case (Some r)
      then have "settled f'' = Some r" using perform_settles [OF ok(1) run_snoc(4)] by simp
      with Some show ?thesis
        using kept run_snoc(2) canc [OF _ ok(1)] by (cases "task_isCancelled f'") (auto simp: jobs_for_def)
    qed
  qed
  then show ?thesis by blast
qed

section \<open>Cancellation and timeouts\<close>

definition is_wake :: "('t, 'v, 'x, 'cb, 'ex) task_call \<Rightarrow> bool" where
  "is_wake c \<longleftrightarrow> (case c of Wake _ _ \<Rightarrow> True | _ \<Rightarrow> False)"

lemma waiting_grows:
  "task_get t f = (a, f') \<Longrightarrow> set (f_waiting f) \<subseteq> set (f_waiting f')" "get_loop t f = (a, f') \<Longrightarrow> set (f_waiting f) \<subseteq> set (f_waiting f')"
  "waitFor_loop t endTime now f = (a, f') \<Longrightarrow> set (f_waiting f) \<subseteq> set (f_waiting f')"
  "timed_get_loop t endTime now f = (a, f') \<Longrightarrow> set (f_waiting f) \<subseteq> set (f_waiting f')"
  by (auto simp: task_get_def get_loop_def waitFor_loop_def timed_get_loop_def split: if_splits)

lemma perform_keeps_waiting:
  assumes "perform refuses c now f = (a, f')" "\<not> is_wake c" "exceptionReady f"
  shows "set (f_waiting f) \<subseteq> set (f_waiting f')"
proof (cases c)
  case (Go_on t p)
  then show ?thesis using assms(1) by (cases p) (force dest: waiting_grows)+
next
  case (And_then cb ex)
  then show ?thesis using assms by (cases "f_exception f"; cases "resultReady f") (auto simp: task_andThen_def)
qed (use assms in \<open>auto simp: is_wake_def set_value_def set_exception_def task_cancel_def dest: waiting_grows\<close>)

text \<open>Cancelling a future wakes nobody and runs no callback: the threads that wait in \<open>get\<close> when it is cancelled stay
  asleep, whatever is called afterwards, until the condition variable wakes them by itself, and the callbacks registered before are
  not handed to an executor, although the future is done.
\<close>

theorem cancel_strands_waiters:
  fixes f :: "('t, 'v, 'x, 'cb, 'ex) task_future"
  assumes "future_ok f" "\<not> task_isDone f" "future_run (\<lambda>_. None) (snd (task_cancel f)) es f'" "\<forall>(c, a) \<in> set es. \<not> is_wake c"
  shows "task_isDone f' \<and> set (f_waiting f) \<subseteq> set (f_waiting f') \<and> f_callbacks f' = f_callbacks f
    \<and> f_jobs f' = f_jobs f @ jobs_for (Inl CancellationException) (concat (map (registers \<circ> fst) es))"
proof -
  let ?f = "snd (task_cancel f)" and ?r = "Inl CancellationException :: ('v, 'x) task_outcome"
  have f: "future_ok ?f" "settled ?f = Some ?r" "f_waiting ?f = f_waiting f" "f_callbacks ?f = f_callbacks f" "f_jobs ?f = f_jobs f"
    using assms(1,2) by (auto simp: task_cancel_def task_isDone_def future_ok_def settled_def)
  from assms(3,4) f have "future_ok f' \<and> settled f' = Some ?r \<and> set (f_waiting f) \<subseteq> set (f_waiting f')
    \<and> f_callbacks f' = f_callbacks f \<and> f_jobs f' = f_jobs f @ jobs_for ?r (concat (map (registers \<circ> fst) es))"
  proof (induction ?f es f' rule: future_run.induct)
    case run_nil
    then show ?case by (simp add: jobs_for_def)
  next
    case (run_snoc es f' c now a f'')
    then have IH: "future_ok f'" "settled f' = Some ?r" "set (f_waiting f) \<subseteq> set (f_waiting f')" "f_callbacks f' = f_callbacks f"
      "f_jobs f' = f_jobs f @ jobs_for ?r (concat (map (registers \<circ> fst) es))" "\<not> is_wake c" by auto
    have "exceptionReady f'" using IH(1,2) by (auto simp: future_ok_def settled_def split: if_splits)
    note w = perform_keeps_waiting [OF run_snoc(4) IH(6) this]
    have s: "future_ok f''" "settled f'' = Some ?r" using perform_settles [OF IH(1) run_snoc(4)] IH(2) by simp_all
    have "callbacks_kept c f' f''" by (rule perform_callbacks [OF IH(1) run_snoc(4)])
    then show ?case using IH w s by (auto simp: callbacks_kept_def jobs_for_def)
  qed
  then show ?thesis by (auto simp: task_isDone_def settled_def future_ok_def split: if_splits)
qed

text \<open>
  A \<open>get\<close> with a timeout does not time out: when the time is over and the future is not done, it goes on to wait in the
  \<open>get\<close> without one.
\<close>

lemma timed_get_waits_on:
  assumes "\<not> task_isDone f" "endTime \<le> now" "timed_get_loop t endTime now f = (a, f1)"
    and "go_on t Before_get now' (f1\<lparr>f_woken := remove1 (t, Before_get) (f_woken f1)\<rparr>) = (b, f2)"
  shows "b = Sleeps \<and> f2 = f\<lparr>f_waiting := f_waiting f @ [(t, In_get)]\<rparr>"
  using assms by (auto simp: task_isDone_def timed_get_loop_def task_get_def get_loop_def)

text \<open>The adaptor settles the future with what its task gives, unless the future is settled already.\<close>

lemma adaptor_settles:
  assumes "future_ok f" "\<not> task_isDone f"
  shows "settled (snd (adaptor_run refuses thrown call f)) = Some (case call of Inl x \<Rightarrow> Inl (Failure x) | Inr v \<Rightarrow> Inr v)"
proof (cases call)
  case (Inl x)
  then show ?thesis using assms by (simp add: adaptor_run_def set_exception_def settled_def task_isDone_def)
next
  case (Inr v)
  obtain u f' where sv: "set_value refuses v f = (u, f')" by (cases "set_value refuses v f")
  have "settled (snd (set_value refuses v f)) = Some (Inr v)" "resultReady (snd (set_value refuses v f))"
    using assms by (simp_all add: set_value_def settled_def task_isDone_def)
  then have "settled f' = Some (Inr v)" "resultReady f'" using sv by simp_all
  moreover from this have "set_exception refuses x f' = (Inr (), f')" for x by (simp add: set_exception_def)
  ultimately show ?thesis using Inr sv by (cases u) (simp_all add: adaptor_run_def)
qed

section \<open>Examples\<close>

definition example_future :: "(nat, int, nat, nat, nat) task_future" where
  "example_future = Future_new\<lparr>f_callbacks := [(5, 0)], f_waiting := [(1, In_get)]\<rparr>"

text \<open>A callback is registered, a thread waits, the value 7 arrives, the thread gets it.\<close>

definition example_trace :: "((nat, int, nat, nat, nat) task_call \<times> (int, nat) task_answer) list" where
  "example_trace = [(And_then 5 0, Sleeps), (Get 1, Sleeps), (Set_value (Some 7), Sleeps), (Go_on 1 In_get, Gets (Inr (Some 7)))]"

lemma task_example_run:
  "\<exists>f. future_run (\<lambda>_. None) Future_new example_trace f \<and> settled f = Some (Inr (Some 7)) \<and> \<not> task_isCancelled f"
proof -
  let ?r = "\<lambda>_ :: nat. None :: hz_error option"
  let ?f1 = "Future_new\<lparr>f_callbacks := [(5, 0)]\<rparr> :: (nat, int, nat, nat, nat) task_future"
  let ?f3 = "Future_new\<lparr>f_callbacks := [(5, 0)], sharedObject := Some 7, resultReady := True, f_woken := [(1, In_get)], f_jobs := [(0, 5, Inr (Some 7))]\<rparr>
    :: (nat, int, nat, nat, nat) task_future"
  have 1: "future_run ?r Future_new ([] @ [(And_then 5 0, Sleeps)]) ?f1"
    by (rule run_snoc [OF run_nil, where now = 0]) (simp_all add: task_andThen_def Future_new_def)
  have 2: "future_run ?r Future_new (([] @ [(And_then 5 0, Sleeps)]) @ [(Get 1, Sleeps)]) example_future"
    by (rule run_snoc [OF 1, where now = 0]) (simp_all add: task_get_def get_loop_def Future_new_def example_future_def)
  have 3: "future_run ?r Future_new ((([] @ [(And_then 5 0, Sleeps)]) @ [(Get 1, Sleeps)]) @ [(Set_value (Some 7), Sleeps)]) ?f3"
    by (rule run_snoc [OF 2, where now = 0])
      (simp_all add: set_value_def notify_all_def submit_all_accepted Future_new_def example_future_def)
  have "future_run ?r Future_new (((([] @ [(And_then 5 0, Sleeps)]) @ [(Get 1, Sleeps)]) @ [(Set_value (Some 7), Sleeps)]) @ [(Go_on 1 In_get, Gets (Inr (Some 7)))])
      (?f3\<lparr>f_woken := []\<rparr>)"
    by (rule run_snoc [OF 3, where now = 0]) (simp_all add: get_loop_def Future_new_def)
  then show ?thesis by (intro exI [of _ "?f3\<lparr>f_woken := []\<rparr>"]) (simp add: example_trace_def settled_def task_isCancelled_def Future_new_def)
qed

lemma task_future_settles_once_witness:
  "\<exists>f. future_run (\<lambda>_. None) Future_new example_trace f \<and> task_isDone f"
  using task_example_run task_future_settles_once by blast

lemma task_callbacks_run_once_witness:
  "\<exists>f. future_run (\<lambda>_. None) Future_new example_trace f \<and> f_jobs f = [(0, 5, Inr (Some 7))]"
proof -
  obtain f where f: "future_run (\<lambda>_. None) Future_new example_trace f" "settled f = Some (Inr (Some 7))" "\<not> task_isCancelled f" using task_example_run by blast
  from task_callbacks_run_once [OF f(1)] f show ?thesis
    by (intro exI [of _ f]) (auto simp: example_trace_def registers_def jobs_for_def)
qed

lemma cancel_strands_waiters_witness:
  "\<not> task_isDone example_future \<and> task_isDone (snd (task_cancel example_future))
    \<and> (1, In_get) \<in> set (f_waiting (snd (task_cancel example_future))) \<and> f_jobs (snd (task_cancel example_future)) = []"
proof -
  have ok: "future_ok example_future" "\<not> task_isDone example_future" "f_jobs example_future = []" "(1, In_get) \<in> set (f_waiting example_future)"
    by (simp_all add: example_future_def Future_new_def future_ok_def task_isDone_def)
  from cancel_strands_waiters [OF ok(1,2) run_nil] ok show ?thesis by (auto simp: jobs_for_def)
qed

end
