(* ===== verification/Transactions.thy ===== *)
theory Transactions
  imports Collections "HOL-Library.AList"
begin

text \<open>
  Transactions: the guard of \<open>TransactionContext.h\<close>, the conversions of \<open>proxy/TransactionalObject.h\<close> and
  the typed objects \<open>TransactionalMap.h\<close>, \<open>TransactionalMultiMap.h\<close>, \<open>TransactionalQueue.h\<close>,
  \<open>TransactionalList.h\<close> and \<open>TransactionalSet.h\<close> with their adaptors. Beginning, committing and rolling
  back and the messages of the untyped objects have no body in the sources; they are parameters, and
  \<open>txn_server\<close> states what a cluster promises about them: the changes of a transaction are seen only
  in it until it is committed.
\<close>

section \<open>Transactional objects\<close>

datatype TxnState = NO_TXN | ACTIVE | PREPARING | PREPARED | COMMITTING | COMMITTED | COMMIT_FAILED | ROLLING_BACK | ROLLED_BACK

definition txn_toObjectCollection :: "('d \<Rightarrow> 'k option res) \<Rightarrow> 'd list \<Rightarrow> 'k list res" where
  "txn_toObjectCollection toObj keyDataSet = mapR (\<lambda>d. bindR (toObj d) deref_ptr) keyDataSet"

text \<open>The messages of \<open>TransactionalMapImpl\<close>; \<open>'q\<close> are predicates.\<close>

record ('s, 'd, 'q) tmap_impl =
  ti_containsKey :: "'d \<Rightarrow> ('s, bool) comp"
  ti_getData :: "'d \<Rightarrow> ('s, 'd option) comp"
  ti_size :: "('s, int) comp"
  ti_isEmpty :: "('s, bool) comp"
  ti_putData :: "'d \<Rightarrow> 'd \<Rightarrow> ('s, 'd option) comp"
  ti_set :: "'d \<Rightarrow> 'd \<Rightarrow> ('s, unit) comp"
  ti_putIfAbsentData :: "'d \<Rightarrow> 'd \<Rightarrow> ('s, 'd option) comp"
  ti_replaceData :: "'d \<Rightarrow> 'd \<Rightarrow> ('s, 'd option) comp"
  ti_replace :: "'d \<Rightarrow> 'd \<Rightarrow> 'd \<Rightarrow> ('s, bool) comp"
  ti_removeData :: "'d \<Rightarrow> ('s, 'd option) comp"
  ti_deleteEntry :: "'d \<Rightarrow> ('s, unit) comp"
  ti_remove :: "'d \<Rightarrow> 'd \<Rightarrow> ('s, bool) comp"
  ti_keySetData :: "'q option \<Rightarrow> ('s, 'd list) comp"
  ti_valuesData :: "'q option \<Rightarrow> ('s, 'd list) comp"

record ('s, 'd) tmultimap_impl =
  tmi_put :: "'d \<Rightarrow> 'd \<Rightarrow> ('s, bool) comp"
  tmi_getData :: "'d \<Rightarrow> ('s, 'd list) comp"
  tmi_remove :: "'d \<Rightarrow> 'd \<Rightarrow> ('s, bool) comp"
  tmi_removeData :: "'d \<Rightarrow> ('s, 'd list) comp"
  tmi_valueCount :: "'d \<Rightarrow> ('s, int) comp"
  tmi_size :: "('s, int) comp"

record ('s, 'd) tqueue_impl =
  tqi_offer :: "'d \<Rightarrow> int \<Rightarrow> ('s, bool) comp"
  tqi_pollData :: "int \<Rightarrow> ('s, 'd option) comp"
  tqi_size :: "('s, int) comp"

record ('s, 'd) tbag_impl =
  tbi_add :: "'d \<Rightarrow> ('s, bool) comp"
  tbi_remove :: "'d \<Rightarrow> ('s, bool) comp"
  tbi_size :: "('s, int) comp"

subsection \<open>TransactionalMap\<close>

definition tm_containsKey :: "('s, 'd, 'q) tmap_impl \<Rightarrow> ('k \<Rightarrow> 'd res) \<Rightarrow> 'k \<Rightarrow> ('s, bool) comp" where
  "tm_containsKey impl kd key = bindM (liftR (kd key)) (\<lambda>k. ti_containsKey impl k)"

definition tm_get :: "('s, 'd, 'q) tmap_impl \<Rightarrow> ('k \<Rightarrow> 'd res) \<Rightarrow> ('d \<Rightarrow> 'v option res) \<Rightarrow> 'k \<Rightarrow> ('s, 'v option) comp" where
  "tm_get impl kd toObj key = bindM (liftR (kd key)) (\<lambda>k. bindM (ti_getData impl k) (\<lambda>r. liftR (toObject_auto toObj r)))"

definition tm_size :: "('s, 'd, 'q) tmap_impl \<Rightarrow> ('s, int) comp" where
  "tm_size impl = ti_size impl"

definition tm_isEmpty :: "('s, 'd, 'q) tmap_impl \<Rightarrow> ('s, bool) comp" where
  "tm_isEmpty impl = ti_isEmpty impl"

definition tm_put :: "('s, 'd, 'q) tmap_impl \<Rightarrow> ('k \<Rightarrow> 'd res) \<Rightarrow> ('v \<Rightarrow> 'd res) \<Rightarrow> ('d \<Rightarrow> 'v option res) \<Rightarrow> 'k \<Rightarrow> 'v \<Rightarrow> ('s, 'v option) comp" where
  "tm_put impl kd vd toObj key v = bindM (liftR (kd key)) (\<lambda>k. bindM (liftR (vd v)) (\<lambda>x. bindM (ti_putData impl k x) (\<lambda>r. liftR (toObject_auto toObj r))))"

definition tm_putIfAbsent :: "('s, 'd, 'q) tmap_impl \<Rightarrow> ('k \<Rightarrow> 'd res) \<Rightarrow> ('v \<Rightarrow> 'd res) \<Rightarrow> ('d \<Rightarrow> 'v option res) \<Rightarrow> 'k \<Rightarrow> 'v \<Rightarrow> ('s, 'v option) comp" where
  "tm_putIfAbsent impl kd vd toObj key v = bindM (liftR (kd key)) (\<lambda>k. bindM (liftR (vd v)) (\<lambda>x. bindM (ti_putIfAbsentData impl k x) (\<lambda>r. liftR (toObject_auto toObj r))))"

definition tm_replace :: "('s, 'd, 'q) tmap_impl \<Rightarrow> ('k \<Rightarrow> 'd res) \<Rightarrow> ('v \<Rightarrow> 'd res) \<Rightarrow> ('d \<Rightarrow> 'v option res) \<Rightarrow> 'k \<Rightarrow> 'v \<Rightarrow> ('s, 'v option) comp" where
  "tm_replace impl kd vd toObj key v = bindM (liftR (kd key)) (\<lambda>k. bindM (liftR (vd v)) (\<lambda>x. bindM (ti_replaceData impl k x) (\<lambda>r. liftR (toObject_auto toObj r))))"

definition tm_set :: "('s, 'd, 'q) tmap_impl \<Rightarrow> ('k \<Rightarrow> 'd res) \<Rightarrow> ('v \<Rightarrow> 'd res) \<Rightarrow> 'k \<Rightarrow> 'v \<Rightarrow> ('s, unit) comp" where
  "tm_set impl kd vd key v = bindM (liftR (kd key)) (\<lambda>k. bindM (liftR (vd v)) (\<lambda>x. ti_set impl k x))"

definition tm_replace_if :: "('s, 'd, 'q) tmap_impl \<Rightarrow> ('k \<Rightarrow> 'd res) \<Rightarrow> ('v \<Rightarrow> 'd res) \<Rightarrow> 'k \<Rightarrow> 'v \<Rightarrow> 'v \<Rightarrow> ('s, bool) comp" where
  "tm_replace_if impl kd vd key v newValue = bindM (liftR (kd key)) (\<lambda>k. bindM (liftR (vd v)) (\<lambda>x. bindM (liftR (vd newValue)) (\<lambda>y. ti_replace impl k x y)))"

definition tm_remove :: "('s, 'd, 'q) tmap_impl \<Rightarrow> ('k \<Rightarrow> 'd res) \<Rightarrow> ('d \<Rightarrow> 'v option res) \<Rightarrow> 'k \<Rightarrow> ('s, 'v option) comp" where
  "tm_remove impl kd toObj key = bindM (liftR (kd key)) (\<lambda>k. bindM (ti_removeData impl k) (\<lambda>r. liftR (toObject_auto toObj r)))"

definition tm_deleteEntry :: "('s, 'd, 'q) tmap_impl \<Rightarrow> ('k \<Rightarrow> 'd res) \<Rightarrow> 'k \<Rightarrow> ('s, unit) comp" where
  "tm_deleteEntry impl kd key = bindM (liftR (kd key)) (\<lambda>k. ti_deleteEntry impl k)"

definition tm_remove_if :: "('s, 'd, 'q) tmap_impl \<Rightarrow> ('k \<Rightarrow> 'd res) \<Rightarrow> ('v \<Rightarrow> 'd res) \<Rightarrow> 'k \<Rightarrow> 'v \<Rightarrow> ('s, bool) comp" where
  "tm_remove_if impl kd vd key v = bindM (liftR (kd key)) (\<lambda>k. bindM (liftR (vd v)) (\<lambda>x. ti_remove impl k x))"

definition tm_keySet :: "('s, 'd, 'q) tmap_impl \<Rightarrow> ('d \<Rightarrow> 'k option res) \<Rightarrow> 'q option \<Rightarrow> ('s, 'k list) comp" where
  "tm_keySet impl toKey predicate = bindM (ti_keySetData impl predicate) (\<lambda>ds. liftR (txn_toObjectCollection toKey ds))"

text \<open>
  \<open>values\<close> converts with the key type: \<open>toObjectCollection<K>\<close>. It can be instantiated only where a
  vector of keys is a vector of values.
\<close>

definition tm_values :: "('s, 'd, 'q) tmap_impl \<Rightarrow> ('d \<Rightarrow> 'k option res) \<Rightarrow> 'q option \<Rightarrow> ('s, 'k list) comp" where
  "tm_values impl toKey predicate = bindM (ti_valuesData impl predicate) (\<lambda>ds. liftR (txn_toObjectCollection toKey ds))"

subsection \<open>The other typed objects\<close>

definition tmm_put :: "('s, 'd) tmultimap_impl \<Rightarrow> ('k \<Rightarrow> 'd res) \<Rightarrow> ('v \<Rightarrow> 'd res) \<Rightarrow> 'k \<Rightarrow> 'v \<Rightarrow> ('s, bool) comp" where
  "tmm_put impl kd vd key v = bindM (liftR (kd key)) (\<lambda>k. bindM (liftR (vd v)) (\<lambda>x. tmi_put impl k x))"

definition tmm_get :: "('s, 'd) tmultimap_impl \<Rightarrow> ('k \<Rightarrow> 'd res) \<Rightarrow> ('d \<Rightarrow> 'v option res) \<Rightarrow> 'k \<Rightarrow> ('s, 'v list) comp" where
  "tmm_get impl kd toObj key = bindM (liftR (kd key)) (\<lambda>k. bindM (tmi_getData impl k) (\<lambda>ds. liftR (txn_toObjectCollection toObj ds)))"

definition tmm_remove :: "('s, 'd) tmultimap_impl \<Rightarrow> ('k \<Rightarrow> 'd res) \<Rightarrow> ('v \<Rightarrow> 'd res) \<Rightarrow> 'k \<Rightarrow> 'v \<Rightarrow> ('s, bool) comp" where
  "tmm_remove impl kd vd key v = bindM (liftR (kd key)) (\<lambda>k. bindM (liftR (vd v)) (\<lambda>x. tmi_remove impl k x))"

definition tmm_remove_key :: "('s, 'd) tmultimap_impl \<Rightarrow> ('k \<Rightarrow> 'd res) \<Rightarrow> ('d \<Rightarrow> 'v option res) \<Rightarrow> 'k \<Rightarrow> ('s, 'v list) comp" where
  "tmm_remove_key impl kd toObj key = bindM (liftR (kd key)) (\<lambda>k. bindM (tmi_removeData impl k) (\<lambda>ds. liftR (txn_toObjectCollection toObj ds)))"

definition tmm_valueCount :: "('s, 'd) tmultimap_impl \<Rightarrow> ('k \<Rightarrow> 'd res) \<Rightarrow> 'k \<Rightarrow> ('s, int) comp" where
  "tmm_valueCount impl kd key = bindM (liftR (kd key)) (\<lambda>k. tmi_valueCount impl k)"

definition tmm_size :: "('s, 'd) tmultimap_impl \<Rightarrow> ('s, int) comp" where
  "tmm_size impl = tmi_size impl"

definition tq_offer_timed :: "('s, 'd) tqueue_impl \<Rightarrow> ('v \<Rightarrow> 'd res) \<Rightarrow> 'v \<Rightarrow> int \<Rightarrow> ('s, bool) comp" where
  "tq_offer_timed impl vd e timeoutInMillis = bindM (liftR (vd e)) (\<lambda>x. tqi_offer impl x timeoutInMillis)"

definition tq_offer :: "('s, 'd) tqueue_impl \<Rightarrow> ('v \<Rightarrow> 'd res) \<Rightarrow> 'v \<Rightarrow> ('s, bool) comp" where
  "tq_offer impl vd e = tq_offer_timed impl vd e 0"

definition tq_poll_timed :: "('s, 'd) tqueue_impl \<Rightarrow> ('d \<Rightarrow> 'v option res) \<Rightarrow> int \<Rightarrow> ('s, 'v option) comp" where
  "tq_poll_timed impl toObj timeoutInMillis = bindM (tqi_pollData impl timeoutInMillis) (\<lambda>r. liftR (toObject_auto toObj r))"

definition tq_poll :: "('s, 'd) tqueue_impl \<Rightarrow> ('d \<Rightarrow> 'v option res) \<Rightarrow> ('s, 'v option) comp" where
  "tq_poll impl toObj = tq_poll_timed impl toObj 0"

definition tq_size :: "('s, 'd) tqueue_impl \<Rightarrow> ('s, int) comp" where
  "tq_size impl = tqi_size impl"

definition tl_add :: "('s, 'd) tbag_impl \<Rightarrow> ('v \<Rightarrow> 'd res) \<Rightarrow> 'v \<Rightarrow> ('s, bool) comp" where
  "tl_add impl vd e = bindM (liftR (vd e)) (\<lambda>x. tbi_add impl x)"

definition tl_remove :: "('s, 'd) tbag_impl \<Rightarrow> ('v \<Rightarrow> 'd res) \<Rightarrow> 'v \<Rightarrow> ('s, bool) comp" where
  "tl_remove impl vd e = bindM (liftR (vd e)) (\<lambda>x. tbi_remove impl x)"

definition tl_size :: "('s, 'd) tbag_impl \<Rightarrow> ('s, int) comp" where
  "tl_size impl = tbi_size impl"

definition ts_add :: "('s, 'd) tbag_impl \<Rightarrow> ('v \<Rightarrow> 'd res) \<Rightarrow> 'v \<Rightarrow> ('s, bool) comp" where
  "ts_add impl vd e = bindM (liftR (vd e)) (\<lambda>x. tbi_add impl x)"

definition ts_remove :: "('s, 'd) tbag_impl \<Rightarrow> ('v \<Rightarrow> 'd res) \<Rightarrow> 'v \<Rightarrow> ('s, bool) comp" where
  "ts_remove impl vd e = bindM (liftR (vd e)) (\<lambda>x. tbi_remove impl x)"

definition ts_size :: "('s, 'd) tbag_impl \<Rightarrow> ('s, int) comp" where
  "ts_size impl = tbi_size impl"

subsection \<open>Adaptors\<close>

definition rtm_get :: "('s, 'd, 'q) tmap_impl \<Rightarrow> ('k \<Rightarrow> 'd res) \<Rightarrow> ('d \<Rightarrow> 'v option res) \<Rightarrow> 'k \<Rightarrow> ('s, 'v option) comp" where
  "rtm_get impl kd toObj key = bindM (liftR (kd key)) (\<lambda>k. bindM (ti_getData impl k) (\<lambda>r. liftR (toObject_auto toObj r)))"

definition rtm_put :: "('s, 'd, 'q) tmap_impl \<Rightarrow> ('k \<Rightarrow> 'd res) \<Rightarrow> ('v \<Rightarrow> 'd res) \<Rightarrow> ('d \<Rightarrow> 'v option res) \<Rightarrow> 'k \<Rightarrow> 'v \<Rightarrow> ('s, 'v option) comp" where
  "rtm_put impl kd vd toObj key v = bindM (liftR (kd key)) (\<lambda>k. bindM (liftR (vd v)) (\<lambda>x. bindM (ti_putData impl k x) (\<lambda>r. liftR (toObject_auto toObj r))))"

definition rtm_putIfAbsent :: "('s, 'd, 'q) tmap_impl \<Rightarrow> ('k \<Rightarrow> 'd res) \<Rightarrow> ('v \<Rightarrow> 'd res) \<Rightarrow> ('d \<Rightarrow> 'v option res) \<Rightarrow> 'k \<Rightarrow> 'v \<Rightarrow> ('s, 'v option) comp" where
  "rtm_putIfAbsent impl kd vd toObj key v = bindM (liftR (kd key)) (\<lambda>k. bindM (liftR (vd v)) (\<lambda>x. bindM (ti_putIfAbsentData impl k x) (\<lambda>r. liftR (toObject_auto toObj r))))"

definition rtm_replace :: "('s, 'd, 'q) tmap_impl \<Rightarrow> ('k \<Rightarrow> 'd res) \<Rightarrow> ('v \<Rightarrow> 'd res) \<Rightarrow> ('d \<Rightarrow> 'v option res) \<Rightarrow> 'k \<Rightarrow> 'v \<Rightarrow> ('s, 'v option) comp" where
  "rtm_replace impl kd vd toObj key v = bindM (liftR (kd key)) (\<lambda>k. bindM (liftR (vd v)) (\<lambda>x. bindM (ti_replaceData impl k x) (\<lambda>r. liftR (toObject_auto toObj r))))"

definition rtm_remove :: "('s, 'd, 'q) tmap_impl \<Rightarrow> ('k \<Rightarrow> 'd res) \<Rightarrow> ('d \<Rightarrow> 'v option res) \<Rightarrow> 'k \<Rightarrow> ('s, 'v option) comp" where
  "rtm_remove impl kd toObj key = bindM (liftR (kd key)) (\<lambda>k. bindM (ti_removeData impl k) (\<lambda>r. liftR (toObject_auto toObj r)))"

definition rtm_keySet :: "('s, 'd, 'q) tmap_impl \<Rightarrow> 'q option \<Rightarrow> ('s, ('d, 'k) data_array) comp" where
  "rtm_keySet impl predicate = bindM (ti_keySetData impl predicate) (\<lambda>ds. retM (DataArray_new ds))"

definition rtm_values :: "('s, 'd, 'q) tmap_impl \<Rightarrow> 'q option \<Rightarrow> ('s, ('d, 'v) data_array) comp" where
  "rtm_values impl predicate = bindM (ti_valuesData impl predicate) (\<lambda>ds. retM (DataArray_new ds))"

text \<open>The values of a key, in an array of the key type.\<close>

definition rtmm_get :: "('s, 'd) tmultimap_impl \<Rightarrow> ('k \<Rightarrow> 'd res) \<Rightarrow> 'k \<Rightarrow> ('s, ('d, 'k) data_array) comp" where
  "rtmm_get impl kd key = bindM (liftR (kd key)) (\<lambda>k. bindM (tmi_getData impl k) (\<lambda>ds. retM (DataArray_new ds)))"

definition rtmm_remove_key :: "('s, 'd) tmultimap_impl \<Rightarrow> ('k \<Rightarrow> 'd res) \<Rightarrow> 'k \<Rightarrow> ('s, ('d, 'v) data_array) comp" where
  "rtmm_remove_key impl kd key = bindM (liftR (kd key)) (\<lambda>k. bindM (tmi_removeData impl k) (\<lambda>ds. retM (DataArray_new ds)))"

definition rtq_poll_timed :: "('s, 'd) tqueue_impl \<Rightarrow> ('d \<Rightarrow> 'v option res) \<Rightarrow> int \<Rightarrow> ('s, 'v option) comp" where
  "rtq_poll_timed impl toObj timeoutInMillis = bindM (tqi_pollData impl timeoutInMillis) (\<lambda>r. liftR (toObject_auto toObj r))"

definition rtq_poll :: "('s, 'd) tqueue_impl \<Rightarrow> ('d \<Rightarrow> 'v option res) \<Rightarrow> ('s, 'v option) comp" where
  "rtq_poll impl toObj = rtq_poll_timed impl toObj 0"

section \<open>TransactionContext\<close>

text \<open>
  The cluster, the transaction's proxy included, is the state \<open>'s\<close>; \<open>objects\<close> gives the messages of the
  object of a name, which its constructor binds to the transaction.
\<close>

definition getTransactionalObject :: "('s \<Rightarrow> TxnState) \<Rightarrow> (string \<Rightarrow> 'o) \<Rightarrow> string \<Rightarrow> ('s, 'o) comp" where
  "getTransactionalObject getState objects name s =
     (if getState s \<noteq> ACTIVE then (Inl IllegalStateException, s) else (Inr (objects name), s))"

record ('s, 'd, 'q) txn_objects =
  to_map :: "string \<Rightarrow> ('s, 'd, 'q) tmap_impl"
  to_queue :: "string \<Rightarrow> ('s, 'd) tqueue_impl"
  to_multiMap :: "string \<Rightarrow> ('s, 'd) tmultimap_impl"
  to_list :: "string \<Rightarrow> ('s, 'd) tbag_impl"
  to_set :: "string \<Rightarrow> ('s, 'd) tbag_impl"

definition getMap :: "('s \<Rightarrow> TxnState) \<Rightarrow> ('s, 'd, 'q) txn_objects \<Rightarrow> string \<Rightarrow> ('s, ('s, 'd, 'q) tmap_impl) comp" where
  "getMap getState objs name = getTransactionalObject getState (to_map objs) name"

definition getQueue :: "('s \<Rightarrow> TxnState) \<Rightarrow> ('s, 'd, 'q) txn_objects \<Rightarrow> string \<Rightarrow> ('s, ('s, 'd) tqueue_impl) comp" where
  "getQueue getState objs name = getTransactionalObject getState (to_queue objs) name"

definition getMultiMap :: "('s \<Rightarrow> TxnState) \<Rightarrow> ('s, 'd, 'q) txn_objects \<Rightarrow> string \<Rightarrow> ('s, ('s, 'd) tmultimap_impl) comp" where
  "getMultiMap getState objs name = getTransactionalObject getState (to_multiMap objs) name"

definition getList :: "('s \<Rightarrow> TxnState) \<Rightarrow> ('s, 'd, 'q) txn_objects \<Rightarrow> string \<Rightarrow> ('s, ('s, 'd) tbag_impl) comp" where
  "getList getState objs name = getTransactionalObject getState (to_list objs) name"

definition getSet :: "('s \<Rightarrow> TxnState) \<Rightarrow> ('s, 'd, 'q) txn_objects \<Rightarrow> string \<Rightarrow> ('s, ('s, 'd) tbag_impl) comp" where
  "getSet getState objs name = getTransactionalObject getState (to_set objs) name"

section \<open>What a transactional map promises\<close>

datatype ('k, 'v) tmap_op =
    T_containsKey 'k | T_get 'k | T_size | T_isEmpty | T_put 'k 'v | T_set 'k 'v | T_putIfAbsent 'k 'v | T_replace 'k 'v
  | T_replace_if 'k 'v 'v | T_remove 'k | T_deleteEntry 'k | T_remove_if 'k 'v | T_keySet

datatype ('k, 'v) tmap_ans = TA_Bool bool | TA_Val "'v option" | TA_Int int | TA_Unit | TA_Keys "'k list"

definition tanswer :: "('a \<Rightarrow> ('k, 'v) tmap_ans) \<Rightarrow> ('s, 'a) comp \<Rightarrow> ('s, ('k, 'v) tmap_ans) comp" where
  "tanswer f c = bindM c (\<lambda>a. retM (f a))"

text \<open>A call of the typed map, and the same call of the untyped one.\<close>

fun tm_call :: "('s, 'd, 'q) tmap_impl \<Rightarrow> ('k \<Rightarrow> 'd res) \<Rightarrow> ('v \<Rightarrow> 'd res) \<Rightarrow> ('d \<Rightarrow> 'k option res) \<Rightarrow> ('d \<Rightarrow> 'v option res) \<Rightarrow>
    ('k, 'v) tmap_op \<Rightarrow> ('s, ('k, 'v) tmap_ans) comp" where
  "tm_call impl kd vd toKey toObj (T_containsKey k) = tanswer TA_Bool (tm_containsKey impl kd k)"
| "tm_call impl kd vd toKey toObj (T_get k) = tanswer TA_Val (tm_get impl kd toObj k)"
| "tm_call impl kd vd toKey toObj T_size = tanswer TA_Int (tm_size impl)"
| "tm_call impl kd vd toKey toObj T_isEmpty = tanswer TA_Bool (tm_isEmpty impl)"
| "tm_call impl kd vd toKey toObj (T_put k v) = tanswer TA_Val (tm_put impl kd vd toObj k v)"
| "tm_call impl kd vd toKey toObj (T_set k v) = tanswer (\<lambda>_. TA_Unit) (tm_set impl kd vd k v)"
| "tm_call impl kd vd toKey toObj (T_putIfAbsent k v) = tanswer TA_Val (tm_putIfAbsent impl kd vd toObj k v)"
| "tm_call impl kd vd toKey toObj (T_replace k v) = tanswer TA_Val (tm_replace impl kd vd toObj k v)"
| "tm_call impl kd vd toKey toObj (T_replace_if k v w) = tanswer TA_Bool (tm_replace_if impl kd vd k v w)"
| "tm_call impl kd vd toKey toObj (T_remove k) = tanswer TA_Val (tm_remove impl kd toObj k)"
| "tm_call impl kd vd toKey toObj (T_deleteEntry k) = tanswer (\<lambda>_. TA_Unit) (tm_deleteEntry impl kd k)"
| "tm_call impl kd vd toKey toObj (T_remove_if k v) = tanswer TA_Bool (tm_remove_if impl kd vd k v)"
| "tm_call impl kd vd toKey toObj T_keySet = tanswer TA_Keys (tm_keySet impl toKey None)"

fun ti_call :: "('s, 'd, 'q) tmap_impl \<Rightarrow> ('d, 'd) tmap_op \<Rightarrow> ('s, ('d, 'd) tmap_ans) comp" where
  "ti_call impl (T_containsKey k) = tanswer TA_Bool (ti_containsKey impl k)"
| "ti_call impl (T_get k) = tanswer TA_Val (ti_getData impl k)"
| "ti_call impl T_size = tanswer TA_Int (ti_size impl)"
| "ti_call impl T_isEmpty = tanswer TA_Bool (ti_isEmpty impl)"
| "ti_call impl (T_put k v) = tanswer TA_Val (ti_putData impl k v)"
| "ti_call impl (T_set k v) = tanswer (\<lambda>_. TA_Unit) (ti_set impl k v)"
| "ti_call impl (T_putIfAbsent k v) = tanswer TA_Val (ti_putIfAbsentData impl k v)"
| "ti_call impl (T_replace k v) = tanswer TA_Val (ti_replaceData impl k v)"
| "ti_call impl (T_replace_if k v w) = tanswer TA_Bool (ti_replace impl k v w)"
| "ti_call impl (T_remove k) = tanswer TA_Val (ti_removeData impl k)"
| "ti_call impl (T_deleteEntry k) = tanswer (\<lambda>_. TA_Unit) (ti_deleteEntry impl k)"
| "ti_call impl (T_remove_if k v) = tanswer TA_Bool (ti_remove impl k v)"
| "ti_call impl T_keySet = tanswer TA_Keys (ti_keySetData impl None)"

text \<open>The same operations on a map: the map they leave and the answers they may give.\<close>

fun tmap_next :: "('k, 'v) tmap_op \<Rightarrow> ('k \<rightharpoonup> 'v) \<Rightarrow> ('k \<rightharpoonup> 'v)" where
  "tmap_next (T_put k v) m = m(k \<mapsto> v)"
| "tmap_next (T_set k v) m = m(k \<mapsto> v)"
| "tmap_next (T_putIfAbsent k v) m = (if m k = None then m(k \<mapsto> v) else m)"
| "tmap_next (T_replace k v) m = (if m k = None then m else m(k \<mapsto> v))"
| "tmap_next (T_replace_if k v w) m = (if m k = Some v then m(k \<mapsto> w) else m)"
| "tmap_next (T_remove k) m = m(k := None)"
| "tmap_next (T_deleteEntry k) m = m(k := None)"
| "tmap_next (T_remove_if k v) m = (if m k = Some v then m(k := None) else m)"
| "tmap_next _ m = m"

fun tmap_answers :: "('k, 'v) tmap_op \<Rightarrow> ('k \<rightharpoonup> 'v) \<Rightarrow> ('k, 'v) tmap_ans \<Rightarrow> bool" where
  "tmap_answers (T_containsKey k) m a = (a = TA_Bool (m k \<noteq> None))"
| "tmap_answers (T_get k) m a = (a = TA_Val (m k))"
| "tmap_answers T_size m a = (a = TA_Int (int (card (dom m))))"
| "tmap_answers T_isEmpty m a = (a = TA_Bool (dom m = {}))"
| "tmap_answers (T_put k v) m a = (a = TA_Val (m k))"
| "tmap_answers (T_set k v) m a = (a = TA_Unit)"
| "tmap_answers (T_putIfAbsent k v) m a = (a = TA_Val (m k))"
| "tmap_answers (T_replace k v) m a = (a = TA_Val (m k))"
| "tmap_answers (T_replace_if k v w) m a = (a = TA_Bool (m k = Some v))"
| "tmap_answers (T_remove k) m a = (a = TA_Val (m k))"
| "tmap_answers (T_deleteEntry k) m a = (a = TA_Unit)"
| "tmap_answers (T_remove_if k v) m a = (a = TA_Bool (m k = Some v))"
| "tmap_answers T_keySet m a = (\<exists>ks. a = TA_Keys ks \<and> distinct ks \<and> set ks = dom m)"

fun tmap_trace :: "('k, 'v) tmap_op list \<Rightarrow> ('k \<rightharpoonup> 'v) \<Rightarrow> ('k, 'v) tmap_ans list \<Rightarrow> ('k \<rightharpoonup> 'v) \<Rightarrow> bool" where
  "tmap_trace [] m [] m' = (m' = m)"
| "tmap_trace (op # ops) m (a # as) m' = (tmap_answers op m a \<and> tmap_trace ops (tmap_next op m) as m')"
| "tmap_trace _ _ _ _ = False"

section \<open>What the cluster promises\<close>

locale txn_server =
  fixes objs :: "('s, 'd, 'q) txn_objects" and begin_txn commit rollback :: "('s, unit) comp" and getState :: "'s \<Rightarrow> TxnState"
    and committed view :: "'s \<Rightarrow> string \<Rightarrow> ('d \<rightharpoonup> 'd)"
  assumes begin_law: "getState s \<noteq> ACTIVE \<Longrightarrow>
      \<exists>s'. begin_txn s = (Inr (), s') \<and> getState s' = ACTIVE \<and> committed s' = committed s \<and> view s' = committed s"
    and call_law: "getState s = ACTIVE \<Longrightarrow>
      \<exists>a s'. ti_call (to_map objs name) op s = (Inr a, s') \<and> getState s' = ACTIVE \<and> committed s' = committed s
        \<and> tmap_answers op (view s name) a \<and> view s' = (view s)(name := tmap_next op (view s name))"
    and commit_law: "getState s = ACTIVE \<Longrightarrow> \<exists>s'. commit s = (Inr (), s') \<and> getState s' = COMMITTED \<and> committed s' = view s"
    and rollback_law: "getState s = ACTIVE \<Longrightarrow>
      \<exists>s'. rollback s = (Inr (), s') \<and> getState s' = ROLLED_BACK \<and> committed s' = committed s"

text \<open>A map of serialized entries that stands for a map of keys and values.\<close>

definition encodes :: "('k \<Rightarrow> 'd) \<Rightarrow> ('k \<Rightarrow> bool) \<Rightarrow> ('v \<Rightarrow> 'd) \<Rightarrow> ('v \<Rightarrow> bool) \<Rightarrow> ('d \<rightharpoonup> 'd) \<Rightarrow> ('k \<rightharpoonup> 'v) \<Rightarrow> bool" where
  "encodes ek kvalid ev vvalid dm m \<longleftrightarrow>
     (\<forall>k. kvalid k \<longrightarrow> dm (ek k) = map_option ev (m k)) \<and> dom dm = ek ` dom m \<and> (\<forall>k \<in> dom m. kvalid k) \<and> (\<forall>v \<in> ran m. vvalid v)"

text \<open>One transaction: begin, the operations on one of its maps, and the end.\<close>

definition txn_session :: "('s \<Rightarrow> TxnState) \<Rightarrow> ('s, 'd, 'q) txn_objects \<Rightarrow> ('s, unit) comp \<Rightarrow> ('s, unit) comp \<Rightarrow>
    ('k \<Rightarrow> 'd res) \<Rightarrow> ('v \<Rightarrow> 'd res) \<Rightarrow> ('d \<Rightarrow> 'k option res) \<Rightarrow> ('d \<Rightarrow> 'v option res) \<Rightarrow> string \<Rightarrow> ('k, 'v) tmap_op list \<Rightarrow>
    ('s, ('k, 'v) tmap_ans res list) comp" where
  "txn_session getState objs begin_txn end_txn kd vd toKey toObj name ops =
     bindM begin_txn (\<lambda>_.
     bindM (getMap getState objs name) (\<lambda>impl s.
       case run_calls (tm_call impl kd vd toKey toObj) ops s of
         (rs, s') \<Rightarrow> bindM end_txn (\<lambda>_. retM rs) s'))"

section \<open>The typed map over such a cluster\<close>

lemmas tm_defs = tm_containsKey_def tm_get_def tm_size_def tm_isEmpty_def tm_put_def tm_set_def tm_putIfAbsent_def tm_replace_def
  tm_replace_if_def tm_remove_def tm_deleteEntry_def tm_remove_if_def tm_keySet_def

fun decode_tans :: "('d \<Rightarrow> 'k option res) \<Rightarrow> ('d \<Rightarrow> 'v option res) \<Rightarrow> ('d, 'd) tmap_ans \<Rightarrow> ('k, 'v) tmap_ans res" where
  "decode_tans toKey toObj (TA_Val d) = map_res TA_Val (toObject_auto toObj d)"
| "decode_tans toKey toObj (TA_Keys ds) = map_res TA_Keys (txn_toObjectCollection toKey ds)"
| "decode_tans toKey toObj (TA_Bool b) = Inr (TA_Bool b)"
| "decode_tans toKey toObj (TA_Int i) = Inr (TA_Int i)"
| "decode_tans toKey toObj TA_Unit = Inr TA_Unit"

locale typed_txn = txn_server objs begin_txn commit rollback getState committed view
    + keys: typed_elements kd toKey ek kvalid + vals: typed_elements vd toObj ev vvalid
  for objs :: "('s, 'd, 'q) txn_objects" and begin_txn commit rollback :: "('s, unit) comp" and getState :: "'s \<Rightarrow> TxnState"
    and committed view :: "'s \<Rightarrow> string \<Rightarrow> ('d \<rightharpoonup> 'd)"
    and kd :: "'k \<Rightarrow> 'd res" and toKey :: "'d \<Rightarrow> 'k option res" and ek :: "'k \<Rightarrow> 'd" and kvalid :: "'k \<Rightarrow> bool"
    and vd :: "'v \<Rightarrow> 'd res" and toObj :: "'d \<Rightarrow> 'v option res" and ev :: "'v \<Rightarrow> 'd" and vvalid :: "'v \<Rightarrow> bool"
begin

definition valid_op :: "('k, 'v) tmap_op \<Rightarrow> bool" where
  "valid_op op \<longleftrightarrow> (\<forall>k \<in> set1_tmap_op op. kvalid k) \<and> (\<forall>v \<in> set2_tmap_op op. vvalid v)"

lemma tm_call_untyped:
  assumes "valid_op op"
  shows "tm_call impl kd vd toKey toObj op s =
    (case ti_call impl (map_tmap_op ek ev op) s of (Inl e, s') \<Rightarrow> (Inl e, s') | (Inr a, s') \<Rightarrow> (decode_tans toKey toObj a, s'))"
  by (cases op)
    (use assms in \<open>simp_all add: valid_op_def tm_defs tanswer_def bindM_def retM_def liftR_def keys.to_data vals.to_data map_res_def
      split: prod.splits sum.splits\<close>)

lemma encodes_lookup: "encodes ek kvalid ev vvalid dm m \<Longrightarrow> kvalid k \<Longrightarrow> dm (ek k) = map_option ev (m k)"
  by (simp add: encodes_def)

lemma key_eq: "kvalid k \<Longrightarrow> kvalid k' \<Longrightarrow> ek k = ek k' \<longleftrightarrow> k = k'"
  using inj_onD [OF keys.enc_inj, of k k'] by auto

lemma value_eq: "vvalid v \<Longrightarrow> vvalid v' \<Longrightarrow> ev v = ev v' \<longleftrightarrow> v = v'"
  using inj_onD [OF vals.enc_inj, of v v'] by auto

lemma encodes_value_eq:
  assumes "encodes ek kvalid ev vvalid dm m" "kvalid k" "vvalid v"
  shows "dm (ek k) = Some (ev v) \<longleftrightarrow> m k = Some v"
proof (cases "m k")
  case (Some w)
  then have "vvalid w" using assms(1) by (auto simp: encodes_def ran_def)
  then show ?thesis using Some assms encodes_lookup [OF assms(1,2)] by (simp add: value_eq)
qed (simp add: encodes_lookup [OF assms(1,2)])

lemma encodes_update:
  assumes "encodes ek kvalid ev vvalid dm m" "kvalid k" "vvalid v"
  shows "encodes ek kvalid ev vvalid (dm(ek k \<mapsto> ev v)) (m(k \<mapsto> v))"
  using assms key_eq [of _ k] unfolding encodes_def by (auto simp: ran_def split: if_splits)

lemma encodes_delete:
  assumes "encodes ek kvalid ev vvalid dm m" "kvalid k"
  shows "encodes ek kvalid ev vvalid (dm(ek k := None)) (m(k := None))"
proof -
  have valid: "\<forall>x \<in> dom m. kvalid x" using assms(1) by (simp add: encodes_def)
  have "ek ` dom m - {ek k} = ek ` (dom m - {k})"
    using key_eq [OF _ assms(2)] valid by auto
  then show ?thesis
    using assms key_eq [OF _ assms(2)] unfolding encodes_def by (auto simp: ran_def)
qed

lemma encodes_next:
  assumes "encodes ek kvalid ev vvalid dm m" "valid_op op"
  shows "encodes ek kvalid ev vvalid (tmap_next (map_tmap_op ek ev op) dm) (tmap_next op m)"
  by (cases op) (use assms encodes_update [OF assms(1)] encodes_delete [OF assms(1)] encodes_lookup [OF assms(1)] encodes_value_eq [OF assms(1)]
      in \<open>auto simp: valid_op_def\<close>)

lemma encodes_dom:
  assumes "encodes ek kvalid ev vvalid dm m"
  shows "dom dm = ek ` dom m" "card (dom dm) = card (dom m)" "inj_on ek (dom m)"
proof -
  show inj: "inj_on ek (dom m)"
    using assms by (intro inj_on_subset [OF keys.enc_inj]) (auto simp: encodes_def)
  show dom: "dom dm = ek ` dom m"
    using assms by (simp add: encodes_def)
  show "card (dom dm) = card (dom m)"
    unfolding dom using inj by (rule card_image)
qed

lemma keys_decode:
  assumes "encodes ek kvalid ev vvalid dm m" "distinct ds" "set ds = dom dm"
  shows "\<exists>ks. txn_toObjectCollection toKey ds = Inr ks \<and> distinct ks \<and> set ks = dom m"
proof -
  let ?ks = "map (the_inv_into (dom m) ek) ds"
  note dom = encodes_dom [OF assms(1)]
  have "map ek ?ks = ds"
    using assms(3) dom by (auto intro!: map_idI simp: f_the_inv_into_f)
  moreover have "set ?ks = dom m"
    using assms(3) dom by (simp add: image_image the_inv_into_f_f)
  moreover have "distinct ?ks"
    using assms(2,3) dom by (simp add: distinct_map inj_on_the_inv_into)
  moreover have "\<forall>k \<in> set ?ks. kvalid k"
    using calculation(2) assms(1) unfolding encodes_def by blast
  ultimately show ?thesis
    using keys.to_object_collection [of ?ks]
    unfolding toObjectCollection_def txn_toObjectCollection_def by (metis (no_types, lifting))
qed

lemma value_decodes:
  assumes "encodes ek kvalid ev vvalid dm m" "kvalid k"
  shows "toObject_auto toObj (dm (ek k)) = Inr (m k)"
  using assms vals.to_object by (cases "m k") (auto simp: toObject_auto_def encodes_def ran_def)

lemma answer_decodes:
  assumes "encodes ek kvalid ev vvalid dm m" "valid_op op" "tmap_answers (map_tmap_op ek ev op) dm a"
  shows "\<exists>b. decode_tans toKey toObj a = Inr b \<and> tmap_answers op m b"
proof (cases op)
  case T_keySet
  then show ?thesis
    using assms(3) keys_decode [OF assms(1)] by (fastforce simp: map_res_def)
qed (use assms encodes_lookup [OF assms(1)] value_decodes [OF assms(1)] encodes_value_eq [OF assms(1)] encodes_dom [OF assms(1)]
    in \<open>auto simp: valid_op_def map_res_def\<close>)

lemma tm_call_ok:
  assumes "getState s = ACTIVE" "encodes ek kvalid ev vvalid (view s name) m" "valid_op op"
  shows "\<exists>a s'. tm_call (to_map objs name) kd vd toKey toObj op s = (Inr a, s') \<and> tmap_answers op m a \<and> getState s' = ACTIVE
    \<and> committed s' = committed s \<and> encodes ek kvalid ev vvalid (view s' name) (tmap_next op m) \<and> (\<forall>n. n \<noteq> name \<longrightarrow> view s' n = view s n)"
proof -
  obtain a s' where a: "ti_call (to_map objs name) (map_tmap_op ek ev op) s = (Inr a, s')" "getState s' = ACTIVE" "committed s' = committed s"
      "tmap_answers (map_tmap_op ek ev op) (view s name) a" "view s' = (view s)(name := tmap_next (map_tmap_op ek ev op) (view s name))"
    using call_law [OF assms(1)] by blast
  obtain b where "decode_tans toKey toObj a = Inr b" "tmap_answers op m b"
    using answer_decodes [OF assms(2,3) a(4)] by blast
  then show ?thesis
    using a encodes_next [OF assms(2,3)] by (simp add: tm_call_untyped [OF assms(3)])
qed

lemma tm_calls_ok:
  assumes "getState s = ACTIVE" "encodes ek kvalid ev vvalid (view s name) m" "\<forall>op \<in> set ops. valid_op op"
  shows "\<exists>as s' m'. run_calls (tm_call (to_map objs name) kd vd toKey toObj) ops s = (map Inr as, s') \<and> tmap_trace ops m as m'
    \<and> getState s' = ACTIVE \<and> committed s' = committed s \<and> encodes ek kvalid ev vvalid (view s' name) m'
    \<and> (\<forall>n. n \<noteq> name \<longrightarrow> view s' n = view s n)"
  using assms
proof (induction ops arbitrary: s m)
  case Nil
  then show ?case by (intro exI [of _ "[]"]) auto
next
  case (Cons op ops)
  obtain a s1 where 1: "tm_call (to_map objs name) kd vd toKey toObj op s = (Inr a, s1)" "tmap_answers op m a" "getState s1 = ACTIVE"
      "committed s1 = committed s" "encodes ek kvalid ev vvalid (view s1 name) (tmap_next op m)" "\<forall>n. n \<noteq> name \<longrightarrow> view s1 n = view s n"
    using tm_call_ok [OF Cons.prems(1,2), of op] Cons.prems(3) by auto
  obtain as s2 m2 where 2: "run_calls (tm_call (to_map objs name) kd vd toKey toObj) ops s1 = (map Inr as, s2)" "tmap_trace ops (tmap_next op m) as m2"
      "getState s2 = ACTIVE" "committed s2 = committed s1" "encodes ek kvalid ev vvalid (view s2 name) m2" "\<forall>n. n \<noteq> name \<longrightarrow> view s2 n = view s1 n"
    using Cons.IH [OF 1(3,5)] Cons.prems(3) by auto
  show ?case
    using 1 2 by (intro exI [of _ "a # as"] exI [of _ s2] exI [of _ m2]) auto
qed

lemma session_ok:
  assumes "getState s \<noteq> ACTIVE" "encodes ek kvalid ev vvalid (committed s name) m" "\<forall>op \<in> set ops. valid_op op"
  obtains as s1 m' where "tmap_trace ops m as m'" "getState s1 = ACTIVE" "committed s1 = committed s"
    "encodes ek kvalid ev vvalid (view s1 name) m'" "\<forall>n. n \<noteq> name \<longrightarrow> view s1 n = committed s n"
    "\<And>end_txn. txn_session getState objs begin_txn end_txn kd vd toKey toObj name ops s = bindM end_txn (\<lambda>_. retM (map Inr as)) s1"
proof -
  obtain s0 where 0: "begin_txn s = (Inr (), s0)" "getState s0 = ACTIVE" "committed s0 = committed s" "view s0 = committed s"
    using begin_law [OF assms(1)] by blast
  obtain as s1 m' where 1: "run_calls (tm_call (to_map objs name) kd vd toKey toObj) ops s0 = (map Inr as, s1)" "tmap_trace ops m as m'"
      "getState s1 = ACTIVE" "committed s1 = committed s0" "encodes ek kvalid ev vvalid (view s1 name) m'" "\<forall>n. n \<noteq> name \<longrightarrow> view s1 n = view s0 n"
    using tm_calls_ok [OF 0(2), of name m ops] 0(4) assms(2,3) by auto
  have get: "getMap getState objs name s0 = (Inr (to_map objs name), s0)"
    using 0(2) by (simp add: getMap_def getTransactionalObject_def)
  have "txn_session getState objs begin_txn end_txn kd vd toKey toObj name ops s = bindM end_txn (\<lambda>_. retM (map Inr as)) s1" for end_txn
    unfolding txn_session_def by (simp add: bindM_Inr [where f = begin_txn, OF 0(1)] bindM_Inr [where f = "getMap getState objs name", OF get] 1(1))
  then show ?thesis
    using that [OF 1(2,3) _ 1(5)] 0(3,4) 1(4,6) by simp
qed

end

section \<open>A cluster with one transaction at a time\<close>

record 'd ref_txn =
  rt_state :: TxnState
  rt_committed :: "string \<Rightarrow> ('d \<times> 'd) list"
  rt_view :: "string \<Rightarrow> ('d \<times> 'd) list"

fun ref_next :: "('d, 'd) tmap_op \<Rightarrow> ('d \<times> 'd) list \<Rightarrow> ('d \<times> 'd) list" where
  "ref_next (T_put k v) m = AList.update k v m"
| "ref_next (T_set k v) m = AList.update k v m"
| "ref_next (T_putIfAbsent k v) m = (if map_of m k = None then AList.update k v m else m)"
| "ref_next (T_replace k v) m = (if map_of m k = None then m else AList.update k v m)"
| "ref_next (T_replace_if k v w) m = (if map_of m k = Some v then AList.update k w m else m)"
| "ref_next (T_remove k) m = AList.delete k m"
| "ref_next (T_deleteEntry k) m = AList.delete k m"
| "ref_next (T_remove_if k v) m = (if map_of m k = Some v then AList.delete k m else m)"
| "ref_next _ m = m"

text \<open>A message is refused unless the transaction is active.\<close>

definition ref_message :: "string \<Rightarrow> ('d, 'd) tmap_op \<Rightarrow> (('d \<times> 'd) list \<Rightarrow> 'a) \<Rightarrow> ('d ref_txn, 'a) comp" where
  "ref_message name op f s =
     (if rt_state s = ACTIVE
      then (Inr (f (rt_view s name)), s\<lparr>rt_view := (rt_view s)(name := ref_next op (rt_view s name))\<rparr>)
      else (Inl IllegalStateException, s))"

definition ref_tmap :: "string \<Rightarrow> ('d ref_txn, 'd, unit) tmap_impl" where
  "ref_tmap name =
     \<lparr>ti_containsKey = (\<lambda>k. ref_message name (T_containsKey k) (\<lambda>m. map_of m k \<noteq> None)),
      ti_getData = (\<lambda>k. ref_message name (T_get k) (\<lambda>m. map_of m k)),
      ti_size = ref_message name T_size (\<lambda>m. int (card (set (map fst m)))),
      ti_isEmpty = ref_message name T_isEmpty (\<lambda>m. m = []),
      ti_putData = (\<lambda>k v. ref_message name (T_put k v) (\<lambda>m. map_of m k)),
      ti_set = (\<lambda>k v. ref_message name (T_set k v) (\<lambda>_. ())),
      ti_putIfAbsentData = (\<lambda>k v. ref_message name (T_putIfAbsent k v) (\<lambda>m. map_of m k)),
      ti_replaceData = (\<lambda>k v. ref_message name (T_replace k v) (\<lambda>m. map_of m k)),
      ti_replace = (\<lambda>k v w. ref_message name (T_replace_if k v w) (\<lambda>m. map_of m k = Some v)),
      ti_removeData = (\<lambda>k. ref_message name (T_remove k) (\<lambda>m. map_of m k)),
      ti_deleteEntry = (\<lambda>k. ref_message name (T_deleteEntry k) (\<lambda>_. ())),
      ti_remove = (\<lambda>k v. ref_message name (T_remove_if k v) (\<lambda>m. map_of m k = Some v)),
      ti_keySetData = (\<lambda>_. ref_message name T_keySet (\<lambda>m. remdups (map fst m))),
      ti_valuesData = (\<lambda>_. ref_message name T_keySet (\<lambda>m. map (the \<circ> map_of m) (remdups (map fst m))))\<rparr>"

definition ref_objects :: "('d ref_txn, 'd, unit) txn_objects" where
  "ref_objects =
     \<lparr>to_map = ref_tmap,
      to_queue = (\<lambda>_. \<lparr>tqi_offer = (\<lambda>_ _. throwM UnsupportedOperationException), tqi_pollData = (\<lambda>_. throwM UnsupportedOperationException),
        tqi_size = throwM UnsupportedOperationException\<rparr>),
      to_multiMap = (\<lambda>_. \<lparr>tmi_put = (\<lambda>_ _. throwM UnsupportedOperationException), tmi_getData = (\<lambda>_. throwM UnsupportedOperationException),
        tmi_remove = (\<lambda>_ _. throwM UnsupportedOperationException), tmi_removeData = (\<lambda>_. throwM UnsupportedOperationException),
        tmi_valueCount = (\<lambda>_. throwM UnsupportedOperationException), tmi_size = throwM UnsupportedOperationException\<rparr>),
      to_list = (\<lambda>_. \<lparr>tbi_add = (\<lambda>_. throwM UnsupportedOperationException), tbi_remove = (\<lambda>_. throwM UnsupportedOperationException),
        tbi_size = throwM UnsupportedOperationException\<rparr>),
      to_set = (\<lambda>_. \<lparr>tbi_add = (\<lambda>_. throwM UnsupportedOperationException), tbi_remove = (\<lambda>_. throwM UnsupportedOperationException),
        tbi_size = throwM UnsupportedOperationException\<rparr>)\<rparr>"

definition ref_begin :: "('d ref_txn, unit) comp" where
  "ref_begin s = (if rt_state s = ACTIVE then (Inl IllegalStateException, s) else (Inr (), s\<lparr>rt_state := ACTIVE, rt_view := rt_committed s\<rparr>))"

definition ref_commit :: "('d ref_txn, unit) comp" where
  "ref_commit s = (if rt_state s = ACTIVE then (Inr (), s\<lparr>rt_state := COMMITTED, rt_committed := rt_view s\<rparr>) else (Inl IllegalStateException, s))"

definition ref_rollback :: "('d ref_txn, unit) comp" where
  "ref_rollback s = (if rt_state s = ACTIVE then (Inr (), s\<lparr>rt_state := ROLLED_BACK\<rparr>) else (Inl IllegalStateException, s))"

lemma ref_next_map: "map_of (ref_next op m) = tmap_next op (map_of m)"
  by (cases op) (simp_all add: update_conv' delete_conv')

lemma ref_call_law:
  assumes "rt_state s = ACTIVE"
  shows "\<exists>a s'. ti_call (ref_tmap name) op s = (Inr a, s') \<and> rt_state s' = ACTIVE \<and> rt_committed s' = rt_committed s
    \<and> tmap_answers op (map_of (rt_view s name)) a \<and> rt_view s' = (rt_view s)(name := ref_next op (rt_view s name))"
  by (cases op) (use assms in \<open>auto simp: ref_tmap_def ref_message_def tanswer_def bindM_def retM_def dom_map_of_conv_image_fst\<close>)

interpretation txn_ref: txn_server ref_objects ref_begin ref_commit ref_rollback rt_state
  "\<lambda>s n. map_of (rt_committed s n)" "\<lambda>s n. map_of (rt_view s n)"
proof unfold_locales
  fix s :: "'d ref_txn" and op name
  assume "rt_state s = ACTIVE"
  from ref_call_law [OF this, of name op]
  show "\<exists>a s'. ti_call (to_map ref_objects name) op s = (Inr a, s') \<and> rt_state s' = ACTIVE
      \<and> (\<lambda>n. map_of (rt_committed s' n)) = (\<lambda>n. map_of (rt_committed s n)) \<and> tmap_answers op (map_of (rt_view s name)) a
      \<and> (\<lambda>n. map_of (rt_view s' n)) = (\<lambda>n. map_of (rt_view s n))(name := tmap_next op (map_of (rt_view s name)))"
    by (auto simp: ref_objects_def ref_next_map fun_eq_iff)
qed (simp_all add: ref_begin_def ref_commit_def ref_rollback_def)

interpretation ref_unary: typed_txn ref_objects ref_begin ref_commit ref_rollback rt_state
  "\<lambda>s n. map_of (rt_committed s n)" "\<lambda>s n. map_of (rt_view s n)"
  unary_data unary_object "\<lambda>n. replicate n ()" "\<lambda>_. True" unary_data unary_object "\<lambda>n. replicate n ()" "\<lambda>_. True"
  by unfold_locales

section \<open>Properties\<close>


definition empty_cluster :: "unit list ref_txn" where
  "empty_cluster = \<lparr>rt_state = NO_TXN, rt_committed = (\<lambda>_. []), rt_view = (\<lambda>_. [])\<rparr>"


text \<open>The adaptor reads values with their own type, the typed map reads them with the type of the keys.\<close>

lemma values_read_as_keys:
  assumes "ti_valuesData impl q s = (Inr ds, s')"
  shows "tm_values impl toKey q s = (txn_toObjectCollection toKey ds, s')"
    "rtm_values impl q s = (Inr (DataArray_new ds), s')"
  using assms by (simp_all add: tm_values_def rtm_values_def bindM_def liftR_def retM_def)

lemma adaptor_agrees:
  "rtm_get impl kd toObj = tm_get impl kd toObj" "rtm_put impl kd vd toObj = tm_put impl kd vd toObj"
  "rtm_putIfAbsent impl kd vd toObj = tm_putIfAbsent impl kd vd toObj" "rtm_replace impl kd vd toObj = tm_replace impl kd vd toObj"
  "rtm_remove impl kd toObj = tm_remove impl kd toObj" "rtq_poll qimpl toObj = tq_poll qimpl toObj"
  by (simp_all add: fun_eq_iff rtm_get_def tm_get_def rtm_put_def tm_put_def rtm_putIfAbsent_def tm_putIfAbsent_def rtm_replace_def
      tm_replace_def rtm_remove_def tm_remove_def rtq_poll_def rtq_poll_timed_def tq_poll_def tq_poll_timed_def)
end
