(* ===== verification/Spec2Isabelle.thy ===== *)
theory Spec2Isabelle
  imports Atomics Executor_Service Http_Store Invocation_Future Mixed_Map Near_Coherence Portable Predicates Queues Raw_Map Replicated_Map Ringbuffer Task_Future Transactions
begin

text \<open>
  Verification of the Hazelcast HTTP cache: an HTTP cache filter storage for Envoy that keeps response headers and
  body partitions in two distributed maps of a Hazelcast cluster, together with the parts of the bundled
  Hazelcast C++ client that this storage runs on.

  \<^bold>\<open>The program\<close>

  \<^item> \<open>hazelcast_http_cache.cc/.h\<close>: the cache. A lookup context asks the header map for the 64-bit hash of a request and then reads
    the body range by range; an insert context cuts a body that arrives in chunks into partitions, stores each under the
    decimal hash followed by its number, and stores the header entry last.
  \<^item> \<open>hazelcast_cache_entry.cc/.h\<close>: the two entry classes and the factory by which the client serializes them.
  \<^item> the client headers under \<open>cpp/Mac_64/hazelcast/include/hazelcast\<close> (\<open>client/...\<close> and \<open>util/...\<close> below): serialization, message
    buffers, the distributed map proxies, the near cache and the future of an invocation. Only the headers
    are part of the repository; what they leave to the client's library (the messages sent by \<open>IMapImpl\<close>, the sockets, the primitive
    serializers, the key-state marker, the statistics) is a parameter of the definitions that use it.

  \<^bold>\<open>The theories\<close>

  \<^item> \<open>Hz_Prelude\<close>: outcomes (\<open>hz_error\<close>, \<open>res\<close>), state-passing computations (\<open>comp\<close>, \<open>bindM\<close>), fixed-width integers,
    decimal printing, and the locale \<open>imap\<close>: what a client of a distributed map may rely on.
  \<^item> \<open>Hz_Wire\<close>: \<open>util/Bits.h\<close>, \<open>util/LittleEndianBufferWrapper.h\<close> and the templates of \<open>client/protocol/ClientMessage.h\<close>, on byte lists
    with a cursor: round trips, exact sizes, and that no accessor leaves the buffer.
  \<^item> \<open>Hz_Serial\<close>, \<open>Cache_Entry\<close>: the object streams and the serialization service (locale \<open>object_data_io\<close>), the cache entries over
    them, and that entries survive the trip through the service.
  \<^item> \<open>Sync_Map\<close>, \<open>Near_Config\<close>, \<open>Near_Eviction\<close>, \<open>Record_Store\<close>, \<open>Near_Cache\<close>: the near cache from its locked maps up: configuration with its
    checks, records, sampling and eviction, the record stores of serialized values and of objects, and
    \<open>DefaultNearCache\<close> with its expiration thread: bounds, counters, expiry, eviction.
  \<^item> \<open>Map_Proxy\<close>, \<open>Map_Laws\<close>: \<open>ClientMapProxy\<close>, \<open>NearCachedClientMapProxy\<close> and their factory. The virtual methods of a proxy are the record
    \<open>map_vt\<close>, the messages to the cluster the record \<open>IMapImpl\<close>. The locales \<open>imap_server\<close> (a cluster), \<open>typed_map\<close> (with its
    conversions) and \<open>near_map\<close> (with a near cache) lead from the contract of the cluster to the contract \<open>imap\<close> and to
    the refinement of the near cached proxy to the plain one; all are interpreted on the model's definitions over a reference cluster.
  \<^item> \<open>Near_Coherence\<close>: the same reads as interleaved accesses to one key: the marker protocol keeps single reads coherent,
    bulk reads break it.
  \<^item> \<open>Paging\<close>: \<open>PagingPredicate\<close>, the entry arrays and the paging queries of the map proxy: the anchors it keeps stay right, and
    every page is exact, wherever a client goes; what the predicate's own accessors and \<open>entrySet\<close> get wrong.
  \<^item> \<open>Invocation_Future\<close>: the future of an invocation as interleaved steps over an explicit store of its state objects: one
    completion, who is woken and who is not, timed waits.
  \<^item> \<open>Queues\<close>: the queues of \<open>util/\<close> (locale \<open>poll_queue\<close> for those that do not wait) and \<open>BlockingConcurrentQueue\<close> as interleaved steps:
    order and bounds, when no wakeup is lost, whom \<open>interrupt\<close> leaves asleep.
  \<^item> \<open>Task_Future\<close>: \<open>util/Future.h\<close>, the future of a task submitted to an executor: it settles once, its callbacks run once, and what
    a cancellation leaves behind.
  \<^item> \<open>Async_Calls\<close>: what clients of asynchronous calls hold: movable futures, whose response is taken once, decoding and completed futures, and
    pipelines as interleaved steps: never more open futures than the depth, and no thread that adds is forgotten.
  \<^item> \<open>Atomics\<close>: the counters, arrays of counters and sets that threads share under a mutex, with calls interleaved step by step: every interleaving is a
    sequence of calls.
  \<^item> \<open>Executor_Service\<close>: the distributed executor: where tasks are sent (locale \<open>exec_cluster\<close>: a client whose members can be reached), what cancels them,
    and the callback for several members as interleaved handlers, which is completed once, with every answer.
  \<^item> \<open>Collections\<close>: the distributed lists, sets, queues and multimaps over clusters that keep serialized elements (locales \<open>list_server\<close>, \<open>set_server\<close>,
    \<open>queue_server\<close>, and \<open>typed_list\<close>, \<open>typed_set\<close> with elements that survive serialization): a list answers as a list of its elements, a set as a set; what draining
    a queue loses.
  \<^item> \<open>Raw_Map\<close>: the adaptor of distributed maps that gives owned pointers and arrays: it does what the map does, except that its writes do not reach the near cache.
  \<^item> \<open>Mixed_Map\<close>: the map whose answers stay serialized until they are read (locale \<open>mixed_messages\<close> for its virtual methods): it is the typed map, operation by
    operation; entry views, interceptors, listener registrations and submissions of both classes.
  \<^item> \<open>Portable\<close>: nested portables and arrays of them in the output and the input of an object, over any stream with positions (locale \<open>portable_stream\<close>): an array with its
    table of positions reads back as it was written.
  \<^item> \<open>Predicates\<close>: what a query sends: the predicates on attributes and the paging predicate as bytes (locale \<open>query_stream\<close>: strings and numbers that delimit
    themselves): the bytes determine the predicate.
  \<^item> \<open>Transactions\<close>: the context of a transaction and its typed objects, over a cluster that isolates transactions (locales \<open>txn_server\<close>, \<open>typed_txn\<close>): a transaction is all
    or nothing.
  \<^item> \<open>Listener_Events\<close>: the handlers that turn events of the cluster into calls of entry and item listeners: one call per event, and the events that
    crash them.
  \<^item> \<open>Reliable_Topic\<close>, \<open>Ringbuffer\<close>: the reliable topic, whose runners read a ring buffer batch by batch: messages arrive in order and a runner never
    stops asking; the ring buffer proxy with its checks.
  \<^item> \<open>Replicated_Map\<close>: the replicated map, a proxy with a near cache of its own over any cluster that keeps a map (locales \<open>rep_server\<close> and
    \<open>rep_near\<close>, interpreted for both record stores): the near cache does not show while calls succeed, and shows when a \<open>put\<close> fails.
  \<^item> \<open>Http_Cache\<close>: the cache over two abstract maps (locale \<open>http_maps\<close>, which extends \<open>imap\<close>): partitioning, reading, failures.
  \<^item> \<open>Http_Store\<close> and this theory: the cache over the proxies, the serialization service and any two clusters that keep the contract,
    without a locale in the statements: a response inserted is found again, ranges, other responses, clearing, and
    that both maps stay well typed.

  \<^bold>\<open>Bounds and fuel\<close>

  Sizes are natural numbers with the wrap-around at 64 and 32 bits written out (\<open>u64\<close>, \<open>u64_sub\<close>, \<open>wrap32\<close>); \<open>sizes_ok\<close> asks for a partition size and a
  body below 2 to the 63, fewer than 2 to the 31 partitions, and a partition that a serialized
  vector can hold. \<open>insert_loop\<close> runs on one unit of fuel per iteration and \<open>insertBody\<close> gives it the chunk length plus two, which is proved to be
  enough; \<open>read_body\<close> gets the length of the range plus one; \<open>unblockAll\<close> gets the number of objects, and two units suffice;
  \<open>setAnchor\<close> gets the number of entries plus one, which every positive page size ends within (\<open>setAnchor_loop_ok\<close>); the fuel of \<open>rb_invoke\<close> bounds how
  often asking a ring buffer for its head fails with a stale sequence, which the cluster never answers to that request.

  \<^bold>\<open>Not modelled\<close>

  Envoy itself (its header maps, buffers and request hashing are parameters with their documented behaviour as hypotheses), sockets and
  messages of the client, locks as such (a method under a lock is one step, except in \<open>Atomics\<close>), destructors and memory
  (a dereferenced null pointer is the error \<open>NullDereference\<close>), logging and printing. Of the client, everything whose body is not in the repository, which ships the
  client as headers and a compiled library: the messages of the distributed objects, the streams, the compound and pattern predicates, the field tables of portables, the near cached map of mixed types, and the
  cluster, connection and discovery management; where modelled code calls it, it is a parameter. Left out as pure forwarding: the facades \<open>IMap\<close> and \<open>mixedtype/IMap\<close>, and
  the registration of item listeners. The vendored third-party headers and the examples are not part of the program.
\<close>

section \<open>The HTTP cache over its maps\<close>



text \<open>Claim C1: a response inserted in any number of chunks of any sizes is found again: over clusters that behave as
  documented, inserting succeeds, a lookup with the same key answers with the response's headers, in order, and its
  body length, and reading the body back range by range gives exactly its bytes.\<close>

theorem insert_then_lookup:
  assumes store: "http_store_ok bimpl bs bok himpl hs hok svc H kb kh" and M: "M = http_ops bimpl himpl svc kb kh env"
    and E: "buffer_contract E content" and cl: "hz cache = Some cl" and c: "maps_ready bok hok bs hs svc c"
    and ic: "makeInsertContext junk cache (Some lc) = Inr ic" and P: "lc_partition_size lc = bodySizePerEntry cache"
    and chunks: "chunks \<noteq> []" "body = concat (map content chunks)" "sizes_ok (bodySizePerEntry cache) (length body)"
    and hd: "storable_header H \<lparr>header_map_ptr = Some (copyHeaderMap E rh), total_body_size = length body\<rparr>"
  shows "\<exists>c1 ic1 c2 lc2 c3 h. insert_response E M cache rh chunks (c, ic) = (Inr (), (c1, ic1))
    \<and> getHeaders E M cache lc c1 = (Inr (makeLookupResult E (lookup_request lc) (Some h) (length body), lc2), c2)
    \<and> hm_entries H h = hm_entries H (copyHeaderMap E rh)
    \<and> body_cached bok hok bs hs svc kb body c2 lc2
    \<and> read_body (Suc (length body)) M cache lc2 0 0 (length body) [] c2 = (Inr body, c3)"
proof -
  let ?lc = "lc\<lparr>lc_total_body_size := length body\<rparr>"
  note L = http_maps_over_proxies [OF store, of env]
  obtain c1 ic1 where ins: "insert_response E M cache rh chunks (c, ic) = (Inr (), (c1, ic1))"
    "http_maps.response_stored (bodies_of bs svc kb) (bodies_ready bs bok svc kb) (headers_of hs svc kh)
        (headers_ready hs hok svc kh) H (bodySizePerEntry cache) (lc_hash_key lc) (copyHeaderMap E rh) body c c1"
    using insert_response_cached [OF store M E cl c ic chunks hd] by blast
  obtain c2 h where g: "getHeaders E M cache lc c1 = (Inr (makeLookupResult E (lookup_request lc) (Some h) (length body), ?lc), c2)"
    "hm_entries H h = hm_entries H (copyHeaderMap E rh)"
    "http_maps.body_available (bodies_of bs svc kb) (bodies_ready bs bok svc kb) (headers_ready hs hok svc kh)
      (bodySizePerEntry cache) (lc_hash_key lc) body c2 ?lc"
    using http_maps.getHeaders_after_insert [OF L cl ins(2) refl P] unfolding M by blast
  obtain c3 where r: "read_body (Suc (length body)) M cache ?lc 0 0 (length body) (take (0 - 0) (drop 0 body)) c2
      = (Inr (take (length body - 0) (drop 0 body)), c3)"
    using http_maps.read_body_ok [OF L cl g(3) chunks(3), of 0 0 "length body" "Suc (length body)"] unfolding M by auto
  have "body_cached bok hok bs hs svc kb body c2 ?lc"
    unfolding body_cached_iff [OF L] using g(3) P by simp
  then show ?thesis using ins(1) g(1,2) r by (auto simp del: read_body.simps)
qed

theorem insert_then_lookup_witness:
  "\<exists>c1 ic1 c2 lc2 c3 h. insert_response list_envoy example_maps (small_cache 2) [([1], [2])] [[1, 2], [3]] (empty_maps, fresh_insert 7 2)
      = (Inr (), (c1, ic1))
    \<and> getHeaders list_envoy example_maps (small_cache 2) (makeLookupContext list_envoy 0 (small_cache 2) 7) c1
      = (Inr ((Some [([1], [2])], 3), lc2), c2)
    \<and> read_body 4 example_maps (small_cache 2) lc2 0 0 3 [] c2 = (Inr [1, 2, 3], c3)"
proof -
  let ?lc = "makeLookupContext list_envoy 0 (small_cache 2) 7" and ?b = "[1, 2, 3] :: byte list"
  have len: "length ?b = 3" "Suc (length ?b) = 4" by simp_all
  have "\<exists>c1 ic1 c2 lc2 c3 h. insert_response list_envoy example_maps (small_cache 2) [([1], [2])] [[1, 2], [3]] (empty_maps, fresh_insert 7 2)
      = (Inr (), (c1, ic1))
    \<and> getHeaders list_envoy example_maps (small_cache 2) ?lc c1
      = (Inr (makeLookupResult list_envoy (lookup_request ?lc) (Some h) (length ?b), lc2), c2)
    \<and> hm_entries (list_headers {}) h = hm_entries (list_headers {}) (copyHeaderMap list_envoy [([1], [2])])
    \<and> example_cached ?b c2 lc2 \<and> read_body (Suc (length ?b)) example_maps (small_cache 2) lc2 0 0 (length ?b) [] c2 = (Inr ?b, c3)"
    by (rule insert_then_lookup [OF reference_store_ok example_maps_def list_envoy_contract small_cache_simps(1) empty_maps_ready
          fresh_insert_context [of 2 7]]) (simp_all add: example_header sizes_ok_def)
  then show ?thesis unfolding len by (simp add: list_envoy_def list_headers_def del: read_body.simps) blast
qed

text \<open>Claim C2: any range of a cached body that starts at a partition boundary is read back exactly, for every end of the range,
  and reading leaves the body cached.\<close>

theorem cached_range_reads_exactly:
  assumes store: "http_store_ok bimpl bs bok himpl hs hok svc H kb kh" and M: "M = http_ops bimpl himpl svc kb kh env"
    and cl: "hz cache = Some cl" and av: "body_cached bok hok bs hs svc kb body c lc"
    and sz: "sizes_ok (lc_partition_size lc) (length body)"
    and r: "start mod lc_partition_size lc = 0" "start \<le> stop" "stop \<le> length body"
  shows "\<exists>c'. read_body (Suc (stop - start)) M cache lc start start stop [] c = (Inr (take (stop - start) (drop start body)), c')
    \<and> body_cached bok hok bs hs svc kb body c' lc"
proof -
  note L = http_maps_over_proxies [OF store, of env]
  have "http_maps.body_available (bodies_of bs svc kb) (bodies_ready bs bok svc kb) (headers_ready hs hok svc kh)
      (lc_partition_size lc) (lc_hash_key lc) body c lc"
    using av unfolding body_cached_iff [OF L] .
  from http_maps.read_body_ok [OF L cl this sz, of start start stop "Suc (stop - start)"]
  show ?thesis unfolding M body_cached_iff [OF L] using r by simp
qed

theorem cached_range_reads_exactly_witness:
  "\<exists>(c :: (example_proxy, example_proxy) cluster) (lc :: nat LookupContext) c'. example_cached [1, 2, 3] c lc
    \<and> read_body 2 example_maps (small_cache 2) lc 2 2 3 [] c = (Inr [3], c')"
proof -
  let ?lc = "(makeLookupContext list_envoy 0 (small_cache 2) 7)\<lparr>lc_total_body_size := 3\<rparr>"
  obtain c :: "(example_proxy, example_proxy) cluster" where c: "example_cached [1, 2, 3] c ?lc"
    by (rule example_body_cached [of 2 3 "[1, 2, 3]"]) (simp_all add: sizes_ok_def)
  have "sizes_ok (lc_partition_size ?lc) (length [1, 2, 3 :: byte])" by (simp add: sizes_ok_def)
  from cached_range_reads_exactly [OF reference_store_ok example_maps_def small_cache_simps(1) [of 2] c this, of 2 3]
  have "\<exists>c'. read_body 2 example_maps (small_cache 2) ?lc 2 2 3 [] c = (Inr [3], c')"
    by (auto simp: numeral_2_eq_2 numeral_3_eq_3 simp del: read_body.simps)
  then show ?thesis using c by blast
qed

text \<open>Claim C8: a range that starts inside a partition and ends inside the same one is not read correctly: the code asks for as many bytes as
  the end's offset in the partition, so it returns bytes past the end of the range, or copies past the end of the stored
  partition, and never the range that was asked for.\<close>

theorem inner_range_reads_past_end:
  assumes store: "http_store_ok bimpl bs bok himpl hs hok svc H kb kh" and M: "M = http_ops bimpl himpl svc kb kh env"
    and cl: "hz cache = Some cl" and av: "body_cached bok hok bs hs svc kb body c lc"
    and P: "P = lc_partition_size lc" and sz: "sizes_ok P (length body)"
    and r: "0 < s" "s < t" "t < P" "i * P + t \<le> length body"
  shows "\<exists>c'. getBody M cache lc (i * P + s) (i * P + t) c
      = (if s + t \<le> length (block P i body) then Inr (Some (take t (drop (i * P + s) (take (Suc i * P) body)))) else Inl OutOfBounds, c')
    \<and> (s + t \<le> length (block P i body) \<longrightarrow> length (take t (drop (i * P + s) (take (Suc i * P) body))) \<noteq> t - s)"
proof -
  note L = http_maps_over_proxies [OF store, of env]
  have av': "http_maps.body_available (bodies_of bs svc kb) (bodies_ready bs bok svc kb) (headers_ready hs hok svc kh)
      P (lc_hash_key lc) body c lc"
    using av unfolding body_cached_iff [OF L] P .
  have d: "(i * P + s) div P = i" "(i * P + s) mod P = s" "(i * P + t) mod P = t" using r by simp_all
  have lt: "i * P + t < (i + 1) * P" using r(3) by simp
  have b: "drop s (block P i body) = drop (i * P + s) (take (Suc i * P) body)"
    by (simp add: block_def drop_take add.commute)
  have copy: "copy_from (block P i body) s t
      = (if s + t \<le> length (block P i body) then Inr (take t (drop s (block P i body))) else Inl OutOfBounds)"
    using r by (auto simp: copy_from_def)
  obtain c' where "getBody M cache lc (i * P + s) (i * P + t) c = (map_sum id Some (copy_from (block P i body) s t), c')"
    using http_maps.getBody_eq [OF L cl av' sz, of "i * P + s" "i * P + t"] r(2,4) d lt unfolding M by auto
  moreover have "length (take t (drop s (block P i body))) = t" if "s + t \<le> length (block P i body)" using that by simp
  ultimately show ?thesis using r copy unfolding b [symmetric] by (intro exI [of _ c']) auto
qed

theorem inner_range_reads_past_end_witness:
  "\<exists>(c :: (example_proxy, example_proxy) cluster) (lc :: nat LookupContext) c'. example_cached [1, 2, 3, 4, 5] c lc
    \<and> getBody example_maps (small_cache 4) lc 1 2 c = (Inr (Some [2, 3]), c')"
proof -
  let ?lc = "(makeLookupContext list_envoy 0 (small_cache 4) 7)\<lparr>lc_total_body_size := 5\<rparr>"
  obtain c :: "(example_proxy, example_proxy) cluster" where c: "example_cached [1, 2, 3, 4, 5] c ?lc"
    by (rule example_body_cached [of 4 5 "[1, 2, 3, 4, 5]"]) (simp_all add: sizes_ok_def)
  have "sizes_ok 4 (length [1, 2, 3, 4, 5 :: byte])" by (simp add: sizes_ok_def)
  from inner_range_reads_past_end [OF reference_store_ok example_maps_def small_cache_simps(1) [of 4] c _ this, of 1 2 0]
  have "\<exists>c'. getBody example_maps (small_cache 4) ?lc 1 2 c = (Inr (Some [2, 3]), c')"
    by (auto simp: block_def makeLookupContext_def numeral_2_eq_2)
  then show ?thesis using c by blast
qed

text \<open>Claim C3: responses do not disturb each other as long as their hashes have the same number of decimal digits: inserting a
  response under a different hash of the same width, in any chunks, leaves a cached body cached and readable.\<close>

theorem other_insert_keeps_body:
  assumes store: "http_store_ok bimpl bs bok himpl hs hok svc H kb kh" and M: "M = http_ops bimpl himpl svc kb kh env"
    and E: "buffer_contract E content" and cl: "hz cache = Some cl" and av: "body_cached bok hok bs hs svc kb body c lc"
    and P: "lc_partition_size lc = bodySizePerEntry cache" and sz: "sizes_ok (bodySizePerEntry cache) (length body)"
    and ic: "makeInsertContext junk cache (Some lc') = Inr ic"
    and w: "length (nat_to_string (lc_hash_key lc)) = length (nat_to_string (lc_hash_key lc'))" "lc_hash_key lc \<noteq> lc_hash_key lc'"
    and chunks: "chunks \<noteq> []" "body' = concat (map content chunks)" "sizes_ok (bodySizePerEntry cache) (length body')"
    and hd: "storable_header H \<lparr>header_map_ptr = Some (copyHeaderMap E rh), total_body_size = length body'\<rparr>"
  shows "\<exists>c1 ic1 c2. insert_response E M cache rh chunks (c, ic) = (Inr (), (c1, ic1))
    \<and> body_cached bok hok bs hs svc kb body c1 lc
    \<and> read_body (Suc (length body)) M cache lc 0 0 (length body) [] c1 = (Inr body, c2)"
proof -
  note L = http_maps_over_proxies [OF store, of env]
  have c: "maps_ready bok hok bs hs svc c" using av by (simp add: body_cached_def)
  obtain c1 ic1 where ins: "insert_response E M cache rh chunks (c, ic) = (Inr (), (c1, ic1))"
    "http_maps.response_stored (bodies_of bs svc kb) (bodies_ready bs bok svc kb) (headers_of hs svc kh)
        (headers_ready hs hok svc kh) H (bodySizePerEntry cache) (lc_hash_key lc') (copyHeaderMap E rh) body' c c1"
    using insert_response_cached [OF store M E cl c ic chunks hd] by blast
  have av': "http_maps.body_available (bodies_of bs svc kb) (bodies_ready bs bok svc kb) (headers_ready hs hok svc kh)
      (bodySizePerEntry cache) (lc_hash_key lc) body c1 lc"
    using http_maps.stored_keeps_other [OF L ins(2) _ w] av P unfolding body_cached_iff [OF L] by simp
  obtain c2 where "read_body (Suc (length body)) M cache lc 0 0 (length body) (take (0 - 0) (drop 0 body)) c1
      = (Inr (take (length body - 0) (drop 0 body)), c2)"
    using http_maps.read_body_ok [OF L cl av' sz, of 0 0 "length body" "Suc (length body)"] unfolding M by auto
  moreover have "body_cached bok hok bs hs svc kb body c1 lc" unfolding body_cached_iff [OF L] using av' P by simp
  ultimately show ?thesis using ins(1) by (auto simp del: read_body.simps)
qed

theorem other_insert_keeps_body_witness:
  "\<exists>(c :: (example_proxy, example_proxy) cluster) (lc :: nat LookupContext) c1 ic1 c2. example_cached [1, 2, 3] c lc
    \<and> insert_response list_envoy example_maps (small_cache 2) [([1], [2])] [[4], [5, 6]] (c, fresh_insert 8 2) = (Inr (), (c1, ic1))
    \<and> read_body 4 example_maps (small_cache 2) lc 0 0 3 [] c1 = (Inr [1, 2, 3], c2)"
proof -
  let ?lc = "(makeLookupContext list_envoy 0 (small_cache 2) 7)\<lparr>lc_total_body_size := 3\<rparr>"
  obtain c :: "(example_proxy, example_proxy) cluster" where c: "example_cached [1, 2, 3] c ?lc"
    by (rule example_body_cached [of 2 3 "[1, 2, 3]"]) (simp_all add: sizes_ok_def)
  let ?b = "[1, 2, 3] :: byte list"
  have len: "length ?b = 3" "Suc 3 = (4 :: nat)" by simp_all
  have "\<exists>c1 ic1 c2. insert_response list_envoy example_maps (small_cache 2) [([1], [2])] [[4], [5, 6]] (c, fresh_insert 8 2) = (Inr (), (c1, ic1))
      \<and> example_cached ?b c1 ?lc \<and> read_body (Suc (length ?b)) example_maps (small_cache 2) ?lc 0 0 (length ?b) [] c1 = (Inr ?b, c2)"
    by (rule other_insert_keeps_body [OF reference_store_ok example_maps_def list_envoy_contract small_cache_simps(1) c
          _ _ fresh_insert_context [of 2 8], where body' = "[4, 5, 6]"]) (simp_all add: example_header sizes_ok_def nat_to_string.simps)
  then have "\<exists>c1 ic1 c2. insert_response list_envoy example_maps (small_cache 2) [([1], [2])] [[4], [5, 6]] (c, fresh_insert 8 2) = (Inr (), (c1, ic1))
      \<and> read_body 4 example_maps (small_cache 2) ?lc 0 0 3 [] c1 = (Inr [1, 2, 3], c2)"
    unfolding len by blast
  then show ?thesis using c by blast
qed

text \<open>Claim C9: after \<open>clearMaps\<close> every lookup is a miss, whatever was cached before.\<close>

theorem cleared_maps_miss:
  assumes store: "http_store_ok bimpl bs bok himpl hs hok svc H kb kh" and M: "M = http_ops bimpl himpl svc kb kh env"
    and cl: "hz cache = Some cl" and c: "maps_ready bok hok bs hs svc c"
  shows "\<exists>c' c''. clearMaps M cache c = (Inr (), c') \<and> maps_ready bok hok bs hs svc c'
    \<and> getHeaders E M cache lc c' = (Inr (emptyLookupResult E, lc), c'')"
proof -
  note L = http_maps_over_proxies [OF store, of env]
  have ok: "http_maps.cluster_ok (bodies_ready bs bok svc kb) (headers_ready hs hok svc kh) c"
    unfolding http_maps.cluster_ok_def [OF L] using c maps_ready_iff by blast
  obtain c' where c': "clearMaps M cache c = (Inr (), c')"
    "http_maps.cluster_ok (bodies_ready bs bok svc kb) (headers_ready hs hok svc kh) c'" "headers_of hs svc kh (header_map c') = Map.empty"
    using http_maps.clearMaps_ok [OF L cl ok] unfolding M by blast
  obtain c'' where "lookupHeader M cache (lc_hash_key lc) c' = (Inr None, c'')"
    using http_maps.lookupHeader_ok [OF L cl c'(2), of "lc_hash_key lc"] c'(3) unfolding M by auto
  then have "getHeaders E M cache lc c' = (Inr (emptyLookupResult E, lc), c'')" by (simp add: getHeaders_def bindM_def retM_def)
  moreover have "maps_ready bok hok bs hs svc c'"
    using c'(2) unfolding http_maps.cluster_ok_def [OF L] maps_ready_iff [of bok hok bs hs svc c' kb kh] .
  ultimately show ?thesis using c'(1) by blast
qed

theorem cleared_maps_miss_witness:
  "\<exists>(c :: (example_proxy, example_proxy) cluster) (lc :: nat LookupContext) c' c''. example_cached [1, 2, 3] c lc
    \<and> clearMaps example_maps (small_cache 2) c = (Inr (), c')
    \<and> getHeaders list_envoy example_maps (small_cache 2) lc c' = (Inr ((None, 0), lc), c'')"
proof -
  let ?lc = "(makeLookupContext list_envoy 0 (small_cache 2) 7)\<lparr>lc_total_body_size := 3\<rparr>"
  obtain c :: "(example_proxy, example_proxy) cluster" where c: "example_cached [1, 2, 3] c ?lc"
    by (rule example_body_cached [of 2 3 "[1, 2, 3]"]) (simp_all add: sizes_ok_def)
  then have "example_ready c" by (simp add: body_cached_def)
  from cleared_maps_miss [OF reference_store_ok example_maps_def small_cache_simps(1) [of 2] this, of list_envoy ?lc]
  show ?thesis using c by (auto simp: list_envoy_def)
qed

text \<open>Claim C10: the two maps stay well typed: whatever sequence of insertions, lookups, reads of any ranges and clearings Envoy performs on
  a cache over clusters that behave as documented, every value of the body map is a serialized body entry and every value of the header map a serialized header
  entry, so that no lookup casts an object to the wrong class: a lookup of any key answers, with an entry of the map's class or none, and of the operations only
  the copy of a range that was asked for wrongly can fail.\<close>

theorem cache_stays_typed:
  assumes store: "http_store_ok bimpl bs bok himpl hs hok svc H kb kh" and M: "M = http_ops bimpl himpl svc kb kh env"
    and E: "buffer_contract E content" and cl: "hz cache = Some cl" and c: "maps_ready bok hok bs hs svc c"
    and ops: "\<forall>x \<in> set xs. cache_op_ok E content H (bodySizePerEntry cache) x"
  shows "let c' = fold (\<lambda>x c. snd (run_cache E M cache junk x c)) xs c
    in maps_ready bok hok bs hs svc c' \<and> is_ok (fst (lookupHeader M cache hash c')) \<and> is_ok (fst (lookupBody M cache key c'))
      \<and> (\<forall>x. cache_op_ok E content H (bodySizePerEntry cache) x \<longrightarrow> is_ok (fst (run_cache E M cache junk x c')) \<or> (\<exists>lc i j. x = CRead lc i j))"
proof -
  let ?c = "fold (\<lambda>x c. snd (run_cache E M cache junk x c)) xs c"
  note L = http_maps_over_proxies [OF store, of env]
  have ok: "http_maps.cluster_ok (bodies_ready bs bok svc kb) (headers_ready hs hok svc kh) c"
    unfolding http_maps.cluster_ok_def [OF L] using c maps_ready_iff by blast
  have ok': "http_maps.cluster_ok (bodies_ready bs bok svc kb) (headers_ready hs hok svc kh) ?c"
    unfolding M by (rule http_maps.runs_cache_keep [OF L E cl ok ops])
  then have "maps_ready bok hok bs hs svc ?c"
    unfolding http_maps.cluster_ok_def [OF L] maps_ready_iff [of bok hok bs hs svc ?c kb kh] .
  then show ?thesis
    using http_maps.lookupHeader_ok [OF L cl ok', of hash] http_maps.lookupBody_ok [OF L cl ok', of key] http_maps.run_cache_keeps [OF L E cl ok', of _ junk]
    unfolding M Let_def by auto
qed

theorem cache_stays_typed_witness:
  "\<exists>c. maps_ready ref_ok ref_ok sm_abs sm_abs (cache_service False (list_headers {}) 0) c
     \<and> c = fold (\<lambda>x c. snd (run_cache list_envoy example_maps (small_cache 2) 0 x c))
         [CInsert (makeLookupContext list_envoy 0 (small_cache 2) 7) [([1], [2])] [[1, 2], [3]],
          CLookup (makeLookupContext list_envoy 0 (small_cache 2) 7), CRead (makeLookupContext list_envoy 0 (small_cache 2) 7) 1 9, CClear] empty_maps
     \<and> is_ok (fst (lookupHeader example_maps (small_cache 2) 7 c))"
  using cache_stays_typed [OF reference_store_ok example_maps_def list_envoy_contract small_cache_simps(1) [of 2] empty_maps_ready,
      of "[CInsert (makeLookupContext list_envoy 0 (small_cache 2) 7) [([1], [2])] [[1, 2], [3]],
          CLookup (makeLookupContext list_envoy 0 (small_cache 2) 7), CRead (makeLookupContext list_envoy 0 (small_cache 2) 7) 1 9, CClear]" 0 7 "[]"]
  unfolding Let_def by (simp add: example_header sizes_ok_def del: fold_simps run_cache.simps)

end
